(* ===== verification/Prelude.thy ===== *)
theory Prelude
  imports Main "HOL-Library.Word" "HOL-Library.Product_Lexorder"
begin

text \<open>
  What every component shares: the theorem collections of the development, the keyed
  table operations (a database table is a list of rows, a statement updates the rows with
  one key), and the Python conventions the code relies on (\<open>x or []\<close>, the truth value
  of an optional list, counting rows).
\<close>

named_theorems table_simps \<open>rewriting facts on tables of rows\<close>
named_theorems frame_simps \<open>what a statement leaves unchanged\<close>

section \<open>Optional values\<close>

text \<open>\<open>x or []\<close> for an optional list.\<close>

definition or_empty :: "'a list option \<Rightarrow> 'a list" where
  "or_empty x = (case x of None \<Rightarrow> [] | Some xs \<Rightarrow> xs)"

lemma or_empty_simps [simp]:
  "or_empty None = []"
  "or_empty (Some xs) = xs"
  by (simp_all add: or_empty_def)

text \<open>\<open>xs or None\<close> for a list.\<close>

definition none_if_empty :: "'a list \<Rightarrow> 'a list option" where
  "none_if_empty xs = (if xs = [] then None else Some xs)"

lemma or_empty_none_if_empty [simp]: "or_empty (none_if_empty xs) = xs"
  by (simp add: none_if_empty_def)

section \<open>Errors\<close>

text \<open>\<open>mapM\<close> in the error sum: the first failing element decides.\<close>

fun sum_map :: "('a \<Rightarrow> 'e + 'b) \<Rightarrow> 'a list \<Rightarrow> 'e + 'b list" where
  "sum_map f [] = Inr []"
| "sum_map f (x # xs) =
     (case f x of
        Inl e \<Rightarrow> Inl e
      | Inr y \<Rightarrow> (case sum_map f xs of Inl e \<Rightarrow> Inl e | Inr ys \<Rightarrow> Inr (y # ys)))"

lemma sum_map_Inr_iff:
  "sum_map f xs = Inr ys \<longleftrightarrow> list_all2 (\<lambda>x y. f x = Inr y) xs ys"
proof (induction xs arbitrary: ys)
  case Nil
  then show ?case by auto
next
  case (Cons x xs)
  then show ?case
    by (cases ys; cases "sum_map f xs") (auto split: sum.splits)
qed

lemma sum_map_length: "sum_map f xs = Inr ys \<Longrightarrow> length ys = length xs"
  by (auto simp: sum_map_Inr_iff dest: list_all2_lengthD)

lemma sum_map_total: "\<forall>x \<in> set xs. \<exists>y. f x = Inr y \<Longrightarrow> \<exists>ys. sum_map f xs = Inr ys"
  by (induction xs) (auto split: sum.splits)

lemma sum_map_set: "sum_map f xs = Inr ys \<Longrightarrow> y \<in> set ys \<longleftrightarrow> (\<exists>x \<in> set xs. f x = Inr y)"
proof (induction xs arbitrary: ys)
  case Nil
  then show ?case by simp
next
  case (Cons x xs)
  then show ?case by (auto split: sum.splits)
qed

lemma sum_map_append:
  "sum_map f (xs @ ys) =
     (case sum_map f xs of
        Inl e \<Rightarrow> Inl e
      | Inr as \<Rightarrow> (case sum_map f ys of Inl e \<Rightarrow> Inl e | Inr bs \<Rightarrow> Inr (as @ bs)))"
  by (induction xs) (auto split: sum.splits)

lemma sum_map_cong_Inr: "(\<And>x. x \<in> set xs \<Longrightarrow> f x = Inr (g x)) \<Longrightarrow> sum_map f xs = Inr (map g xs)"
  by (induction xs) auto

text \<open>Sequencing, a missing row as an error, a check as a step.\<close>

definition sum_bind :: "'e + 'a \<Rightarrow> ('a \<Rightarrow> 'e + 'b) \<Rightarrow> 'e + 'b" where
  "sum_bind m f = (case m of Inl e \<Rightarrow> Inl e | Inr x \<Rightarrow> f x)"

lemma sum_bind_simps [simp]: "sum_bind (Inl e) f = Inl e" "sum_bind (Inr x) f = f x"
  by (simp_all add: sum_bind_def)

lemma sum_bind_Inr: "sum_bind m f = Inr y \<longleftrightarrow> (\<exists>x. m = Inr x \<and> f x = Inr y)"
  by (cases m) simp_all

definition found :: "'e \<Rightarrow> 'a option \<Rightarrow> 'e + 'a" where
  "found e x = (case x of None \<Rightarrow> Inl e | Some v \<Rightarrow> Inr v)"

lemma found_Inr [simp]: "found e x = Inr v \<longleftrightarrow> x = Some v"
  by (cases x) (simp_all add: found_def)

lemma found_Some [simp]: "found e (Some v) = Inr v" "found e None = Inl e"
  by (simp_all add: found_def)

definition refuse :: "'e option \<Rightarrow> 'e + unit" where
  "refuse x = (case x of None \<Rightarrow> Inr () | Some e \<Rightarrow> Inl e)"

lemma refuse_Inr [simp]: "refuse x = Inr u \<longleftrightarrow> x = None"
  by (cases x) (simp_all add: refuse_def)

lemma refuse_simps [simp]: "refuse None = Inr ()" "refuse (Some e) = Inl e"
  by (simp_all add: refuse_def)

text \<open>
  A tool runs its checks and statements in one session and commits at the end; a return or an
  exception before the commit leaves the database as it was. \<open>transact\<close> closes a tool: its
  body gives an error, or an answer with the database to commit.
\<close>

definition transact :: "'d \<Rightarrow> 'e + 'r \<times> 'd \<Rightarrow> ('e + 'r) \<times> 'd" where
  "transact d body = (case body of Inl e \<Rightarrow> (Inl e, d) | Inr (r, d') \<Rightarrow> (Inr r, d'))"

lemma transact_simps [simp]: "transact d (Inl e) = (Inl e, d)" "transact d (Inr (r, d')) = (Inr r, d')"
  by (simp_all add: transact_def)

lemma transact_error: "fst (transact d body) = Inl e \<Longrightarrow> snd (transact d body) = d"
  by (auto simp: transact_def split: sum.splits)

section \<open>Tables\<close>

text \<open>
  A table is a list of rows in the order the database returns them when a query has no
  \<open>ORDER BY\<close>. \<open>modify key k f\<close> is the \<open>UPDATE\<close> of the rows with key \<open>k\<close>;
  \<open>get_row\<close> is \<open>scalars().first()\<close> on a selection.
\<close>

definition modify :: "('r \<Rightarrow> 'k) \<Rightarrow> 'k \<Rightarrow> ('r \<Rightarrow> 'r) \<Rightarrow> 'r list \<Rightarrow> 'r list" where
  "modify key k f rs = map (\<lambda>r. if key r = k then f r else r) rs"

definition get_row :: "('r \<Rightarrow> bool) \<Rightarrow> 'r list \<Rightarrow> 'r option" where
  "get_row p rs = (case filter p rs of [] \<Rightarrow> None | r # _ \<Rightarrow> Some r)"

definition count_rows :: "('r \<Rightarrow> bool) \<Rightarrow> 'r list \<Rightarrow> nat" where
  "count_rows p rs = length (filter p rs)"

lemma modify_keys [table_simps]:
  "(\<And>r. key (f r) = key r) \<Longrightarrow> map key (modify key k f rs) = map key rs"
  by (induction rs) (auto simp: modify_def)

lemma modify_length [table_simps]: "length (modify key k f rs) = length rs"
  by (simp add: modify_def)

lemma modify_Nil [simp]: "modify key k f [] = []"
  by (simp add: modify_def)

lemma modify_Cons [simp]:
  "modify key k f (r # rs) = (if key r = k then f r else r) # modify key k f rs"
  by (simp add: modify_def)

lemma modify_append: "modify key k f (rs @ ss) = modify key k f rs @ modify key k f ss"
  by (simp add: modify_def)

lemma in_modify_iff:
  "r \<in> set (modify key k f rs) \<longleftrightarrow>
     (\<exists>s \<in> set rs. (key s = k \<and> r = f s) \<or> (key s \<noteq> k \<and> r = s))"
  by (auto simp: modify_def)

lemma modify_absent: "k \<notin> key ` set rs \<Longrightarrow> modify key k f rs = rs"
  by (induction rs) auto

lemma modify_all:
  "(\<And>r. r \<in> set rs \<Longrightarrow> P r) \<Longrightarrow> (\<And>r. r \<in> set rs \<Longrightarrow> key r = k \<Longrightarrow> P (f r)) \<Longrightarrow>
     r \<in> set (modify key k f rs) \<Longrightarrow> P r"
  by (auto simp: in_modify_iff)

lemma get_row_Some:
  "get_row p rs = Some r \<Longrightarrow> r \<in> set rs \<and> p r"
proof -
  assume "get_row p rs = Some r"
  then obtain rest where "filter p rs = r # rest"
    by (auto simp: get_row_def split: list.splits)
  then have "r \<in> set (filter p rs)" by simp
  then show ?thesis by simp
qed

lemma get_row_None: "get_row p rs = None \<longleftrightarrow> (\<forall>r \<in> set rs. \<not> p r)"
proof (induction rs)
  case Nil
  then show ?case by (simp add: get_row_def)
next
  case (Cons r rs)
  then show ?case by (auto simp: get_row_def)
qed

lemma get_row_Nil [simp]: "get_row p [] = None"
  by (simp add: get_row_def)

lemma get_row_Cons [simp]: "get_row p (r # rs) = (if p r then Some r else get_row p rs)"
  by (simp add: get_row_def)

lemma count_rows_Nil [simp]: "count_rows p [] = 0"
  by (simp add: count_rows_def)

lemma count_rows_Cons [simp]:
  "count_rows p (r # rs) = (if p r then Suc (count_rows p rs) else count_rows p rs)"
  by (simp add: count_rows_def)

lemma count_rows_0: "count_rows p rs = 0 \<longleftrightarrow> (\<forall>r \<in> set rs. \<not> p r)"
  by (auto simp: count_rows_def filter_empty_conv)

lemma distinct_key_unique:
  "distinct (map key rs) \<Longrightarrow> r \<in> set rs \<Longrightarrow> s \<in> set rs \<Longrightarrow> key r = key s \<Longrightarrow> r = s"
  by (auto simp: distinct_map inj_on_def)

text \<open>A row found by its primary key is the one row with that key.\<close>

lemma get_row_key:
  assumes "distinct (map key rs)" "r \<in> set rs" "key r = k" "q r"
  shows "get_row (\<lambda>r. key r = k \<and> q r) rs = Some r"
proof -
  have "get_row (\<lambda>r. key r = k \<and> q r) rs \<noteq> None"
    using assms(2-4) unfolding get_row_None by blast
  then obtain s where s: "get_row (\<lambda>r. key r = k \<and> q r) rs = Some s" by blast
  then have "s \<in> set rs \<and> key s = k \<and> q s" by (rule get_row_Some)
  with assms s show ?thesis by (auto dest: distinct_key_unique)
qed

text \<open>One entry of a keyed list.\<close>

lemma split_entry:
  assumes "distinct (map key xs)" "get_row (\<lambda>x. key x = k) xs = Some x"
  obtains as bs where "xs = as @ x # bs" "key x = k" "\<And>f. modify key k f xs = as @ f x # bs"
    "filter (\<lambda>x. key x \<noteq> k) xs = as @ bs"
proof -
  have x: "x \<in> set xs" "key x = k" using get_row_Some [OF assms(2)] by auto
  obtain as bs where xs: "xs = as @ x # bs" using split_list [OF x(1)] by blast
  have a: "key y \<noteq> k" if "y \<in> set as \<union> set bs" for y
    using assms(1) x(2) that unfolding xs by (auto simp: image_iff)
  have "modify key k f as = as" "modify key k f bs = bs" for f
    using a by (auto simp: modify_def intro!: map_idI)
  then have "modify key k f xs = as @ f x # bs" for f
    using x(2) by (simp add: xs modify_append)
  moreover have "filter (\<lambda>x. key x \<noteq> k) as = as" "filter (\<lambda>x. key x \<noteq> k) bs = bs"
    using a by (auto simp: filter_id_conv)
  then have "filter (\<lambda>x. key x \<noteq> k) xs = as @ bs" using x(2) by (simp add: xs)
  ultimately show ?thesis using that xs x(2) by blast
qed

text \<open>Selecting by key commutes with an update of that key.\<close>

lemma get_row_modify:
  assumes "\<And>r. key r = k \<Longrightarrow> key (f r) = k"
  shows "get_row (\<lambda>r. key r = k) (modify key k f rs) = map_option f (get_row (\<lambda>r. key r = k) rs)"
  using assms by (induction rs) simp_all

text \<open>
  Counting the rows whose key is in a list: with distinct keys the count reaches the
  length of the list exactly when the list has no repetition and every key has a row.
\<close>

lemma count_rows_keys:
  assumes "distinct (map key rs)"
  shows "count_rows (\<lambda>r. key r \<in> set ks \<and> q r) rs = card (set ks \<inter> key ` {r \<in> set rs. q r})"
proof -
  have d: "distinct (map key (filter (\<lambda>r. key r \<in> set ks \<and> q r) rs))"
    using assms by (rule distinct_map_filter)
  have "count_rows (\<lambda>r. key r \<in> set ks \<and> q r) rs =
      length (map key (filter (\<lambda>r. key r \<in> set ks \<and> q r) rs))"
    by (simp add: count_rows_def)
  also have "\<dots> = card (set (map key (filter (\<lambda>r. key r \<in> set ks \<and> q r) rs)))"
    using d by (simp only: distinct_card)
  also have "set (map key (filter (\<lambda>r. key r \<in> set ks \<and> q r) rs)) = set ks \<inter> key ` {r \<in> set rs. q r}"
    by auto
  finally show ?thesis .
qed

lemma card_inter_eq_length:
  "card (set ks \<inter> A) = length ks \<longleftrightarrow> distinct ks \<and> set ks \<subseteq> A"
proof
  assume *: "card (set ks \<inter> A) = length ks"
  have "card (set ks \<inter> A) \<le> card (set ks)" by (simp add: card_mono)
  moreover have "card (set ks) \<le> length ks" by (rule card_length)
  ultimately have c: "card (set ks) = length ks" and e: "card (set ks \<inter> A) = card (set ks)"
    using * by auto
  from c have "distinct ks" by (rule card_distinct)
  moreover from e have "set ks \<inter> A = set ks"
    by (intro card_subset_eq) auto
  ultimately show "distinct ks \<and> set ks \<subseteq> A" by blast
next
  assume "distinct ks \<and> set ks \<subseteq> A"
  then show "card (set ks \<inter> A) = length ks"
    by (simp add: Int_absorb2 distinct_card)
qed

lemma count_rows_keys_full:
  assumes "distinct (map key rs)"
  shows "count_rows (\<lambda>r. key r \<in> set ks \<and> q r) rs = length ks \<longleftrightarrow>
    distinct ks \<and> (\<forall>k \<in> set ks. \<exists>r \<in> set rs. key r = k \<and> q r)"
  unfolding count_rows_keys [OF assms] card_inter_eq_length by auto

lemma count_rows_cong: "(\<And>r. r \<in> set rs \<Longrightarrow> p r = q r) \<Longrightarrow> count_rows p rs = count_rows q rs"
  unfolding count_rows_def by (metis filter_cong)

text \<open>A statement that the predicate does not see leaves the count unchanged.\<close>

lemma count_rows_modify:
  assumes "\<And>r. r \<in> set rs \<Longrightarrow> key r = k \<Longrightarrow> p (f r) = p r"
  shows "count_rows p (modify key k f rs) = count_rows p rs"
  using assms by (induction rs) auto

lemma filter_modify:
  "(\<And>r. key (f r) = key r) \<Longrightarrow>
     filter (\<lambda>r. key r \<noteq> k) (modify key k f rs) = filter (\<lambda>r. key r \<noteq> k) rs"
  by (induction rs) auto

text \<open>Updating the rows of several keys one after the other.\<close>

lemma fold_modify:
  assumes "distinct ks" "\<And>r. key (f r) = key r"
  shows "fold (\<lambda>k. modify key k f) ks rs = map (\<lambda>r. if key r \<in> set ks then f r else r) rs"
  using assms(1)
proof (induction ks arbitrary: rs)
  case Nil
  then show ?case by simp
next
  case (Cons k ks)
  have "fold (\<lambda>k. modify key k f) (k # ks) rs =
      map (\<lambda>r. if key r \<in> set ks then f r else r) (modify key k f rs)"
    using Cons by simp
  also have "\<dots> = map (\<lambda>r. if key r \<in> set (k # ks) then f r else r) rs"
    using Cons.prems by (auto simp: modify_def assms(2))
  finally show ?case .
qed

end
