(* ===== verification/Py_Runtime.thy ===== *)
theory Py_Runtime
  imports Prelude Complex_Main "HOL-Library.AList"
begin

text \<open>
  The parts of the Python runtime and standard library the program uses and whose behaviour
  its correctness depends on: \<open>int(s, base)\<close>, \<open>uuid.UUID(s)\<close> and \<open>str(uuid)\<close>,
  dictionaries with insertion order, decoded JSON values and their truth value.
  A Python string is a HOL \<^typ>\<open>string\<close>, so code points are at most 255.
\<close>

unbundle bit_operations_syntax

section \<open>Errors\<close>

text \<open>
  \<open>UuidError s\<close> is the \<open>ValueError\<close> that \<open>uuid.UUID(s)\<close> raises; the other
  constructors are the exceptions the modelled code raises itself, with their arguments
  instead of their message text.
\<close>

datatype py_error =
    UuidError string
  | ValueError string
  | LookupError string
  | AttributeError
  | TypeError

section \<open>int(s, base)\<close>

definition char_code :: "char \<Rightarrow> nat" where
  "char_code c = of_char c"

definition digit_value :: "nat \<Rightarrow> char \<Rightarrow> nat option" where
  "digit_value base c =
     (let n = char_code c;
          v = (if 48 \<le> n \<and> n \<le> 57 then Some (n - 48)
               else if 97 \<le> n \<and> n \<le> 122 then Some (n - 87)
               else if 65 \<le> n \<and> n \<le> 90 then Some (n - 55) else None)
      in case v of None \<Rightarrow> None | Some d \<Rightarrow> if d < base then Some d else None)"

text \<open>The digits after the first one: single underscores may separate digits.\<close>

fun more_digits :: "nat \<Rightarrow> nat \<Rightarrow> string \<Rightarrow> nat option" where
  "more_digits base acc [] = Some acc"
| "more_digits base acc (c # cs) =
     (if c = CHR ''_'' then
        (case cs of
           [] \<Rightarrow> None
         | d # ds \<Rightarrow>
             (case digit_value base d of
                None \<Rightarrow> None
              | Some v \<Rightarrow> more_digits base (acc * base + v) ds))
      else (case digit_value base c of
              None \<Rightarrow> None
            | Some v \<Rightarrow> more_digits base (acc * base + v) cs))"

definition all_digits :: "nat \<Rightarrow> string \<Rightarrow> nat option" where
  "all_digits base s =
     (case s of
        [] \<Rightarrow> None
      | c # cs \<Rightarrow> (case digit_value base c of None \<Rightarrow> None | Some v \<Rightarrow> more_digits base v cs))"

text \<open>The characters below 256 that \<open>str.strip()\<close> removes.\<close>

definition py_space :: "char \<Rightarrow> bool" where
  "py_space c =
     (let n = char_code c
      in (9 \<le> n \<and> n \<le> 13) \<or> (28 \<le> n \<and> n \<le> 32) \<or> n = 133 \<or> n = 160)"

definition strip_by :: "(char \<Rightarrow> bool) \<Rightarrow> string \<Rightarrow> string" where
  "strip_by p s = rev (dropWhile p (rev (dropWhile p s)))"

definition py_strip :: "string \<Rightarrow> string" where
  "py_strip = strip_by py_space"

text \<open>
  \<open>int(s, base)\<close> for the bases 10 and 16: white space around, an optional sign, in base 16
  an optional \<open>0x\<close> (after which one underscore is allowed), then the digits.
\<close>

definition py_int_unsigned :: "nat \<Rightarrow> string \<Rightarrow> nat option" where
  "py_int_unsigned base s =
     (case s of
        a # b # cs \<Rightarrow>
          if base = 16 \<and> a = CHR ''0'' \<and> (b = CHR ''x'' \<or> b = CHR ''X'')
          then all_digits base (case cs of c # ds \<Rightarrow> if c = CHR ''_'' then ds else cs | [] \<Rightarrow> [])
          else all_digits base s
      | _ \<Rightarrow> all_digits base s)"

definition py_int :: "nat \<Rightarrow> string \<Rightarrow> int option" where
  "py_int base s =
     (case py_strip s of
        [] \<Rightarrow> None
      | c # cs \<Rightarrow>
          if c = CHR ''-'' then map_option (\<lambda>n. - int n) (py_int_unsigned base cs)
          else if c = CHR ''+'' then map_option int (py_int_unsigned base cs)
          else map_option int (py_int_unsigned base (c # cs)))"

section \<open>uuid.UUID and str(uuid)\<close>

type_synonym uuid = "128 word"

text \<open>\<open>s.replace(pat, '')\<close>: occurrences are removed from left to right.\<close>

function remove_sub :: "string \<Rightarrow> string \<Rightarrow> string" where
  "remove_sub pat [] = []"
| "remove_sub pat (c # cs) =
     (if pat \<noteq> [] \<and> take (length pat) (c # cs) = pat
      then remove_sub pat (drop (length pat) (c # cs))
      else c # remove_sub pat cs)"
  by pat_completeness auto
termination
  by (relation "measure (\<lambda>(p, s). length s)") auto

definition parse_uuid :: "string \<Rightarrow> py_error + uuid" where
  "parse_uuid s =
     (let h0 = remove_sub ''uuid:'' (remove_sub ''urn:'' s);
          h = filter (\<lambda>c. c \<noteq> CHR ''-'') (strip_by (\<lambda>c. c = CHR ''{'' \<or> c = CHR ''}'') h0)
      in if length h \<noteq> 32 then Inl (UuidError s)
         else (case py_int 16 h of
                 None \<Rightarrow> Inl (UuidError s)
               | Some i \<Rightarrow>
                   if 0 \<le> i \<and> i < 2 ^ 128 then Inr (word_of_int i) else Inl (UuidError s)))"

definition hex_char :: "nat \<Rightarrow> char" where
  "hex_char n = (if n < 10 then char_of (48 + n) else char_of (87 + n))"

fun hex_digits :: "nat \<Rightarrow> nat \<Rightarrow> string" where
  "hex_digits 0 n = []"
| "hex_digits (Suc w) n = hex_digits w (n div 16) @ [hex_char (n mod 16)]"

definition str_uuid :: "uuid \<Rightarrow> string" where
  "str_uuid u =
     (let h = hex_digits 32 (unat u)
      in take 8 h @ ''-'' @ take 4 (drop 8 h) @ ''-'' @ take 4 (drop 12 h) @ ''-''
         @ take 4 (drop 16 h) @ ''-'' @ drop 20 h)"

text \<open>A string is canonical when it is the text that \<open>str\<close> gives the UUID it denotes.\<close>

definition canonical :: "string \<Rightarrow> bool" where
  "canonical s \<longleftrightarrow> (case parse_uuid s of Inl _ \<Rightarrow> False | Inr u \<Rightarrow> str_uuid u = s)"

section \<open>Decoded JSON and dictionaries\<close>

datatype json =
    JNull
  | JBool bool
  | JNum rat
  | JStr string
  | JList "json list"
  | JObj "(string \<times> json) list"

type_synonym py_dict = "(string \<times> json) list"

definition json_true :: "json \<Rightarrow> bool" where
  "json_true v =
     (case v of
        JNull \<Rightarrow> False
      | JBool b \<Rightarrow> b
      | JNum q \<Rightarrow> q \<noteq> 0
      | JStr s \<Rightarrow> s \<noteq> []
      | JList xs \<Rightarrow> xs \<noteq> []
      | JObj kvs \<Rightarrow> kvs \<noteq> [])"

abbreviation dict_get :: "py_dict \<Rightarrow> string \<Rightarrow> json option" where
  "dict_get \<equiv> map_of"

definition dict_set :: "string \<Rightarrow> json \<Rightarrow> py_dict \<Rightarrow> py_dict" where
  "dict_set k v d = AList.update k v d"

definition dict_pop :: "string \<Rightarrow> py_dict \<Rightarrow> py_dict" where
  "dict_pop k d = AList.delete k d"

text \<open>\<open>{**a, **b}\<close>\<close>

definition dict_merge :: "py_dict \<Rightarrow> py_dict \<Rightarrow> py_dict" where
  "dict_merge a b = fold (\<lambda>(k, v). dict_set k v) b a"

definition dict_flag :: "py_dict \<Rightarrow> string \<Rightarrow> bool" where
  "dict_flag d k = (case dict_get d k of None \<Rightarrow> False | Some v \<Rightarrow> json_true v)"

text \<open>
  \<open>dict(v or {})\<close>: besides an object, \<open>dict\<close> accepts a list of pairs and a list of
  strings of length two.
\<close>

definition pair_of :: "json \<Rightarrow> py_error + string \<times> json" where
  "pair_of v =
     (case v of
        JList [JStr k, x] \<Rightarrow> Inr (k, x)
      | JStr [a, b] \<Rightarrow> Inr ([a], JStr [b])
      | _ \<Rightarrow> Inl TypeError)"

definition py_dict_of :: "json option \<Rightarrow> py_error + py_dict" where
  "py_dict_of v =
     (case v of
        None \<Rightarrow> Inr []
      | Some x \<Rightarrow>
          if \<not> json_true x then Inr []
          else (case x of
                  JObj kvs \<Rightarrow> Inr kvs
                | JList xs \<Rightarrow>
                    (case sum_map pair_of xs of
                       Inl e \<Rightarrow> Inl e
                     | Inr kvs \<Rightarrow> Inr (dict_merge [] kvs))
                | _ \<Rightarrow> Inl TypeError))"

text \<open>\<open>d or None\<close> for a dictionary\<close>

definition dict_or_none :: "py_dict \<Rightarrow> json option" where
  "dict_or_none d = (if d = [] then None else Some (JObj d))"

lemma py_dict_of_simps [simp]:
  "py_dict_of None = Inr []"
  "py_dict_of (Some (JObj kvs)) = Inr kvs"
  "py_dict_of (dict_or_none d) = Inr d"
  by (simp_all add: py_dict_of_def json_true_def dict_or_none_def)

text \<open>\<open>repr\<close> of a string\<close>

definition repr_char :: "char \<Rightarrow> char \<Rightarrow> string" where
  "repr_char q c =
     (let n = char_code c
      in if c = q \<or> n = 92 then [char_of (92 :: nat), c]
         else if n = 10 then [char_of (92 :: nat), CHR ''n'']
         else if n = 13 then [char_of (92 :: nat), CHR ''r'']
         else if n = 9 then [char_of (92 :: nat), CHR ''t'']
         else if n < 32 \<or> (127 \<le> n \<and> n \<le> 160) \<or> n = 173
         then [char_of (92 :: nat), CHR ''x''] @ hex_digits 2 n
         else [c])"

definition py_repr :: "string \<Rightarrow> string" where
  "py_repr s =
     (let dq = char_of (34 :: nat); sq = char_of (39 :: nat);
          q = (if sq \<in> set s \<and> dq \<notin> set s then dq else sq)
      in [q] @ concat (map (repr_char q) s) @ [q])"

lemma dict_get_set [simp]: "dict_get (dict_set k v d) k' = (if k' = k then Some v else dict_get d k')"
  by (simp add: dict_set_def update_conv')

lemma dict_get_pop [simp]: "dict_get (dict_pop k d) k' = (if k' = k then None else dict_get d k')"
  by (simp add: dict_pop_def delete_conv')

lemma dict_get_merge:
  "dict_get (dict_merge a b) k =
     (case dict_get (rev b) k of None \<Rightarrow> dict_get a k | Some v \<Rightarrow> Some v)"
  unfolding dict_merge_def
  by (induction b arbitrary: a rule: rev_induct) (auto split: option.splits)

lemma dict_flag_set [simp]:
  "dict_flag (dict_set k v d) k' = (if k' = k then json_true v else dict_flag d k')"
  by (simp add: dict_flag_def)

lemma dict_flag_pop [simp]: "dict_flag (dict_pop k d) k' = (k' \<noteq> k \<and> dict_flag d k')"
  by (simp add: dict_flag_def)

section \<open>Round trip between UUIDs and their text\<close>

lemma char_code_hex_char: "n < 16 \<Longrightarrow> char_code (hex_char n) = (if n < 10 then 48 + n else 87 + n)"
  by (simp add: char_code_def hex_char_def)

lemma digit_value_hex_char: "n < 16 \<Longrightarrow> digit_value 16 (hex_char n) = Some n"
  by (simp add: digit_value_def char_code_hex_char Let_def)

lemma hex_char_neq:
  assumes "n < 16" "char_code c < 48 \<or> (57 < char_code c \<and> char_code c < 97) \<or> 102 < char_code c"
  shows "hex_char n \<noteq> c"
  using assms char_code_hex_char [OF assms(1)] by (auto split: if_splits)

lemma hex_digits_length [simp]: "length (hex_digits w n) = w"
  by (induction w arbitrary: n) auto

lemma hex_digits_set: "c \<in> set (hex_digits w n) \<Longrightarrow> \<exists>d<16. c = hex_char d"
proof (induction w arbitrary: n)
  case 0
  then show ?case by simp
next
  case (Suc w)
  then consider "c \<in> set (hex_digits w (n div 16))" | "c = hex_char (n mod 16)" by auto
  then show ?case
  proof cases
    case 1
    then show ?thesis by (rule Suc.IH)
  next
    case 2
    then show ?thesis by (intro exI [of _ "n mod 16"]) simp
  qed
qed

lemma hex_digits_avoid:
  assumes "char_code c < 48 \<or> (57 < char_code c \<and> char_code c < 97) \<or> 102 < char_code c"
  shows "c \<notin> set (hex_digits w n)"
  using hex_digits_set hex_char_neq [OF _ assms] by blast

lemma hex_digits_code:
  assumes "c \<in> set (hex_digits w n)"
  shows "(48 \<le> char_code c \<and> char_code c < 58) \<or> (97 \<le> char_code c \<and> char_code c < 103)"
proof -
  from assms obtain d where "d < 16" "c = hex_char d" by (auto dest: hex_digits_set)
  then show ?thesis by (simp add: char_code_hex_char)
qed

lemma hex_digits_no_space: "c \<in> set (hex_digits w n) \<Longrightarrow> \<not> py_space c"
  unfolding py_space_def Let_def by (drule hex_digits_code) presburger

lemma more_digits_append:
  assumes "\<forall>c \<in> set ds. c \<noteq> CHR ''_''"
  shows "more_digits base acc (ds @ [c]) =
    (case more_digits base acc ds of
       None \<Rightarrow> None
     | Some a \<Rightarrow> (if c = CHR ''_'' then None
                  else case digit_value base c of None \<Rightarrow> None | Some v \<Rightarrow> Some (a * base + v)))"
  using assms
proof (induction ds arbitrary: acc)
  case Nil
  show ?case by (cases "digit_value base c") simp_all
next
  case (Cons d ds)
  then show ?case by (cases "digit_value base d") simp_all
qed

lemma all_digits_snoc:
  assumes "s \<noteq> []" "\<forall>c \<in> set s. c \<noteq> CHR ''_''"
  shows "all_digits base (s @ [c]) =
    (case all_digits base s of
       None \<Rightarrow> None
     | Some a \<Rightarrow> (if c = CHR ''_'' then None
                  else case digit_value base c of None \<Rightarrow> None | Some v \<Rightarrow> Some (a * base + v)))"
proof (cases s)
  case Nil
  with assms show ?thesis by simp
next
  case (Cons d ds)
  with assms show ?thesis
    by (cases "digit_value base d") (simp_all add: all_digits_def more_digits_append)
qed

lemma code_underscore: "char_code (CHR ''_'') = 95" and code_minus: "char_code (CHR ''-'') = 45"
  and code_plus: "char_code (CHR ''+'') = 43" and code_x: "char_code (CHR ''x'') = 120"
  and code_X: "char_code (CHR ''X'') = 88" and code_colon: "char_code (CHR '':'') = 58"
  and code_lbrace: "char_code (CHR ''{'') = 123" and code_rbrace: "char_code (CHR ''}'') = 125"
  by (simp_all add: char_code_def)

lemmas hex_codes = code_underscore code_minus code_plus code_x code_X code_colon code_lbrace code_rbrace

lemma all_digits_hex: "0 < w \<Longrightarrow> all_digits 16 (hex_digits w n) = Some (n mod 16 ^ w)"
proof (induction w arbitrary: n)
  case 0
  then show ?case by simp
next
  case (Suc w)
  show ?case
  proof (cases "w = 0")
    case True
    then show ?thesis by (simp add: all_digits_def digit_value_hex_char)
  next
    case False
    have u: "\<forall>c \<in> set (hex_digits w (n div 16)). c \<noteq> CHR ''_''"
      using hex_digits_avoid [of "CHR ''_''"] by (auto simp: hex_codes)
    have "hex_digits w (n div 16) \<noteq> []"
      using False by (metis hex_digits_length length_0_conv)
    moreover have "hex_char (n mod 16) \<noteq> CHR ''_''"
      by (rule hex_char_neq) (simp_all add: hex_codes)
    ultimately have "all_digits 16 (hex_digits (Suc w) n) = Some ((n div 16) mod 16 ^ w * 16 + n mod 16)"
      using Suc.IH [of "n div 16"] False u
      by (simp add: all_digits_snoc digit_value_hex_char)
    also have "(n div 16) mod 16 ^ w * 16 + n mod 16 = n mod 16 ^ Suc w"
      using mod_mult2_eq [of n 16 "16 ^ w"] by simp
    finally show ?thesis .
  qed
qed

lemma strip_by_id: "\<forall>c \<in> set s. \<not> p c \<Longrightarrow> strip_by p s = s"
proof -
  assume *: "\<forall>c \<in> set s. \<not> p c"
  have "dropWhile p t = t" if "\<forall>c \<in> set t. \<not> p c" for t
    using that by (cases t) auto
  from this [of s] this [of "rev s"] * show ?thesis by (simp add: strip_by_def)
qed

lemma remove_sub_id:
  assumes "c \<in> set pat" "c \<notin> set s"
  shows "remove_sub pat s = s"
  using assms(2)
proof (induction s)
  case Nil
  then show ?case by simp
next
  case (Cons a s)
  have "take (length pat) (a # s) \<noteq> pat"
    using assms(1) Cons.prems by (metis in_set_takeD)
  with Cons show ?case by simp
qed

lemma py_int_hex:
  assumes "1 < w"
  shows "py_int 16 (hex_digits w n) = Some (int (n mod 16 ^ w))"
proof -
  obtain v where w: "w = Suc (Suc v)"
  proof
    show "w = Suc (Suc (w - 2))" using assms by simp
  qed
  have len: "length (hex_digits w n) = Suc (Suc v)" by (simp only: hex_digits_length w)
  obtain a b cs where s: "hex_digits w n = a # b # cs"
    using len unfolding length_Suc_conv by blast
  have in_s: "a \<in> set (hex_digits w n)" "b \<in> set (hex_digits w n)"
    unfolding s by simp_all
  have a: "a \<noteq> CHR ''-''" "a \<noteq> CHR ''+''"
    using hex_digits_code [OF in_s(1)] by (auto simp: hex_codes)
  have b: "b \<noteq> CHR ''x''" "b \<noteq> CHR ''X''"
    using hex_digits_code [OF in_s(2)] by (auto simp: hex_codes)
  have strip: "py_strip (a # b # cs) = a # b # cs"
    using hex_digits_no_space [of _ w n] unfolding py_strip_def s by (intro strip_by_id) blast
  have "py_int_unsigned 16 (a # b # cs) = all_digits 16 (a # b # cs)"
    by (simp add: py_int_unsigned_def b)
  also have "\<dots> = Some (n mod 16 ^ w)"
    using all_digits_hex [of w n] assms by (simp add: s)
  finally have u: "py_int_unsigned 16 (a # b # cs) = Some (n mod 16 ^ w)" .
  show ?thesis
    unfolding s py_int_def strip list.case u using a by simp
qed

lemma unat_less_bound: "unat (u :: uuid) < 2 ^ 128"
  using unsigned_less [of u] by simp

lemma str_uuid_chars:
  "set (str_uuid u) \<subseteq> set (hex_digits 32 (unat u)) \<union> {CHR ''-''}"
  unfolding str_uuid_def Let_def by (auto dest: in_set_takeD in_set_dropD)

lemma str_uuid_avoid:
  assumes "c \<noteq> CHR ''-''"
    and "char_code c < 48 \<or> (57 < char_code c \<and> char_code c < 97) \<or> 102 < char_code c"
  shows "c \<notin> set (str_uuid u)"
  using str_uuid_chars [of u] hex_digits_avoid [OF assms(2)] assms(1) by blast

lemma str_uuid_filter: "filter (\<lambda>c. c \<noteq> CHR ''-'') (str_uuid u) = hex_digits 32 (unat u)"
proof -
  define h where "h = hex_digits 32 (unat u)"
  have no: "filter (\<lambda>c. c \<noteq> CHR ''-'') h = h"
    using hex_digits_avoid [of "CHR ''-''"] unfolding h_def
    by (intro filter_True) (auto simp: hex_codes)
  have "take 8 h @ take 4 (drop 8 h) @ take 4 (drop 12 h) @ take 4 (drop 16 h) @ drop 20 h = h"
    using append_take_drop_id [of 4 "drop 16 h"] append_take_drop_id [of 4 "drop 12 h"]
      append_take_drop_id [of 4 "drop 8 h"] append_take_drop_id [of 8 h]
    by simp
  then have "filter (\<lambda>c. c \<noteq> CHR ''-'') h =
      filter (\<lambda>c. c \<noteq> CHR ''-'') (take 8 h @ take 4 (drop 8 h) @ take 4 (drop 12 h) @ take 4 (drop 16 h) @ drop 20 h)"
    by simp
  also have "\<dots> = filter (\<lambda>c. c \<noteq> CHR ''-'') (str_uuid u)"
    unfolding str_uuid_def Let_def h_def [symmetric] filter_append by simp
  finally show ?thesis using no by (simp add: h_def)
qed

lemma parse_str_uuid [simp]: "parse_uuid (str_uuid u) = Inr u"
proof -
  have c: "CHR '':'' \<notin> set (str_uuid u)"
    by (rule str_uuid_avoid) (simp_all add: hex_codes)
  have "remove_sub ''uuid:'' (remove_sub ''urn:'' (str_uuid u)) = str_uuid u"
    by (simp only: remove_sub_id [of "CHR '':''", OF _ c] list.set insert_iff simp_thms)
  moreover have "strip_by (\<lambda>c. c = CHR ''{'' \<or> c = CHR ''}'') (str_uuid u) = str_uuid u"
    using str_uuid_avoid [of "CHR ''{''" u] str_uuid_avoid [of "CHR ''}''" u]
    by (intro strip_by_id) (auto simp: hex_codes)
  moreover have "py_int 16 (hex_digits 32 (unat u)) = Some (int (unat u))"
  proof -
    have "unat u < 16 ^ 32" using unat_less_bound [of u] by simp
    then show ?thesis using py_int_hex [of 32 "unat u"] by simp
  qed
  moreover have "int (unat u) < 2 ^ 128"
    using uint_lt2p [of u] by simp
  ultimately show ?thesis
    by (simp add: parse_uuid_def str_uuid_filter)
qed

lemma str_uuid_inject [simp]: "str_uuid u = str_uuid v \<longleftrightarrow> u = v"
  by (metis parse_str_uuid sum.inject(2))

lemma canonical_str_uuid [simp]: "canonical (str_uuid u)"
  by (simp add: canonical_def)

lemma canonicalE: "canonical s \<Longrightarrow> (\<And>u. s = str_uuid u \<Longrightarrow> P) \<Longrightarrow> P"
  by (auto simp: canonical_def split: sum.splits)

lemma parse_uuid_inverse: "canonical s \<Longrightarrow> parse_uuid s = Inr u \<longleftrightarrow> s = str_uuid u"
  by (auto elim!: canonicalE)

end
