(* ===== verification/Db_Model.thy ===== *)
theory Db_Model
  imports Py_Runtime
begin

text \<open>
  The data of \<open>ypl/db/agent_harness.py\<close> that projects and tasks use: the enumerations,
  the rows of the tables as records (one field per column, prefixed by the table), and the
  database as one record of tables. A transaction of the code is a function of this record.
  Time stamps are integers (microseconds), money columns are rationals.
\<close>

section \<open>Enumerations\<close>

datatype agent_project_status =
  PROJECT_ACTIVE | PROJECT_PAUSED | PROJECT_COMPLETED | PROJECT_ARCHIVED

datatype agent_task_status =
  PENDING | BLOCKED | READY | IN_PROGRESS | COMPLETED | FAILED | CANCELLED | IN_REVIEW

datatype agent_task_priority = URGENT | HIGH | NORMAL | LOW

text \<open>The members in declaration order, as iterating over the Python class gives them.\<close>

definition all_task_statuses :: "agent_task_status list" where
  "all_task_statuses =
     [PENDING, BLOCKED, READY, IN_PROGRESS, COMPLETED, FAILED, CANCELLED, IN_REVIEW]"

lemma all_task_statuses_complete [simp]: "s \<in> set all_task_statuses"
  by (cases s) (simp_all add: all_task_statuses_def)

lemma all_task_statuses_distinct [simp]: "distinct all_task_statuses"
  by (simp add: all_task_statuses_def)

fun task_status_value :: "agent_task_status \<Rightarrow> string" where
  "task_status_value PENDING = ''PENDING''"
| "task_status_value BLOCKED = ''BLOCKED''"
| "task_status_value READY = ''READY''"
| "task_status_value IN_PROGRESS = ''IN_PROGRESS''"
| "task_status_value COMPLETED = ''COMPLETED''"
| "task_status_value FAILED = ''FAILED''"
| "task_status_value CANCELLED = ''CANCELLED''"
| "task_status_value IN_REVIEW = ''IN_REVIEW''"

text \<open>\<open>AgentTaskStatus(s)\<close>, \<open>AgentProjectStatus(s)\<close> and \<open>AgentTaskPriority[s]\<close>.\<close>

definition task_status_of :: "string \<Rightarrow> agent_task_status option" where
  "task_status_of s =
     (if s = ''PENDING'' then Some PENDING
      else if s = ''BLOCKED'' then Some BLOCKED
      else if s = ''READY'' then Some READY
      else if s = ''IN_PROGRESS'' then Some IN_PROGRESS
      else if s = ''COMPLETED'' then Some COMPLETED
      else if s = ''FAILED'' then Some FAILED
      else if s = ''CANCELLED'' then Some CANCELLED
      else if s = ''IN_REVIEW'' then Some IN_REVIEW else None)"

definition project_status_of :: "string \<Rightarrow> agent_project_status option" where
  "project_status_of s =
     (if s = ''ACTIVE'' then Some PROJECT_ACTIVE
      else if s = ''PAUSED'' then Some PROJECT_PAUSED
      else if s = ''COMPLETED'' then Some PROJECT_COMPLETED
      else if s = ''ARCHIVED'' then Some PROJECT_ARCHIVED else None)"

definition task_priority_of :: "string \<Rightarrow> agent_task_priority option" where
  "task_priority_of s =
     (if s = ''URGENT'' then Some URGENT
      else if s = ''HIGH'' then Some HIGH
      else if s = ''NORMAL'' then Some NORMAL
      else if s = ''LOW'' then Some LOW else None)"

lemma task_status_of_value [simp]: "task_status_of (task_status_value s) = Some s"
  by (cases s) (simp_all add: task_status_of_def)

text \<open>The database orders an enumeration column by the declaration order of its members.\<close>

fun priority_rank :: "agent_task_priority \<Rightarrow> nat" where
  "priority_rank URGENT = 1"
| "priority_rank HIGH = 2"
| "priority_rank NORMAL = 3"
| "priority_rank LOW = 4"

lemma priority_rank_inject [simp]: "priority_rank p = priority_rank q \<longleftrightarrow> p = q"
  by (cases p; cases q) simp_all

instantiation agent_task_priority :: linorder
begin

definition less_eq_agent_task_priority :: "agent_task_priority \<Rightarrow> agent_task_priority \<Rightarrow> bool" where
  "less_eq_agent_task_priority p q \<longleftrightarrow> priority_rank p \<le> priority_rank q"

definition less_agent_task_priority :: "agent_task_priority \<Rightarrow> agent_task_priority \<Rightarrow> bool" where
  "less_agent_task_priority p q \<longleftrightarrow> priority_rank p < priority_rank q"

instance
proof
  fix p q r :: agent_task_priority
  show "p < q \<longleftrightarrow> p \<le> q \<and> \<not> q \<le> p"
    by (auto simp: less_eq_agent_task_priority_def less_agent_task_priority_def)
  show "p \<le> p" by (simp add: less_eq_agent_task_priority_def)
  show "p \<le> q \<Longrightarrow> q \<le> r \<Longrightarrow> p \<le> r" by (simp add: less_eq_agent_task_priority_def)
  show "p \<le> q \<Longrightarrow> q \<le> p \<Longrightarrow> p = q"
    by (simp add: less_eq_agent_task_priority_def flip: priority_rank_inject)
  show "p \<le> q \<or> q \<le> p" by (auto simp: less_eq_agent_task_priority_def)
qed

end

section \<open>Rows\<close>

record agent_project =
  p_id :: uuid
  p_name :: string
  p_description :: "string option"
  p_status :: agent_project_status
  p_creator_user_id :: "string option"
  p_default_agent_id :: "uuid option"
  p_project_data :: "py_dict option"
  p_shared_state :: "py_dict option"
  p_budget_usd :: "rat option"
  p_budget_spent_usd :: rat
  p_slack_channel :: "string option"
  p_created_at :: int
  p_modified_at :: int
  p_deleted_at :: "int option"

record agent_task =
  t_id :: uuid
  t_project_id :: uuid
  t_parent_task_id :: "uuid option"
  t_title :: string
  t_description :: "string option"
  t_status :: agent_task_status
  t_priority :: agent_task_priority
  t_agent_id :: "uuid option"
  t_assigned_session_ids :: "string list option"
  t_result :: "json option"
  t_task_data :: "json option"
  t_estimated_effort :: "string option"
  t_actual_spending_usd :: "rat option"
  t_completed_at :: "int option"
  t_depends_on :: "string list option"
  t_created_at :: int
  t_modified_at :: int
  t_deleted_at :: "int option"

record agent =
  a_id :: uuid
  a_name :: string
  a_deleted_at :: "int option"

record session_message =
  m_session_id :: uuid
  m_cost_usd :: "rat option"

record user =
  u_id :: string
  u_name :: "string option"
  u_email :: string
  u_deleted_at :: "int option"

record db =
  db_tasks :: "agent_task list"
  db_projects :: "agent_project list"
  db_agents :: "agent list"
  db_messages :: "session_message list"
  db_users :: "user list"

section \<open>Statements\<close>

abbreviation live_task :: "agent_task \<Rightarrow> bool" where
  "live_task t \<equiv> t_deleted_at t = None"

abbreviation live_project :: "agent_project \<Rightarrow> bool" where
  "live_project p \<equiv> p_deleted_at p = None"

abbreviation deps_of :: "agent_task \<Rightarrow> string list" where
  "deps_of t \<equiv> or_empty (t_depends_on t)"

text \<open>
  Writing a row stamps \<open>modified_at\<close> (the \<open>before_update\<close> listener of
  \<open>ypl/db/base.py\<close>); \<open>now\<close> is the clock of the transaction. The stamp is also written when every
  new value equals the old one, where the ORM would emit no statement; no property depends on that case.
\<close>

definition write_task :: "int \<Rightarrow> uuid \<Rightarrow> (agent_task \<Rightarrow> agent_task) \<Rightarrow> db \<Rightarrow> db" where
  "write_task now i f d =
     d\<lparr>db_tasks := modify t_id i (\<lambda>t. (f t)\<lparr>t_modified_at := now\<rparr>) (db_tasks d)\<rparr>"

definition write_project :: "int \<Rightarrow> uuid \<Rightarrow> (agent_project \<Rightarrow> agent_project) \<Rightarrow> db \<Rightarrow> db" where
  "write_project now i f d =
     d\<lparr>db_projects := modify p_id i (\<lambda>p. (f p)\<lparr>p_modified_at := now\<rparr>) (db_projects d)\<rparr>"

definition find_task :: "(agent_task \<Rightarrow> bool) \<Rightarrow> uuid \<Rightarrow> db \<Rightarrow> agent_task option" where
  "find_task q i d = get_row (\<lambda>t. t_id t = i \<and> q t) (db_tasks d)"

definition find_project :: "(agent_project \<Rightarrow> bool) \<Rightarrow> uuid \<Rightarrow> db \<Rightarrow> agent_project option" where
  "find_project q i d = get_row (\<lambda>p. p_id p = i \<and> q p) (db_projects d)"

text \<open>\<open>ORDER BY priority ASC, created_at ASC\<close>\<close>

definition order_tasks :: "agent_task list \<Rightarrow> agent_task list" where
  "order_tasks = sort_key (\<lambda>t. (t_priority t, t_created_at t))"

lemma write_task_frame [frame_simps, simp]:
  "db_projects (write_task now i f d) = db_projects d"
  "db_agents (write_task now i f d) = db_agents d"
  "db_messages (write_task now i f d) = db_messages d"
  "db_users (write_task now i f d) = db_users d"
  by (simp_all add: write_task_def)

lemma write_project_frame [frame_simps, simp]:
  "db_tasks (write_project now i f d) = db_tasks d"
  "db_agents (write_project now i f d) = db_agents d"
  "db_messages (write_project now i f d) = db_messages d"
  "db_users (write_project now i f d) = db_users d"
  by (simp_all add: write_project_def)

lemma write_task_tasks:
  "db_tasks (write_task now i f d) = modify t_id i (\<lambda>t. (f t)\<lparr>t_modified_at := now\<rparr>) (db_tasks d)"
  by (simp add: write_task_def)

lemma write_task_ids [table_simps]:
  "(\<And>t. t_id (f t) = t_id t) \<Longrightarrow> map t_id (db_tasks (write_task now i f d)) = map t_id (db_tasks d)"
  unfolding write_task_tasks by (rule modify_keys) simp

lemma find_task_Some: "find_task q i d = Some t \<Longrightarrow> t \<in> set (db_tasks d) \<and> t_id t = i \<and> q t"
  unfolding find_task_def by (drule get_row_Some) simp

lemma find_task_key:
  "distinct (map t_id (db_tasks d)) \<Longrightarrow> t \<in> set (db_tasks d) \<Longrightarrow> t_id t = i \<Longrightarrow> q t \<Longrightarrow>
     find_task q i d = Some t"
  unfolding find_task_def by (rule get_row_key)

lemma find_task_None: "find_task q i d = None \<longleftrightarrow> (\<forall>t \<in> set (db_tasks d). t_id t = i \<longrightarrow> \<not> q t)"
  unfolding find_task_def get_row_None by blast

lemma find_project_Some:
  "find_project q i d = Some p \<Longrightarrow> p \<in> set (db_projects d) \<and> p_id p = i \<and> q p"
  unfolding find_project_def by (drule get_row_Some) simp

lemma order_tasks_set [simp]: "set (order_tasks ts) = set ts"
  by (simp add: order_tasks_def)

lemma order_tasks_sorted: "sorted (map (\<lambda>t. (t_priority t, t_created_at t)) (order_tasks ts))"
  by (simp add: order_tasks_def)

lemma order_tasks_length [simp]: "length (order_tasks ts) = length ts"
  by (simp add: order_tasks_def)

lemma in_write_task:
  "t \<in> set (db_tasks (write_task now i f d)) \<longleftrightarrow>
     (\<exists>s \<in> set (db_tasks d). (t_id s = i \<and> t = (f s)\<lparr>t_modified_at := now\<rparr>) \<or> (t_id s \<noteq> i \<and> t = s))"
  unfolding write_task_tasks in_modify_iff by blast

text \<open>The rows with the written key, and the others.\<close>

lemma written_row:
  assumes "u \<in> set (db_tasks (write_task now i f d))" "t_id u = i"
  obtains t where "t \<in> set (db_tasks d)" "t_id t = i" "u = (f t)\<lparr>t_modified_at := now\<rparr>"
  using assms unfolding in_write_task by blast

lemma kept_row:
  assumes "t \<in> set (db_tasks d)" "t_id t \<noteq> i"
  shows "t \<in> set (db_tasks (write_task now i f d))"
  using assms unfolding in_write_task by blast

lemma row_written:
  assumes "t \<in> set (db_tasks d)" "t_id t = i"
  shows "(f t)\<lparr>t_modified_at := now\<rparr> \<in> set (db_tasks (write_task now i f d))"
  using assms unfolding in_write_task by blast

lemma find_task_map:
  assumes "\<And>t. t_id (h t) = t_id t"
  shows "find_task (\<lambda>_. True) i (d\<lparr>db_tasks := map h (db_tasks d)\<rparr>) = map_option h (find_task (\<lambda>_. True) i d)"
proof -
  have "get_row (\<lambda>t. t_id t = i \<and> True) (map h ts) = map_option h (get_row (\<lambda>t. t_id t = i \<and> True) ts)" for ts
    by (induction ts) (simp_all add: assms)
  then show ?thesis by (simp add: find_task_def)
qed

lemma find_task_write:
  assumes "\<And>t. t_id (f t) = t_id t"
  shows "find_task (\<lambda>_. True) i (write_task now i f d) =
    map_option (\<lambda>t. (f t)\<lparr>t_modified_at := now\<rparr>) (find_task (\<lambda>_. True) i d)"
proof -
  have "get_row (\<lambda>t. t_id t = i \<and> True) (modify t_id i (\<lambda>t. (f t)\<lparr>t_modified_at := now\<rparr>) ts) =
      map_option (\<lambda>t. (f t)\<lparr>t_modified_at := now\<rparr>) (get_row (\<lambda>t. t_id t = i \<and> True) ts)" for ts
    by (induction ts) (simp_all add: assms)
  then show ?thesis by (simp add: find_task_def write_task_def)
qed

lemma find_task_tasks: "db_tasks d = db_tasks e \<Longrightarrow> find_task q i d = find_task q i e"
  by (simp add: find_task_def)

end
