(* ===== verification/Task_Status.thy ===== *)
theory Task_Status
  imports Db_Model
begin

text \<open>
  \<open>ypl/agent_harness_service/projects/task_utils.py\<close>: the status transition table, the
  dependency check, the validation of a status change, the canonical way to finish a task and
  the canonical restart. Also the row invariant \<open>task_ok\<close> that every operation of the
  development keeps, and the locales that state what an operation on the database promises.
\<close>

section \<open>Transition table\<close>

definition TERMINAL_TASK_STATUSES :: "agent_task_status list" where
  "TERMINAL_TASK_STATUSES = [COMPLETED, FAILED, CANCELLED]"

fun VALID_TASK_TRANSITIONS :: "agent_task_status \<Rightarrow> agent_task_status list" where
  "VALID_TASK_TRANSITIONS PENDING = [BLOCKED, READY, CANCELLED]"
| "VALID_TASK_TRANSITIONS BLOCKED = [READY, PENDING, CANCELLED]"
| "VALID_TASK_TRANSITIONS READY = [IN_PROGRESS, CANCELLED, BLOCKED, PENDING]"
| "VALID_TASK_TRANSITIONS IN_PROGRESS = [COMPLETED, FAILED, CANCELLED, READY, PENDING, IN_REVIEW]"
| "VALID_TASK_TRANSITIONS IN_REVIEW = [COMPLETED, FAILED, CANCELLED, PENDING]"
| "VALID_TASK_TRANSITIONS COMPLETED = [PENDING, FAILED]"
| "VALID_TASK_TRANSITIONS FAILED = [PENDING, READY]"
| "VALID_TASK_TRANSITIONS CANCELLED = [PENDING]"

abbreviation terminal :: "agent_task_status \<Rightarrow> bool" where
  "terminal s \<equiv> s \<in> set TERMINAL_TASK_STATUSES"

lemma terminal_simps [simp]:
  "terminal COMPLETED" "terminal FAILED" "terminal CANCELLED"
  "\<not> terminal PENDING" "\<not> terminal BLOCKED" "\<not> terminal READY"
  "\<not> terminal IN_PROGRESS" "\<not> terminal IN_REVIEW"
  by (simp_all add: TERMINAL_TASK_STATUSES_def)

text \<open>The error messages of the validation, by what they say.\<close>

datatype status_error =
    TransitionNotAllowed agent_task_status agent_task_status
  | DependenciesNotCompleted
  | NoDependencies
  | NotTerminalStatus agent_task_status

text \<open>The exceptions a task operation raises.\<close>

datatype task_exn = PyExn py_error | StatusExn status_error

definition validate_task_status_transition ::
  "agent_task_status \<Rightarrow> agent_task_status \<Rightarrow> status_error option" where
  "validate_task_status_transition current target =
     (if target \<notin> set (VALID_TASK_TRANSITIONS current)
      then Some (TransitionNotAllowed current target) else None)"

section \<open>Dependencies\<close>

definition dep_ids :: "agent_task \<Rightarrow> py_error + uuid list" where
  "dep_ids t = sum_map parse_uuid (deps_of t)"

definition are_dependencies_completed :: "db \<Rightarrow> agent_task \<Rightarrow> py_error + bool" where
  "are_dependencies_completed d task =
     (if deps_of task = [] then Inr True
      else (case dep_ids task of
              Inl e \<Rightarrow> Inl e
            | Inr ids \<Rightarrow>
                Inr (count_rows (\<lambda>t. t_id t \<in> set ids \<and> t_status t = COMPLETED \<and> live_task t)
                       (db_tasks d) = length ids)))"

definition validate_task_status_semantics ::
  "db \<Rightarrow> agent_task \<Rightarrow> agent_task_status \<Rightarrow> py_error + status_error option" where
  "validate_task_status_semantics d task target =
     (if target = READY then
        (case are_dependencies_completed d task of
           Inl e \<Rightarrow> Inl e
         | Inr ok \<Rightarrow> Inr (if ok then None else Some DependenciesNotCompleted))
      else if target = BLOCKED then
        Inr (if deps_of task = [] then Some NoDependencies else None)
      else Inr None)"

definition validate_task_status_change ::
  "db \<Rightarrow> agent_task \<Rightarrow> agent_task_status \<Rightarrow> py_error + status_error option" where
  "validate_task_status_change d task target =
     (case validate_task_status_transition (t_status task) target of
        Some e \<Rightarrow> Inr (Some e)
      | None \<Rightarrow> validate_task_status_semantics d task target)"

section \<open>Finishing a task\<close>

text \<open>\<open>SUM(cost_usd)\<close> ignores \<open>NULL\<close>s and is \<open>NULL\<close> when nothing is left.\<close>

definition sql_sum :: "rat option list \<Rightarrow> rat option" where
  "sql_sum cs =
     (let vs = map the (filter (\<lambda>c. c \<noteq> None) cs)
      in if vs = [] then None else Some (sum_list vs))"

definition aggregate_task_spending :: "db \<Rightarrow> agent_task \<Rightarrow> py_error + rat option" where
  "aggregate_task_spending d task =
     (if or_empty (t_assigned_session_ids task) = [] then Inr None
      else (case sum_map parse_uuid (or_empty (t_assigned_session_ids task)) of
              Inl e \<Rightarrow> Inl e
            | Inr ids \<Rightarrow>
                Inr (sql_sum (map m_cost_usd
                       (filter (\<lambda>m. m_session_id m \<in> set ids) (db_messages d))))))"

definition complete_task ::
  "int \<Rightarrow> db \<Rightarrow> agent_task \<Rightarrow> agent_task_status \<Rightarrow> json option \<Rightarrow> bool \<Rightarrow> task_exn + db" where
  "complete_task now d task status result aggregate_spending =
     (if \<not> terminal status then Inl (StatusExn (NotTerminalStatus status))
      else (case validate_task_status_transition (t_status task) status of
              Some e \<Rightarrow> Inl (StatusExn e)
            | None \<Rightarrow>
                (case (if aggregate_spending then aggregate_task_spending d task else Inr None) of
                   Inl e \<Rightarrow> Inl (PyExn e)
                 | Inr spending \<Rightarrow>
                     Inr (write_task now (t_id task)
                       (\<lambda>t. t\<lparr>t_status := status,
                              t_completed_at := Some now,
                              t_result := (if result = None then t_result t else result),
                              t_actual_spending_usd :=
                                (if spending = None then t_actual_spending_usd t else spending)\<rparr>) d))))"

section \<open>Restarting a task\<close>

definition NON_RESTARTABLE_STATUSES :: "agent_task_status list" where
  "NON_RESTARTABLE_STATUSES = [IN_PROGRESS]"

datatype restart_message =
    RestartTaskNotFound
  | CannotRestart agent_task_status
  | RestartNotAllowed status_error
  | TaskRestarted agent_task_status

definition restart_task :: "int \<Rightarrow> uuid \<Rightarrow> db \<Rightarrow> (bool \<times> restart_message) \<times> db" where
  "restart_task now task_id d =
     (case find_task live_task task_id d of
        None \<Rightarrow> ((False, RestartTaskNotFound), d)
      | Some task \<Rightarrow>
          if t_status task \<in> set NON_RESTARTABLE_STATUSES
          then ((False, CannotRestart (t_status task)), d)
          else (case validate_task_status_transition (t_status task) PENDING of
                  Some e \<Rightarrow> ((False, RestartNotAllowed e), d)
                | None \<Rightarrow>
                    ((True, TaskRestarted (t_status task)),
                     write_task now task_id
                       (\<lambda>t. t\<lparr>t_status := PENDING, t_completed_at := None, t_result := None,
                              t_assigned_session_ids := None\<rparr>) d)))"

section \<open>The invariant\<close>

text \<open>
  What every operation keeps of a task row: a terminal status and a completion time come
  together, a \<open>BLOCKED\<close> task has dependencies, and every stored dependency is the text
  of a UUID, so that reading the dependencies back never raises.
\<close>

definition task_ok :: "agent_task \<Rightarrow> bool" where
  "task_ok t \<longleftrightarrow>
     (terminal (t_status t) \<longleftrightarrow> t_completed_at t \<noteq> None) \<and>
     (t_status t = BLOCKED \<longrightarrow> deps_of t \<noteq> []) \<and>
     (\<forall>s \<in> set (deps_of t). \<exists>u. parse_uuid s = Inr u)"

definition db_ok :: "db \<Rightarrow> bool" where
  "db_ok d \<longleftrightarrow> distinct (map t_id (db_tasks d)) \<and> (\<forall>t \<in> set (db_tasks d). task_ok t)"

lemma db_ok_distinct: "db_ok d \<Longrightarrow> distinct (map t_id (db_tasks d))"
  by (simp add: db_ok_def)

lemma db_ok_task: "db_ok d \<Longrightarrow> t \<in> set (db_tasks d) \<Longrightarrow> task_ok t"
  by (simp add: db_ok_def)

lemma db_ok_tasks:
  "db_ok (d\<lparr>db_tasks := ts\<rparr>) \<longleftrightarrow> distinct (map t_id ts) \<and> (\<forall>t \<in> set ts. task_ok t)"
  by (simp add: db_ok_def)

lemma task_ok_modified_at [simp]: "task_ok (t\<lparr>t_modified_at := now\<rparr>) = task_ok t"
  by (simp add: task_ok_def)

text \<open>The one lemma behind every preservation proof: a write keeps the invariant when the
  written row keeps it.\<close>

lemma db_ok_write_task:
  assumes "db_ok d"
    and "\<And>t. t_id (f t) = t_id t"
    and "\<And>t. t \<in> set (db_tasks d) \<Longrightarrow> t_id t = i \<Longrightarrow> task_ok t \<Longrightarrow> task_ok (f t)"
  shows "db_ok (write_task now i f d)"
proof -
  have "distinct (map t_id (db_tasks (write_task now i f d)))"
    using assms(1,2) by (simp add: write_task_ids db_ok_def)
  moreover have "task_ok t" if "t \<in> set (db_tasks (write_task now i f d))" for t
    using that assms(1,3) by (auto simp: in_write_task db_ok_def)
  ultimately show ?thesis by (simp add: db_ok_def)
qed

lemma db_ok_write_project [simp]: "db_ok (write_project now i f d) = db_ok d"
  by (simp add: db_ok_def)

text \<open>A row read by primary key is the row a write with that key changes.\<close>

lemma found_is_written:
  assumes "db_ok d" "find_task q i d = Some task" "t \<in> set (db_tasks d)" "t_id t = i"
  shows "t = task"
  using assms find_task_Some [OF assms(2)]
  by (metis db_ok_distinct distinct_key_unique)

text \<open>The form the operations use: read a row by its key, then write it.\<close>

lemma db_ok_write_found:
  assumes "db_ok d" "find_task q i d = Some task"
    and "\<And>t. t_id (f t) = t_id t" "task_ok task \<Longrightarrow> task_ok (f task)"
  shows "db_ok (write_task now i f d)"
proof (rule db_ok_write_task [OF assms(1,3)])
  fix t
  assume t: "t \<in> set (db_tasks d)" "t_id t = i" "task_ok t"
  then have "t = task" by (intro found_is_written [OF assms(1,2)])
  with t assms(4) show "task_ok (f t)" by simp
qed

lemma dep_ids_total: "task_ok t \<Longrightarrow> \<exists>ids. dep_ids t = Inr ids"
  unfolding dep_ids_def task_ok_def by (rule sum_map_total) blast

lemma dep_ids_length: "dep_ids t = Inr ids \<Longrightarrow> length ids = length (deps_of t)"
  unfolding dep_ids_def by (rule sum_map_length)

lemma are_dependencies_completed_total:
  "task_ok t \<Longrightarrow> \<exists>b. are_dependencies_completed d t = Inr b"
  using dep_ids_total by (fastforce simp: are_dependencies_completed_def)

lemma validate_task_status_change_total:
  "task_ok t \<Longrightarrow> \<exists>r. validate_task_status_change d t target = Inr r"
  using are_dependencies_completed_total [of t d]
  by (auto simp: validate_task_status_change_def validate_task_status_semantics_def
      split: option.splits sum.splits)

text \<open>
  The dependency check counts rows and compares with the length of the list, so it holds
  exactly when the dependencies are pairwise different and each has a live completed row.
\<close>

lemma are_dependencies_completed_iff:
  assumes "distinct (map t_id (db_tasks d))" "dep_ids t = Inr ids"
  shows "are_dependencies_completed d t = Inr True \<longleftrightarrow>
    distinct ids \<and> (\<forall>i \<in> set ids. \<exists>u \<in> set (db_tasks d). t_id u = i \<and> t_status u = COMPLETED \<and> live_task u)"
proof (cases "deps_of t = []")
  case True
  with assms(2) have "ids = []" using dep_ids_length by force
  with True show ?thesis by (simp add: are_dependencies_completed_def)
next
  case False
  with assms(2) have "are_dependencies_completed d t =
      Inr (count_rows (\<lambda>u. t_id u \<in> set ids \<and> t_status u = COMPLETED \<and> live_task u) (db_tasks d) = length ids)"
    by (simp add: are_dependencies_completed_def)
  then show ?thesis
    using count_rows_keys_full [OF assms(1), of ids "\<lambda>u. t_status u = COMPLETED \<and> live_task u"] by simp
qed

lemma validate_transition_None [simp]:
  "validate_task_status_transition s s' = None \<longleftrightarrow> s' \<in> set (VALID_TASK_TRANSITIONS s)"
  by (simp add: validate_task_status_transition_def)

lemma validate_transition_Some [simp]:
  "validate_task_status_transition s s' = Some e \<longleftrightarrow>
     s' \<notin> set (VALID_TASK_TRANSITIONS s) \<and> e = TransitionNotAllowed s s'"
  by (auto simp: validate_task_status_transition_def)

lemma complete_task_cases:
  assumes "complete_task now d task status result agg = Inr d'"
  obtains spending where
    "terminal status" "status \<in> set (VALID_TASK_TRANSITIONS (t_status task))"
    "(if agg then aggregate_task_spending d task else Inr None) = Inr spending"
    "d' = write_task now (t_id task)
       (\<lambda>t. t\<lparr>t_status := status, t_completed_at := Some now,
              t_result := (if result = None then t_result t else result),
              t_actual_spending_usd :=
                (if spending = None then t_actual_spending_usd t else spending)\<rparr>) d"
  using assms unfolding complete_task_def
  by (auto split: if_splits option.splits sum.splits)

lemma complete_task_ok:
  assumes "db_ok d" "complete_task now d task status result agg = Inr d'"
  shows "db_ok d'"
  using assms(2)
proof (rule complete_task_cases)
  fix spending
  assume t: "terminal status" and d': "d' = write_task now (t_id task)
       (\<lambda>t. t\<lparr>t_status := status, t_completed_at := Some now,
              t_result := (if result = None then t_result t else result),
              t_actual_spending_usd :=
                (if spending = None then t_actual_spending_usd t else spending)\<rparr>) d"
  show ?thesis unfolding d'
    by (rule db_ok_write_task [OF assms(1)]) (use t in \<open>auto simp: task_ok_def\<close>)
qed

section \<open>Operation contracts\<close>

text \<open>
  An operation runs in one transaction: it takes its input and the database and returns its
  answer and the database it leaves behind. Every operation keeps the invariant.
\<close>

locale db_operation =
  fixes run :: "'i \<Rightarrow> db \<Rightarrow> 'r \<times> db"
  assumes keeps_ok: "db_ok d \<Longrightarrow> db_ok (snd (run i d))"
begin

primrec run_all :: "'i list \<Rightarrow> db \<Rightarrow> db" where
  "run_all [] d = d"
| "run_all (i # is) d = run_all is (snd (run i d))"

lemma run_all_ok: "db_ok d \<Longrightarrow> db_ok (run_all is d)"
  by (induction "is" arbitrary: d) (simp_all add: keeps_ok)

end

text \<open>A tool answers with an error or a result, and an error leaves the database as it was.\<close>

locale atomic_operation = db_operation run
  for run :: "'i \<Rightarrow> db \<Rightarrow> ('e + 'r) \<times> db" +
  assumes error_rolls_back: "fst (run i d) = Inl e \<Longrightarrow> snd (run i d) = d"
begin

lemma change_means_success: "snd (run i d) \<noteq> d \<Longrightarrow> \<exists>r. fst (run i d) = Inr r"
  using error_rolls_back by (cases "fst (run i d)") auto

lemma all_errors_roll_back:
  "(\<And>i d. i \<in> set is \<Longrightarrow> \<exists>e. fst (run i d) = Inl e) \<Longrightarrow> run_all is d = d"
proof (induction "is" arbitrary: d)
  case Nil
  then show ?case by simp
next
  case (Cons i "is")
  then obtain e where "fst (run i d) = Inl e" by fastforce
  then have "snd (run i d) = d" by (rule error_rolls_back)
  with Cons show ?case by simp
qed

end

lemma restart_task_ok: "db_ok d \<Longrightarrow> db_ok (snd (restart_task now i d))"
  unfolding restart_task_def
  by (auto split: option.splits intro!: db_ok_write_task simp: task_ok_def)

interpretation restart_util: db_operation "\<lambda>(now, i). restart_task now i"
  by unfold_locales (auto simp: restart_task_ok)

end
