(* ===== verification/Task_Executor.thy ===== *)
theory Task_Executor
  imports Task_Status
begin

text \<open>
  \<open>ypl/agent_harness_service/task_executor.py\<close>, all but the polling loop: recovery of
  stale tasks, dependency resolution, selection and claiming, execution of a task through a
  new or resumed agent session, the completion hook and the resumption of failed tasks.
  Every function that opens one database session is one transaction. Rows that another
  transaction has locked are given by a predicate \<open>locked\<close> wherever a query says
  \<open>SKIP LOCKED\<close>. The session service and the Slack gateway are parameters.
\<close>

section \<open>Configuration\<close>

definition parse_env_int :: "string option \<Rightarrow> int \<Rightarrow> int" where
  "parse_env_int value dflt =
     (case value of
        None \<Rightarrow> dflt
      | Some s \<Rightarrow>
          (case py_int 10 s of
             None \<Rightarrow> dflt
           | Some v \<Rightarrow> if 0 < v then v else dflt))"

definition RESUMABLE_ERROR_SUBTYPES :: "string list" where
  "RESUMABLE_ERROR_SUBTYPES = [''error_max_turns'']"

section \<open>Stale tasks\<close>

definition minutes :: "int \<Rightarrow> int" where
  "minutes m = m * 60 * 1000000"

definition recover_stale_in_progress_tasks ::
  "int \<Rightarrow> int \<Rightarrow> (uuid \<Rightarrow> bool) \<Rightarrow> db \<Rightarrow> nat \<times> db" where
  "recover_stale_in_progress_tasks now timeout_minutes locked d =
     (let stale_threshold = now - minutes timeout_minutes;
          stale_tasks = filter (\<lambda>t. t_status t = IN_PROGRESS \<and> t_modified_at t < stale_threshold \<and>
                                 live_task t \<and> \<not> locked (t_id t)) (db_tasks d)
      in if stale_tasks = [] then (0, d)
         else (length stale_tasks,
               fold (\<lambda>task. write_task now (t_id task) (\<lambda>t. t\<lparr>t_status := READY\<rparr>)) stale_tasks d))"

section \<open>Dependency resolution\<close>

definition has_failed_dependency :: "db \<Rightarrow> agent_task \<Rightarrow> py_error + bool" where
  "has_failed_dependency d task =
     (if deps_of task = [] then Inr False
      else (case dep_ids task of
              Inl e \<Rightarrow> Inl e
            | Inr ids \<Rightarrow>
                Inr (0 < count_rows (\<lambda>t. t_id t \<in> set ids \<and> t_status t \<in> {FAILED, CANCELLED} \<and> live_task t)
                           (db_tasks d))))"

text \<open>The loop over the pending tasks: the database and the number of transitions so far.\<close>

fun resolve_loop :: "int \<Rightarrow> agent_task list \<Rightarrow> db \<Rightarrow> nat \<Rightarrow> py_error + nat \<times> db" where
  "resolve_loop now [] d n = Inr (n, d)"
| "resolve_loop now (task # tasks) d n =
     (case has_failed_dependency d task of
        Inl e \<Rightarrow> Inl e
      | Inr True \<Rightarrow> resolve_loop now tasks d n
      | Inr False \<Rightarrow>
          (case are_dependencies_completed d task of
             Inl e \<Rightarrow> Inl e
           | Inr True \<Rightarrow>
               resolve_loop now tasks (write_task now (t_id task) (\<lambda>t. t\<lparr>t_status := READY\<rparr>) d) (Suc n)
           | Inr False \<Rightarrow> resolve_loop now tasks d n))"

definition resolve_candidate :: "(uuid \<Rightarrow> bool) \<Rightarrow> agent_task \<Rightarrow> bool" where
  "resolve_candidate locked t \<longleftrightarrow>
     t_status t \<in> {PENDING, BLOCKED} \<and> live_task t \<and> \<not> locked (t_id t)"

definition resolve_task_dependencies ::
  "int \<Rightarrow> (uuid \<Rightarrow> bool) \<Rightarrow> db \<Rightarrow> (py_error + nat) \<times> db" where
  "resolve_task_dependencies now locked d =
     (let pending_tasks = filter (resolve_candidate locked) (db_tasks d)
      in if pending_tasks = [] then (Inr 0, d)
         else (case resolve_loop now pending_tasks d 0 of
                 Inl e \<Rightarrow> (Inl e, d)
               | Inr (transitioned_count, d') \<Rightarrow> (Inr transitioned_count, d')))"

section \<open>Selection and claiming\<close>

text \<open>
  \<open>task_data["forced_pickup"].as_boolean() IS TRUE\<close>: the text of the JSON value is cast to \<open>BOOLEAN\<close> by
  PostgreSQL, which accepts several words, in any case and between blanks. (The executor itself stores
  the JSON boolean only. For a text that is no truth value at all the whole query would fail in
  the database; here it is not true.)
\<close>

definition ascii_lower :: "char \<Rightarrow> char" where
  "ascii_lower c = (let n = char_code c in if 65 \<le> n \<and> n \<le> 90 then char_of (n + 32) else c)"

definition pg_true :: "json \<Rightarrow> bool" where
  "pg_true v =
     (case v of
        JBool b \<Rightarrow> b
      | JNum n \<Rightarrow> n = 1
      | JStr s \<Rightarrow> map ascii_lower (py_strip s) \<in>
          {''t'', ''tr'', ''tru'', ''true'', ''y'', ''ye'', ''yes'', ''on'', ''1''}
      | _ \<Rightarrow> False)"

definition forced_pickup :: "agent_task \<Rightarrow> bool" where
  "forced_pickup t =
     (case t_task_data t of
        Some (JObj kvs) \<Rightarrow> (case dict_get kvs ''forced_pickup'' of None \<Rightarrow> False | Some v \<Rightarrow> pg_true v)
      | _ \<Rightarrow> False)"

lemma pg_true_true: "pg_true v \<Longrightarrow> json_true v"
  by (cases v) (auto simp: pg_true_def json_true_def py_strip_def strip_by_def)

definition task_pickup_project_condition :: "agent_project \<Rightarrow> agent_task \<Rightarrow> bool" where
  "task_pickup_project_condition p t \<longleftrightarrow>
     p_status p = PROJECT_ACTIVE \<or> (p_status p = PROJECT_PAUSED \<and> forced_pickup t)"

definition can_pick_up :: "db \<Rightarrow> agent_task \<Rightarrow> bool" where
  "can_pick_up d t \<longleftrightarrow>
     t_status t = READY \<and> live_task t \<and>
     (case find_project live_project (t_project_id t) d of
        None \<Rightarrow> False
      | Some p \<Rightarrow> task_pickup_project_condition p t)"

definition get_ready_tasks :: "nat \<Rightarrow> db \<Rightarrow> agent_task list" where
  "get_ready_tasks batch_size d = take batch_size (order_tasks (filter (can_pick_up d) (db_tasks d)))"

text \<open>
  \<open>if task.task_data and task.task_data.get("forced_pickup")\<close>: a true value that is not
  an object has no \<open>get\<close> and raises.
\<close>

definition clear_forced_pickup :: "json option \<Rightarrow> py_error + json option" where
  "clear_forced_pickup td =
     (case td of
        None \<Rightarrow> Inr None
      | Some v \<Rightarrow>
          if \<not> json_true v then Inr td
          else (case v of
                  JObj kvs \<Rightarrow>
                    Inr (if dict_flag kvs ''forced_pickup''
                         then dict_or_none (dict_pop ''forced_pickup'' kvs) else td)
                | _ \<Rightarrow> Inl AttributeError))"

definition claim_task ::
  "int \<Rightarrow> (uuid \<Rightarrow> bool) \<Rightarrow> uuid \<Rightarrow> db \<Rightarrow> (py_error + agent_task option) \<times> db" where
  "claim_task now locked task_id d =
     (case find_task (\<lambda>t. can_pick_up d t \<and> \<not> locked (t_id t)) task_id d of
        None \<Rightarrow> (Inr None, d)
      | Some task \<Rightarrow>
          (case clear_forced_pickup (t_task_data task) of
             Inl e \<Rightarrow> (Inl e, d)
           | Inr td \<Rightarrow>
               (let d' = write_task now task_id (\<lambda>t. t\<lparr>t_status := IN_PROGRESS, t_task_data := td\<rparr>) d
                in (Inr (find_task (\<lambda>_. True) task_id d'), d'))))"

section \<open>Reading single rows\<close>

definition get_project :: "uuid \<Rightarrow> db \<Rightarrow> agent_project option" where
  "get_project project_id d = find_project (\<lambda>_. True) project_id d"

definition get_agent_by_id :: "uuid \<Rightarrow> db \<Rightarrow> agent option" where
  "get_agent_by_id agent_id d = get_row (\<lambda>a. a_id a = agent_id) (db_agents d)"

definition get_agent_by_name :: "string \<Rightarrow> db \<Rightarrow> agent option" where
  "get_agent_by_name agent_name d = get_row (\<lambda>a. a_name a = agent_name) (db_agents d)"

definition add_session_to_task :: "int \<Rightarrow> uuid \<Rightarrow> string \<Rightarrow> db \<Rightarrow> db" where
  "add_session_to_task now task_id session_id d =
     (case find_task (\<lambda>_. True) task_id d of
        None \<Rightarrow> d
      | Some _ \<Rightarrow>
          write_task now task_id
            (\<lambda>t. t\<lparr>t_assigned_session_ids := Some (or_empty (t_assigned_session_ids t) @ [session_id])\<rparr>) d)"

section \<open>Slack notices\<close>

text \<open>
  What the executor posts, by content instead of by text. The gateway is a parameter: absent
  when the deployment has none, otherwise a function of agent name, destination, notice and
  thread that raises, fails, or returns the identifier of the posted message. A thread time
  stamp is the JSON value stored under \<open>updates_thread_ts\<close>; \<open>json_text\<close> is
  \<open>str\<close> on such a value when it is not a string.
\<close>

datatype notice =
    UpdatesHeader string
  | TaskStarted string "json option" string
  | TaskCompleted string "json option" "json option" "string option"
  | TaskFailed string "json option" "string option" "string option"
  | RateLimitStorm "json option" string nat int uuid

datatype send_result = SendRaised | SendResult bool "string option"

type_synonym gateway = "string \<Rightarrow> string \<Rightarrow> notice \<Rightarrow> json option \<Rightarrow> send_result"

type_synonym posts = "(string \<times> notice \<times> json option) list"

definition py_str_json :: "(json \<Rightarrow> string) \<Rightarrow> json \<Rightarrow> string" where
  "py_str_json json_text v = (case v of JStr s \<Rightarrow> s | _ \<Rightarrow> json_text v)"

definition true_entry :: "py_dict option \<Rightarrow> string \<Rightarrow> json option" where
  "true_entry state k =
     (case dict_get (or_empty state) k of
        None \<Rightarrow> None
      | Some v \<Rightarrow> if json_true v then Some v else None)"

definition true_string :: "string option \<Rightarrow> string option" where
  "true_string s = (case s of None \<Rightarrow> None | Some x \<Rightarrow> if x = [] then None else Some x)"

definition ensure_updates_thread ::
  "gateway option \<Rightarrow> (json \<Rightarrow> string) \<Rightarrow> int \<Rightarrow> agent_project \<Rightarrow> string \<Rightarrow> db \<Rightarrow>
     json option \<times> posts \<times> db" where
  "ensure_updates_thread gw json_text now project agent_name d =
     (case true_string (p_slack_channel project) of
        None \<Rightarrow> (None, [], d)
      | Some slack_channel \<Rightarrow>
          (case true_entry (p_shared_state project) ''updates_thread_ts'' of
             Some existing_ts \<Rightarrow> (Some existing_ts, [], d)
           | None \<Rightarrow>
               (case gw of
                  None \<Rightarrow> (None, [], d)
                | Some send \<Rightarrow>
                    (case find_project (\<lambda>_. True) (p_id project) d of
                       None \<Rightarrow> (None, [], d)
                     | Some db_project \<Rightarrow>
                         (case true_entry (p_shared_state db_project) ''updates_thread_ts'' of
                            Some existing \<Rightarrow> (Some (JStr (py_str_json json_text existing)), [], d)
                          | None \<Rightarrow>
                              (case true_string (p_slack_channel db_project) of
                                 None \<Rightarrow> (None, [], d)
                               | Some locked_channel \<Rightarrow>
                                   (let header = UpdatesHeader (p_name db_project);
                                        post = (locked_channel, header, None)
                                    in case send agent_name locked_channel header None of
                                         SendRaised \<Rightarrow> (None, [post], d)
                                       | SendResult success message_id \<Rightarrow>
                                           (case (if success then true_string message_id else None) of
                                              None \<Rightarrow> (None, [post], d)
                                            | Some thread_ts \<Rightarrow>
                                                (Some (JStr thread_ts), [post],
                                                 write_project now (p_id project)
                                                   (\<lambda>p. p\<lparr>p_shared_state :=
                                                      Some (dict_set ''updates_thread_ts'' (JStr thread_ts)
                                                              (or_empty (p_shared_state p)))\<rparr>) d)))))))))"

definition get_creator_mention :: "py_dict option \<Rightarrow> json option" where
  "get_creator_mention shared_state = true_entry shared_state ''creator_slack_user_id''"

definition post_project_slack_update ::
  "gateway option \<Rightarrow> uuid \<Rightarrow> string \<Rightarrow> notice \<Rightarrow> json option \<Rightarrow> db \<Rightarrow> posts" where
  "post_project_slack_update gw project_id agent_name text updates_thread_ts d =
     (case gw of
        None \<Rightarrow> []
      | Some send \<Rightarrow>
          (case get_project project_id d of
             None \<Rightarrow> []
           | Some project \<Rightarrow>
               (case true_string (p_slack_channel project) of
                  None \<Rightarrow> []
                | Some slack_channel \<Rightarrow>
                    (let given = (case updates_thread_ts of
                                    Some v \<Rightarrow> if json_true v then Some v else None
                                  | None \<Rightarrow> None);
                         thread_ts = (case given of
                                        Some v \<Rightarrow> Some v
                                      | None \<Rightarrow> true_entry (p_shared_state project) ''updates_thread_ts'')
                     in case thread_ts of
                          None \<Rightarrow> []
                        | Some ts \<Rightarrow> [(slack_channel, text, Some ts)]))))"

section \<open>What the operations keep\<close>

lemma fold_write_tasks:
  assumes "distinct (map t_id ts)" "\<And>t. t_id (f t) = t_id t"
  shows "fold (\<lambda>task. write_task now (t_id task) f) ts d =
    d\<lparr>db_tasks := map (\<lambda>t. if t_id t \<in> t_id ` set ts then (f t)\<lparr>t_modified_at := now\<rparr> else t) (db_tasks d)\<rparr>"
proof -
  let ?g = "\<lambda>t. (f t)\<lparr>t_modified_at := now\<rparr>"
  have "fold (\<lambda>task. write_task now (t_id task) f) ts d =
      d\<lparr>db_tasks := fold (\<lambda>k. modify t_id k ?g) (map t_id ts) (db_tasks d)\<rparr>"
    by (induction ts arbitrary: d) (simp_all add: write_task_def)
  then show ?thesis
    using fold_modify [OF assms(1), of t_id ?g] assms(2) by simp
qed

lemma fold_write_ok:
  assumes "db_ok d" "\<And>t. t_id (f t) = t_id t" "distinct (map t_id ts)"
    and "set ts \<subseteq> set (db_tasks d)" "\<And>t. t \<in> set ts \<Longrightarrow> task_ok t \<Longrightarrow> task_ok (f t)"
  shows "db_ok (fold (\<lambda>task. write_task now (t_id task) f) ts d)"
proof -
  let ?rows = "map (\<lambda>t. if t_id t \<in> t_id ` set ts then (f t)\<lparr>t_modified_at := now\<rparr> else t) (db_tasks d)"
  have "map t_id ?rows = map t_id (db_tasks d)" using assms(2) by auto
  then have d: "distinct (map t_id ?rows)" using db_ok_distinct [OF assms(1)] by (simp only:)
  have "task_ok t" if "t \<in> set ?rows" for t
  proof -
    from that obtain r where r: "r \<in> set (db_tasks d)"
      and t: "t = (if t_id r \<in> t_id ` set ts then (f r)\<lparr>t_modified_at := now\<rparr> else r)" by auto
    have rts: "r \<in> set ts" if "t_id r \<in> t_id ` set ts"
    proof -
      from that obtain s where s: "s \<in> set ts" "t_id s = t_id r" by auto
      with assms(4) have "s \<in> set (db_tasks d)" by blast
      then have "s = r" by (rule distinct_key_unique [OF db_ok_distinct [OF assms(1)]]) (use r s in auto)
      with s show ?thesis by simp
    qed
    have "task_ok r" by (rule db_ok_task [OF assms(1) r])
    with t rts assms(5) show ?thesis by (cases "t_id r \<in> t_id ` set ts") simp_all
  qed
  with d show ?thesis
    unfolding fold_write_tasks [of ts f now d, OF assms(3,2)] db_ok_tasks by blast
qed

lemma distinct_ids_filter: "db_ok d \<Longrightarrow> distinct (map t_id (filter p (db_tasks d)))"
  by (simp add: db_ok_def distinct_map_filter)

lemma recover_stale_ok: "db_ok d \<Longrightarrow> db_ok (snd (recover_stale_in_progress_tasks now timeout locked d))"
  unfolding recover_stale_in_progress_tasks_def Let_def
  by (auto intro!: fold_write_ok distinct_ids_filter simp: task_ok_def)

subsection \<open>Dependency resolution in closed form\<close>

text \<open>The dependency verdict on a task, as one predicate on the state before the loop.\<close>

definition deps_satisfied :: "db \<Rightarrow> agent_task \<Rightarrow> bool" where
  "deps_satisfied d t \<longleftrightarrow>
     has_failed_dependency d t = Inr False \<and> are_dependencies_completed d t = Inr True"

text \<open>Moving an unfinished task to \<open>READY\<close> does not change the verdict on any task.\<close>

lemma verdict_stable:
  assumes "\<And>r. r \<in> set (db_tasks d) \<Longrightarrow> t_id r = i \<Longrightarrow> t_status r \<notin> {COMPLETED, FAILED, CANCELLED}"
  shows "has_failed_dependency (write_task now i (\<lambda>t. t\<lparr>t_status := READY\<rparr>) d) t = has_failed_dependency d t"
    and "are_dependencies_completed (write_task now i (\<lambda>t. t\<lparr>t_status := READY\<rparr>) d) t =
         are_dependencies_completed d t"
proof -
  have c: "count_rows (\<lambda>r. t_id r \<in> A \<and> t_status r \<in> B \<and> live_task r)
        (db_tasks (write_task now i (\<lambda>t. t\<lparr>t_status := READY\<rparr>) d)) =
      count_rows (\<lambda>r. t_id r \<in> A \<and> t_status r \<in> B \<and> live_task r) (db_tasks d)"
    if "B \<subseteq> {COMPLETED, FAILED, CANCELLED}" for A B
    unfolding write_task_tasks by (rule count_rows_modify) (use assms that in auto)
  show "has_failed_dependency (write_task now i (\<lambda>t. t\<lparr>t_status := READY\<rparr>) d) t = has_failed_dependency d t"
    unfolding has_failed_dependency_def using c [of "{FAILED, CANCELLED}"]
    by (auto split: sum.splits)
  show "are_dependencies_completed (write_task now i (\<lambda>t. t\<lparr>t_status := READY\<rparr>) d) t =
      are_dependencies_completed d t"
    unfolding are_dependencies_completed_def using c [of "{COMPLETED}"]
    by (auto split: sum.splits)
qed

lemma has_failed_dependency_total: "task_ok t \<Longrightarrow> \<exists>b. has_failed_dependency d t = Inr b"
  using dep_ids_total by (fastforce simp: has_failed_dependency_def)

lemma resolve_loop_eq:
  assumes "\<forall>t \<in> set ts. task_ok t"
    and "\<forall>t \<in> set ts. \<forall>r \<in> set (db_tasks d). t_id r = t_id t \<longrightarrow> t_status r \<notin> {COMPLETED, FAILED, CANCELLED}"
  shows "resolve_loop now ts d n =
    Inr (n + length (filter (deps_satisfied d) ts),
         fold (\<lambda>task. write_task now (t_id task) (\<lambda>t. t\<lparr>t_status := READY\<rparr>)) (filter (deps_satisfied d) ts) d)"
  using assms
proof (induction ts arbitrary: d n)
  case Nil
  then show ?case by simp
next
  case (Cons t ts)
  obtain b where b: "has_failed_dependency d t = Inr b"
    using has_failed_dependency_total Cons.prems(1) by fastforce
  obtain c where c: "are_dependencies_completed d t = Inr c"
    using are_dependencies_completed_total Cons.prems(1) by fastforce
  show ?case
  proof (cases "deps_satisfied d t")
    case True
    let ?d = "write_task now (t_id t) (\<lambda>t. t\<lparr>t_status := READY\<rparr>) d"
    have st: "\<And>r. r \<in> set (db_tasks d) \<Longrightarrow> t_id r = t_id t \<Longrightarrow> t_status r \<notin> {COMPLETED, FAILED, CANCELLED}"
      using Cons.prems(2) by auto
    have same: "deps_satisfied ?d = deps_satisfied d"
      unfolding deps_satisfied_def using verdict_stable [OF st] by simp
    have "\<forall>t' \<in> set ts. \<forall>r \<in> set (db_tasks ?d). t_id r = t_id t' \<longrightarrow> t_status r \<notin> {COMPLETED, FAILED, CANCELLED}"
      using Cons.prems(2) by (auto simp: in_write_task)
    with Cons.IH [of ?d "Suc n"] Cons.prems(1) True b c show ?thesis
      by (simp add: same deps_satisfied_def)
  next
    case False
    with Cons b c show ?thesis
      by (cases b; cases c) (simp_all add: deps_satisfied_def)
  qed
qed

lemma resolve_task_dependencies_eq:
  assumes "db_ok d"
  shows "resolve_task_dependencies now locked d =
    (let ts = filter (\<lambda>t. resolve_candidate locked t \<and> deps_satisfied d t) (db_tasks d)
     in (Inr (length ts),
         d\<lparr>db_tasks := map (\<lambda>t. if resolve_candidate locked t \<and> deps_satisfied d t
                                 then t\<lparr>t_status := READY, t_modified_at := now\<rparr> else t) (db_tasks d)\<rparr>))"
proof -
  let ?p = "\<lambda>t. resolve_candidate locked t \<and> deps_satisfied d t"
  let ?ts = "filter ?p (db_tasks d)"
  have u: "r = t" if "r \<in> set (db_tasks d)" "t \<in> set (db_tasks d)" "t_id r = t_id t" for r t
    using that db_ok_distinct [OF assms] by (blast intro: distinct_key_unique)
  have *: "resolve_loop now (filter (resolve_candidate locked) (db_tasks d)) d 0 =
      Inr (length ?ts, fold (\<lambda>task. write_task now (t_id task) (\<lambda>t. t\<lparr>t_status := READY\<rparr>)) ?ts d)"
  proof (subst resolve_loop_eq)
    show "\<forall>t \<in> set (filter (resolve_candidate locked) (db_tasks d)). task_ok t"
      using assms by (simp add: db_ok_def)
    show "\<forall>t \<in> set (filter (resolve_candidate locked) (db_tasks d)). \<forall>r \<in> set (db_tasks d).
        t_id r = t_id t \<longrightarrow> t_status r \<notin> {COMPLETED, FAILED, CANCELLED}"
      using u by (fastforce simp: resolve_candidate_def)
    show "Inr (0 + length (filter (deps_satisfied d) (filter (resolve_candidate locked) (db_tasks d))),
        fold (\<lambda>task. write_task now (t_id task) (\<lambda>t. t\<lparr>t_status := READY\<rparr>))
          (filter (deps_satisfied d) (filter (resolve_candidate locked) (db_tasks d))) d) =
      Inr (length ?ts, fold (\<lambda>task. write_task now (t_id task) (\<lambda>t. t\<lparr>t_status := READY\<rparr>)) ?ts d)"
      by (simp add: conj_commute)
  qed
  have ids: "t_id t \<in> t_id ` set ?ts \<longleftrightarrow> ?p t" if "t \<in> set (db_tasks d)" for t
    using that u by auto
  have rows: "map (\<lambda>t. if t_id t \<in> t_id ` set ?ts then t\<lparr>t_status := READY\<rparr>\<lparr>t_modified_at := now\<rparr> else t) (db_tasks d) =
      map (\<lambda>t. if ?p t then t\<lparr>t_status := READY, t_modified_at := now\<rparr> else t) (db_tasks d)"
    using ids by (intro map_cong) auto
  have f: "fold (\<lambda>task. write_task now (t_id task) (\<lambda>t. t\<lparr>t_status := READY\<rparr>)) ?ts d =
      d\<lparr>db_tasks := map (\<lambda>t. if ?p t then t\<lparr>t_status := READY, t_modified_at := now\<rparr> else t) (db_tasks d)\<rparr>"
    unfolding rows [symmetric]
    by (rule fold_write_tasks [OF distinct_ids_filter [OF assms]]) simp
  show ?thesis
  proof (cases "filter (resolve_candidate locked) (db_tasks d) = []")
    case True
    then have none: "\<not> resolve_candidate locked t" if "t \<in> set (db_tasks d)" for t
      using that by (auto simp: filter_empty_conv)
    then have "map (\<lambda>t. if ?p t then t\<lparr>t_status := READY, t_modified_at := now\<rparr> else t) (db_tasks d) = db_tasks d"
      by (intro map_idI) simp
    moreover have "?ts = []" using none by (simp add: filter_empty_conv)
    ultimately show ?thesis
      using True by (simp add: resolve_task_dependencies_def)
  next
    case False
    then show ?thesis
      unfolding resolve_task_dependencies_def Let_def using * f by simp
  qed
qed

lemma resolve_ok: "db_ok d \<Longrightarrow> db_ok (snd (resolve_task_dependencies now locked d))"
  by (auto simp: resolve_task_dependencies_eq Let_def db_ok_def resolve_candidate_def task_ok_def
      comp_def if_distrib cong: if_cong)

lemma clear_forced_pickup_cases:
  "clear_forced_pickup td = Inr td' \<Longrightarrow>
     td' = td \<or> (\<exists>kvs. td = Some (JObj kvs) \<and> td' = dict_or_none (dict_pop ''forced_pickup'' kvs))"
  by (auto simp: clear_forced_pickup_def split: option.splits if_splits json.splits)

lemma claim_task_cases:
  obtains (none) "claim_task now locked i d = (Inr None, d)"
      "find_task (\<lambda>t. can_pick_up d t \<and> \<not> locked (t_id t)) i d = None"
  | (raised) task e where "find_task (\<lambda>t. can_pick_up d t \<and> \<not> locked (t_id t)) i d = Some task"
      "clear_forced_pickup (t_task_data task) = Inl e" "claim_task now locked i d = (Inl e, d)"
  | (claimed) task td where "find_task (\<lambda>t. can_pick_up d t \<and> \<not> locked (t_id t)) i d = Some task"
      "clear_forced_pickup (t_task_data task) = Inr td"
      "claim_task now locked i d =
        (let d' = write_task now i (\<lambda>t. t\<lparr>t_status := IN_PROGRESS, t_task_data := td\<rparr>) d
         in (Inr (find_task (\<lambda>_. True) i d'), d'))"
proof (cases "find_task (\<lambda>t. can_pick_up d t \<and> \<not> locked (t_id t)) i d")
  case None
  then show ?thesis by (intro that(1)) (simp_all add: claim_task_def)
next
  case f: (Some task)
  show ?thesis
  proof (cases "clear_forced_pickup (t_task_data task)")
    case (Inl e)
    with f show ?thesis by (intro that(2)) (simp_all add: claim_task_def)
  next
    case (Inr td)
    with f show ?thesis by (intro that(3)) (simp_all add: claim_task_def)
  qed
qed

lemma claim_task_ok: "db_ok d \<Longrightarrow> db_ok (snd (claim_task now locked i d))"
proof (rule claim_task_cases [of now locked i d])
  fix task td
  assume ok: "db_ok d"
    and f: "find_task (\<lambda>t. can_pick_up d t \<and> \<not> locked (t_id t)) i d = Some task"
    and c: "claim_task now locked i d =
        (let d' = write_task now i (\<lambda>t. t\<lparr>t_status := IN_PROGRESS, t_task_data := td\<rparr>) d
         in (Inr (find_task (\<lambda>_. True) i d'), d'))"
  have "t_status task = READY" using find_task_Some [OF f] by (simp add: can_pick_up_def)
  then have "db_ok (write_task now i (\<lambda>t. t\<lparr>t_status := IN_PROGRESS, t_task_data := td\<rparr>) d)"
    by (intro db_ok_write_found [OF ok f]) (auto simp: task_ok_def)
  then show ?thesis by (simp add: c Let_def)
qed simp_all

lemma add_session_ok: "db_ok d \<Longrightarrow> db_ok (add_session_to_task now i s d)"
  unfolding add_session_to_task_def
  by (auto split: option.splits intro!: db_ok_write_task simp: task_ok_def)

lemma ensure_updates_thread_ok:
  "ensure_updates_thread gw jt now p a d = (ts, ps, d') \<Longrightarrow> db_tasks d' = db_tasks d \<and> (db_ok d' = db_ok d)"
  unfolding ensure_updates_thread_def Let_def
  by (auto split: option.splits send_result.splits if_splits)

end
