(* ===== verification/Promotion.thy ===== *)
theory Promotion
  imports Task_Executor
begin

text \<open>
  Several places of the code run the same loop: go through the unfinished tasks a query
  returned and move those whose dependencies allow it to \<open>READY\<close>, reading the database
  again for every task. The locale \<open>promotion\<close> states what makes such a loop equal to one
  simultaneous update: its verdict does not depend on whether other unfinished tasks have
  already been moved. The executor's verdict and the two row checks of the task tools
  are shown to satisfy it.
\<close>

abbreviation ready_task :: "agent_task \<Rightarrow> agent_task" where
  "ready_task t \<equiv> t\<lparr>t_status := READY\<rparr>"

definition unfinished_id :: "db \<Rightarrow> uuid \<Rightarrow> bool" where
  "unfinished_id d i \<longleftrightarrow>
     (\<forall>r \<in> set (db_tasks d). t_id r = i \<longrightarrow> t_status r \<notin> {COMPLETED, FAILED, CANCELLED})"

lemma unfinished_write: "unfinished_id d i \<Longrightarrow> unfinished_id (write_task now j ready_task d) i"
  by (auto simp: unfinished_id_def in_write_task)

lemma same_id_same_task:
  "db_ok d \<Longrightarrow> r \<in> set (db_tasks d) \<Longrightarrow> t \<in> set (db_tasks d) \<Longrightarrow> t_id r = t_id t \<Longrightarrow> r = t"
  by (rule distinct_key_unique [OF db_ok_distinct])

lemma unfinished_candidate:
  assumes "db_ok d" "t \<in> set (db_tasks d)" "t_status t \<in> {PENDING, BLOCKED}"
  shows "unfinished_id d (t_id t)"
proof -
  have "t_status r \<notin> {COMPLETED, FAILED, CANCELLED}" if "r \<in> set (db_tasks d)" "t_id r = t_id t" for r
    using same_id_same_task [OF assms(1) that(1) assms(2) that(2)] assms(3) by auto
  then show ?thesis by (simp add: unfinished_id_def)
qed

text \<open>Counting finished rows, or live rows, is not affected by moving an unfinished row.\<close>

lemma count_rows_ready:
  assumes "unfinished_id d i" "\<And>r. t_status r \<notin> {COMPLETED, FAILED, CANCELLED} \<Longrightarrow> p (ready_task r\<lparr>t_modified_at := now\<rparr>) = p r"
  shows "count_rows p (db_tasks (write_task now i ready_task d)) = count_rows p (db_tasks d)"
  unfolding write_task_tasks by (rule count_rows_modify) (use assms in \<open>auto simp: unfinished_id_def\<close>)

lemma db_ok_ready_update:
  assumes "db_ok d" "\<And>t. p t \<Longrightarrow> t_status t \<in> {PENDING, BLOCKED}"
  shows "db_ok (d\<lparr>db_tasks := map (\<lambda>t. if p t then ready_task t\<lparr>t_modified_at := now\<rparr> else t) (db_tasks d)\<rparr>)"
proof -
  have "task_ok (ready_task t\<lparr>t_modified_at := now\<rparr>)" if "task_ok t" "p t" for t
    using that(1) assms(2) [OF that(2)] by (auto simp: task_ok_def)
  with assms(1) show ?thesis
    by (auto simp: db_ok_def comp_def if_distrib cong: if_cong)
qed

locale promotion =
  fixes verdict :: "db \<Rightarrow> agent_task \<Rightarrow> bool"
  assumes stable: "unfinished_id d i \<Longrightarrow> verdict (write_task now i ready_task d) t = verdict d t"
begin

fun promoting :: "int \<Rightarrow> agent_task list \<Rightarrow> db \<Rightarrow> agent_task list \<times> db" where
  "promoting now [] d = ([], d)"
| "promoting now (t # ts) d =
     (if verdict d t
      then (let (promoted, d') = promoting now ts (write_task now (t_id t) ready_task d) in (t # promoted, d'))
      else promoting now ts d)"

lemma promoting_eq:
  "\<forall>t \<in> set ts. unfinished_id d (t_id t) \<Longrightarrow>
     promoting now ts d =
       (filter (verdict d) ts, fold (\<lambda>t. write_task now (t_id t) ready_task) (filter (verdict d) ts) d)"
proof (induction ts arbitrary: d)
  case Nil
  then show ?case by simp
next
  case (Cons t ts)
  let ?d = "write_task now (t_id t) ready_task d"
  have same: "verdict ?d = verdict d" using Cons.prems stable [of d "t_id t" now] by fastforce
  have "\<forall>t' \<in> set ts. unfinished_id ?d (t_id t')" using Cons.prems by (auto intro: unfinished_write)
  with Cons.IH [of ?d] Cons.IH [of d] Cons.prems same show ?case by simp
qed

text \<open>On the rows a query returns, the loop is one simultaneous update of the table.\<close>

lemma promoting_rows:
  assumes "db_ok d" "\<And>t. candidate t \<Longrightarrow> t_status t \<in> {PENDING, BLOCKED}"
  shows "promoting now (filter candidate (db_tasks d)) d =
    (filter (\<lambda>t. candidate t \<and> verdict d t) (db_tasks d),
     d\<lparr>db_tasks := map (\<lambda>t. if candidate t \<and> verdict d t then ready_task t\<lparr>t_modified_at := now\<rparr> else t) (db_tasks d)\<rparr>)"
proof -
  let ?p = "\<lambda>t. candidate t \<and> verdict d t"
  have u: "\<forall>t \<in> set (filter candidate (db_tasks d)). unfinished_id d (t_id t)"
    using assms by (auto intro!: unfinished_candidate)
  have ids: "t_id t \<in> t_id ` set (filter ?p (db_tasks d)) \<longleftrightarrow> ?p t" if "t \<in> set (db_tasks d)" for t
    using that same_id_same_task [OF assms(1)] by auto
  have "fold (\<lambda>t. write_task now (t_id t) ready_task) (filter ?p (db_tasks d)) d =
      d\<lparr>db_tasks := map (\<lambda>t. if t_id t \<in> t_id ` set (filter ?p (db_tasks d))
                               then ready_task t\<lparr>t_modified_at := now\<rparr> else t) (db_tasks d)\<rparr>"
    by (rule fold_write_tasks [OF distinct_ids_filter [OF assms(1)]]) simp
  also have "map (\<lambda>t. if t_id t \<in> t_id ` set (filter ?p (db_tasks d))
                       then ready_task t\<lparr>t_modified_at := now\<rparr> else t) (db_tasks d) =
      map (\<lambda>t. if ?p t then ready_task t\<lparr>t_modified_at := now\<rparr> else t) (db_tasks d)"
    using ids by (intro map_cong) auto
  finally show ?thesis
    using promoting_eq [OF u] by (simp add: conj_commute)
qed

lemma promoting_ok:
  assumes "db_ok d" "\<And>t. candidate t \<Longrightarrow> t_status t \<in> {PENDING, BLOCKED}"
  shows "db_ok (snd (promoting now (filter candidate (db_tasks d)) d))"
proof -
  have "snd (promoting now (filter candidate (db_tasks d)) d) =
      d\<lparr>db_tasks := map (\<lambda>t. if candidate t \<and> verdict d t then ready_task t\<lparr>t_modified_at := now\<rparr> else t) (db_tasks d)\<rparr>"
    using promoting_rows [of d candidate now, OF assms] by simp
  then show ?thesis
    by (simp only:) (rule db_ok_ready_update [OF assms(1)], use assms(2) in blast)
qed

end

section \<open>The executor's verdict\<close>

interpretation executor_promotion: promotion deps_satisfied
proof unfold_locales
  fix d i now t
  assume "unfinished_id d i"
  then have u: "\<And>r. r \<in> set (db_tasks d) \<Longrightarrow> t_id r = i \<Longrightarrow> t_status r \<notin> {COMPLETED, FAILED, CANCELLED}"
    by (simp add: unfinished_id_def)
  show "deps_satisfied (write_task now i ready_task d) t = deps_satisfied d t"
    using verdict_stable [OF u] by (simp add: deps_satisfied_def)
qed

text \<open>
  The separate check for failed dependencies never decides: a task all of whose
  dependencies are completed has no failed one.
\<close>

lemma deps_satisfied_iff:
  assumes "db_ok d" "task_ok t"
  shows "deps_satisfied d t \<longleftrightarrow> are_dependencies_completed d t = Inr True"
proof
  assume c: "are_dependencies_completed d t = Inr True"
  obtain ids where ids: "dep_ids t = Inr ids" using dep_ids_total [OF assms(2)] by blast
  have "\<not> (t_id u \<in> set ids \<and> t_status u \<in> {FAILED, CANCELLED} \<and> live_task u)" if u: "u \<in> set (db_tasks d)" for u
  proof
    assume f: "t_id u \<in> set ids \<and> t_status u \<in> {FAILED, CANCELLED} \<and> live_task u"
    then obtain v where "v \<in> set (db_tasks d)" "t_id v = t_id u" "t_status v = COMPLETED"
      using c are_dependencies_completed_iff [OF db_ok_distinct [OF assms(1)] ids] by blast
    with f same_id_same_task [OF assms(1) _ u, of v] show False by simp
  qed
  then have "count_rows (\<lambda>u. t_id u \<in> set ids \<and> t_status u \<in> {FAILED, CANCELLED} \<and> live_task u) (db_tasks d) = 0"
    by (simp add: count_rows_0)
  then have "has_failed_dependency d t = Inr False"
    by (simp add: has_failed_dependency_def ids)
  with c show "deps_satisfied d t" by (simp add: deps_satisfied_def)
qed (simp add: deps_satisfied_def)

end
