(* ===== verification/Task_Execution.thy ===== *)
theory Task_Execution
  imports Task_Executor
begin

text \<open>
  The life of one task in \<open>ypl/agent_harness_service/task_executor.py\<close>:
  \<open>update_task_completion\<close> (the hook the session service calls when a session ends),
  \<open>execute_task\<close> and \<open>resume_task\<close>. The session service's \<open>create_session\<close> is a
  parameter: a function of the request and the database that fails with the text of its
  exception or answers with the session identifier, and the database it leaves.
\<close>

section \<open>Completion\<close>

definition completion_result :: "py_dict option \<Rightarrow> string option \<Rightarrow> json option" where
  "completion_result result error =
     (if or_empty result \<noteq> [] then Some (JObj (or_empty result))
      else (case true_string error of
              None \<Rightarrow> None
            | Some e \<Rightarrow> Some (JObj [(''error'', JStr e)])))"

definition completion_task_data :: "bool \<Rightarrow> string option \<Rightarrow> py_dict \<Rightarrow> py_dict" where
  "completion_task_data success error_subtype task_data =
     (if success then dict_pop ''error_subtype'' task_data
      else (case error_subtype of
              None \<Rightarrow> dict_pop ''error_subtype'' task_data
            | Some sub \<Rightarrow>
                if sub \<noteq> [] \<and> sub \<in> set RESUMABLE_ERROR_SUBTYPES
                then dict_set ''error_subtype'' (JStr sub) task_data
                else dict_pop ''error_subtype'' task_data))"

datatype completion_outcome = CompletionTaskNotFound | CompletionSkipped agent_task_status | CompletionDone

text \<open>The transaction of \<open>update_task_completion\<close>.\<close>

definition completion_transaction ::
  "int \<Rightarrow> uuid \<Rightarrow> bool \<Rightarrow> py_dict option \<Rightarrow> string option \<Rightarrow> string option \<Rightarrow> db \<Rightarrow>
     (task_exn + completion_outcome) \<times> db" where
  "completion_transaction now task_id success result error error_subtype d =
     (case find_task (\<lambda>_. True) task_id d of
        None \<Rightarrow> (Inr CompletionTaskNotFound, d)
      | Some task \<Rightarrow>
          if t_status task \<noteq> IN_PROGRESS then (Inr (CompletionSkipped (t_status task)), d)
          else
            (case py_dict_of (t_task_data task) of
               Inl e \<Rightarrow> (Inl (PyExn e), d)
             | Inr task_data0 \<Rightarrow>
                 (let target_status = (if success then COMPLETED else FAILED);
                      task_data = dict_or_none (completion_task_data success error_subtype task_data0);
                      d1 = write_task now task_id (\<lambda>t. t\<lparr>t_task_data := task_data\<rparr>) d
                  in case complete_task now d1 task target_status (completion_result result error) True of
                       Inl e \<Rightarrow> (Inl e, d)
                     | Inr d2 \<Rightarrow> (Inr CompletionDone, d2))))"

text \<open>\<open>(task.result or {}).get("summary") if success else None\<close>, kept only when true; a
  true result that is not an object has no \<open>get\<close> and raises.\<close>

definition result_summary :: "bool \<Rightarrow> json option \<Rightarrow> py_error + json option" where
  "result_summary success r =
     (if \<not> success then Inr None
      else (case r of
              None \<Rightarrow> Inr None
            | Some v \<Rightarrow>
                if \<not> json_true v then Inr None
                else (case v of
                        JObj kvs \<Rightarrow> Inr (true_entry (Some kvs) ''summary'')
                      | _ \<Rightarrow> Inl AttributeError)))"

definition completion_notice ::
  "gateway option \<Rightarrow> agent_task \<Rightarrow> json option \<Rightarrow> string option \<Rightarrow> bool \<Rightarrow> string option \<Rightarrow> db \<Rightarrow> posts"
where
  "completion_notice gw task summary session_id success error d =
          (let notify_project = get_project (t_project_id task) d;
               own_agent = (case t_agent_id task of None \<Rightarrow> None | Some a \<Rightarrow> get_agent_by_id a d);
               notify_agent =
                 (case own_agent of
                    Some a \<Rightarrow> Some a
                  | None \<Rightarrow>
                      (case notify_project of
                         None \<Rightarrow> None
                       | Some p \<Rightarrow>
                           (case p_default_agent_id p of
                              None \<Rightarrow> None | Some a \<Rightarrow> get_agent_by_id a d)))
           in case notify_agent of
                None \<Rightarrow> []
              | Some agent \<Rightarrow>
                  (let creator = get_creator_mention
                                   (case notify_project of None \<Rightarrow> None | Some p \<Rightarrow> p_shared_state p);
                       text = (if success
                               then TaskCompleted (t_title task) creator summary (true_string session_id)
                               else TaskFailed (t_title task) creator (true_string error)
                                      (true_string session_id))
                   in post_project_slack_update gw (t_project_id task) (a_name agent) text None d))"

definition update_task_completion ::
  "gateway option \<Rightarrow> int \<Rightarrow> (uuid \<Rightarrow> bool) \<Rightarrow> uuid \<Rightarrow> string option \<Rightarrow> bool \<Rightarrow> py_dict option \<Rightarrow>
     string option \<Rightarrow> string option \<Rightarrow> db \<Rightarrow> (task_exn + completion_outcome) \<times> posts \<times> db" where
  "update_task_completion gw now locked task_id session_id success result error error_subtype d =
     (case completion_transaction now task_id success result error error_subtype d of
        (Inr CompletionDone, d1) \<Rightarrow>
          (case find_task (\<lambda>_. True) task_id d1 of
             None \<Rightarrow> (Inr CompletionDone, [], d1)
           | Some task \<Rightarrow>
               (case result_summary success (t_result task) of
                  Inl e \<Rightarrow> (Inl (PyExn e), [], d1)
                | Inr summary \<Rightarrow>
                    (let posted = completion_notice gw task summary session_id success error d1;
                         d2 = (if success then snd (resolve_task_dependencies now locked d1) else d1)
                     in (Inr CompletionDone, posted, d2))))
      | (r, d1) \<Rightarrow> (r, [], d1))"

section \<open>Execution\<close>

record session_request =
  sr_agent_id :: string
  sr_user_id :: "string option"
  sr_context :: py_dict
  sr_message :: string
  sr_session_id :: "string option"

record exec_env =
  env_default_agent_name :: string
  env_gateway :: "gateway option"
  env_json_text :: "json \<Rightarrow> string"
  env_exn_text :: "py_error \<Rightarrow> string"
  env_create_session :: "session_request \<Rightarrow> db \<Rightarrow> (string + string) \<times> db"

text \<open>Task-specific agent, then the project's default, then the deployment's default by name;
  the error is the text of the exception raised.\<close>

definition choose_agent :: "string \<Rightarrow> agent_task \<Rightarrow> agent_project \<Rightarrow> db \<Rightarrow> string + agent" where
  "choose_agent default_name task project d =
     (case (case t_agent_id task of Some a \<Rightarrow> Some a | None \<Rightarrow> p_default_agent_id project) of
        Some agent_id \<Rightarrow>
          (case get_agent_by_id agent_id d of
             None \<Rightarrow> Inl (''Agent not found: '' @ str_uuid agent_id)
           | Some agent \<Rightarrow> Inr agent)
      | None \<Rightarrow>
          if default_name \<noteq> [] then
            (case get_agent_by_name default_name d of
               None \<Rightarrow> Inl (''PROJECT_DEFAULT_AGENT='' @ py_repr default_name
                        @ '' does not resolve to any agent (task '' @ str_uuid (t_id task)
                        @ '', project '' @ str_uuid (p_id project) @ '')'')
             | Some agent \<Rightarrow> Inr agent)
          else Inl (''No agent configured for task '' @ str_uuid (t_id task)
                 @ '' or project '' @ str_uuid (p_id project)))"

definition session_to_resume :: "agent_task \<Rightarrow> py_dict \<Rightarrow> string option" where
  "session_to_resume task task_data =
     (if dict_flag task_data ''resume_session'' \<and> or_empty (t_assigned_session_ids task) \<noteq> []
      then Some (last (or_empty (t_assigned_session_ids task))) else None)"

definition task_context :: "agent_task \<Rightarrow> agent_project \<Rightarrow> py_dict \<Rightarrow> py_dict \<Rightarrow> py_dict" where
  "task_context task project shared_state task_data =
     [(''project_id'', JStr (str_uuid (t_project_id task))),
      (''task_id'', JStr (str_uuid (t_id task))),
      (''shared_state'', JObj shared_state),
      (''task_data'', JObj task_data),
      (''slack_channel'', JStr (or_empty (p_slack_channel project))),
      (''project_name'', JStr (p_name project))]"

text \<open>Clearing the resume flags after the session exists.\<close>

definition clear_resume_flags :: "int \<Rightarrow> uuid \<Rightarrow> db \<Rightarrow> py_error + db" where
  "clear_resume_flags now task_id d =
     (case find_task (\<lambda>_. True) task_id d of
        None \<Rightarrow> Inr d
      | Some task \<Rightarrow>
          (case t_task_data task of
             None \<Rightarrow> Inr d
           | Some v \<Rightarrow>
               if \<not> json_true v then Inr d
               else (case py_dict_of (Some v) of
                       Inl e \<Rightarrow> Inl e
                     | Inr kvs \<Rightarrow>
                         Inr (write_task now task_id
                           (\<lambda>t. t\<lparr>t_task_data :=
                              dict_or_none (dict_pop ''error_subtype'' (dict_pop ''resume_session'' kvs))\<rparr>) d))))"

text \<open>The arguments of \<open>create_session\<close>: resumed sessions get a fixed message.\<close>

definition session_request_for ::
  "agent \<Rightarrow> agent_task \<Rightarrow> agent_project \<Rightarrow> py_dict \<Rightarrow> py_dict \<Rightarrow> string option \<Rightarrow> session_request" where
  "session_request_for agent task project shared_state task_data resumed =
     \<lparr>sr_agent_id = a_name agent,
      sr_user_id = p_creator_user_id project,
      sr_context = task_context task project shared_state task_data,
      sr_message = (if true_string resumed \<noteq> None then ''Please continue with the task.''
                    else (case true_string (t_description task) of Some s \<Rightarrow> s | None \<Rightarrow> t_title task)),
      sr_session_id = resumed\<rparr>"

definition state_with_thread :: "agent_project \<Rightarrow> json option \<Rightarrow> py_dict" where
  "state_with_thread project thread_ts =
     (case thread_ts of
        Some ts \<Rightarrow>
          if json_true ts
          then dict_set ''updates_thread_ts'' ts (or_empty (p_shared_state project))
          else or_empty (p_shared_state project)
      | None \<Rightarrow> or_empty (p_shared_state project))"

text \<open>
  What follows the creation of the session: its identifier is recorded unless it already is,
  the start is announced, and after a resumption the flags are cleared.
\<close>

definition record_session ::
  "exec_env \<Rightarrow> int \<Rightarrow> agent_task \<Rightarrow> agent \<Rightarrow> bool \<Rightarrow> py_dict \<Rightarrow> json option \<Rightarrow> string \<Rightarrow> db \<Rightarrow>
     (string + string) \<times> posts \<times> db" where
  "record_session env now task agent resume_session shared_state thread_ts session_id d =
     (let d1 = (if session_id \<in> set (or_empty (t_assigned_session_ids task)) then d
                else add_session_to_task now (t_id task) session_id d);
          posted = post_project_slack_update (env_gateway env) (t_project_id task) (a_name agent)
                     (TaskStarted (t_title task) (get_creator_mention (Some shared_state)) session_id)
                     thread_ts d1
      in if \<not> resume_session then (Inr session_id, posted, d1)
         else (case clear_resume_flags now (t_id task) d1 of
                 Inl e \<Rightarrow> (Inl (env_exn_text env e), posted, d1)
               | Inr d2 \<Rightarrow> (Inr session_id, posted, d2)))"

text \<open>
  The body of the \<open>try\<close> block of \<open>execute_task\<close>, from the claimed task to the recorded
  session: the text of the exception or the session identifier, the posts and the database.
\<close>

definition run_claimed_task ::
  "exec_env \<Rightarrow> int \<Rightarrow> agent_task \<Rightarrow> py_dict \<Rightarrow> db \<Rightarrow> (string + string) \<times> posts \<times> db" where
  "run_claimed_task env now task task_data0 d =
     (let resumed = session_to_resume task task_data0;
          task_data = dict_pop ''resume_session'' task_data0
      in case get_project (t_project_id task) d of
           None \<Rightarrow> (Inl (''Project not found: '' @ str_uuid (t_project_id task)), [], d)
         | Some project \<Rightarrow>
             (case choose_agent (env_default_agent_name env) task project d of
                Inl msg \<Rightarrow> (Inl msg, [], d)
              | Inr agent \<Rightarrow>
                  (let (thread_ts, posts1, d1) =
                         ensure_updates_thread (env_gateway env) (env_json_text env) now project
                           (a_name agent) d;
                       shared_state = state_with_thread project thread_ts
                   in case env_create_session env
                             (session_request_for agent task project shared_state task_data resumed) d1 of
                        (Inl msg, d2) \<Rightarrow> (Inl msg, posts1, d2)
                      | (Inr session_id, d2) \<Rightarrow>
                          (let (r, posts2, d3) = record_session env now task agent
                                 (dict_flag task_data0 ''resume_session'') shared_state thread_ts session_id d2
                           in (r, posts1 @ posts2, d3)))))"

datatype exec_outcome =
    ClaimRaised py_error
  | NotClaimed
  | TaskDataRaised py_error
  | SetupFailed string
  | SessionCreated string

definition execute_task ::
  "exec_env \<Rightarrow> int \<Rightarrow> (uuid \<Rightarrow> bool) \<Rightarrow> uuid \<Rightarrow> db \<Rightarrow> exec_outcome \<times> posts \<times> db" where
  "execute_task env now locked task_id d =
     (case claim_task now locked task_id d of
        (Inl e, d0) \<Rightarrow> (ClaimRaised e, [], d0)
      | (Inr None, d0) \<Rightarrow> (NotClaimed, [], d0)
      | (Inr (Some task), d0) \<Rightarrow>
          (case py_dict_of (t_task_data task) of
             Inl e \<Rightarrow> (TaskDataRaised e, [], d0)
           | Inr task_data0 \<Rightarrow>
               (case run_claimed_task env now task task_data0 d0 of
                  (Inr session_id, posted, d1) \<Rightarrow> (SessionCreated session_id, posted, d1)
                | (Inl error_msg, posted, d1) \<Rightarrow>
                    (let (r, posted', d2) =
                           update_task_completion (env_gateway env) now locked (t_id task) None False None
                             (Some error_msg) None d1
                     in (SetupFailed error_msg, posted @ posted', d2)))))"

section \<open>Resumption\<close>

datatype resume_outcome =
    ResumeNotFound
  | ResumeInvalidStatus agent_task_status
  | ResumeNotResumable "json option"
  | ResumeNoSession
  | ResumeQueued string string

text \<open>\<open>error_subtype not in RESUMABLE_ERROR_SUBTYPES\<close>: a list or an object has no hash
  and raises.\<close>

definition resumable_subtype :: "json option \<Rightarrow> py_error + string option" where
  "resumable_subtype v =
     (case v of
        Some (JStr s) \<Rightarrow> Inr (if s \<in> set RESUMABLE_ERROR_SUBTYPES then Some s else None)
      | Some (JList _) \<Rightarrow> Inl TypeError
      | Some (JObj _) \<Rightarrow> Inl TypeError
      | _ \<Rightarrow> Inr None)"

definition resume_task :: "int \<Rightarrow> uuid \<Rightarrow> db \<Rightarrow> (py_error + resume_outcome) \<times> db" where
  "resume_task now task_id d =
     (case find_task live_task task_id d of
        None \<Rightarrow> (Inr ResumeNotFound, d)
      | Some task \<Rightarrow>
          if t_status task \<noteq> FAILED then (Inr (ResumeInvalidStatus (t_status task)), d)
          else
            (case py_dict_of (t_task_data task) of
               Inl e \<Rightarrow> (Inl e, d)
             | Inr task_data \<Rightarrow>
                 (case resumable_subtype (dict_get task_data ''error_subtype'') of
                    Inl e \<Rightarrow> (Inl e, d)
                  | Inr None \<Rightarrow> (Inr (ResumeNotResumable (dict_get task_data ''error_subtype'')), d)
                  | Inr (Some sub) \<Rightarrow>
                      if or_empty (t_assigned_session_ids task) = [] then (Inr ResumeNoSession, d)
                      else
                        (Inr (ResumeQueued (last (or_empty (t_assigned_session_ids task))) sub),
                         write_task now task_id
                           (\<lambda>t. t\<lparr>t_status := READY, t_completed_at := None,
                                  t_task_data := Some (JObj (dict_set ''resume_session'' (JBool True) task_data))\<rparr>)
                           d))))"

section \<open>What the operations keep\<close>

lemma completion_transaction_cases:
  obtains (missing) "find_task (\<lambda>_. True) i d = None"
      "completion_transaction now i ok res err sub d = (Inr CompletionTaskNotFound, d)"
  | (skipped) task where "find_task (\<lambda>_. True) i d = Some task" "t_status task \<noteq> IN_PROGRESS"
      "completion_transaction now i ok res err sub d = (Inr (CompletionSkipped (t_status task)), d)"
  | (raised) e where "completion_transaction now i ok res err sub d = (Inl e, d)"
  | (recorded) task kvs d' where "find_task (\<lambda>_. True) i d = Some task" "t_status task = IN_PROGRESS"
      "py_dict_of (t_task_data task) = Inr kvs"
      "complete_task now
         (write_task now i (\<lambda>t. t\<lparr>t_task_data := dict_or_none (completion_task_data ok sub kvs)\<rparr>) d)
         task (if ok then COMPLETED else FAILED) (completion_result res err) True = Inr d'"
      "completion_transaction now i ok res err sub d = (Inr CompletionDone, d')"
proof (cases "find_task (\<lambda>_. True) i d")
  case None
  then show ?thesis by (intro that(1)) (simp_all add: completion_transaction_def)
next
  case f: (Some task)
  show ?thesis
  proof (cases "t_status task = IN_PROGRESS")
    case False
    with f show ?thesis by (intro that(2)) (simp_all add: completion_transaction_def)
  next
    case p: True
    show ?thesis
    proof (cases "py_dict_of (t_task_data task)")
      case (Inl e)
      with f p show ?thesis by (intro that(3)) (simp add: completion_transaction_def)
    next
      case k: (Inr kvs)
      show ?thesis
      proof (cases "complete_task now
          (write_task now i (\<lambda>t. t\<lparr>t_task_data := dict_or_none (completion_task_data ok sub kvs)\<rparr>) d)
          task (if ok then COMPLETED else FAILED) (completion_result res err) True")
        case (Inl e)
        with f p k show ?thesis by (intro that(3)) (simp add: completion_transaction_def Let_def)
      next
        case (Inr d')
        with f p k show ?thesis by (intro that(4)) (simp_all add: completion_transaction_def Let_def)
      qed
    qed
  qed
qed

lemma write_task_data_ok: "db_ok d \<Longrightarrow> db_ok (write_task now i (\<lambda>t. t\<lparr>t_task_data := td\<rparr>) d)"
  by (rule db_ok_write_task) (auto simp: task_ok_def)

lemma completion_transaction_ok:
  assumes "db_ok d" shows "db_ok (snd (completion_transaction now i ok res err sub d))"
  by (cases rule: completion_transaction_cases [of i d now ok res err sub])
     (use assms in \<open>auto intro: complete_task_ok [OF write_task_data_ok]\<close>)

lemma update_completion_ok:
  assumes "db_ok d" "update_task_completion gw now locked i s ok res err sub d = (r, ps, d')"
  shows "db_ok d'"
proof -
  obtain r1 d1 where t: "completion_transaction now i ok res err sub d = (r1, d1)"
    by (rule prod.exhaust)
  have "db_ok d1" using completion_transaction_ok [OF assms(1), of now i ok res err sub] t by simp
  with assms(2) t show ?thesis
    by (auto simp: update_task_completion_def Let_def intro: resolve_ok
        split: sum.splits completion_outcome.splits option.splits if_splits)
qed

lemma clear_resume_flags_ok:
  assumes "db_ok d" "clear_resume_flags now i d = Inr d'" shows "db_ok d'"
  using assms(2) assms(1) write_task_data_ok [OF assms(1)]
  by (auto simp: clear_resume_flags_def split: option.splits if_splits sum.splits)

text \<open>
  The session service writes sessions and messages, never tasks.
\<close>

definition session_service_ok :: "exec_env \<Rightarrow> bool" where
  "session_service_ok env \<longleftrightarrow>
     (\<forall>req d. db_tasks (snd (env_create_session env req d)) = db_tasks d)"

lemma create_session_ok:
  assumes "session_service_ok env" "env_create_session env req d = (r, d')"
  shows "db_ok d' = db_ok d"
proof -
  have "db_tasks (snd (env_create_session env req d)) = db_tasks d"
    using assms(1) by (simp add: session_service_ok_def)
  then have "db_tasks d' = db_tasks d" using assms(2) by simp
  then show ?thesis by (simp add: db_ok_def)
qed

lemma record_session_ok:
  assumes "db_ok d" "record_session env now task agent b state ts sid d = (r, ps, d')" shows "db_ok d'"
  using assms
  by (auto simp: record_session_def Let_def intro: add_session_ok clear_resume_flags_ok
      split: if_splits sum.splits)

text \<open>The three ways a claimed task goes: no project or agent, no session, or a session.\<close>

lemma run_claimed_cases:
  assumes "run_claimed_task env now task kvs d = (r, ps, d')"
  obtains (early) msg where "r = Inl msg" "d' = d"
  | (refused) project ts ps1 d1 req msg and agent :: agent where
      "ensure_updates_thread (env_gateway env) (env_json_text env) now project (a_name agent) d = (ts, ps1, d1)"
      "env_create_session env req d1 = (Inl msg, d')" "r = Inl msg"
  | (created) project ts ps1 d1 req sid d2 ps2 and agent :: agent where
      "ensure_updates_thread (env_gateway env) (env_json_text env) now project (a_name agent) d = (ts, ps1, d1)"
      "env_create_session env req d1 = (Inr sid, d2)"
      "record_session env now task agent (dict_flag kvs ''resume_session'') (state_with_thread project ts) ts sid d2 =
         (r, ps2, d')"
proof (cases "get_project (t_project_id task) d")
  case None
  with assms show ?thesis by (intro that(1)) (auto simp: run_claimed_task_def Let_def)
next
  case p: (Some project)
  show ?thesis
  proof (cases "choose_agent (env_default_agent_name env) task project d")
    case (Inl msg)
    with assms p show ?thesis by (intro that(1)) (auto simp: run_claimed_task_def Let_def)
  next
    case a: (Inr agent)
    let ?req = "\<lambda>ts. session_request_for agent task project (state_with_thread project ts)
      (dict_pop ''resume_session'' kvs) (session_to_resume task kvs)"
    obtain ts ps1 d1 where u:
      "ensure_updates_thread (env_gateway env) (env_json_text env) now project (a_name agent) d = (ts, ps1, d1)"
      by (metis prod_cases3)
    obtain res d2 where c: "env_create_session env (?req ts) d1 = (res, d2)" by (rule prod.exhaust)
    show ?thesis
    proof (cases res)
      case (Inl msg)
      with assms p a u c show ?thesis
        by (intro that(2) [OF u, of "?req ts" msg]) (auto simp: run_claimed_task_def Let_def)
    next
      case (Inr sid)
      obtain r' ps2 d3 where s: "record_session env now task agent (dict_flag kvs ''resume_session'')
          (state_with_thread project ts) ts sid d2 = (r', ps2, d3)" by (metis prod_cases3)
      with assms p a u c Inr show ?thesis
        by (intro that(3) [OF u, of "?req ts" sid d2 ps2]) (auto simp: run_claimed_task_def Let_def)
    qed
  qed
qed

lemma run_claimed_ok:
  assumes "session_service_ok env" "db_ok d" "run_claimed_task env now task kvs d = (r, ps, d')"
  shows "db_ok d'"
  using assms(3)
proof (cases rule: run_claimed_cases)
  case early
  with assms(2) show ?thesis by simp
next
  case (refused project ts ps1 d1 req msg agent)
  then show ?thesis
    using ensure_updates_thread_ok [OF refused(1)] create_session_ok [OF assms(1) refused(2)] assms(2) by simp
next
  case (created project ts ps1 d1 req sid d2 ps2 agent)
  then show ?thesis
    using ensure_updates_thread_ok [OF created(1)] create_session_ok [OF assms(1) created(2)] assms(2)
      record_session_ok [OF _ created(3)] by simp
qed

lemma execute_ok:
  assumes "session_service_ok env" "db_ok d" "execute_task env now locked i d = (r, ps, d')"
  shows "db_ok d'"
proof -
  obtain c d0 where c: "claim_task now locked i d = (c, d0)" by (rule prod.exhaust)
  then have ok0: "db_ok d0" using claim_task_ok [OF assms(2), of now locked i] by simp
  show ?thesis
  proof (cases "\<exists>task kvs. c = Inr (Some task) \<and> py_dict_of (t_task_data task) = Inr kvs")
    case True
    then obtain task kvs where k: "c = Inr (Some task)" "py_dict_of (t_task_data task) = Inr kvs" by blast
    obtain r1 ps1 d1 where r1: "run_claimed_task env now task kvs d0 = (r1, ps1, d1)"
      by (metis prod_cases3)
    then have "db_ok d1" using run_claimed_ok assms(1) ok0 by blast
    with assms(3) c k r1 show ?thesis
      by (auto simp: execute_task_def intro: update_completion_ok split: sum.splits prod.splits)
  next
    case False
    with assms(3) c ok0 show ?thesis
      by (auto simp: execute_task_def split: sum.splits option.splits)
  qed
qed

lemma resume_task_cases:
  obtains (unchanged) "snd (resume_task now i d) = d" "\<forall>s sub. fst (resume_task now i d) \<noteq> Inr (ResumeQueued s sub)"
  | (queued) task kvs sub where "find_task live_task i d = Some task" "t_status task = FAILED"
      "py_dict_of (t_task_data task) = Inr kvs" "dict_get kvs ''error_subtype'' = Some (JStr sub)"
      "sub \<in> set RESUMABLE_ERROR_SUBTYPES" "or_empty (t_assigned_session_ids task) \<noteq> []"
      "resume_task now i d =
        (Inr (ResumeQueued (last (or_empty (t_assigned_session_ids task))) sub),
         write_task now i
           (\<lambda>t. t\<lparr>t_status := READY, t_completed_at := None,
                  t_task_data := Some (JObj (dict_set ''resume_session'' (JBool True) kvs))\<rparr>) d)"
proof (cases "find_task live_task i d")
  case None
  then show ?thesis by (intro that(1)) (simp_all add: resume_task_def)
next
  case f: (Some task)
  show ?thesis
  proof (cases "t_status task = FAILED \<and> (\<exists>kvs sub. py_dict_of (t_task_data task) = Inr kvs \<and>
      resumable_subtype (dict_get kvs ''error_subtype'') = Inr (Some sub)) \<and>
      or_empty (t_assigned_session_ids task) \<noteq> []")
    case True
    then obtain kvs sub where k: "t_status task = FAILED" "py_dict_of (t_task_data task) = Inr kvs"
      "resumable_subtype (dict_get kvs ''error_subtype'') = Inr (Some sub)"
      "or_empty (t_assigned_session_ids task) \<noteq> []" by blast
    from k(3) have s: "dict_get kvs ''error_subtype'' = Some (JStr sub)" "sub \<in> set RESUMABLE_ERROR_SUBTYPES"
      by (auto simp: resumable_subtype_def split: option.splits json.splits if_splits)
    show ?thesis
      by (rule that(2) [OF f k(1,2) s k(4)]) (use f k in \<open>simp add: resume_task_def\<close>)
  next
    case False
    with f show ?thesis
      by (intro that(1)) (auto simp: resume_task_def split: sum.splits option.splits)
  qed
qed

lemma resume_ok:
  assumes "db_ok d" shows "db_ok (snd (resume_task now i d))"
  by (cases rule: resume_task_cases [of now i d])
     (use assms in \<open>auto simp: task_ok_def intro!: db_ok_write_task\<close>)

interpretation completion_db: db_operation
  "\<lambda>(gw, now, locked, i, s, ok, res, err, sub) d.
     (\<lambda>(r, ps, d'). ((r, ps), d')) (update_task_completion gw now locked i s ok res err sub d)"
  by unfold_locales (auto split: prod.splits intro: update_completion_ok)

interpretation resume_db: atomic_operation "\<lambda>(now, i). resume_task now i"
proof unfold_locales
  fix i and d :: db
  show "db_ok d \<Longrightarrow> db_ok (snd ((\<lambda>(now, i). resume_task now i) i d))"
    by (cases i) (simp add: resume_ok)
next
  fix i and d :: db and e
  show "fst ((\<lambda>(now, i). resume_task now i) i d) = Inl e \<Longrightarrow> snd ((\<lambda>(now, i). resume_task now i) i d) = d"
    by (cases i) (auto simp: resume_task_def split: option.splits sum.splits if_splits)
qed

end
