(* ===== verification/Project_Helpers.thy ===== *)
theory Project_Helpers
  imports Promotion Task_Execution
begin

text \<open>
  What the project tools share, from \<open>ypl/mcp_server/tools/project_tasks.py\<close> (helpers) and
  \<open>ypl/mcp_common/auth_context.py\<close>: the caller and the ownership check, agent names, the
  status summary, the promotion of dependents, the rendering of rows, and the insertion of new
  rows. A tool is a function of its arguments and the database; it answers with an error or a
  result, and leaves a database. JSON arguments are given by what \<open>json.loads\<close> returns.
\<close>

section \<open>The request\<close>

text \<open>
  \<open>cx_caller\<close> and \<open>cx_principal\<close> are the identities of the request context,
  \<open>cx_has_permission\<close> the lookup of \<open>MANAGE_AGENT_PROJECTS\<close> (another service),
  \<open>cx_isoformat\<close> the rendering of a time stamp, \<open>cx_now\<close> the database clock.
\<close>

record tool_ctx =
  cx_caller :: "string option"
  cx_principal :: "string option"
  cx_has_permission :: "string \<Rightarrow> bool"
  cx_isoformat :: "int \<Rightarrow> string"
  cx_now :: int

datatype tool_error =
    NotAuthenticated
  | NotAuthorized
  | InvalidId string string
  | InvalidJson string
  | NotNonEmptyArray
  | NotArray
  | NotObject
  | ProjectNotFound string
  | ProjectNotFoundForTask string
  | TaskNotFound string
  | ParentTaskNotFound string
  | ParentInOtherProject
  | TitleMissing nat
  | NameMissing nat
  | DuplicateTaskName string
  | AgentNotFound string
  | InvalidPriority string
  | InvalidStatus string
  | DependencyCycleInBatch
  | ExternalDependenciesNotFound "uuid list"
  | UnknownDependency string string
  | StatusRefused status_error
  | DependencyNotString json
  | InvalidDependency string
  | SelfDependency
  | DependenciesNotFound "string list"
  | CycleCreated
  | NegativeBudget
  | TaskNotReady string string
  | NoReadyTasks
  | NothingToLookUp
  | NoneFoundNamed string
  | Raised py_error
  | RaisedStatus status_error
  | ResumeRefused resume_outcome

lemma transact_ok:
  "db_ok d \<Longrightarrow> (\<And>r d'. body = Inr (r, d') \<Longrightarrow> db_ok d') \<Longrightarrow> db_ok (snd (transact d body))"
  by (auto simp: transact_def split: sum.splits)

text \<open>An exception of the standard library, or of the status checks, seen by the caller.\<close>

definition raising :: "py_error + 'a \<Rightarrow> tool_error + 'a" where
  "raising m = (case m of Inl e \<Rightarrow> Inl (Raised e) | Inr x \<Rightarrow> Inr x)"

lemma raising_Inr [simp]: "raising m = Inr x \<longleftrightarrow> m = Inr x"
  by (cases m) (simp_all add: raising_def)

lemma raising_simps [simp]: "raising (Inr x) = Inr x" "raising (Inl e) = Inl (Raised e)"
  by (simp_all add: raising_def)

definition raising_status :: "task_exn + 'a \<Rightarrow> tool_error + 'a" where
  "raising_status m =
     (case m of Inl (PyExn e) \<Rightarrow> Inl (Raised e) | Inl (StatusExn e) \<Rightarrow> Inl (RaisedStatus e) | Inr x \<Rightarrow> Inr x)"

lemma raising_status_Inr [simp]: "raising_status m = Inr x \<longleftrightarrow> m = Inr x"
  by (auto simp: raising_status_def split: sum.splits task_exn.splits)

text \<open>A JSON argument after \<open>json.loads\<close>.\<close>

datatype json_arg = Absent | Malformed | Parsed json

definition require_caller_user_id :: "tool_ctx \<Rightarrow> tool_error + string" where
  "require_caller_user_id cx =
     (case cx_caller cx of None \<Rightarrow> Inl NotAuthenticated | Some u \<Rightarrow> Inr u)"

definition require_principal_user_id :: "tool_ctx \<Rightarrow> tool_error + string" where
  "require_principal_user_id cx =
     (case cx_principal cx of Some u \<Rightarrow> if u = [] then require_caller_user_id cx else Inr u
                         | None \<Rightarrow> require_caller_user_id cx)"

definition resolve_caller_for_project_auth :: "tool_ctx \<Rightarrow> tool_error + string \<times> bool" where
  "resolve_caller_for_project_auth cx =
     (case require_caller_user_id cx of
        Inl e \<Rightarrow> Inl e
      | Inr caller_user_id \<Rightarrow>
          (case require_principal_user_id cx of
             Inl e \<Rightarrow> Inl e
           | Inr principal_user_id \<Rightarrow>
               (let is_admin = cx_has_permission cx caller_user_id
                in Inr (caller_user_id,
                        if \<not> is_admin \<and> principal_user_id \<noteq> caller_user_id
                        then cx_has_permission cx principal_user_id else is_admin))))"

text \<open>\<open>str(project.creator_user_id)\<close> is the text \<open>None\<close> when no creator is recorded.\<close>

definition check_project_ownership :: "agent_project \<Rightarrow> string \<Rightarrow> bool \<Rightarrow> tool_error option" where
  "check_project_ownership project caller_user_id is_project_admin =
     (if (case p_creator_user_id project of None \<Rightarrow> ''None'' | Some c \<Rightarrow> c) = caller_user_id then None
      else if is_project_admin then None
      else Some NotAuthorized)"

definition load_project_for_task :: "agent_task \<Rightarrow> db \<Rightarrow> agent_project option" where
  "load_project_for_task task d = find_project live_project (t_project_id task) d"

text \<open>The ownership check of the tools that change one task.\<close>

definition check_task_ownership ::
  "string \<Rightarrow> agent_task \<Rightarrow> string \<Rightarrow> bool \<Rightarrow> db \<Rightarrow> tool_error option" where
  "check_task_ownership task_id task caller_user_id is_admin d =
     (if is_admin then None
      else (case load_project_for_task task d of
              None \<Rightarrow> Some (ProjectNotFoundForTask task_id)
            | Some project \<Rightarrow> check_project_ownership project caller_user_id False))"

section \<open>Agents\<close>

definition resolve_agent_id_by_name :: "string \<Rightarrow> db \<Rightarrow> uuid option" where
  "resolve_agent_id_by_name agent_name d =
     (case get_row (\<lambda>a. a_name a = agent_name \<and> a_deleted_at a = None) (db_agents d) of
        None \<Rightarrow> None | Some a \<Rightarrow> Some (a_id a))"

definition resolve_agent_name_by_id :: "uuid \<Rightarrow> db \<Rightarrow> string option" where
  "resolve_agent_name_by_id agent_id d =
     (case get_row (\<lambda>a. a_id a = agent_id \<and> a_deleted_at a = None) (db_agents d) of
        None \<Rightarrow> None | Some a \<Rightarrow> Some (a_name a))"

definition batch_resolve_agent_names :: "uuid list \<Rightarrow> db \<Rightarrow> (uuid \<times> string) list" where
  "batch_resolve_agent_names agent_ids d =
     (if agent_ids = [] then []
      else map (\<lambda>a. (a_id a, a_name a))
             (filter (\<lambda>a. a_id a \<in> set agent_ids \<and> a_deleted_at a = None) (db_agents d)))"

text \<open>The name an outer join with the agents gives, deleted agents included.\<close>

definition joined_agent_name :: "agent_task \<Rightarrow> db \<Rightarrow> string option" where
  "joined_agent_name task d =
     (case t_agent_id task of
        None \<Rightarrow> None
      | Some i \<Rightarrow> (case get_row (\<lambda>a. a_id a = i) (db_agents d) of
                      None \<Rightarrow> None | Some a \<Rightarrow> Some (a_name a)))"

definition task_agent_name :: "agent_task \<Rightarrow> db \<Rightarrow> string option" where
  "task_agent_name task d =
     (case t_agent_id task of None \<Rightarrow> None | Some i \<Rightarrow> resolve_agent_name_by_id i d)"

section \<open>Status summary\<close>

text \<open>The rows of the \<open>GROUP BY status\<close> query: only statuses that occur.\<close>

definition status_groups :: "uuid \<Rightarrow> db \<Rightarrow> (agent_task_status \<times> nat) list" where
  "status_groups project_id d =
     filter (\<lambda>(s, n). 0 < n)
       (map (\<lambda>s. (s, count_rows (\<lambda>t. t_project_id t = project_id \<and> t_status t = s \<and> live_task t) (db_tasks d)))
          all_task_statuses)"

definition get_task_status_summary :: "uuid \<Rightarrow> db \<Rightarrow> py_dict" where
  "get_task_status_summary project_id d =
     (let groups = status_groups project_id d;
          zeros = map (\<lambda>s. (task_status_value s, JNum 0)) all_task_statuses;
          (summary, total) = fold (\<lambda>(s, n) (summary, total).
             (dict_set (task_status_value s) (JNum (of_nat n)) summary, total + n)) groups (zeros, 0)
      in dict_set ''total'' (JNum (of_nat total)) summary)"

section \<open>Promotion of dependents\<close>

text \<open>All dependency rows exist, and all are completed.\<close>

definition dep_rows_completed :: "uuid list \<Rightarrow> db \<Rightarrow> bool" where
  "dep_rows_completed ids d =
     (let dep_rows = filter (\<lambda>t. t_id t \<in> set ids \<and> live_task t) (db_tasks d)
      in length dep_rows = length ids \<and> list_all (\<lambda>t. t_status t = COMPLETED) dep_rows)"

fun promote_loop ::
  "int \<Rightarrow> string \<Rightarrow> agent_task list \<Rightarrow> string list \<Rightarrow> db \<Rightarrow> py_error + string list \<times> db" where
  "promote_loop now task_id_str [] newly_ready d = Inr (newly_ready, d)"
| "promote_loop now task_id_str (task # tasks) newly_ready d =
     (if deps_of task = [] \<or> task_id_str \<notin> set (deps_of task)
      then promote_loop now task_id_str tasks newly_ready d
      else (case dep_ids task of
              Inl e \<Rightarrow> Inl e
            | Inr ids \<Rightarrow>
                if dep_rows_completed ids d
                then promote_loop now task_id_str tasks (newly_ready @ [str_uuid (t_id task)])
                       (write_task now (t_id task) (\<lambda>t. t\<lparr>t_status := READY\<rparr>) d)
                else promote_loop now task_id_str tasks newly_ready d))"

definition promote_dependents_to_ready ::
  "int \<Rightarrow> uuid \<Rightarrow> uuid \<Rightarrow> db \<Rightarrow> py_error + string list \<times> db" where
  "promote_dependents_to_ready now completed_task_id project_id d =
     (let candidates = filter (\<lambda>t. t_project_id t = project_id \<and> t_status t \<in> {BLOCKED, PENDING} \<and>
                                 live_task t \<and> t_depends_on t \<noteq> None) (db_tasks d)
      in promote_loop now (str_uuid completed_task_id) candidates [] d)"

section \<open>Rendering\<close>

definition json_of_option :: "('a \<Rightarrow> json) \<Rightarrow> 'a option \<Rightarrow> json" where
  "json_of_option f x = (case x of None \<Rightarrow> JNull | Some v \<Rightarrow> f v)"

fun task_priority_name :: "agent_task_priority \<Rightarrow> string" where
  "task_priority_name URGENT = ''URGENT''"
| "task_priority_name HIGH = ''HIGH''"
| "task_priority_name NORMAL = ''NORMAL''"
| "task_priority_name LOW = ''LOW''"

fun project_status_value :: "agent_project_status \<Rightarrow> string" where
  "project_status_value PROJECT_ACTIVE = ''ACTIVE''"
| "project_status_value PROJECT_PAUSED = ''PAUSED''"
| "project_status_value PROJECT_COMPLETED = ''COMPLETED''"
| "project_status_value PROJECT_ARCHIVED = ''ARCHIVED''"

definition format_task_row :: "(int \<Rightarrow> string) \<Rightarrow> agent_task \<Rightarrow> string option \<Rightarrow> py_dict" where
  "format_task_row isoformat task agent_name =
     [(''agent_task_id'', JStr (str_uuid (t_id task))),
      (''agent_project_id'', JStr (str_uuid (t_project_id task))),
      (''title'', JStr (t_title task)),
      (''description'', json_of_option JStr (t_description task)),
      (''status'', JStr (task_status_value (t_status task))),
      (''priority'', JStr (task_priority_name (t_priority task))),
      (''parent_task_id'', json_of_option (\<lambda>u. JStr (str_uuid u)) (t_parent_task_id task)),
      (''depends_on'', json_of_option (\<lambda>ds. JList (map JStr ds)) (t_depends_on task)),
      (''agent_name'', json_of_option JStr agent_name),
      (''result'', json_of_option id (t_result task)),
      (''task_data'', json_of_option id (t_task_data task)),
      (''estimated_effort'', json_of_option JStr (t_estimated_effort task)),
      (''completed_at'', json_of_option (\<lambda>i. JStr (isoformat i)) (t_completed_at task)),
      (''created_at'', JStr (isoformat (t_created_at task)))]"

definition format_project :: "(int \<Rightarrow> string) \<Rightarrow> agent_project \<Rightarrow> string option \<Rightarrow> py_dict" where
  "format_project isoformat project default_agent_name =
     [(''agent_project_id'', JStr (str_uuid (p_id project))),
      (''name'', JStr (p_name project)),
      (''description'', json_of_option JStr (p_description project)),
      (''status'', JStr (project_status_value (p_status project))),
      (''slack_channel'', json_of_option JStr (p_slack_channel project)),
      (''default_agent_id'', json_of_option (\<lambda>u. JStr (str_uuid u)) (p_default_agent_id project)),
      (''default_agent_name'', json_of_option JStr default_agent_name),
      (''created_at'', JStr (isoformat (p_created_at project)))]"

definition parse_priority :: "string \<Rightarrow> tool_error + agent_task_priority" where
  "parse_priority v =
     (case task_priority_of v of None \<Rightarrow> Inl (InvalidPriority v) | Some p \<Rightarrow> Inr p)"

section \<open>Rows and columns\<close>

text \<open>A JSON column given Python's \<open>None\<close> reads back as \<open>None\<close>.\<close>

definition json_column :: "json \<Rightarrow> json option" where
  "json_column v = (if v = JNull then None else Some v)"

definition insert_task :: "agent_task \<Rightarrow> db \<Rightarrow> db" where
  "insert_task t d = d\<lparr>db_tasks := db_tasks d @ [t]\<rparr>"

definition insert_project :: "agent_project \<Rightarrow> db \<Rightarrow> db" where
  "insert_project p d = d\<lparr>db_projects := db_projects d @ [p]\<rparr>"

text \<open>The columns a constructor call leaves out take the defaults of the class.\<close>

definition new_task :: "int \<Rightarrow> uuid \<Rightarrow> uuid \<Rightarrow> agent_task" where
  "new_task now i project_id =
     \<lparr>t_id = i, t_project_id = project_id, t_parent_task_id = None, t_title = [],
      t_description = None, t_status = PENDING, t_priority = NORMAL, t_agent_id = None,
      t_assigned_session_ids = None, t_result = None, t_task_data = None,
      t_estimated_effort = None, t_actual_spending_usd = None, t_completed_at = None,
      t_depends_on = None, t_created_at = now, t_modified_at = now, t_deleted_at = None\<rparr>"

definition new_project :: "int \<Rightarrow> uuid \<Rightarrow> agent_project" where
  "new_project now i =
     \<lparr>p_id = i, p_name = [], p_description = None, p_status = PROJECT_PAUSED,
      p_creator_user_id = None, p_default_agent_id = None, p_project_data = None,
      p_shared_state = None, p_budget_usd = None, p_budget_spent_usd = 0,
      p_slack_channel = None, p_created_at = now, p_modified_at = now, p_deleted_at = None\<rparr>"

text \<open>\<open>uuid.UUID(s)\<close> in a \<open>try\<close> that reports which argument is wrong.\<close>

definition parse_id :: "string \<Rightarrow> string \<Rightarrow> tool_error + uuid" where
  "parse_id what s = (case parse_uuid s of Inl e \<Rightarrow> Inl (InvalidId what s) | Inr u \<Rightarrow> Inr u)"

section \<open>The row check\<close>

text \<open>The row check of the tools and the count of the executor agree.\<close>

lemma dep_rows_completed_counts:
  "dep_rows_completed ids d \<longleftrightarrow>
     count_rows (\<lambda>t. t_id t \<in> set ids \<and> live_task t) (db_tasks d) = length ids \<and>
     count_rows (\<lambda>t. t_id t \<in> set ids \<and> live_task t \<and> t_status t \<noteq> COMPLETED) (db_tasks d) = 0"
  by (auto simp: dep_rows_completed_def Let_def list_all_iff count_rows_0 count_rows_def [of _ "db_tasks d"]
      filter_empty_conv)

lemma dep_rows_completed_iff:
  assumes "distinct (map t_id (db_tasks d))"
  shows "dep_rows_completed ids d \<longleftrightarrow>
    distinct ids \<and> (\<forall>i \<in> set ids. \<exists>u \<in> set (db_tasks d). t_id u = i \<and> t_status u = COMPLETED \<and> live_task u)"
proof -
  have u: "t_status t = COMPLETED"
    if "t \<in> set (db_tasks d)" "t_id t = t_id u" "u \<in> set (db_tasks d)" "t_status u = COMPLETED" for t u
    using distinct_key_unique [OF assms that(1,3,2)] that(4) by simp
  show ?thesis
    unfolding dep_rows_completed_counts count_rows_keys_full [OF assms, of ids live_task] count_rows_0
    by (metis u)
qed

lemma dep_rows_completed_eq:
  assumes "db_ok d" "task_ok t" "deps_of t \<noteq> []" "dep_ids t = Inr ids"
  shows "dep_rows_completed ids d \<longleftrightarrow> are_dependencies_completed d t = Inr True"
  using dep_rows_completed_iff [OF db_ok_distinct [OF assms(1)], of ids]
    are_dependencies_completed_iff [OF db_ok_distinct [OF assms(1)] assms(4)] by simp

lemma dep_rows_completed_stable:
  assumes "unfinished_id d i"
  shows "dep_rows_completed ids (write_task now i ready_task d) = dep_rows_completed ids d"
proof -
  have c: "count_rows (\<lambda>t. t_id t \<in> set ids \<and> live_task t) (db_tasks (write_task now i ready_task d)) =
      count_rows (\<lambda>t. t_id t \<in> set ids \<and> live_task t) (db_tasks d)"
    by (rule count_rows_ready [OF assms]) simp
  have n: "count_rows (\<lambda>t. t_id t \<in> set ids \<and> live_task t \<and> t_status t \<noteq> COMPLETED)
      (db_tasks (write_task now i ready_task d)) =
    count_rows (\<lambda>t. t_id t \<in> set ids \<and> live_task t \<and> t_status t \<noteq> COMPLETED) (db_tasks d)"
    by (rule count_rows_ready [OF assms]) auto
  show ?thesis unfolding dep_rows_completed_counts c n by (rule refl)
qed

definition depends_and_completed :: "string \<Rightarrow> db \<Rightarrow> agent_task \<Rightarrow> bool" where
  "depends_and_completed key d t \<longleftrightarrow>
     key \<in> set (deps_of t) \<and>
     (case dep_ids t of Inl e \<Rightarrow> False | Inr ids \<Rightarrow> dep_rows_completed ids d)"

interpretation dependents: promotion "depends_and_completed key" for key
  by unfold_locales (auto simp: depends_and_completed_def dep_rows_completed_stable split: sum.splits)

lemma promote_loop_eq:
  "\<forall>t \<in> set ts. \<exists>ids. dep_ids t = Inr ids \<Longrightarrow>
     promote_loop now key ts acc d =
       (let (promoted, d') = dependents.promoting key now ts d
        in Inr (acc @ map (\<lambda>t. str_uuid (t_id t)) promoted, d'))"
proof (induction ts arbitrary: acc d)
  case Nil
  then show ?case by simp
next
  case (Cons t ts)
  then obtain ids where i: "dep_ids t = Inr ids" by auto
  show ?case
  proof (cases "depends_and_completed key d t")
    case True
    with i have "deps_of t \<noteq> []" "key \<in> set (deps_of t)" "dep_rows_completed ids d"
      by (auto simp: depends_and_completed_def)
    with i True Cons show ?thesis by (simp add: split_def Let_def)
  next
    case False
    with i have n: "key \<notin> set (deps_of t) \<or> \<not> dep_rows_completed ids d"
      by (simp add: depends_and_completed_def)
    with i have "promote_loop now key (t # ts) acc d = promote_loop now key ts acc d" by auto
    with False Cons show ?thesis by simp
  qed
qed

text \<open>The candidates of the promotion query.\<close>

definition dependent_candidate :: "uuid \<Rightarrow> agent_task \<Rightarrow> bool" where
  "dependent_candidate project_id t \<longleftrightarrow>
     t_project_id t = project_id \<and> t_status t \<in> {BLOCKED, PENDING} \<and> live_task t \<and> t_depends_on t \<noteq> None"

lemma promote_dependents_eq:
  assumes "db_ok d"
  shows "promote_dependents_to_ready now i p d =
    Inr (map (\<lambda>t. str_uuid (t_id t))
           (filter (\<lambda>t. dependent_candidate p t \<and> depends_and_completed (str_uuid i) d t) (db_tasks d)),
         d\<lparr>db_tasks := map (\<lambda>t. if dependent_candidate p t \<and> depends_and_completed (str_uuid i) d t
                                 then ready_task t\<lparr>t_modified_at := now\<rparr> else t) (db_tasks d)\<rparr>)"
proof -
  have "promote_dependents_to_ready now i p d =
      promote_loop now (str_uuid i) (filter (dependent_candidate p) (db_tasks d)) [] d"
    by (simp add: promote_dependents_to_ready_def dependent_candidate_def [abs_def] Let_def)
  also have "\<dots> = (let (promoted, d') = dependents.promoting (str_uuid i) now (filter (dependent_candidate p) (db_tasks d)) d
        in Inr ([] @ map (\<lambda>t. str_uuid (t_id t)) promoted, d'))"
    by (rule promote_loop_eq) (use db_ok_task [OF assms] dep_ids_total in auto)
  also have "dependents.promoting (str_uuid i) now (filter (dependent_candidate p) (db_tasks d)) d =
      (filter (\<lambda>t. dependent_candidate p t \<and> depends_and_completed (str_uuid i) d t) (db_tasks d),
       d\<lparr>db_tasks := map (\<lambda>t. if dependent_candidate p t \<and> depends_and_completed (str_uuid i) d t
                               then ready_task t\<lparr>t_modified_at := now\<rparr> else t) (db_tasks d)\<rparr>)"
    by (rule dependents.promoting_rows [OF assms]) (auto simp: dependent_candidate_def)
  finally show ?thesis by simp
qed

lemma promote_dependents_ok:
  assumes "db_ok d" "promote_dependents_to_ready now i p d = Inr (newly_ready, d')"
  shows "db_ok d'"
proof -
  have "d' = d\<lparr>db_tasks := map (\<lambda>t. if dependent_candidate p t \<and> depends_and_completed (str_uuid i) d t
      then ready_task t\<lparr>t_modified_at := now\<rparr> else t) (db_tasks d)\<rparr>"
    using assms(2) unfolding promote_dependents_eq [OF assms(1)] by simp
  then show ?thesis
    by (simp only:) (rule db_ok_ready_update [OF assms(1)], auto simp: dependent_candidate_def)
qed

section \<open>The status summary\<close>

lemma task_status_value_inject [simp]: "task_status_value s = task_status_value s' \<longleftrightarrow> s = s'"
  by (metis option.inject task_status_of_value)

lemma task_status_value_total [simp]: "task_status_value s \<noteq> ''total''"
  by (cases s) simp_all

end
