(* ===== verification/Dep_Graph.thy ===== *)
theory Dep_Graph
  imports Prelude
begin

text \<open>
  The two cycle detections of the task tools. \<open>set_task_dependencies\<close> searches from one
  task with an explicit stack and a visited set; \<open>add_tasks\<close> runs a recursive search with
  the colours unvisited, visiting and visited over the tasks of a batch. Both are defined as
  the code runs them and proved equivalent to the existence of a cycle. The locale
  \<open>cycle_check\<close> is what a caller relies on.
\<close>

section \<open>Edges\<close>

type_synonym 'a adjacency = "('a \<times> 'a list) list"

text \<open>\<open>dep_graph.get(node, [])\<close>\<close>

definition succs :: "'a adjacency \<Rightarrow> 'a \<Rightarrow> 'a list" where
  "succs g n = (case map_of g n of None \<Rightarrow> [] | Some ds \<Rightarrow> ds)"

definition edges :: "'a adjacency \<Rightarrow> ('a \<times> 'a) set" where
  "edges g = {(a, b). b \<in> set (succs g a)}"

lemma succs_outside: "n \<notin> fst ` set g \<Longrightarrow> succs g n = []"
  unfolding succs_def by (metis map_of_eq_None_iff option.simps(4))

lemma succs_Cons [simp]: "succs ((k, ds) # g) n = (if n = k then ds else succs g n)"
  by (simp add: succs_def)

section \<open>Search with a stack\<close>

text \<open>
  The list holds the stack with its top first: \<open>stack.pop()\<close> takes the last element of
  the Python list and \<open>stack.extend(ds)\<close> puts \<open>ds\<close> on top in reverse order.
\<close>

function stack_search :: "'a adjacency \<Rightarrow> 'a \<Rightarrow> 'a list \<Rightarrow> 'a list \<Rightarrow> bool" where
  "stack_search g start visited [] = False"
| "stack_search g start visited (node # stack) =
     (if node = start then True
      else if node \<in> set visited then stack_search g start visited stack
      else stack_search g start (node # visited) (rev (succs g node) @ stack))"
  by pat_completeness auto
termination
proof (relation "inv_image (less_than <*lex*> less_than)
    (\<lambda>(g, s, v, st). (card (fst ` set g - set v), length st))")
  show "wf (inv_image (less_than <*lex*> less_than)
      (\<lambda>(g, s, v, st). (card (fst ` set g - set v), length st)))"
    by auto
next
  fix g :: "'a adjacency" and start :: 'a and visited :: "'a list" and node :: 'a and stack :: "'a list"
  assume "node \<notin> set visited"
  show "((g, start, node # visited, rev (succs g node) @ stack), g, start, visited, node # stack)
      \<in> inv_image (less_than <*lex*> less_than) (\<lambda>(g, s, v, st). (card (fst ` set g - set v), length st))"
  proof (cases "node \<in> fst ` set g")
    case True
    then have "fst ` set g - set (node # visited) \<subset> fst ` set g - set visited"
      using \<open>node \<notin> set visited\<close> by auto
    then have "card (fst ` set g - set (node # visited)) < card (fst ` set g - set visited)"
      by (intro psubset_card_mono) auto
    then show ?thesis by simp
  next
    case False
    then have "fst ` set g - set (node # visited) = fst ` set g - set visited" by auto
    with False show ?thesis by (simp add: succs_outside)
  qed
qed auto

definition stack_cycle :: "'a adjacency \<Rightarrow> 'a \<Rightarrow> bool" where
  "stack_cycle g start = stack_search g start [] (rev (succs g start))"

lemma stack_search_sound:
  "stack_search g s v st \<Longrightarrow> \<exists>n \<in> set st. (n, s) \<in> (edges g)\<^sup>*"
proof (induction g s v st rule: stack_search.induct)
  case (1 g s v)
  then show ?case by simp
next
  case (2 g s v n st)
  show ?case
  proof (cases "n = s \<or> n \<in> set v")
    case True
    with 2 show ?thesis by (cases "n = s") auto
  next
    case False
    with 2 obtain m where m: "m \<in> set (succs g n) \<union> set st" "(m, s) \<in> (edges g)\<^sup>*" by auto
    then show ?thesis
    proof (cases "m \<in> set st")
      case False
      with m have "(n, m) \<in> edges g" by (simp add: edges_def)
      with m(2) have "(n, s) \<in> (edges g)\<^sup>*" by (rule converse_rtrancl_into_rtrancl [rotated])
      then show ?thesis by simp
    qed auto
  qed
qed

text \<open>When the search fails, what it visited and what was on the stack lie in a set that is
  closed under edges and misses the start.\<close>

lemma stack_search_complete:
  assumes "\<not> stack_search g s v st" "s \<notin> set v"
    and "edges g `` set v \<subseteq> set v \<union> set st"
  shows "\<exists>W. set v \<union> set st \<subseteq> W \<and> edges g `` W \<subseteq> W \<and> s \<notin> W"
  using assms
proof (induction g s v st rule: stack_search.induct)
  case (1 g s v)
  then show ?case by (intro exI [of _ "set v"]) auto
next
  case (2 g s v n st)
  then have ns: "n \<noteq> s" by auto
  show ?case
  proof (cases "n \<in> set v")
    case True
    then have "edges g `` set v \<subseteq> set v \<union> set st" using "2.prems"(3) by auto
    with True ns "2.IH"(1) "2.prems"(1,2)
    obtain W where "set v \<union> set st \<subseteq> W" "edges g `` W \<subseteq> W" "s \<notin> W" by auto
    with True show ?thesis by (intro exI [of _ W]) auto
  next
    case False
    have "edges g `` set (n # v) \<subseteq> set (n # v) \<union> set (rev (succs g n) @ st)"
      using "2.prems"(3) by (auto simp: edges_def)
    with False ns "2.IH"(2) "2.prems"(1,2)
    obtain W where "set (n # v) \<union> set (rev (succs g n) @ st) \<subseteq> W" "edges g `` W \<subseteq> W" "s \<notin> W"
      by auto
    then show ?thesis by (intro exI [of _ W]) auto
  qed
qed

lemma closed_rtrancl: "(x, y) \<in> r\<^sup>* \<Longrightarrow> r `` W \<subseteq> W \<Longrightarrow> x \<in> W \<Longrightarrow> y \<in> W"
  by (induction rule: rtrancl_induct) auto

lemma stack_cycle_iff: "stack_cycle g s \<longleftrightarrow> (s, s) \<in> (edges g)\<^sup>+"
proof
  assume "stack_cycle g s"
  then obtain n where "n \<in> set (succs g s)" "(n, s) \<in> (edges g)\<^sup>*"
    unfolding stack_cycle_def by (auto dest: stack_search_sound)
  then show "(s, s) \<in> (edges g)\<^sup>+" by (auto simp: edges_def intro: rtrancl_into_trancl2)
next
  assume "(s, s) \<in> (edges g)\<^sup>+"
  then obtain n where n: "n \<in> set (succs g s)" "(n, s) \<in> (edges g)\<^sup>*"
    by (auto simp: edges_def dest: tranclD)
  show "stack_cycle g s"
  proof (rule ccontr)
    assume "\<not> stack_cycle g s"
    then have "\<exists>W. set [] \<union> set (rev (succs g s)) \<subseteq> W \<and> edges g `` W \<subseteq> W \<and> s \<notin> W"
      unfolding stack_cycle_def by (rule stack_search_complete) simp_all
    then obtain W where "set (succs g s) \<subseteq> W" "edges g `` W \<subseteq> W" "s \<notin> W" by auto
    with n(1) closed_rtrancl [OF n(2)] show False by blast
  qed
qed

section \<open>Search with three colours\<close>

datatype colour = UNVISITED | VISITING | VISITED

type_synonym 'a colouring = "('a \<times> colour) list"

definition nodes_of_colour :: "colour \<Rightarrow> 'a colouring \<Rightarrow> 'a set" where
  "nodes_of_colour c st = {n. map_of st n = Some c}"

lemma nodes_of_colour_finite [simp]: "finite (nodes_of_colour c st)"
proof (rule finite_subset)
  show "nodes_of_colour c st \<subseteq> fst ` set st"
    by (auto simp: nodes_of_colour_def dest!: map_of_SomeD intro: rev_image_eqI)
qed simp

lemma nodes_of_colour_Cons:
  "nodes_of_colour c ((d, c') # st) =
     (if c = c' then insert d (nodes_of_colour c st) else nodes_of_colour c st - {d})"
  by (auto simp: nodes_of_colour_def)

text \<open>
  \<open>visit g st ds\<close> runs the loop \<open>for dep in ds: if dep in visit_state and _has_cycle(dep):
  return True\<close> from the colours \<open>st\<close>; a new pair in front of the colours is the
  assignment \<open>visit_state[node] = ...\<close>.
\<close>

function visit :: "('a \<Rightarrow> 'a list) \<Rightarrow> 'a colouring \<Rightarrow> 'a list \<Rightarrow> bool \<times> 'a colouring" where
  "visit g st [] = (False, st)"
| "visit g st (d # ds) =
     (case map_of st d of
        None \<Rightarrow> visit g st ds
      | Some VISITING \<Rightarrow> (True, st)
      | Some VISITED \<Rightarrow> visit g st ds
      | Some UNVISITED \<Rightarrow>
          (case visit g ((d, VISITING) # st) (g d) of
             (True, st1) \<Rightarrow> (True, st1)
           | (False, st1) \<Rightarrow> visit g ((d, VISITED) # st1) ds))"
  by pat_completeness auto

lemma visit_shrinks:
  "visit_dom (g, st, ds) \<Longrightarrow>
     nodes_of_colour UNVISITED (snd (visit g st ds)) \<subseteq> nodes_of_colour UNVISITED st"
proof (induction g st ds rule: visit.pinduct)
  case (1 g st)
  then show ?case by (simp add: visit.psimps)
next
  case (2 g st d ds)
  show ?case
  proof (cases "map_of st d")
    case None
    with 2 show ?thesis by (simp add: visit.psimps)
  next
    case (Some c)
    show ?thesis
    proof (cases c)
      case VISITING
      with 2 Some show ?thesis by (simp add: visit.psimps)
    next
      case VISITED
      with 2 Some show ?thesis by (simp add: visit.psimps)
    next
      case UNVISITED
      obtain b st1 where v: "visit g ((d, VISITING) # st) (g d) = (b, st1)" by fastforce
      have "nodes_of_colour UNVISITED st1 \<subseteq> nodes_of_colour UNVISITED ((d, VISITING) # st)"
        using "2.IH"(2) [OF Some] UNVISITED v by simp
      then have s: "nodes_of_colour UNVISITED st1 \<subseteq> nodes_of_colour UNVISITED st"
        by (auto simp: nodes_of_colour_Cons)
      show ?thesis
      proof (cases b)
        case True
        with 2 Some UNVISITED v s show ?thesis by (simp add: visit.psimps)
      next
        case False
        have "nodes_of_colour UNVISITED (snd (visit g ((d, VISITED) # st1) ds))
            \<subseteq> nodes_of_colour UNVISITED ((d, VISITED) # st1)"
          using "2.IH"(3) [OF Some] UNVISITED v False by simp
        then have "nodes_of_colour UNVISITED (snd (visit g ((d, VISITED) # st1) ds))
            \<subseteq> nodes_of_colour UNVISITED st"
          using s by (auto simp: nodes_of_colour_Cons)
        with 2 Some UNVISITED v False show ?thesis by (simp add: visit.psimps)
      qed
    qed
  qed
qed

termination visit
proof (relation "inv_image (less_than <*lex*> less_than)
    (\<lambda>(g, st, ds). (card (nodes_of_colour UNVISITED st), length ds))")
  show "wf (inv_image (less_than <*lex*> less_than)
      (\<lambda>(g, st, ds). (card (nodes_of_colour UNVISITED st), length ds)))"
    by auto
next
  fix g :: "'a \<Rightarrow> 'a list" and st :: "'a colouring" and d :: 'a and ds :: "'a list" and c
  assume "map_of st d = Some c" "c = UNVISITED"
  then have "nodes_of_colour UNVISITED ((d, VISITING) # st) \<subset> nodes_of_colour UNVISITED st"
    by (auto simp: nodes_of_colour_Cons nodes_of_colour_def)
  then have "card (nodes_of_colour UNVISITED ((d, VISITING) # st)) < card (nodes_of_colour UNVISITED st)"
    by (rule psubset_card_mono [OF nodes_of_colour_finite])
  then show "((g, (d, VISITING) # st, g d), g, st, d # ds)
      \<in> inv_image (less_than <*lex*> less_than)
          (\<lambda>(g, st, ds). (card (nodes_of_colour UNVISITED st), length ds))"
    by simp
next
  fix g :: "'a \<Rightarrow> 'a list" and st st1 :: "'a colouring" and d :: 'a and ds :: "'a list" and c b
  assume m: "map_of st d = Some c" "c = UNVISITED"
    and p: "(b, st1) = visit g ((d, VISITING) # st) (g d)"
    and dom: "visit_dom (g, (d, VISITING) # st, g d)"
  have "nodes_of_colour UNVISITED st1 \<subseteq> nodes_of_colour UNVISITED ((d, VISITING) # st)"
    using visit_shrinks [OF dom] p by (metis snd_conv)
  then have "nodes_of_colour UNVISITED ((d, VISITED) # st1) \<subset> nodes_of_colour UNVISITED st"
    using m by (auto simp: nodes_of_colour_Cons nodes_of_colour_def)
  then have "card (nodes_of_colour UNVISITED ((d, VISITED) # st1)) < card (nodes_of_colour UNVISITED st)"
    by (rule psubset_card_mono [OF nodes_of_colour_finite])
  then show "((g, (d, VISITED) # st1, ds), g, st, d # ds)
      \<in> inv_image (less_than <*lex*> less_than)
          (\<lambda>(g, st, ds). (card (nodes_of_colour UNVISITED st), length ds))"
    by simp
qed auto

lemma visit_step_simps:
  "map_of st d = None \<Longrightarrow> visit g st (d # ds) = visit g st ds"
  "map_of st d = Some VISITING \<Longrightarrow> visit g st (d # ds) = (True, st)"
  "map_of st d = Some VISITED \<Longrightarrow> visit g st (d # ds) = visit g st ds"
  "map_of st d = Some UNVISITED \<Longrightarrow> visit g ((d, VISITING) # st) (g d) = (True, st1) \<Longrightarrow>
     visit g st (d # ds) = (True, st1)"
  "map_of st d = Some UNVISITED \<Longrightarrow> visit g ((d, VISITING) # st) (g d) = (False, st1) \<Longrightarrow>
     visit g st (d # ds) = visit g ((d, VISITED) # st1) ds"
  by simp_all

text \<open>The search as an induction principle: one case per way a dependency is treated.\<close>

lemma visit_cases_induct [case_names Nil Skip Grey Black Found Done]:
  assumes "\<And>g st. P g st []"
    and "\<And>g st d ds. map_of st d = None \<Longrightarrow> P g st ds \<Longrightarrow> P g st (d # ds)"
    and "\<And>g st d ds. map_of st d = Some VISITING \<Longrightarrow> P g st (d # ds)"
    and "\<And>g st d ds. map_of st d = Some VISITED \<Longrightarrow> P g st ds \<Longrightarrow> P g st (d # ds)"
    and "\<And>g st d ds st1. map_of st d = Some UNVISITED \<Longrightarrow>
           visit g ((d, VISITING) # st) (g d) = (True, st1) \<Longrightarrow>
           P g ((d, VISITING) # st) (g d) \<Longrightarrow> P g st (d # ds)"
    and "\<And>g st d ds st1. map_of st d = Some UNVISITED \<Longrightarrow>
           visit g ((d, VISITING) # st) (g d) = (False, st1) \<Longrightarrow>
           P g ((d, VISITING) # st) (g d) \<Longrightarrow> P g ((d, VISITED) # st1) ds \<Longrightarrow> P g st (d # ds)"
  shows "P g st ds"
proof (induction g st ds rule: visit.induct)
  case (1 g st)
  show ?case by (rule assms(1))
next
  case (2 g st d ds)
  show ?case
  proof (cases "map_of st d")
    case None
    then show ?thesis using "2.IH"(1) assms(2) by blast
  next
    case (Some c)
    obtain b st1 where v: "visit g ((d, VISITING) # st) (g d) = (b, st1)" by fastforce
    show ?thesis
    proof (cases c)
      case UNVISITED
      show ?thesis
      proof (cases b)
        case True
        show ?thesis
          by (rule assms(5) [OF _ _ "2.IH"(2) [OF Some UNVISITED]]) (use Some UNVISITED v True in auto)
      next
        case False
        have "P g ((d, VISITED) # st1) ds"
          by (rule "2.IH"(3) [OF Some UNVISITED v [symmetric]]) (use False in simp)
        then show ?thesis
          by (intro assms(6) [OF _ _ "2.IH"(2) [OF Some UNVISITED], of st1]) (use Some UNVISITED v False in auto)
      qed
    qed (use Some "2.IH"(4) assms(3,4) in blast)+
  qed
qed

definition fun_edges :: "('a \<Rightarrow> 'a list) \<Rightarrow> ('a \<times> 'a) set" where
  "fun_edges g = {(a, b). b \<in> set (g a)}"

text \<open>A search that finds nothing leaves the visiting nodes as they were.\<close>

lemma visit_grey_unchanged:
  "\<not> fst (visit g st ds) \<Longrightarrow>
     nodes_of_colour VISITING (snd (visit g st ds)) = nodes_of_colour VISITING st"
proof (induction g st ds rule: visit_cases_induct)
  case (Done g st d ds st1)
  have "nodes_of_colour VISITING st1 = insert d (nodes_of_colour VISITING st)"
    using Done(2,3) by (simp add: nodes_of_colour_Cons)
  moreover have "d \<notin> nodes_of_colour VISITING st"
    using Done(1) by (simp add: nodes_of_colour_def)
  ultimately have "nodes_of_colour VISITING ((d, VISITED) # st1) = nodes_of_colour VISITING st"
    by (auto simp: nodes_of_colour_Cons)
  with Done show ?case by simp
qed (simp_all add: visit_step_simps)

lemma dom_recolour: "dom (map_of st) = D \<Longrightarrow> d \<in> D \<Longrightarrow> dom (map_of ((d, c) # st)) = D"
  by auto

lemma visit_keeps_nodes:
  "dom (map_of st) = D \<Longrightarrow> set ds \<subseteq> D \<Longrightarrow> \<forall>n. set (g n) \<subseteq> D \<Longrightarrow>
     dom (map_of (snd (visit g st ds))) = D"
proof (induction g st ds rule: visit_cases_induct)
  case (Found g st d ds st1)
  have "dom (map_of ((d, VISITING) # st)) = D"
    by (rule dom_recolour) (use Found.prems in auto)
  then have "dom (map_of (snd (visit g ((d, VISITING) # st) (g d)))) = D"
    by (rule Found.IH) (use Found.prems(3) in auto)
  with Found(1,2) show ?case by simp
next
  case (Done g st d ds st1)
  have "dom (map_of ((d, VISITING) # st)) = D"
    by (rule dom_recolour) (use Done.prems in auto)
  then have "dom (map_of (snd (visit g ((d, VISITING) # st) (g d)))) = D"
    by (rule Done(3)) (use Done.prems(3) in auto)
  then have "dom (map_of st1) = D" using Done(2) by simp
  then have "dom (map_of ((d, VISITED) # st1)) = D"
    by (rule dom_recolour) (use Done.prems in auto)
  then have "dom (map_of (snd (visit g ((d, VISITED) # st1) ds))) = D"
    by (rule Done(4)) (use Done.prems in auto)
  with Done(1,2) show ?case by simp
qed (simp_all add: visit_step_simps)

text \<open>
  The visited nodes are closed under edges and none of them lies on a cycle; a search that
  finds nothing keeps this and ends with all its nodes visited.
\<close>

definition black_ok :: "('a \<Rightarrow> 'a list) \<Rightarrow> 'a colouring \<Rightarrow> bool" where
  "black_ok g st \<longleftrightarrow>
     (\<forall>b \<in> nodes_of_colour VISITED st. set (g b) \<subseteq> nodes_of_colour VISITED st \<and>
        (b, b) \<notin> (fun_edges g)\<^sup>+)"

lemma black_closed:
  assumes "black_ok g st" "(b, c) \<in> (fun_edges g)\<^sup>*" "b \<in> nodes_of_colour VISITED st"
  shows "c \<in> nodes_of_colour VISITED st"
  using assms(2,3)
proof (induction rule: rtrancl_induct)
  case base
  then show ?case .
next
  case (step y z)
  then show ?case using assms(1) by (auto simp: black_ok_def fun_edges_def)
qed

lemma visit_black:
  "\<not> fst (visit g st ds) \<Longrightarrow> black_ok g st \<Longrightarrow> dom (map_of st) = D \<Longrightarrow> set ds \<subseteq> D \<Longrightarrow>
     \<forall>n. set (g n) \<subseteq> D \<Longrightarrow>
     black_ok g (snd (visit g st ds)) \<and>
     nodes_of_colour VISITED st \<union> set ds \<subseteq> nodes_of_colour VISITED (snd (visit g st ds))"
proof (induction g st ds rule: visit_cases_induct)
  case (Skip g st d ds)
  then show ?case by auto
next
  case (Black g st d ds)
  then show ?case by (auto simp: visit_step_simps nodes_of_colour_def)
next
  case (Done g st d ds st1)
  have dom1: "dom (map_of ((d, VISITING) # st)) = D"
    by (rule dom_recolour) (use Done.prems in auto)
  have b0: "nodes_of_colour VISITED ((d, VISITING) # st) = nodes_of_colour VISITED st"
    using Done(1) by (auto simp: nodes_of_colour_Cons nodes_of_colour_def)
  have "black_ok g ((d, VISITING) # st)" using Done.prems(2) unfolding black_ok_def b0 .
  then have "black_ok g (snd (visit g ((d, VISITING) # st) (g d))) \<and>
      nodes_of_colour VISITED ((d, VISITING) # st) \<union> set (g d)
        \<subseteq> nodes_of_colour VISITED (snd (visit g ((d, VISITING) # st) (g d)))"
    by (intro Done(3) dom1) (use Done(2) Done.prems(5) in auto)
  then have ok1: "black_ok g st1"
    and sub1: "nodes_of_colour VISITED st \<union> set (g d) \<subseteq> nodes_of_colour VISITED st1"
    using Done(2) b0 by auto
  have "dom (map_of st1) = D"
    using visit_keeps_nodes [OF dom1, of "g d" g] Done(2) Done.prems(5) by simp
  then have dom2: "dom (map_of ((d, VISITED) # st1)) = D"
    by (rule dom_recolour) (use Done.prems in auto)
  have "d \<in> nodes_of_colour VISITING st1"
    using visit_grey_unchanged [of g "(d, VISITING) # st" "g d"] Done(2)
    by (simp add: nodes_of_colour_Cons)
  then have d1: "d \<notin> nodes_of_colour VISITED st1" by (simp add: nodes_of_colour_def)
  have acyc: "(d, d) \<notin> (fun_edges g)\<^sup>+"
  proof
    assume "(d, d) \<in> (fun_edges g)\<^sup>+"
    then obtain e where "e \<in> set (g d)" "(e, d) \<in> (fun_edges g)\<^sup>*"
      by (auto simp: fun_edges_def dest: tranclD)
    with sub1 black_closed [OF ok1] d1 show False by blast
  qed
  have b2: "nodes_of_colour VISITED ((d, VISITED) # st1) = insert d (nodes_of_colour VISITED st1)"
    by (simp add: nodes_of_colour_Cons)
  have ok2: "black_ok g ((d, VISITED) # st1)"
    unfolding black_ok_def b2 using ok1 sub1 acyc by (auto simp: black_ok_def)
  have "black_ok g (snd (visit g ((d, VISITED) # st1) ds)) \<and>
      nodes_of_colour VISITED ((d, VISITED) # st1) \<union> set ds
        \<subseteq> nodes_of_colour VISITED (snd (visit g ((d, VISITED) # st1) ds))"
    by (rule Done(4)) (use Done.prems Done(1,2) ok2 dom2 in auto)
  then show ?case using Done(1,2) sub1 unfolding b2 by auto
qed simp_all

lemma visit_sound:
  "fst (visit g st ds) \<Longrightarrow>
     \<forall>x \<in> nodes_of_colour VISITING st. \<forall>d \<in> set ds. (x, d) \<in> (fun_edges g)\<^sup>+ \<Longrightarrow>
     \<exists>n. (n, n) \<in> (fun_edges g)\<^sup>+"
proof (induction g st ds rule: visit_cases_induct)
  case (Nil g st)
  then show ?case by simp
next
  case (Skip g st d ds)
  then show ?case by (simp add: visit_step_simps)
next
  case (Grey g st d ds)
  then have "(d, d) \<in> (fun_edges g)\<^sup>+" by (simp add: nodes_of_colour_def)
  then show ?case by blast
next
  case (Black g st d ds)
  then show ?case by (simp add: visit_step_simps)
next
  case (Found g st d ds st1)
  have "(x, e) \<in> (fun_edges g)\<^sup>+"
    if "x \<in> nodes_of_colour VISITING ((d, VISITING) # st)" "e \<in> set (g d)" for x e
  proof -
    have de: "(d, e) \<in> fun_edges g" using that(2) by (simp add: fun_edges_def)
    show ?thesis
    proof (cases "x = d")
      case True
      with de show ?thesis by blast
    next
      case False
      with that(1) Found.prems(2) have "(x, d) \<in> (fun_edges g)\<^sup>+" by (simp add: nodes_of_colour_Cons)
      from this de show ?thesis by (rule trancl_into_trancl)
    qed
  qed
  with Found show ?case by auto
next
  case (Done g st d ds st1)
  have "nodes_of_colour VISITING ((d, VISITED) # st1) \<subseteq> nodes_of_colour VISITING st"
  proof -
    have "nodes_of_colour VISITING st1 = insert d (nodes_of_colour VISITING st)"
      using visit_grey_unchanged [of g "(d, VISITING) # st" "g d"] Done(2)
      by (simp add: nodes_of_colour_Cons)
    then show ?thesis by (auto simp: nodes_of_colour_Cons)
  qed
  with Done show ?case by (auto simp: visit_step_simps)
qed

text \<open>\<open>visit_state = dict.fromkeys(names_seen, UNVISITED)\<close>, then \<open>_has_cycle\<close> on every
  name.\<close>

definition batch_cycle :: "'a adjacency \<Rightarrow> 'a list \<Rightarrow> bool" where
  "batch_cycle g names = fst (visit (succs g) (map (\<lambda>n. (n, UNVISITED)) names) names)"

lemma fun_edges_succs: "fun_edges (succs g) = edges g"
  by (simp add: fun_edges_def edges_def)

lemma map_of_unvisited:
  "map_of (map (\<lambda>n. (n, UNVISITED)) names) d = (if d \<in> set names then Some UNVISITED else None)"
  by (induction names) auto

lemma batch_cycle_iff:
  assumes "\<And>n. set (succs g n) \<subseteq> set names"
  shows "batch_cycle g names \<longleftrightarrow> \<not> acyclic (edges g)"
proof
  assume "batch_cycle g names"
  then have "fst (visit (succs g) (map (\<lambda>n. (n, UNVISITED)) names) names)"
    by (simp add: batch_cycle_def)
  then have "\<exists>n. (n, n) \<in> (fun_edges (succs g))\<^sup>+"
    by (rule visit_sound) (auto simp: nodes_of_colour_def map_of_unvisited split: if_splits)
  then show "\<not> acyclic (edges g)" by (simp add: acyclic_def fun_edges_succs)
next
  assume "\<not> acyclic (edges g)"
  then obtain n where n: "(n, n) \<in> (edges g)\<^sup>+" by (auto simp: acyclic_def)
  show "batch_cycle g names"
  proof (rule ccontr)
    let ?st = "map (\<lambda>n. (n, UNVISITED)) names"
    assume "\<not> batch_cycle g names"
    then have "\<not> fst (visit (succs g) ?st names)" by (simp add: batch_cycle_def)
    then have r: "black_ok (succs g) (snd (visit (succs g) ?st names)) \<and>
      nodes_of_colour VISITED ?st \<union> set names \<subseteq> nodes_of_colour VISITED (snd (visit (succs g) ?st names))"
    proof (rule visit_black)
      show "black_ok (succs g) ?st" by (auto simp: black_ok_def nodes_of_colour_def map_of_unvisited)
      show "dom (map_of ?st) = set names" by (auto simp: map_of_unvisited split: if_splits)
      show "\<forall>n. set (succs g n) \<subseteq> set names" using assms by blast
    qed simp
    obtain m where "(m, n) \<in> edges g" using n by (meson tranclD2)
    then have "n \<in> set names" using assms by (auto simp: edges_def)
    with r n show False by (auto simp: black_ok_def fun_edges_succs)
  qed
qed

section \<open>What the callers rely on\<close>

text \<open>
  A cycle check decides whether a node lies on a cycle. A caller that replaces the edges of
  one node only after the check has passed keeps the graph acyclic.
\<close>

locale cycle_check =
  fixes check :: "'a adjacency \<Rightarrow> 'a \<Rightarrow> bool"
  assumes check_iff: "check g s \<longleftrightarrow> (s, s) \<in> (edges g)\<^sup>+"
begin

lemma new_path:
  assumes "(x, y) \<in> (edges ((s, ds) # g))\<^sup>+"
  shows "(x, y) \<in> (edges g)\<^sup>+ \<or>
    ((x, s) \<in> (edges ((s, ds) # g))\<^sup>* \<and> (s, y) \<in> (edges ((s, ds) # g))\<^sup>+)"
  using assms
proof (induction rule: trancl_induct)
  case (base y)
  then show ?case
    by (cases "x = s") (auto simp: edges_def intro: r_into_trancl)
next
  case (step y z)
  show ?case
  proof (cases "y = s")
    case True
    with step(1,2) show ?thesis by (auto dest: trancl_into_rtrancl)
  next
    case False
    with step(2) have "(y, z) \<in> edges g" by (simp add: edges_def)
    with step(2,3) show ?thesis by (meson trancl_into_trancl)
  qed
qed

lemma replace_edges_acyclic:
  assumes "acyclic (edges g)" "\<not> check ((s, ds) # g) s"
  shows "acyclic (edges ((s, ds) # g))"
  unfolding acyclic_def
proof
  fix x
  show "(x, x) \<notin> (edges ((s, ds) # g))\<^sup>+"
  proof
    assume "(x, x) \<in> (edges ((s, ds) # g))\<^sup>+"
    from new_path [OF this] assms(1)
    have "(x, s) \<in> (edges ((s, ds) # g))\<^sup>*" "(s, x) \<in> (edges ((s, ds) # g))\<^sup>+"
      by (auto simp: acyclic_def)
    then have "(s, s) \<in> (edges ((s, ds) # g))\<^sup>+" by (meson trancl_rtrancl_trancl)
    with assms(2) show False by (simp add: check_iff)
  qed
qed

end

interpretation stack: cycle_check stack_cycle
  by unfold_locales (rule stack_cycle_iff)

end
