(* ===== verification/Project_Lifecycle.thy ===== *)
theory Project_Lifecycle
  imports Project_Helpers Task_Execution Dep_Graph
begin

text \<open>
  The tools of \<open>ypl/mcp_server/tools/project_tasks.py\<close> that move tasks between statuses:
  \<open>get_ready_tasks\<close>, \<open>set_task_status\<close>, \<open>restart_task\<close>, \<open>set_task_dependencies\<close>,
  \<open>claim_task\<close> and \<open>resume_failed_task\<close>. The names of this theory carry the prefix
  \<open>mcp_\<close>, since the executor and the REST service have functions with the same names.
\<close>

text \<open>The row a tool answers with, read after the commit.\<close>

definition task_view :: "tool_ctx \<Rightarrow> (agent_task \<Rightarrow> db \<Rightarrow> string option) \<Rightarrow> uuid \<Rightarrow> db \<Rightarrow> py_dict" where
  "task_view cx agent_name task_uuid d =
     (case find_task (\<lambda>_. True) task_uuid d of
        None \<Rightarrow> []
      | Some task \<Rightarrow> format_task_row (cx_isoformat cx) task (agent_name task d))"

section \<open>get_ready_tasks\<close>

fun promote_eligible_loop :: "int \<Rightarrow> agent_task list \<Rightarrow> nat \<Rightarrow> db \<Rightarrow> py_error + nat \<times> db" where
  "promote_eligible_loop now [] promoted d = Inr (promoted, d)"
| "promote_eligible_loop now (task # tasks) promoted d =
     (if deps_of task = []
      then promote_eligible_loop now tasks (Suc promoted)
             (write_task now (t_id task) (\<lambda>t. t\<lparr>t_status := READY\<rparr>) d)
      else (case dep_ids task of
              Inl e \<Rightarrow> Inl e
            | Inr ids \<Rightarrow>
                if dep_rows_completed ids d
                then promote_eligible_loop now tasks (Suc promoted)
                       (write_task now (t_id task) (\<lambda>t. t\<lparr>t_status := READY\<rparr>) d)
                else promote_eligible_loop now tasks promoted d))"

definition mcp_get_ready_tasks ::
  "tool_ctx \<Rightarrow> string \<Rightarrow> db \<Rightarrow> (tool_error + string \<times> nat \<times> py_dict list) \<times> db" where
  "mcp_get_ready_tasks cx project_id d =
     transact d
       (sum_bind (require_caller_user_id cx) (\<lambda>_.
        sum_bind (parse_id ''project_id'' project_id) (\<lambda>proj_uuid.
          let candidates = filter (\<lambda>t. t_project_id t = proj_uuid \<and> t_status t \<in> {PENDING, BLOCKED} \<and>
                                     live_task t) (db_tasks d)
          in sum_bind (raising (promote_eligible_loop (cx_now cx) candidates 0 d)) (\<lambda>(promoted, d').
               let ready = order_tasks (filter (\<lambda>t. t_project_id t = proj_uuid \<and> t_status t = READY \<and>
                                                  live_task t) (db_tasks d'))
               in Inr ((project_id, promoted,
                        map (\<lambda>t. format_task_row (cx_isoformat cx) t (joined_agent_name t d')) ready), d')))))"

section \<open>set_task_status\<close>

definition parse_result_arg :: "json_arg \<Rightarrow> tool_error + json option" where
  "parse_result_arg result =
     (case result of
        Absent \<Rightarrow> Inr None
      | Malformed \<Rightarrow> Inl (InvalidJson ''result'')
      | Parsed v \<Rightarrow> Inr (json_column v))"

text \<open>The statements after the checks: the terminal and the reopening branch, then the cascade.\<close>

definition apply_task_status ::
  "(int \<Rightarrow> uuid \<Rightarrow> uuid \<Rightarrow> db \<Rightarrow> py_error + string list \<times> db) \<Rightarrow> int \<Rightarrow> agent_task \<Rightarrow>
     agent_task_status \<Rightarrow> json option \<Rightarrow> db \<Rightarrow> tool_error + string list \<times> db" where
  "apply_task_status promote now task target_status result_data d =
     sum_bind
       (if terminal target_status
        then raising_status (complete_task now d task target_status result_data True)
        else Inr (write_task now (t_id task)
               (\<lambda>t. t\<lparr>t_status := target_status,
                      t_result := (if result_data = None then t_result t else result_data),
                      t_completed_at := None\<rparr>) d)) (\<lambda>d1.
     if target_status = COMPLETED
     then raising (promote now (t_id task) (t_project_id task) d1)
     else Inr ([], d1))"

definition mcp_set_task_status ::
  "tool_ctx \<Rightarrow> string \<Rightarrow> string \<Rightarrow> json_arg \<Rightarrow> db \<Rightarrow>
     (tool_error + string \<times> agent_task_status \<times> string list) \<times> db" where
  "mcp_set_task_status cx task_id status result d =
     transact d
       (sum_bind (require_caller_user_id cx) (\<lambda>_.
        sum_bind (parse_id ''task_id'' task_id) (\<lambda>task_uuid.
        sum_bind (found (InvalidStatus status) (task_status_of status)) (\<lambda>target_status.
        sum_bind (parse_result_arg result) (\<lambda>result_data.
        sum_bind (resolve_caller_for_project_auth cx) (\<lambda>(caller_user_id, is_admin).
        sum_bind (found (TaskNotFound task_id) (find_task live_task task_uuid d)) (\<lambda>task.
        sum_bind (refuse (check_task_ownership task_id task caller_user_id is_admin d)) (\<lambda>_.
        sum_bind (raising (validate_task_status_change d task target_status)) (\<lambda>validation_error.
        sum_bind (refuse (map_option StatusRefused validation_error)) (\<lambda>_.
        sum_bind (apply_task_status promote_dependents_to_ready (cx_now cx) task target_status result_data d)
          (\<lambda>(newly_ready, d').
        Inr ((task_id, target_status, newly_ready), d'))))))))))))"

section \<open>restart_task\<close>

text \<open>The statements of a restart, shared with the REST service.\<close>

definition apply_restart :: "int \<Rightarrow> agent_task \<Rightarrow> db \<Rightarrow> tool_error + db" where
  "apply_restart now task d =
     (let cleared = (\<lambda>t. t\<lparr>t_result := None, t_completed_at := None, t_actual_spending_usd := None,
                           t_assigned_session_ids := None\<rparr>)
      in sum_bind (raising (are_dependencies_completed (write_task now (t_id task) cleared d) (cleared task)))
           (\<lambda>completed. Inr (write_task now (t_id task)
              (\<lambda>t. (cleared t)\<lparr>t_status := (if completed then READY else PENDING)\<rparr>) d)))"

definition mcp_restart_task :: "tool_ctx \<Rightarrow> string \<Rightarrow> db \<Rightarrow> (tool_error + py_dict) \<times> db" where
  "mcp_restart_task cx task_id d =
     transact d
       (sum_bind (require_caller_user_id cx) (\<lambda>_.
        sum_bind (parse_id ''task_id'' task_id) (\<lambda>task_uuid.
        sum_bind (found (TaskNotFound task_id) (find_task live_task task_uuid d)) (\<lambda>task.
        sum_bind (apply_restart (cx_now cx) task d) (\<lambda>d'.
        Inr (task_view cx task_agent_name task_uuid d', d'))))))"

section \<open>set_task_dependencies\<close>

fun parse_dependencies :: "json list \<Rightarrow> tool_error + uuid list" where
  "parse_dependencies [] = Inr []"
| "parse_dependencies (v # vs) =
     (case v of
        JStr s \<Rightarrow>
          (case parse_uuid s of
             Inl e \<Rightarrow> Inl (InvalidDependency s)
           | Inr u \<Rightarrow> sum_bind (parse_dependencies vs) (\<lambda>us. Inr (u # us)))
      | _ \<Rightarrow> Inl (DependencyNotString v))"

text \<open>
  The adjacency the cycle search uses: one entry per live task of the project under the text
  of its identifier, then the proposed entry under the key the caller sent.
\<close>

definition dep_graph :: "uuid \<Rightarrow> string \<Rightarrow> uuid list \<Rightarrow> db \<Rightarrow> string adjacency" where
  "dep_graph project_id task_id dep_uuids d =
     (task_id, map str_uuid dep_uuids) #
     map (\<lambda>t. (str_uuid (t_id t), deps_of t))
       (filter (\<lambda>t. t_project_id t = project_id \<and> live_task t) (db_tasks d))"

definition existing_deps :: "agent_task \<Rightarrow> uuid list \<Rightarrow> db \<Rightarrow> agent_task list" where
  "existing_deps task dep_uuids d =
     filter (\<lambda>t. t_id t \<in> set dep_uuids \<and> t_project_id t = t_project_id task \<and> live_task t) (db_tasks d)"

text \<open>
  Existence of the dependencies, the cycle search, and whether all dependencies are
  completed; shared with the REST service, as are the statements after the checks.
\<close>

definition check_dependencies :: "string \<Rightarrow> agent_task \<Rightarrow> uuid list \<Rightarrow> db \<Rightarrow> tool_error + bool" where
  "check_dependencies task_id task dep_uuids d =
     (let existing_rows = existing_deps task dep_uuids d;
          missing = map str_uuid (filter (\<lambda>i. i \<notin> t_id ` set existing_rows) dep_uuids)
      in if dep_uuids = [] then Inr True
         else if missing \<noteq> [] then Inl (DependenciesNotFound missing)
         else if stack_cycle (dep_graph (t_project_id task) task_id dep_uuids d) task_id then Inl CycleCreated
         else Inr (list_all (\<lambda>t. t_status t = COMPLETED) existing_rows))"

definition with_dependencies :: "uuid list \<Rightarrow> bool \<Rightarrow> agent_task \<Rightarrow> agent_task" where
  "with_dependencies dep_uuids all_completed t =
     t\<lparr>t_depends_on := none_if_empty (map str_uuid dep_uuids),
       t_status := (if terminal (t_status t) \<or> t_status t \<in> {IN_PROGRESS, IN_REVIEW} then t_status t
                    else if dep_uuids \<noteq> [] \<and> \<not> all_completed then BLOCKED else READY)\<rparr>"

definition apply_dependencies :: "int \<Rightarrow> string \<Rightarrow> agent_task \<Rightarrow> uuid list \<Rightarrow> db \<Rightarrow> tool_error + db" where
  "apply_dependencies now task_id task dep_uuids d =
     sum_bind (check_dependencies task_id task dep_uuids d) (\<lambda>all_completed.
     Inr (write_task now (t_id task) (with_dependencies dep_uuids all_completed) d))"

definition mcp_set_task_dependencies ::
  "tool_ctx \<Rightarrow> string \<Rightarrow> json option \<Rightarrow> db \<Rightarrow> (tool_error + py_dict) \<times> db" where
  "mcp_set_task_dependencies cx task_id depends_on d =
     transact d
       (sum_bind (require_caller_user_id cx) (\<lambda>_.
        sum_bind (parse_id ''task_id'' task_id) (\<lambda>task_uuid.
        sum_bind (found (InvalidJson ''depends_on'') depends_on) (\<lambda>v.
        sum_bind (case v of JList vs \<Rightarrow> Inr vs | _ \<Rightarrow> Inl NotArray) (\<lambda>dep_ids_raw.
        sum_bind (parse_dependencies dep_ids_raw) (\<lambda>dep_uuids.
        if task_uuid \<in> set dep_uuids then Inl SelfDependency
        else
          sum_bind (found (TaskNotFound task_id) (find_task live_task task_uuid d)) (\<lambda>task.
          sum_bind (apply_dependencies (cx_now cx) task_id task dep_uuids d) (\<lambda>d'.
          Inr (task_view cx task_agent_name task_uuid d', d')))))))))"

section \<open>claim_task\<close>

definition mcp_claimable :: "(uuid \<Rightarrow> bool) \<Rightarrow> uuid \<Rightarrow> agent_task \<Rightarrow> bool" where
  "mcp_claimable locked project_id t \<longleftrightarrow>
     t_project_id t = project_id \<and> t_status t = READY \<and> live_task t \<and> \<not> locked (t_id t)"

definition mcp_choose_task ::
  "(uuid \<Rightarrow> bool) \<Rightarrow> string \<Rightarrow> uuid \<Rightarrow> (string \<times> uuid) option \<Rightarrow> db \<Rightarrow> tool_error + agent_task" where
  "mcp_choose_task locked project_id proj_uuid task d =
     (case task of
        Some (task_id, task_uuid) \<Rightarrow>
          found (TaskNotReady task_id project_id) (find_task (mcp_claimable locked proj_uuid) task_uuid d)
      | None \<Rightarrow>
          (case order_tasks (filter (mcp_claimable locked proj_uuid) (db_tasks d)) of
             [] \<Rightarrow> Inl NoReadyTasks
           | t # _ \<Rightarrow> Inr t))"

definition parse_optional_id :: "string \<Rightarrow> string option \<Rightarrow> tool_error + (string \<times> uuid) option" where
  "parse_optional_id what s =
     (case s of
        None \<Rightarrow> Inr None
      | Some x \<Rightarrow> if x = [] then Inr None
                  else sum_bind (parse_id what x) (\<lambda>u. Inr (Some (x, u))))"

definition mcp_claim_task ::
  "tool_ctx \<Rightarrow> (uuid \<Rightarrow> bool) \<Rightarrow> string \<Rightarrow> string option \<Rightarrow> db \<Rightarrow> (tool_error + py_dict) \<times> db" where
  "mcp_claim_task cx locked project_id task_id d =
     transact d
       (sum_bind (require_caller_user_id cx) (\<lambda>_.
        sum_bind (parse_id ''project_id'' project_id) (\<lambda>proj_uuid.
        sum_bind (parse_optional_id ''task_id'' task_id) (\<lambda>wanted.
        sum_bind (mcp_choose_task locked project_id proj_uuid wanted d) (\<lambda>task.
          let d' = write_task (cx_now cx) (t_id task) (\<lambda>t. t\<lparr>t_status := IN_PROGRESS\<rparr>) d
          in Inr (task_view cx task_agent_name (t_id task) d', d'))))))"

section \<open>resume_failed_task\<close>

definition mcp_resume_failed_task ::
  "tool_ctx \<Rightarrow> string \<Rightarrow> db \<Rightarrow> (tool_error + resume_outcome) \<times> db" where
  "mcp_resume_failed_task cx task_id d =
     transact d
       (sum_bind (require_caller_user_id cx) (\<lambda>_.
        sum_bind (parse_id ''task_id'' task_id) (\<lambda>task_uuid.
          (case resume_task (cx_now cx) task_uuid d of
             (Inl e, _) \<Rightarrow> Inl (Raised e)
           | (Inr outcome, d') \<Rightarrow> Inr (outcome, d')))))"

section \<open>What the tools keep\<close>

lemma validated_blocked:
  "validate_task_status_change d task BLOCKED = Inr None \<Longrightarrow> deps_of task \<noteq> []"
  by (auto simp: validate_task_status_change_def validate_task_status_semantics_def
      split: option.splits if_splits)

lemma apply_task_status_ok:
  assumes "db_ok d" "find_task q i d = Some task"
    and "validate_task_status_change d task target = Inr None"
    and "\<And>i p d newly_ready d'. db_ok d \<Longrightarrow> promote now i p d = Inr (newly_ready, d') \<Longrightarrow> db_ok d'"
    and "apply_task_status promote now task target result d = Inr (newly_ready, d')"
  shows "db_ok d'"
proof -
  have i: "t_id task = i" using find_task_Some [OF assms(2)] by simp
  have "db_ok d1" if "(if terminal target
        then raising_status (complete_task now d task target result True)
        else Inr (write_task now (t_id task)
               (\<lambda>t. t\<lparr>t_status := target, t_result := (if result = None then t_result t else result),
                      t_completed_at := None\<rparr>) d)) = Inr d1" for d1
  proof (cases "terminal target")
    case True
    with that show ?thesis by (auto intro: complete_task_ok [OF assms(1)])
  next
    case False
    have "task_ok (task\<lparr>t_status := target, t_result := (if result = None then t_result task else result),
        t_completed_at := None\<rparr>)" if "task_ok task"
      using that False assms(3) by (auto simp: task_ok_def dest: validated_blocked)
    with False that show ?thesis
      unfolding i by (auto intro!: db_ok_write_found [OF assms(1,2)])
  qed
  with assms(4,5) show ?thesis
    by (auto simp: apply_task_status_def sum_bind_Inr split: if_splits)
qed

lemma mcp_set_task_status_ok: "db_ok d \<Longrightarrow> db_ok (snd (mcp_set_task_status cx task_id status result d))"
  unfolding mcp_set_task_status_def
  by (rule transact_ok)
     (auto simp: sum_bind_Inr intro: apply_task_status_ok promote_dependents_ok)

lemma apply_restart_ok:
  assumes "db_ok d" "find_task q i d = Some task" "apply_restart now task d = Inr d'"
  shows "db_ok d'"
proof -
  have "t_id task = i" using find_task_Some [OF assms(2)] by simp
  with assms(3) obtain c where "d' = write_task now i
      (\<lambda>t. t\<lparr>t_result := None, t_completed_at := None, t_actual_spending_usd := None,
             t_assigned_session_ids := None, t_status := (if c then READY else PENDING)\<rparr>) d"
    by (auto simp: apply_restart_def Let_def sum_bind_Inr)
  then show ?thesis
    by (simp only:) (rule db_ok_write_found [OF assms(1,2)], auto simp: task_ok_def)
qed

lemma mcp_restart_task_ok: "db_ok d \<Longrightarrow> db_ok (snd (mcp_restart_task cx task_id d))"
  unfolding mcp_restart_task_def
  by (rule transact_ok) (auto simp: sum_bind_Inr intro: apply_restart_ok)

lemma check_dependencies_Inr:
  "check_dependencies task_id task us d = Inr c \<longleftrightarrow>
     (if us = [] then c
      else set us \<subseteq> t_id ` set (existing_deps task us d) \<and>
           \<not> stack_cycle (dep_graph (t_project_id task) task_id us d) task_id \<and>
           c = list_all (\<lambda>t. t_status t = COMPLETED) (existing_deps task us d))"
proof -
  have "map str_uuid (filter (\<lambda>i. i \<notin> t_id ` set (existing_deps task us d)) us) = [] \<longleftrightarrow>
      set us \<subseteq> t_id ` set (existing_deps task us d)"
    by (auto simp: filter_empty_conv)
  then show ?thesis by (auto simp: check_dependencies_def Let_def)
qed

lemma apply_dependencies_Inr:
  "apply_dependencies now task_id task us d = Inr d' \<longleftrightarrow>
     (\<exists>c. check_dependencies task_id task us d = Inr c \<and>
          d' = write_task now (t_id task) (with_dependencies us c) d)"
  unfolding apply_dependencies_def sum_bind_Inr by auto

lemma apply_dependencies_ok:
  assumes "db_ok d" "find_task q i d = Some task" "apply_dependencies now task_id task us d = Inr d'"
  shows "db_ok d'"
proof -
  have i: "t_id task = i" using find_task_Some [OF assms(2)] by simp
  from assms(3) obtain c where "d' = write_task now i (with_dependencies us c) d"
    unfolding apply_dependencies_Inr i by blast
  then show ?thesis
    by (simp only:) (rule db_ok_write_found [OF assms(1,2)], auto simp: task_ok_def with_dependencies_def)
qed

lemma mcp_set_task_dependencies_ok:
  "db_ok d \<Longrightarrow> db_ok (snd (mcp_set_task_dependencies cx task_id depends_on d))"
  unfolding mcp_set_task_dependencies_def
  by (rule transact_ok) (auto simp: sum_bind_Inr split: if_splits intro: apply_dependencies_ok)

lemma mcp_dependencies_applied:
  assumes "mcp_set_task_dependencies cx task_id deps d = (Inr r, d')"
  obtains i task vs us where "parse_uuid task_id = Inr i" "find_task live_task i d = Some task"
    "deps = Some (JList vs)" "parse_dependencies vs = Inr us" "i \<notin> set us"
    "apply_dependencies (cx_now cx) task_id task us d = Inr d'"
proof -
  have "\<exists>i task vs us. parse_id ''task_id'' task_id = Inr i \<and> deps = Some (JList vs) \<and>
      parse_dependencies vs = Inr us \<and> i \<notin> set us \<and> find_task live_task i d = Some task \<and>
      apply_dependencies (cx_now cx) task_id task us d = Inr d'"
  proof -
    have "\<exists>x. sum_bind (require_caller_user_id cx) (\<lambda>_.
        sum_bind (parse_id ''task_id'' task_id) (\<lambda>task_uuid.
        sum_bind (found (InvalidJson ''depends_on'') deps) (\<lambda>v.
        sum_bind (case v of JList vs \<Rightarrow> Inr vs | _ \<Rightarrow> Inl NotArray) (\<lambda>dep_ids_raw.
        sum_bind (parse_dependencies dep_ids_raw) (\<lambda>dep_uuids.
        if task_uuid \<in> set dep_uuids then Inl SelfDependency
        else
          sum_bind (found (TaskNotFound task_id) (find_task live_task task_uuid d)) (\<lambda>task.
          sum_bind (apply_dependencies (cx_now cx) task_id task dep_uuids d) (\<lambda>d'.
          Inr (task_view cx task_agent_name task_uuid d', d')))))))) = Inr (x, d')"
      using assms by (auto simp: mcp_set_task_dependencies_def transact_def split: sum.splits)
    then show ?thesis
      by (auto simp: sum_bind_Inr split: if_splits json.splits)
  qed
  then obtain i task vs us where "parse_id ''task_id'' task_id = Inr i" "deps = Some (JList vs)"
    "parse_dependencies vs = Inr us" "i \<notin> set us" "find_task live_task i d = Some task"
    "apply_dependencies (cx_now cx) task_id task us d = Inr d'" by blast
  moreover from this(1) have "parse_uuid task_id = Inr i"
    by (auto simp: parse_id_def split: sum.splits)
  ultimately show ?thesis by (intro that)
qed

lemma mcp_choose_task_found:
  assumes "mcp_choose_task locked project_id p wanted d = Inr task"
  shows "task \<in> set (db_tasks d) \<and> mcp_claimable locked p task"
proof (cases wanted)
  case None
  with assms obtain ts where "order_tasks (filter (mcp_claimable locked p) (db_tasks d)) = task # ts"
    by (auto simp: mcp_choose_task_def split: list.splits)
  then have "task \<in> set (order_tasks (filter (mcp_claimable locked p) (db_tasks d)))" by simp
  then show ?thesis by simp
next
  case (Some w)
  with assms show ?thesis
    by (auto simp: mcp_choose_task_def dest: find_task_Some split: prod.splits)
qed

lemma mcp_claim_task_ok: "db_ok d \<Longrightarrow> db_ok (snd (mcp_claim_task cx locked project_id task_id d))"
  unfolding mcp_claim_task_def
proof (rule transact_ok)
  fix r d'
  assume d: "db_ok d"
  assume "sum_bind (require_caller_user_id cx) (\<lambda>_.
        sum_bind (parse_id ''project_id'' project_id) (\<lambda>proj_uuid.
        sum_bind (parse_optional_id ''task_id'' task_id) (\<lambda>wanted.
        sum_bind (mcp_choose_task locked project_id proj_uuid wanted d) (\<lambda>task.
          let d' = write_task (cx_now cx) (t_id task) (\<lambda>t. t\<lparr>t_status := IN_PROGRESS\<rparr>) d
          in Inr (task_view cx task_agent_name (t_id task) d', d'))))) = Inr (r, d')"
  then obtain p wanted task where c: "mcp_choose_task locked project_id p wanted d = Inr task"
    and d': "d' = write_task (cx_now cx) (t_id task) (\<lambda>t. t\<lparr>t_status := IN_PROGRESS\<rparr>) d"
    by (auto simp: sum_bind_Inr Let_def)
  have t: "task \<in> set (db_tasks d)" "t_status task = READY"
    using mcp_choose_task_found [OF c] by (auto simp: mcp_claimable_def)
  show "db_ok d'" unfolding d'
  proof (rule db_ok_write_task [OF d])
    fix t assume "t \<in> set (db_tasks d)" "t_id t = t_id task" "task_ok t"
    then have "t = task" using same_id_same_task [OF d] t(1) by blast
    with \<open>task_ok t\<close> t(2) show "task_ok (t\<lparr>t_status := IN_PROGRESS\<rparr>)" by (auto simp: task_ok_def)
  qed simp
qed

lemma mcp_resume_failed_task_ok:
  assumes "db_ok d" shows "db_ok (snd (mcp_resume_failed_task cx task_id d))"
  unfolding mcp_resume_failed_task_def
proof (rule transact_ok [OF assms])
  fix r d'
  assume "sum_bind (require_caller_user_id cx) (\<lambda>_.
        sum_bind (parse_id ''task_id'' task_id) (\<lambda>task_uuid.
          (case resume_task (cx_now cx) task_uuid d of
             (Inl e, _) \<Rightarrow> Inl (Raised e)
           | (Inr outcome, d') \<Rightarrow> Inr (outcome, d')))) = Inr (r, d')"
  then obtain i where i: "(case resume_task (cx_now cx) i d of
      (Inl e, _) \<Rightarrow> Inl (Raised e) | (Inr outcome, d') \<Rightarrow> Inr (outcome, d')) = Inr (r, d')"
    unfolding sum_bind_Inr by blast
  obtain a b where ab: "resume_task (cx_now cx) i d = (a, b)" by (rule prod.exhaust)
  with i have "b = d'" by (cases a) simp_all
  then show "db_ok d'" using resume_ok [OF assms, of "cx_now cx" i] ab by simp
qed

subsection \<open>The promotion loop of get_ready_tasks\<close>

definition eligible :: "db \<Rightarrow> agent_task \<Rightarrow> bool" where
  "eligible d t \<longleftrightarrow>
     deps_of t = [] \<or> (case dep_ids t of Inl e \<Rightarrow> False | Inr ids \<Rightarrow> dep_rows_completed ids d)"

interpretation eligible_tasks: promotion eligible
  by unfold_locales (auto simp: eligible_def dep_rows_completed_stable split: sum.splits)

lemma promote_eligible_loop_eq:
  "\<forall>t \<in> set ts. \<exists>ids. dep_ids t = Inr ids \<Longrightarrow>
     promote_eligible_loop now ts n d =
       (let (promoted, d') = eligible_tasks.promoting now ts d in Inr (n + length promoted, d'))"
proof (induction ts arbitrary: n d)
  case Nil
  then show ?case by simp
next
  case (Cons t ts)
  then obtain ids where i: "dep_ids t = Inr ids" by auto
  show ?case
  proof (cases "eligible d t")
    case True
    with i have "promote_eligible_loop now (t # ts) n d =
        promote_eligible_loop now ts (Suc n) (write_task now (t_id t) ready_task d)"
      by (auto simp: eligible_def)
    with True Cons show ?thesis by (simp add: split_def Let_def)
  next
    case False
    with i have "promote_eligible_loop now (t # ts) n d = promote_eligible_loop now ts n d"
      by (auto simp: eligible_def)
    with False Cons show ?thesis by simp
  qed
qed

text \<open>The executor's verdict, restated: nothing to wait for, or all of it completed.\<close>

lemma eligible_iff:
  assumes "db_ok d" "task_ok t"
  shows "eligible d t \<longleftrightarrow> are_dependencies_completed d t = Inr True"
proof (cases "deps_of t = []")
  case True
  then show ?thesis by (simp add: eligible_def are_dependencies_completed_def)
next
  case False
  obtain ids where i: "dep_ids t = Inr ids" using dep_ids_total [OF assms(2)] by blast
  then show ?thesis using dep_rows_completed_eq [OF assms False i] False by (simp add: eligible_def)
qed

definition eligible_candidate :: "uuid \<Rightarrow> agent_task \<Rightarrow> bool" where
  "eligible_candidate p t \<longleftrightarrow> t_project_id t = p \<and> t_status t \<in> {PENDING, BLOCKED} \<and> live_task t"

lemma promote_eligible_eq:
  assumes "db_ok d"
  shows "promote_eligible_loop now (filter (eligible_candidate p) (db_tasks d)) 0 d =
    Inr (length (filter (\<lambda>t. eligible_candidate p t \<and> eligible d t) (db_tasks d)),
         d\<lparr>db_tasks := map (\<lambda>t. if eligible_candidate p t \<and> eligible d t
                                 then ready_task t\<lparr>t_modified_at := now\<rparr> else t) (db_tasks d)\<rparr>)"
proof -
  have "eligible_tasks.promoting now (filter (eligible_candidate p) (db_tasks d)) d =
      (filter (\<lambda>t. eligible_candidate p t \<and> eligible d t) (db_tasks d),
       d\<lparr>db_tasks := map (\<lambda>t. if eligible_candidate p t \<and> eligible d t
                               then ready_task t\<lparr>t_modified_at := now\<rparr> else t) (db_tasks d)\<rparr>)"
    by (rule eligible_tasks.promoting_rows [OF assms]) (auto simp: eligible_candidate_def)
  moreover have "\<forall>t \<in> set (filter (eligible_candidate p) (db_tasks d)). \<exists>ids. dep_ids t = Inr ids"
    using db_ok_task [OF assms] dep_ids_total by auto
  ultimately show ?thesis by (simp add: promote_eligible_loop_eq)
qed

lemma mcp_get_ready_tasks_ok: "db_ok d \<Longrightarrow> db_ok (snd (mcp_get_ready_tasks cx project_id d))"
  unfolding mcp_get_ready_tasks_def
proof (rule transact_ok)
  fix r d'
  assume d: "db_ok d"
  assume "sum_bind (require_caller_user_id cx) (\<lambda>_.
        sum_bind (parse_id ''project_id'' project_id) (\<lambda>proj_uuid.
          let candidates = filter (\<lambda>t. t_project_id t = proj_uuid \<and> t_status t \<in> {PENDING, BLOCKED} \<and>
                                     live_task t) (db_tasks d)
          in sum_bind (raising (promote_eligible_loop (cx_now cx) candidates 0 d)) (\<lambda>(promoted, d').
               let ready = order_tasks (filter (\<lambda>t. t_project_id t = proj_uuid \<and> t_status t = READY \<and>
                                                  live_task t) (db_tasks d'))
               in Inr ((project_id, promoted,
                        map (\<lambda>t. format_task_row (cx_isoformat cx) t (joined_agent_name t d')) ready), d')))) =
      Inr (r, d')"
  then obtain p n where "promote_eligible_loop (cx_now cx) (filter (eligible_candidate p) (db_tasks d)) 0 d = Inr (n, d')"
    by (auto simp: sum_bind_Inr Let_def eligible_candidate_def [abs_def])
  then have "d' = d\<lparr>db_tasks := map (\<lambda>t. if eligible_candidate p t \<and> eligible d t
      then ready_task t\<lparr>t_modified_at := cx_now cx\<rparr> else t) (db_tasks d)\<rparr>"
    unfolding promote_eligible_eq [OF d] by simp
  then show "db_ok d'"
    by (simp only:) (rule db_ok_ready_update [OF d], auto simp: eligible_candidate_def)
qed

end
