(* ===== verification/Project_Create.thy ===== *)
theory Project_Create
  imports Project_Helpers Dep_Graph
begin

text \<open>
  The tools of \<open>ypl/mcp_server/tools/project_tasks.py\<close> that insert rows: \<open>add_project\<close>,
  \<open>add_task_sequence\<close> and \<open>add_tasks\<close>. An element of the parsed JSON array is \<open>None\<close> when
  it is not an object with a title, and otherwise a \<open>task_def\<close>: its fields as
  \<open>td.get(...)\<close> reads them, text where the code expects text. Fresh identifiers
  (\<open>uuid4\<close>) are a function of the position in the batch.
\<close>

section \<open>Arguments\<close>

record task_def =
  td_title :: string
  td_name :: "string option"
  td_description :: "string option"
  td_depends_on :: "string list option"
  td_priority :: "string option"
  td_agent_name :: "string option"
  td_parent_task_id :: "string option"
  td_task_data :: "json option"

datatype tasks_arg = TasksMalformed | TasksNotArray | TaskArray "task_def option list"

record created_task =
  ct_task_id :: string
  ct_name :: "string option"
  ct_title :: string
  ct_status :: agent_task_status
  ct_depends_on :: "string list option"

definition parse_task_defs :: "tasks_arg \<Rightarrow> tool_error + task_def option list" where
  "parse_task_defs tasks =
     (case tasks of
        TasksMalformed \<Rightarrow> Inl (InvalidJson ''tasks'')
      | TasksNotArray \<Rightarrow> Inl NotNonEmptyArray
      | TaskArray tds \<Rightarrow> if tds = [] then Inl NotNonEmptyArray else Inr tds)"

definition agent_of_def :: "task_def \<Rightarrow> db \<Rightarrow> tool_error + uuid option" where
  "agent_of_def td d =
     (case true_string (td_agent_name td) of
        None \<Rightarrow> Inr None
      | Some agent_name \<Rightarrow>
          (case resolve_agent_id_by_name agent_name d of
             None \<Rightarrow> Inl (AgentNotFound agent_name)
           | Some i \<Rightarrow> Inr (Some i)))"

definition priority_of_def :: "task_def \<Rightarrow> tool_error + agent_task_priority" where
  "priority_of_def td = (case td_priority td of None \<Rightarrow> Inr NORMAL | Some p \<Rightarrow> parse_priority p)"

section \<open>add_project\<close>

definition mcp_add_project ::
  "tool_ctx \<Rightarrow> string \<Rightarrow> uuid \<Rightarrow> string \<Rightarrow> string option \<Rightarrow> string option \<Rightarrow> db \<Rightarrow>
     (tool_error + py_dict) \<times> db" where
  "mcp_add_project cx default_channel fresh name description slack_channel d =
     transact d
       (sum_bind (require_caller_user_id cx) (\<lambda>creator_user_id.
          let effective_channel = (case true_string slack_channel of
                                     Some s \<Rightarrow> py_strip s | None \<Rightarrow> default_channel);
              project = (new_project (cx_now cx) fresh)\<lparr>p_name := name, p_description := description,
                          p_creator_user_id := Some creator_user_id, p_slack_channel := Some effective_channel\<rparr>
          in Inr (format_project (cx_isoformat cx) project None, insert_project project d)))"

section \<open>add_task_sequence\<close>

definition check_project_exists :: "string \<Rightarrow> uuid \<Rightarrow> db \<Rightarrow> tool_error + unit" where
  "check_project_exists project_id proj_uuid d =
     (case find_project live_project proj_uuid d of
        None \<Rightarrow> Inl (ProjectNotFound project_id) | Some _ \<Rightarrow> Inr ())"

definition check_parent :: "string \<Rightarrow> uuid \<Rightarrow> uuid \<Rightarrow> db \<Rightarrow> tool_error + unit" where
  "check_parent parent_task_id parent_uuid proj_uuid d =
     (case find_task live_task parent_uuid d of
        None \<Rightarrow> Inl (ParentTaskNotFound parent_task_id)
      | Some parent \<Rightarrow> if t_project_id parent \<noteq> proj_uuid then Inl ParentInOtherProject else Inr ())"

definition parse_parent :: "string option \<Rightarrow> tool_error + (string \<times> uuid) option" where
  "parse_parent s =
     (case true_string s of
        None \<Rightarrow> Inr None
      | Some x \<Rightarrow> sum_bind (parse_id ''parent_task_id'' x) (\<lambda>u. Inr (Some (x, u))))"

definition sequence_task ::
  "int \<Rightarrow> uuid \<Rightarrow> uuid \<Rightarrow> uuid option \<Rightarrow> uuid option \<Rightarrow> task_def \<Rightarrow> agent_task_priority \<Rightarrow>
     uuid option \<Rightarrow> agent_task" where
  "sequence_task now fresh proj_uuid parent_uuid prev_task_id td priority agent_id =
     (new_task now fresh proj_uuid)
       \<lparr>t_parent_task_id := parent_uuid, t_title := td_title td, t_description := td_description td,
        t_status := (if prev_task_id = None then READY else BLOCKED), t_priority := priority,
        t_agent_id := agent_id,
        t_depends_on := (case prev_task_id of None \<Rightarrow> None | Some p \<Rightarrow> Some [str_uuid p]),
        t_task_data := td_task_data td\<rparr>"

fun sequence_loop ::
  "int \<Rightarrow> (nat \<Rightarrow> uuid) \<Rightarrow> uuid \<Rightarrow> uuid option \<Rightarrow> nat \<Rightarrow> uuid option \<Rightarrow> task_def option list \<Rightarrow>
     created_task list \<Rightarrow> db \<Rightarrow> tool_error + created_task list \<times> db" where
  "sequence_loop now fresh proj_uuid parent_uuid i prev_task_id [] created d = Inr (created, d)"
| "sequence_loop now fresh proj_uuid parent_uuid i prev_task_id (None # tds) created d = Inl (TitleMissing i)"
| "sequence_loop now fresh proj_uuid parent_uuid i prev_task_id (Some td # tds) created d =
     sum_bind (agent_of_def td d) (\<lambda>agent_id.
     sum_bind (priority_of_def td) (\<lambda>priority.
       let task = sequence_task now (fresh i) proj_uuid parent_uuid prev_task_id td priority agent_id
       in sequence_loop now fresh proj_uuid parent_uuid (Suc i) (Some (t_id task)) tds
            (created @ [\<lparr>ct_task_id = str_uuid (t_id task), ct_name = None, ct_title = t_title task,
                         ct_status = t_status task, ct_depends_on = t_depends_on task\<rparr>])
            (insert_task task d)))"

definition mcp_add_task_sequence ::
  "tool_ctx \<Rightarrow> (nat \<Rightarrow> uuid) \<Rightarrow> string \<Rightarrow> tasks_arg \<Rightarrow> string option \<Rightarrow> db \<Rightarrow>
     (tool_error + string \<times> created_task list) \<times> db" where
  "mcp_add_task_sequence cx fresh project_id tasks parent_task_id d =
     transact d
       (sum_bind (require_caller_user_id cx) (\<lambda>_.
        sum_bind (parse_id ''project_id'' project_id) (\<lambda>proj_uuid.
        sum_bind (parse_parent parent_task_id) (\<lambda>parent.
        sum_bind (parse_task_defs tasks) (\<lambda>task_defs.
        sum_bind (check_project_exists project_id proj_uuid d) (\<lambda>_.
        sum_bind (case parent of None \<Rightarrow> Inr () | Some (s, u) \<Rightarrow> check_parent s u proj_uuid d) (\<lambda>_.
        sum_bind (sequence_loop (cx_now cx) fresh proj_uuid (map_option snd parent) 0 None task_defs [] d)
          (\<lambda>(created, d'). Inr ((project_id, created), d')))))))))"

section \<open>add_tasks\<close>

text \<open>Required fields and unique names; the result is the list of definitions.\<close>

fun validate_task_defs ::
  "nat \<Rightarrow> string list \<Rightarrow> task_def option list \<Rightarrow> tool_error + task_def list" where
  "validate_task_defs i names_seen [] = Inr []"
| "validate_task_defs i names_seen (None # tds) = Inl (TitleMissing i)"
| "validate_task_defs i names_seen (Some td # tds) =
     (case true_string (td_name td) of
        None \<Rightarrow> Inl (NameMissing i)
      | Some name \<Rightarrow>
          if name \<in> set names_seen then Inl (DuplicateTaskName name)
          else sum_bind (validate_task_defs (Suc i) (name # names_seen) tds) (\<lambda>rest. Inr (td # rest)))"

abbreviation def_name :: "task_def \<Rightarrow> string" where
  "def_name td \<equiv> or_empty (td_name td)"

abbreviation def_deps :: "task_def \<Rightarrow> string list" where
  "def_deps td \<equiv> or_empty (td_depends_on td)"

definition local_deps :: "task_def list \<Rightarrow> string adjacency" where
  "local_deps tds =
     (let names_seen = map def_name tds
      in map (\<lambda>td. (def_name td, filter (\<lambda>x. x \<in> set names_seen) (def_deps td))) tds)"

text \<open>The identifiers among the references that are not names of the batch.\<close>

definition external_deps :: "task_def list \<Rightarrow> uuid list" where
  "external_deps tds =
     remdups (concat (map (\<lambda>td. concat (map (\<lambda>dep_ref.
       if dep_ref \<in> set (map def_name tds) then []
       else (case parse_uuid dep_ref of Inl e \<Rightarrow> [] | Inr u \<Rightarrow> [u])) (def_deps td))) tds))"

definition check_external_deps :: "task_def list \<Rightarrow> uuid \<Rightarrow> db \<Rightarrow> tool_error + unit" where
  "check_external_deps tds proj_uuid d =
     (let missing = filter (\<lambda>u. find_task (\<lambda>t. t_project_id t = proj_uuid \<and> live_task t) u d = None)
                      (external_deps tds)
      in if missing = [] then Inr () else Inl (ExternalDependenciesNotFound missing))"

text \<open>First pass: every task is inserted as \<open>PENDING\<close>, to get its identifier.\<close>

definition batch_task ::
  "int \<Rightarrow> uuid \<Rightarrow> uuid \<Rightarrow> uuid option \<Rightarrow> task_def \<Rightarrow> agent_task_priority \<Rightarrow> uuid option \<Rightarrow> agent_task" where
  "batch_task now fresh proj_uuid parent_uuid td priority agent_id =
     (new_task now fresh proj_uuid)
       \<lparr>t_parent_task_id := parent_uuid, t_title := td_title td, t_description := td_description td,
        t_priority := priority, t_agent_id := agent_id, t_task_data := td_task_data td\<rparr>"

fun first_pass ::
  "int \<Rightarrow> (nat \<Rightarrow> uuid) \<Rightarrow> uuid \<Rightarrow> nat \<Rightarrow> task_def list \<Rightarrow> db \<Rightarrow> tool_error + (task_def \<times> uuid) list \<times> db" where
  "first_pass now fresh proj_uuid i [] d = Inr ([], d)"
| "first_pass now fresh proj_uuid i (td # tds) d =
     sum_bind (agent_of_def td d) (\<lambda>agent_id.
     sum_bind (priority_of_def td) (\<lambda>priority.
     sum_bind (parse_parent (td_parent_task_id td)) (\<lambda>parent.
     sum_bind (case parent of None \<Rightarrow> Inr () | Some (s, u) \<Rightarrow> check_parent s u proj_uuid d) (\<lambda>_.
       let task = batch_task now (fresh i) proj_uuid (map_option snd parent) td priority agent_id
       in sum_bind (first_pass now fresh proj_uuid (Suc i) tds (insert_task task d)) (\<lambda>(rest, d').
            Inr ((td, t_id task) # rest, d'))))))"

text \<open>Second pass: references become identifiers, and the status follows.\<close>

fun resolve_deps :: "(string \<times> uuid) list \<Rightarrow> string \<Rightarrow> string list \<Rightarrow> tool_error + string list" where
  "resolve_deps name_to_uuid name [] = Inr []"
| "resolve_deps name_to_uuid name (dep_ref # refs) =
     sum_bind
       (case map_of name_to_uuid dep_ref of
          Some u \<Rightarrow> Inr (str_uuid u)
        | None \<Rightarrow> (case parse_uuid dep_ref of
                     Inl e \<Rightarrow> Inl (UnknownDependency dep_ref name)
                   | Inr u \<Rightarrow> Inr dep_ref)) (\<lambda>s.
     sum_bind (resolve_deps name_to_uuid name refs) (\<lambda>ss. Inr (s # ss)))"

fun second_pass ::
  "int \<Rightarrow> (string \<times> uuid) list \<Rightarrow> (task_def \<times> uuid) list \<Rightarrow> db \<Rightarrow> tool_error + created_task list \<times> db" where
  "second_pass now name_to_uuid [] d = Inr ([], d)"
| "second_pass now name_to_uuid ((td, i) # rest) d =
     sum_bind (resolve_deps name_to_uuid (def_name td) (def_deps td)) (\<lambda>resolved_deps.
       let status = (if resolved_deps \<noteq> [] then BLOCKED else READY);
           d1 = write_task now i (\<lambda>t. t\<lparr>t_depends_on := none_if_empty resolved_deps, t_status := status\<rparr>) d
       in sum_bind (second_pass now name_to_uuid rest d1) (\<lambda>(created, d').
            Inr (\<lparr>ct_task_id = str_uuid i, ct_name = Some (def_name td), ct_title = td_title td,
                  ct_status = status, ct_depends_on = none_if_empty resolved_deps\<rparr> # created, d')))"

definition mcp_add_tasks ::
  "tool_ctx \<Rightarrow> (nat \<Rightarrow> uuid) \<Rightarrow> string \<Rightarrow> tasks_arg \<Rightarrow> db \<Rightarrow>
     (tool_error + string \<times> created_task list) \<times> db" where
  "mcp_add_tasks cx fresh project_id tasks d =
     transact d
       (sum_bind (require_caller_user_id cx) (\<lambda>_.
        sum_bind (parse_id ''project_id'' project_id) (\<lambda>proj_uuid.
        sum_bind (parse_task_defs tasks) (\<lambda>elements.
        sum_bind (validate_task_defs 0 [] elements) (\<lambda>tds.
        if batch_cycle (local_deps tds) (map def_name tds) then Inl DependencyCycleInBatch
        else
          sum_bind (check_project_exists project_id proj_uuid d) (\<lambda>_.
          sum_bind (check_external_deps tds proj_uuid d) (\<lambda>_.
          sum_bind (first_pass (cx_now cx) fresh proj_uuid 0 tds d) (\<lambda>(pairs, d1).
          sum_bind (second_pass (cx_now cx) (map (\<lambda>(td, i). (def_name td, i)) pairs) pairs d1)
            (\<lambda>(created, d2). Inr ((project_id, created), d2))))))))))"

section \<open>Insertion keeps the invariant\<close>

text \<open>Identifiers are fresh when they repeat neither each other nor a row of the table.\<close>

definition fresh_ids :: "nat \<Rightarrow> (nat \<Rightarrow> uuid) \<Rightarrow> db \<Rightarrow> bool" where
  "fresh_ids n fresh d \<longleftrightarrow>
     distinct (map fresh [0..<n]) \<and> list_all (\<lambda>k. fresh k \<notin> t_id ` set (db_tasks d)) [0..<n]"

definition batch_size_of :: "tasks_arg \<Rightarrow> nat" where
  "batch_size_of tasks = (case tasks of TaskArray tds \<Rightarrow> length tds | _ \<Rightarrow> 0)"

lemma insert_task_ok:
  "db_ok d \<Longrightarrow> t_id t \<notin> t_id ` set (db_tasks d) \<Longrightarrow> task_ok t \<Longrightarrow> db_ok (insert_task t d)"
  by (auto simp: insert_task_def db_ok_def)

lemma insert_task_frame [simp]:
  "db_tasks (insert_task t d) = db_tasks d @ [t]"
  "db_projects (insert_task t d) = db_projects d"
  "db_agents (insert_task t d) = db_agents d"
  by (simp_all add: insert_task_def)

lemma new_task_simps [simp]:
  "t_id (new_task now i p) = i" "t_project_id (new_task now i p) = p"
  "t_status (new_task now i p) = PENDING" "t_completed_at (new_task now i p) = None"
  "t_depends_on (new_task now i p) = None" "t_deleted_at (new_task now i p) = None"
  by (simp_all add: new_task_def)

lemma mcp_add_project_ok: "db_ok d \<Longrightarrow> db_ok (snd (mcp_add_project cx ch fresh name desc slack d))"
  unfolding mcp_add_project_def
  by (rule transact_ok) (auto simp: sum_bind_Inr insert_project_def db_ok_def Let_def)

text \<open>What a sequence inserts: a chain.\<close>

definition chain_task :: "(nat \<Rightarrow> uuid) \<Rightarrow> uuid \<Rightarrow> nat \<Rightarrow> uuid option \<Rightarrow> nat \<Rightarrow> agent_task \<Rightarrow> bool" where
  "chain_task fresh p i prev k t \<longleftrightarrow>
     t_id t = fresh (i + k) \<and> t_project_id t = p \<and> live_task t \<and> t_completed_at t = None \<and>
     t_depends_on t = (if k = 0 then map_option (\<lambda>u. [str_uuid u]) prev else Some [str_uuid (fresh (i + k - 1))]) \<and>
     t_status t = (if k = 0 \<and> prev = None then READY else BLOCKED)"

lemma chain_task_Suc: "chain_task fresh p (Suc i) (Some (fresh i)) k t \<Longrightarrow> chain_task fresh p i prev (Suc k) t"
  by (auto simp: chain_task_def)

lemma sequence_loop_spec:
  "sequence_loop now fresh p par i prev tds created d = Inr (created', d') \<Longrightarrow>
     \<exists>ts. d' = d\<lparr>db_tasks := db_tasks d @ ts\<rparr> \<and> length ts = length tds \<and>
       (\<forall>k < length ts. chain_task fresh p i prev k (ts ! k)) \<and>
       created' = created @ map (\<lambda>t. \<lparr>ct_task_id = str_uuid (t_id t), ct_name = None, ct_title = t_title t,
         ct_status = t_status t, ct_depends_on = t_depends_on t\<rparr>) ts"
proof (induction tds arbitrary: i prev created d)
  case Nil
  then show ?case by simp
next
  case (Cons td' tds)
  from Cons.prems obtain td where td: "td' = Some td" by (cases td') auto
  with Cons.prems obtain a pr where
    step: "sequence_loop now fresh p par (Suc i) (Some (fresh i)) tds
      (created @ [(\<lambda>t. \<lparr>ct_task_id = str_uuid (t_id t), ct_name = None, ct_title = t_title t,
         ct_status = t_status t, ct_depends_on = t_depends_on t\<rparr>) (sequence_task now (fresh i) p par prev td pr a)])
      (insert_task (sequence_task now (fresh i) p par prev td pr a) d) = Inr (created', d')"
    by (auto simp: sum_bind_Inr Let_def sequence_task_def)
  let ?t = "sequence_task now (fresh i) p par prev td pr a"
  from Cons.IH [OF step] obtain ts where ts: "d' = (insert_task ?t d)\<lparr>db_tasks := (db_tasks d @ [?t]) @ ts\<rparr>"
    "length ts = length tds" "\<forall>k < length ts. chain_task fresh p (Suc i) (Some (fresh i)) k (ts ! k)"
    "created' = (created @ [(\<lambda>t. \<lparr>ct_task_id = str_uuid (t_id t), ct_name = None, ct_title = t_title t,
         ct_status = t_status t, ct_depends_on = t_depends_on t\<rparr>) ?t]) @
       map (\<lambda>t. \<lparr>ct_task_id = str_uuid (t_id t), ct_name = None, ct_title = t_title t,
         ct_status = t_status t, ct_depends_on = t_depends_on t\<rparr>) ts" by auto
  have "chain_task fresh p i prev 0 ?t"
    by (auto simp: chain_task_def sequence_task_def split: option.splits)
  then have "\<forall>k < length (?t # ts). chain_task fresh p i prev k ((?t # ts) ! k)"
    using ts(3) by (auto simp: less_Suc_eq_0_disj nth_Cons' intro: chain_task_Suc)
  with ts show ?case
    by (intro exI [of _ "?t # ts"]) (simp add: insert_task_def)
qed

lemma parse_task_defs_Inr: "parse_task_defs tasks = Inr tds \<longleftrightarrow> tasks = TaskArray tds \<and> tds \<noteq> []"
  by (cases tasks) (auto simp: parse_task_defs_def)

lemma sequence_loop_ok:
  assumes "sequence_loop now fresh p par 0 None tds [] d = Inr (created, d')" "db_ok d"
    and "fresh_ids (length tds) fresh d"
  shows "db_ok d'"
proof -
  from sequence_loop_spec [OF assms(1)] obtain ts where d': "d' = d\<lparr>db_tasks := db_tasks d @ ts\<rparr>"
    and l: "length ts = length tds" and ts: "\<forall>k < length ts. chain_task fresh p 0 None k (ts ! k)" by blast
  have ids: "map t_id ts = map fresh [0..<length tds]"
    by (rule nth_equalityI) (use ts l in \<open>auto simp: chain_task_def\<close>)
  have "distinct (map t_id ts)"
    unfolding ids using assms(3) by (simp add: fresh_ids_def)
  moreover have "set (map t_id ts) \<inter> t_id ` set (db_tasks d) = {}"
    unfolding ids using assms(3) by (auto simp: fresh_ids_def list_all_iff)
  moreover have "task_ok t" if "t \<in> set ts" for t
  proof -
    from that obtain k where "k < length ts" "t = ts ! k" by (auto simp: in_set_conv_nth)
    with ts have "chain_task fresh p 0 None k t" by blast
    then show ?thesis by (auto simp: chain_task_def task_ok_def split: if_splits)
  qed
  ultimately show ?thesis using assms(2) unfolding d' db_ok_def by auto
qed

lemma mcp_add_task_sequence_ok:
  "db_ok d \<Longrightarrow> fresh_ids (batch_size_of tasks) fresh d \<Longrightarrow>
     db_ok (snd (mcp_add_task_sequence cx fresh project_id tasks par d))"
  unfolding mcp_add_task_sequence_def
  by (rule transact_ok) (auto simp: sum_bind_Inr parse_task_defs_Inr batch_size_of_def intro: sequence_loop_ok)

text \<open>What the first pass of a batch inserts, and that the second pass may write it.\<close>

definition inserted_task :: "uuid \<Rightarrow> task_def \<Rightarrow> uuid \<Rightarrow> agent_task \<Rightarrow> bool" where
  "inserted_task p td i t \<longleftrightarrow>
     t_id t = i \<and> t_project_id t = p \<and> live_task t \<and> t_status t = PENDING \<and>
     t_completed_at t = None \<and> t_depends_on t = None \<and> t_title t = td_title td"

lemma first_pass_spec:
  "first_pass now fresh p i tds d = Inr (pairs, d1) \<Longrightarrow>
     pairs = zip tds (map fresh [i..<i + length tds]) \<and>
     (\<exists>ts. d1 = d\<lparr>db_tasks := db_tasks d @ ts\<rparr> \<and> list_all2 (\<lambda>(td, i) t. inserted_task p td i t) pairs ts)"
proof (induction tds arbitrary: i d pairs d1)
  case Nil
  then show ?case by simp
next
  case (Cons td tds)
  from Cons.prems obtain par pr a rest where
    step: "first_pass now fresh p (Suc i) tds (insert_task (batch_task now (fresh i) p par td pr a) d) = Inr (rest, d1)"
    and pairs: "pairs = (td, fresh i) # rest"
    by (auto simp: sum_bind_Inr Let_def batch_task_def)
  let ?t = "batch_task now (fresh i) p par td pr a"
  from Cons.IH [OF step] obtain ts where r: "rest = zip tds (map fresh [Suc i..<Suc i + length tds])"
    and ts: "d1 = (insert_task ?t d)\<lparr>db_tasks := (db_tasks d @ [?t]) @ ts\<rparr>"
      "list_all2 (\<lambda>(td, i) t. inserted_task p td i t) rest ts" by auto
  have "inserted_task p td (fresh i) ?t" by (simp add: inserted_task_def batch_task_def)
  with ts pairs have "d1 = d\<lparr>db_tasks := db_tasks d @ ?t # ts\<rparr> \<and>
      list_all2 (\<lambda>(td, i) t. inserted_task p td i t) pairs (?t # ts)"
    by (simp add: insert_task_def)
  moreover have "pairs = zip (td # tds) (map fresh [i..<i + length (td # tds)])"
  proof -
    have "[i..<i + length (td # tds)] = i # [Suc i..<Suc i + length tds]"
      by (subst upt_conv_Cons) simp_all
    then show ?thesis unfolding pairs r by simp
  qed
  ultimately show ?case by blast
qed

lemma resolve_deps_parse:
  "resolve_deps m name refs = Inr ss \<Longrightarrow> s \<in> set ss \<Longrightarrow> \<exists>u. parse_uuid s = Inr u"
proof (induction refs arbitrary: ss)
  case Nil
  then show ?case by simp
next
  case (Cons r refs)
  then show ?case by (auto simp: sum_bind_Inr split: option.splits sum.splits)
qed

definition open_ids :: "uuid list \<Rightarrow> db \<Rightarrow> bool" where
  "open_ids is d \<longleftrightarrow> (\<forall>t \<in> set (db_tasks d). t_id t \<in> set is \<longrightarrow> \<not> terminal (t_status t))"

lemma second_pass_ok:
  "second_pass now m pairs d = Inr (created, d') \<Longrightarrow> db_ok d \<Longrightarrow> open_ids (map snd pairs) d \<Longrightarrow> db_ok d'"
proof (induction pairs arbitrary: d created)
  case Nil
  then show ?case by simp
next
  case (Cons pair pairs)
  obtain td i where pair: "pair = (td, i)" by (rule prod.exhaust)
  from Cons.prems(1) obtain ss created' where ss: "resolve_deps m (def_name td) (def_deps td) = Inr ss"
    and step: "second_pass now m pairs (write_task now i (\<lambda>t. t\<lparr>t_depends_on := none_if_empty ss,
        t_status := (if ss \<noteq> [] then BLOCKED else READY)\<rparr>) d) = Inr (created', d')"
    by (auto simp: pair sum_bind_Inr Let_def)
  let ?d = "write_task now i (\<lambda>t. t\<lparr>t_depends_on := none_if_empty ss,
        t_status := (if ss \<noteq> [] then BLOCKED else READY)\<rparr>) d"
  have ok: "db_ok ?d"
  proof (rule db_ok_write_task [OF Cons.prems(2)])
    fix t assume "t \<in> set (db_tasks d)" "t_id t = i" "task_ok t"
    then show "task_ok (t\<lparr>t_depends_on := none_if_empty ss, t_status := (if ss \<noteq> [] then BLOCKED else READY)\<rparr>)"
      using Cons.prems(3) resolve_deps_parse [OF ss] by (auto simp: task_ok_def open_ids_def pair)
  qed simp
  have "open_ids (map snd pairs) ?d"
  proof -
    have "\<not> terminal (t_status t)"
      if "t \<in> set (db_tasks ?d)" "t_id t \<in> set (map snd pairs)" for t
    proof -
      from that(1) obtain r where r: "r \<in> set (db_tasks d)" "t_id r = t_id t"
        "t_id r = i \<longrightarrow> t_status t \<in> {BLOCKED, READY}" "t_id r \<noteq> i \<longrightarrow> t = r"
        unfolding in_write_task by (cases "ss = []") auto
      have "\<not> terminal (t_status r)"
        using Cons.prems(3) r(1,2) that(2) by (simp add: open_ids_def)
      then show ?thesis
      proof (cases "t_id r = i")
        case True
        with r(3) have "t_status t = BLOCKED \<or> t_status t = READY" by simp
        then show ?thesis by (elim disjE) simp_all
      next
        case False
        with r(4) have "t = r" by simp
        with \<open>\<not> terminal (t_status r)\<close> show ?thesis by simp
      qed
    qed
    then show ?thesis by (simp add: open_ids_def)
  qed
  from Cons.IH [OF step ok this] show ?case .
qed

lemma validate_task_defs_length: "validate_task_defs i seen es = Inr tds \<Longrightarrow> length tds = length es"
proof (induction i seen es arbitrary: tds rule: validate_task_defs.induct)
  case (3 i seen td es)
  then show ?case by (auto simp: sum_bind_Inr split: option.splits if_splits)
qed simp_all

lemma first_pass_ok:
  assumes "first_pass now fresh p 0 tds d = Inr (pairs, d1)" "db_ok d" "fresh_ids (length tds) fresh d"
  shows "db_ok d1 \<and> open_ids (map snd pairs) d1"
proof -
  from first_pass_spec [OF assms(1)] obtain ts where pairs: "pairs = zip tds (map fresh [0..<length tds])"
    and d1: "d1 = d\<lparr>db_tasks := db_tasks d @ ts\<rparr>"
    and ts: "list_all2 (\<lambda>(td, i) t. inserted_task p td i t) pairs ts" by auto
  have l: "length ts = length tds" using list_all2_lengthD [OF ts] pairs by simp
  have snds: "map snd pairs = map fresh [0..<length tds]" unfolding pairs by (simp add: map_snd_zip)
  have each: "inserted_task p (tds ! k) (fresh k) (ts ! k)" if "k < length ts" for k
    using list_all2_nthD2 [OF ts that] that l by (simp add: pairs)
  have ids: "map t_id ts = map fresh [0..<length tds]"
    by (rule nth_equalityI) (use each l in \<open>auto simp: inserted_task_def\<close>)
  have each': "\<exists>td i. inserted_task p td i t" if "t \<in> set ts" for t
    using that each by (auto simp: in_set_conv_nth)
  have "distinct (map t_id ts)" unfolding ids using assms(3) by (simp add: fresh_ids_def)
  moreover have new: "set (map t_id ts) \<inter> t_id ` set (db_tasks d) = {}"
    unfolding ids using assms(3) by (auto simp: fresh_ids_def list_all_iff)
  moreover have "task_ok t" if "t \<in> set ts" for t
    using each' [OF that] by (auto simp: inserted_task_def task_ok_def)
  ultimately have "db_ok d1" using assms(2) unfolding d1 db_ok_def by auto
  moreover have "open_ids (map snd pairs) d1"
    unfolding open_ids_def snds ids [symmetric] d1 using new each' by (auto simp: inserted_task_def)
  ultimately show ?thesis by blast
qed

lemma mcp_add_tasks_ok:
  assumes "db_ok d" "fresh_ids (batch_size_of tasks) fresh d"
  shows "db_ok (snd (mcp_add_tasks cx fresh project_id tasks d))"
  unfolding mcp_add_tasks_def
proof (rule transact_ok [OF assms(1)])
  fix r d'
  assume "sum_bind (require_caller_user_id cx) (\<lambda>_.
        sum_bind (parse_id ''project_id'' project_id) (\<lambda>proj_uuid.
        sum_bind (parse_task_defs tasks) (\<lambda>elements.
        sum_bind (validate_task_defs 0 [] elements) (\<lambda>tds.
        if batch_cycle (local_deps tds) (map def_name tds) then Inl DependencyCycleInBatch
        else
          sum_bind (check_project_exists project_id proj_uuid d) (\<lambda>_.
          sum_bind (check_external_deps tds proj_uuid d) (\<lambda>_.
          sum_bind (first_pass (cx_now cx) fresh proj_uuid 0 tds d) (\<lambda>(pairs, d1).
          sum_bind (second_pass (cx_now cx) (map (\<lambda>(td, i). (def_name td, i)) pairs) pairs d1)
            (\<lambda>(created, d2). Inr ((project_id, created), d2))))))))) = Inr (r, d')"
  then obtain p es tds pairs d1 created where "tasks = TaskArray es" and v: "validate_task_defs 0 [] es = Inr tds"
    and f: "first_pass (cx_now cx) fresh p 0 tds d = Inr (pairs, d1)"
    and s: "second_pass (cx_now cx) (map (\<lambda>(td, i). (def_name td, i)) pairs) pairs d1 = Inr (created, d')"
    unfolding sum_bind_Inr by (auto simp: sum_bind_Inr parse_task_defs_Inr split: if_splits prod.splits)
  then have "fresh_ids (length tds) fresh d"
    using assms(2) validate_task_defs_length [OF v] by (simp add: batch_size_of_def)
  from first_pass_ok [OF f assms(1) this] show "db_ok d'" using second_pass_ok [OF s] by blast
qed

end
