(* ===== verification/Task_Graph.thy ===== *)
theory Task_Graph
  imports Project_Lifecycle Project_Create
begin

text \<open>
  The dependency graph of a project, read from the rows: an edge from a live task of the
  project to every identifier its \<open>depends_on\<close> column names. The tools detect cycles on texts;
  the lemmas here relate those checks to this graph.
\<close>

section \<open>The graph\<close>

definition dep_edges :: "uuid \<Rightarrow> db \<Rightarrow> (uuid \<times> uuid) set" where
  "dep_edges p d =
     {(t_id t, u) | t s u. t \<in> set (db_tasks d) \<and> t_project_id t = p \<and> live_task t \<and>
        s \<in> set (deps_of t) \<and> parse_uuid s = Inr u}"

lemma dep_edgesI:
  "t \<in> set (db_tasks d) \<Longrightarrow> t_id t = a \<Longrightarrow> t_project_id t = p \<Longrightarrow> live_task t \<Longrightarrow> s \<in> set (deps_of t) \<Longrightarrow>
     parse_uuid s = Inr b \<Longrightarrow> (a, b) \<in> dep_edges p d"
  unfolding dep_edges_def by blast

definition canonical_deps :: "uuid \<Rightarrow> db \<Rightarrow> bool" where
  "canonical_deps p d \<longleftrightarrow>
     (\<forall>t \<in> set (db_tasks d). t_project_id t = p \<longrightarrow> live_task t \<longrightarrow> list_all canonical (deps_of t))"

definition text_edges :: "(uuid \<times> uuid) set \<Rightarrow> (string \<times> string) set" where
  "text_edges r = map_prod str_uuid str_uuid ` r"

lemma text_edges_iff [simp]: "(str_uuid a, str_uuid b) \<in> text_edges r \<longleftrightarrow> (a, b) \<in> r"
  by (auto simp: text_edges_def)

lemma text_edges_trancl:
  "(x, y) \<in> (text_edges r)\<^sup>+ \<Longrightarrow> \<exists>a b. x = str_uuid a \<and> y = str_uuid b \<and> (a, b) \<in> r\<^sup>+"
proof (induction rule: trancl_induct)
  case (base y)
  then show ?case by (auto simp: text_edges_def)
next
  case (step y z)
  then obtain a b where ab: "x = str_uuid a" "y = str_uuid b" "(a, b) \<in> r\<^sup>+" by blast
  with step(2) obtain c where "z = str_uuid c" "(b, c) \<in> r" by (auto simp: text_edges_def)
  from ab(3) this(2) have "(a, c) \<in> r\<^sup>+" by (rule trancl_into_trancl)
  with ab(1) \<open>z = str_uuid c\<close> show ?case by blast
qed

lemma trancl_text_edges: "(a, b) \<in> r\<^sup>+ \<Longrightarrow> (str_uuid a, str_uuid b) \<in> (text_edges r)\<^sup>+"
  by (induction rule: trancl_induct) (auto intro: trancl_into_trancl)

lemma acyclic_text_edges: "acyclic (text_edges r) \<longleftrightarrow> acyclic r"
proof
  assume "acyclic (text_edges r)"
  then show "acyclic r" unfolding acyclic_def using trancl_text_edges by blast
next
  assume a: "acyclic r"
  have "(x, x) \<notin> (text_edges r)\<^sup>+" for x
  proof
    assume "(x, x) \<in> (text_edges r)\<^sup>+"
    then obtain a b where "x = str_uuid a" "x = str_uuid b" "(a, b) \<in> r\<^sup>+"
      by (blast dest: text_edges_trancl)
    with a show False by (auto simp: acyclic_def)
  qed
  then show "acyclic (text_edges r)" by (simp add: acyclic_def)
qed

section \<open>The graph the tool builds\<close>

abbreviation stored_graph :: "uuid \<Rightarrow> db \<Rightarrow> string adjacency" where
  "stored_graph p d \<equiv> map (\<lambda>t. (str_uuid (t_id t), deps_of t))
     (filter (\<lambda>t. t_project_id t = p \<and> live_task t) (db_tasks d))"

lemma succs_stored:
  assumes "db_ok d" "t \<in> set (db_tasks d)" "t_project_id t = p" "live_task t"
  shows "succs (stored_graph p d) (str_uuid (t_id t)) = deps_of t"
proof -
  have "map fst (stored_graph p d) = map str_uuid (map t_id (filter (\<lambda>t. t_project_id t = p \<and> live_task t) (db_tasks d)))"
    by simp
  moreover have "distinct (map t_id (filter (\<lambda>t. t_project_id t = p \<and> live_task t) (db_tasks d)))"
    by (rule distinct_ids_filter [OF assms(1)])
  ultimately have "distinct (map fst (stored_graph p d))"
    by (simp only: distinct_map [of str_uuid]) (auto simp: inj_on_def)
  moreover have "(str_uuid (t_id t), deps_of t) \<in> set (stored_graph p d)" using assms by auto
  ultimately have "map_of (stored_graph p d) (str_uuid (t_id t)) = Some (deps_of t)"
    by (rule map_of_is_SomeI)
  then show ?thesis by (simp add: succs_def)
qed

lemma succs_stored_source:
  assumes "y \<in> set (succs (stored_graph p d) x)"
  obtains t where "t \<in> set (db_tasks d)" "t_project_id t = p" "live_task t" "x = str_uuid (t_id t)" "y \<in> set (deps_of t)"
proof -
  obtain ds where "map_of (stored_graph p d) x = Some ds" "y \<in> set ds"
    using assms by (cases "map_of (stored_graph p d) x") (simp_all add: succs_def)
  then have "(x, ds) \<in> set (stored_graph p d)" by (blast dest: map_of_SomeD)
  then obtain t where "t \<in> set (db_tasks d)" "t_project_id t = p" "live_task t" "x = str_uuid (t_id t)"
    "ds = deps_of t" by auto
  with \<open>y \<in> set ds\<close> show ?thesis by (intro that) auto
qed

lemma canonical_dep: "canonical s \<Longrightarrow> parse_uuid s = Inr u \<Longrightarrow> s = str_uuid u"
  by (simp add: parse_uuid_inverse)

lemma edges_stored:
  assumes "db_ok d" "canonical_deps p d"
  shows "edges (stored_graph p d) = text_edges (dep_edges p d)"
proof (intro set_eqI iffI)
  fix e
  assume "e \<in> edges (stored_graph p d)"
  then obtain x y where e: "e = (x, y)" "y \<in> set (succs (stored_graph p d) x)" by (auto simp: edges_def)
  from e(2) obtain t where t: "t \<in> set (db_tasks d)" "t_project_id t = p" "live_task t"
    "x = str_uuid (t_id t)" "y \<in> set (deps_of t)" by (rule succs_stored_source)
  with assms(2) have "canonical y" by (auto simp: canonical_deps_def list_all_iff)
  then obtain u where "y = str_uuid u" by (rule canonicalE)
  with t e(1) show "e \<in> text_edges (dep_edges p d)" by (auto simp: dep_edges_def intro!: exI)
next
  fix e
  assume "e \<in> text_edges (dep_edges p d)"
  then obtain t s u where t: "t \<in> set (db_tasks d)" "t_project_id t = p" "live_task t"
    "s \<in> set (deps_of t)" "parse_uuid s = Inr u" "e = (str_uuid (t_id t), str_uuid u)"
    by (auto simp: text_edges_def dep_edges_def)
  with assms(2) have "canonical s" by (auto simp: canonical_deps_def list_all_iff)
  then have "s = str_uuid u" using t(5) by (rule canonical_dep)
  with t succs_stored [OF assms(1) t(1-3)] show "e \<in> edges (stored_graph p d)"
    by (simp add: edges_def)
qed

text \<open>Replacing one task's dependencies, on the graph of the rows.\<close>

lemma dep_edges_replaced:
  assumes "db_ok d" "canonical_deps p d" "find_task live_task i d = Some task" "t_project_id task = p"
    and "(a, b) \<in> dep_edges p (write_task now i (with_dependencies us c) d)"
  shows "(str_uuid a, str_uuid b) \<in> edges (dep_graph p (str_uuid i) us d)"
proof -
  from assms(5) obtain t s where t: "t \<in> set (db_tasks (write_task now i (with_dependencies us c) d))"
    "t_id t = a" "t_project_id t = p" "live_task t" "s \<in> set (deps_of t)" "parse_uuid s = Inr b"
    by (auto simp: dep_edges_def)
  from t(1) obtain r where r: "r \<in> set (db_tasks d)"
    "t_id r = i \<and> t = (with_dependencies us c r)\<lparr>t_modified_at := now\<rparr> \<or> t_id r \<noteq> i \<and> t = r"
    by (auto simp: in_write_task)
  from r(2) show ?thesis
  proof
    assume w: "t_id r = i \<and> t = (with_dependencies us c r)\<lparr>t_modified_at := now\<rparr>"
    then have "a = i" "s \<in> set (map str_uuid us)" using t(2,5) by (auto simp: with_dependencies_def)
    moreover from this(2) have "s = str_uuid b" using t(6) by auto
    ultimately show ?thesis by (simp add: edges_def dep_graph_def)
  next
    assume o: "t_id r \<noteq> i \<and> t = r"
    then have "s = str_uuid b"
      using assms(2) r(1) t(3-6) by (intro canonical_dep) (auto simp: canonical_deps_def list_all_iff)
    moreover have "succs (stored_graph p d) (str_uuid a) = deps_of t"
      using succs_stored [OF assms(1), of t p] o r(1) t(2-4) by simp
    ultimately show ?thesis using o t(2,5) by (simp add: edges_def dep_graph_def)
  qed
qed

lemma dep_graph_Cons: "dep_graph p k us d = (k, map str_uuid us) # stored_graph p d"
  by (simp add: dep_graph_def)

lemma edges_drop: "edges ((k, []) # g) \<subseteq> edges g"
  by (auto simp: edges_def split: if_splits)

text \<open>An accepted change keeps the graph free of cycles, for identifiers in canonical form.\<close>

lemma apply_dependencies_acyclic:
  assumes "db_ok d" "canonical_deps p d" "acyclic (dep_edges p d)"
    and "find_task live_task i d = Some task" "t_project_id task = p"
    and "apply_dependencies now (str_uuid i) task us d = Inr d'"
  shows "acyclic (dep_edges p d')"
proof -
  have i: "t_id task = i" using find_task_Some [OF assms(4)] by simp
  from assms(6) obtain c where c: "check_dependencies (str_uuid i) task us d = Inr c"
    and d': "d' = write_task now i (with_dependencies us c) d"
    unfolding apply_dependencies_Inr i by blast
  have g: "acyclic (edges (stored_graph p d))"
    unfolding edges_stored [OF assms(1,2)] acyclic_text_edges by (rule assms(3))
  have "acyclic (edges (dep_graph p (str_uuid i) us d))"
  proof (cases "us = []")
    case True
    then show ?thesis
      using acyclic_subset [OF g edges_drop] by (simp add: dep_graph_Cons)
  next
    case False
    then have "\<not> stack_cycle (dep_graph p (str_uuid i) us d) (str_uuid i)"
      using c assms(5) by (simp add: check_dependencies_Inr)
    then show ?thesis
      unfolding dep_graph_Cons by (rule stack.replace_edges_acyclic [OF g])
  qed
  moreover have "text_edges (dep_edges p d') \<subseteq> edges (dep_graph p (str_uuid i) us d)"
    unfolding d' text_edges_def using dep_edges_replaced [OF assms(1,2,4,5)] by auto
  ultimately have "acyclic (text_edges (dep_edges p d'))" by (rule acyclic_subset)
  then show ?thesis by (simp only: acyclic_text_edges)
qed

text \<open>
  With any other spelling of the identifier the search starts from a text no stored
  dependency equals, so it never reports a cycle.
\<close>

lemma foreign_key_no_cycle:
  assumes "canonical_deps p d" "\<not> canonical task_id"
  shows "\<not> stack_cycle (dep_graph p task_id us d) task_id"
proof
  assume "stack_cycle (dep_graph p task_id us d) task_id"
  then have "(task_id, task_id) \<in> (edges (dep_graph p task_id us d))\<^sup>+" by (simp add: stack_cycle_iff)
  then obtain x where "(x, task_id) \<in> edges (dep_graph p task_id us d)" by (meson tranclD2)
  then have "task_id \<in> set (map str_uuid us) \<or> task_id \<in> set (succs (stored_graph p d) x)"
    by (auto simp: edges_def dep_graph_Cons split: if_splits)
  then have "canonical task_id"
  proof
    assume "task_id \<in> set (succs (stored_graph p d) x)"
    then obtain t where "t \<in> set (db_tasks d)" "t_project_id t = p" "live_task t" "task_id \<in> set (deps_of t)"
      by (rule succs_stored_source)
    with assms(1) show ?thesis by (auto simp: canonical_deps_def list_all_iff)
  qed auto
  with assms(2) show False ..
qed

end
