(* ===== verification/Project_Queries.thy ===== *)
theory Project_Queries
  imports Project_Helpers
begin

text \<open>
  The remaining tools of \<open>ypl/mcp_server/tools/project_tasks.py\<close>: project status and fields,
  task fields, lookups and lists, and the shared state of a project. Read-only tools return
  the database they were given. Rows with equal sort keys keep the table's order.
\<close>

section \<open>set_project_status\<close>

definition owned_project ::
  "tool_ctx \<Rightarrow> string \<Rightarrow> uuid \<Rightarrow> db \<Rightarrow> string \<times> bool \<Rightarrow> tool_error + agent_project" where
  "owned_project cx project_id proj_uuid d auth =
     sum_bind (found (ProjectNotFound project_id) (find_project live_project proj_uuid d)) (\<lambda>project.
     sum_bind (refuse (check_project_ownership project (fst auth) (snd auth))) (\<lambda>_.
     Inr project))"

definition mcp_set_project_status ::
  "tool_ctx \<Rightarrow> string \<Rightarrow> string \<Rightarrow> db \<Rightarrow> (tool_error + string \<times> agent_project_status \<times> py_dict) \<times> db" where
  "mcp_set_project_status cx project_id status d =
     transact d
       (sum_bind (require_caller_user_id cx) (\<lambda>_.
        sum_bind (parse_id ''project_id'' project_id) (\<lambda>proj_uuid.
        sum_bind (found (InvalidStatus status) (project_status_of status)) (\<lambda>target_status.
        sum_bind (resolve_caller_for_project_auth cx) (\<lambda>auth.
        sum_bind (owned_project cx project_id proj_uuid d auth) (\<lambda>project.
          let d' = write_project (cx_now cx) proj_uuid (\<lambda>p. p\<lparr>p_status := target_status\<rparr>) d
          in Inr ((project_id, target_status, get_task_status_summary proj_uuid d'), d')))))))"

section \<open>Lookups\<close>

definition newest_first :: "agent_project list \<Rightarrow> agent_project list" where
  "newest_first = sort_key (\<lambda>p. - p_created_at p)"

definition newest_tasks_first :: "agent_task list \<Rightarrow> agent_task list" where
  "newest_tasks_first = sort_key (\<lambda>t. - t_created_at t)"

text \<open>Projects with their summaries, agent names resolved in one query.\<close>

definition project_list :: "tool_ctx \<Rightarrow> agent_project list \<Rightarrow> db \<Rightarrow> (py_dict \<times> py_dict) list" where
  "project_list cx projects d =
     (let agent_ids = remdups (concat (map (\<lambda>p. case p_default_agent_id p of None \<Rightarrow> [] | Some a \<Rightarrow> [a]) projects));
          agent_names_map = batch_resolve_agent_names agent_ids d
      in map (\<lambda>p. (format_project (cx_isoformat cx) p
                     (case p_default_agent_id p of None \<Rightarrow> None | Some a \<Rightarrow> map_of agent_names_map a),
                   get_task_status_summary (p_id p) d)) projects)"

datatype project_answer = OneProject py_dict py_dict | ManyProjects "(py_dict \<times> py_dict) list"

definition mcp_get_project ::
  "tool_ctx \<Rightarrow> string option \<Rightarrow> string option \<Rightarrow> db \<Rightarrow> tool_error + project_answer" where
  "mcp_get_project cx project_id name d =
     (case (true_string project_id, true_string name) of
        (None, None) \<Rightarrow> Inl NothingToLookUp
      | (Some pid, _) \<Rightarrow>
          sum_bind (parse_id ''project_id'' pid) (\<lambda>proj_uuid.
          sum_bind (found (ProjectNotFound pid) (find_project live_project proj_uuid d)) (\<lambda>project.
          Inr (OneProject
            (format_project (cx_isoformat cx) project
               (case p_default_agent_id project of None \<Rightarrow> None | Some a \<Rightarrow> resolve_agent_name_by_id a d))
            (get_task_status_summary proj_uuid d))))
      | (None, Some n) \<Rightarrow>
          (let projects = newest_first (filter (\<lambda>p. p_name p = n \<and> live_project p) (db_projects d))
           in if projects = [] then Inl (NoneFoundNamed n)
              else Inr (ManyProjects (project_list cx projects d))))"

datatype task_answer = OneTask py_dict | ManyTasks "py_dict list"

definition mcp_get_task ::
  "tool_ctx \<Rightarrow> string option \<Rightarrow> string option \<Rightarrow> string option \<Rightarrow> db \<Rightarrow> tool_error + task_answer" where
  "mcp_get_task cx task_id title project_id d =
     (case (true_string task_id, true_string title) of
        (None, None) \<Rightarrow> Inl NothingToLookUp
      | (Some tid, _) \<Rightarrow>
          sum_bind (parse_id ''task_id'' tid) (\<lambda>task_uuid.
          sum_bind (found (TaskNotFound tid) (find_task live_task task_uuid d)) (\<lambda>task.
          Inr (OneTask (format_task_row (cx_isoformat cx) task (joined_agent_name task d)))))
      | (None, Some ttl) \<Rightarrow>
          sum_bind (case true_string project_id of
                      None \<Rightarrow> Inr None
                    | Some s \<Rightarrow> sum_bind (parse_id ''project_id'' s) (\<lambda>u. Inr (Some u))) (\<lambda>proj.
            let rows = newest_tasks_first (filter (\<lambda>t. t_title t = ttl \<and> live_task t \<and>
                         (case proj of None \<Rightarrow> True | Some u \<Rightarrow> t_project_id t = u)) (db_tasks d))
            in if rows = [] then Inl (NoneFoundNamed ttl)
               else Inr (ManyTasks (map (\<lambda>t. format_task_row (cx_isoformat cx) t (joined_agent_name t d)) rows))))"

text \<open>\<open>if status: ... AgentTaskStatus(status)\<close>\<close>

definition parse_task_filter :: "string option \<Rightarrow> tool_error + agent_task_status option" where
  "parse_task_filter status =
     (case true_string status of
        None \<Rightarrow> Inr None
      | Some s \<Rightarrow> sum_bind (found (InvalidStatus s) (task_status_of s)) (\<lambda>v. Inr (Some v)))"

definition parse_project_filter :: "string option \<Rightarrow> tool_error + agent_project_status option" where
  "parse_project_filter status =
     (case true_string status of
        None \<Rightarrow> Inr None
      | Some s \<Rightarrow> sum_bind (found (InvalidStatus s) (project_status_of s)) (\<lambda>v. Inr (Some v)))"

definition passes :: "'a option \<Rightarrow> 'a \<Rightarrow> bool" where
  "passes status_filter v \<longleftrightarrow> (case status_filter of None \<Rightarrow> True | Some x \<Rightarrow> v = x)"

definition mcp_get_project_tasks ::
  "tool_ctx \<Rightarrow> string \<Rightarrow> string option \<Rightarrow> db \<Rightarrow> tool_error + string \<times> py_dict list \<times> py_dict" where
  "mcp_get_project_tasks cx project_id status d =
     sum_bind (parse_id ''project_id'' project_id) (\<lambda>proj_uuid.
     sum_bind (parse_task_filter status) (\<lambda>status_filter.
       let rows = order_tasks (filter (\<lambda>t. t_project_id t = proj_uuid \<and> live_task t \<and>
                                       passes status_filter (t_status t)) (db_tasks d))
       in Inr (project_id, map (\<lambda>t. format_task_row (cx_isoformat cx) t (joined_agent_name t d)) rows,
               get_task_status_summary proj_uuid d)))"

definition mcp_list_projects ::
  "tool_ctx \<Rightarrow> string option \<Rightarrow> int \<Rightarrow> db \<Rightarrow> tool_error + (py_dict \<times> py_dict) list" where
  "mcp_list_projects cx status limit d =
     sum_bind (parse_project_filter status) (\<lambda>status_filter.
       let n = min (max limit 1) 100;
           projects = take (nat n) (newest_first (filter (\<lambda>p. live_project p \<and> passes status_filter (p_status p))
                        (db_projects d)))
       in Inr (project_list cx projects d))"

section \<open>update_task\<close>

text \<open>\<open>{**task.task_data, **new_data}\<close> when there is data, else \<open>new_data\<close>.\<close>

definition merge_task_data :: "json option \<Rightarrow> json \<Rightarrow> py_error + json option" where
  "merge_task_data old v =
     (case old of
        None \<Rightarrow> Inr (json_column v)
      | Some x \<Rightarrow>
          if \<not> json_true x then Inr (json_column v)
          else (case (x, v) of
                  (JObj a, JObj b) \<Rightarrow> Inr (Some (JObj (dict_merge a b)))
                | _ \<Rightarrow> Inl TypeError))"

record task_update =
  tu_title :: "string option"
  tu_description :: "string option"
  tu_priority :: "string option"
  tu_agent_name :: "string option"
  tu_task_data :: json_arg
  tu_estimated_effort :: "string option"

abbreviation given :: "'a option \<Rightarrow> 'a \<Rightarrow> 'a" where
  "given new old \<equiv> (case new of None \<Rightarrow> old | Some v \<Rightarrow> v)"

definition new_agent_id :: "string option \<Rightarrow> uuid option \<Rightarrow> db \<Rightarrow> tool_error + uuid option" where
  "new_agent_id agent_name current d =
     (case agent_name of
        None \<Rightarrow> Inr current
      | Some n \<Rightarrow>
          if n = [] then Inr None
          else (case resolve_agent_id_by_name n d of
                  None \<Rightarrow> Inl (AgentNotFound n) | Some a \<Rightarrow> Inr (Some a)))"

definition apply_task_update :: "int \<Rightarrow> task_update \<Rightarrow> agent_task \<Rightarrow> db \<Rightarrow> tool_error + db" where
  "apply_task_update now u task d =
     sum_bind (case tu_priority u of None \<Rightarrow> Inr (t_priority task) | Some p \<Rightarrow> parse_priority p) (\<lambda>priority.
     sum_bind (new_agent_id (tu_agent_name u) (t_agent_id task) d) (\<lambda>agent_id.
     sum_bind (case tu_task_data u of
                 Absent \<Rightarrow> Inr (t_task_data task)
               | Malformed \<Rightarrow> Inl (InvalidJson ''task_data'')
               | Parsed v \<Rightarrow> raising (merge_task_data (t_task_data task) v)) (\<lambda>task_data.
     Inr (write_task now (t_id task)
       (\<lambda>t. t\<lparr>t_title := given (tu_title u) (t_title t),
              t_description := (case tu_description u of None \<Rightarrow> t_description t | Some s \<Rightarrow> Some s),
              t_estimated_effort := (case tu_estimated_effort u of None \<Rightarrow> t_estimated_effort t | Some s \<Rightarrow> Some s),
              t_priority := priority, t_agent_id := agent_id, t_task_data := task_data\<rparr>) d))))"

definition mcp_update_task :: "tool_ctx \<Rightarrow> string \<Rightarrow> task_update \<Rightarrow> db \<Rightarrow> (tool_error + py_dict) \<times> db" where
  "mcp_update_task cx task_id u d =
     transact d
       (sum_bind (require_caller_user_id cx) (\<lambda>_.
        sum_bind (parse_id ''task_id'' task_id) (\<lambda>task_uuid.
        sum_bind (resolve_caller_for_project_auth cx) (\<lambda>(caller_user_id, is_admin).
        sum_bind (found (TaskNotFound task_id) (find_task live_task task_uuid d)) (\<lambda>task.
        sum_bind (refuse (check_task_ownership task_id task caller_user_id is_admin d)) (\<lambda>_.
        sum_bind (apply_task_update (cx_now cx) u task d) (\<lambda>d'.
        Inr ((case find_task (\<lambda>_. True) task_uuid d' of
                None \<Rightarrow> [] | Some t \<Rightarrow> format_task_row (cx_isoformat cx) t (task_agent_name t d')), d'))))))))"

section \<open>update_project\<close>

record project_update =
  pu_name :: "string option"
  pu_description :: "string option"
  pu_slack_channel :: "string option"
  pu_default_agent_name :: "string option"
  pu_budget_usd :: "rat option"
  pu_project_data :: json_arg

definition new_budget :: "rat option \<Rightarrow> rat option \<Rightarrow> tool_error + rat option" where
  "new_budget b current =
     (case b of
        None \<Rightarrow> Inr current
      | Some v \<Rightarrow> if v < 0 then Inl NegativeBudget else Inr (if 0 < v then Some v else None))"

definition merge_project_data :: "json_arg \<Rightarrow> py_dict option \<Rightarrow> tool_error + py_dict option" where
  "merge_project_data arg current =
     (case arg of
        Absent \<Rightarrow> Inr current
      | Malformed \<Rightarrow> Inl (InvalidJson ''project_data'')
      | Parsed v \<Rightarrow>
          (case v of
             JObj new_data \<Rightarrow> Inr (Some (if or_empty current \<noteq> [] then dict_merge (or_empty current) new_data else new_data))
           | _ \<Rightarrow> Inl NotObject))"

definition apply_project_update :: "int \<Rightarrow> project_update \<Rightarrow> agent_project \<Rightarrow> db \<Rightarrow> tool_error + db" where
  "apply_project_update now u project d =
     sum_bind (new_agent_id (pu_default_agent_name u) (p_default_agent_id project) d) (\<lambda>agent_id.
     sum_bind (new_budget (pu_budget_usd u) (p_budget_usd project)) (\<lambda>budget.
     sum_bind (merge_project_data (pu_project_data u) (p_project_data project)) (\<lambda>project_data.
     Inr (write_project now (p_id project)
       (\<lambda>p. p\<lparr>p_name := given (pu_name u) (p_name p),
              p_description := (case pu_description u of None \<Rightarrow> p_description p | Some s \<Rightarrow> Some s),
              p_slack_channel := (case pu_slack_channel u of None \<Rightarrow> p_slack_channel p | Some s \<Rightarrow> none_if_empty s),
              p_default_agent_id := agent_id, p_budget_usd := budget, p_project_data := project_data\<rparr>) d))))"

definition mcp_update_project ::
  "tool_ctx \<Rightarrow> string \<Rightarrow> project_update \<Rightarrow> db \<Rightarrow> (tool_error + py_dict \<times> py_dict) \<times> db" where
  "mcp_update_project cx project_id u d =
     transact d
       (sum_bind (require_caller_user_id cx) (\<lambda>_.
        sum_bind (parse_id ''project_id'' project_id) (\<lambda>proj_uuid.
        sum_bind (resolve_caller_for_project_auth cx) (\<lambda>auth.
        sum_bind (owned_project cx project_id proj_uuid d auth) (\<lambda>project.
        sum_bind (apply_project_update (cx_now cx) u project d) (\<lambda>d'.
        Inr ((case find_project (\<lambda>_. True) proj_uuid d' of
                None \<Rightarrow> []
              | Some p \<Rightarrow> format_project (cx_isoformat cx) p
                  (case pu_default_agent_name u of
                     Some n \<Rightarrow> none_if_empty n
                   | None \<Rightarrow> (case p_default_agent_id p of
                                None \<Rightarrow> None | Some a \<Rightarrow> resolve_agent_name_by_id a d')),
              get_task_status_summary proj_uuid d'), d')))))))"

section \<open>Shared state\<close>

datatype state_answer = WholeState py_dict | StateKey string "json option"

definition mcp_get_project_state :: "string \<Rightarrow> string option \<Rightarrow> db \<Rightarrow> tool_error + state_answer" where
  "mcp_get_project_state project_id key d =
     sum_bind (parse_id ''project_id'' project_id) (\<lambda>proj_uuid.
     sum_bind (found (ProjectNotFound project_id) (find_project live_project proj_uuid d)) (\<lambda>project.
       let state = or_empty (p_shared_state project)
       in Inr (case key of None \<Rightarrow> WholeState state | Some k \<Rightarrow> StateKey k (dict_get state k))))"

definition mcp_set_project_state ::
  "tool_ctx \<Rightarrow> string \<Rightarrow> string \<Rightarrow> json option \<Rightarrow> db \<Rightarrow> (tool_error + string \<times> py_dict) \<times> db" where
  "mcp_set_project_state cx project_id key v d =
     transact d
       (sum_bind (require_caller_user_id cx) (\<lambda>_.
        sum_bind (parse_id ''project_id'' project_id) (\<lambda>proj_uuid.
        sum_bind (found (InvalidJson ''value'') v) (\<lambda>parsed_value.
        sum_bind (found (ProjectNotFound project_id) (find_project live_project proj_uuid d)) (\<lambda>project.
          let state = dict_set key parsed_value (or_empty (p_shared_state project))
          in Inr ((key, state),
                  write_project (cx_now cx) proj_uuid (\<lambda>p. p\<lparr>p_shared_state := Some state\<rparr>) d))))))"

end
