(* ===== verification/Project_Service.thy ===== *)
theory Project_Service
  imports Project_Lifecycle Project_Queries
begin

text \<open>
  \<open>ypl/agent_harness_service/projects/project_service.py\<close>: the service layer of the REST
  interface. It repeats the tools' operations scoped to the project in the path, without the
  caller's identity, raising \<open>ValueError\<close> and \<open>LookupError\<close> where the tools answer with an
  error, and with its own promotion of dependents. The names carry the prefix \<open>rest_\<close>.
\<close>

section \<open>Helpers\<close>

definition user_name :: "string option \<Rightarrow> db \<Rightarrow> string option" where
  "user_name user_id d =
     (case true_string user_id of
        None \<Rightarrow> None
      | Some i \<Rightarrow> (case get_row (\<lambda>u. u_id u = i) (db_users d) of None \<Rightarrow> None | Some u \<Rightarrow> u_name u))"

text \<open>\<open>_get_task_summaries_batch\<close>: zeros for every project, filled by the rows of the query.\<close>

definition batch_groups :: "uuid list \<Rightarrow> db \<Rightarrow> (uuid \<times> agent_task_status \<times> nat) list" where
  "batch_groups project_ids d =
     concat (map (\<lambda>p. map (\<lambda>(s, n). (p, s, n)) (status_groups p d)) (remdups project_ids))"

fun batch_fill ::
  "(uuid \<times> agent_task_status \<times> nat) list \<Rightarrow> (uuid \<Rightarrow> py_dict) \<Rightarrow> (uuid \<Rightarrow> nat) \<Rightarrow> (uuid \<Rightarrow> py_dict) \<times> (uuid \<Rightarrow> nat)"
where
  "batch_fill [] summaries totals = (summaries, totals)"
| "batch_fill ((p, s, n) # groups) summaries totals =
     batch_fill groups
       (summaries(p := dict_set (task_status_value s) (JNum (of_nat n)) (summaries p)))
       (totals(p := totals p + n))"

definition get_task_summaries_batch :: "uuid list \<Rightarrow> db \<Rightarrow> (uuid \<times> py_dict) list" where
  "get_task_summaries_batch project_ids d =
     (if project_ids = [] then []
      else (let (summaries, totals) = batch_fill (batch_groups project_ids d)
                  (\<lambda>_. map (\<lambda>s. (task_status_value s, JNum 0)) all_task_statuses) (\<lambda>_. 0)
            in map (\<lambda>p. (p, dict_set ''total'' (JNum (of_nat (totals p))) (summaries p))) project_ids))"

definition format_project_response ::
  "(int \<Rightarrow> string) \<Rightarrow> agent_project \<Rightarrow> string option \<Rightarrow> py_dict \<Rightarrow> bool \<Rightarrow> py_dict" where
  "format_project_response isoformat project name task_summary include_shared_state =
     [(''agent_project_id'', JStr (str_uuid (p_id project))),
      (''name'', JStr (p_name project)),
      (''description'', json_of_option JStr (p_description project)),
      (''status'', JStr (project_status_value (p_status project))),
      (''creator_user_id'', json_of_option JStr (p_creator_user_id project)),
      (''creator_user_name'', json_of_option JStr name),
      (''slack_channel'', json_of_option JStr (p_slack_channel project)),
      (''budget_usd'', json_of_option JNum (p_budget_usd project)),
      (''budget_spent_usd'', JNum (p_budget_spent_usd project)),
      (''created_at'', JStr (isoformat (p_created_at project))),
      (''task_summary'', JObj task_summary)] @
     (if include_shared_state then [(''shared_state'', json_of_option JObj (p_shared_state project))] else [])"

definition format_task_response ::
  "(int \<Rightarrow> string) \<Rightarrow> agent_task \<Rightarrow> string option \<Rightarrow> string option \<Rightarrow> string option \<Rightarrow> py_dict" where
  "format_task_response isoformat task agent_name creator_user_id creator_user_name =
     [(''agent_task_id'', JStr (str_uuid (t_id task))),
      (''agent_project_id'', JStr (str_uuid (t_project_id task))),
      (''title'', JStr (t_title task)),
      (''description'', json_of_option JStr (t_description task)),
      (''status'', JStr (task_status_value (t_status task))),
      (''priority'', JStr (task_priority_name (t_priority task))),
      (''parent_task_id'', json_of_option (\<lambda>u. JStr (str_uuid u)) (t_parent_task_id task)),
      (''depends_on'', json_of_option (\<lambda>ds. JList (map JStr ds)) (t_depends_on task)),
      (''agent_name'', json_of_option JStr agent_name),
      (''agent_id'', json_of_option (\<lambda>u. JStr (str_uuid u)) (t_agent_id task)),
      (''assigned_session_ids'', json_of_option (\<lambda>ds. JList (map JStr ds)) (t_assigned_session_ids task)),
      (''result'', json_of_option id (t_result task)),
      (''task_data'', json_of_option id (t_task_data task)),
      (''estimated_effort'', json_of_option JStr (t_estimated_effort task)),
      (''actual_spending_usd'', json_of_option JNum (t_actual_spending_usd task)),
      (''completed_at'', json_of_option (\<lambda>i. JStr (isoformat i)) (t_completed_at task)),
      (''created_at'', JStr (isoformat (t_created_at task))),
      (''creator_user_id'', json_of_option JStr creator_user_id),
      (''creator_user_name'', json_of_option JStr creator_user_name)]"

text \<open>The response for a task after a commit: agent, then the project's creator.\<close>

definition task_response :: "(int \<Rightarrow> string) \<Rightarrow> uuid \<Rightarrow> uuid \<Rightarrow> db \<Rightarrow> py_dict" where
  "task_response isoformat proj_uuid task_uuid d =
     (case find_task (\<lambda>_. True) task_uuid d of
        None \<Rightarrow> []
      | Some task \<Rightarrow>
          (let creator_user_id = (case find_project (\<lambda>_. True) proj_uuid d of
                                    None \<Rightarrow> None | Some p \<Rightarrow> p_creator_user_id p)
           in format_task_response isoformat task (task_agent_name task d) creator_user_id
                (user_name creator_user_id d)))"

section \<open>Promotion of dependents\<close>

definition dep_statuses :: "uuid list \<Rightarrow> db \<Rightarrow> (uuid \<times> agent_task_status) list" where
  "dep_statuses ids d = map (\<lambda>t. (t_id t, t_status t)) (filter (\<lambda>t. t_id t \<in> set ids) (db_tasks d))"

definition deps_not_unfinished :: "(uuid \<times> agent_task_status) list \<Rightarrow> uuid list \<Rightarrow> bool" where
  "deps_not_unfinished statuses ids \<longleftrightarrow>
     list_all (\<lambda>i. (case map_of statuses i of None \<Rightarrow> COMPLETED | Some s \<Rightarrow> s) = COMPLETED) ids"

definition rest_promote_dependents :: "int \<Rightarrow> uuid \<Rightarrow> uuid \<Rightarrow> db \<Rightarrow> py_error + string list \<times> db" where
  "rest_promote_dependents now completed_task_id project_id d =
     (let task_id_str = str_uuid completed_task_id;
          candidates = filter (\<lambda>t. t_project_id t = project_id \<and> t_status t \<in> {BLOCKED, PENDING} \<and>
                                 live_task t \<and> t_depends_on t \<noteq> None) (db_tasks d);
          relevant_tasks = filter (\<lambda>t. deps_of t \<noteq> [] \<and> task_id_str \<in> set (deps_of t)) candidates
      in if relevant_tasks = [] then Inr ([], d)
         else (case sum_map dep_ids relevant_tasks of
                 Inl e \<Rightarrow> Inl e
               | Inr ids \<Rightarrow>
                   (let statuses = dep_statuses (concat ids) d;
                        promoted = map fst (filter (\<lambda>(t, is). deps_not_unfinished statuses is)
                                     (zip relevant_tasks ids))
                    in Inr (map (\<lambda>t. str_uuid (t_id t)) promoted,
                            fold (\<lambda>t. write_task now (t_id t) (\<lambda>t. t\<lparr>t_status := READY\<rparr>)) promoted d))))"

section \<open>Projects\<close>

definition page :: "int \<Rightarrow> int \<Rightarrow> 'a list \<Rightarrow> 'a list" where
  "page offset limit rows = take (nat limit) (drop (nat offset) rows)"

record 'a listing =
  ls_items :: "'a list"
  ls_total :: nat
  ls_offset :: int
  ls_limit :: int

definition rest_list_projects ::
  "(int \<Rightarrow> string) \<Rightarrow> string option \<Rightarrow> string option \<Rightarrow> int \<Rightarrow> int \<Rightarrow> db \<Rightarrow> tool_error + py_dict listing" where
  "rest_list_projects isoformat status creator_user_id limit offset d =
     sum_bind (parse_project_filter status) (\<lambda>status_filter.
       let limit = min (max limit 1) 100;
           offset = max offset 0;
           matching = filter (\<lambda>p. live_project p \<and> passes status_filter (p_status p) \<and>
             (case true_string creator_user_id of None \<Rightarrow> True | Some c \<Rightarrow> p_creator_user_id p = Some c)) (db_projects d);
           rows = page offset limit (newest_first matching);
           summaries = get_task_summaries_batch (map p_id rows) d
       in Inr \<lparr>ls_items = map (\<lambda>p. format_project_response isoformat p (user_name (p_creator_user_id p) d)
                 (or_empty (map_of summaries (p_id p))) False) rows,
               ls_total = length matching, ls_offset = offset, ls_limit = limit\<rparr>)"

definition rest_find_project :: "string \<Rightarrow> uuid \<Rightarrow> db \<Rightarrow> tool_error + agent_project" where
  "rest_find_project project_id proj_uuid d =
     found (ProjectNotFound project_id) (find_project live_project proj_uuid d)"

text \<open>The detailed response, from the row after the change.\<close>

definition project_response :: "(int \<Rightarrow> string) \<Rightarrow> uuid \<Rightarrow> db \<Rightarrow> py_dict" where
  "project_response isoformat proj_uuid d =
     (case find_project (\<lambda>_. True) proj_uuid d of
        None \<Rightarrow> []
      | Some p \<Rightarrow> format_project_response isoformat p (user_name (p_creator_user_id p) d)
                    (get_task_status_summary proj_uuid d) True)"

definition rest_get_project :: "(int \<Rightarrow> string) \<Rightarrow> string \<Rightarrow> db \<Rightarrow> tool_error + py_dict" where
  "rest_get_project isoformat project_id d =
     sum_bind (raising (parse_uuid project_id)) (\<lambda>proj_uuid.
     sum_bind (rest_find_project project_id proj_uuid d) (\<lambda>project.
     Inr (format_project_response isoformat project (user_name (p_creator_user_id project) d)
            (get_task_status_summary proj_uuid d) True)))"

definition rest_update_project ::
  "(int \<Rightarrow> string) \<Rightarrow> int \<Rightarrow> string \<Rightarrow> string option \<Rightarrow> string option \<Rightarrow> string option \<Rightarrow> db \<Rightarrow>
     (tool_error + py_dict) \<times> db" where
  "rest_update_project isoformat now project_id name description slack_channel d =
     transact d
       (sum_bind (raising (parse_uuid project_id)) (\<lambda>proj_uuid.
        sum_bind (rest_find_project project_id proj_uuid d) (\<lambda>project.
          let d' = write_project now proj_uuid
                (\<lambda>p. p\<lparr>p_name := given name (p_name p),
                       p_description := (case description of None \<Rightarrow> p_description p | Some s \<Rightarrow> Some s),
                       p_slack_channel := (case slack_channel of None \<Rightarrow> p_slack_channel p | Some s \<Rightarrow> none_if_empty s)\<rparr>) d
          in Inr (project_response isoformat proj_uuid d', d'))))"

definition rest_set_project_status ::
  "(int \<Rightarrow> string) \<Rightarrow> int \<Rightarrow> string \<Rightarrow> string \<Rightarrow> db \<Rightarrow> (tool_error + py_dict) \<times> db" where
  "rest_set_project_status isoformat now project_id status d =
     transact d
       (sum_bind (raising (parse_uuid project_id)) (\<lambda>proj_uuid.
        sum_bind (found (InvalidStatus status) (project_status_of status)) (\<lambda>target_status.
        sum_bind (rest_find_project project_id proj_uuid d) (\<lambda>project.
          let d' = write_project now proj_uuid (\<lambda>p. p\<lparr>p_status := target_status\<rparr>) d
          in Inr (project_response isoformat proj_uuid d', d')))))"

section \<open>Tasks\<close>

definition rest_list_tasks ::
  "(int \<Rightarrow> string) \<Rightarrow> string \<Rightarrow> string option \<Rightarrow> string option \<Rightarrow> int \<Rightarrow> int \<Rightarrow> db \<Rightarrow>
     tool_error + py_dict listing \<times> py_dict" where
  "rest_list_tasks isoformat project_id status parent_task_id limit offset d =
     sum_bind (raising (parse_uuid project_id)) (\<lambda>proj_uuid.
     sum_bind (parse_task_filter status) (\<lambda>status_filter.
     sum_bind (case true_string parent_task_id of
                 None \<Rightarrow> Inr None
               | Some s \<Rightarrow> sum_bind (raising (parse_uuid s)) (\<lambda>u. Inr (Some u))) (\<lambda>parent_uuid.
     sum_bind (rest_find_project project_id proj_uuid d) (\<lambda>project.
       let limit = min (max limit 1) 500;
           offset = max offset 0;
           creator_user_id = p_creator_user_id project;
           creator_user_name = user_name creator_user_id d;
           matching = filter (\<lambda>t. t_project_id t = proj_uuid \<and> live_task t \<and> passes status_filter (t_status t) \<and>
             (case parent_uuid of None \<Rightarrow> True | Some u \<Rightarrow> t_parent_task_id t = Some u)) (db_tasks d);
           rows = page offset limit (order_tasks matching)
       in Inr (\<lparr>ls_items = map (\<lambda>t. format_task_response isoformat t (joined_agent_name t d)
                  creator_user_id creator_user_name) rows,
                ls_total = length matching, ls_offset = offset, ls_limit = limit\<rparr>,
               get_task_status_summary proj_uuid d)))))"

text \<open>The row of a task in a project, as every task route looks it up.\<close>

definition rest_find_task :: "string \<Rightarrow> uuid \<Rightarrow> uuid \<Rightarrow> db \<Rightarrow> tool_error + agent_task" where
  "rest_find_task task_id proj_uuid task_uuid d =
     found (TaskNotFound task_id) (find_task (\<lambda>t. t_project_id t = proj_uuid \<and> live_task t) task_uuid d)"

definition rest_get_task ::
  "(int \<Rightarrow> string) \<Rightarrow> string \<Rightarrow> string \<Rightarrow> db \<Rightarrow> tool_error + py_dict" where
  "rest_get_task isoformat project_id task_id d =
     sum_bind (raising (parse_uuid project_id)) (\<lambda>proj_uuid.
     sum_bind (raising (parse_uuid task_id)) (\<lambda>task_uuid.
     sum_bind (rest_find_task task_id proj_uuid task_uuid d) (\<lambda>task.
       let creator_user_id = (case find_project (\<lambda>_. True) proj_uuid d of
                                None \<Rightarrow> None | Some p \<Rightarrow> p_creator_user_id p)
       in Inr (format_task_response isoformat task (joined_agent_name task d) creator_user_id
                 (user_name creator_user_id d)))))"

text \<open>The request's \<open>task_data\<close> is an object or absent, by its declared type.\<close>

definition rest_update_task ::
  "(int \<Rightarrow> string) \<Rightarrow> int \<Rightarrow> string \<Rightarrow> string \<Rightarrow> task_update \<Rightarrow> db \<Rightarrow> (tool_error + py_dict) \<times> db" where
  "rest_update_task isoformat now project_id task_id u d =
     transact d
       (sum_bind (raising (parse_uuid project_id)) (\<lambda>proj_uuid.
        sum_bind (raising (parse_uuid task_id)) (\<lambda>task_uuid.
        sum_bind (rest_find_task task_id proj_uuid task_uuid d) (\<lambda>task.
        sum_bind (apply_task_update now u task d) (\<lambda>d'.
        Inr (task_response isoformat proj_uuid task_uuid d', d'))))))"

definition rest_set_task_status ::
  "int \<Rightarrow> string \<Rightarrow> string \<Rightarrow> string \<Rightarrow> py_dict option \<Rightarrow> db \<Rightarrow>
     (tool_error + string \<times> agent_task_status \<times> string list) \<times> db" where
  "rest_set_task_status now project_id task_id status result d =
     transact d
       (sum_bind (raising (parse_uuid project_id)) (\<lambda>proj_uuid.
        sum_bind (raising (parse_uuid task_id)) (\<lambda>task_uuid.
        sum_bind (found (InvalidStatus status) (task_status_of status)) (\<lambda>target_status.
        sum_bind (rest_find_task task_id proj_uuid task_uuid d) (\<lambda>task.
        sum_bind (raising (validate_task_status_change d task target_status)) (\<lambda>validation_error.
        sum_bind (refuse (map_option StatusRefused validation_error)) (\<lambda>_.
        sum_bind (apply_task_status rest_promote_dependents now task target_status (map_option JObj result) d)
          (\<lambda>(newly_ready, d').
        Inr ((task_id, target_status, newly_ready), d')))))))))"

text \<open>Dependencies given twice with the same text are dropped; the others are parsed in order.\<close>

fun rest_parse_dependencies :: "string list \<Rightarrow> string list \<Rightarrow> tool_error + uuid list" where
  "rest_parse_dependencies seen [] = Inr []"
| "rest_parse_dependencies seen (s # ss) =
     (if s \<in> set seen then rest_parse_dependencies seen ss
      else (case parse_uuid s of
              Inl e \<Rightarrow> Inl (InvalidDependency s)
            | Inr u \<Rightarrow> sum_bind (rest_parse_dependencies (s # seen) ss) (\<lambda>us. Inr (u # us))))"

definition rest_set_task_dependencies ::
  "(int \<Rightarrow> string) \<Rightarrow> int \<Rightarrow> string \<Rightarrow> string \<Rightarrow> string list \<Rightarrow> db \<Rightarrow> (tool_error + py_dict) \<times> db" where
  "rest_set_task_dependencies isoformat now project_id task_id depends_on d =
     transact d
       (sum_bind (raising (parse_uuid project_id)) (\<lambda>proj_uuid.
        sum_bind (raising (parse_uuid task_id)) (\<lambda>task_uuid.
        sum_bind (rest_parse_dependencies [] depends_on) (\<lambda>dep_uuids.
        if task_uuid \<in> set dep_uuids then Inl SelfDependency
        else
          sum_bind (rest_find_task task_id proj_uuid task_uuid d) (\<lambda>task.
          sum_bind (apply_dependencies now task_id task dep_uuids d) (\<lambda>d'.
          Inr (task_response isoformat proj_uuid task_uuid d', d')))))))"

definition rest_restart_task ::
  "(int \<Rightarrow> string) \<Rightarrow> int \<Rightarrow> string \<Rightarrow> string \<Rightarrow> db \<Rightarrow> (tool_error + py_dict) \<times> db" where
  "rest_restart_task isoformat now project_id task_id d =
     transact d
       (sum_bind (raising (parse_uuid project_id)) (\<lambda>proj_uuid.
        sum_bind (raising (parse_uuid task_id)) (\<lambda>task_uuid.
        sum_bind (rest_find_task task_id proj_uuid task_uuid d) (\<lambda>task.
        sum_bind (apply_restart now task d) (\<lambda>d'.
        Inr (task_response isoformat proj_uuid task_uuid d', d'))))))"

text \<open>The check that the task belongs to the project, then the executor's \<open>resume_task\<close>.\<close>

definition rest_resume_task ::
  "int \<Rightarrow> string \<Rightarrow> string \<Rightarrow> db \<Rightarrow> (tool_error + string \<times> string) \<times> db" where
  "rest_resume_task now project_id task_id d =
     transact d
       (sum_bind (raising (parse_uuid project_id)) (\<lambda>proj_uuid.
        sum_bind (raising (parse_uuid task_id)) (\<lambda>task_uuid.
        sum_bind (found (TaskNotFound task_id) (find_task live_task task_uuid d)) (\<lambda>task.
        if t_project_id task \<noteq> proj_uuid then Inl (TaskNotFound task_id)
        else
          (case resume_task now task_uuid d of
             (Inl e, _) \<Rightarrow> Inl (Raised e)
           | (Inr (ResumeQueued session_id sub), d') \<Rightarrow> Inr ((task_id, session_id), d')
           | (Inr refused, _) \<Rightarrow> Inl (ResumeRefused refused))))))"

section \<open>What the service keeps\<close>

lemma apply_task_update_ok:
  assumes "db_ok d" "find_task q i d = Some task" "apply_task_update now u task d = Inr d'"
  shows "db_ok d'"
proof -
  have i: "t_id task = i" using find_task_Some [OF assms(2)] by simp
  from assms(3) obtain pr a td where "d' = write_task now i
      (\<lambda>t. t\<lparr>t_title := given (tu_title u) (t_title t),
              t_description := (case tu_description u of None \<Rightarrow> t_description t | Some s \<Rightarrow> Some s),
              t_estimated_effort := (case tu_estimated_effort u of None \<Rightarrow> t_estimated_effort t | Some s \<Rightarrow> Some s),
              t_priority := pr, t_agent_id := a, t_task_data := td\<rparr>) d"
    unfolding apply_task_update_def sum_bind_Inr i by blast
  then show ?thesis
    by (simp only:) (rule db_ok_write_found [OF assms(1,2)], auto simp: task_ok_def)
qed

lemma mcp_update_task_ok: "db_ok d \<Longrightarrow> db_ok (snd (mcp_update_task cx task_id u d))"
  unfolding mcp_update_task_def
  by (rule transact_ok) (auto simp: sum_bind_Inr intro: apply_task_update_ok)

lemma rest_update_task_ok: "db_ok d \<Longrightarrow> db_ok (snd (rest_update_task isof now project_id task_id u d))"
  unfolding rest_update_task_def
  by (rule transact_ok) (auto simp: sum_bind_Inr rest_find_task_def intro: apply_task_update_ok)

lemma rest_restart_task_ok: "db_ok d \<Longrightarrow> db_ok (snd (rest_restart_task isof now project_id task_id d))"
  unfolding rest_restart_task_def
  by (rule transact_ok) (auto simp: sum_bind_Inr rest_find_task_def intro: apply_restart_ok)

lemma rest_set_task_dependencies_ok:
  "db_ok d \<Longrightarrow> db_ok (snd (rest_set_task_dependencies isof now project_id task_id ds d))"
  unfolding rest_set_task_dependencies_def
  by (rule transact_ok) (auto simp: sum_bind_Inr rest_find_task_def split: if_splits intro: apply_dependencies_ok)

text \<open>The service's promotion in closed form: one update with the verdict on the table before it.\<close>

definition rest_verdict :: "string \<Rightarrow> db \<Rightarrow> agent_task \<Rightarrow> bool" where
  "rest_verdict key d t \<longleftrightarrow>
     key \<in> set (deps_of t) \<and>
     (\<forall>s \<in> set (deps_of t). \<forall>i. parse_uuid s = Inr i \<longrightarrow>
        (\<forall>u \<in> set (db_tasks d). t_id u = i \<longrightarrow> t_status u = COMPLETED))"

lemma map_of_dep_statuses:
  assumes "db_ok d"
  shows "map_of (dep_statuses ids d) i =
    (if i \<in> set ids then map_option t_status (find_task (\<lambda>_. True) i d) else None)"
proof -
  have "map_of (map (\<lambda>t. (t_id t, t_status t)) (filter (\<lambda>t. t_id t \<in> set ids) ts)) i =
      (if i \<in> set ids then map_option t_status (get_row (\<lambda>t. t_id t = i) ts) else None)" for ts :: "agent_task list"
    by (induction ts) auto
  then show ?thesis by (simp add: dep_statuses_def find_task_def)
qed

lemma deps_not_unfinished_iff:
  assumes "db_ok d" "dep_ids t = Inr is" "set is \<subseteq> set ids"
  shows "deps_not_unfinished (dep_statuses ids d) is \<longleftrightarrow>
    (\<forall>s \<in> set (deps_of t). \<forall>i. parse_uuid s = Inr i \<longrightarrow>
        (\<forall>u \<in> set (db_tasks d). t_id u = i \<longrightarrow> t_status u = COMPLETED))"
proof -
  have one: "(case map_of (dep_statuses ids d) i of None \<Rightarrow> COMPLETED | Some s \<Rightarrow> s) = COMPLETED \<longleftrightarrow>
      (\<forall>u \<in> set (db_tasks d). t_id u = i \<longrightarrow> t_status u = COMPLETED)" if "i \<in> set is" for i
  proof (cases "find_task (\<lambda>_. True) i d")
    case None
    have "(case map_of (dep_statuses ids d) i of None \<Rightarrow> COMPLETED | Some s \<Rightarrow> s) = COMPLETED"
      by (simp add: map_of_dep_statuses [OF assms(1)] None)
    with None show ?thesis by (simp add: find_task_None)
  next
    case (Some u)
    then have u: "u \<in> set (db_tasks d)" "t_id u = i" by (auto dest: find_task_Some)
    have "v = u" if "v \<in> set (db_tasks d)" "t_id v = i" for v
      using same_id_same_task [OF assms(1) that(1) u(1)] that(2) u(2) by simp
    then have "(\<forall>v \<in> set (db_tasks d). t_id v = i \<longrightarrow> t_status v = COMPLETED) \<longleftrightarrow> t_status u = COMPLETED"
      using u by blast
    moreover have "i \<in> set ids" using that assms(3) by blast
    ultimately show ?thesis by (simp add: map_of_dep_statuses [OF assms(1)] Some)
  qed
  have "i \<in> set is \<longleftrightarrow> (\<exists>s \<in> set (deps_of t). parse_uuid s = Inr i)" for i
    using assms(2) unfolding dep_ids_def by (rule sum_map_set)
  then show ?thesis unfolding deps_not_unfinished_def list_all_iff using one by blast
qed

lemma filter_zip_fst:
  "list_all2 P xs ys \<Longrightarrow> (\<And>x y. P x y \<Longrightarrow> y \<in> set ys \<Longrightarrow> q (x, y) = v x) \<Longrightarrow>
     map fst (filter q (zip xs ys)) = filter v xs"
  by (induction rule: list_all2_induct) auto

lemma rest_promote_eq:
  assumes "db_ok d"
  shows "rest_promote_dependents now i p d =
    Inr (map (\<lambda>t. str_uuid (t_id t))
           (filter (\<lambda>t. dependent_candidate p t \<and> rest_verdict (str_uuid i) d t) (db_tasks d)),
         d\<lparr>db_tasks := map (\<lambda>t. if dependent_candidate p t \<and> rest_verdict (str_uuid i) d t
                                 then ready_task t\<lparr>t_modified_at := now\<rparr> else t) (db_tasks d)\<rparr>)"
proof -
  let ?key = "str_uuid i"
  let ?p = "\<lambda>t. dependent_candidate p t \<and> rest_verdict ?key d t"
  define relevant where "relevant = filter (\<lambda>t. deps_of t \<noteq> [] \<and> ?key \<in> set (deps_of t))
      (filter (dependent_candidate p) (db_tasks d))"
  have "\<forall>t \<in> set relevant. \<exists>ids. dep_ids t = Inr ids"
    using db_ok_task [OF assms] dep_ids_total by (auto simp: relevant_def)
  then obtain ids where ids: "sum_map dep_ids relevant = Inr ids" using sum_map_total by blast
  then have l2: "list_all2 (\<lambda>t is. dep_ids t = Inr is) relevant ids" by (simp add: sum_map_Inr_iff)
  have "map fst (filter (\<lambda>(t, is). deps_not_unfinished (dep_statuses (concat ids) d) is) (zip relevant ids)) =
      filter (\<lambda>t. \<forall>s \<in> set (deps_of t). \<forall>i. parse_uuid s = Inr i \<longrightarrow>
        (\<forall>u \<in> set (db_tasks d). t_id u = i \<longrightarrow> t_status u = COMPLETED)) relevant"
  proof (rule filter_zip_fst [OF l2])
    fix t "is"
    assume "dep_ids t = Inr is" "is \<in> set ids"
    then have "set is \<subseteq> set (concat ids)" by auto
    with deps_not_unfinished_iff [OF assms \<open>dep_ids t = Inr is\<close>]
    show "(case (t, is) of (t, is) \<Rightarrow> deps_not_unfinished (dep_statuses (concat ids) d) is) =
      (\<forall>s \<in> set (deps_of t). \<forall>i. parse_uuid s = Inr i \<longrightarrow>
        (\<forall>u \<in> set (db_tasks d). t_id u = i \<longrightarrow> t_status u = COMPLETED))" by simp
  qed
  also have "\<dots> = filter ?p (db_tasks d)"
    unfolding relevant_def filter_filter
    by (intro filter_cong) (auto simp: rest_verdict_def)
  finally have promoted: "map fst (filter (\<lambda>(t, is). deps_not_unfinished (dep_statuses (concat ids) d) is)
      (zip relevant ids)) = filter ?p (db_tasks d)" .
  have sub: "t_id t \<in> t_id ` set (filter ?p (db_tasks d)) \<longleftrightarrow> ?p t" if "t \<in> set (db_tasks d)" for t
    using that same_id_same_task [OF assms] by auto
  have rows: "fold (\<lambda>t. write_task now (t_id t) ready_task) (filter ?p (db_tasks d)) d =
      d\<lparr>db_tasks := map (\<lambda>t. if ?p t then ready_task t\<lparr>t_modified_at := now\<rparr> else t) (db_tasks d)\<rparr>"
  proof -
    have "fold (\<lambda>t. write_task now (t_id t) ready_task) (filter ?p (db_tasks d)) d =
      d\<lparr>db_tasks := map (\<lambda>t. if t_id t \<in> t_id ` set (filter ?p (db_tasks d))
                               then ready_task t\<lparr>t_modified_at := now\<rparr> else t) (db_tasks d)\<rparr>"
      by (rule fold_write_tasks [OF distinct_ids_filter [OF assms]]) simp
    also have "map (\<lambda>t. if t_id t \<in> t_id ` set (filter ?p (db_tasks d))
                         then ready_task t\<lparr>t_modified_at := now\<rparr> else t) (db_tasks d) =
      map (\<lambda>t. if ?p t then ready_task t\<lparr>t_modified_at := now\<rparr> else t) (db_tasks d)"
      using sub by (intro map_cong) auto
    finally show ?thesis .
  qed
  have unfold: "rest_promote_dependents now i p d =
      (if relevant = [] then Inr ([], d)
       else (case sum_map dep_ids relevant of
               Inl e \<Rightarrow> Inl e
             | Inr ids \<Rightarrow>
                 (let promoted = map fst (filter (\<lambda>(t, is). deps_not_unfinished (dep_statuses (concat ids) d) is)
                                   (zip relevant ids))
                  in Inr (map (\<lambda>t. str_uuid (t_id t)) promoted,
                          fold (\<lambda>t. write_task now (t_id t) ready_task) promoted d))))"
    unfolding rest_promote_dependents_def relevant_def dependent_candidate_def [abs_def] Let_def by (rule refl)
  show ?thesis
  proof (cases "relevant = []")
    case True
    with ids have "ids = []" by simp
    with promoted True have "filter ?p (db_tasks d) = []" by simp
    with rows True show ?thesis by (simp add: unfold)
  next
    case False
    then show ?thesis unfolding unfold ids by (simp add: promoted rows)
  qed
qed

lemma rest_promote_ok:
  assumes "db_ok d" "rest_promote_dependents now i p d = Inr (newly_ready, d')"
  shows "db_ok d'"
proof -
  have "d' = d\<lparr>db_tasks := map (\<lambda>t. if dependent_candidate p t \<and> rest_verdict (str_uuid i) d t
      then ready_task t\<lparr>t_modified_at := now\<rparr> else t) (db_tasks d)\<rparr>"
    using assms(2) unfolding rest_promote_eq [OF assms(1)] by simp
  then show ?thesis
    by (simp only:) (rule db_ok_ready_update [OF assms(1)], auto simp: dependent_candidate_def)
qed

lemma rest_set_task_status_ok:
  "db_ok d \<Longrightarrow> db_ok (snd (rest_set_task_status now project_id task_id status result d))"
  unfolding rest_set_task_status_def
  by (rule transact_ok)
     (auto simp: sum_bind_Inr rest_find_task_def intro: apply_task_status_ok rest_promote_ok)

lemma rest_resume_task_ok:
  assumes "db_ok d" shows "db_ok (snd (rest_resume_task now project_id task_id d))"
  unfolding rest_resume_task_def
proof (rule transact_ok [OF assms])
  fix r d'
  assume "sum_bind (raising (parse_uuid project_id)) (\<lambda>proj_uuid.
        sum_bind (raising (parse_uuid task_id)) (\<lambda>task_uuid.
        sum_bind (found (TaskNotFound task_id) (find_task live_task task_uuid d)) (\<lambda>task.
        if t_project_id task \<noteq> proj_uuid then Inl (TaskNotFound task_id)
        else
          (case resume_task now task_uuid d of
             (Inl e, _) \<Rightarrow> Inl (Raised e)
           | (Inr (ResumeQueued session_id sub), d') \<Rightarrow> Inr ((task_id, session_id), d')
           | (Inr refused, _) \<Rightarrow> Inl (ResumeRefused refused))))) = Inr (r, d')"
  then obtain i p and task :: agent_task where i: "(if t_project_id task \<noteq> p then Inl (TaskNotFound task_id)
        else
          (case resume_task now i d of
             (Inl e, _) \<Rightarrow> Inl (Raised e)
           | (Inr (ResumeQueued session_id sub), d') \<Rightarrow> Inr ((task_id, session_id), d')
           | (Inr refused, _) \<Rightarrow> Inl (ResumeRefused refused))) = Inr (r, d')"
    unfolding sum_bind_Inr by (elim exE conjE) (rule that)
  obtain a b where ab: "resume_task now i d = (a, b)" by (rule prod.exhaust)
  with i have "b = d'" by (auto split: if_splits sum.splits resume_outcome.splits)
  then show "db_ok d'" using resume_ok [OF assms, of now i] ab by simp
qed

end
