(* ===== verification/Task_Poll.thy ===== *)
theory Task_Poll
  imports Task_Executor "HOL-Library.Sublist"
begin

text \<open>
  The polling loop of \<open>ypl/agent_harness_service/task_executor.py\<close>: the per-project
  capacity check with its cache, the back-off after a refusal of the rate limiter, the alert,
  and \<open>poll_and_execute_ready_tasks\<close>, which chooses the tasks to spawn. The loop
  suspends at every query, and spawned tasks run meanwhile, so what the loop observes at its
  k-th task comes from a \<open>poll_world\<close>: the database, whether the cached count of a
  project is still alive, the answer of the rate limiter, and the number of active turns.
  The rate limiter (Redis) and the cache's expiry (\<open>cachetools\<close>) are parameters.
\<close>

section \<open>Configuration and state\<close>

record poll_config =
  pc_batch_size :: nat
  pc_max_per_project :: nat
  pc_backoff_seconds :: nat
  pc_max_backoff_seconds :: nat
  pc_max_strikes :: nat
  pc_max_executions :: nat

record poll_world =
  pw_db :: "nat \<Rightarrow> db"
  pw_cache_alive :: "nat \<Rightarrow> uuid \<Rightarrow> bool"
  pw_is_allowed :: "nat \<Rightarrow> string \<Rightarrow> bool"
  pw_active_turns :: "nat \<Rightarrow> nat"

text \<open>
  \<open>ps_limited\<close> is \<open>_rate_limited_projects\<close>, \<open>ps_capacity\<close> the capacity cache,
  \<open>ps_cycle\<close> the dictionary \<open>dispatched_this_cycle\<close>; \<open>ps_spawned\<close> lists the
  tasks spawned and \<open>ps_alerts\<close> the alerts spawned, in order.
\<close>

record poll_state =
  ps_limited :: "string \<rightharpoonup> rat \<times> nat"
  ps_capacity :: "uuid \<rightharpoonup> nat"
  ps_cycle :: "uuid \<rightharpoonup> nat"
  ps_spawned :: "agent_task list"
  ps_alerts :: "(uuid \<times> uuid \<times> nat) list"

section \<open>Capacity\<close>

definition in_progress_count :: "db \<Rightarrow> uuid \<Rightarrow> nat" where
  "in_progress_count d project_id =
     count_rows (\<lambda>t. t_project_id t = project_id \<and> t_status t = IN_PROGRESS \<and> live_task t) (db_tasks d)"

definition get_project_in_progress_count ::
  "bool \<Rightarrow> db \<Rightarrow> uuid \<Rightarrow> (uuid \<rightharpoonup> nat) \<Rightarrow> nat \<times> (uuid \<rightharpoonup> nat)" where
  "get_project_in_progress_count alive d project_id cache =
     (case (if alive then cache project_id else None) of
        Some cached \<Rightarrow> (cached, cache)
      | None \<Rightarrow> (let db_count = in_progress_count d project_id
                 in (db_count, cache(project_id \<mapsto> db_count))))"

definition has_project_capacity ::
  "nat \<Rightarrow> bool \<Rightarrow> db \<Rightarrow> uuid \<Rightarrow> nat \<Rightarrow> (uuid \<rightharpoonup> nat) \<Rightarrow> bool \<times> (uuid \<rightharpoonup> nat)" where
  "has_project_capacity max_concurrent alive d project_id extra_in_flight cache =
     (let (db_count, cache') = get_project_in_progress_count alive d project_id cache
      in (db_count + extra_in_flight < max_concurrent, cache'))"

text \<open>\<open>service/state.py\<close>, \<open>has_execution_capacity\<close>\<close>

definition has_execution_capacity :: "nat \<Rightarrow> nat \<Rightarrow> bool" where
  "has_execution_capacity max_executions active_count \<longleftrightarrow> active_count < max_executions"

section \<open>Rate limiting\<close>

definition backoff_seconds :: "poll_config \<Rightarrow> nat \<Rightarrow> nat" where
  "backoff_seconds cfg hits = min (pc_backoff_seconds cfg * 2 ^ (hits - 1)) (pc_max_backoff_seconds cfg)"

definition record_denial :: "poll_config \<Rightarrow> rat \<Rightarrow> agent_task \<Rightarrow> nat \<Rightarrow> poll_state \<Rightarrow> poll_state" where
  "record_denial cfg now task prior_hits st =
     (let new_hits = prior_hits + 1;
          st' = st\<lparr>ps_limited := (ps_limited st)(str_uuid (t_project_id task) \<mapsto>
                    (now + of_nat (backoff_seconds cfg new_hits), new_hits))\<rparr>
      in if pc_max_strikes cfg \<le> new_hits
         then st'\<lparr>ps_alerts := ps_alerts st' @ [(t_project_id task, t_id task, new_hits)]\<rparr>
         else st')"

definition alert_rate_limited_project ::
  "poll_config \<Rightarrow> gateway option \<Rightarrow> uuid \<Rightarrow> uuid \<Rightarrow> nat \<Rightarrow> db \<Rightarrow> posts" where
  "alert_rate_limited_project cfg gw project_id agent_task_id strike_count d =
     (case find_project (\<lambda>_. True) project_id d of
        None \<Rightarrow> []
      | Some project \<Rightarrow>
          (let agent = (case p_default_agent_id project of None \<Rightarrow> None | Some a \<Rightarrow> get_agent_by_id a d);
               next_retry_min = backoff_seconds cfg strike_count div 60;
               text = RateLimitStorm (get_creator_mention (p_shared_state project)) (p_name project)
                        strike_count (int next_retry_min) agent_task_id;
               agent_name = (case agent of Some a \<Rightarrow> a_name a | None \<Rightarrow> ''task-executor'')
           in post_project_slack_update gw project_id agent_name text None d))"

section \<open>The loop\<close>

text \<open>One task that the rate limiter has let through; True says that the loop stops.\<close>

definition spawn_task ::
  "poll_config \<Rightarrow> poll_world \<Rightarrow> nat \<Rightarrow> agent_task \<Rightarrow> poll_state \<Rightarrow> bool \<times> poll_state" where
  "spawn_task cfg w k task st =
     (let project_id = t_project_id task;
          pending_this_cycle = (case ps_cycle st project_id of None \<Rightarrow> 0 | Some n \<Rightarrow> n);
          (capacity, cache) = has_project_capacity (pc_max_per_project cfg) (pw_cache_alive w k project_id)
                                (pw_db w k) project_id pending_this_cycle (ps_capacity st);
          st1 = st\<lparr>ps_capacity := cache\<rparr>
      in if \<not> capacity then (False, st1)
         else if \<not> has_execution_capacity (pc_max_executions cfg) (pw_active_turns w k) then (True, st1)
         else (let st2 = st1\<lparr>ps_spawned := ps_spawned st1 @ [task],
                             ps_cycle := (ps_cycle st1)(project_id \<mapsto> pending_this_cycle + 1)\<rparr>
               in (pc_batch_size cfg \<le> length (ps_spawned st2), st2)))"

definition poll_task ::
  "poll_config \<Rightarrow> poll_world \<Rightarrow> rat \<Rightarrow> nat \<Rightarrow> agent_task \<Rightarrow> poll_state \<Rightarrow> bool \<times> poll_state" where
  "poll_task cfg w now k task st =
     (let project_id_str = str_uuid (t_project_id task);
          attempt = (\<lambda>prior_hits.
            if \<not> pw_is_allowed w k project_id_str
            then (False, record_denial cfg now task prior_hits st)
            else spawn_task cfg w k task (st\<lparr>ps_limited := (ps_limited st)(project_id_str := None)\<rparr>))
      in case ps_limited st project_id_str of
           Some (cooldown_until, prior_hits) \<Rightarrow>
             if now < cooldown_until then (False, st) else attempt prior_hits
         | None \<Rightarrow> attempt 0)"

fun poll_loop ::
  "poll_config \<Rightarrow> poll_world \<Rightarrow> rat \<Rightarrow> nat \<Rightarrow> agent_task list \<Rightarrow> poll_state \<Rightarrow> poll_state" where
  "poll_loop cfg w now k [] st = st"
| "poll_loop cfg w now k (task # tasks) st =
     (case poll_task cfg w now k task st of
        (True, st') \<Rightarrow> st'
      | (False, st') \<Rightarrow> poll_loop cfg w now (Suc k) tasks st')"

text \<open>
  One poll: \<open>clock\<close> is the database clock, \<open>now\<close> the monotonic one. The variables
  \<open>scheduled_count\<close> and \<open>dispatched_this_cycle\<close> start afresh.
\<close>

definition poll_and_execute_ready_tasks ::
  "poll_config \<Rightarrow> poll_world \<Rightarrow> int \<Rightarrow> rat \<Rightarrow> (uuid \<Rightarrow> bool) \<Rightarrow> db \<Rightarrow> poll_state \<Rightarrow> poll_state \<times> db" where
  "poll_and_execute_ready_tasks cfg w clock now locked d st =
     (let d1 = snd (resolve_task_dependencies clock locked d);
          ready_tasks = get_ready_tasks (pc_batch_size cfg * 3) d1
      in (poll_loop cfg w now 0 ready_tasks (st\<lparr>ps_cycle := Map.empty, ps_spawned := []\<rparr>), d1))"

section \<open>Facts about one step\<close>

abbreviation in_cooldown :: "rat \<Rightarrow> poll_state \<Rightarrow> uuid \<Rightarrow> bool" where
  "in_cooldown now st project_id \<equiv>
     (case ps_limited st (str_uuid project_id) of None \<Rightarrow> False | Some (cooldown_until, _) \<Rightarrow> now < cooldown_until)"

abbreviation cycle_count :: "poll_state \<Rightarrow> uuid \<Rightarrow> nat" where
  "cycle_count st project_id \<equiv> (case ps_cycle st project_id of None \<Rightarrow> 0 | Some n \<Rightarrow> n)"

lemma count_in_progress:
  "get_project_in_progress_count alive d project_id cache = (n, cache') \<Longrightarrow>
     (\<forall>p. cache' p = (if p = project_id \<and> cache' \<noteq> cache then Some (in_progress_count d project_id) else cache p)) \<and>
     (n = in_progress_count d project_id \<or> cache project_id = Some n)"
  by (auto simp: get_project_in_progress_count_def Let_def split: option.splits if_splits)

text \<open>
  A step either leaves what was spawned as it is, or appends its task after the cooldown, the
  rate limiter and both capacity checks have let it through.
\<close>

lemma spawn_task_cases:
  assumes "spawn_task cfg w k task st = (stop, st')"
  obtains (kept) n cache where "st' = st\<lparr>ps_capacity := cache\<rparr>"
      "get_project_in_progress_count (pw_cache_alive w k (t_project_id task)) (pw_db w k)
         (t_project_id task) (ps_capacity st) = (n, cache)"
  | (spawned) n cache where
      "get_project_in_progress_count (pw_cache_alive w k (t_project_id task)) (pw_db w k)
         (t_project_id task) (ps_capacity st) = (n, cache)"
      "n + cycle_count st (t_project_id task) < pc_max_per_project cfg"
      "pw_active_turns w k < pc_max_executions cfg"
      "st' = st\<lparr>ps_capacity := cache, ps_spawned := ps_spawned st @ [task],
                ps_cycle := (ps_cycle st)(t_project_id task \<mapsto> cycle_count st (t_project_id task) + 1)\<rparr>"
      "stop = (pc_batch_size cfg \<le> length (ps_spawned st'))"
proof -
  obtain n cache where c: "get_project_in_progress_count (pw_cache_alive w k (t_project_id task)) (pw_db w k)
         (t_project_id task) (ps_capacity st) = (n, cache)" by (rule prod.exhaust)
  show ?thesis
  proof (cases "n + cycle_count st (t_project_id task) < pc_max_per_project cfg \<and>
      pw_active_turns w k < pc_max_executions cfg")
    case True
    with assms c show ?thesis
      by (intro that(2) [of n cache])
         (auto simp: spawn_task_def has_project_capacity_def has_execution_capacity_def Let_def)
  next
    case False
    with assms c show ?thesis
      by (intro that(1) [of cache n])
         (auto simp: spawn_task_def has_project_capacity_def has_execution_capacity_def Let_def
            split: if_splits)
  qed
qed

definition prior_hits_of :: "poll_state \<Rightarrow> uuid \<Rightarrow> nat" where
  "prior_hits_of st project_id =
     (case ps_limited st (str_uuid project_id) of None \<Rightarrow> 0 | Some (_, hits) \<Rightarrow> hits)"

lemma poll_task_cases:
  assumes "poll_task cfg w now k task st = (stop, st')"
  obtains (waits) "in_cooldown now st (t_project_id task)" "\<not> stop" "st' = st"
  | (denied) "\<not> in_cooldown now st (t_project_id task)" "\<not> stop"
      "\<not> pw_is_allowed w k (str_uuid (t_project_id task))"
      "st' = record_denial cfg now task (prior_hits_of st (t_project_id task)) st"
  | (allowed) "\<not> in_cooldown now st (t_project_id task)"
      "pw_is_allowed w k (str_uuid (t_project_id task))"
      "spawn_task cfg w k task
         (st\<lparr>ps_limited := (ps_limited st)(str_uuid (t_project_id task) := None)\<rparr>) = (stop, st')"
  using assms unfolding poll_task_def Let_def prior_hits_of_def
  by (cases "ps_limited st (str_uuid (t_project_id task))") (auto split: if_splits prod.splits)

lemma record_denial_simps [simp]:
  "ps_capacity (record_denial cfg now task h st) = ps_capacity st"
  "ps_cycle (record_denial cfg now task h st) = ps_cycle st"
  "ps_spawned (record_denial cfg now task h st) = ps_spawned st"
  "ps_limited (record_denial cfg now task h st) = (ps_limited st)(str_uuid (t_project_id task) \<mapsto>
     (now + of_nat (backoff_seconds cfg (h + 1)), h + 1))"
  by (simp_all add: record_denial_def Let_def)

text \<open>The rule by which every property of a whole poll is proved: one step at a time.\<close>

lemma poll_loop_invariant:
  assumes "P [] st" "\<not> finished st"
    and "\<And>k seen task st stop st'. P seen st \<Longrightarrow> \<not> finished st \<Longrightarrow> task \<in> set tasks \<Longrightarrow>
           poll_task cfg w now k task st = (stop, st') \<Longrightarrow>
           P (seen @ [task]) st' \<and> (\<not> stop \<longrightarrow> \<not> finished st')"
  shows "\<exists>seen rest. tasks = seen @ rest \<and> P seen (poll_loop cfg w now k tasks st)"
proof -
  have "\<exists>seen rest. ts0 @ ts = seen @ rest \<and> P seen (poll_loop cfg w now k ts st)"
    if "P ts0 st" "tasks = ts0 @ ts" "\<not> finished st" for ts0 ts k st
    using that
  proof (induction ts arbitrary: ts0 k st)
    case Nil
    then show ?case by auto
  next
    case (Cons task ts)
    obtain stop st' where s: "poll_task cfg w now k task st = (stop, st')" by (rule prod.exhaust)
    with Cons.prems have p: "P (ts0 @ [task]) st'" "\<not> stop \<longrightarrow> \<not> finished st'"
      using assms(3) [of ts0 st task k stop st'] by auto
    show ?case
    proof (cases stop)
      case True
      with s p show ?thesis by (intro exI [of _ "ts0 @ [task]"] exI [of _ ts]) simp
    next
      case False
      with Cons.IH [of "ts0 @ [task]" st' "Suc k"] Cons.prems p s show ?thesis by simp
    qed
  qed
  from this [of "[]" st tasks k] assms(1,2) show ?thesis by simp
qed

text \<open>What is spawned, in order, is taken from the tasks seen, and is at most a batch.\<close>

lemma poll_task_spawns:
  assumes "poll_task cfg w now k task st = (stop, st')"
  shows "ps_spawned st' = ps_spawned st \<and> ps_cycle st' = ps_cycle st \<or>
    ps_spawned st' = ps_spawned st @ [task] \<and> stop = (pc_batch_size cfg \<le> length (ps_spawned st'))"
  using assms
proof (cases rule: poll_task_cases)
  case allowed
  from allowed(3) show ?thesis by (cases rule: spawn_task_cases) auto
qed simp_all

lemma poll_loop_spawns:
  assumes "0 < pc_batch_size cfg" "ps_spawned st = []"
  shows "subseq (ps_spawned (poll_loop cfg w now k tasks st)) tasks \<and>
    length (ps_spawned (poll_loop cfg w now k tasks st)) \<le> pc_batch_size cfg"
proof -
  have "\<exists>seen rest. tasks = seen @ rest \<and>
      (\<lambda>seen st. subseq (ps_spawned st) seen \<and> length (ps_spawned st) \<le> pc_batch_size cfg)
        seen (poll_loop cfg w now k tasks st)"
  proof (rule poll_loop_invariant [where finished = "\<lambda>st. pc_batch_size cfg \<le> length (ps_spawned st)"])
    fix k seen task st stop st'
    assume inv: "subseq (ps_spawned st) seen \<and> length (ps_spawned st) \<le> pc_batch_size cfg"
      and room: "\<not> pc_batch_size cfg \<le> length (ps_spawned st)"
      and step: "poll_task cfg w now k task st = (stop, st')"
    show "(subseq (ps_spawned st') (seen @ [task]) \<and> length (ps_spawned st') \<le> pc_batch_size cfg) \<and>
        (\<not> stop \<longrightarrow> \<not> pc_batch_size cfg \<le> length (ps_spawned st'))"
      using poll_task_spawns [OF step] inv room by (auto intro: subseq_order.trans list_emb_append_mono)
  qed (use assms in simp_all)
  then show ?thesis by (auto intro: list_emb_append2 subseq_order.trans)
qed

text \<open>A project in cooldown keeps its entry and gets nothing spawned.\<close>

lemma poll_task_cooldown:
  assumes "poll_task cfg w now k task st = (stop, st')" "in_cooldown now st p"
  shows "ps_limited st' (str_uuid p) = ps_limited st (str_uuid p) \<and>
    (set (ps_spawned st') - set (ps_spawned st) \<subseteq> {t. t_project_id t \<noteq> p})"
  using assms(1)
proof (cases rule: poll_task_cases)
  case denied
  with assms(2) show ?thesis by auto
next
  case allowed
  then have "t_project_id task \<noteq> p" using assms(2) by auto
  with allowed(3) show ?thesis by (cases rule: spawn_task_cases) auto
qed simp

lemma poll_loop_cooldown:
  assumes "in_cooldown now st p" "ps_spawned st = []"
  shows "ps_limited (poll_loop cfg w now k tasks st) (str_uuid p) = ps_limited st (str_uuid p) \<and>
    (\<forall>t \<in> set (ps_spawned (poll_loop cfg w now k tasks st)). t_project_id t \<noteq> p)"
proof -
  have "\<exists>seen rest. tasks = seen @ rest \<and>
      (\<lambda>seen st'. ps_limited st' (str_uuid p) = ps_limited st (str_uuid p) \<and>
        (\<forall>t \<in> set (ps_spawned st'). t_project_id t \<noteq> p)) seen (poll_loop cfg w now k tasks st)"
  proof (rule poll_loop_invariant [where finished = "\<lambda>_. False"])
    fix k seen task st0 stop st'
    assume inv: "ps_limited st0 (str_uuid p) = ps_limited st (str_uuid p) \<and>
        (\<forall>t \<in> set (ps_spawned st0). t_project_id t \<noteq> p)"
      and step: "poll_task cfg w now k task st0 = (stop, st')"
    have "in_cooldown now st0 p" using inv assms(1) by simp
    from poll_task_cooldown [OF step this] inv
    show "(ps_limited st' (str_uuid p) = ps_limited st (str_uuid p) \<and>
        (\<forall>t \<in> set (ps_spawned st'). t_project_id t \<noteq> p)) \<and> (\<not> stop \<longrightarrow> \<not> False)"
      by auto
  qed (use assms in simp_all)
  then show ?thesis by auto
qed

text \<open>
  With a database that does not change and a cache that agrees with it, the running tasks of
  a project and those spawned for it stay within the project's limit.
\<close>

definition spawned_for :: "uuid \<Rightarrow> poll_state \<Rightarrow> nat" where
  "spawned_for p st = count_rows (\<lambda>t. t_project_id t = p) (ps_spawned st)"

definition capacity_inv :: "poll_config \<Rightarrow> db \<Rightarrow> poll_state \<Rightarrow> bool" where
  "capacity_inv cfg d st \<longleftrightarrow>
     (\<forall>p n. ps_capacity st p = Some n \<longrightarrow> n = in_progress_count d p) \<and>
     (\<forall>p. cycle_count st p = spawned_for p st) \<and>
     (\<forall>p. 0 < spawned_for p st \<longrightarrow> in_progress_count d p + spawned_for p st \<le> pc_max_per_project cfg)"

lemma spawn_task_capacity:
  assumes "spawn_task cfg w k task st = (stop, st')" "pw_db w k = d" "capacity_inv cfg d st"
  shows "capacity_inv cfg d st'"
  using assms(1)
proof (cases rule: spawn_task_cases)
  case (kept n cache)
  with count_in_progress [OF kept(2)] assms(2,3) show ?thesis
    by (auto simp: capacity_inv_def spawned_for_def split: if_splits)
next
  case (spawned n cache)
  then have n: "n = in_progress_count d (t_project_id task)"
    using count_in_progress [OF spawned(1)] assms(2,3) by (auto simp: capacity_inv_def)
  have "spawned_for p st' = spawned_for p st + (if p = t_project_id task then 1 else 0)" for p
    using spawned(4) by (simp add: spawned_for_def count_rows_def)
  with spawned n count_in_progress [OF spawned(1)] assms(2,3) show ?thesis
    by (auto simp: capacity_inv_def spawned_for_def split: if_splits)
qed

lemma poll_loop_capacity:
  assumes "\<forall>k. pw_db w k = d" "capacity_inv cfg d st"
  shows "capacity_inv cfg d (poll_loop cfg w now k tasks st)"
proof -
  have "\<exists>seen rest. tasks = seen @ rest \<and>
      (\<lambda>seen st. capacity_inv cfg d st) seen (poll_loop cfg w now k tasks st)"
  proof (rule poll_loop_invariant [where finished = "\<lambda>_. False"])
    fix k seen task st stop st'
    assume inv: "capacity_inv cfg d st" and step: "poll_task cfg w now k task st = (stop, st')"
    from step have "capacity_inv cfg d st'"
    proof (cases rule: poll_task_cases)
      case denied
      with inv show ?thesis by (simp add: capacity_inv_def spawned_for_def)
    next
      case allowed
      have "capacity_inv cfg d (st\<lparr>ps_limited := (ps_limited st)(str_uuid (t_project_id task) := None)\<rparr>)"
        using inv by (simp add: capacity_inv_def spawned_for_def)
      from spawn_task_capacity [OF allowed(3) _ this] assms(1) show ?thesis by simp
    qed (use inv in simp)
    then show "capacity_inv cfg d st' \<and> (\<not> stop \<longrightarrow> \<not> False)" by simp
  qed (use assms in simp_all)
  then show ?thesis by auto
qed

end
