(* ===== verification/Agent_System.thy ===== *)
theory Agent_System
  imports Task_Graph Project_Service Task_Poll
begin

text \<open>
  The whole task system as a state machine over the database: a step is one transaction of
  the executor, of a tool, or of the REST service, in any order and with any arguments, so
  every interleaving of workers and callers is a sequence of steps. Transactions of one
  request that the code runs in separate sessions are separate steps where they can be
  interleaved (claiming, completing, resuming), and \<open>execute_task\<close> is also one step as a
  whole, for a worker that is not interrupted.
\<close>

lemma owned_project_found:
  "owned_project cx project_id i d auth = Inr project \<Longrightarrow> find_project live_project i d = Some project"
  by (auto simp: owned_project_def sum_bind_Inr)

lemma mcp_set_project_status_ok: "db_ok d \<Longrightarrow> db_ok (snd (mcp_set_project_status cx project_id status d))"
  unfolding mcp_set_project_status_def
  by (rule transact_ok) (auto simp: sum_bind_Inr Let_def)

lemma mcp_update_project_ok: "db_ok d \<Longrightarrow> db_ok (snd (mcp_update_project cx project_id u d))"
  unfolding mcp_update_project_def
  by (rule transact_ok) (auto simp: sum_bind_Inr apply_project_update_def)

lemma mcp_set_project_state_ok: "db_ok d \<Longrightarrow> db_ok (snd (mcp_set_project_state cx project_id key v d))"
  unfolding mcp_set_project_state_def
  by (rule transact_ok) (auto simp: sum_bind_Inr Let_def)

lemma rest_update_project_ok: "db_ok d \<Longrightarrow> db_ok (snd (rest_update_project isof now project_id n ds s d))"
  unfolding rest_update_project_def
  by (rule transact_ok) (auto simp: sum_bind_Inr Let_def)

lemma rest_set_project_status_ok: "db_ok d \<Longrightarrow> db_ok (snd (rest_set_project_status isof now project_id s d))"
  unfolding rest_set_project_status_def
  by (rule transact_ok) (auto simp: sum_bind_Inr Let_def)

section \<open>Steps\<close>

inductive executor_step :: "db \<Rightarrow> db \<Rightarrow> bool" where
  recover: "executor_step d (snd (recover_stale_in_progress_tasks now timeout locked d))"
| resolve: "executor_step d (snd (resolve_task_dependencies now locked d))"
| poll: "executor_step d (snd (poll_and_execute_ready_tasks cfg w clock now locked d st))"
| claim: "executor_step d (snd (claim_task now locked i d))"
| execute: "session_service_ok env \<Longrightarrow> execute_task env now locked i d = (r, posted, d') \<Longrightarrow> executor_step d d'"
| complete: "update_task_completion gw now locked i s success result error sub d = (r, posted, d') \<Longrightarrow>
    executor_step d d'"
| resume: "executor_step d (snd (resume_task now i d))"
| restart: "executor_step d (snd (restart_task now i d))"

inductive tool_step :: "db \<Rightarrow> db \<Rightarrow> bool" where
  add_project: "tool_step d (snd (mcp_add_project cx channel i name description slack d))"
| add_task_sequence: "fresh_ids (batch_size_of tasks) fresh d \<Longrightarrow>
    tool_step d (snd (mcp_add_task_sequence cx fresh project_id tasks parent d))"
| add_tasks: "fresh_ids (batch_size_of tasks) fresh d \<Longrightarrow>
    tool_step d (snd (mcp_add_tasks cx fresh project_id tasks d))"
| get_ready: "tool_step d (snd (mcp_get_ready_tasks cx project_id d))"
| set_status: "tool_step d (snd (mcp_set_task_status cx task_id status result d))"
| restart: "tool_step d (snd (mcp_restart_task cx task_id d))"
| set_dependencies: "tool_step d (snd (mcp_set_task_dependencies cx task_id depends_on d))"
| claim: "tool_step d (snd (mcp_claim_task cx locked project_id wanted d))"
| resume: "tool_step d (snd (mcp_resume_failed_task cx task_id d))"
| update_task: "tool_step d (snd (mcp_update_task cx task_id u d))"
| set_project_status: "tool_step d (snd (mcp_set_project_status cx project_id status d))"
| update_project: "tool_step d (snd (mcp_update_project cx project_id pu d))"
| set_state: "tool_step d (snd (mcp_set_project_state cx project_id key v d))"

inductive rest_step :: "db \<Rightarrow> db \<Rightarrow> bool" where
  update_project: "rest_step d (snd (rest_update_project isof now project_id name description slack d))"
| set_project_status: "rest_step d (snd (rest_set_project_status isof now project_id status d))"
| update_task: "rest_step d (snd (rest_update_task isof now project_id task_id u d))"
| set_status: "rest_step d (snd (rest_set_task_status now project_id task_id status result d))"
| set_dependencies: "rest_step d (snd (rest_set_task_dependencies isof now project_id task_id deps d))"
| restart: "rest_step d (snd (rest_restart_task isof now project_id task_id d))"
| resume: "rest_step d (snd (rest_resume_task now project_id task_id d))"

inductive_cases executor_stepE: "executor_step d d'"
inductive_cases tool_stepE: "tool_step d d'"
inductive_cases rest_stepE: "rest_step d d'"

inductive system_step :: "db \<Rightarrow> db \<Rightarrow> bool" where
  executor: "executor_step d d' \<Longrightarrow> system_step d d'"
| tool: "tool_step d d' \<Longrightarrow> system_step d d'"
| rest: "rest_step d d' \<Longrightarrow> system_step d d'"

inductive_simps system_step_iff: "system_step d d'"

inductive reachable :: "db \<Rightarrow> bool" where
  initial: "db_tasks d = [] \<Longrightarrow> reachable d"
| step: "reachable d \<Longrightarrow> system_step d d' \<Longrightarrow> reachable d'"

section \<open>Every step keeps the invariant\<close>

lemma poll_db: "snd (poll_and_execute_ready_tasks cfg w clock now locked d st) = snd (resolve_task_dependencies clock locked d)"
  by (simp add: poll_and_execute_ready_tasks_def Let_def)

lemma executor_step_ok:
  assumes "executor_step d d'" "db_ok d" shows "db_ok d'"
  using assms
  by (cases rule: executor_step.cases)
     (auto simp: recover_stale_ok resolve_ok poll_db claim_task_ok resume_ok restart_task_ok
       intro: execute_ok update_completion_ok)

lemma tool_step_ok:
  assumes "tool_step d d'" "db_ok d" shows "db_ok d'"
  using assms
  by (cases rule: tool_step.cases)
     (auto simp: mcp_add_project_ok mcp_add_task_sequence_ok mcp_add_tasks_ok mcp_get_ready_tasks_ok
       mcp_set_task_status_ok mcp_restart_task_ok mcp_set_task_dependencies_ok mcp_claim_task_ok
       mcp_resume_failed_task_ok mcp_update_task_ok mcp_set_project_status_ok mcp_update_project_ok
       mcp_set_project_state_ok)

lemma rest_step_ok:
  assumes "rest_step d d'" "db_ok d" shows "db_ok d'"
  using assms
  by (cases rule: rest_step.cases)
     (auto simp: rest_update_project_ok rest_set_project_status_ok rest_update_task_ok
       rest_set_task_status_ok rest_set_task_dependencies_ok rest_restart_task_ok rest_resume_task_ok)

lemma system_step_ok: "system_step d d' \<Longrightarrow> db_ok d \<Longrightarrow> db_ok d'"
  unfolding system_step_iff using executor_step_ok tool_step_ok rest_step_ok by blast

lemma reachable_ok: "reachable d \<Longrightarrow> db_ok d"
  by (induction rule: reachable.induct) (auto simp: db_ok_def dest: system_step_ok)

end
