(* ===== verification/Examples.thy ===== *)
theory Examples
  imports Agent_System
begin

text \<open>
  Small concrete databases on which the properties are exercised: one active project with
  identifier 1, tasks with small identifiers, one agent, and a request of its creator.
\<close>

definition ex_project :: agent_project where
  "ex_project = (new_project 0 1)\<lparr>p_name := ''demo'', p_status := PROJECT_ACTIVE,
     p_creator_user_id := Some ''alice''\<rparr>"

definition ex_task :: "uuid \<Rightarrow> agent_task_status \<Rightarrow> uuid list \<Rightarrow> agent_task" where
  "ex_task i s deps = (new_task 0 i 1)\<lparr>t_title := ''task'', t_status := s,
     t_depends_on := none_if_empty (map str_uuid deps),
     t_completed_at := (if terminal s then Some 0 else None)\<rparr>"

definition ex_agent :: agent where
  "ex_agent = \<lparr>a_id = 7, a_name = ''default'', a_deleted_at = None\<rparr>"

definition ex_db :: "agent_task list \<Rightarrow> db" where
  "ex_db tasks = \<lparr>db_tasks = tasks, db_projects = [ex_project], db_agents = [ex_agent],
                  db_messages = [], db_users = []\<rparr>"

definition ex_cx :: "string \<Rightarrow> tool_ctx" where
  "ex_cx user = \<lparr>cx_caller = Some user, cx_principal = None, cx_has_permission = (\<lambda>_. False),
                 cx_isoformat = (\<lambda>_. ''now''), cx_now = 5\<rparr>"

lemmas ex_defs = ex_project_def ex_task_def ex_agent_def ex_db_def ex_cx_def new_task_def new_project_def

text \<open>A change of dependencies that is accepted: task 3 shall wait for task 2.\<close>

lemma ex_waits_for:
  obtains r d' where "mcp_set_task_dependencies (ex_cx user) (str_uuid 3) (Some (JList [JStr (str_uuid 2)]))
      (ex_db [ex_task 2 READY [], ex_task 3 READY []]) = (Inr r, d')"
proof -
  let ?d = "ex_db [ex_task 2 READY [], ex_task 3 READY []]"
  have f: "find_task live_task 3 ?d = Some (ex_task 3 READY [])" by (simp add: find_task_def ex_defs)
  have p: "t_project_id (ex_task 3 READY []) = 1" by (simp add: ex_defs)
  have "\<not> stack_cycle (dep_graph 1 (str_uuid 3) [2] ?d) (str_uuid 3)"
    by (simp add: stack_cycle_def dep_graph_def ex_defs succs_def)
  moreover have "existing_deps (ex_task 3 READY []) [2] ?d = [ex_task 2 READY []]"
    by (simp add: existing_deps_def ex_defs)
  moreover have "t_id (ex_task 2 READY []) = 2" by (simp add: ex_defs)
  ultimately have "check_dependencies (str_uuid 3) (ex_task 3 READY []) [2] ?d =
      Inr (list_all (\<lambda>t. t_status t = COMPLETED) [ex_task 2 READY []])"
    by (simp only: check_dependencies_Inr p) simp
  then obtain d1 where "apply_dependencies (cx_now (ex_cx user)) (str_uuid 3) (ex_task 3 READY []) [2] ?d = Inr d1"
    by (simp add: apply_dependencies_def)
  then have "\<exists>r. mcp_set_task_dependencies (ex_cx user) (str_uuid 3) (Some (JList [JStr (str_uuid 2)])) ?d = (Inr r, d1)"
    by (simp add: mcp_set_task_dependencies_def require_caller_user_id_def parse_id_def f) (simp add: ex_cx_def)
  with that show ?thesis by blast
qed

end
