(* ===== verification/Executor_Properties.thy ===== *)
theory Executor_Properties
  imports Examples
begin

text \<open>
  The properties of the executor (\<open>task_executor.py\<close>): selection and claiming, dependency
  resolution, recovery, completion, execution and resumption, and the polling loop. Each
  property is followed by a concrete instance of its hypotheses where it has any.
\<close>

section \<open>Claiming\<close>

lemma clear_forced_pickup_clears:
  assumes "clear_forced_pickup td = Inr td'" "t_task_data t = td'"
  shows "\<not> forced_pickup t"
proof -
  have o: "json_true (JObj kvs) \<longleftrightarrow> kvs \<noteq> []" for kvs by (simp add: json_true_def)
  show ?thesis using assms
    by (auto simp: clear_forced_pickup_def forced_pickup_def dict_or_none_def dict_flag_def o
        split: option.splits if_splits json.splits dest: pg_true_true)
qed

lemma claim_task_claimed:
  assumes "claim_task now locked i d = (Inr (Some task), d')"
  obtains old td where "find_task (\<lambda>t. can_pick_up d t \<and> \<not> locked (t_id t)) i d = Some old"
    "clear_forced_pickup (t_task_data old) = Inr td"
    "d' = write_task now i (\<lambda>t. t\<lparr>t_status := IN_PROGRESS, t_task_data := td\<rparr>) d"
    "find_task (\<lambda>_. True) i d' = Some task"
  using assms
  by (cases rule: claim_task_cases [where d = d and locked = locked and i = i and now = now]) (auto simp: Let_def)

text \<open>
  C1: A successful claim is exclusive. The row was \<open>READY\<close>, live, unlocked and in a project
  that allows pickup; afterwards the task is \<open>IN_PROGRESS\<close> with its one-off pickup flag
  cleared, every other row is as before, and no later claim of the same task succeeds
  while nobody else writes it.
\<close>

theorem claim_task_exclusive:
  assumes "claim_task now locked i d = (Inr (Some task), d')"
  shows "(\<exists>old \<in> set (db_tasks d). t_id old = i \<and> can_pick_up d old \<and> \<not> locked i) \<and>
    task \<in> set (db_tasks d') \<and> t_id task = i \<and> t_status task = IN_PROGRESS \<and> \<not> forced_pickup task \<and>
    filter (\<lambda>t. t_id t \<noteq> i) (db_tasks d') = filter (\<lambda>t. t_id t \<noteq> i) (db_tasks d) \<and>
    (\<forall>now' locked'. claim_task now' locked' i d' = (Inr None, d'))"
proof -
  obtain old td where f: "find_task (\<lambda>t. can_pick_up d t \<and> \<not> locked (t_id t)) i d = Some old"
    and c: "clear_forced_pickup (t_task_data old) = Inr td"
    and d': "d' = write_task now i (\<lambda>t. t\<lparr>t_status := IN_PROGRESS, t_task_data := td\<rparr>) d"
    and t: "find_task (\<lambda>_. True) i d' = Some task"
    using assms by (rule claim_task_claimed)
  have task: "task \<in> set (db_tasks d')" "t_id task = i" using find_task_Some [OF t] by auto
  have written: "t_status u = IN_PROGRESS \<and> t_task_data u = td" if "u \<in> set (db_tasks d')" "t_id u = i" for u
  proof -
    from that(1) [unfolded d'] that(2)
    obtain t where "u = t\<lparr>t_status := IN_PROGRESS, t_task_data := td\<rparr>\<lparr>t_modified_at := now\<rparr>"
      by (rule written_row)
    then show ?thesis by simp
  qed
  have "filter (\<lambda>t. t_id t \<noteq> i) (db_tasks d') = filter (\<lambda>t. t_id t \<noteq> i) (db_tasks d)"
    unfolding d' write_task_tasks by (rule filter_modify) simp
  moreover have "claim_task now' locked' i d' = (Inr None, d')" for now' locked'
  proof -
    have "find_task (\<lambda>t. can_pick_up d' t \<and> \<not> locked' (t_id t)) i d' = None"
      unfolding find_task_None using written by (auto simp: can_pick_up_def)
    then show ?thesis by (simp add: claim_task_def)
  qed
  ultimately show ?thesis
    using find_task_Some [OF f] task written [OF task] clear_forced_pickup_clears [OF c] by auto
qed

theorem claim_task_exclusive_witness:
  "\<forall>now' locked'. claim_task now' locked' 2 (snd (claim_task 3 (\<lambda>_. False) 2 (ex_db [ex_task 2 READY []]))) =
     (Inr None, snd (claim_task 3 (\<lambda>_. False) 2 (ex_db [ex_task 2 READY []])))"
proof -
  have "claim_task 3 (\<lambda>_. False) 2 (ex_db [ex_task 2 READY []]) =
      (Inr (Some ((ex_task 2 IN_PROGRESS [])\<lparr>t_modified_at := 3\<rparr>)),
       ex_db [(ex_task 2 IN_PROGRESS [])\<lparr>t_modified_at := 3\<rparr>])"
    by (simp add: claim_task_def find_task_def find_project_def can_pick_up_def ex_defs
        task_pickup_project_condition_def clear_forced_pickup_def write_task_def Let_def)
  from claim_task_exclusive [OF this] this show ?thesis by simp
qed

section \<open>Selection\<close>

text \<open>
  C2: The poll reads tasks that can be picked up, at most \<open>batch_size\<close> of them, ordered by
  priority and then age, and passes over none that comes before one it returns.
\<close>

theorem get_ready_tasks_spec:
  "let rs = get_ready_tasks n d; rank = (\<lambda>t. (t_priority t, t_created_at t))
   in length rs = min n (length (filter (can_pick_up d) (db_tasks d))) \<and> sorted (map rank rs) \<and>
      set rs \<subseteq> {t \<in> set (db_tasks d). can_pick_up d t} \<and>
      list_all (\<lambda>t. t \<notin> set rs \<longrightarrow> can_pick_up d t \<longrightarrow> list_all (\<lambda>r. rank r \<le> rank t) rs) (db_tasks d)"
proof -
  let ?rank = "\<lambda>t. (t_priority t, t_created_at t)"
  let ?all = "order_tasks (filter (can_pick_up d) (db_tasks d))"
  have s: "sorted (map ?rank ?all)" by (rule order_tasks_sorted)
  then have "sorted (map ?rank (take n ?all) @ map ?rank (drop n ?all))"
    by (metis append_take_drop_id map_append)
  then have cut: "sorted (map ?rank (take n ?all))"
    "\<forall>r \<in> set (take n ?all). \<forall>t \<in> set (drop n ?all). ?rank r \<le> ?rank t"
    by (auto simp: sorted_append)
  have "t \<in> set (drop n ?all)" if "t \<in> set (db_tasks d)" "can_pick_up d t" "t \<notin> set (take n ?all)" for t
  proof -
    have "t \<in> set (take n ?all @ drop n ?all)" using that(1,2) by simp
    with that(3) show ?thesis by (simp only: set_append) blast
  qed
  with cut show ?thesis
    by (auto simp: get_ready_tasks_def Let_def list_all_iff min.commute dest: in_set_takeD)
qed

theorem get_ready_tasks_spec_witness:
  "map t_id (get_ready_tasks 1 (ex_db [ex_task 2 READY [], (ex_task 3 READY [])\<lparr>t_priority := URGENT\<rparr>])) = [3]"
proof -
  let ?a = "ex_task 2 READY []" and ?b = "(ex_task 3 READY [])\<lparr>t_priority := URGENT\<rparr>"
  let ?d = "ex_db [?a, ?b]"
  let ?rs = "get_ready_tasks 1 ?d"
  have rows: "db_tasks ?d = [?a, ?b]" by (simp add: ex_db_def)
  have up: "can_pick_up ?d ?a" "can_pick_up ?d ?b"
    by (simp_all add: can_pick_up_def find_project_def task_pickup_project_condition_def ex_defs)
  have spec: "length ?rs = 1" "set ?rs \<subseteq> {?a, ?b}"
    "?b \<notin> set ?rs \<Longrightarrow> list_all (\<lambda>r. (t_priority r, t_created_at r) \<le> (t_priority ?b, t_created_at ?b)) ?rs"
    using get_ready_tasks_spec [of 1 ?d] up unfolding Let_def rows by auto
  from spec(1) obtain r where r: "?rs = [r]" by (cases ?rs) auto
  have "\<not> t_priority ?a \<le> t_priority ?b" "?a \<noteq> ?b"
    by (simp_all add: ex_defs less_eq_agent_task_priority_def)
  with spec(2,3) r have "r = ?b" by auto
  then show ?thesis unfolding r by (simp add: ex_task_def new_task_def)
qed

section \<open>Dependency resolution\<close>

text \<open>
  C3: Resolution is one simultaneous update. On a database in which no row breaks the
  invariant, \<open>resolve_task_dependencies\<close> never raises; it returns the number of unlocked live
  \<open>PENDING\<close> or \<open>BLOCKED\<close> tasks all of whose dependencies are completed and pairwise
  different, makes exactly these \<open>READY\<close>, and leaves every other row as it is, although
  the code re-reads the database for every task.
\<close>

theorem resolve_task_dependencies_spec:
  assumes "db_ok d"
  shows "let moves = (\<lambda>t. t_status t \<in> {PENDING, BLOCKED} \<and> live_task t \<and> \<not> locked (t_id t) \<and>
             are_dependencies_completed d t = Inr True)
    in resolve_task_dependencies now locked d =
      (Inr (count_rows moves (db_tasks d)),
       d\<lparr>db_tasks := map (\<lambda>t. if moves t then t\<lparr>t_status := READY, t_modified_at := now\<rparr> else t) (db_tasks d)\<rparr>)"
proof -
  have same: "resolve_candidate locked t \<and> deps_satisfied d t \<longleftrightarrow>
      t_status t \<in> {PENDING, BLOCKED} \<and> live_task t \<and> \<not> locked (t_id t) \<and>
      are_dependencies_completed d t = Inr True" if "t \<in> set (db_tasks d)" for t
    using deps_satisfied_iff [OF assms db_ok_task [OF assms that]] by (auto simp: resolve_candidate_def)
  have f: "filter (\<lambda>t. resolve_candidate locked t \<and> deps_satisfied d t) (db_tasks d) =
      filter (\<lambda>t. t_status t \<in> {PENDING, BLOCKED} \<and> live_task t \<and> \<not> locked (t_id t) \<and>
        are_dependencies_completed d t = Inr True) (db_tasks d)"
    by (rule filter_cong) (simp_all add: same)
  have m: "map (\<lambda>t. if resolve_candidate locked t \<and> deps_satisfied d t
        then t\<lparr>t_status := READY, t_modified_at := now\<rparr> else t) (db_tasks d) =
      map (\<lambda>t. if t_status t \<in> {PENDING, BLOCKED} \<and> live_task t \<and> \<not> locked (t_id t) \<and>
        are_dependencies_completed d t = Inr True
        then t\<lparr>t_status := READY, t_modified_at := now\<rparr> else t) (db_tasks d)"
    by (rule map_cong) (simp_all add: same)
  show ?thesis
    unfolding resolve_task_dependencies_eq [OF assms] Let_def f m count_rows_def by (rule refl)
qed

theorem resolve_task_dependencies_spec_witness:
  "fst (resolve_task_dependencies 9 (\<lambda>_. False) (ex_db [ex_task 2 COMPLETED [], ex_task 3 BLOCKED [2]])) = Inr 1"
proof -
  have ok: "db_ok (ex_db [ex_task 2 COMPLETED [], ex_task 3 BLOCKED [2]])"
    by (simp add: db_ok_def task_ok_def ex_defs)
  show ?thesis
    using resolve_task_dependencies_spec [OF ok, of "\<lambda>_. False" 9]
    by (simp add: Let_def ex_defs are_dependencies_completed_def dep_ids_def)
qed

text \<open>
  Resolution settles in one run: running it again, under the same locks and before
  anything else changes, moves nothing and leaves the database as it is.
\<close>

theorem resolve_task_dependencies_idempotent:
  assumes "db_ok d"
  shows "let d' = snd (resolve_task_dependencies now locked d)
    in resolve_task_dependencies now' locked d' = (Inr 0, d')"
proof -
  define d' where "d' = snd (resolve_task_dependencies now locked d)"
  let ?p = "\<lambda>t. resolve_candidate locked t \<and> deps_satisfied d t"
  have ok: "db_ok d'" unfolding d'_def by (rule resolve_ok [OF assms])
  have rows: "db_tasks d' = map (\<lambda>t. if ?p t then t\<lparr>t_status := READY, t_modified_at := now\<rparr> else t) (db_tasks d)"
    by (simp add: d'_def resolve_task_dependencies_eq [OF assms] Let_def)
  have fold: "d' = fold (\<lambda>t. write_task now (t_id t) ready_task) (filter ?p (db_tasks d)) d"
  proof -
    have "executor_promotion.promoting now (filter (resolve_candidate locked) (db_tasks d)) d =
      (filter ?p (db_tasks d), d\<lparr>db_tasks := map (\<lambda>t. if ?p t then ready_task t\<lparr>t_modified_at := now\<rparr> else t) (db_tasks d)\<rparr>)"
      by (rule executor_promotion.promoting_rows [OF assms]) (simp add: resolve_candidate_def)
    moreover have "\<forall>t \<in> set (filter (resolve_candidate locked) (db_tasks d)). unfinished_id d (t_id t)"
      by (auto simp: resolve_candidate_def intro!: unfinished_candidate [OF assms])
    note executor_promotion.promoting_eq [OF this, of now]
    ultimately show ?thesis
      by (simp add: d'_def resolve_task_dependencies_eq [OF assms] Let_def conj_commute)
  qed
  have verdict: "deps_satisfied d' t = deps_satisfied d t" for t
  proof -
    have "deps_satisfied (fold (\<lambda>t. write_task now (t_id t) ready_task) ts e) t = deps_satisfied e t"
      if "\<forall>t \<in> set ts. unfinished_id e (t_id t)" for ts e
      using that
    proof (induction ts arbitrary: e)
      case (Cons a ts)
      then have "\<forall>t \<in> set ts. unfinished_id (write_task now (t_id a) ready_task e) (t_id t)"
        by (auto intro: unfinished_write)
      from Cons.IH [OF this] Cons.prems executor_promotion.stable [of e "t_id a" now t] show ?case by simp
    qed simp
    moreover have "\<forall>t \<in> set (filter ?p (db_tasks d)). unfinished_id d (t_id t)"
      by (auto simp: resolve_candidate_def intro!: unfinished_candidate [OF assms])
    ultimately show ?thesis unfolding fold by blast
  qed
  have none: "\<not> (resolve_candidate locked t \<and> deps_satisfied d' t)" if "t \<in> set (db_tasks d')" for t
    using that unfolding verdict rows by (auto simp: resolve_candidate_def)
  have "map (\<lambda>t. if resolve_candidate locked t \<and> deps_satisfied d' t
      then t\<lparr>t_status := READY, t_modified_at := now'\<rparr> else t) (db_tasks d') = db_tasks d'"
    by (rule map_idI) (use none in fastforce)
  moreover have "filter (\<lambda>t. resolve_candidate locked t \<and> deps_satisfied d' t) (db_tasks d') = []"
    using none by (simp add: filter_empty_conv)
  ultimately show ?thesis
    unfolding d'_def [symmetric] Let_def resolve_task_dependencies_eq [OF ok] by simp
qed

theorem resolve_task_dependencies_idempotent_witness:
  "fst (resolve_task_dependencies 10 (\<lambda>_. False)
     (snd (resolve_task_dependencies 9 (\<lambda>_. False) (ex_db [ex_task 2 COMPLETED [], ex_task 3 BLOCKED [2]])))) = Inr 0"
proof -
  have ok: "db_ok (ex_db [ex_task 2 COMPLETED [], ex_task 3 BLOCKED [2]])"
    by (simp add: db_ok_def task_ok_def ex_defs)
  show ?thesis
    using resolve_task_dependencies_idempotent [OF ok, of 9 "\<lambda>_. False" 10] by (simp add: Let_def)
qed

text \<open>
  What the dependency check means. It holds exactly when the dependencies are pairwise
  different identifiers and each is the identifier of a live completed task; so a
  dependency listed twice is never satisfied, and a soft-deleted one neither.
\<close>

theorem are_dependencies_completed_spec:
  assumes "db_ok d" "t \<in> set (db_tasks d)"
  shows "\<exists>ids. dep_ids t = Inr ids \<and>
    are_dependencies_completed d t =
      Inr (distinct ids \<and> list_all (\<lambda>i. list_ex (\<lambda>u. t_id u = i \<and> t_status u = COMPLETED \<and> live_task u) (db_tasks d)) ids)"
proof -
  have ok: "task_ok t" using db_ok_task [OF assms] .
  obtain ids where ids: "dep_ids t = Inr ids" using dep_ids_total [OF ok] by blast
  obtain b where b: "are_dependencies_completed d t = Inr b" using are_dependencies_completed_total [OF ok] by blast
  have "b \<longleftrightarrow> distinct ids \<and> list_all (\<lambda>i. list_ex (\<lambda>u. t_id u = i \<and> t_status u = COMPLETED \<and> live_task u) (db_tasks d)) ids"
    using are_dependencies_completed_iff [OF db_ok_distinct [OF assms(1)] ids] b
    by (simp add: list_all_iff list_ex_iff)
  with ids b show ?thesis by blast
qed

theorem are_dependencies_completed_spec_witness:
  "are_dependencies_completed (ex_db [ex_task 2 COMPLETED [], ex_task 3 BLOCKED [2, 2]]) (ex_task 3 BLOCKED [2, 2]) =
     Inr False"
proof -
  have ok: "db_ok (ex_db [ex_task 2 COMPLETED [], ex_task 3 BLOCKED [2, 2]])"
    by (simp add: db_ok_def task_ok_def ex_defs)
  have "ex_task 3 BLOCKED [2, 2] \<in> set (db_tasks (ex_db [ex_task 2 COMPLETED [], ex_task 3 BLOCKED [2, 2]]))"
    by (simp add: ex_db_def)
  from are_dependencies_completed_spec [OF ok this] show ?thesis
    by (auto simp: dep_ids_def ex_defs)
qed

section \<open>Stale tasks\<close>

text \<open>
  Recovery puts back exactly the stale tasks. The unlocked live tasks that are
  \<open>IN_PROGRESS\<close> and were last written before the timeout become \<open>READY\<close>, their number is
  returned, and no other row changes.
\<close>

theorem recover_stale_spec:
  assumes "db_ok d"
  shows "let stale = (\<lambda>t. t_status t = IN_PROGRESS \<and> t_modified_at t < now - minutes m \<and> live_task t \<and> \<not> locked (t_id t))
    in recover_stale_in_progress_tasks now m locked d =
      (count_rows stale (db_tasks d),
       d\<lparr>db_tasks := map (\<lambda>t. if stale t then t\<lparr>t_status := READY, t_modified_at := now\<rparr> else t) (db_tasks d)\<rparr>)"
proof -
  let ?p = "\<lambda>t. t_status t = IN_PROGRESS \<and> t_modified_at t < now - minutes m \<and> live_task t \<and> \<not> locked (t_id t)"
  have sub: "t_id t \<in> t_id ` set (filter ?p (db_tasks d)) \<longleftrightarrow> ?p t" if "t \<in> set (db_tasks d)" for t
    using that same_id_same_task [OF assms] by auto
  have "fold (\<lambda>task. write_task now (t_id task) ready_task) (filter ?p (db_tasks d)) d =
      d\<lparr>db_tasks := map (\<lambda>t. if t_id t \<in> t_id ` set (filter ?p (db_tasks d))
                               then ready_task t\<lparr>t_modified_at := now\<rparr> else t) (db_tasks d)\<rparr>"
    by (rule fold_write_tasks [OF distinct_ids_filter [OF assms]]) simp
  also have "map (\<lambda>t. if t_id t \<in> t_id ` set (filter ?p (db_tasks d))
                       then ready_task t\<lparr>t_modified_at := now\<rparr> else t) (db_tasks d) =
      map (\<lambda>t. if ?p t then ready_task t\<lparr>t_modified_at := now\<rparr> else t) (db_tasks d)"
    using sub by (intro map_cong) auto
  finally have f: "fold (\<lambda>task. write_task now (t_id task) ready_task) (filter ?p (db_tasks d)) d =
      d\<lparr>db_tasks := map (\<lambda>t. if ?p t then ready_task t\<lparr>t_modified_at := now\<rparr> else t) (db_tasks d)\<rparr>" .
  show ?thesis
  proof (cases "filter ?p (db_tasks d) = []")
    case True
    with f have "d = d\<lparr>db_tasks := map (\<lambda>t. if ?p t then ready_task t\<lparr>t_modified_at := now\<rparr> else t) (db_tasks d)\<rparr>"
      by simp
    with True show ?thesis
      by (simp only: recover_stale_in_progress_tasks_def Let_def count_rows_def) simp
  next
    case False
    then show ?thesis
      by (simp only: recover_stale_in_progress_tasks_def Let_def count_rows_def f) simp
  qed
qed

theorem recover_stale_spec_witness:
  "fst (recover_stale_in_progress_tasks (minutes 31) 30 (\<lambda>_. False) (ex_db [ex_task 2 IN_PROGRESS [], ex_task 3 READY []])) = 1"
proof -
  have ok: "db_ok (ex_db [ex_task 2 IN_PROGRESS [], ex_task 3 READY []])"
    by (simp add: db_ok_def task_ok_def ex_defs)
  show ?thesis
    using recover_stale_spec [OF ok, of "minutes 31" 30 "\<lambda>_. False"]
    by (simp add: Let_def ex_defs minutes_def)
qed

section \<open>Completion\<close>

text \<open>
  C4: A completion that arrives for a task that is no longer running is dropped: nothing is
  written, nothing is posted, no dependents move.
\<close>

theorem update_task_completion_guard:
  assumes "find_task (\<lambda>_. True) i d = Some t" "t_status t \<noteq> IN_PROGRESS"
  shows "update_task_completion gw now locked i s success result error sub d =
    (Inr (CompletionSkipped (t_status t)), [], d)"
  using assms by (simp add: update_task_completion_def completion_transaction_def)

theorem update_task_completion_guard_witness:
  "update_task_completion None 4 (\<lambda>_. False) 2 None True None None None (ex_db [ex_task 2 CANCELLED []]) =
    (Inr (CompletionSkipped CANCELLED), [], ex_db [ex_task 2 CANCELLED []])"
proof -
  have "find_task (\<lambda>_. True) 2 (ex_db [ex_task 2 CANCELLED []]) = Some (ex_task 2 CANCELLED [])"
    by (simp add: find_task_def ex_defs)
  from update_task_completion_guard [OF this] show ?thesis by (simp add: ex_defs)
qed

text \<open>The row after a recorded completion, before and after the dependents are resolved.\<close>

lemma complete_task_found:
  assumes "complete_task now d task status result agg = Inr d'" "find_task (\<lambda>_. True) (t_id task) d = Some t"
  obtains spending where "terminal status" "(if agg then aggregate_task_spending d task else Inr None) = Inr spending"
    "find_task (\<lambda>_. True) (t_id task) d' = Some (t\<lparr>t_status := status, t_completed_at := Some now,
       t_result := (if result = None then t_result t else result),
       t_actual_spending_usd := (if spending = None then t_actual_spending_usd t else spending),
       t_modified_at := now\<rparr>)"
  using assms(1)
proof (rule complete_task_cases)
  fix spending
  assume s: "terminal status" "(if agg then aggregate_task_spending d task else Inr None) = Inr spending"
    and d': "d' = write_task now (t_id task)
       (\<lambda>t. t\<lparr>t_status := status, t_completed_at := Some now,
              t_result := (if result = None then t_result t else result),
              t_actual_spending_usd := (if spending = None then t_actual_spending_usd t else spending)\<rparr>) d"
  show ?thesis
    by (rule that [OF s]) (simp add: d' find_task_write assms(2))
qed

lemma resolve_keeps_finished:
  assumes "db_ok d" "find_task (\<lambda>_. True) i d = Some u" "terminal (t_status u)"
  shows "find_task (\<lambda>_. True) i (snd (resolve_task_dependencies now locked d)) = Some u"
proof -
  have "\<not> resolve_candidate locked u"
    using assms(3) by (auto simp: resolve_candidate_def)
  then show ?thesis
    unfolding resolve_task_dependencies_eq [OF assms(1)] Let_def snd_conv
    by (subst find_task_map) (simp_all add: assms(2))
qed

lemma aggregate_messages:
  "db_messages d = db_messages e \<Longrightarrow> aggregate_task_spending d t = aggregate_task_spending e t"
  by (simp only: aggregate_task_spending_def)

lemma completion_found:
  assumes "db_ok d" "find_task (\<lambda>_. True) i d = Some t" "t_status t = IN_PROGRESS"
    and "update_task_completion gw now locked i s success result error sub d = (Inr CompletionDone, posted, d')"
  obtains kvs spending where "py_dict_of (t_task_data t) = Inr kvs" "aggregate_task_spending d t = Inr spending"
    "find_task (\<lambda>_. True) i d' = Some (t\<lparr>t_task_data := dict_or_none (completion_task_data success sub kvs),
       t_status := (if success then COMPLETED else FAILED), t_completed_at := Some now,
       t_result := (if completion_result result error = None then t_result t else completion_result result error),
       t_actual_spending_usd := (if spending = None then t_actual_spending_usd t else spending),
       t_modified_at := now\<rparr>)"
proof -
  obtain r d1 where tr: "completion_transaction now i success result error sub d = (r, d1)" by (rule prod.exhaust)
  have r: "r = Inr CompletionDone"
    using assms(4) tr by (auto simp: update_task_completion_def Let_def split: sum.splits completion_outcome.splits option.splits)
  have i: "t_id t = i" using find_task_Some [OF assms(2)] by simp
  obtain kvs where k: "py_dict_of (t_task_data t) = Inr kvs"
    and ct: "complete_task now
         (write_task now i (\<lambda>t. t\<lparr>t_task_data := dict_or_none (completion_task_data success sub kvs)\<rparr>) d)
         t (if success then COMPLETED else FAILED) (completion_result result error) True = Inr d1"
    using tr r assms(2,3) by (cases rule: completion_transaction_cases [of i d now success result error sub]) auto
  have "find_task (\<lambda>_. True) (t_id t)
      (write_task now i (\<lambda>t. t\<lparr>t_task_data := dict_or_none (completion_task_data success sub kvs)\<rparr>) d) =
      Some (t\<lparr>t_task_data := dict_or_none (completion_task_data success sub kvs), t_modified_at := now\<rparr>)"
    by (simp add: i find_task_write assms(2))
  from ct this obtain spending where
    "(if True then aggregate_task_spending
        (write_task now i (\<lambda>t. t\<lparr>t_task_data := dict_or_none (completion_task_data success sub kvs)\<rparr>) d) t
      else Inr None) = Inr spending"
    and f0: "find_task (\<lambda>_. True) (t_id t) d1 =
      Some (t\<lparr>t_task_data := dict_or_none (completion_task_data success sub kvs), t_modified_at := now\<rparr>
       \<lparr>t_status := if success then COMPLETED else FAILED, t_completed_at := Some now,
       t_result := (if completion_result result error = None
                    then t_result (t\<lparr>t_task_data := dict_or_none (completion_task_data success sub kvs), t_modified_at := now\<rparr>)
                    else completion_result result error),
       t_actual_spending_usd := (if spending = None
                    then t_actual_spending_usd (t\<lparr>t_task_data := dict_or_none (completion_task_data success sub kvs), t_modified_at := now\<rparr>)
                    else spending),
       t_modified_at := now\<rparr>)"
    by (rule complete_task_found)
  then have sp: "aggregate_task_spending d t = Inr spending"
    by (simp only: if_True aggregate_messages [OF write_task_frame(3)])
  have f: "find_task (\<lambda>_. True) i d1 = Some (t\<lparr>t_task_data := dict_or_none (completion_task_data success sub kvs),
       t_status := (if success then COMPLETED else FAILED), t_completed_at := Some now,
       t_result := (if completion_result result error = None then t_result t else completion_result result error),
       t_actual_spending_usd := (if spending = None then t_actual_spending_usd t else spending),
       t_modified_at := now\<rparr>)"
    using f0 by (simp add: i)
  have ok: "db_ok d1" using completion_transaction_ok [OF assms(1), of now i success result error sub] tr by simp
  obtain u where u: "find_task (\<lambda>_. True) i d1 = Some u" using f by blast
  have "update_task_completion gw now locked i s success result error sub d =
      (case result_summary success (t_result u) of
         Inl e \<Rightarrow> (Inl (PyExn e), [], d1)
       | Inr summary \<Rightarrow> (Inr CompletionDone, completion_notice gw u summary s success error d1,
           if success then snd (resolve_task_dependencies now locked d1) else d1))"
    by (cases "result_summary success (t_result u)") (simp_all add: update_task_completion_def tr r u Let_def)
  with assms(4) have "d' = d1 \<or> d' = snd (resolve_task_dependencies now locked d1)"
    by (cases "result_summary success (t_result u)") (simp_all split: if_splits)
  then have "find_task (\<lambda>_. True) i d' = find_task (\<lambda>_. True) i d1"
  proof
    assume "d' = snd (resolve_task_dependencies now locked d1)"
    then show ?thesis using resolve_keeps_finished [OF ok f] f by simp
  qed simp
  with k sp f show ?thesis by (intro that) simp_all
qed

text \<open>
  C5: What a completion records. The running task becomes \<open>COMPLETED\<close> or \<open>FAILED\<close> with the
  completion time and the session's result; its spending is the total cost of the messages
  of its sessions, when there is one; and a stored error type survives only a failure
  that can be resumed.
\<close>

theorem update_task_completion_records:
  assumes "db_ok d" "find_task (\<lambda>_. True) i d = Some t" "t_status t = IN_PROGRESS"
    and "update_task_completion gw now locked i s success result error sub d = (Inr CompletionDone, posted, d')"
  shows "\<exists>u. find_task (\<lambda>_. True) i d' = Some u \<and>
    t_status u = (if success then COMPLETED else FAILED) \<and> t_completed_at u = Some now \<and>
    t_result u = (case completion_result result error of None \<Rightarrow> t_result t | Some r \<Rightarrow> Some r) \<and>
    (\<exists>spending. aggregate_task_spending d t = Inr spending \<and>
       t_actual_spending_usd u = (case spending of None \<Rightarrow> t_actual_spending_usd t | Some x \<Rightarrow> Some x)) \<and>
    (\<exists>kvs. t_task_data u = dict_or_none kvs \<and>
       dict_get kvs ''error_subtype'' =
         (case sub of Some e \<Rightarrow> if \<not> success \<and> e \<in> set RESUMABLE_ERROR_SUBTYPES then Some (JStr e) else None
                    | None \<Rightarrow> None))"
proof -
  obtain kvs spending where k: "py_dict_of (t_task_data t) = Inr kvs" "aggregate_task_spending d t = Inr spending"
    and f: "find_task (\<lambda>_. True) i d' = Some (t\<lparr>t_task_data := dict_or_none (completion_task_data success sub kvs),
       t_status := (if success then COMPLETED else FAILED), t_completed_at := Some now,
       t_result := (if completion_result result error = None then t_result t else completion_result result error),
       t_actual_spending_usd := (if spending = None then t_actual_spending_usd t else spending),
       t_modified_at := now\<rparr>)"
    using assms by (rule completion_found)
  have sub: "dict_get (completion_task_data success sub kvs) ''error_subtype'' =
      (case sub of Some e \<Rightarrow> if \<not> success \<and> e \<in> set RESUMABLE_ERROR_SUBTYPES then Some (JStr e) else None
                 | None \<Rightarrow> None)"
    by (cases sub) (auto simp: completion_task_data_def RESUMABLE_ERROR_SUBTYPES_def)
  show ?thesis
  proof (intro exI conjI)
    let ?u = "t\<lparr>t_task_data := dict_or_none (completion_task_data success sub kvs),
       t_status := (if success then COMPLETED else FAILED), t_completed_at := Some now,
       t_result := (if completion_result result error = None then t_result t else completion_result result error),
       t_actual_spending_usd := (if spending = None then t_actual_spending_usd t else spending),
       t_modified_at := now\<rparr>"
    show "find_task (\<lambda>_. True) i d' = Some ?u" by (rule f)
    show "t_status ?u = (if success then COMPLETED else FAILED)" by simp
    show "t_completed_at ?u = Some now" by simp
    show "t_result ?u = (case completion_result result error of None \<Rightarrow> t_result t | Some r \<Rightarrow> Some r)"
      by (cases "completion_result result error") simp_all
    show "aggregate_task_spending d t = Inr spending" by (rule k(2))
    show "t_actual_spending_usd ?u = (case spending of None \<Rightarrow> t_actual_spending_usd t | Some x \<Rightarrow> Some x)"
      by (cases spending) simp_all
    show "t_task_data ?u = dict_or_none (completion_task_data success sub kvs)" by simp
    show "dict_get (completion_task_data success sub kvs) ''error_subtype'' =
      (case sub of Some e \<Rightarrow> if \<not> success \<and> e \<in> set RESUMABLE_ERROR_SUBTYPES then Some (JStr e) else None
                 | None \<Rightarrow> None)" by (rule sub)
  qed
qed

theorem update_task_completion_records_witness:
  "t_status (the (find_task (\<lambda>_. True) 2 (snd (snd (update_task_completion None 4 (\<lambda>_. False) 2 None False None
     (Some ''boom'') (Some ''error_max_turns'') (ex_db [ex_task 2 IN_PROGRESS []])))))) = FAILED"
proof -
  let ?d = "ex_db [ex_task 2 IN_PROGRESS []]"
  have ok: "db_ok ?d" by (simp add: db_ok_def task_ok_def ex_defs)
  have f: "find_task (\<lambda>_. True) 2 ?d = Some (ex_task 2 IN_PROGRESS [])" by (simp add: find_task_def ex_defs)
  have st: "t_status (ex_task 2 IN_PROGRESS []) = IN_PROGRESS" by (simp add: ex_defs)
  have "fst (update_task_completion None 4 (\<lambda>_. False) 2 None False None (Some ''boom'') (Some ''error_max_turns'') ?d) =
      Inr CompletionDone" by code_simp
  then obtain ps d' where r: "update_task_completion None 4 (\<lambda>_. False) 2 None False None (Some ''boom'')
      (Some ''error_max_turns'') ?d = (Inr CompletionDone, ps, d')" by (metis prod.collapse)
  from update_task_completion_records [OF ok f st r] show ?thesis by (auto simp: r)
qed

section \<open>Execution\<close>

text \<open>A setup that fails has not written any task; one that succeeds records its session.\<close>

lemma ensure_updates_thread_tasks:
  "ensure_updates_thread gw jt now p a d = (ts, ps, d') \<Longrightarrow> db_tasks d' = db_tasks d"
  using ensure_updates_thread_ok by blast

lemma clear_resume_flags_total:
  "find_task (\<lambda>_. True) i d = Some t \<Longrightarrow> py_dict_of (t_task_data t) = Inr kvs \<Longrightarrow> \<exists>d'. clear_resume_flags now i d = Inr d'"
  by (auto simp: clear_resume_flags_def split: option.splits)

lemma clear_resume_flags_found:
  assumes "clear_resume_flags now i d = Inr d'" "find_task (\<lambda>_. True) i d = Some t"
  obtains td m where "find_task (\<lambda>_. True) i d' = Some (t\<lparr>t_task_data := td, t_modified_at := m\<rparr>)"
proof -
  consider "d' = d" | td where "d' = write_task now i (\<lambda>t. t\<lparr>t_task_data := td\<rparr>) d"
    using assms by (auto simp: clear_resume_flags_def split: option.splits if_splits sum.splits)
  then show ?thesis
  proof cases
    case 1
    with assms(2) show ?thesis by (intro that [of "t_modified_at t" "t_task_data t"]) simp
  next
    case (2 td)
    with assms(2) show ?thesis by (intro that [of now td]) (simp add: find_task_write)
  qed
qed

text \<open>The row of a task whose session has been recorded.\<close>

definition with_session :: "string \<Rightarrow> agent_task \<Rightarrow> agent_task \<Rightarrow> bool" where
  "with_session sid old new \<longleftrightarrow>
     (\<exists>td m. new = old\<lparr>t_assigned_session_ids :=
         (if sid \<in> set (or_empty (t_assigned_session_ids old)) then t_assigned_session_ids old
          else Some (or_empty (t_assigned_session_ids old) @ [sid])),
       t_task_data := td, t_modified_at := m\<rparr>)"

lemma record_session_found:
  assumes "find_task (\<lambda>_. True) (t_id task) d = Some task" "py_dict_of (t_task_data task) = Inr kvs"
    and "record_session env now task agent b state ts sid d = (r, ps, d')"
  shows "r = Inr sid \<and> (\<exists>new. find_task (\<lambda>_. True) (t_id task) d' = Some new \<and> with_session sid task new)"
proof -
  define d1 where "d1 = (if sid \<in> set (or_empty (t_assigned_session_ids task)) then d
      else add_session_to_task now (t_id task) sid d)"
  obtain m1 where f1: "find_task (\<lambda>_. True) (t_id task) d1 = Some (task\<lparr>t_assigned_session_ids :=
       (if sid \<in> set (or_empty (t_assigned_session_ids task)) then t_assigned_session_ids task
        else Some (or_empty (t_assigned_session_ids task) @ [sid])), t_modified_at := m1\<rparr>)"
  proof (cases "sid \<in> set (or_empty (t_assigned_session_ids task))")
    case True
    with assms(1) show ?thesis by (intro that [of "t_modified_at task"]) (simp add: d1_def)
  next
    case False
    with assms(1) show ?thesis
      by (intro that [of now]) (simp add: d1_def add_session_to_task_def find_task_write)
  qed
  show ?thesis
  proof (cases b)
    case False
    with assms(3) have "r = Inr sid" "d' = d1" by (auto simp: record_session_def Let_def d1_def)
    with f1 show ?thesis
      by (auto simp: with_session_def intro!: exI [of _ "t_task_data task"] exI [of _ m1])
  next
    case True
    obtain d2 where c: "clear_resume_flags now (t_id task) d1 = Inr d2"
      using clear_resume_flags_total [OF f1] assms(2) by auto
    with assms(3) True have r: "r = Inr sid" "d' = d2" by (auto simp: record_session_def Let_def d1_def)
    from c f1 obtain td m where "find_task (\<lambda>_. True) (t_id task) d2 =
        Some (task\<lparr>t_assigned_session_ids :=
       (if sid \<in> set (or_empty (t_assigned_session_ids task)) then t_assigned_session_ids task
        else Some (or_empty (t_assigned_session_ids task) @ [sid])), t_modified_at := m1\<rparr>
        \<lparr>t_task_data := td, t_modified_at := m\<rparr>)"
      by (rule clear_resume_flags_found)
    with r show ?thesis
      by (auto simp: with_session_def intro!: exI [of _ td] exI [of _ m])
  qed
qed

lemma create_session_tasks:
  "session_service_ok env \<Longrightarrow> env_create_session env req d = (r, d') \<Longrightarrow> db_tasks d' = db_tasks d"
  unfolding session_service_ok_def by (metis snd_conv)

lemma run_claimed_task_found:
  assumes "session_service_ok env" "find_task (\<lambda>_. True) (t_id task) d = Some task"
    and "py_dict_of (t_task_data task) = Inr kvs" "run_claimed_task env now task kvs d = (r, ps, d')"
  shows "case r of
      Inl msg \<Rightarrow> db_tasks d' = db_tasks d
    | Inr sid \<Rightarrow> \<exists>new. find_task (\<lambda>_. True) (t_id task) d' = Some new \<and> with_session sid task new"
  using assms(4)
proof (cases rule: run_claimed_cases)
  case (refused project ts ps1 d1 req msg agent)
  then show ?thesis
    using ensure_updates_thread_tasks [OF refused(1)] create_session_tasks [OF assms(1) refused(2)] by simp
next
  case (created project ts ps1 d1 req sid d2 ps2 agent)
  have "find_task (\<lambda>_. True) (t_id task) d2 = Some task"
    using ensure_updates_thread_tasks [OF created(1)] create_session_tasks [OF assms(1) created(2)] assms(2)
    by (metis find_task_tasks)
  from record_session_found [OF this assms(3) created(3)] show ?thesis by auto
qed simp

lemma execute_task_cases:
  assumes "execute_task env now locked i d = (r, posted, d')"
  obtains (unclaimed) "r = NotClaimed \<or> (\<exists>e. r = ClaimRaised e) \<or> (\<exists>e. r = TaskDataRaised e)"
  | (failed) task kvs d0 d1 ps1 ps2 res msg where "r = SetupFailed msg"
      "claim_task now locked i d = (Inr (Some task), d0)" "py_dict_of (t_task_data task) = Inr kvs"
      "run_claimed_task env now task kvs d0 = (Inl msg, ps1, d1)"
      "update_task_completion (env_gateway env) now locked (t_id task) None False None (Some msg) None d1 = (res, ps2, d')"
  | (created) task kvs d0 sid where "r = SessionCreated sid"
      "claim_task now locked i d = (Inr (Some task), d0)" "py_dict_of (t_task_data task) = Inr kvs"
      "run_claimed_task env now task kvs d0 = (Inr sid, posted, d')"
proof -
  obtain c d0 where c: "claim_task now locked i d = (c, d0)" by (rule prod.exhaust)
  show ?thesis
  proof (cases "\<exists>task kvs. c = Inr (Some task) \<and> py_dict_of (t_task_data task) = Inr kvs")
    case False
    with assms c show ?thesis
      by (intro that(1)) (auto simp: execute_task_def split: sum.splits option.splits)
  next
    case True
    then obtain task kvs where k: "c = Inr (Some task)" "py_dict_of (t_task_data task) = Inr kvs" by blast
    obtain res ps1 d1 where run: "run_claimed_task env now task kvs d0 = (res, ps1, d1)"
      by (metis prod_cases3)
    show ?thesis
    proof (cases res)
      case (Inl msg)
      obtain u ps2 d2 where comp: "update_task_completion (env_gateway env) now locked (t_id task) None False None
          (Some msg) None d1 = (u, ps2, d2)" by (metis prod_cases3)
      with assms c k run Inl show ?thesis
        by (intro that(2) [of msg task d0 kvs ps1 d1 u ps2]) (auto simp: execute_task_def)
    next
      case (Inr sid)
      with assms c k run show ?thesis
        by (intro that(3) [of sid task d0 kvs]) (auto simp: execute_task_def)
    qed
  qed
qed

lemma claimed_row:
  assumes "db_ok d" "claim_task now locked i d = (Inr (Some task), d0)"
  obtains old td where "find_task (\<lambda>_. True) i d = Some old" "find_task (\<lambda>_. True) i d0 = Some task"
    "task = old\<lparr>t_status := IN_PROGRESS, t_task_data := td, t_modified_at := now\<rparr>" "live_task old" "t_id old = i"
proof -
  obtain old td where f: "find_task (\<lambda>t. can_pick_up d t \<and> \<not> locked (t_id t)) i d = Some old"
    and d0: "d0 = write_task now i (\<lambda>t. t\<lparr>t_status := IN_PROGRESS, t_task_data := td\<rparr>) d"
    and t: "find_task (\<lambda>_. True) i d0 = Some task"
    using assms(2) by (rule claim_task_claimed)
  have old: "old \<in> set (db_tasks d)" "t_id old = i" "can_pick_up d old" using find_task_Some [OF f] by auto
  have g: "find_task (\<lambda>_. True) i d = Some old"
    by (rule find_task_key [OF db_ok_distinct [OF assms(1)] old(1,2)]) simp
  moreover have "task = old\<lparr>t_status := IN_PROGRESS, t_task_data := td, t_modified_at := now\<rparr>"
    using t unfolding d0 by (simp add: find_task_write g)
  moreover have "live_task old" using old(3) by (simp add: can_pick_up_def)
  ultimately show ?thesis using that t old(2) by blast
qed

lemma failed_completion_done:
  assumes "find_task (\<lambda>_. True) i d = Some t" "t_status t = IN_PROGRESS" "py_dict_of (t_task_data t) = Inr kvs"
    and "aggregate_task_spending d t = Inr spending"
  shows "\<exists>posted d'. update_task_completion gw now locked i s False result error sub d = (Inr CompletionDone, posted, d')"
proof -
  let ?d = "write_task now i (\<lambda>t. t\<lparr>t_task_data := dict_or_none (completion_task_data False sub kvs)\<rparr>) d"
  have i: "t_id t = i" using find_task_Some [OF assms(1)] by simp
  have "aggregate_task_spending ?d t = Inr spending"
    using assms(4) aggregate_messages [OF write_task_frame(3)] by simp
  then obtain d1 where c: "complete_task now ?d t FAILED (completion_result result error) True = Inr d1"
    by (simp add: complete_task_def assms(2) validate_task_status_transition_def)
  have "find_task (\<lambda>_. True) i ?d =
      Some (t\<lparr>t_task_data := dict_or_none (completion_task_data False sub kvs), t_modified_at := now\<rparr>)"
    by (simp add: find_task_write assms(1))
  then obtain u where u: "find_task (\<lambda>_. True) i d1 = Some u"
    using complete_task_found [OF c] i by metis
  have "completion_transaction now i False result error sub d = (Inr CompletionDone, d1)"
    using assms(1-3) c by (simp add: completion_transaction_def Let_def)
  then show ?thesis
    by (simp add: update_task_completion_def u result_summary_def Let_def)
qed

text \<open>
  A task whose setup fails does not stay claimed: it is \<open>FAILED\<close> with the message of the
  exception as its result. It also loses its resumability: whatever error type an earlier
  failure had recorded, \<open>resume_task\<close> now refuses it.
\<close>

theorem execute_task_setup_failure:
  assumes "session_service_ok env" "db_ok d"
    and "execute_task env now locked i d = (SetupFailed msg, posted, d')"
    and "\<forall>t \<in> set (db_tasks d). \<exists>ids. sum_map parse_uuid (or_empty (t_assigned_session_ids t)) = Inr ids"
  shows "\<exists>u. find_task (\<lambda>_. True) i d' = Some u \<and> t_status u = FAILED \<and> t_completed_at u = Some now \<and>
    (msg \<noteq> [] \<longrightarrow> t_result u = Some (JObj [(''error'', JStr msg)])) \<and>
    (\<forall>later. resume_task later i d' = (Inr (ResumeNotResumable None), d'))"
  using assms(3)
proof (cases rule: execute_task_cases)
  case (failed task kvs d0 d1 ps1 ps2 res msg')
  obtain old td where old: "find_task (\<lambda>_. True) i d = Some old"
    and f0: "find_task (\<lambda>_. True) i d0 = Some task"
    and task: "task = old\<lparr>t_status := IN_PROGRESS, t_task_data := td, t_modified_at := now\<rparr>"
    and live: "live_task old" and i: "t_id old = i"
    using assms(2) failed(2) by (rule claimed_row)
  have tid: "t_id task = i" using task i by simp
  have "db_tasks d1 = db_tasks d0"
    using run_claimed_task_found [OF assms(1) _ failed(3,4)] f0 tid by simp
  then have f1: "find_task (\<lambda>_. True) i d1 = Some task" using f0 by (metis find_task_tasks)
  have ok1: "db_ok d1"
    using run_claimed_ok [OF assms(1) _ failed(4)] claim_task_ok [OF assms(2), of now locked i] failed(2) by simp
  obtain ids where "sum_map parse_uuid (or_empty (t_assigned_session_ids old)) = Inr ids"
    using assms(4) find_task_Some [OF old] by blast
  moreover have "t_assigned_session_ids task = t_assigned_session_ids old" by (simp add: task)
  ultimately obtain spending where sp: "aggregate_task_spending d1 task = Inr spending"
    by (cases "or_empty (t_assigned_session_ids old) = []") (auto simp: aggregate_task_spending_def)
  have st: "t_status task = IN_PROGRESS" using task by simp
  have comp: "update_task_completion (env_gateway env) now locked i None False None (Some msg') None d1 =
      (Inr CompletionDone, ps2, d')"
    using failed_completion_done [OF f1 st failed(3) sp] failed(5) tid by (metis prod.inject)
  obtain kvs' spending' where k: "py_dict_of (t_task_data task) = Inr kvs'"
    and u: "find_task (\<lambda>_. True) i d' = Some (task\<lparr>t_task_data := dict_or_none (completion_task_data False None kvs'),
       t_status := (if False then COMPLETED else FAILED), t_completed_at := Some now,
       t_result := (if completion_result None (Some msg') = None then t_result task else completion_result None (Some msg')),
       t_actual_spending_usd := (if spending' = None then t_actual_spending_usd task else spending'),
       t_modified_at := now\<rparr>)" (is "_ = Some ?u")
    using ok1 f1 st comp by (rule completion_found)
  have "find_task live_task i d' = Some ?u"
  proof (rule find_task_key)
    show "distinct (map t_id (db_tasks d'))"
      using db_ok_distinct [OF update_completion_ok [OF ok1 comp]] .
    show "?u \<in> set (db_tasks d')" using find_task_Some [OF u] by blast
    show "t_id ?u = i" using tid by simp
    show "live_task ?u" using live task by simp
  qed
  moreover have "dict_get (completion_task_data False None kvs') ''error_subtype'' = None"
    by (simp add: completion_task_data_def)
  ultimately have "resume_task later i d' = (Inr (ResumeNotResumable None), d')" for later
    by (simp add: resume_task_def resumable_subtype_def)
  moreover have "msg' = msg" using failed(1) by simp
  then have "msg \<noteq> [] \<longrightarrow> t_result ?u = Some (JObj [(''error'', JStr msg)])"
    by (simp add: completion_result_def true_string_def)
  ultimately show ?thesis using u by (intro exI [of _ ?u]) simp
qed auto

text \<open>A session service that always answers, and one that always fails.\<close>

definition ex_env :: "string + string \<Rightarrow> exec_env" where
  "ex_env answer = \<lparr>env_default_agent_name = ''default'', env_gateway = None, env_json_text = (\<lambda>_. ''''),
     env_exn_text = (\<lambda>_. ''error''), env_create_session = (\<lambda>req d. (answer, d))\<rparr>"

lemma ex_env_ok: "session_service_ok (ex_env answer)"
  by (simp add: session_service_ok_def ex_env_def)

theorem execute_task_setup_failure_witness:
  "\<exists>d'. snd (snd (execute_task (ex_env (Inl ''no capacity'')) 6 (\<lambda>_. False) 2 (ex_db [ex_task 2 READY []]))) = d' \<and>
     (\<forall>later. resume_task later 2 d' = (Inr (ResumeNotResumable None), d'))"
proof -
  let ?d = "ex_db [ex_task 2 READY []]"
  have ok: "db_ok ?d" by (simp add: db_ok_def task_ok_def ex_defs)
  have ids: "\<forall>t \<in> set (db_tasks ?d). \<exists>ids. sum_map parse_uuid (or_empty (t_assigned_session_ids t)) = Inr ids"
    by (simp add: ex_defs)
  have "fst (execute_task (ex_env (Inl ''no capacity'')) 6 (\<lambda>_. False) 2 ?d) = SetupFailed ''no capacity''"
    by code_simp
  then obtain ps d' where r: "execute_task (ex_env (Inl ''no capacity'')) 6 (\<lambda>_. False) 2 ?d =
      (SetupFailed ''no capacity'', ps, d')" by (metis prod.collapse)
  from execute_task_setup_failure [OF ex_env_ok ok r ids] show ?thesis by (auto simp: r)
qed

text \<open>
  A successful execution leaves the task \<open>IN_PROGRESS\<close> with the session recorded: the
  identifier is appended to the assigned sessions unless it is there already, so a resumed
  session is never recorded twice.
\<close>

theorem execute_task_records_session:
  assumes "session_service_ok env" "db_ok d"
    and "execute_task env now locked i d = (SessionCreated sid, posted, d')"
  shows "\<exists>old u. find_task (\<lambda>_. True) i d = Some old \<and> find_task (\<lambda>_. True) i d' = Some u \<and>
    t_status u = IN_PROGRESS \<and>
    or_empty (t_assigned_session_ids u) =
      (let ids = or_empty (t_assigned_session_ids old) in if sid \<in> set ids then ids else ids @ [sid])"
  using assms(3)
proof (cases rule: execute_task_cases)
  case (created task kvs d0 sid')
  obtain old td where old: "find_task (\<lambda>_. True) i d = Some old"
    and f0: "find_task (\<lambda>_. True) i d0 = Some task"
    and task: "task = old\<lparr>t_status := IN_PROGRESS, t_task_data := td, t_modified_at := now\<rparr>"
    and i: "t_id old = i"
    using assms(2) created(2) by (rule claimed_row)
  have tid: "t_id task = i" using task i by simp
  have "sid' = sid" using created(1) by simp
  then obtain u where "find_task (\<lambda>_. True) i d' = Some u" "with_session sid task u"
    using run_claimed_task_found [OF assms(1) _ created(3,4)] f0 tid by auto
  with old task show ?thesis by (auto simp: with_session_def Let_def)
qed auto

theorem execute_task_records_session_witness:
  "\<exists>u. find_task (\<lambda>_. True) 2 (snd (snd (execute_task (ex_env (Inr ''s1'')) 6 (\<lambda>_. False) 2 (ex_db [ex_task 2 READY []])))) =
     Some u \<and> or_empty (t_assigned_session_ids u) = [''s1'']"
proof -
  let ?d = "ex_db [ex_task 2 READY []]"
  have ok: "db_ok ?d" by (simp add: db_ok_def task_ok_def ex_defs)
  have old: "find_task (\<lambda>_. True) 2 ?d = Some (ex_task 2 READY [])" by (simp add: find_task_def ex_defs)
  have "fst (execute_task (ex_env (Inr ''s1'')) 6 (\<lambda>_. False) 2 ?d) = SessionCreated ''s1''"
    by code_simp
  then obtain ps d' where r: "execute_task (ex_env (Inr ''s1'')) 6 (\<lambda>_. False) 2 ?d =
      (SessionCreated ''s1'', ps, d')" by (metis prod.collapse)
  have none: "t_assigned_session_ids (ex_task 2 READY []) = None" by (simp add: ex_defs)
  from execute_task_records_session [OF ex_env_ok ok r] show ?thesis by (auto simp: r old none)
qed

section \<open>Resumption\<close>

text \<open>
  C6: A resumption is accepted only for a live failed task with a resumable error and a
  session; it makes the task \<open>READY\<close> again, keeps the error type, and the next execution
  continues the last session.
\<close>

theorem resume_task_resumes:
  assumes "db_ok d" "resume_task now i d = (Inr (ResumeQueued sid sub), d')"
  shows "\<exists>t u kvs. find_task live_task i d = Some t \<and> t_status t = FAILED \<and>
    sub \<in> set RESUMABLE_ERROR_SUBTYPES \<and> or_empty (t_assigned_session_ids t) \<noteq> [] \<and>
    find_task (\<lambda>_. True) i d' = Some u \<and> t_status u = READY \<and> t_completed_at u = None \<and>
    t_task_data u = Some (JObj kvs) \<and> dict_get kvs ''error_subtype'' = Some (JStr sub) \<and>
    session_to_resume u kvs = Some sid \<and> sid = last (or_empty (t_assigned_session_ids t))"
proof (cases rule: resume_task_cases [of now i d])
  case unchanged
  with assms(2) show ?thesis by simp
next
  case (queued t kvs sub')
  let ?kvs = "dict_set ''resume_session'' (JBool True) kvs"
  have t: "t \<in> set (db_tasks d)" "t_id t = i" using find_task_Some [OF queued(1)] by auto
  have "find_task (\<lambda>_. True) i d = Some t"
    by (rule find_task_key [OF db_ok_distinct [OF assms(1)] t]) simp
  then have u: "find_task (\<lambda>_. True) i d' = Some (t\<lparr>t_status := READY, t_completed_at := None,
      t_task_data := Some (JObj ?kvs), t_modified_at := now\<rparr>)" (is "_ = Some ?u")
    using assms(2) queued(7) by (auto simp: find_task_write)
  have "session_to_resume ?u ?kvs = Some (last (or_empty (t_assigned_session_ids t)))"
    using queued(6) by (simp add: session_to_resume_def json_true_def)
  with u queued assms(2) show ?thesis
    by (intro exI [of _ t] exI [of _ ?u] exI [of _ ?kvs]) auto
qed

theorem resume_task_resumes_witness:
  "\<exists>u. find_task (\<lambda>_. True) 2 (snd (resume_task 8 2 (ex_db [(ex_task 2 FAILED [])\<lparr>t_assigned_session_ids := Some [''s1''],
     t_task_data := Some (JObj [(''error_subtype'', JStr ''error_max_turns'')])\<rparr>]))) = Some u \<and> t_status u = READY"
proof -
  let ?d = "ex_db [(ex_task 2 FAILED [])\<lparr>t_assigned_session_ids := Some [''s1''],
     t_task_data := Some (JObj [(''error_subtype'', JStr ''error_max_turns'')])\<rparr>]"
  have ok: "db_ok ?d" by (simp add: db_ok_def task_ok_def ex_defs)
  have "fst (resume_task 8 2 ?d) = Inr (ResumeQueued ''s1'' ''error_max_turns'')" by code_simp
  then obtain d' where r: "resume_task 8 2 ?d = (Inr (ResumeQueued ''s1'' ''error_max_turns''), d')"
    by (metis prod.collapse)
  from resume_task_resumes [OF ok r] show ?thesis by (auto simp: r)
qed

end
