(* ===== verification/Poll_Properties.thy ===== *)
theory Poll_Properties
  imports Examples
begin

text \<open>
  The properties of the polling loop: what one poll spawns, the limits it respects, and the
  back-off of projects the rate limiter refuses.
\<close>

definition ex_cfg :: poll_config where
  "ex_cfg = \<lparr>pc_batch_size = 2, pc_max_per_project = 3, pc_backoff_seconds = 300,
     pc_max_backoff_seconds = 3600, pc_max_strikes = 5, pc_max_executions = 20\<rparr>"

definition ex_world :: "db \<Rightarrow> bool \<Rightarrow> poll_world" where
  "ex_world d allow = \<lparr>pw_db = (\<lambda>_. d), pw_cache_alive = (\<lambda>_ _. True), pw_is_allowed = (\<lambda>_ _. allow),
     pw_active_turns = (\<lambda>_. 0)\<rparr>"

definition ex_state :: poll_state where
  "ex_state = \<lparr>ps_limited = Map.empty, ps_capacity = Map.empty, ps_cycle = Map.empty, ps_spawned = [], ps_alerts = []\<rparr>"

lemmas poll_defs = ex_cfg_def ex_world_def ex_state_def

lemma subseq_in: "subseq xs ys \<Longrightarrow> x \<in> set xs \<Longrightarrow> x \<in> set ys"
  by (induction rule: list_emb.induct) auto

text \<open>
  One poll spawns at most a batch of tasks, each one that was ready to be picked up in
  the database it read, none twice, and in the order of their priority.
\<close>

theorem poll_spawns_a_batch:
  assumes "0 < pc_batch_size cfg" "poll_and_execute_ready_tasks cfg w clock now locked d st = (st', d')"
  shows "subseq (ps_spawned st') (get_ready_tasks (pc_batch_size cfg * 3) d') \<and>
    length (ps_spawned st') \<le> pc_batch_size cfg \<and> list_all (can_pick_up d') (ps_spawned st')"
proof -
  have d': "d' = snd (resolve_task_dependencies clock locked d)"
    and st': "st' = poll_loop cfg w now 0 (get_ready_tasks (pc_batch_size cfg * 3) d')
      (st\<lparr>ps_cycle := Map.empty, ps_spawned := []\<rparr>)"
    using assms(2) by (auto simp: poll_and_execute_ready_tasks_def Let_def)
  have s: "subseq (ps_spawned st') (get_ready_tasks (pc_batch_size cfg * 3) d') \<and>
      length (ps_spawned st') \<le> pc_batch_size cfg"
    unfolding st' by (rule poll_loop_spawns [OF assms(1)]) simp
  have "can_pick_up d' t" if "t \<in> set (ps_spawned st')" for t
  proof -
    from s that have "t \<in> set (get_ready_tasks (pc_batch_size cfg * 3) d')"
      by (blast intro: subseq_in)
    then show ?thesis by (auto simp: get_ready_tasks_def dest: in_set_takeD)
  qed
  with s show ?thesis by (simp add: list_all_iff)
qed

theorem poll_spawns_a_batch_witness:
  "length (ps_spawned (fst (poll_and_execute_ready_tasks ex_cfg
      (ex_world (ex_db [ex_task 2 READY [], ex_task 3 READY [], ex_task 4 READY []]) True) 5 0 (\<lambda>_. False)
      (ex_db [ex_task 2 READY [], ex_task 3 READY [], ex_task 4 READY []]) ex_state))) \<le> 2"
proof -
  let ?d = "ex_db [ex_task 2 READY [], ex_task 3 READY [], ex_task 4 READY []]"
  obtain st' d' where r: "poll_and_execute_ready_tasks ex_cfg (ex_world ?d True) 5 0 (\<lambda>_. False) ?d ex_state = (st', d')"
    by (rule prod.exhaust)
  have "0 < pc_batch_size ex_cfg" by (simp add: ex_cfg_def)
  from poll_spawns_a_batch [OF this r] show ?thesis by (simp add: r) (simp add: ex_cfg_def)
qed

text \<open>
  C7: The limit on parallel tasks of a project holds across a batch. Let the database be the same
  throughout the poll and the counts in the cache be those of this database. Then either no task
  is spawned for a project in this cycle, or the tasks of the project already running and those spawned for it
  are together at most the limit, although the database does not show the spawned ones yet. (The
  running ones alone may exceed a limit that was lowered; then none is spawned.)
\<close>

theorem poll_respects_project_capacity:
  assumes "poll_and_execute_ready_tasks cfg w clock now locked d st = (st', d')"
    and "\<forall>k. pw_db w k = d'"
    and "\<forall>p n. ps_capacity st p = Some n \<longrightarrow> n = in_progress_count d' p"
  shows "spawned_for p st' = 0 \<or> in_progress_count d' p + spawned_for p st' \<le> pc_max_per_project cfg"
proof -
  have st': "st' = poll_loop cfg w now 0 (get_ready_tasks (pc_batch_size cfg * 3) d')
      (st\<lparr>ps_cycle := Map.empty, ps_spawned := []\<rparr>)"
    using assms(1) by (auto simp: poll_and_execute_ready_tasks_def Let_def)
  have "capacity_inv cfg d' st'"
    unfolding st' by (rule poll_loop_capacity [OF assms(2)]) (use assms(3) in \<open>simp add: capacity_inv_def spawned_for_def\<close>)
  then show ?thesis unfolding capacity_inv_def by blast
qed

theorem poll_respects_project_capacity_witness:
  "spawned_for 1 (fst (poll_and_execute_ready_tasks ex_cfg
      (ex_world (ex_db [ex_task 2 READY [], ex_task 3 IN_PROGRESS [], ex_task 4 IN_PROGRESS []]) True) 5 0 (\<lambda>_. False)
      (ex_db [ex_task 2 READY [], ex_task 3 IN_PROGRESS [], ex_task 4 IN_PROGRESS []]) ex_state)) \<le> 1"
proof -
  let ?d = "ex_db [ex_task 2 READY [], ex_task 3 IN_PROGRESS [], ex_task 4 IN_PROGRESS []]"
  obtain st' d' where r: "poll_and_execute_ready_tasks ex_cfg (ex_world ?d True) 5 0 (\<lambda>_. False) ?d ex_state = (st', d')"
    by (rule prod.exhaust)
  have "resolve_task_dependencies 5 (\<lambda>_. False) ?d = (Inr 0, ?d)"
    by (simp add: resolve_task_dependencies_def resolve_candidate_def ex_defs)
  with r have d': "d' = ?d" by (auto simp: poll_and_execute_ready_tasks_def Let_def)
  have n: "in_progress_count d' 1 = 2" by (simp add: d' in_progress_count_def ex_defs)
  have w: "\<forall>k. pw_db (ex_world ?d True) k = d'" by (simp add: ex_world_def d')
  have c: "\<forall>p n. ps_capacity ex_state p = Some n \<longrightarrow> n = in_progress_count d' p" by (simp add: ex_state_def)
  have m: "pc_max_per_project ex_cfg = 3" by (simp add: ex_cfg_def)
  from poll_respects_project_capacity [OF r w c, of 1] show ?thesis
    by (auto simp: r n m)
qed

text \<open>
  A project in its cooldown is left alone: nothing of it is spawned, the rate limiter's
  verdict cannot change its entry, and the number of its strikes is kept for the next refusal.
\<close>

theorem poll_skips_cooldown:
  assumes "ps_limited st (str_uuid p) = Some (cooldown_until, hits)" "now < cooldown_until"
    and "poll_and_execute_ready_tasks cfg w clock now locked d st = (st', d')"
  shows "ps_limited st' (str_uuid p) = Some (cooldown_until, hits) \<and>
    list_all (\<lambda>t. t_project_id t \<noteq> p) (ps_spawned st')"
proof -
  have st': "st' = poll_loop cfg w now 0 (get_ready_tasks (pc_batch_size cfg * 3) d')
      (st\<lparr>ps_cycle := Map.empty, ps_spawned := []\<rparr>)"
    using assms(3) by (auto simp: poll_and_execute_ready_tasks_def Let_def)
  have "in_cooldown now (st\<lparr>ps_cycle := Map.empty, ps_spawned := []\<rparr>) p" using assms(1,2) by simp
  from poll_loop_cooldown [OF this, of cfg w 0 "get_ready_tasks (pc_batch_size cfg * 3) d'"] assms(1)
  show ?thesis unfolding st' by (simp add: list_all_iff)
qed

theorem poll_skips_cooldown_witness:
  "ps_spawned (fst (poll_and_execute_ready_tasks ex_cfg (ex_world (ex_db []) True) 5 10 (\<lambda>_. False)
     (ex_db [ex_task 2 READY []]) (ex_state\<lparr>ps_limited := [str_uuid 1 \<mapsto> (300, 1)]\<rparr>))) = []"
proof -
  let ?d = "ex_db [ex_task 2 READY []]" let ?st = "ex_state\<lparr>ps_limited := [str_uuid 1 \<mapsto> (300, 1)]\<rparr>"
  obtain st' d' where r: "poll_and_execute_ready_tasks ex_cfg (ex_world (ex_db []) True) 5 10 (\<lambda>_. False) ?d ?st = (st', d')"
    by (rule prod.exhaust)
  have l: "ps_limited ?st (str_uuid 1) = Some (300, 1)" by simp
  have "(10 :: rat) < 300" by simp
  from poll_skips_cooldown [OF l this r] have none: "list_all (\<lambda>t. t_project_id t \<noteq> 1) (ps_spawned st')" by simp
  have "resolve_task_dependencies 5 (\<lambda>_. False) ?d = (Inr 0, ?d)"
    by (simp add: resolve_task_dependencies_def resolve_candidate_def ex_defs)
  then have d': "d' = ?d" and st': "st' = poll_loop ex_cfg (ex_world (ex_db []) True) 10 0 (get_ready_tasks 6 ?d)
      (?st\<lparr>ps_cycle := Map.empty, ps_spawned := []\<rparr>)"
    using r by (auto simp: poll_and_execute_ready_tasks_def Let_def ex_cfg_def)
  have "set (ps_spawned st') \<subseteq> set (get_ready_tasks 6 ?d)"
  proof -
    have "0 < pc_batch_size ex_cfg" by (simp add: ex_cfg_def)
    moreover have "ps_spawned (?st\<lparr>ps_cycle := Map.empty, ps_spawned := []\<rparr>) = []" by simp
    ultimately have "subseq (ps_spawned st') (get_ready_tasks 6 ?d)"
      unfolding st' by (rule poll_loop_spawns [THEN conjunct1])
    then show ?thesis by (blast intro: subseq_in)
  qed
  moreover have "t_project_id t = 1" if "t \<in> set (get_ready_tasks 6 ?d)" for t
  proof -
    from that have "t \<in> set (db_tasks ?d)" by (auto simp: get_ready_tasks_def dest: in_set_takeD)
    then show ?thesis by (simp add: ex_defs)
  qed
  ultimately have "ps_spawned st' = []" using none by (cases "ps_spawned st'") auto
  then show ?thesis unfolding r by simp
qed

text \<open>
  The back-off after a refusal. The first strike waits for the base time, every further
  consecutive strike for twice as long, never beyond the maximum; a refusal writes exactly
  the next entry, spawns nothing, and raises an alert from the configured number of strikes on.
\<close>

theorem rate_limit_backoff:
  "backoff_seconds cfg 1 = min (pc_backoff_seconds cfg) (pc_max_backoff_seconds cfg) \<and>
   backoff_seconds cfg (h + 2) = min (2 * backoff_seconds cfg (h + 1)) (pc_max_backoff_seconds cfg) \<and>
   (let st' = record_denial cfg now task h st
    in ps_limited st' = (ps_limited st)(str_uuid (t_project_id task) \<mapsto>
         (now + of_nat (backoff_seconds cfg (h + 1)), h + 1)) \<and>
       ps_spawned st' = ps_spawned st \<and>
       ps_alerts st' = ps_alerts st @
         (if pc_max_strikes cfg \<le> h + 1 then [(t_project_id task, t_id task, h + 1)] else []))"
proof -
  have "backoff_seconds cfg (h + 2) = min (2 * backoff_seconds cfg (h + 1)) (pc_max_backoff_seconds cfg)"
    by (simp add: backoff_seconds_def min_def)
  then show ?thesis
    by (simp add: backoff_seconds_def record_denial_def Let_def)
qed

end
