(* ===== verification/Tool_Properties.thy ===== *)
theory Tool_Properties
  imports Examples
begin

text \<open>
  The properties of the project tools and of the dependency graph they maintain: cycle
  detection, ownership, status changes, promotion, claiming, restarting, creation of tasks,
  summaries and shared state.
\<close>

section \<open>Cycle detection\<close>

text \<open>
  C8: The search of \<open>set_task_dependencies\<close> is exact: with its explicit stack and visited
  set it terminates on every graph and answers True exactly when the start node lies on a cycle.
\<close>

theorem dependency_search_exact: "stack_cycle g s \<longleftrightarrow> (s, s) \<in> (edges g)\<^sup>+"
  by (rule stack_cycle_iff)

text \<open>
  The three-colour search of \<open>add_tasks\<close> is exact on the graph it builds from a batch: a
  batch is refused exactly when the references among its own names contain a cycle.
\<close>

lemma local_deps_inside: "set (succs (local_deps tds) n) \<subseteq> set (map def_name tds)"
proof
  fix x
  assume "x \<in> set (succs (local_deps tds) n)"
  then obtain ds where "map_of (local_deps tds) n = Some ds" "x \<in> set ds"
    by (cases "map_of (local_deps tds) n") (simp_all add: succs_def)
  then have "(n, ds) \<in> set (local_deps tds)" by (blast dest: map_of_SomeD)
  with \<open>x \<in> set ds\<close> show "x \<in> set (map def_name tds)" by (auto simp: local_deps_def Let_def)
qed

theorem batch_search_exact:
  "batch_cycle (local_deps tds) (map def_name tds) \<longleftrightarrow> \<not> acyclic (edges (local_deps tds))"
  by (rule batch_cycle_iff) (rule local_deps_inside)

text \<open>
  C9: \<open>set_task_dependencies\<close> keeps a project's dependency graph free of cycles, as long as
  identifiers are spelt canonically: the caller's task identifier, and the stored dependencies.
\<close>

theorem set_task_dependencies_acyclic:
  assumes "db_ok d" "canonical_deps p d" "acyclic (dep_edges p d)"
    and "find_task live_task i d = Some task" "t_project_id task = p"
    and "mcp_set_task_dependencies cx (str_uuid i) deps d = (Inr r, d')"
  shows "acyclic (dep_edges p d')"
  using assms(6)
proof (rule mcp_dependencies_applied)
  fix j task' vs us
  assume j: "parse_uuid (str_uuid i) = Inr j" "find_task live_task j d = Some task'"
    "apply_dependencies (cx_now cx) (str_uuid i) task' us d = Inr d'"
  then have "task' = task" using assms(4) by simp
  with j(3) show ?thesis using apply_dependencies_acyclic [OF assms(1-5)] by simp
qed

theorem set_task_dependencies_acyclic_witness:
  "acyclic (dep_edges 1 (snd (mcp_set_task_dependencies (ex_cx ''alice'') (str_uuid 3) (Some (JList [JStr (str_uuid 2)]))
     (ex_db [ex_task 2 READY [], ex_task 3 READY []]))))"
proof (rule ex_waits_for [of "''alice''"])
  let ?d = "ex_db [ex_task 2 READY [], ex_task 3 READY []]"
  fix r d'
  assume r: "mcp_set_task_dependencies (ex_cx ''alice'') (str_uuid 3) (Some (JList [JStr (str_uuid 2)])) ?d = (Inr r, d')"
  have ok: "db_ok ?d" by (simp add: db_ok_def task_ok_def ex_defs)
  have c: "canonical_deps 1 ?d" by (simp add: canonical_deps_def ex_defs)
  have "dep_edges 1 ?d = {}" by (auto simp: dep_edges_def ex_defs)
  then have a: "acyclic (dep_edges 1 ?d)" by (simp add: acyclic_def)
  have f: "find_task live_task 3 ?d = Some (ex_task 3 READY [])" by (simp add: find_task_def ex_defs)
  have p: "t_project_id (ex_task 3 READY []) = 1" by (simp add: ex_defs)
  from set_task_dependencies_acyclic [OF ok c a f p r] show ?thesis by (simp add: r)
qed

text \<open>
  C10: With any other spelling of the same identifier the check is void. A caller who writes the
  task identifier in capitals, without hyphens or in braces can make two tasks wait for each
  other: whatever the requested dependencies depend on, the change is accepted and stored.
\<close>

lemma parse_dependencies_texts: "parse_dependencies (map (\<lambda>u. JStr (str_uuid u)) us) = Inr us"
  by (induction us) simp_all

theorem set_task_dependencies_spelling_gap:
  assumes "db_ok d" "canonical_deps p d" "cx_caller cx = Some user"
    and "parse_uuid task_id = Inr i" "\<not> canonical task_id"
    and "find_task live_task i d = Some task" "t_project_id task = p"
    and "find_task live_task u d = Some other" "t_project_id other = p" "u \<noteq> i"
    and "str_uuid i \<in> set (deps_of other)"
  shows "\<exists>r d'. mcp_set_task_dependencies cx task_id (Some (JList [JStr (str_uuid u)])) d = (Inr r, d') \<and>
    (i, u) \<in> dep_edges p d' \<and> (u, i) \<in> dep_edges p d'"
proof -
  have task: "task \<in> set (db_tasks d)" "t_id task = i" "live_task task" using find_task_Some [OF assms(6)] by auto
  have other: "other \<in> set (db_tasks d)" "t_id other = u" "live_task other" using find_task_Some [OF assms(8)] by auto
  have "other \<in> set (existing_deps task [u] d)"
    using other assms(7,9) by (simp add: existing_deps_def)
  then have "set [u] \<subseteq> t_id ` set (existing_deps task [u] d)" using other(2) by force
  moreover have "\<not> stack_cycle (dep_graph (t_project_id task) task_id [u] d) task_id"
    using foreign_key_no_cycle [OF assms(2,5)] assms(7) by simp
  ultimately obtain c where "check_dependencies task_id task [u] d = Inr c"
    by (simp add: check_dependencies_Inr)
  then have ap: "apply_dependencies (cx_now cx) task_id task [u] d =
      Inr (write_task (cx_now cx) i (with_dependencies [u] c) d)"
    by (simp add: apply_dependencies_def task(2))
  let ?d = "write_task (cx_now cx) i (with_dependencies [u] c) d"
  have "(with_dependencies [u] c task)\<lparr>t_modified_at := cx_now cx\<rparr> \<in> set (db_tasks ?d)"
    by (rule row_written [OF task(1,2)])
  then have e1: "(i, u) \<in> dep_edges p ?d"
    by (rule dep_edgesI [where s = "str_uuid u"])
       (use task assms(7) in \<open>simp_all add: with_dependencies_def\<close>)
  have "other \<in> set (db_tasks ?d)" using other assms(10) by (intro kept_row) auto
  then have e2: "(u, i) \<in> dep_edges p ?d"
    by (rule dep_edgesI [where s = "str_uuid i"]) (use other assms(9,11) in simp_all)
  have "\<exists>r. mcp_set_task_dependencies cx task_id (Some (JList [JStr (str_uuid u)])) d = (Inr r, ?d)"
    using assms(3,4,6,10) ap
    by (simp add: mcp_set_task_dependencies_def require_caller_user_id_def parse_id_def)
  with e1 e2 show ?thesis by blast
qed

theorem set_task_dependencies_spelling_gap_witness:
  "\<not> acyclic (dep_edges 1 (snd (mcp_set_task_dependencies (ex_cx ''bob'') ''000000000000000000000000000000AB''
     (Some (JList [JStr (str_uuid 2)])) (ex_db [ex_task 171 READY [], ex_task 2 BLOCKED [171]]))))"
proof -
  let ?d = "ex_db [ex_task 171 READY [], ex_task 2 BLOCKED [171]]"
  have ok: "db_ok ?d" by (simp add: db_ok_def task_ok_def ex_defs)
  have c: "canonical_deps 1 ?d" by (simp add: canonical_deps_def ex_defs)
  have cx: "cx_caller (ex_cx ''bob'') = Some ''bob''" by (simp add: ex_cx_def)
  have i: "parse_uuid ''000000000000000000000000000000AB'' = Inr 171" by code_simp
  have n: "\<not> canonical ''000000000000000000000000000000AB''" by code_simp
  have f: "find_task live_task 171 ?d = Some (ex_task 171 READY [])"
    "find_task live_task 2 ?d = Some (ex_task 2 BLOCKED [171])"
    by (simp_all add: find_task_def ex_defs)
  have p: "t_project_id (ex_task 171 READY []) = 1" "t_project_id (ex_task 2 BLOCKED [171]) = 1"
    by (simp_all add: ex_defs)
  have u: "(2 :: uuid) \<noteq> 171" by simp
  have s: "str_uuid 171 \<in> set (deps_of (ex_task 2 BLOCKED [171]))" by (simp add: ex_defs)
  from set_task_dependencies_spelling_gap [OF ok c cx i n f(1) p(1) f(2) p(2) u s]
  obtain r d' where r: "mcp_set_task_dependencies (ex_cx ''bob'') ''000000000000000000000000000000AB''
      (Some (JList [JStr (str_uuid 2)])) ?d = (Inr r, d')"
    and e: "(171, 2) \<in> dep_edges 1 d'" "(2, 171) \<in> dep_edges 1 d'" by blast
  from e have "(171, 171) \<in> (dep_edges 1 d')\<^sup>+" by (meson r_into_trancl trancl_into_trancl)
  then show ?thesis unfolding r by (auto simp: acyclic_def)
qed

end
