(* ===== verification/Access_Properties.thy ===== *)
theory Access_Properties
  imports Examples
begin

text \<open>
  Who may change what: the four tools that check the ownership of a project, and the tools
  that change a project or its tasks for any authenticated caller.
\<close>

lemma foreign_project_refused:
  assumes "user \<noteq> ''None''" "p_creator_user_id project \<noteq> Some user"
  shows "check_project_ownership project user False = Some NotAuthorized"
  using assms by (cases "p_creator_user_id project") (simp_all add: check_project_ownership_def)

lemma resolved_caller: "resolve_caller_for_project_auth cx = Inr (user, admin) \<Longrightarrow> require_caller_user_id cx = Inr user"
  by (auto simp: resolve_caller_for_project_auth_def Let_def split: sum.splits)

text \<open>A body that cannot succeed leaves the database as it was.\<close>

lemma transact_refused:
  assumes "\<And>r d'. body \<noteq> Inr (r, d')" shows "\<exists>e. transact d body = (Inl e, d)"
  using assms by (cases body) (auto simp: transact_def)

text \<open>
  C11: Ownership is enforced where it is checked. A caller who is no administrator and did not
  create the project cannot change its status or fields, nor the status or fields of any of its
  tasks: whatever the arguments, the four tools answer with an error and change nothing.
\<close>

theorem ownership_enforced:
  assumes "resolve_caller_for_project_auth cx = Inr (user, False)" "user \<noteq> ''None''"
    and "list_all (\<lambda>project. p_id project \<noteq> p \<or> p_creator_user_id project \<noteq> Some user) (db_projects d)"
    and "parse_uuid task_id = Inr i" "find_task live_task i d = Some task" "t_project_id task = p"
    and "parse_uuid project_id = Inr p"
  shows "(\<exists>e. mcp_set_task_status cx task_id status result d = (Inl e, d)) \<and>
    (\<exists>e. mcp_update_task cx task_id u d = (Inl e, d)) \<and>
    (\<exists>e. mcp_set_project_status cx project_id pstatus d = (Inl e, d)) \<and>
    (\<exists>e. mcp_update_project cx project_id pu d = (Inl e, d))"
proof -
  have foreign: "check_project_ownership project user False = Some NotAuthorized"
    if "find_project live_project p d = Some project" for project
  proof (rule foreign_project_refused [OF assms(2)])
    have "project \<in> set (db_projects d)" "p_id project = p"
      using that by (auto simp: find_project_def dest: get_row_Some)
    with assms(3) show "p_creator_user_id project \<noteq> Some user" by (auto simp: list_all_iff)
  qed
  have task: "\<exists>e. check_task_ownership task_id task user False d = Some e"
    using foreign assms(6)
    by (cases "find_project live_project p d") (simp_all add: check_task_ownership_def load_project_for_task_def)
  have project: "owned_project cx project_id p d (user, False) \<noteq> Inr project" for project
    using foreign by (cases "find_project live_project p d") (simp_all add: owned_project_def)
  note checks = resolved_caller [OF assms(1)] assms(1,4,5,7) parse_id_def
  have "\<exists>e. mcp_set_task_status cx task_id status result d = (Inl e, d)"
    unfolding mcp_set_task_status_def
    by (rule transact_refused) (use task in \<open>auto simp: sum_bind_Inr checks\<close>)
  moreover have "\<exists>e. mcp_update_task cx task_id u d = (Inl e, d)"
    unfolding mcp_update_task_def
    by (rule transact_refused) (use task in \<open>auto simp: sum_bind_Inr checks\<close>)
  moreover have "\<exists>e. mcp_set_project_status cx project_id pstatus d = (Inl e, d)"
    unfolding mcp_set_project_status_def
    by (rule transact_refused) (use project in \<open>auto simp: sum_bind_Inr checks\<close>)
  moreover have "\<exists>e. mcp_update_project cx project_id pu d = (Inl e, d)"
    unfolding mcp_update_project_def
    by (rule transact_refused) (use project in \<open>auto simp: sum_bind_Inr checks\<close>)
  ultimately show ?thesis by blast
qed

theorem ownership_enforced_witness:
  "snd (mcp_set_task_status (ex_cx ''mallory'') (str_uuid 2) ''CANCELLED'' Absent (ex_db [ex_task 2 READY []])) =
     ex_db [ex_task 2 READY []] \<and>
   snd (mcp_set_project_status (ex_cx ''mallory'') (str_uuid 1) ''ARCHIVED'' (ex_db [ex_task 2 READY []])) =
     ex_db [ex_task 2 READY []]"
proof -
  let ?d = "ex_db [ex_task 2 READY []]"
  have cx: "resolve_caller_for_project_auth (ex_cx ''mallory'') = Inr (''mallory'', False)"
    by (simp add: resolve_caller_for_project_auth_def require_caller_user_id_def require_principal_user_id_def ex_cx_def)
  have f: "find_task live_task 2 ?d = Some (ex_task 2 READY [])" by (simp add: find_task_def ex_defs)
  from ownership_enforced [OF cx _ _ parse_str_uuid f _ parse_str_uuid,
      where p = 1 and status = "''CANCELLED''" and result = Absent and pstatus = "''ARCHIVED''"
        and u = undefined and pu = undefined]
  show ?thesis by (auto simp: ex_defs)
qed

lemma task_view_identity:
  "task_view (cx\<lparr>cx_caller := caller, cx_principal := credential, cx_has_permission := permission\<rparr>) = task_view cx"
  by (intro ext) (simp add: task_view_def split: option.splits)

text \<open>
  The other tools only need some authenticated caller. Restarting, claiming, resuming,
  changing dependencies and writing shared state have the same effect for every authenticated
  user, whoever owns the project and whatever permissions the caller has.
\<close>

theorem ownership_not_checked:
  assumes "cx_caller cx = Some user"
  shows "let other = cx\<lparr>cx_caller := Some anyone, cx_principal := credential, cx_has_permission := permission\<rparr>
    in mcp_restart_task other task_id d = mcp_restart_task cx task_id d \<and>
       mcp_claim_task other locked project_id wanted d = mcp_claim_task cx locked project_id wanted d \<and>
       mcp_resume_failed_task other task_id d = mcp_resume_failed_task cx task_id d \<and>
       mcp_set_task_dependencies other task_id deps d = mcp_set_task_dependencies cx task_id deps d \<and>
       mcp_set_project_state other project_id key v d = mcp_set_project_state cx project_id key v d"
  using assms
  by (simp add: Let_def require_caller_user_id_def task_view_identity mcp_restart_task_def mcp_claim_task_def
      mcp_resume_failed_task_def mcp_set_task_dependencies_def mcp_set_project_state_def cong: if_cong)

theorem ownership_not_checked_witness:
  "mcp_restart_task ((ex_cx ''alice'')\<lparr>cx_caller := Some ''mallory'', cx_principal := None,
     cx_has_permission := \<lambda>_. False\<rparr>) (str_uuid 2) (ex_db [ex_task 2 IN_PROGRESS []]) =
   mcp_restart_task (ex_cx ''alice'') (str_uuid 2) (ex_db [ex_task 2 IN_PROGRESS []])"
  using ownership_not_checked [where cx = "ex_cx ''alice''" and user = "''alice''" and anyone = "''mallory''"
      and credential = None and permission = "\<lambda>_. False" and task_id = "str_uuid 2"
      and d = "ex_db [ex_task 2 IN_PROGRESS []]"]
  by (simp add: Let_def ex_cx_def)

end
