(* ===== verification/Lifecycle_Properties.thy ===== *)
theory Lifecycle_Properties
  imports Examples
begin

text \<open>
  The tools that move tasks between statuses: what a status change requires and does, which
  dependents it promotes, which task a claim takes, and what restarting and changing
  dependencies leave behind.
\<close>

section \<open>The transition table\<close>

text \<open>
  No status is a dead end. In the table of valid transitions every status can be reached
  from every other one; every status but \<open>PENDING\<close> itself allows the reset to \<open>PENDING\<close>; and a
  task becomes \<open>COMPLETED\<close> only out of \<open>IN_PROGRESS\<close> or \<open>IN_REVIEW\<close>.
\<close>

lemma transition_paths:
  fixes s s' :: agent_task_status
  defines "r \<equiv> {(s, s'). s' \<in> set (VALID_TASK_TRANSITIONS s)}"
  shows "(s, s') \<in> r\<^sup>*"
proof -
  have reset: "(s, PENDING) \<in> r\<^sup>*" by (cases s) (auto simp: r_def)
  have ready: "(PENDING, READY) \<in> r\<^sup>*" by (auto simp: r_def)
  have run: "(PENDING, IN_PROGRESS) \<in> r\<^sup>*" by (rule rtrancl_into_rtrancl [OF ready]) (simp add: r_def)
  have "(PENDING, s') \<in> r\<^sup>*"
  proof (cases s')
    case PENDING
    then show ?thesis by simp
  next
    case BLOCKED
    then show ?thesis by (auto simp: r_def)
  next
    case READY
    with ready show ?thesis by simp
  next
    case IN_PROGRESS
    with run show ?thesis by simp
  qed (use run in \<open>auto simp: r_def intro: rtrancl_into_rtrancl\<close>)
  with reset show ?thesis by (rule rtrancl_trans)
qed

theorem no_dead_end:
  "(s, s') \<in> {(s, s'). s' \<in> set (VALID_TASK_TRANSITIONS s)}\<^sup>* \<and>
   (PENDING \<in> set (VALID_TASK_TRANSITIONS s) \<longleftrightarrow> s \<noteq> PENDING) \<and>
   (COMPLETED \<in> set (VALID_TASK_TRANSITIONS s) \<longleftrightarrow> s \<in> {IN_PROGRESS, IN_REVIEW})"
  by (intro conjI transition_paths) (cases s; simp)+

section \<open>Promotion\<close>

text \<open>The dependents a completion promotes.\<close>

definition promoted_by :: "uuid \<Rightarrow> uuid \<Rightarrow> db \<Rightarrow> agent_task \<Rightarrow> bool" where
  "promoted_by i p d t \<longleftrightarrow>
     t_project_id t = p \<and> t_status t \<in> {PENDING, BLOCKED} \<and> live_task t \<and>
     str_uuid i \<in> set (deps_of t) \<and> are_dependencies_completed d t = Inr True"

lemma promoted_by_iff:
  assumes "db_ok d" "t \<in> set (db_tasks d)"
  shows "dependent_candidate p t \<and> depends_and_completed (str_uuid i) d t \<longleftrightarrow> promoted_by i p d t"
proof (cases "str_uuid i \<in> set (deps_of t)")
  case True
  then have n: "deps_of t \<noteq> []" "t_depends_on t \<noteq> None" by (cases "t_depends_on t"; auto)+
  obtain ids where ids: "dep_ids t = Inr ids" using dep_ids_total [OF db_ok_task [OF assms]] by blast
  show ?thesis
    using True n dep_rows_completed_eq [OF assms(1) db_ok_task [OF assms] n(1) ids]
    by (auto simp: dependent_candidate_def depends_and_completed_def promoted_by_def ids)
qed (simp add: depends_and_completed_def promoted_by_def)

text \<open>
  Promotion after a completion is exact. The waiting live tasks of the project that name
  the completed task and whose dependencies are all completed become \<open>READY\<close>, no other row
  changes, and the identifiers returned are those of the promoted tasks.
\<close>

lemma promote_dependents_rows:
  assumes "db_ok d"
  shows "promote_dependents_to_ready now i p d =
    Inr (map (\<lambda>t. str_uuid (t_id t)) (filter (promoted_by i p d) (db_tasks d)),
         d\<lparr>db_tasks := map (\<lambda>t. if promoted_by i p d t then ready_task t\<lparr>t_modified_at := now\<rparr> else t) (db_tasks d)\<rparr>)"
proof -
  have "filter (\<lambda>t. dependent_candidate p t \<and> depends_and_completed (str_uuid i) d t) (db_tasks d) =
      filter (promoted_by i p d) (db_tasks d)"
    by (rule filter_cong [OF refl promoted_by_iff [OF assms]])
  moreover have "map (\<lambda>t. if dependent_candidate p t \<and> depends_and_completed (str_uuid i) d t
        then ready_task t\<lparr>t_modified_at := now\<rparr> else t) (db_tasks d) =
      map (\<lambda>t. if promoted_by i p d t then ready_task t\<lparr>t_modified_at := now\<rparr> else t) (db_tasks d)"
    by (rule map_cong [OF refl]) (simp only: promoted_by_iff [OF assms])
  ultimately show ?thesis unfolding promote_dependents_eq [OF assms] by simp
qed

theorem promote_dependents_exact:
  assumes "db_ok d" "promote_dependents_to_ready now i p d = Inr (newly_ready, d')"
  shows "newly_ready = map (\<lambda>t. str_uuid (t_id t)) (filter (promoted_by i p d) (db_tasks d)) \<and>
    d' = d\<lparr>db_tasks := map (\<lambda>t. if promoted_by i p d t
                               then t\<lparr>t_status := READY, t_modified_at := now\<rparr> else t) (db_tasks d)\<rparr>"
  using assms(2) unfolding promote_dependents_rows [OF assms(1)] by simp

theorem promote_dependents_exact_witness:
  "\<exists>d'. promote_dependents_to_ready 9 2 1 (ex_db [ex_task 2 COMPLETED [], ex_task 3 BLOCKED [2], ex_task 4 BLOCKED [3]]) =
     Inr ([str_uuid 3], d')"
proof -
  let ?d = "ex_db [ex_task 2 COMPLETED [], ex_task 3 BLOCKED [2], ex_task 4 BLOCKED [3]]"
  have ok: "db_ok ?d" by (simp add: db_ok_def task_ok_def ex_defs)
  obtain rs d' where r: "promote_dependents_to_ready 9 2 1 ?d = Inr (rs, d')"
    using promote_dependents_rows [OF ok] by blast
  from promote_dependents_exact [OF ok r]
  have "rs = map (\<lambda>t. str_uuid (t_id t)) (filter (promoted_by 2 1 ?d) (db_tasks ?d))" by simp
  also have "filter (promoted_by 2 1 ?d) (db_tasks ?d) = [ex_task 3 BLOCKED [2]]"
    by (simp add: promoted_by_def are_dependencies_completed_def dep_ids_def ex_defs)
  also have "map (\<lambda>t. str_uuid (t_id t)) [ex_task 3 BLOCKED [2]] = [str_uuid 3]" by (simp add: ex_defs)
  finally show ?thesis using r by simp
qed

section \<open>Changing the status of a task\<close>

text \<open>The rows of a table after one row has been written and some others promoted.\<close>

definition status_changed :: "int \<Rightarrow> uuid \<Rightarrow> agent_task \<Rightarrow> bool \<Rightarrow> uuid \<Rightarrow> db \<Rightarrow> agent_task \<Rightarrow> agent_task" where
  "status_changed now i u completed p d' t =
     (if t_id t = i then u
      else if completed \<and> promoted_by i p d' t then t\<lparr>t_status := READY, t_modified_at := now\<rparr>
      else t)"

text \<open>Promoting unfinished rows does not change any verdict on dependencies.\<close>

lemma verdict_after_promotion:
  assumes "db_ok d" "\<And>t. p t \<Longrightarrow> t_status t \<in> {PENDING, BLOCKED}" "task_ok t"
  shows "are_dependencies_completed
      (d\<lparr>db_tasks := map (\<lambda>t. if p t then ready_task t\<lparr>t_modified_at := now\<rparr> else t) (db_tasks d)\<rparr>) t = Inr True \<longleftrightarrow>
    are_dependencies_completed d t = Inr True"
proof -
  let ?h = "\<lambda>t. if p t then ready_task t\<lparr>t_modified_at := now\<rparr> else t"
  let ?d = "d\<lparr>db_tasks := map ?h (db_tasks d)\<rparr>"
  obtain ids where ids: "dep_ids t = Inr ids" using dep_ids_total [OF assms(3)] by blast
  have ok: "db_ok ?d" by (rule db_ok_ready_update [OF assms(1,2)])
  have same: "(t_id (?h u) = i \<and> t_status (?h u) = COMPLETED \<and> live_task (?h u)) \<longleftrightarrow>
      (t_id u = i \<and> t_status u = COMPLETED \<and> live_task u)" for u i
    using assms(2) [of u] by auto
  have "(\<exists>u \<in> set (db_tasks ?d). t_id u = i \<and> t_status u = COMPLETED \<and> live_task u) \<longleftrightarrow>
      (\<exists>u \<in> set (db_tasks d). t_id u = i \<and> t_status u = COMPLETED \<and> live_task u)" for i
  proof -
    have "db_tasks ?d = map ?h (db_tasks d)" by simp
    then show ?thesis by (simp only: set_map bex_simps same)
  qed
  then show ?thesis
    unfolding are_dependencies_completed_iff [OF db_ok_distinct [OF ok] ids]
      are_dependencies_completed_iff [OF db_ok_distinct [OF assms(1)] ids] by blast
qed

lemma promoted_by_after_promotion:
  assumes "db_ok d" "\<And>t. q t \<Longrightarrow> t_status t \<in> {PENDING, BLOCKED}" "task_ok t"
  shows "promoted_by i p (d\<lparr>db_tasks := map (\<lambda>t. if q t then ready_task t\<lparr>t_modified_at := now\<rparr> else t) (db_tasks d)\<rparr>) t =
    promoted_by i p d t"
  unfolding promoted_by_def using verdict_after_promotion [OF assms] by simp

text \<open>A selection that skips the rows a rewriting touches.\<close>

lemma filter_rewritten:
  "(\<And>t. t \<in> set ts \<Longrightarrow> p (k t) = q t) \<Longrightarrow> (\<And>t. t \<in> set ts \<Longrightarrow> q t \<Longrightarrow> k t = t) \<Longrightarrow>
     filter p (map k ts) = filter q ts"
  by (induction ts) auto

lemma status_statement:
  assumes "db_ok d" "find_task live_task i d = Some task"
    and "validate_task_status_change d task target = Inr None"
    and "(if terminal target then raising_status (complete_task now d task target result True)
          else Inr (write_task now (t_id task)
               (\<lambda>t. t\<lparr>t_status := target, t_result := (if result = None then t_result t else result),
                      t_completed_at := None\<rparr>) d)) = Inr d1"
  obtains u where "t_id u = i" "live_task u" "t_status u = target" "t_depends_on u = t_depends_on task"
    "t_completed_at u = (if terminal target then Some now else None)"
    "t_result u = (if result = None then t_result task else result)"
    "d1 = d\<lparr>db_tasks := map (\<lambda>t. if t_id t = i then u else t) (db_tasks d)\<rparr>"
proof -
  have task: "t_id task = i" "live_task task" using find_task_Some [OF assms(2)] by auto
  have rows: "write_task now i f d =
      d\<lparr>db_tasks := map (\<lambda>t. if t_id t = i then (f task)\<lparr>t_modified_at := now\<rparr> else t) (db_tasks d)\<rparr>" for f
    using found_is_written [OF assms(1,2)] by (auto simp: write_task_def modify_def)
  show ?thesis
  proof (cases "terminal target")
    case True
    with assms(4) have c: "complete_task now d task target result True = Inr d1" by simp
    show ?thesis
      using c by (rule complete_task_cases) (rule that, use task True rows in auto)
  next
    case False
    with assms(4) task rows have "d1 = d\<lparr>db_tasks := map (\<lambda>t. if t_id t = i
        then task\<lparr>t_status := target, t_result := (if result = None then t_result task else result),
               t_completed_at := None, t_modified_at := now\<rparr> else t) (db_tasks d)\<rparr>" by simp
    with False task show ?thesis by (intro that) auto
  qed
qed

text \<open>The statements after the checks, when they succeed.\<close>

lemma apply_task_status_rows:
  assumes "db_ok d" "find_task live_task i d = Some task"
    and "validate_task_status_change d task target = Inr None"
    and "apply_task_status promote_dependents_to_ready now task target result d = Inr (newly_ready, d')"
  obtains u where "t_id u = i" "live_task u" "t_status u = target" "t_depends_on u = t_depends_on task"
    "t_completed_at u = (if terminal target then Some now else None)"
    "t_result u = (if result = None then t_result task else result)"
    "d' = d\<lparr>db_tasks := map (status_changed now i u (target = COMPLETED) (t_project_id task) d') (db_tasks d)\<rparr>"
    "newly_ready = (if target = COMPLETED
       then map (\<lambda>t. str_uuid (t_id t)) (filter (\<lambda>t. t_id t \<noteq> i \<and> promoted_by i (t_project_id task) d' t) (db_tasks d))
       else [])"
proof -
  let ?p = "t_project_id task"
  have i: "t_id task = i" using find_task_Some [OF assms(2)] by simp
  from assms(4) obtain d1 where
    s: "(if terminal target then raising_status (complete_task now d task target result True)
          else Inr (write_task now (t_id task)
               (\<lambda>t. t\<lparr>t_status := target, t_result := (if result = None then t_result t else result),
                      t_completed_at := None\<rparr>) d)) = Inr d1"
    and rest: "(if target = COMPLETED then raising (promote_dependents_to_ready now i ?p d1)
          else Inr ([], d1)) = Inr (newly_ready, d')"
    unfolding apply_task_status_def sum_bind_Inr i by blast
  from status_statement [OF assms(1-3) s] obtain u where
    u: "t_id u = i" "live_task u" "t_status u = target" "t_depends_on u = t_depends_on task"
      "t_completed_at u = (if terminal target then Some now else None)"
      "t_result u = (if result = None then t_result task else result)"
    and d1: "d1 = d\<lparr>db_tasks := map (\<lambda>t. if t_id t = i then u else t) (db_tasks d)\<rparr>" .
  show ?thesis
  proof (cases "target = COMPLETED")
    case False
    have "map (status_changed now i u False ?p d') (db_tasks d) = map (\<lambda>t. if t_id t = i then u else t) (db_tasks d)"
      by (simp add: status_changed_def)
    then have "d' = d\<lparr>db_tasks := map (status_changed now i u False ?p d') (db_tasks d)\<rparr>"
      using False rest d1 by (simp only: if_False) simp
    with False rest u show ?thesis by (intro that [of u]) simp_all
  next
    case True
    have ok1: "db_ok d1"
      using complete_task_ok [OF assms(1)] s True by simp
    from rest True have promoted: "newly_ready = map (\<lambda>t. str_uuid (t_id t)) (filter (promoted_by i ?p d1) (db_tasks d1))"
      "d' = d1\<lparr>db_tasks := map (\<lambda>t. if promoted_by i ?p d1 t then ready_task t\<lparr>t_modified_at := now\<rparr> else t) (db_tasks d1)\<rparr>"
      by (simp_all add: promote_dependents_rows [OF ok1])
    have q: "promoted_by i ?p d' t = promoted_by i ?p d1 t" if "t \<in> set (db_tasks d)" for t
      unfolding promoted(2)
      by (rule promoted_by_after_promotion [OF ok1 _ db_ok_task [OF assms(1) that]]) (simp add: promoted_by_def)
    have n: "\<not> promoted_by i ?p d1 u" using u(3) True by (simp add: promoted_by_def)
    have "d' = d\<lparr>db_tasks := map (status_changed now i u True ?p d') (db_tasks d)\<rparr>"
      by (subst promoted(2)) (use q n in \<open>auto simp: d1 status_changed_def\<close>)
    moreover have "filter (promoted_by i ?p d1) (db_tasks d1) =
        filter (\<lambda>t. t_id t \<noteq> i \<and> promoted_by i ?p d' t) (db_tasks d)"
    proof -
      have "db_tasks d1 = map (\<lambda>t. if t_id t = i then u else t) (db_tasks d)" by (simp add: d1)
      then show ?thesis by (simp only:) (rule filter_rewritten, use q n in auto)
    qed
    ultimately show ?thesis using True promoted(1) u by (intro that [of u]) simp_all
  qed
qed

text \<open>
  What a status change does. It is accepted only when the transition table allows it and
  the dependencies agree with the target; then the task has the new status, a completion time
  exactly when that status is terminal, and the new result if one was given; a completion also
  promotes the dependents that are now free, reports them, and no other row changes.
\<close>

theorem set_task_status_effect:
  assumes "db_ok d" "parse_uuid task_id = Inr i" "find_task live_task i d = Some task"
    and "mcp_set_task_status cx task_id status result d = (Inr (shown, target, newly_ready), d')"
  shows "task_status_of status = Some target \<and> target \<in> set (VALID_TASK_TRANSITIONS (t_status task)) \<and>
    (target \<noteq> READY \<or> are_dependencies_completed d task = Inr True) \<and>
    (target \<noteq> BLOCKED \<or> deps_of task \<noteq> []) \<and>
    (\<exists>u. t_id u = i \<and> t_status u = target \<and> (t_completed_at u \<noteq> None \<longleftrightarrow> terminal target) \<and>
       d' = d\<lparr>db_tasks := map (status_changed (cx_now cx) i u (target = COMPLETED) (t_project_id task) d') (db_tasks d)\<rparr> \<and>
       newly_ready = (if target = COMPLETED
         then map (\<lambda>t. str_uuid (t_id t))
                (filter (\<lambda>t. t_id t \<noteq> i \<and> promoted_by i (t_project_id task) d' t) (db_tasks d))
         else []))"
proof -
  from assms(4) have t: "task_status_of status = Some target"
    and v: "validate_task_status_change d task target = Inr None"
    and a: "\<exists>res. apply_task_status promote_dependents_to_ready (cx_now cx) task target res d = Inr (newly_ready, d')"
    using assms(2,3)
    by (auto simp: mcp_set_task_status_def transact_def sum_bind_Inr parse_id_def split: sum.splits)
  from v have "target \<in> set (VALID_TASK_TRANSITIONS (t_status task)) \<and>
    (target \<noteq> READY \<or> are_dependencies_completed d task = Inr True) \<and>
    (target \<noteq> BLOCKED \<or> deps_of task \<noteq> [])"
    by (auto simp: validate_task_status_change_def validate_task_status_semantics_def
        split: option.splits sum.splits if_splits)
  moreover from a obtain res where
    "apply_task_status promote_dependents_to_ready (cx_now cx) task target res d = Inr (newly_ready, d')" by blast
  then obtain u where u: "t_id u = i" "t_status u = target" "t_completed_at u = (if terminal target then Some (cx_now cx) else None)"
       "d' = d\<lparr>db_tasks := map (status_changed (cx_now cx) i u (target = COMPLETED) (t_project_id task) d') (db_tasks d)\<rparr>"
       "newly_ready = (if target = COMPLETED
         then map (\<lambda>t. str_uuid (t_id t))
                (filter (\<lambda>t. t_id t \<noteq> i \<and> promoted_by i (t_project_id task) d' t) (db_tasks d))
         else [])"
    by (rule apply_task_status_rows [OF assms(1,3) v]) blast
  moreover from u(3) have "t_completed_at u \<noteq> None \<longleftrightarrow> terminal target" by simp
  ultimately show ?thesis using t by blast
qed

theorem set_task_status_effect_witness:
  "let d = ex_db [ex_task 2 IN_PROGRESS [], ex_task 3 BLOCKED [2], ex_task 4 BLOCKED [3]];
       d' = snd (mcp_set_task_status (ex_cx ''alice'') (str_uuid 2) ''COMPLETED'' Absent d)
   in filter (\<lambda>t. t_id t \<noteq> 2 \<and> promoted_by 2 1 d' t) (db_tasks d) = [ex_task 3 BLOCKED [2]]"
proof -
  let ?d = "ex_db [ex_task 2 IN_PROGRESS [], ex_task 3 BLOCKED [2], ex_task 4 BLOCKED [3]]"
  let ?r = "mcp_set_task_status (ex_cx ''alice'') (str_uuid 2) ''COMPLETED'' Absent ?d"
  have r: "fst ?r = Inr (str_uuid 2, COMPLETED, [str_uuid 3])" by code_simp
  then have r: "?r = (Inr (str_uuid 2, COMPLETED, [str_uuid 3]), snd ?r)" by (metis prod.collapse)
  have ok: "db_ok ?d" by (simp add: db_ok_def task_ok_def ex_defs)
  have f: "find_task live_task 2 ?d = Some (ex_task 2 IN_PROGRESS [])" by (simp add: find_task_def ex_defs)
  have p: "t_project_id (ex_task 2 IN_PROGRESS []) = 1" by (simp add: ex_defs)
  let ?sel = "\<lambda>t. t_id t \<noteq> 2 \<and> promoted_by 2 1 (snd ?r) t"
  from set_task_status_effect [OF ok parse_str_uuid f r]
  have "[str_uuid 3] = map (\<lambda>t. str_uuid (t_id t)) (filter ?sel (db_tasks ?d))"
    unfolding p by (simp only: if_True refl) blast
  then have "map t_id (filter ?sel (db_tasks ?d)) = [3]" by (auto simp: map_eq_Cons_conv)
  then show ?thesis
    unfolding Let_def by (auto simp: ex_db_def filter_eq_Cons_iff map_eq_Cons_conv split: if_splits) (simp_all add: ex_defs)
qed

end
