(* ===== verification/Work_Properties.thy ===== *)
theory Work_Properties
  imports Examples
begin

text \<open>
  The tools that hand out work and take it back: listing and claiming ready tasks, restarting
  a task, and changing what it waits for.
\<close>

section \<open>Claiming\<close>

text \<open>
  \<open>claim_task\<close> without a task identifier takes the first ready task. It answers with an
  error exactly when no live unlocked task of the project is \<open>READY\<close>; otherwise it starts one
  that no other such task precedes in priority and age, and changes no other row. The status of
  the project plays no part.
\<close>

theorem claim_takes_first:
  assumes "cx_caller cx = Some user" "parse_uuid project_id = Inr p"
  shows "(mcp_claim_task cx locked project_id None d = (Inl NoReadyTasks, d) \<longleftrightarrow>
      filter (mcp_claimable locked p) (db_tasks d) = []) \<and>
    (filter (mcp_claimable locked p) (db_tasks d) = [] \<or>
     (\<exists>task row. mcp_claimable locked p task \<and> task \<in> set (db_tasks d) \<and>
        list_all (\<lambda>t. (t_priority task, t_created_at task) \<le> (t_priority t, t_created_at t))
          (filter (mcp_claimable locked p) (db_tasks d)) \<and>
        mcp_claim_task cx locked project_id None d =
          (Inr row, write_task (cx_now cx) (t_id task) (\<lambda>t. t\<lparr>t_status := IN_PROGRESS\<rparr>) d)))"
proof -
  let ?ready = "filter (mcp_claimable locked p) (db_tasks d)"
  let ?rank = "\<lambda>t. (t_priority t, t_created_at t)"
  have run: "mcp_claim_task cx locked project_id None d =
      transact d (sum_bind (mcp_choose_task locked project_id p None d) (\<lambda>task.
          let d' = write_task (cx_now cx) (t_id task) (\<lambda>t. t\<lparr>t_status := IN_PROGRESS\<rparr>) d
          in Inr (task_view cx task_agent_name (t_id task) d', d')))"
    using assms by (simp add: mcp_claim_task_def require_caller_user_id_def parse_id_def parse_optional_id_def)
  show ?thesis
  proof (cases "order_tasks ?ready")
    case Nil
    then have "?ready = []" using order_tasks_length [of ?ready] by simp
    with Nil show ?thesis unfolding run by (simp add: mcp_choose_task_def)
  next
    case (Cons task rest)
    have s: "set (order_tasks ?ready) = set ?ready" "sorted (map ?rank (order_tasks ?ready))"
      by (rule order_tasks_set, rule order_tasks_sorted)
    then have "task \<in> set ?ready" unfolding Cons by auto
    moreover have "?rank task \<le> ?rank t" if "t \<in> set ?ready" for t
      using s that unfolding Cons by auto
    ultimately have first: "?ready \<noteq> []" "mcp_claimable locked p task" "task \<in> set (db_tasks d)"
      "list_all (\<lambda>t. ?rank task \<le> ?rank t) ?ready"
      by (force, simp, simp, simp only: list_all_iff, blast)
    have answer: "mcp_claim_task cx locked project_id None d =
        (Inr (task_view cx task_agent_name (t_id task)
           (write_task (cx_now cx) (t_id task) (\<lambda>t. t\<lparr>t_status := IN_PROGRESS\<rparr>) d)),
         write_task (cx_now cx) (t_id task) (\<lambda>t. t\<lparr>t_status := IN_PROGRESS\<rparr>) d)"
      unfolding run by (simp add: mcp_choose_task_def Cons Let_def)
    show ?thesis
    proof
      show "(mcp_claim_task cx locked project_id None d = (Inl NoReadyTasks, d)) = (?ready = [])"
        unfolding answer using first(1) by blast
    qed (use first answer in blast)
  qed
qed

theorem claim_takes_first_witness:
  "\<exists>row. mcp_claim_task (ex_cx ''bob'') (\<lambda>_. False) (str_uuid 1) None
      (ex_db [ex_task 2 PENDING [], ex_task 3 READY []]) =
    (Inr row, write_task 5 3 (\<lambda>t. t\<lparr>t_status := IN_PROGRESS\<rparr>) (ex_db [ex_task 2 PENDING [], ex_task 3 READY []]))"
proof -
  let ?d = "ex_db [ex_task 2 PENDING [], ex_task 3 READY []]"
  have cx: "cx_caller (ex_cx ''bob'') = Some ''bob''" "cx_now (ex_cx ''bob'') = 5" by (simp_all add: ex_cx_def)
  have ready: "filter (mcp_claimable (\<lambda>_. False) 1) (db_tasks ?d) = [ex_task 3 READY []]"
    by (simp add: mcp_claimable_def ex_defs)
  have i: "t_id (ex_task 3 READY []) = 3" by (simp add: ex_defs)
  from claim_takes_first [OF cx(1) parse_str_uuid, of "\<lambda>_. False" 1 ?d] obtain task row where
    t: "mcp_claimable (\<lambda>_. False) 1 task" "task \<in> set (db_tasks ?d)"
      "mcp_claim_task (ex_cx ''bob'') (\<lambda>_. False) (str_uuid 1) None ?d =
          (Inr row, write_task 5 (t_id task) (\<lambda>t. t\<lparr>t_status := IN_PROGRESS\<rparr>) ?d)"
    unfolding ready cx(2) by auto
  then have "task \<in> set (filter (mcp_claimable (\<lambda>_. False) 1) (db_tasks ?d))" by simp
  then have "t_id task = 3" unfolding ready using i by simp
  with t(3) show ?thesis by auto
qed

section \<open>Restarting\<close>

text \<open>
  The tool restarts any live task, running ones included. It is \<open>READY\<close> afterwards exactly
  when its dependencies are completed and \<open>PENDING\<close> otherwise, without result, completion time,
  spending or sessions. The function of the task utilities with the same name refuses a
  running task instead.
\<close>

lemma restart_verdict:
  assumes "db_ok d" "find_task live_task i d = Some task" "t_id task = i"
    and "\<And>t. t_id (f t) = t_id t \<and> t_status (f t) = t_status t \<and> t_deleted_at (f t) = t_deleted_at t"
    and "t_depends_on (f task) = t_depends_on task"
  shows "are_dependencies_completed (write_task now i f d) (f task) = are_dependencies_completed d task"
proof -
  have ids: "dep_ids (f task) = dep_ids task" by (simp add: dep_ids_def assms(5))
  have "count_rows (\<lambda>t. t_id t \<in> set js \<and> t_status t = COMPLETED \<and> live_task t) (db_tasks (write_task now i f d)) =
      count_rows (\<lambda>t. t_id t \<in> set js \<and> t_status t = COMPLETED \<and> live_task t) (db_tasks d)" for js
    unfolding write_task_tasks by (rule count_rows_modify) (simp add: assms(4))
  then show ?thesis by (simp add: are_dependencies_completed_def ids assms(5) split: sum.splits)
qed

theorem restart_resets:
  assumes "db_ok d" "cx_caller cx = Some user" "parse_uuid task_id = Inr i"
    and "find_task live_task i d = Some task"
  shows "\<exists>row. mcp_restart_task cx task_id d =
      (Inr row, write_task (cx_now cx) i
         (\<lambda>t. t\<lparr>t_result := None, t_completed_at := None, t_actual_spending_usd := None,
                t_assigned_session_ids := None,
                t_status := (if are_dependencies_completed d task = Inr True then READY else PENDING)\<rparr>) d) \<and>
    (t_status task \<noteq> IN_PROGRESS \<or> restart_task now i d = ((False, CannotRestart IN_PROGRESS), d))"
proof -
  have task: "t_id task = i" "task \<in> set (db_tasks d)" using find_task_Some [OF assms(4)] by auto
  let ?cleared = "\<lambda>t. t\<lparr>t_result := None, t_completed_at := None, t_actual_spending_usd := None,
      t_assigned_session_ids := None\<rparr>"
  obtain b where b: "are_dependencies_completed d task = Inr b"
    using are_dependencies_completed_total [OF db_ok_task [OF assms(1) task(2)]] by blast
  have "are_dependencies_completed (write_task (cx_now cx) i ?cleared d) (?cleared task) = Inr b"
    unfolding b [symmetric] by (rule restart_verdict [OF assms(1,4) task(1)]) simp_all
  then have "apply_restart (cx_now cx) task d = Inr (write_task (cx_now cx) i
         (\<lambda>t. (?cleared t)\<lparr>t_status := (if b then READY else PENDING)\<rparr>) d)"
    by (simp add: apply_restart_def task(1) Let_def)
  with assms(2-4) b have "\<exists>row. mcp_restart_task cx task_id d = (Inr row, write_task (cx_now cx) i
         (\<lambda>t. (?cleared t)\<lparr>t_status := (if are_dependencies_completed d task = Inr True then READY else PENDING)\<rparr>) d)"
    by (simp add: mcp_restart_task_def require_caller_user_id_def parse_id_def)
  moreover have "t_status task \<noteq> IN_PROGRESS \<or> restart_task now i d = ((False, CannotRestart IN_PROGRESS), d)"
    using assms(4) by (auto simp: restart_task_def NON_RESTARTABLE_STATUSES_def)
  ultimately show ?thesis by blast
qed

theorem restart_resets_witness:
  "snd (mcp_restart_task (ex_cx ''bob'') (str_uuid 2) (ex_db [ex_task 2 IN_PROGRESS []])) =
     ex_db [(ex_task 2 READY [])\<lparr>t_modified_at := 5\<rparr>] \<and>
   restart_task 5 2 (ex_db [ex_task 2 IN_PROGRESS []]) =
     ((False, CannotRestart IN_PROGRESS), ex_db [ex_task 2 IN_PROGRESS []])"
proof -
  let ?d = "ex_db [ex_task 2 IN_PROGRESS []]"
  have ok: "db_ok ?d" by (simp add: db_ok_def task_ok_def ex_defs)
  have cx: "cx_caller (ex_cx ''bob'') = Some ''bob''" by (simp add: ex_cx_def)
  have f: "find_task live_task 2 ?d = Some (ex_task 2 IN_PROGRESS [])" by (simp add: find_task_def ex_defs)
  from restart_resets [OF ok cx parse_str_uuid f, of 5] show ?thesis
    by (auto simp: are_dependencies_completed_def write_task_def ex_defs)
qed

section \<open>Changing dependencies\<close>

text \<open>
  What a change of dependencies does. It is accepted only for live tasks of the same
  project other than the task itself; it stores them, and a task that is not finished, running
  or under review becomes \<open>READY\<close> when all of them are completed and \<open>BLOCKED\<close> otherwise. The
  status of any other task, and every other row, stays as it is.
\<close>

lemma existing_deps_found:
  assumes "db_ok d" "set us \<subseteq> t_id ` set (existing_deps task us d)" "u \<in> set us"
  obtains dep where "find_task live_task u d = Some dep" "t_project_id dep = t_project_id task"
    "dep \<in> set (existing_deps task us d)"
proof -
  from assms(2,3) obtain dep where dep: "dep \<in> set (existing_deps task us d)" "t_id dep = u" by auto
  then have "dep \<in> set (db_tasks d)" "live_task dep" "t_project_id dep = t_project_id task"
    by (auto simp: existing_deps_def)
  with dep show ?thesis by (intro that [of dep] find_task_key [OF db_ok_distinct [OF assms(1)]]) auto
qed

lemma existing_deps_completed:
  assumes "db_ok d" "set us \<subseteq> t_id ` set (existing_deps task us d)"
  shows "list_all (\<lambda>t. t_status t = COMPLETED) (existing_deps task us d) \<longleftrightarrow>
    list_all (\<lambda>u. map_option t_status (find_task live_task u d) = Some COMPLETED) us"
proof
  assume all: "list_all (\<lambda>t. t_status t = COMPLETED) (existing_deps task us d)"
  show "list_all (\<lambda>u. map_option t_status (find_task live_task u d) = Some COMPLETED) us"
    unfolding list_all_iff
  proof
    fix u assume "u \<in> set us"
    then obtain dep where "find_task live_task u d = Some dep" "dep \<in> set (existing_deps task us d)"
      by (rule existing_deps_found [OF assms]) blast
    with all show "map_option t_status (find_task live_task u d) = Some COMPLETED" by (simp add: list_all_iff)
  qed
next
  assume all: "list_all (\<lambda>u. map_option t_status (find_task live_task u d) = Some COMPLETED) us"
  show "list_all (\<lambda>t. t_status t = COMPLETED) (existing_deps task us d)"
    unfolding list_all_iff
  proof
    fix dep assume dep: "dep \<in> set (existing_deps task us d)"
    then have "dep \<in> set (db_tasks d)" "live_task dep" and u: "t_id dep \<in> set us"
      by (auto simp: existing_deps_def)
    then have "find_task live_task (t_id dep) d = Some dep"
      by (intro find_task_key [OF db_ok_distinct [OF assms(1)]]) auto
    with all u show "t_status dep = COMPLETED" by (fastforce simp: list_all_iff)
  qed
qed

theorem set_task_dependencies_effect:
  assumes "db_ok d" "parse_uuid task_id = Inr i" "find_task live_task i d = Some task"
    and "parse_dependencies vs = Inr us"
    and "mcp_set_task_dependencies cx task_id (Some (JList vs)) d = (Inr row, d')"
  shows "i \<notin> set us \<and>
    list_all (\<lambda>u. map_option t_project_id (find_task live_task u d) = Some (t_project_id task)) us \<and>
    d' = write_task (cx_now cx) i
      (\<lambda>t. t\<lparr>t_depends_on := none_if_empty (map str_uuid us),
             t_status := (if t_status t \<in> {COMPLETED, FAILED, CANCELLED, IN_PROGRESS, IN_REVIEW} then t_status t
                          else if list_all (\<lambda>u. map_option t_status (find_task live_task u d) = Some COMPLETED) us
                          then READY else BLOCKED)\<rparr>) d"
  using assms(5)
proof (rule mcp_dependencies_applied)
  fix j task' vs' us'
  assume "parse_uuid task_id = Inr j" "find_task live_task j d = Some task'" "Some (JList vs) = Some (JList vs')"
    "parse_dependencies vs' = Inr us'" and out: "j \<notin> set us'"
    and a: "apply_dependencies (cx_now cx) task_id task' us' d = Inr d'"
  with assms(2-4) have e: "j = i" "task' = task" "us' = us" by simp_all
  have i: "t_id task = i" using find_task_Some [OF assms(3)] by simp
  from a obtain c where c: "check_dependencies task_id task us d = Inr c"
    and d': "d' = write_task (cx_now cx) i (with_dependencies us c) d"
    unfolding e apply_dependencies_Inr i by blast
  have there: "set us \<subseteq> t_id ` set (existing_deps task us d)"
    using c by (auto simp: check_dependencies_Inr split: if_splits)
  have "c \<longleftrightarrow> us = [] \<or> list_all (\<lambda>u. map_option t_status (find_task live_task u d) = Some COMPLETED) us"
    using c existing_deps_completed [OF assms(1) there] by (auto simp: check_dependencies_Inr split: if_splits)
  then have "with_dependencies us c = (\<lambda>t. t\<lparr>t_depends_on := none_if_empty (map str_uuid us),
       t_status := (if t_status t \<in> {COMPLETED, FAILED, CANCELLED, IN_PROGRESS, IN_REVIEW} then t_status t
                    else if list_all (\<lambda>u. map_option t_status (find_task live_task u d) = Some COMPLETED) us
                    then READY else BLOCKED)\<rparr>)"
    by (auto simp: with_dependencies_def TERMINAL_TASK_STATUSES_def)
  moreover have "list_all (\<lambda>u. map_option t_project_id (find_task live_task u d) = Some (t_project_id task)) us"
    unfolding list_all_iff by (auto elim: existing_deps_found [OF assms(1) there])
  ultimately show ?thesis using out d' unfolding e by simp
qed

theorem set_task_dependencies_effect_witness:
  "db_tasks (snd (mcp_set_task_dependencies (ex_cx ''bob'') (str_uuid 3) (Some (JList [JStr (str_uuid 2)]))
      (ex_db [ex_task 2 READY [], ex_task 3 READY []]))) =
    [ex_task 2 READY [], (ex_task 3 BLOCKED [2])\<lparr>t_modified_at := 5\<rparr>]"
proof (rule ex_waits_for [of "''bob''"])
  let ?d = "ex_db [ex_task 2 READY [], ex_task 3 READY []]"
  fix r d'
  assume r: "mcp_set_task_dependencies (ex_cx ''bob'') (str_uuid 3) (Some (JList [JStr (str_uuid 2)])) ?d = (Inr r, d')"
  have ok: "db_ok ?d" by (simp add: db_ok_def task_ok_def ex_defs)
  have f: "find_task live_task 3 ?d = Some (ex_task 3 READY [])" "find_task live_task 2 ?d = Some (ex_task 2 READY [])"
    by (simp_all add: find_task_def ex_defs)
  have us: "parse_dependencies [JStr (str_uuid 2)] = Inr [2]" by simp
  from set_task_dependencies_effect [OF ok parse_str_uuid f(1) us r] show ?thesis
    unfolding r by (simp add: f(2)) (simp add: write_task_def ex_defs none_if_empty_def)
qed

section \<open>Listing ready tasks\<close>

text \<open>
  \<open>get_ready_tasks\<close> promotes before it lists. The waiting live tasks of the project whose
  dependencies are all completed become \<open>READY\<close>, their number is reported, and the answer lists
  all ready tasks of the project by priority and age, including those just promoted.
\<close>

definition promotable :: "uuid \<Rightarrow> db \<Rightarrow> agent_task \<Rightarrow> bool" where
  "promotable p d t \<longleftrightarrow>
     t_project_id t = p \<and> t_status t \<in> {PENDING, BLOCKED} \<and> live_task t \<and>
     are_dependencies_completed d t = Inr True"

theorem get_ready_tasks_promotes_and_lists:
  assumes "db_ok d" "cx_caller cx = Some user" "parse_uuid project_id = Inr p"
  shows "let d' = d\<lparr>db_tasks := map (\<lambda>t. if promotable p d t then t\<lparr>t_status := READY, t_modified_at := cx_now cx\<rparr> else t)
                                   (db_tasks d)\<rparr>;
             ready = order_tasks (filter (\<lambda>t. t_project_id t = p \<and> t_status t = READY \<and> live_task t) (db_tasks d'))
    in mcp_get_ready_tasks cx project_id d =
         (Inr (project_id, count_rows (promotable p d) (db_tasks d),
               map (\<lambda>t. format_task_row (cx_isoformat cx) t (joined_agent_name t d')) ready), d')"
proof -
  have e: "eligible_candidate p t \<and> eligible d t \<longleftrightarrow> promotable p d t" if "t \<in> set (db_tasks d)" for t
    using eligible_iff [OF assms(1) db_ok_task [OF assms(1) that]]
    by (auto simp: eligible_candidate_def promotable_def)
  have f: "filter (\<lambda>t. eligible_candidate p t \<and> eligible d t) (db_tasks d) = filter (promotable p d) (db_tasks d)"
    by (rule filter_cong [OF refl e])
  have m: "map (\<lambda>t. if eligible_candidate p t \<and> eligible d t then ready_task t\<lparr>t_modified_at := now\<rparr> else t) (db_tasks d) =
      map (\<lambda>t. if promotable p d t then ready_task t\<lparr>t_modified_at := now\<rparr> else t) (db_tasks d)" for now
    by (rule map_cong [OF refl]) (simp only: e)
  have "promote_eligible_loop (cx_now cx)
      (filter (\<lambda>t. t_project_id t = p \<and> t_status t \<in> {PENDING, BLOCKED} \<and> live_task t) (db_tasks d)) 0 d =
    Inr (count_rows (promotable p d) (db_tasks d),
         d\<lparr>db_tasks := map (\<lambda>t. if promotable p d t then ready_task t\<lparr>t_modified_at := cx_now cx\<rparr> else t) (db_tasks d)\<rparr>)"
    using promote_eligible_eq [OF assms(1), of "cx_now cx" p, unfolded f m]
    by (simp add: eligible_candidate_def [abs_def] count_rows_def)
  then show ?thesis
    using assms(2,3) by (simp add: mcp_get_ready_tasks_def require_caller_user_id_def parse_id_def Let_def)
qed

theorem get_ready_tasks_promotes_and_lists_witness:
  "db_tasks (snd (mcp_get_ready_tasks (ex_cx ''bob'') (str_uuid 1)
      (ex_db [ex_task 2 COMPLETED [], ex_task 3 BLOCKED [2], ex_task 4 BLOCKED [3]]))) =
    [ex_task 2 COMPLETED [], (ex_task 3 READY [2])\<lparr>t_modified_at := 5\<rparr>, ex_task 4 BLOCKED [3]]"
proof -
  let ?d = "ex_db [ex_task 2 COMPLETED [], ex_task 3 BLOCKED [2], ex_task 4 BLOCKED [3]]"
  have ok: "db_ok ?d" by (simp add: db_ok_def task_ok_def ex_defs)
  have cx: "cx_caller (ex_cx ''bob'') = Some ''bob''" by (simp add: ex_cx_def)
  have c: "are_dependencies_completed ?d (ex_task 2 COMPLETED []) = Inr True"
    "are_dependencies_completed ?d (ex_task 3 BLOCKED [2]) = Inr True"
    "are_dependencies_completed ?d (ex_task 4 BLOCKED [3]) = Inr False"
    by (simp_all add: are_dependencies_completed_def dep_ids_def ex_defs)
  then have "promotable 1 ?d (ex_task 3 BLOCKED [2])" "\<not> promotable 1 ?d (ex_task 4 BLOCKED [3])"
    "\<not> promotable 1 ?d (ex_task 2 COMPLETED [])"
    by (simp_all add: promotable_def) (simp_all add: ex_defs)
  moreover have "db_tasks ?d = [ex_task 2 COMPLETED [], ex_task 3 BLOCKED [2], ex_task 4 BLOCKED [3]]"
    by (simp add: ex_db_def)
  ultimately show ?thesis
    using get_ready_tasks_promotes_and_lists [OF ok cx parse_str_uuid, of 1]
    by (simp add: Let_def) (simp add: ex_defs)
qed

end
