(* ===== verification/Plan_Progress.thy ===== *)
theory Plan_Progress
  imports Agent_System
begin

text \<open>
  What a project needs so that its tasks can be carried through, and why the executor's steps
  keep it: the dependency graph is fixed while tasks only move forward. These lemmas carry the
  progress and liveness properties.
\<close>

definition in_plan :: "uuid \<Rightarrow> agent_task \<Rightarrow> bool" where
  "in_plan p t \<longleftrightarrow> t_project_id t = p \<and> live_task t"

text \<open>Columns that the executor can read: an object as task data, UUIDs as sessions.\<close>

definition readable :: "agent_task \<Rightarrow> bool" where
  "readable t \<longleftrightarrow>
     (case t_task_data t of None \<Rightarrow> True | Some v \<Rightarrow> (\<exists>kvs. v = JObj kvs)) \<and>
     list_all (\<lambda>s. \<exists>u. parse_uuid s = Inr u) (or_empty (t_assigned_session_ids t))"

definition plannable :: "uuid \<Rightarrow> db \<Rightarrow> agent_task \<Rightarrow> bool" where
  "plannable p d t \<longleftrightarrow>
     t_status t \<notin> {FAILED, CANCELLED, IN_REVIEW} \<and> readable t \<and>
     (\<exists>us. dep_ids t = Inr us \<and> distinct us \<and> set us \<subseteq> t_id ` {v \<in> set (db_tasks d). in_plan p v})"

definition sound_plan :: "uuid \<Rightarrow> db \<Rightarrow> bool" where
  "sound_plan p d \<longleftrightarrow>
     db_ok d \<and> acyclic (dep_edges p d) \<and> list_all (\<lambda>t. in_plan p t \<longrightarrow> plannable p d t) (db_tasks d)"

definition active_project :: "uuid \<Rightarrow> db \<Rightarrow> bool" where
  "active_project p d \<longleftrightarrow> map_option p_status (find_project live_project p d) = Some PROJECT_ACTIVE"

definition unfinished :: "uuid \<Rightarrow> db \<Rightarrow> uuid set" where
  "unfinished p d = t_id ` {t \<in> set (db_tasks d). in_plan p t \<and> t_status t \<noteq> COMPLETED}"

lemma unfinished_finite: "finite (unfinished p d)"
  by (simp add: unfinished_def)

lemma sound_planD:
  "sound_plan p d \<Longrightarrow> t \<in> set (db_tasks d) \<Longrightarrow> in_plan p t \<Longrightarrow> plannable p d t"
  by (simp add: sound_plan_def list_all_iff)

section \<open>Moving forward\<close>

definition moves_on :: "agent_task \<Rightarrow> agent_task \<Rightarrow> bool" where
  "moves_on t u \<longleftrightarrow>
     t_id u = t_id t \<and> t_project_id u = t_project_id t \<and> t_deleted_at u = t_deleted_at t \<and>
     t_depends_on u = t_depends_on t \<and> (t_status t = COMPLETED \<longrightarrow> t_status u = COMPLETED) \<and>
     (t_status t \<notin> {FAILED, CANCELLED, IN_REVIEW} \<longrightarrow> t_status u \<notin> {FAILED, CANCELLED, IN_REVIEW}) \<and>
     (readable t \<longrightarrow> readable u)"

definition forward :: "db \<Rightarrow> db \<Rightarrow> bool" where
  "forward d d' \<longleftrightarrow> list_all2 moves_on (db_tasks d) (db_tasks d') \<and> db_projects d' = db_projects d"

lemma moves_on_refl [simp]: "moves_on t t"
  by (simp add: moves_on_def)

lemma moves_on_fields:
  assumes "moves_on t u"
  shows "t_id u = t_id t" "t_project_id u = t_project_id t" "t_deleted_at u = t_deleted_at t"
    "t_depends_on u = t_depends_on t"
  using assms by (simp_all add: moves_on_def)

lemma moves_on_trans:
  assumes "moves_on t u" "moves_on u v" shows "moves_on t v"
  unfolding moves_on_def
  using assms moves_on_fields [OF assms(1)] moves_on_fields [OF assms(2)]
  by (simp only: moves_on_def) blast

lemma forward_refl [simp]: "forward d d"
  by (simp add: forward_def list_all2_refl)

lemma forward_trans: "forward d d' \<Longrightarrow> forward d' d'' \<Longrightarrow> forward d d''"
  unfolding forward_def by (auto intro: list_all2_trans [OF moves_on_trans])

lemma forward_row:
  assumes "forward d d'" "u \<in> set (db_tasks d')"
  obtains t where "t \<in> set (db_tasks d)" "moves_on t u"
  using assms unfolding forward_def list_all2_conv_all_nth by (metis in_set_conv_nth)

lemma forward_row':
  assumes "forward d d'" "t \<in> set (db_tasks d)"
  obtains u where "u \<in> set (db_tasks d')" "moves_on t u"
  using assms unfolding forward_def list_all2_conv_all_nth by (metis in_set_conv_nth)

lemma forward_write:
  assumes "\<And>t. t \<in> set (db_tasks d) \<Longrightarrow> t_id t = i \<Longrightarrow> moves_on t ((f t)\<lparr>t_modified_at := now\<rparr>)"
  shows "forward d (write_task now i f d)"
  using assms by (auto simp: forward_def write_task_tasks modify_def list.rel_map intro: list.rel_refl_strong)

lemma forward_map:
  assumes "\<And>t. t \<in> set (db_tasks d) \<Longrightarrow> moves_on t (h t)"
  shows "forward d (d\<lparr>db_tasks := map h (db_tasks d)\<rparr>)"
  using assms by (auto simp: forward_def list.rel_map intro: list.rel_refl_strong)

lemma moves_on_in_plan: "moves_on t u \<Longrightarrow> in_plan p u = in_plan p t"
  by (simp add: moves_on_def in_plan_def)

lemma forward_edges:
  assumes "forward d d'" shows "dep_edges p d' = dep_edges p d"
proof (intro equalityI subsetI)
  fix e assume "e \<in> dep_edges p d'"
  then obtain u s v where u: "e = (t_id u, v)" "u \<in> set (db_tasks d')" "t_project_id u = p" "live_task u"
    "s \<in> set (deps_of u)" "parse_uuid s = Inr v" unfolding dep_edges_def by blast
  from forward_row [OF assms u(2)] obtain t where t: "t \<in> set (db_tasks d)" "moves_on t u" .
  show "e \<in> dep_edges p d"
    unfolding u(1) by (rule dep_edgesI [OF t(1)]) (use u moves_on_fields [OF t(2)] in simp_all)
next
  fix e assume "e \<in> dep_edges p d"
  then obtain t s v where t: "e = (t_id t, v)" "t \<in> set (db_tasks d)" "t_project_id t = p" "live_task t"
    "s \<in> set (deps_of t)" "parse_uuid s = Inr v" unfolding dep_edges_def by blast
  from forward_row' [OF assms t(2)] obtain u where u: "u \<in> set (db_tasks d')" "moves_on t u" .
  show "e \<in> dep_edges p d'"
    unfolding t(1) by (rule dep_edgesI [OF u(1)]) (use t moves_on_fields [OF u(2)] in simp_all)
qed

lemma forward_active: "forward d d' \<Longrightarrow> active_project p d' = active_project p d"
  by (simp add: forward_def active_project_def find_project_def)

lemma forward_unfinished:
  assumes "forward d d'" shows "unfinished p d' \<subseteq> unfinished p d"
proof
  fix i
  assume "i \<in> unfinished p d'"
  then obtain u where u: "u \<in> set (db_tasks d')" "in_plan p u" "t_status u \<noteq> COMPLETED" "i = t_id u"
    by (auto simp: unfinished_def)
  from forward_row [OF assms u(1)] obtain t where t: "t \<in> set (db_tasks d)" "moves_on t u" .
  have "in_plan p t" using u(2) moves_on_in_plan [OF t(2)] by simp
  moreover have "i = t_id t" using u(4) moves_on_fields [OF t(2)] by simp
  moreover have "t_status t \<noteq> COMPLETED" using u(3) t(2) unfolding moves_on_def by blast
  ultimately show "i \<in> unfinished p d" using t(1) unfolding unfinished_def by blast
qed

lemma forward_sound:
  assumes "sound_plan p d" "forward d d'" "db_ok d'"
  shows "sound_plan p d'"
proof -
  have ids: "t_id ` {v \<in> set (db_tasks d). in_plan p v} \<subseteq> t_id ` {v \<in> set (db_tasks d'). in_plan p v}"
  proof
    fix i assume "i \<in> t_id ` {v \<in> set (db_tasks d). in_plan p v}"
    then obtain t where t: "t \<in> set (db_tasks d)" "in_plan p t" "i = t_id t" by blast
    from forward_row' [OF assms(2) t(1)] obtain u where "u \<in> set (db_tasks d')" "moves_on t u" .
    moreover have "in_plan p u" "i = t_id u"
      using t moves_on_in_plan [OF \<open>moves_on t u\<close>] moves_on_fields [OF \<open>moves_on t u\<close>] by simp_all
    ultimately show "i \<in> t_id ` {v \<in> set (db_tasks d'). in_plan p v}" by blast
  qed
  have "plannable p d' u" if u: "u \<in> set (db_tasks d')" "in_plan p u" for u
  proof -
    from forward_row [OF assms(2) u(1)] obtain t where t: "t \<in> set (db_tasks d)" "moves_on t u" .
    with u(2) have "plannable p d t" using moves_on_in_plan [OF t(2)] sound_planD [OF assms(1) t(1)] by simp
    then obtain us where us: "t_status t \<notin> {FAILED, CANCELLED, IN_REVIEW}" "readable t" "dep_ids t = Inr us"
      "distinct us" "set us \<subseteq> t_id ` {v \<in> set (db_tasks d). in_plan p v}"
      by (auto simp: plannable_def)
    have "dep_ids u = dep_ids t" using t(2) by (simp add: dep_ids_def moves_on_def)
    moreover have "t_status u \<notin> {FAILED, CANCELLED, IN_REVIEW}" "readable u"
      using t(2) us(1,2) by (simp_all add: moves_on_def)
    ultimately show ?thesis using us(3-5) ids by (auto simp: plannable_def)
  qed
  with assms show ?thesis by (simp add: sound_plan_def forward_edges [OF assms(2)] list_all_iff)
qed

section \<open>The steps of the executor\<close>

lemma resolve_forward:
  assumes "db_ok d" shows "forward d (snd (resolve_task_dependencies now locked d))"
  unfolding resolve_task_dependencies_eq [OF assms] Let_def snd_conv
  by (rule forward_map) (auto simp: moves_on_def readable_def resolve_candidate_def)

lemma readable_data: "readable t \<Longrightarrow> \<exists>kvs. py_dict_of (t_task_data t) = Inr kvs"
  by (auto simp: readable_def py_dict_of_def split: option.splits)

lemma readable_dict_or_none:
  "readable t \<Longrightarrow> readable (t\<lparr>t_task_data := dict_or_none kvs\<rparr>)"
  by (simp add: readable_def dict_or_none_def)

text \<open>A running task can be completed.\<close>

lemma completion_forward:
  assumes "db_ok d" "t \<in> set (db_tasks d)" "t_status t = IN_PROGRESS" "readable t"
    and "\<And>r. r \<in> set (db_tasks d) \<Longrightarrow> t_id r = t_id t \<Longrightarrow> r = t"
  obtains d' where "executor_step d d'" "forward d d'" "db_ok d'"
    "\<And>u. u \<in> set (db_tasks d') \<Longrightarrow> t_id u = t_id t \<Longrightarrow> t_status u = COMPLETED"
proof -
  let ?i = "t_id t"
  have f: "find_task (\<lambda>_. True) ?i d = Some t"
    by (rule find_task_key [OF db_ok_distinct [OF assms(1)] assms(2)]) simp_all
  obtain kvs where k: "py_dict_of (t_task_data t) = Inr kvs" using readable_data [OF assms(4)] by blast
  let ?td = "dict_or_none (completion_task_data True None kvs)"
  let ?d1 = "write_task 0 ?i (\<lambda>t. t\<lparr>t_task_data := ?td\<rparr>) d"
  obtain us where us: "sum_map parse_uuid (or_empty (t_assigned_session_ids t)) = Inr us"
    using sum_map_total [of "or_empty (t_assigned_session_ids t)" parse_uuid] assms(4)
    by (auto simp: readable_def list_all_iff)
  have "\<exists>spending. aggregate_task_spending ?d1 t = Inr spending"
    by (cases "or_empty (t_assigned_session_ids t) = []") (simp_all add: aggregate_task_spending_def us)
  then obtain spending where "aggregate_task_spending ?d1 t = Inr spending" by blast
  then have c: "complete_task 0 ?d1 t COMPLETED (completion_result None None) True =
      Inr (write_task 0 ?i (\<lambda>t. t\<lparr>t_status := COMPLETED, t_completed_at := Some 0,
             t_actual_spending_usd := (if spending = None then t_actual_spending_usd t else spending)\<rparr>) ?d1)"
    by (simp add: complete_task_def assms(3) completion_result_def or_empty_def true_string_def
        validate_task_status_transition_def)
  let ?d2 = "write_task 0 ?i (\<lambda>t. t\<lparr>t_status := COMPLETED, t_completed_at := Some 0,
             t_actual_spending_usd := (if spending = None then t_actual_spending_usd t else spending)\<rparr>) ?d1"
  have ct: "completion_transaction 0 ?i True None None None d = (Inr CompletionDone, ?d2)"
    using f assms(3) k c by (simp add: completion_transaction_def Let_def)
  have "forward d ?d1"
    by (rule forward_write)
       (use assms(4,5) readable_dict_or_none [OF assms(4)] in \<open>auto simp: moves_on_def readable_def\<close>)
  moreover have "forward ?d1 ?d2"
    by (rule forward_write) (auto simp: moves_on_def readable_def)
  ultimately have fwd: "forward d ?d2" by (rule forward_trans)
  have ok2: "db_ok ?d2" using completion_transaction_ok [OF assms(1), of 0 ?i True None None None] ct by simp
  have done2: "t_status u = COMPLETED" if "u \<in> set (db_tasks ?d2)" "t_id u = ?i" for u
    using that by (rule written_row) simp
  obtain r posted d' where run: "update_task_completion None 0 (\<lambda>_. False) ?i None True None None None d = (r, posted, d')"
    by (rule prod_cases3)
  then have "d' = ?d2 \<or> d' = snd (resolve_task_dependencies 0 (\<lambda>_. False) ?d2)"
    by (auto simp: update_task_completion_def ct Let_def split: option.splits sum.splits)
  then have "forward ?d2 d'" "db_ok d'" using resolve_forward [OF ok2] resolve_ok [OF ok2] ok2 by auto
  moreover have "t_status u = COMPLETED" if u: "u \<in> set (db_tasks d')" "t_id u = ?i" for u
  proof -
    from forward_row [OF \<open>forward ?d2 d'\<close> u(1)] obtain v where v: "v \<in> set (db_tasks ?d2)" "moves_on v u" .
    with u(2) have "t_status v = COMPLETED" using done2 moves_on_fields(1) [OF v(2)] by simp
    with v(2) show ?thesis by (simp add: moves_on_def)
  qed
  moreover have "executor_step d d'" using run by (rule executor_step.complete)
  ultimately show ?thesis using forward_trans [OF fwd] by (intro that) auto
qed

text \<open>A ready task of an active project can be claimed.\<close>

lemma claim_forward:
  assumes "db_ok d" "t \<in> set (db_tasks d)" "t_status t = READY" "readable t" "in_plan p t" "active_project p d"
  obtains d' u where "executor_step d d'" "forward d d'" "db_ok d'" "u \<in> set (db_tasks d')"
    "t_id u = t_id t" "in_plan p u" "t_status u = IN_PROGRESS"
proof -
  let ?i = "t_id t"
  have same: "r = t" if "r \<in> set (db_tasks d)" "t_id r = ?i" for r
    using that assms(1,2) by (intro distinct_key_unique [OF db_ok_distinct]) auto
  have "can_pick_up d t"
    using assms(3,5,6) by (auto simp: can_pick_up_def in_plan_def active_project_def task_pickup_project_condition_def)
  then have f: "find_task (\<lambda>t. can_pick_up d t \<and> \<not> False) ?i d = Some t"
    by (intro find_task_key [OF db_ok_distinct [OF assms(1)] assms(2)]) simp_all
  have "\<exists>td. clear_forced_pickup (t_task_data t) = Inr td"
    using assms(4) by (auto simp: readable_def clear_forced_pickup_def split: option.splits if_splits)
  then obtain td where c: "clear_forced_pickup (t_task_data t) = Inr td" by blast
  let ?f = "\<lambda>t. t\<lparr>t_status := IN_PROGRESS, t_task_data := td\<rparr>"
  have run: "snd (claim_task 0 (\<lambda>_. False) ?i d) = write_task 0 ?i ?f d"
    using f c by (simp add: claim_task_def Let_def)
  have r: "readable (t\<lparr>t_task_data := td\<rparr>)"
    using clear_forced_pickup_cases [OF c] assms(4) by (auto simp: readable_dict_or_none)
  have fwd: "forward d (write_task 0 ?i ?f d)"
  proof (rule forward_write)
    fix s assume "s \<in> set (db_tasks d)" "t_id s = ?i"
    then have "s = t" by (rule same)
    with r assms(3) show "moves_on s ((?f s)\<lparr>t_modified_at := 0\<rparr>)" by (simp add: moves_on_def readable_def)
  qed
  have ok: "db_ok (write_task 0 ?i ?f d)" using claim_task_ok [OF assms(1), of 0 "\<lambda>_. False" ?i] run by simp
  have step: "executor_step d (write_task 0 ?i ?f d)" using executor_step.claim [of d 0 "\<lambda>_. False" ?i] run by simp
  have row: "(?f t)\<lparr>t_modified_at := 0\<rparr> \<in> set (db_tasks (write_task 0 ?i ?f d))"
    by (rule row_written [OF assms(2) refl])
  show ?thesis
    by (rule that [OF step fwd ok row]) (use assms(5) in \<open>simp_all add: in_plan_def\<close>)
qed

section \<open>No deadlock\<close>

lemma dep_edges_finite: "finite (dep_edges p d)"
proof -
  have "dep_edges p d \<subseteq> (\<Union>t \<in> set (db_tasks d). Pair (t_id t) ` {u. \<exists>s \<in> set (deps_of t). parse_uuid s = Inr u})"
    by (auto simp: dep_edges_def)
  moreover have "finite {u. \<exists>s \<in> set (deps_of t). parse_uuid s = Inr u}" for t
  proof -
    have "{u. \<exists>s \<in> set (deps_of t). parse_uuid s = Inr u} \<subseteq> (\<lambda>s. case parse_uuid s of Inl e \<Rightarrow> 0 | Inr u \<Rightarrow> u) ` set (deps_of t)"
      by force
    then show ?thesis by (rule finite_subset) simp
  qed
  ultimately show ?thesis by (meson finite_UN finite_imageI finite_set finite_subset)
qed

text \<open>An unfinished task all of whose dependencies are finished.\<close>

lemma first_unfinished:
  assumes "sound_plan p d" "unfinished p d \<noteq> {}"
  obtains t us where "t \<in> set (db_tasks d)" "in_plan p t" "t_status t \<noteq> COMPLETED" "dep_ids t = Inr us"
    "distinct us" "\<And>u. u \<in> set us \<Longrightarrow> \<exists>v \<in> set (db_tasks d). t_id v = u \<and> t_status v = COMPLETED \<and> live_task v"
proof -
  have "wf ((dep_edges p d)\<inverse>)"
    using assms(1) dep_edges_finite by (intro finite_acyclic_wf_converse) (auto simp: sound_plan_def)
  then obtain i where i: "i \<in> unfinished p d" "\<And>u. (i, u) \<in> dep_edges p d \<Longrightarrow> u \<notin> unfinished p d"
    using assms(2) by (rule wfE_min') (metis converseI)
  then obtain t where t: "t \<in> set (db_tasks d)" "in_plan p t" "t_status t \<noteq> COMPLETED" "t_id t = i"
    by (auto simp: unfinished_def)
  then obtain us where us: "dep_ids t = Inr us" "distinct us" "set us \<subseteq> t_id ` {v \<in> set (db_tasks d). in_plan p v}"
    using sound_planD [OF assms(1) t(1,2)] unfolding plannable_def by blast
  have "\<exists>v \<in> set (db_tasks d). t_id v = u \<and> t_status v = COMPLETED \<and> live_task v" if u: "u \<in> set us" for u
  proof -
    from u us(1) obtain s where "s \<in> set (deps_of t)" "parse_uuid s = Inr u"
      by (auto simp: dep_ids_def sum_map_set)
    with t have "(i, u) \<in> dep_edges p d" by (intro dep_edgesI) (auto simp: in_plan_def)
    then have "u \<notin> unfinished p d" by (rule i(2))
    moreover from u us(3) obtain v where "v \<in> set (db_tasks d)" "in_plan p v" "t_id v = u" by auto
    ultimately show ?thesis by (auto simp: unfinished_def in_plan_def)
  qed
  with t us show ?thesis by (intro that)
qed

text \<open>When nothing runs and nothing is ready, resolution makes something ready.\<close>

lemma resolve_unblocks:
  assumes "sound_plan p d" "unfinished p d \<noteq> {}"
    and "\<And>t. t \<in> set (db_tasks d) \<Longrightarrow> in_plan p t \<Longrightarrow> t_status t \<notin> {READY, IN_PROGRESS}"
  obtains u where "u \<in> set (db_tasks (snd (resolve_task_dependencies now (\<lambda>_. False) d)))" "in_plan p u" "t_status u = READY"
proof -
  have ok: "db_ok d" using assms(1) by (simp add: sound_plan_def)
  obtain t us where t: "t \<in> set (db_tasks d)" "in_plan p t" "t_status t \<noteq> COMPLETED" "dep_ids t = Inr us"
    and us: "distinct us" "\<And>u. u \<in> set us \<Longrightarrow> \<exists>v \<in> set (db_tasks d). t_id v = u \<and> t_status v = COMPLETED \<and> live_task v"
    using first_unfinished [OF assms(1,2)] by metis
  have "are_dependencies_completed d t = Inr True"
    unfolding are_dependencies_completed_iff [OF db_ok_distinct [OF ok] t(4)] using us by blast
  then have s: "deps_satisfied d t" using deps_satisfied_iff [OF ok db_ok_task [OF ok t(1)]] by simp
  have "t_status t \<in> {PENDING, BLOCKED}"
    using assms(3) [OF t(1,2)] t(3) sound_planD [OF assms(1) t(1,2)] by (cases "t_status t") (auto simp: plannable_def)
  then have c: "resolve_candidate (\<lambda>_. False) t" using t(2) by (simp add: resolve_candidate_def in_plan_def)
  let ?h = "\<lambda>t. if resolve_candidate (\<lambda>_. False) t \<and> deps_satisfied d t
      then t\<lparr>t_status := READY, t_modified_at := now\<rparr> else t"
  have "?h t \<in> set (map ?h (db_tasks d))" using t(1) by (simp only: set_map image_eqI)
  then have "t\<lparr>t_status := READY, t_modified_at := now\<rparr> \<in> set (db_tasks (snd (resolve_task_dependencies now (\<lambda>_. False) d)))"
    unfolding resolve_task_dependencies_eq [OF ok] Let_def using c s by simp
  then show ?thesis by (rule that) (use t(2) in \<open>simp_all add: in_plan_def\<close>)
qed

end
