(* ===== verification/System_Properties.thy ===== *)
theory System_Properties
  imports Examples Plan_Progress
begin

text \<open>
  The task system as a whole: what holds in every reachable state, and that a plan without
  cycles can always be carried through.
\<close>

section \<open>The reachable states\<close>

text \<open>
  C12: Whatever executors, tools and REST calls do, in any order and with any arguments, the
  table stays consistent: identifiers are unique; a completion time is set exactly for the
  terminal statuses; a \<open>BLOCKED\<close> task has dependencies; and every stored dependency is the text
  of a UUID, so that no later operation fails on reading it.
\<close>

theorem reachable_consistent:
  assumes "reachable d"
  shows "distinct (map t_id (db_tasks d)) \<and>
    list_all (\<lambda>t. (t_status t \<in> {COMPLETED, FAILED, CANCELLED} \<longleftrightarrow> t_completed_at t \<noteq> None) \<and>
                  (t_status t \<noteq> BLOCKED \<or> deps_of t \<noteq> []) \<and>
                  list_all (\<lambda>s. \<exists>u. parse_uuid s = Inr u) (deps_of t)) (db_tasks d)"
  using reachable_ok [OF assms]
  by (auto simp: db_ok_def task_ok_def list_all_iff TERMINAL_TASK_STATUSES_def)

definition ex_sequence :: tasks_arg where
  "ex_sequence = TaskArray (map (\<lambda>title. Some \<lparr>td_title = title, td_name = None, td_description = None,
     td_depends_on = None, td_priority = None, td_agent_name = None, td_parent_task_id = None,
     td_task_data = None\<rparr>) [''first'', ''second''])"

theorem reachable_consistent_witness:
  "let d = snd (mcp_add_task_sequence (ex_cx ''alice'') (\<lambda>k. if k = 0 then 10 else 11) (str_uuid 1) ex_sequence None (ex_db []))
   in map t_status (db_tasks d) = [READY, BLOCKED] \<and> distinct (map t_id (db_tasks d)) \<and>
      list_all (\<lambda>t. t_status t \<noteq> BLOCKED \<or> deps_of t \<noteq> []) (db_tasks d)"
proof -
  let ?fresh = "\<lambda>k :: nat. if k = 0 then 10 else (11 :: uuid)"
  let ?d = "snd (mcp_add_task_sequence (ex_cx ''alice'') ?fresh (str_uuid 1) ex_sequence None (ex_db []))"
  have "fresh_ids (batch_size_of ex_sequence) ?fresh (ex_db [])"
    by (simp add: fresh_ids_def batch_size_of_def ex_sequence_def ex_db_def)
  then have "tool_step (ex_db []) ?d" by (rule tool_step.add_task_sequence)
  moreover have "reachable (ex_db [])" by (rule reachable.initial) (simp add: ex_db_def)
  ultimately have "reachable ?d" by (blast intro: reachable.step system_step.tool)
  from reachable_consistent [OF this] have "distinct (map t_id (db_tasks ?d)) \<and>
      list_all (\<lambda>t. t_status t \<noteq> BLOCKED \<or> deps_of t \<noteq> []) (db_tasks ?d)" by (simp add: list_all_iff)
  moreover have "map t_status (db_tasks ?d) = [READY, BLOCKED]" by code_simp
  ultimately show ?thesis by (simp add: Let_def)
qed

section \<open>Progress\<close>

text \<open>
  C13: No deadlock. While a project with a sound plan has an unfinished task, one run of the
  dependency resolution, with a database that works and no row locked by others, leaves a task of the
  project that is running or ready to run. A plan is sound when the rows are consistent (\<open>db_ok\<close>), its graph has no
  cycle, every task names different live tasks of the same project and has readable data, and
  none is failed, cancelled or waiting for a review.
\<close>

theorem no_deadlock:
  assumes "sound_plan p d" "unfinished p d \<noteq> {}"
  shows "list_ex (\<lambda>u. in_plan p u \<and> t_status u \<in> {READY, IN_PROGRESS})
    (db_tasks (snd (resolve_task_dependencies now (\<lambda>_. False) d)))"
proof -
  let ?rows = "db_tasks (snd (resolve_task_dependencies now (\<lambda>_. False) d))"
  have ok: "db_ok d" using assms(1) by (simp add: sound_plan_def)
  have "\<exists>u \<in> set ?rows. in_plan p u \<and> t_status u \<in> {READY, IN_PROGRESS}"
  proof (cases "\<exists>t \<in> set (db_tasks d). in_plan p t \<and> t_status t \<in> {READY, IN_PROGRESS}")
    case True
    then obtain t where t: "t \<in> set (db_tasks d)" "in_plan p t" "t_status t \<in> {READY, IN_PROGRESS}" by blast
    let ?h = "\<lambda>t. if resolve_candidate (\<lambda>_. False) t \<and> deps_satisfied d t
        then t\<lparr>t_status := READY, t_modified_at := now\<rparr> else t"
    have "?h t \<in> set (map ?h (db_tasks d))" using t(1) by (simp only: set_map image_eqI)
    also have "map ?h (db_tasks d) = ?rows" by (simp add: resolve_task_dependencies_eq [OF ok] Let_def)
    finally have "?h t \<in> set ?rows" .
    moreover have "?h t = t" using t(3) by (auto simp: resolve_candidate_def)
    ultimately have "t \<in> set ?rows" by (simp only:)
    with t show ?thesis by blast
  next
    case False
    obtain u where "u \<in> set ?rows" "in_plan p u" "t_status u = READY"
      by (rule resolve_unblocks [OF assms, of now]) (use False in auto)
    then show ?thesis by blast
  qed
  then show ?thesis by (simp add: list_ex_iff)
qed

lemma ex_plan:
  "sound_plan 1 (ex_db [ex_task 2 READY [], ex_task 3 BLOCKED [2]])"
  "active_project 1 (ex_db [ex_task 2 READY [], ex_task 3 BLOCKED [2]])"
  "unfinished 1 (ex_db [ex_task 2 READY [], ex_task 3 BLOCKED [2]]) = {2, 3}"
proof -
  let ?d = "ex_db [ex_task 2 READY [], ex_task 3 BLOCKED [2]]"
  have "(3, 2) \<in> dep_edges 1 ?d"
    by (rule dep_edgesI [of "ex_task 3 BLOCKED [2]" _ _ _ "str_uuid 2"]) (simp_all add: ex_defs)
  moreover have "dep_edges 1 ?d \<subseteq> {(3, 2)}" by (auto simp: dep_edges_def ex_defs)
  ultimately have "dep_edges 1 ?d = {(3, 2)}" by blast
  moreover have "acyclic {(3 :: uuid, 2 :: uuid)}" by (rule acyclicI_order [of _ id]) simp
  moreover have "db_ok ?d" by (simp add: db_ok_def task_ok_def ex_defs)
  moreover have "plannable 1 ?d (ex_task 2 READY [])"
    by (simp add: plannable_def readable_def dep_ids_def) (simp add: ex_defs)
  moreover have "plannable 1 ?d (ex_task 3 BLOCKED [2])"
  proof -
    have "ex_task 2 READY [] \<in> {v \<in> set (db_tasks ?d). in_plan 1 v}" by (simp add: in_plan_def ex_defs)
    moreover have "2 = t_id (ex_task 2 READY [])" by (simp add: ex_defs)
    ultimately have "2 \<in> t_id ` {v \<in> set (db_tasks ?d). in_plan 1 v}" by (rule rev_image_eqI)
    moreover have "dep_ids (ex_task 3 BLOCKED [2]) = Inr [2]" by (simp add: dep_ids_def ex_defs)
    ultimately show ?thesis unfolding plannable_def by (simp add: readable_def) (simp add: ex_defs)
  qed
  moreover have "db_tasks ?d = [ex_task 2 READY [], ex_task 3 BLOCKED [2]]" by (simp add: ex_db_def)
  ultimately show "sound_plan 1 ?d" by (simp add: sound_plan_def)
  show "active_project 1 ?d" by (simp add: active_project_def find_project_def ex_defs)
  let ?a = "ex_task 2 READY []" and ?b = "ex_task 3 BLOCKED [2]"
  have rows: "db_tasks ?d = [?a, ?b]" by (simp add: ex_db_def)
  have "in_plan 1 ?a" "in_plan 1 ?b" "t_status ?a \<noteq> COMPLETED" "t_status ?b \<noteq> COMPLETED" "t_id ?a = 2" "t_id ?b = 3"
    by (simp_all add: in_plan_def ex_defs)
  moreover from this have "{t \<in> set (db_tasks ?d). in_plan 1 t \<and> t_status t \<noteq> COMPLETED} = {?a, ?b}"
    unfolding rows by auto
  ultimately show "unfinished 1 ?d = {2, 3}" unfolding unfinished_def by (simp only: image_insert image_empty)
qed

theorem no_deadlock_witness:
  "list_ex (\<lambda>u. in_plan 1 u \<and> t_status u \<in> {READY, IN_PROGRESS})
    (db_tasks (snd (resolve_task_dependencies 9 (\<lambda>_. False) (ex_db [ex_task 2 READY [], ex_task 3 BLOCKED [2]]))))"
  by (rule no_deadlock [OF ex_plan(1)]) (simp add: ex_plan(3))

text \<open>
  C14: A sound plan can be carried through. From any state in which an active project has a
  sound plan there is a run of the executor (resolving, claiming and completing tasks) after
  which every task of the project is \<open>COMPLETED\<close>.
\<close>

lemma plan_progress:
  assumes "sound_plan p d" "active_project p d" "unfinished p d \<noteq> {}"
  obtains d' where "executor_step\<^sup>*\<^sup>* d d'" "forward d d'" "db_ok d'" "unfinished p d' \<subset> unfinished p d"
proof -
  note found = that
  have ok: "db_ok d" using assms(1) by (simp add: sound_plan_def)
  have complete: thesis
    if run: "executor_step\<^sup>*\<^sup>* d e" "forward d e" "db_ok e" and t: "t \<in> set (db_tasks e)" "in_plan p t" "t_status t = IN_PROGRESS"
    for e t
  proof -
    have sound: "sound_plan p e" by (rule forward_sound [OF assms(1) run(2,3)])
    have "readable t" using sound_planD [OF sound t(1,2)] by (simp add: plannable_def)
    moreover have "r = t" if "r \<in> set (db_tasks e)" "t_id r = t_id t" for r
      using that t(1) by (intro distinct_key_unique [OF db_ok_distinct [OF run(3)]])
    ultimately obtain d' where d': "executor_step e d'" "forward e d'" "db_ok d'"
      "\<And>u. u \<in> set (db_tasks d') \<Longrightarrow> t_id u = t_id t \<Longrightarrow> t_status u = COMPLETED"
      using completion_forward [OF run(3) t(1,3)] by metis
    have "t_id t \<in> unfinished p e" using t by (auto simp: unfinished_def)
    then have "t_id t \<in> unfinished p d" using forward_unfinished [OF run(2)] by blast
    moreover have "t_id t \<notin> unfinished p d'" using d'(4) by (auto simp: unfinished_def)
    moreover have fwd: "forward d d'" by (rule forward_trans [OF run(2) d'(2)])
    ultimately have "unfinished p d' \<subset> unfinished p d" using forward_unfinished [of d d' p] by blast
    with run(1) d'(1,3) fwd show thesis by (intro found) auto
  qed
  have claim: thesis
    if run: "executor_step\<^sup>*\<^sup>* d e" "forward d e" "db_ok e" and t: "t \<in> set (db_tasks e)" "in_plan p t" "t_status t = READY"
    for e t
  proof -
    have "readable t" using sound_planD [OF forward_sound [OF assms(1) run(2,3)] t(1,2)] by (simp add: plannable_def)
    moreover have "active_project p e" using assms(2) forward_active [OF run(2)] by simp
    ultimately obtain e' u where e': "executor_step e e'" "forward e e'" "db_ok e'" "u \<in> set (db_tasks e')"
      "in_plan p u" "t_status u = IN_PROGRESS"
      using claim_forward [OF run(3) t(1,3) _ t(2)] by metis
    show thesis
      by (rule complete [OF _ forward_trans [OF run(2) e'(2)] e'(3-6)]) (use run(1) e'(1) in auto)
  qed
  show thesis
  proof (cases "\<exists>t \<in> set (db_tasks d). in_plan p t \<and> t_status t \<in> {READY, IN_PROGRESS}")
    case True
    then show thesis using complete [of d] claim [of d] ok by auto
  next
    case False
    let ?e = "snd (resolve_task_dependencies 0 (\<lambda>_. False) d)"
    have step: "executor_step d ?e" by (rule executor_step.resolve)
    obtain u where u: "u \<in> set (db_tasks ?e)" "in_plan p u" "t_status u = READY"
      using resolve_unblocks [OF assms(1,3), of 0] False by blast
    show thesis
      by (rule claim [OF _ resolve_forward [OF ok] resolve_ok [OF ok] u]) (use step in auto)
  qed
qed

theorem sound_plan_completes:
  assumes "sound_plan p d" "active_project p d"
  shows "\<exists>d'. executor_step\<^sup>*\<^sup>* d d' \<and> unfinished p d' = {} \<and> dep_edges p d' = dep_edges p d \<and>
    map t_id (db_tasks d') = map t_id (db_tasks d)"
proof -
  have "\<exists>d'. executor_step\<^sup>*\<^sup>* d d' \<and> forward d d' \<and> unfinished p d' = {}"
    using assms
  proof (induction "card (unfinished p d)" arbitrary: d rule: less_induct)
    case less
    show ?case
    proof (cases "unfinished p d = {}")
      case True
      then show ?thesis by (intro exI [of _ d]) simp
    next
      case False
      obtain e where e: "executor_step\<^sup>*\<^sup>* d e" "forward d e" "db_ok e" "unfinished p e \<subset> unfinished p d"
        using plan_progress [OF less.prems False] by metis
      have "card (unfinished p e) < card (unfinished p d)" by (rule psubset_card_mono [OF unfinished_finite e(4)])
      moreover have "sound_plan p e" by (rule forward_sound [OF less.prems(1) e(2,3)])
      moreover have "active_project p e" using less.prems(2) forward_active [OF e(2)] by simp
      ultimately obtain d' where "executor_step\<^sup>*\<^sup>* e d'" "forward e d'" "unfinished p d' = {}"
        using less.hyps by metis
      with e(1,2) show ?thesis using forward_trans by (meson rtranclp_trans)
    qed
  qed
  then obtain d' where d': "executor_step\<^sup>*\<^sup>* d d'" "forward d d'" "unfinished p d' = {}" by blast
  have "map t_id (db_tasks d') = map t_id (db_tasks d)"
    using d'(2) unfolding forward_def list_all2_conv_all_nth by (auto intro!: nth_equalityI simp: moves_on_def)
  with d' show ?thesis using forward_edges [OF d'(2)] by blast
qed

theorem sound_plan_completes_witness:
  "\<exists>d'. executor_step\<^sup>*\<^sup>* (ex_db [ex_task 2 READY [], ex_task 3 BLOCKED [2]]) d' \<and> unfinished 1 d' = {} \<and>
     map t_id (db_tasks d') = [2, 3]"
proof -
  have "map t_id (db_tasks (ex_db [ex_task 2 READY [], ex_task 3 BLOCKED [2]])) = [2, 3]" by (simp add: ex_defs)
  with sound_plan_completes [OF ex_plan(1,2)] show ?thesis by metis
qed

end
