(* ===== verification/Subagent_Queue.thy ===== *)
theory Subagent_Queue
  imports Py_Runtime
begin

text \<open>
  The queues of \<open>core/subagent_queue.py\<close> through which finished subagents hand their results
  to the parent session. The queue objects live in a store, because a drain coroutine keeps
  its reference to the object while the module's dictionary \<open>_queues\<close> may lose the entry or
  map the session to a new object. A coroutine is either scheduled and not yet started, or
  suspended in the delivery callback; between two suspensions it runs without interruption,
  so one resumption is one step. \<open>sq_log\<close> records each result taken from a queue, in order,
  with whether the callback was called for it (otherwise it was dropped with a log entry).
\<close>

section \<open>State\<close>

record subagent_result =
  sr_db_session_id :: string
  sr_agent_type :: string
  sr_model :: string
  sr_status :: string
  sr_text :: string
  sr_duration_ms :: "int option"
  sr_cost_usd :: "rat option"
  sr_description :: string
  sr_extra :: py_dict

datatype drain_task =
    Scheduled string
  | Delivering string nat subagent_result

fun drain_session :: "drain_task \<Rightarrow> string" where
  "drain_session (Scheduled s) = s"
| "drain_session (Delivering s q r) = s"

record queue_state =
  sq_queues :: "string \<Rightarrow> nat option"
  sq_store :: "nat \<Rightarrow> subagent_result list"
  sq_next :: nat
  sq_tasks :: "drain_task list"
  sq_callback :: bool
  sq_log :: "(string \<times> subagent_result \<times> bool) list"

definition no_queues :: queue_state where
  "no_queues = \<lparr>sq_queues = (\<lambda>_. None), sq_store = (\<lambda>_. []), sq_next = 0, sq_tasks = [],
     sq_callback = False, sq_log = []\<rparr>"

section \<open>Operations\<close>

definition register_delivery_callback :: "queue_state \<Rightarrow> queue_state" where
  "register_delivery_callback st = st\<lparr>sq_callback := True\<rparr>"

definition get_or_create_queue :: "string \<Rightarrow> queue_state \<Rightarrow> nat \<times> queue_state" where
  "get_or_create_queue s st =
     (case sq_queues st s of
        Some q \<Rightarrow> (q, st)
      | None \<Rightarrow> (sq_next st, st\<lparr>sq_queues := (sq_queues st)(s := Some (sq_next st)),
                               sq_store := (sq_store st)(sq_next st := []), sq_next := Suc (sq_next st)\<rparr>))"

definition put_result :: "string \<Rightarrow> subagent_result \<Rightarrow> queue_state \<Rightarrow> queue_state" where
  "put_result s r st =
     (let (q, st1) = get_or_create_queue s st;
          st2 = st1\<lparr>sq_store := (sq_store st1)(q := sq_store st1 q @ [r])\<rparr>
      in st2\<lparr>sq_tasks := sq_tasks st2 @ [Scheduled s]\<rparr>)"

text \<open>The end of \<open>_drain\<close>: an empty queue of the session is removed from the dictionary.\<close>

definition remove_if_empty :: "string \<Rightarrow> queue_state \<Rightarrow> queue_state" where
  "remove_if_empty s st =
     (case sq_queues st s of
        None \<Rightarrow> st
      | Some q \<Rightarrow> if sq_store st q = [] then st\<lparr>sq_queues := (sq_queues st)(s := None)\<rparr> else st)"

text \<open>
  The loop of \<open>_drain\<close> on the queue object \<open>q\<close>, up to the next suspension in the callback or
  the end. Without a callback the results are dropped one after the other.
\<close>

function drain_loop :: "string \<Rightarrow> nat \<Rightarrow> queue_state \<Rightarrow> queue_state" where
  "drain_loop s q st =
     (case sq_store st q of
        [] \<Rightarrow> remove_if_empty s st
      | r # rs \<Rightarrow>
          (let st1 = st\<lparr>sq_store := (sq_store st)(q := rs), sq_log := sq_log st @ [(s, r, sq_callback st)]\<rparr>
           in if sq_callback st then st1\<lparr>sq_tasks := sq_tasks st1 @ [Delivering s q r]\<rparr>
              else drain_loop s q st1))"
  by pat_completeness auto
termination
  by (relation "measure (\<lambda>(s, q, st). length (sq_store st q))") auto

declare drain_loop.simps [simp del]

definition drain_begin :: "string \<Rightarrow> queue_state \<Rightarrow> queue_state" where
  "drain_begin s st = (case sq_queues st s of None \<Rightarrow> st | Some q \<Rightarrow> drain_loop s q st)"

text \<open>
  The event loop resumes the \<open>i\<close>-th coroutine: a scheduled one starts, a suspended one goes on
  after its callback has returned or raised (the exception is logged and the loop goes on).
\<close>

definition without_task :: "nat \<Rightarrow> queue_state \<Rightarrow> queue_state" where
  "without_task i st = st\<lparr>sq_tasks := take i (sq_tasks st) @ drop (Suc i) (sq_tasks st)\<rparr>"

definition resume_drain :: "nat \<Rightarrow> queue_state \<Rightarrow> queue_state" where
  "resume_drain i st =
     (if i < length (sq_tasks st)
      then (case sq_tasks st ! i of
              Scheduled s \<Rightarrow> drain_begin s (without_task i st)
            | Delivering s q r \<Rightarrow> drain_loop s q (without_task i st))
      else st)"

text \<open>Any interleaving of puts, the registration at start-up, and resumptions.\<close>

datatype queue_event = Put string subagent_result | Register | Resume nat

fun apply_event :: "queue_event \<Rightarrow> queue_state \<Rightarrow> queue_state" where
  "apply_event (Put s r) st = put_result s r st"
| "apply_event Register st = register_delivery_callback st"
| "apply_event (Resume i) st = resume_drain i st"

definition run_queues :: "queue_event list \<Rightarrow> queue_state" where
  "run_queues es = fold apply_event es no_queues"

text \<open>What a session's history says: results put, results taken, results waiting.\<close>

definition puts_of :: "string \<Rightarrow> queue_event list \<Rightarrow> subagent_result list" where
  "puts_of s es = concat (map (\<lambda>e. case e of Put s' r \<Rightarrow> if s' = s then [r] else [] | _ \<Rightarrow> []) es)"

definition taken_of :: "string \<Rightarrow> queue_state \<Rightarrow> subagent_result list" where
  "taken_of s st = map (fst \<circ> snd) (filter (\<lambda>e. fst e = s) (sq_log st))"

definition waiting_of :: "string \<Rightarrow> queue_state \<Rightarrow> subagent_result list" where
  "waiting_of s st = (case sq_queues st s of None \<Rightarrow> [] | Some q \<Rightarrow> sq_store st q)"

section \<open>What the loop does\<close>

text \<open>Taking one result from a queue object.\<close>

definition take_result :: "string \<Rightarrow> nat \<Rightarrow> queue_state \<Rightarrow> queue_state" where
  "take_result s q st =
     st\<lparr>sq_store := (sq_store st)(q := tl (sq_store st q)),
        sq_log := sq_log st @ [(s, hd (sq_store st q), sq_callback st)]\<rparr>"

text \<open>
  Every property of states that taking a result, suspending and removing an empty queue
  keep is kept by the loop.
\<close>

lemma drain_loop_rule:
  assumes "P st"
    and "\<And>st. P st \<Longrightarrow> sq_store st q \<noteq> [] \<Longrightarrow> \<not> sq_callback st \<Longrightarrow> P (take_result s q st)"
    and "\<And>st. P st \<Longrightarrow> sq_store st q \<noteq> [] \<Longrightarrow> sq_callback st \<Longrightarrow>
      Q ((take_result s q st)\<lparr>sq_tasks := sq_tasks st @ [Delivering s q (hd (sq_store st q))]\<rparr>)"
    and "\<And>st. P st \<Longrightarrow> sq_store st q = [] \<Longrightarrow> Q (remove_if_empty s st)"
  shows "Q (drain_loop s q st)"
  using assms
proof (induction s q st rule: drain_loop.induct)
  case (1 s q st)
  show ?case
  proof (cases "sq_store st q")
    case Nil
    then show ?thesis using 1(2,5) by (simp add: drain_loop.simps)
  next
    case (Cons r rs)
    let ?st = "st\<lparr>sq_store := (sq_store st)(q := rs), sq_log := sq_log st @ [(s, r, sq_callback st)]\<rparr>"
    have t: "take_result s q st = ?st" using Cons by (simp add: take_result_def)
    show ?thesis
    proof (cases "sq_callback st")
      case True
      then show ?thesis using 1(4) [OF 1(2)] Cons t by (simp add: drain_loop.simps)
    next
      case False
      have "P ?st" using 1(3) [OF 1(2)] Cons False t by simp
      then have "Q (drain_loop s q ?st)"
        by (intro 1(1) [OF Cons refl False] 1(3-5))
      then show ?thesis using Cons False by (simp add: drain_loop.simps [of s q st])
    qed
  qed
qed

section \<open>The invariant\<close>

text \<open>
  The dictionary maps different sessions to different objects; an object outside it holds
  nothing (so no result is lost with it); a suspended coroutine holds an object of its own
  session or an orphan; a non-empty queue has a coroutine that will get to it.
\<close>

definition owns :: "queue_state \<Rightarrow> string \<Rightarrow> nat \<Rightarrow> bool" where
  "owns st s q \<longleftrightarrow> sq_queues st s = Some q"

definition separate :: "queue_state \<Rightarrow> bool" where
  "separate st \<longleftrightarrow>
     (\<forall>s q. owns st s q \<longrightarrow> q < sq_next st) \<and>
     (\<forall>s s' q. owns st s q \<longrightarrow> owns st s' q \<longrightarrow> s = s') \<and>
     (\<forall>q. (\<forall>s. \<not> owns st s q) \<longrightarrow> sq_store st q = []) \<and>
     (\<forall>s q r. Delivering s q r \<in> set (sq_tasks st) \<longrightarrow> q < sq_next st \<and> (\<forall>s'. owns st s' q \<longrightarrow> s' = s))"

definition attended :: "queue_state \<Rightarrow> string \<Rightarrow> nat \<Rightarrow> bool" where
  "attended st s q \<longleftrightarrow> Scheduled s \<in> set (sq_tasks st) \<or> (\<exists>r. Delivering s q r \<in> set (sq_tasks st))"

definition history :: "string \<Rightarrow> queue_state \<Rightarrow> subagent_result list" where
  "history s st = taken_of s st @ waiting_of s st"

definition drain_work :: "queue_state \<Rightarrow> nat" where
  "drain_work st = 2 * (\<Sum>q < sq_next st. length (sq_store st q)) + length (sq_tasks st)"

definition queues_ok :: "queue_state \<Rightarrow> bool" where
  "queues_ok st \<longleftrightarrow> separate st \<and> (\<forall>s q. owns st s q \<longrightarrow> attended st s q)"

text \<open>The state inside the loop of a coroutine of session \<open>s\<close> on the object \<open>q\<close>.\<close>

definition draining :: "string \<Rightarrow> nat \<Rightarrow> queue_state \<Rightarrow> bool" where
  "draining s q st \<longleftrightarrow> separate st \<and> q < sq_next st \<and> (\<forall>s'. owns st s' q \<longrightarrow> s' = s) \<and>
     (\<forall>s' q'. owns st s' q' \<longrightarrow> (s', q') = (s, q) \<or> attended st s' q')"

lemma draining_owns: "draining s q st \<Longrightarrow> sq_store st q \<noteq> [] \<Longrightarrow> owns st s q"
  unfolding draining_def separate_def by blast

lemma history_cong:
  "sq_queues st' = sq_queues st \<Longrightarrow> sq_store st' = sq_store st \<Longrightarrow> sq_log st' = sq_log st \<Longrightarrow>
     history s st' = history s st"
  by (simp add: history_def taken_of_def waiting_of_def split: option.split)

lemma take_result_frame [simp]:
  "sq_next (take_result s q st) = sq_next st" "sq_tasks (take_result s q st) = sq_tasks st"
  "sq_queues (take_result s q st) = sq_queues st" "owns (take_result s q st) = owns st"
  "attended (take_result s q st) = attended st"
  by (simp_all add: take_result_def owns_def attended_def fun_eq_iff)

lemma take_result_store:
  "sq_store st q' = [] \<Longrightarrow> sq_store (take_result s q st) q' = []"
  by (cases "q' = q") (simp_all add: take_result_def)

lemma draining_take:
  assumes "draining s q st" "sq_store st q \<noteq> []"
  shows "draining s q (take_result s q st)"
    "history s' (take_result s q st) = history s' st"
    "drain_work st = drain_work (take_result s q st) + 2"
proof -
  have o: "owns st s q" by (rule draining_owns [OF assms])
  show "draining s q (take_result s q st)"
    using assms(1) take_result_store unfolding draining_def separate_def take_result_frame by blast
  show "history s' (take_result s q st) = history s' st"
  proof (cases "s' = s")
    case True
    then show ?thesis
      using o assms(2) by (simp add: history_def taken_of_def waiting_of_def take_result_def owns_def)
  next
    case False
    then have "\<not> owns st s' q" using assms(1) by (auto simp: draining_def)
    then show ?thesis using False
      by (auto simp: history_def taken_of_def waiting_of_def take_result_def owns_def split: option.splits)
  qed
  have q: "q < sq_next st" using assms(1) by (simp add: draining_def)
  have "(\<Sum>q' < sq_next st. length (sq_store st q')) =
      Suc (\<Sum>q' < sq_next st. length (if q' = q then tl (sq_store st q) else sq_store st q'))"
    using q assms(2) by (simp add: sum.remove [of _ q])
  then show "drain_work st = drain_work (take_result s q st) + 2"
    by (simp add: drain_work_def take_result_def fun_upd_def)
qed

lemma draining_suspend:
  assumes "draining s q st"
  shows "queues_ok (st\<lparr>sq_tasks := sq_tasks st @ [Delivering s q r]\<rparr>)"
proof -
  let ?st = "st\<lparr>sq_tasks := sq_tasks st @ [Delivering s q r]\<rparr>"
  have [simp]: "owns ?st = owns st" by (simp add: owns_def fun_eq_iff)
  have d: "Delivering s' q' r' \<in> set (sq_tasks ?st) \<longleftrightarrow>
      s' = s \<and> q' = q \<and> r' = r \<or> Delivering s' q' r' \<in> set (sq_tasks st)" for s' q' r' by auto
  have sep: "separate st" "q < sq_next st" "\<And>s'. owns st s' q \<Longrightarrow> s' = s"
    using assms by (auto simp: draining_def)
  then have "separate ?st" unfolding separate_def d by simp
  moreover have "owns st s' q' \<longrightarrow> attended ?st s' q'" for s' q'
    using assms unfolding draining_def attended_def d by auto
  ultimately show ?thesis unfolding queues_ok_def by simp
qed

lemma draining_finish:
  assumes "draining s q st" "sq_store st q = []"
  shows "queues_ok (remove_if_empty s st)" "history s' (remove_if_empty s st) = history s' st"
    "drain_work (remove_if_empty s st) = drain_work st"
proof -
  let ?st = "remove_if_empty s st"
  have owns_iff: "owns ?st s'' q' \<longleftrightarrow> owns st s'' q' \<and> \<not> (s'' = s \<and> sq_store st q' = [])" for s'' q'
    by (auto simp: remove_if_empty_def owns_def split: option.splits)
  have [simp]: "sq_store ?st = sq_store st" "sq_next ?st = sq_next st" "sq_tasks ?st = sq_tasks st" "sq_log ?st = sq_log st"
    by (simp_all add: remove_if_empty_def split: option.splits)
  have "separate ?st" using assms(1) unfolding draining_def separate_def owns_iff by simp blast
  moreover have "owns ?st s'' q' \<longrightarrow> attended ?st s'' q'" for s'' q'
    using assms unfolding draining_def owns_iff attended_def by auto
  ultimately show "queues_ok ?st" unfolding queues_ok_def by blast
  have "waiting_of s' ?st = waiting_of s' st"
    by (auto simp: waiting_of_def remove_if_empty_def split: option.splits)
  then show "history s' ?st = history s' st" by (simp add: history_def taken_of_def)
  show "drain_work ?st = drain_work st" by (simp add: drain_work_def)
qed

text \<open>One run of the loop: the invariant is re-established, nothing is lost, work gets less.\<close>

lemma drain_loop_ok:
  assumes "draining s q st"
  shows "queues_ok (drain_loop s q st) \<and> (\<forall>s'. history s' (drain_loop s q st) = history s' st) \<and>
    drain_work (drain_loop s q st) \<le> drain_work st"
proof (rule drain_loop_rule [where P = "\<lambda>st'. draining s q st' \<and> (\<forall>s'. history s' st' = history s' st) \<and>
      drain_work st' \<le> drain_work st"])
  show "draining s q st \<and> (\<forall>s'. history s' st = history s' st) \<and> drain_work st \<le> drain_work st"
    using assms by simp
next
  fix st'
  assume P: "draining s q st' \<and> (\<forall>s'. history s' st' = history s' st) \<and> drain_work st' \<le> drain_work st"
    and ne: "sq_store st' q \<noteq> []"
  then have d: "draining s q st'" by blast
  show taken: "draining s q (take_result s q st') \<and> (\<forall>s'. history s' (take_result s q st') = history s' st) \<and>
      drain_work (take_result s q st') \<le> drain_work st"
    using P draining_take [OF d ne] by simp
  let ?st = "(take_result s q st')\<lparr>sq_tasks := sq_tasks st' @ [Delivering s q (hd (sq_store st' q))]\<rparr>"
  have "sq_tasks (take_result s q st') = sq_tasks st'" by (simp add: take_result_def)
  with draining_suspend [OF conjunct1 [OF taken], of "hd (sq_store st' q)"] have "queues_ok ?st" by simp
  moreover have "history s' ?st = history s' (take_result s q st')" for s' by (rule history_cong) simp_all
  moreover have "drain_work ?st = Suc (drain_work (take_result s q st'))"
    by (simp add: drain_work_def take_result_def)
  ultimately show "queues_ok ?st \<and> (\<forall>s'. history s' ?st = history s' st) \<and> drain_work ?st \<le> drain_work st"
    using P taken draining_take(3) [OF d ne] by simp
next
  fix st'
  assume P: "draining s q st' \<and> (\<forall>s'. history s' st' = history s' st) \<and> drain_work st' \<le> drain_work st"
    and "sq_store st' q = []"
  then show "queues_ok (remove_if_empty s st') \<and> (\<forall>s'. history s' (remove_if_empty s st') = history s' st) \<and>
      drain_work (remove_if_empty s st') \<le> drain_work st"
    using draining_finish [of s q st'] by simp
qed

lemma without_task_tasks:
  assumes "i < length (sq_tasks st)"
  shows "set (sq_tasks st) = insert (sq_tasks st ! i) (set (sq_tasks (without_task i st)))"
    "length (sq_tasks st) = Suc (length (sq_tasks (without_task i st)))"
proof -
  note split = id_take_nth_drop [OF assms]
  have "set (sq_tasks st) = set (take i (sq_tasks st) @ sq_tasks st ! i # drop (Suc i) (sq_tasks st))"
    by (rule arg_cong [OF split])
  then show "set (sq_tasks st) = insert (sq_tasks st ! i) (set (sq_tasks (without_task i st)))"
    by (simp add: without_task_def)
  have "length (sq_tasks st) = length (take i (sq_tasks st) @ sq_tasks st ! i # drop (Suc i) (sq_tasks st))"
    by (rule arg_cong [OF split])
  then show "length (sq_tasks st) = Suc (length (sq_tasks (without_task i st)))"
    by (simp add: without_task_def)
qed

lemma resume_drain_ok:
  assumes ok: "queues_ok st" and i: "i < length (sq_tasks st)"
  shows "queues_ok (resume_drain i st)" "history s' (resume_drain i st) = history s' st"
    "drain_work (resume_drain i st) < drain_work st"
proof -
  let ?st = "without_task i st"
  have [simp]: "sq_queues ?st = sq_queues st" "sq_store ?st = sq_store st" "sq_next ?st = sq_next st"
    "sq_log ?st = sq_log st" by (simp_all add: without_task_def)
  have h: "history s' ?st = history s' st" for s' by (rule history_cong) simp_all
  have w: "drain_work st = Suc (drain_work ?st)" using without_task_tasks(2) [OF i] by (simp add: drain_work_def)
  note set_tasks = without_task_tasks(1) [OF i]
  have owns: "owns ?st = owns st" by (simp add: owns_def fun_eq_iff)
  have "set (sq_tasks ?st) \<subseteq> set (sq_tasks st)" using set_tasks by blast
  then have sep: "separate ?st" using ok unfolding queues_ok_def separate_def owns by simp blast
  have att: "attended st s q \<longleftrightarrow> attended ?st s q \<or> sq_tasks st ! i = Scheduled s \<or> (\<exists>r. sq_tasks st ! i = Delivering s q r)"
    for s q unfolding attended_def set_tasks insert_iff by metis
  have goal: "queues_ok (resume_drain i st) \<and> (\<forall>s'. history s' (resume_drain i st) = history s' ?st) \<and>
      drain_work (resume_drain i st) \<le> drain_work ?st"
  proof (cases "sq_tasks st ! i")
    case (Scheduled s)
    show ?thesis
    proof (cases "sq_queues st s")
      case None
      have "owns ?st s' q \<longrightarrow> attended ?st s' q" for s' q
        using ok att [of s' q] Scheduled None unfolding queues_ok_def owns by (auto simp: owns_def)
      then show ?thesis using sep i Scheduled None by (simp add: resume_drain_def drain_begin_def queues_ok_def)
    next
      case (Some q)
      have "draining s q ?st"
        unfolding draining_def owns
      proof (intro conjI allI impI sep)
        have "owns st s q" using Some by (simp add: owns_def)
        then show "q < sq_next ?st" "owns st s' q \<Longrightarrow> s' = s" for s'
          using ok unfolding queues_ok_def separate_def by auto
        show "(s', q') = (s, q) \<or> attended ?st s' q'" if "owns st s' q'" for s' q'
          using ok that att [of s' q'] Scheduled Some by (auto simp: queues_ok_def owns_def)
      qed
      from drain_loop_ok [OF this] show ?thesis using i Scheduled Some by (simp add: resume_drain_def drain_begin_def)
    qed
  next
    case (Delivering s q r)
    have "draining s q ?st"
      unfolding draining_def owns
    proof (intro conjI allI impI sep)
      have "Delivering s q r \<in> set (sq_tasks st)" using Delivering i by (metis nth_mem)
      then have "q < sq_next st \<and> (\<forall>s'. owns st s' q \<longrightarrow> s' = s)"
        using ok unfolding queues_ok_def separate_def by blast
      then show "q < sq_next ?st" "owns st s' q \<Longrightarrow> s' = s" for s' by auto
      show "(s', q') = (s, q) \<or> attended ?st s' q'" if "owns st s' q'" for s' q'
        using ok that att [of s' q'] Delivering by (auto simp: queues_ok_def)
    qed
    from drain_loop_ok [OF this] show ?thesis using i Delivering by (simp add: resume_drain_def)
  qed
  then show "queues_ok (resume_drain i st)" "history s' (resume_drain i st) = history s' st"
    "drain_work (resume_drain i st) < drain_work st" using h w by simp_all
qed

lemma put_result_ok:
  assumes "queues_ok st"
  shows "queues_ok (put_result s r st)"
    "history s' (put_result s r st) = history s' st @ (if s' = s then [r] else [])"
    "drain_work (put_result s r st) = drain_work st + 3"
proof -
  have sep: "separate st" using assms by (simp add: queues_ok_def)
  show "queues_ok (put_result s r st)"
  proof (cases "sq_queues st s")
    case None
    let ?st = "put_result s r st"
    have o: "owns ?st s' q \<longleftrightarrow> (if s' = s then q = sq_next st else owns st s' q)" for s' q
      using None by (auto simp: put_result_def get_or_create_queue_def owns_def)
    have t: "Scheduled s' \<in> set (sq_tasks ?st) \<longleftrightarrow> s' = s \<or> Scheduled s' \<in> set (sq_tasks st)"
      "Delivering s' q r' \<in> set (sq_tasks ?st) \<longleftrightarrow> Delivering s' q r' \<in> set (sq_tasks st)" for s' q r'
      using None by (auto simp: put_result_def get_or_create_queue_def)
    have n: "sq_next ?st = Suc (sq_next st)" and e: "sq_store ?st q = (if q = sq_next st then [r] else sq_store st q)" for q
      using None by (auto simp: put_result_def get_or_create_queue_def)
    have "\<not> owns st s q" for q using None by (simp add: owns_def)
    with sep have bound: "owns st s' q \<Longrightarrow> s' \<noteq> s \<and> q < sq_next st" for s' q by (auto simp: separate_def)
    have nb: "\<not> owns st s' (sq_next st)" for s' using bound [of s' "sq_next st"] by auto
    have inj: "owns st s1 q \<Longrightarrow> owns st s2 q \<Longrightarrow> s1 = s2" for s1 s2 q using sep unfolding separate_def by blast
    have "separate ?st" unfolding separate_def o t n e
    proof (intro conjI allI impI)
      fix s1 s2 q
      assume *: "if s1 = s then q = sq_next st else owns st s1 q"
      then show "q < Suc (sq_next st)" using bound [of s1 q] by (cases "s1 = s") auto
      assume "if s2 = s then q = sq_next st else owns st s2 q"
      then show "s1 = s2" using * nb inj [of s1 q s2] by (cases "s1 = s"; cases "s2 = s") auto
    next
      fix q
      assume *: "\<forall>s'. \<not> (if s' = s then q = sq_next st else owns st s' q)"
      then have "q \<noteq> sq_next st" by presburger
      moreover have "\<not> owns st s' q" for s' using * bound [of s' q] by (auto split: if_splits)
      ultimately show "(if q = sq_next st then [r] else sq_store st q) = []" using sep by (simp add: separate_def)
    next
      fix s1 q r' s2
      assume "Delivering s1 q r' \<in> set (sq_tasks st)"
      then have d: "q < sq_next st" "\<And>s'. owns st s' q \<Longrightarrow> s' = s1" using sep unfolding separate_def by blast+
      then show "q < Suc (sq_next st)" by simp
      assume "if s2 = s then q = sq_next st else owns st s2 q"
      then show "s2 = s1" using d by (auto split: if_splits)
    qed
    moreover have "owns ?st s' q \<longrightarrow> attended ?st s' q" for s' q
      using assms unfolding queues_ok_def attended_def o t by auto
    ultimately show ?thesis unfolding queues_ok_def by blast
  next
    case (Some q0)
    let ?st = "put_result s r st"
    have o: "owns ?st = owns st" and n: "sq_next ?st = sq_next st"
      using Some by (auto simp: put_result_def get_or_create_queue_def owns_def fun_eq_iff)
    have t: "Scheduled s' \<in> set (sq_tasks ?st) \<longleftrightarrow> s' = s \<or> Scheduled s' \<in> set (sq_tasks st)"
      "Delivering s' q r' \<in> set (sq_tasks ?st) \<longleftrightarrow> Delivering s' q r' \<in> set (sq_tasks st)" for s' q r'
      using Some by (auto simp: put_result_def get_or_create_queue_def)
    have e: "sq_store ?st q = (if q = q0 then sq_store st q @ [r] else sq_store st q)" for q
      using Some by (auto simp: put_result_def get_or_create_queue_def)
    have "owns st s q0" using Some by (simp add: owns_def)
    with sep have "separate ?st" unfolding separate_def o t n e by simp blast
    moreover have "owns ?st s' q \<longrightarrow> attended ?st s' q" for s' q
      using assms unfolding queues_ok_def attended_def o t by auto
    ultimately show ?thesis unfolding queues_ok_def by blast
  qed
  show "history s' (put_result s r st) = history s' st @ (if s' = s then [r] else [])"
  proof (cases "sq_queues st s'")
    case None
    then show ?thesis
      by (auto simp: history_def taken_of_def waiting_of_def put_result_def get_or_create_queue_def split: option.splits)
  next
    case (Some q)
    then have o: "owns st s' q" by (simp add: owns_def)
    then have "q \<noteq> sq_next st" "owns st s q \<Longrightarrow> s = s'" using sep unfolding separate_def by auto
    then show ?thesis using Some
      by (auto simp: history_def taken_of_def waiting_of_def put_result_def get_or_create_queue_def owns_def
          split: option.splits)
  qed
  show "drain_work (put_result s r st) = drain_work st + 3"
  proof (cases "sq_queues st s")
    case None
    then show ?thesis by (simp add: drain_work_def put_result_def get_or_create_queue_def)
  next
    case (Some q)
    then have "q < sq_next st" using sep by (simp add: separate_def owns_def)
    then have "(\<Sum>q' < sq_next st. length (if q' = q then sq_store st q @ [r] else sq_store st q')) =
        Suc (\<Sum>q' < sq_next st. length (sq_store st q'))"
      by (simp add: sum.remove [of _ q])
    then show ?thesis using Some by (simp add: drain_work_def put_result_def get_or_create_queue_def fun_upd_def)
  qed
qed

lemma register_ok:
  "queues_ok (register_delivery_callback st) = queues_ok st"
  "history s (register_delivery_callback st) = history s st"
  "drain_work (register_delivery_callback st) = drain_work st"
  by (simp_all add: register_delivery_callback_def queues_ok_def separate_def owns_def attended_def
      history_def taken_of_def waiting_of_def drain_work_def split: option.split)

lemma resume_drain_out: "\<not> i < length (sq_tasks st) \<Longrightarrow> resume_drain i st = st"
  by (simp add: resume_drain_def)

fun is_put :: "queue_event \<Rightarrow> bool" where
  "is_put (Put s r) = True"
| "is_put Register = False"
| "is_put (Resume i) = False"

lemma run_queues_snoc: "run_queues (es @ [e]) = apply_event e (run_queues es)"
  by (simp add: run_queues_def)

lemma run_queues_ok:
  "queues_ok (run_queues es)" "history s (run_queues es) = puts_of s es"
  "drain_work (run_queues es) \<le> 3 * length (filter is_put es)"
proof (induction es rule: rev_induct)
  case Nil
  show "queues_ok (run_queues [])" "history s (run_queues []) = puts_of s []"
    "drain_work (run_queues []) \<le> 3 * length (filter is_put [])"
    by (simp_all add: run_queues_def no_queues_def queues_ok_def separate_def owns_def history_def taken_of_def
        waiting_of_def puts_of_def drain_work_def)
next
  case (snoc e es)
  have "queues_ok (apply_event e (run_queues es)) \<and>
      history s (apply_event e (run_queues es)) = puts_of s (es @ [e]) \<and>
      drain_work (apply_event e (run_queues es)) \<le> 3 * length (filter is_put (es @ [e]))"
  proof (cases e)
    case (Put s' r)
    then show ?thesis using snoc put_result_ok [OF snoc(1)] by (simp add: puts_of_def)
  next
    case Register
    then show ?thesis using snoc by (simp add: register_ok puts_of_def)
  next
    case (Resume i)
    then show ?thesis
      using snoc resume_drain_ok [OF snoc(1), of i] resume_drain_out [of i "run_queues es"]
      by (cases "i < length (sq_tasks (run_queues es))") (simp_all add: puts_of_def)
  qed
  then show "queues_ok (run_queues (es @ [e]))" "history s (run_queues (es @ [e])) = puts_of s (es @ [e])"
    "drain_work (run_queues (es @ [e])) \<le> 3 * length (filter is_put (es @ [e]))"
    by (simp_all add: run_queues_snoc)
qed

text \<open>Resumptions only, each of an existing coroutine.\<close>

fun valid_resumes :: "nat list \<Rightarrow> queue_state \<Rightarrow> bool" where
  "valid_resumes [] st \<longleftrightarrow> True"
| "valid_resumes (i # is) st \<longleftrightarrow> i < length (sq_tasks st) \<and> valid_resumes is (resume_drain i st)"

lemma valid_resumes_ok:
  assumes "queues_ok st" "valid_resumes is st"
  shows "queues_ok (fold resume_drain is st) \<and> history s (fold resume_drain is st) = history s st \<and>
    length is + drain_work (fold resume_drain is st) \<le> drain_work st"
  using assms
proof (induction "is" arbitrary: st)
  case Nil
  then show ?case by simp
next
  case (Cons i "is")
  then have i: "i < length (sq_tasks st)" by simp
  show ?case using Cons.IH [OF resume_drain_ok(1) [OF Cons.prems(1) i]] Cons.prems(2)
      resume_drain_ok(2,3) [OF Cons.prems(1) i] by fastforce
qed

text \<open>Without coroutines no queue is left.\<close>

lemma idle_no_queues:
  assumes "queues_ok st" "sq_tasks st = []"
  shows "sq_queues st = (\<lambda>_. None)" "waiting_of s st = []"
proof -
  have "\<not> owns st s q" for s q using assms by (auto simp: queues_ok_def attended_def)
  then show none: "sq_queues st = (\<lambda>_. None)" unfolding owns_def by (intro ext) (metis not_None_eq)
  show "waiting_of s st = []" by (simp add: waiting_of_def none)
qed


end
