(* ===== verification/Delivery_Properties.thy ===== *)
theory Delivery_Properties
  imports Examples Subagent_Queue
begin

text \<open>
  The properties of the delivery of subagent results: order, completeness, and what happens
  without a delivery callback.
\<close>

section \<open>Subagent results\<close>

text \<open>
  C15: Whatever the event loop does, in any interleaving of puts, the registration of the
  callback and resumptions of the drain coroutines, the results a parent session's drains have
  taken so far, followed by those waiting in its queue, are exactly the results put for it, in
  the order of the puts: none is lost with a removed queue, taken twice, reordered or given to
  another session. A session with waiting results always has a drain that will take them.
\<close>

theorem results_delivered_in_order:
  "taken_of s (run_queues es) @ waiting_of s (run_queues es) = puts_of s es \<and>
   (waiting_of s (run_queues es) = [] \<or>
    list_ex (\<lambda>t. drain_session t = s) (sq_tasks (run_queues es)))"
proof
  show "taken_of s (run_queues es) @ waiting_of s (run_queues es) = puts_of s es"
    using run_queues_ok(2) by (simp add: history_def)
  show "waiting_of s (run_queues es) = [] \<or> list_ex (\<lambda>t. drain_session t = s) (sq_tasks (run_queues es))"
  proof (cases "sq_queues (run_queues es) s")
    case None
    then show ?thesis by (simp add: waiting_of_def)
  next
    case (Some q)
    then have "attended (run_queues es) s q"
      using run_queues_ok(1) [of es] by (simp add: queues_ok_def owns_def)
    then have "\<exists>t \<in> set (sq_tasks (run_queues es)). drain_session t = s"
      unfolding attended_def by (metis drain_session.simps)
    then show ?thesis by (simp add: list_ex_iff)
  qed
qed

text \<open>The callback is registered at start-up and never removed.\<close>

definition delivered_of :: "string \<Rightarrow> queue_state \<Rightarrow> subagent_result list" where
  "delivered_of s st = map (fst \<circ> snd) (filter (\<lambda>e. fst e = s \<and> snd (snd e)) (sq_log st))"

definition all_delivered :: "queue_state \<Rightarrow> bool" where
  "all_delivered st \<longleftrightarrow> sq_callback st \<and> (\<forall>e \<in> set (sq_log st). snd (snd e))"

lemma drain_loop_delivers: "all_delivered st \<Longrightarrow> all_delivered (drain_loop s q st)"
  by (rule drain_loop_rule [where P = all_delivered])
    (auto simp: all_delivered_def take_result_def remove_if_empty_def split: option.split)

lemma resume_delivers: "all_delivered st \<Longrightarrow> all_delivered (resume_drain i st)"
proof -
  assume "all_delivered st"
  then have "all_delivered (without_task i st)" by (simp add: all_delivered_def without_task_def)
  then show ?thesis using \<open>all_delivered st\<close>
    by (auto simp: resume_drain_def drain_begin_def drain_loop_delivers split: drain_task.split option.split)
qed

lemma events_deliver: "all_delivered st \<Longrightarrow> all_delivered (fold apply_event es st)"
proof (induction es arbitrary: st)
  case Nil
  then show ?case by simp
next
  case (Cons e es)
  have "all_delivered (apply_event e st)"
    using Cons.prems
    using resume_delivers [OF Cons.prems]
    by (cases e) (auto simp: all_delivered_def put_result_def get_or_create_queue_def
        register_delivery_callback_def split: option.split)
  then show ?case using Cons.IH by simp
qed

lemma resumes_deliver: "all_delivered st \<Longrightarrow> all_delivered (fold resume_drain is st)"
  by (induction "is" arbitrary: st) (simp_all add: resume_delivers)

text \<open>
  The drains finish. Once the server has registered the callback, and no further result
  arrives, at most three resumptions per result put are possible in any order of scheduling;
  when no coroutine is left, each session's results have been handed to the callback exactly
  once and in order, and no queue object is kept in the dictionary.
\<close>

theorem drains_finish:
  assumes "valid_resumes is (run_queues (Register # es))"
  defines "st \<equiv> fold resume_drain is (run_queues (Register # es))"
  shows "length is \<le> 3 * length (filter is_put es) \<and>
    (sq_tasks st \<noteq> [] \<or> (delivered_of s st = puts_of s es \<and> sq_queues st = (\<lambda>_. None)))"
proof
  let ?st = "run_queues (Register # es)"
  have ok: "queues_ok st \<and> history s st = history s ?st \<and> length is + drain_work st \<le> drain_work ?st"
    unfolding st_def by (rule valid_resumes_ok [OF run_queues_ok(1) assms(1)])
  then show "length is \<le> 3 * length (filter is_put es)"
    using run_queues_ok(3) [of "Register # es"] by simp
  have "all_delivered (register_delivery_callback no_queues)"
    by (simp add: all_delivered_def no_queues_def register_delivery_callback_def)
  from events_deliver [OF this] have "all_delivered ?st" by (simp add: run_queues_def)
  then have "all_delivered st" unfolding st_def by (rule resumes_deliver)
  then have "filter (\<lambda>e. fst e = s \<and> snd (snd e)) (sq_log st) = filter (\<lambda>e. fst e = s) (sq_log st)"
    by (intro filter_cong refl) (simp add: all_delivered_def)
  then have d: "delivered_of s st = taken_of s st" by (simp add: delivered_of_def taken_of_def)
  have h: "history s st = puts_of s es" using ok run_queues_ok(2) [of s "Register # es"] by (simp add: puts_of_def)
  show "sq_tasks st \<noteq> [] \<or> (delivered_of s st = puts_of s es \<and> sq_queues st = (\<lambda>_. None))"
  proof (cases "sq_tasks st = []")
    case True
    then show ?thesis using idle_no_queues [of st] ok h d by (simp add: history_def)
  qed simp
qed

definition ex_result :: "string \<Rightarrow> subagent_result" where
  "ex_result i = \<lparr>sr_db_session_id = i, sr_agent_type = ''coder'', sr_model = ''m'', sr_status = ''completed'',
     sr_text = ''text'', sr_duration_ms = None, sr_cost_usd = None, sr_description = '''', sr_extra = []\<rparr>"

text \<open>Two drains of one session at once: the second result arrives while the first is delivered.\<close>

theorem drains_finish_witness:
  "let es = [Put ''p'' (ex_result ''a''), Resume 0, Put ''p'' (ex_result ''b''), Put ''q'' (ex_result ''c'')];
       st = fold resume_drain [1, 0, 0, 0, 0] (run_queues (Register # es))
   in sq_tasks st = [] \<and> delivered_of ''p'' st = [ex_result ''a'', ex_result ''b''] \<and> sq_queues st ''p'' = None"
proof -
  let ?es = "[Put ''p'' (ex_result ''a''), Resume 0, Put ''p'' (ex_result ''b''), Put ''q'' (ex_result ''c'')]"
  let ?is = "[1, 0, 0, 0, 0]"
  have v: "valid_resumes ?is (run_queues (Register # ?es))" by code_simp
  have "sq_tasks (fold resume_drain ?is (run_queues (Register # ?es))) = []" by code_simp
  with drains_finish [OF v, of "''p''"] show ?thesis by (simp add: puts_of_def)
qed

end
