(* ===== verification/Schedule_Model.thy ===== *)
theory Schedule_Model
  imports Db_Model
begin

text \<open>
  The tables of agent schedules (\<open>ypl/db/agent_harness.py\<close>): a schedule is a call of an agent
  at one time or on a cron expression, and each execution of it is a run. The tables the
  scheduler reads besides are the agents and the users. One transaction is a function of
  \<open>schedule_db\<close>.
\<close>

section \<open>Enumerations\<close>

datatype agent_schedule_type = SCHEDULED | RECURRING

datatype agent_schedule_status =
    SCHED_PENDING
  | SCHED_IN_PROGRESS
  | SCHED_COMPLETED
  | SCHED_FAILED
  | SCHED_CANCELLED
  | SCHED_PAUSED

datatype agent_schedule_run_status = RUN_PENDING | RUN_IN_PROGRESS | RUN_COMPLETED | RUN_FAILED

fun schedule_type_value :: "agent_schedule_type \<Rightarrow> string" where
  "schedule_type_value SCHEDULED = ''SCHEDULED''"
| "schedule_type_value RECURRING = ''RECURRING''"

fun schedule_status_value :: "agent_schedule_status \<Rightarrow> string" where
  "schedule_status_value SCHED_PENDING = ''PENDING''"
| "schedule_status_value SCHED_IN_PROGRESS = ''IN_PROGRESS''"
| "schedule_status_value SCHED_COMPLETED = ''COMPLETED''"
| "schedule_status_value SCHED_FAILED = ''FAILED''"
| "schedule_status_value SCHED_CANCELLED = ''CANCELLED''"
| "schedule_status_value SCHED_PAUSED = ''PAUSED''"

fun run_status_value :: "agent_schedule_run_status \<Rightarrow> string" where
  "run_status_value RUN_PENDING = ''PENDING''"
| "run_status_value RUN_IN_PROGRESS = ''IN_PROGRESS''"
| "run_status_value RUN_COMPLETED = ''COMPLETED''"
| "run_status_value RUN_FAILED = ''FAILED''"

definition all_schedule_statuses :: "agent_schedule_status list" where
  "all_schedule_statuses =
     [SCHED_PENDING, SCHED_IN_PROGRESS, SCHED_COMPLETED, SCHED_FAILED, SCHED_CANCELLED, SCHED_PAUSED]"

definition schedule_status_of :: "string \<Rightarrow> agent_schedule_status option" where
  "schedule_status_of s = List.find (\<lambda>st. schedule_status_value st = s) all_schedule_statuses"

definition schedule_type_of :: "string \<Rightarrow> agent_schedule_type option" where
  "schedule_type_of s = List.find (\<lambda>ty. schedule_type_value ty = s) [SCHEDULED, RECURRING]"

lemma schedule_status_of_value [simp]: "schedule_status_of (schedule_status_value s) = Some s"
  by (cases s) (simp_all add: schedule_status_of_def all_schedule_statuses_def)

lemma schedule_type_of_value [simp]: "schedule_type_of (schedule_type_value t) = Some t"
  by (cases t) (simp_all add: schedule_type_of_def)

section \<open>Rows\<close>

record agent_schedule =
  sc_id :: uuid
  sc_agent_id :: uuid
  sc_type :: agent_schedule_type
  sc_message :: string
  sc_context :: "py_dict option"
  sc_status :: agent_schedule_status
  sc_execute_at :: "int option"
  sc_cron_expression :: "string option"
  sc_cron_timezone :: string
  sc_next_run_at :: "int option"
  sc_last_run_at :: "int option"
  sc_run_count :: int
  sc_max_runs :: "int option"
  sc_last_session_id :: "uuid option"
  sc_last_error :: "string option"
  sc_name :: "string option"
  sc_description :: "string option"
  sc_created_by_user :: string
  sc_created_by_agent :: "string option"
  sc_created_at :: int
  sc_modified_at :: int
  sc_deleted_at :: "int option"

record agent_schedule_run =
  rn_id :: uuid
  rn_schedule_id :: uuid
  rn_run_number :: int
  rn_status :: agent_schedule_run_status
  rn_started_at :: "int option"
  rn_completed_at :: "int option"
  rn_session_id :: "uuid option"
  rn_error :: "string option"

record schedule_db =
  sd_schedules :: "agent_schedule list"
  sd_runs :: "agent_schedule_run list"
  sd_agents :: "agent list"
  sd_users :: "user list"

abbreviation live_schedule :: "agent_schedule \<Rightarrow> bool" where
  "live_schedule s \<equiv> sc_deleted_at s = None"

section \<open>Statements\<close>

definition write_schedule :: "int \<Rightarrow> uuid \<Rightarrow> (agent_schedule \<Rightarrow> agent_schedule) \<Rightarrow> schedule_db \<Rightarrow> schedule_db" where
  "write_schedule now i f d =
     d\<lparr>sd_schedules := modify sc_id i (\<lambda>s. (f s)\<lparr>sc_modified_at := now\<rparr>) (sd_schedules d)\<rparr>"

definition write_run :: "uuid \<Rightarrow> (agent_schedule_run \<Rightarrow> agent_schedule_run) \<Rightarrow> schedule_db \<Rightarrow> schedule_db" where
  "write_run i f d = d\<lparr>sd_runs := modify rn_id i f (sd_runs d)\<rparr>"

definition find_schedule :: "(agent_schedule \<Rightarrow> bool) \<Rightarrow> uuid \<Rightarrow> schedule_db \<Rightarrow> agent_schedule option" where
  "find_schedule q i d = get_row (\<lambda>s. sc_id s = i \<and> q s) (sd_schedules d)"

text \<open>\<open>SELECT coalesce(max(run_number), 0)\<close>\<close>

definition max_run_number :: "uuid \<Rightarrow> schedule_db \<Rightarrow> int" where
  "max_run_number i d =
     (case map rn_run_number (filter (\<lambda>r. rn_schedule_id r = i) (sd_runs d)) of
        [] \<Rightarrow> 0
      | n # ns \<Rightarrow> fold max ns n)"

definition schedule_agent :: "uuid \<Rightarrow> schedule_db \<Rightarrow> agent option" where
  "schedule_agent i d = get_row (\<lambda>a. a_id a = i) (sd_agents d)"

lemma write_schedule_frame [frame_simps, simp]:
  "sd_runs (write_schedule now i f d) = sd_runs d"
  "sd_agents (write_schedule now i f d) = sd_agents d"
  "sd_users (write_schedule now i f d) = sd_users d"
  by (simp_all add: write_schedule_def)

lemma write_run_frame [frame_simps, simp]:
  "sd_schedules (write_run i f d) = sd_schedules d"
  "sd_agents (write_run i f d) = sd_agents d"
  "sd_users (write_run i f d) = sd_users d"
  by (simp_all add: write_run_def)

lemma find_schedule_Some: "find_schedule q i d = Some s \<Longrightarrow> s \<in> set (sd_schedules d) \<and> sc_id s = i \<and> q s"
  unfolding find_schedule_def by (drule get_row_Some) simp

lemma find_schedule_None: "find_schedule q i d = None \<longleftrightarrow> (\<forall>s \<in> set (sd_schedules d). sc_id s = i \<longrightarrow> \<not> q s)"
  unfolding find_schedule_def get_row_None by blast

lemma in_write_schedule:
  "s \<in> set (sd_schedules (write_schedule now i f d)) \<longleftrightarrow>
     (\<exists>r \<in> set (sd_schedules d). (sc_id r = i \<and> s = (f r)\<lparr>sc_modified_at := now\<rparr>) \<or> (sc_id r \<noteq> i \<and> s = r))"
  by (simp add: write_schedule_def in_modify_iff)

lemma fold_max_ge: "x \<in> insert n (set xs) \<Longrightarrow> x \<le> fold max xs (n :: int)"
proof (induction xs arbitrary: n x)
  case (Cons y ys)
  show ?case
  proof (cases "x \<in> set ys")
    case True
    then show ?thesis using Cons.IH [of x "max y n"] by simp
  next
    case False
    then have "x \<le> max y n" using Cons.prems by auto
    also have "\<dots> \<le> fold max ys (max y n)" using Cons.IH [of "max y n" "max y n"] by simp
    finally show ?thesis by simp
  qed
qed simp

lemma max_run_number_ge:
  assumes "r \<in> set (sd_runs d)" "rn_schedule_id r = i"
  shows "rn_run_number r \<le> max_run_number i d"
proof -
  let ?ns = "map rn_run_number (filter (\<lambda>r. rn_schedule_id r = i) (sd_runs d))"
  have "rn_run_number r \<in> set ?ns" using assms by auto
  then show ?thesis unfolding max_run_number_def by (cases ?ns) (auto intro: fold_max_ge)
qed

lemma fold_max_in: "fold max xs (n :: int) \<in> insert n (set xs)"
proof (induction xs arbitrary: n)
  case (Cons y ys)
  then show ?case using Cons.IH [of "max y n"] by (auto simp: max_def split: if_splits)
qed simp

text \<open>The maximum is the number of a run of the schedule, or 0 without runs.\<close>

lemma max_run_number_cases:
  "(\<exists>r \<in> set (sd_runs d). rn_schedule_id r = i \<and> rn_run_number r = max_run_number i d) \<or>
   (max_run_number i d = 0 \<and> (\<forall>r \<in> set (sd_runs d). rn_schedule_id r \<noteq> i))"
proof -
  let ?ns = "map rn_run_number (filter (\<lambda>r. rn_schedule_id r = i) (sd_runs d))"
  show ?thesis
  proof (cases ?ns)
    case Nil
    then show ?thesis by (auto simp: max_run_number_def filter_empty_conv)
  next
    case (Cons n ns)
    then have "max_run_number i d \<in> insert n (set ns)" using fold_max_in [of ns n] by (simp add: max_run_number_def)
    then have "max_run_number i d \<in> set ?ns" using Cons by simp
    then show ?thesis by auto
  qed
qed

end
