(* ===== verification/Scheduler.thy ===== *)
theory Scheduler
  imports Schedule_Model Task_Poll
begin

text \<open>
  The scheduler (\<open>agent_harness_service/scheduler.py\<close>): recovery of stale schedules, selection,
  claiming, execution and completion of a run, one poll, the selection of projects for the
  Linear synchronisation, and the counters of the background loop. The cron library, the time
  zone database, the ISO parser and the session service are functions of \<open>schedule_env\<close>;
  an exception is its text.
\<close>

section \<open>The services used\<close>

text \<open>What \<open>ZoneInfo(tz)\<close> does: a zone, \<open>ZoneInfoNotFoundError\<close>, or another exception.\<close>

datatype zone_lookup = ZoneFound | ZoneNotFound string | ZoneRaises string

text \<open>A parsed time stamp with or without a zone.\<close>

datatype stamp = Aware int | Naive int

record schedule_session_request =
  ssr_agent_id :: string
  ssr_trigger :: string
  ssr_user_id :: string
  ssr_context :: py_dict
  ssr_message :: string
  ssr_source :: string

text \<open>
  \<open>sv_cron_next cron tz now\<close> is the next firing time in UTC after \<open>now\<close>;
  \<open>sv_cron_error\<close> the exception of constructing the iterator, if any; \<open>sv_to_utc tz t\<close>
  reads a stamp without a zone in \<open>tz\<close>.
\<close>

record schedule_env =
  sv_zone :: "string \<Rightarrow> zone_lookup"
  sv_to_utc :: "string \<Rightarrow> int \<Rightarrow> int"
  sv_cron_error :: "string \<Rightarrow> string \<Rightarrow> int \<Rightarrow> string option"
  sv_cron_next :: "string option \<Rightarrow> string \<Rightarrow> int \<Rightarrow> string + int"
  sv_fromisoformat :: "string \<Rightarrow> string + stamp"
  sv_json_loads :: "string \<Rightarrow> string + json"
  sv_lower :: "string \<Rightarrow> string"
  sv_isoformat :: "int \<Rightarrow> string"
  sv_exn_text :: "py_error \<Rightarrow> string"
  sv_create_session :: "schedule_session_request \<Rightarrow> string + string"

definition compute_next_run_for_cron :: "schedule_env \<Rightarrow> string option \<Rightarrow> string \<Rightarrow> int \<Rightarrow> string + int" where
  "compute_next_run_for_cron env cron tz now =
     (case sv_zone env tz of
        ZoneFound \<Rightarrow> sv_cron_next env cron tz now
      | ZoneNotFound e \<Rightarrow> Inl e
      | ZoneRaises e \<Rightarrow> Inl e)"

section \<open>Recovery\<close>

definition orphaned_run :: "uuid \<Rightarrow> agent_schedule_run \<Rightarrow> bool" where
  "orphaned_run i r \<longleftrightarrow> rn_schedule_id r = i \<and> rn_status r = RUN_IN_PROGRESS"

definition max_runs_reached :: "int option \<Rightarrow> int \<Rightarrow> bool" where
  "max_runs_reached max_runs run_count =
     (case max_runs of None \<Rightarrow> False | Some m \<Rightarrow> m \<le> run_count)"

text \<open>The body of the loop over the stale schedules.\<close>

definition recover_schedule :: "string \<Rightarrow> int \<Rightarrow> uuid \<Rightarrow> schedule_db \<Rightarrow> schedule_db" where
  "recover_schedule recovery_error now i d =
     (let orphans = count_rows (orphaned_run i) (sd_runs d);
          d1 = d\<lparr>sd_runs := map (\<lambda>r. if orphaned_run i r
                 then r\<lparr>rn_status := RUN_FAILED, rn_completed_at := Some now, rn_error := Some recovery_error\<rparr>
                 else r) (sd_runs d)\<rparr>
      in write_schedule now i
           (\<lambda>s. (let n = sc_run_count s + int orphans
                 in s\<lparr>sc_last_error := Some recovery_error, sc_run_count := n,
                      sc_status := (if max_runs_reached (sc_max_runs s) n then SCHED_FAILED else SCHED_PENDING)\<rparr>)) d1)"

definition stale_schedule :: "int \<Rightarrow> (uuid \<Rightarrow> bool) \<Rightarrow> agent_schedule \<Rightarrow> bool" where
  "stale_schedule threshold locked s \<longleftrightarrow>
     sc_status s = SCHED_IN_PROGRESS \<and> sc_modified_at s < threshold \<and> live_schedule s \<and> \<not> locked (sc_id s)"

definition recover_stale_in_progress_schedules ::
  "string \<Rightarrow> int \<Rightarrow> int \<Rightarrow> (uuid \<Rightarrow> bool) \<Rightarrow> schedule_db \<Rightarrow> nat \<times> schedule_db" where
  "recover_stale_in_progress_schedules recovery_error now timeout_minutes locked d =
     (let stale = filter (stale_schedule (now - minutes timeout_minutes) locked) (sd_schedules d)
      in if stale = [] then (0, d)
         else (length stale, fold (\<lambda>s. recover_schedule recovery_error now (sc_id s)) stale d))"

section \<open>Selection and claiming\<close>

definition due_schedule :: "int \<Rightarrow> agent_schedule \<Rightarrow> bool" where
  "due_schedule now s \<longleftrightarrow>
     sc_status s = SCHED_PENDING \<and>
     (case sc_next_run_at s of None \<Rightarrow> False | Some t \<Rightarrow> t \<le> now) \<and> live_schedule s"

definition next_run_or_0 :: "agent_schedule \<Rightarrow> int" where
  "next_run_or_0 s = (case sc_next_run_at s of None \<Rightarrow> 0 | Some t \<Rightarrow> t)"

definition get_due_agent_schedules :: "nat \<Rightarrow> int \<Rightarrow> schedule_db \<Rightarrow> agent_schedule list" where
  "get_due_agent_schedules batch_size now d =
     take batch_size (sort_key next_run_or_0 (filter (due_schedule now) (sd_schedules d)))"

text \<open>The row of a new run and the claimed schedule: what both ways of claiming write.\<close>

definition new_run :: "int \<Rightarrow> uuid \<Rightarrow> uuid \<Rightarrow> schedule_db \<Rightarrow> agent_schedule_run" where
  "new_run now run_id i d =
     \<lparr>rn_id = run_id, rn_schedule_id = i, rn_run_number = max_run_number i d + 1, rn_status = RUN_IN_PROGRESS,
      rn_started_at = Some now, rn_completed_at = None, rn_session_id = None, rn_error = None\<rparr>"

definition start_run :: "int \<Rightarrow> uuid \<Rightarrow> uuid \<Rightarrow> schedule_db \<Rightarrow> schedule_db" where
  "start_run now run_id i d =
     write_schedule now i (\<lambda>s. s\<lparr>sc_status := SCHED_IN_PROGRESS\<rparr>)
       (d\<lparr>sd_runs := sd_runs d @ [new_run now run_id i d]\<rparr>)"

definition claim_agent_schedule ::
  "int \<Rightarrow> (uuid \<Rightarrow> bool) \<Rightarrow> uuid \<Rightarrow> uuid \<Rightarrow> schedule_db \<Rightarrow>
     (agent_schedule \<times> agent_schedule_run) option \<times> schedule_db" where
  "claim_agent_schedule now locked run_id schedule_id d =
     (case find_schedule (\<lambda>s. sc_status s = SCHED_PENDING \<and> \<not> locked (sc_id s)) schedule_id d of
        None \<Rightarrow> (None, d)
      | Some s \<Rightarrow>
          (Some (s\<lparr>sc_status := SCHED_IN_PROGRESS, sc_modified_at := now\<rparr>, new_run now run_id schedule_id d),
           start_run now run_id schedule_id d))"

section \<open>Completion\<close>

definition finished_run ::
  "int \<Rightarrow> bool \<Rightarrow> uuid option \<Rightarrow> string option \<Rightarrow> agent_schedule_run \<Rightarrow> agent_schedule_run" where
  "finished_run now success session error r =
     r\<lparr>rn_status := (if success then RUN_COMPLETED else RUN_FAILED), rn_completed_at := Some now,
       rn_session_id := (case session of Some u \<Rightarrow> Some u | None \<Rightarrow> rn_session_id r),
       rn_error := (if \<not> success \<and> true_string error \<noteq> None then error else rn_error r)\<rparr>"

text \<open>The schedule after a run: a one-time schedule ends; a recurring one ends at
  \<open>max_runs\<close> and otherwise waits for its next time.\<close>

definition after_run ::
  "schedule_env \<Rightarrow> int \<Rightarrow> bool \<Rightarrow> uuid option \<Rightarrow> string option \<Rightarrow> agent_schedule \<Rightarrow> string + agent_schedule" where
  "after_run env now success session error s =
     (let s1 = s\<lparr>sc_last_run_at := Some now, sc_run_count := sc_run_count s + 1,
                 sc_last_error := (if success then None else error),
                 sc_last_session_id := (case session of Some u \<Rightarrow> Some u | None \<Rightarrow> sc_last_session_id s)\<rparr>;
          terminal_status = (if success then SCHED_COMPLETED else SCHED_FAILED)
      in if sc_type s = SCHEDULED \<or> max_runs_reached (sc_max_runs s) (sc_run_count s1)
         then Inr (s1\<lparr>sc_status := terminal_status\<rparr>)
         else (case compute_next_run_for_cron env (sc_cron_expression s) (sc_cron_timezone s) now of
                 Inl e \<Rightarrow> Inl e
               | Inr t \<Rightarrow> Inr (s1\<lparr>sc_next_run_at := Some t, sc_status := SCHED_PENDING\<rparr>)))"

text \<open>The session identifier recorded with a success; \<open>uuid.UUID\<close> may raise.\<close>

definition recorded_session :: "schedule_env \<Rightarrow> bool \<Rightarrow> string option \<Rightarrow> string + uuid option" where
  "recorded_session env success session_id =
     (if \<not> success then Inr None
      else (case true_string session_id of
              None \<Rightarrow> Inr None
            | Some sid \<Rightarrow> (case parse_uuid sid of Inl e \<Rightarrow> Inl (sv_exn_text env e) | Inr u \<Rightarrow> Inr (Some u))))"

definition update_run_completion ::
  "schedule_env \<Rightarrow> int \<Rightarrow> uuid \<Rightarrow> uuid \<Rightarrow> bool \<Rightarrow> string option \<Rightarrow> string option \<Rightarrow> schedule_db \<Rightarrow>
     (string + unit) \<times> schedule_db" where
  "update_run_completion env now schedule_id run_id success session_id error d =
     transact d
       (let db_run = get_row (\<lambda>r. rn_id r = run_id) (sd_runs d);
            db_schedule = find_schedule (\<lambda>_. True) schedule_id d
        in if db_run = None \<and> db_schedule = None then Inr ((), d)
           else sum_bind (recorded_session env success session_id) (\<lambda>session.
                  (let d1 = (if db_run = None then d else write_run run_id (finished_run now success session error) d)
                   in case db_schedule of
                        None \<Rightarrow> Inr ((), d1)
                      | Some s \<Rightarrow>
                          sum_bind (after_run env now success session error s) (\<lambda>s'.
                            Inr ((), write_schedule now schedule_id (\<lambda>_. s') d1)))))"

definition update_run_success ::
  "schedule_env \<Rightarrow> int \<Rightarrow> uuid \<Rightarrow> uuid \<Rightarrow> string \<Rightarrow> schedule_db \<Rightarrow> (string + unit) \<times> schedule_db" where
  "update_run_success env now schedule_id run_id session_id d =
     update_run_completion env now schedule_id run_id True (Some session_id) None d"

definition update_run_failure ::
  "schedule_env \<Rightarrow> int \<Rightarrow> uuid \<Rightarrow> uuid \<Rightarrow> string \<Rightarrow> schedule_db \<Rightarrow> (string + unit) \<times> schedule_db" where
  "update_run_failure env now schedule_id run_id error d =
     update_run_completion env now schedule_id run_id False None (Some error) d"

section \<open>Execution\<close>

text \<open>
  What follows a claim, in \<open>execute_agent_schedule\<close> (\<open>cron\<close>, \<open>scheduler\<close>) and in the
  manual trigger (\<open>manual\<close>, \<open>manual_trigger\<close>): the \<open>try\<close> block with its handler.
\<close>

definition schedule_request :: "string \<Rightarrow> string \<Rightarrow> agent_schedule \<Rightarrow> agent \<Rightarrow> schedule_session_request" where
  "schedule_request trigger source s agent =
     \<lparr>ssr_agent_id = a_name agent, ssr_trigger = trigger, ssr_user_id = sc_created_by_user s,
      ssr_context = or_empty (sc_context s), ssr_message = sc_message s, ssr_source = source\<rparr>"

definition dispatch_run ::
  "schedule_env \<Rightarrow> string \<Rightarrow> string \<Rightarrow> agent_schedule \<Rightarrow> schedule_db \<Rightarrow> string + string" where
  "dispatch_run env trigger source s d =
     (case schedule_agent (sc_agent_id s) d of
        None \<Rightarrow> Inl (''Agent not found: '' @ str_uuid (sc_agent_id s))
      | Some agent \<Rightarrow> sv_create_session env (schedule_request trigger source s agent))"

text \<open>The answer is the session or the text of the exception that was handled.\<close>

definition run_claimed_schedule ::
  "schedule_env \<Rightarrow> string \<Rightarrow> string \<Rightarrow> int \<Rightarrow> agent_schedule \<Rightarrow> agent_schedule_run \<Rightarrow> schedule_db \<Rightarrow>
     (string + string) \<times> schedule_db" where
  "run_claimed_schedule env trigger source now s run d =
     (let (r, d1) = (case dispatch_run env trigger source s d of
                       Inl e \<Rightarrow> (Inl e, d)
                     | Inr sid \<Rightarrow>
                         (case update_run_success env now (sc_id s) (rn_id run) sid d of
                            (Inl e, d') \<Rightarrow> (Inl e, d')
                          | (Inr _, d') \<Rightarrow> (Inr sid, d')))
      in case r of
           Inr sid \<Rightarrow> (Inr sid, d1)
         | Inl error_msg \<Rightarrow> (Inl error_msg, snd (update_run_failure env now (sc_id s) (rn_id run) error_msg d1)))"

text \<open>\<open>None\<close>: the schedule was already claimed or is not pending.\<close>

definition execute_agent_schedule ::
  "schedule_env \<Rightarrow> int \<Rightarrow> int \<Rightarrow> (uuid \<Rightarrow> bool) \<Rightarrow> uuid \<Rightarrow> uuid \<Rightarrow> schedule_db \<Rightarrow>
     (string + string) option \<times> schedule_db" where
  "execute_agent_schedule env now now' locked run_id schedule_id d =
     (case claim_agent_schedule now locked run_id schedule_id d of
        (None, d1) \<Rightarrow> (None, d1)
      | (Some (s, run), d1) \<Rightarrow>
          (let (r, d2) = run_claimed_schedule env ''cron'' ''scheduler'' now' s run d1 in (Some r, d2)))"

section \<open>One poll\<close>

text \<open>
  The loop creates background tasks without ever awaiting, so none of them starts before it
  ends: the number of active executions is the same at every check.
\<close>

fun spawn_due :: "nat \<Rightarrow> nat \<Rightarrow> agent_schedule list \<Rightarrow> uuid list" where
  "spawn_due max_executions active [] = []"
| "spawn_due max_executions active (s # ss) =
     (if has_execution_capacity max_executions active
      then sc_id s # spawn_due max_executions active ss else [])"

definition poll_and_execute_due_schedules ::
  "nat \<Rightarrow> nat \<Rightarrow> nat \<Rightarrow> int \<Rightarrow> schedule_db \<Rightarrow> uuid list" where
  "poll_and_execute_due_schedules batch_size max_executions active now d =
     spawn_due max_executions active (get_due_agent_schedules batch_size now d)"

end
