(* ===== verification/Schedule_Tools.thy ===== *)
theory Schedule_Tools
  imports Scheduler Project_Helpers
begin

text \<open>
  The operations on schedules for users and agents: the shared helpers of
  \<open>mcp_common/scheduled_agent_call_helpers.py\<close>, the MCP tools of
  \<open>mcp_server/tools/agent_schedules.py\<close>, the REST service \<open>projects/schedule_service.py\<close>, the
  harness tools of \<open>agent_harness_service/tools/scheduling.py\<close>, and the changes of status of the console
  page \<open>streamlit_server/pages/agent_schedule.py\<close>. An operation answers with an error or a
  result and leaves a database; the errors carry the arguments of their messages.
\<close>

datatype schedule_error =
    ToolRaised string
  | InvalidTimezone string
  | InvalidCron string
  | InvalidExecuteAt string
  | ExecuteAtNotFuture
  | ContextNotObject
  | ContextMalformed string
  | MaxRunsNotPositive
  | AuthenticationRequired
  | McpNotPermitted
  | ScheduleAgentNotFound string
  | InvalidScheduleId string
  | ScheduleNotFound string
  | NotScheduleOwner
  | ScheduleStatusRefuses agent_schedule_status
  | ScheduleLocked
  | NotRecurring
  | ExecutionFailed string
  | ExecuteAtOnRecurring
  | CronOnOneTime
  | MaxRunsOnOneTime
  | CronMissing
  | InvalidScheduleStatus string
  | InvalidScheduleType string
  | LimitOutOfRange
  | UserNotFound string
  | UserDeleted string
  | CreatedByInvalid schedule_error
  | ListingNotPermitted
  | SlackUserUnresolved string
  | NoUserIdentifier
  | NoSessionContext
  | StatusNotSettable agent_schedule_status

section \<open>Validation\<close>

definition validate_timezone :: "schedule_env \<Rightarrow> string \<Rightarrow> schedule_error + unit" where
  "validate_timezone env tz =
     (case sv_zone env tz of
        ZoneFound \<Rightarrow> Inr ()
      | ZoneNotFound _ \<Rightarrow> Inl (InvalidTimezone tz)
      | ZoneRaises e \<Rightarrow> Inl (ToolRaised e))"

definition validate_cron_expression :: "schedule_env \<Rightarrow> string \<Rightarrow> string \<Rightarrow> int \<Rightarrow> schedule_error + unit" where
  "validate_cron_expression env cron_expression timezone now =
     (case sv_zone env timezone of
        ZoneFound \<Rightarrow> (case sv_cron_error env cron_expression timezone now of
                        None \<Rightarrow> Inr () | Some e \<Rightarrow> Inl (InvalidCron e))
      | ZoneNotFound e \<Rightarrow> Inl (InvalidCron e)
      | ZoneRaises e \<Rightarrow> Inl (InvalidCron e))"

definition parse_schedule_context :: "schedule_env \<Rightarrow> string option \<Rightarrow> schedule_error + py_dict option" where
  "parse_schedule_context env context =
     (case true_string context of
        None \<Rightarrow> Inr None
      | Some text \<Rightarrow>
          (case sv_json_loads env text of
             Inl e \<Rightarrow> Inl (ContextMalformed e)
           | Inr (JObj kvs) \<Rightarrow> Inr (Some kvs)
           | Inr _ \<Rightarrow> Inl ContextNotObject))"

definition parse_execute_at :: "schedule_env \<Rightarrow> int \<Rightarrow> string \<Rightarrow> string \<Rightarrow> schedule_error + int" where
  "parse_execute_at env now execute_at timezone =
     (case sv_fromisoformat env execute_at of
        Inl e \<Rightarrow> Inl (InvalidExecuteAt e)
      | Inr st \<Rightarrow>
          sum_bind (case st of
                      Aware t \<Rightarrow> Inr t
                    | Naive t \<Rightarrow> (case sv_zone env timezone of
                                    ZoneFound \<Rightarrow> Inr (sv_to_utc env timezone t)
                                  | ZoneNotFound e \<Rightarrow> Inl (ToolRaised e)
                                  | ZoneRaises e \<Rightarrow> Inl (ToolRaised e)))
            (\<lambda>t. if t \<le> now then Inl ExecuteAtNotFuture else Inr t))"

definition require_positive :: "int option \<Rightarrow> schedule_error + unit" where
  "require_positive max_runs =
     (case max_runs of Some m \<Rightarrow> if m \<le> 0 then Inl MaxRunsNotPositive else Inr () | None \<Rightarrow> Inr ())"

definition raising_text :: "string + 'a \<Rightarrow> schedule_error + 'a" where
  "raising_text m = (case m of Inl e \<Rightarrow> Inl (ToolRaised e) | Inr x \<Rightarrow> Inr x)"

section \<open>Users\<close>

text \<open>\<open>scalar_one_or_none\<close> raises on several rows.\<close>

definition user_by_email :: "schedule_env \<Rightarrow> string \<Rightarrow> schedule_db \<Rightarrow> schedule_error + user option" where
  "user_by_email env email d =
     (case filter (\<lambda>u. sv_lower env (u_email u) = sv_lower env email) (sd_users d) of
        [] \<Rightarrow> Inr None
      | [u] \<Rightarrow> Inr (Some u)
      | _ \<Rightarrow> Inl (ToolRaised ''Multiple rows were found when one or none was required''))"

definition accept_user :: "string \<Rightarrow> user option \<Rightarrow> schedule_error + string" where
  "accept_user identifier found_user =
     (case found_user of
        None \<Rightarrow> Inl (UserNotFound identifier)
      | Some u \<Rightarrow> if u_deleted_at u \<noteq> None then Inl (UserDeleted (u_id u)) else Inr (u_id u))"

definition resolve_user_id_from_email :: "schedule_env \<Rightarrow> string \<Rightarrow> schedule_db \<Rightarrow> schedule_error + string" where
  "resolve_user_id_from_email env email d = sum_bind (user_by_email env email d) (accept_user email)"

text \<open>
  \<open>slack_email\<close> is the Slack lookup: \<open>Inl\<close> if it raises (with the identifier), \<open>None\<close>
  or an empty text if it finds nothing.
\<close>

definition resolve_user_id ::
  "schedule_env \<Rightarrow> (string \<Rightarrow> string + string option) \<Rightarrow> string option \<Rightarrow> string option \<Rightarrow> string option \<Rightarrow>
     schedule_db \<Rightarrow> schedule_error + string" where
  "resolve_user_id env slack_email email user_id slack_user_id d =
     sum_bind
       (case (true_string slack_user_id, true_string email) of
          (Some slack, None) \<Rightarrow>
            (case slack_email slack of
               Inl _ \<Rightarrow> Inl (SlackUserUnresolved slack)
             | Inr found_email \<Rightarrow>
                 (case true_string found_email of
                    None \<Rightarrow> Inl (SlackUserUnresolved slack) | Some e \<Rightarrow> Inr (Some e)))
        | _ \<Rightarrow> Inr (true_string email))
       (\<lambda>email'.
          case (true_string user_id, email') of
            (None, None) \<Rightarrow> Inl NoUserIdentifier
          | (Some uid, _) \<Rightarrow> accept_user uid (get_row (\<lambda>u. u_id u = uid) (sd_users d))
          | (None, Some e) \<Rightarrow> sum_bind (user_by_email env e d) (accept_user e))"

text \<open>Values of the context that are true but no strings do not occur as identifiers.\<close>

definition context_string :: "py_dict \<Rightarrow> string \<Rightarrow> string option" where
  "context_string context k = (case dict_get context k of Some (JStr s) \<Rightarrow> true_string (Some s) | _ \<Rightarrow> None)"

definition resolve_user_id_from_context ::
  "schedule_env \<Rightarrow> (string \<Rightarrow> string + string option) \<Rightarrow> py_dict \<Rightarrow> schedule_db \<Rightarrow> schedule_error + string" where
  "resolve_user_id_from_context env slack_email context d =
     (if context = [] then Inl NoSessionContext
      else
        (let email = (case context_string context ''slack_user_email'' of
                        Some e \<Rightarrow> Some e | None \<Rightarrow> context_string context ''user_email'')
         in case (email, context_string context ''user_id'', context_string context ''slack_user_id'') of
              (Some e, _, _) \<Rightarrow> resolve_user_id env slack_email (Some e) None None d
            | (None, Some uid, _) \<Rightarrow> resolve_user_id env slack_email None (Some uid) None d
            | (None, None, Some slack) \<Rightarrow> resolve_user_id env slack_email None None (Some slack) d
            | (None, None, None) \<Rightarrow> Inl NoUserIdentifier))"

section \<open>Creation\<close>

record schedule_args =
  sa_agent_name :: string
  sa_message :: string
  sa_type :: agent_schedule_type
  sa_context :: "py_dict option"
  sa_created_by_user :: string
  sa_created_by_agent :: "string option"
  sa_name :: "string option"
  sa_description :: "string option"
  sa_execute_at :: "int option"
  sa_cron_expression :: "string option"
  sa_cron_timezone :: string
  sa_next_run :: "int option"
  sa_max_runs :: "int option"

definition live_agent_named :: "string \<Rightarrow> schedule_db \<Rightarrow> agent option" where
  "live_agent_named name d = get_row (\<lambda>a. a_name a = name \<and> a_deleted_at a = None) (sd_agents d)"

definition new_schedule :: "int \<Rightarrow> uuid \<Rightarrow> agent \<Rightarrow> schedule_args \<Rightarrow> agent_schedule" where
  "new_schedule now i agent args =
     \<lparr>sc_id = i, sc_agent_id = a_id agent, sc_type = sa_type args, sc_message = sa_message args,
      sc_context = sa_context args, sc_status = SCHED_PENDING, sc_execute_at = sa_execute_at args,
      sc_cron_expression = sa_cron_expression args, sc_cron_timezone = sa_cron_timezone args,
      sc_next_run_at = (if sa_type args = SCHEDULED then sa_execute_at args else sa_next_run args),
      sc_last_run_at = None, sc_run_count = 0, sc_max_runs = sa_max_runs args, sc_last_session_id = None,
      sc_last_error = None, sc_name = sa_name args, sc_description = sa_description args,
      sc_created_by_user = sa_created_by_user args, sc_created_by_agent = sa_created_by_agent args,
      sc_created_at = now, sc_modified_at = now, sc_deleted_at = None\<rparr>"

definition json_time :: "schedule_env \<Rightarrow> int option \<Rightarrow> json" where
  "json_time env = json_of_option (\<lambda>t. JStr (sv_isoformat env t))"

definition json_int :: "int option \<Rightarrow> json" where
  "json_int = json_of_option (\<lambda>n. JNum (of_int n))"

definition created_response :: "schedule_env \<Rightarrow> string \<Rightarrow> agent_schedule \<Rightarrow> py_dict" where
  "created_response env agent_name s =
     [(''success'', JBool True), (''agent_schedule_id'', JStr (str_uuid (sc_id s))),
      (''agent_name'', JStr agent_name), (''schedule_type'', JStr (schedule_type_value (sc_type s))),
      (''status'', JStr ''PENDING''), (''name'', json_of_option JStr (sc_name s)),
      (''created_by_user'', JStr (sc_created_by_user s))]
     @ (if sc_type s = SCHEDULED then [(''execute_at'', json_time env (sc_execute_at s))]
        else [(''cron_expression'', json_of_option JStr (sc_cron_expression s)),
              (''cron_timezone'', JStr (sc_cron_timezone s)),
              (''next_run_at'', json_time env (sc_next_run_at s)),
              (''max_runs'', json_int (sc_max_runs s))])"

definition create_agent_schedule ::
  "schedule_env \<Rightarrow> int \<Rightarrow> uuid \<Rightarrow> schedule_args \<Rightarrow> schedule_db \<Rightarrow> (schedule_error + py_dict) \<times> schedule_db" where
  "create_agent_schedule env now fresh args d =
     transact d
       (case live_agent_named (sa_agent_name args) d of
          None \<Rightarrow> Inl (ScheduleAgentNotFound (sa_agent_name args))
        | Some agent \<Rightarrow>
            (let s = new_schedule now fresh agent args
             in Inr (created_response env (sa_agent_name args) s,
                     d\<lparr>sd_schedules := sd_schedules d @ [s]\<rparr>)))"

section \<open>Queries\<close>

definition truncated_message :: "string \<Rightarrow> string" where
  "truncated_message message = (if 100 < length message then take 100 message @ ''...'' else message)"

definition schedule_to_dict :: "schedule_env \<Rightarrow> agent_schedule \<Rightarrow> string \<Rightarrow> bool \<Rightarrow> py_dict" where
  "schedule_to_dict env s agent_name truncate_message =
     [(''agent_schedule_id'', JStr (str_uuid (sc_id s))),
      (''agent_name'', JStr agent_name),
      (''schedule_type'', JStr (schedule_type_value (sc_type s))),
      (''status'', JStr (schedule_status_value (sc_status s))),
      (''message'', JStr (if truncate_message then truncated_message (sc_message s) else sc_message s)),
      (''name'', json_of_option JStr (sc_name s)),
      (''description'', json_of_option JStr (sc_description s)),
      (''execute_at'', json_time env (sc_execute_at s)),
      (''cron_expression'', json_of_option JStr (sc_cron_expression s)),
      (''cron_timezone'', JStr (sc_cron_timezone s)),
      (''next_run_at'', json_time env (sc_next_run_at s)),
      (''last_run_at'', json_time env (sc_last_run_at s)),
      (''run_count'', json_int (Some (sc_run_count s))),
      (''max_runs'', json_int (sc_max_runs s)),
      (''context'', json_of_option JObj (sc_context s)),
      (''created_by_user'', JStr (sc_created_by_user s)),
      (''created_by_agent'', json_of_option JStr (sc_created_by_agent s)),
      (''created_at'', json_time env (Some (sc_created_at s)))]"

text \<open>The inner join with the agents, deleted ones included.\<close>

definition joined_schedules :: "schedule_db \<Rightarrow> (agent_schedule \<times> string) list" where
  "joined_schedules d =
     List.map_filter (\<lambda>s. case schedule_agent (sc_agent_id s) d of
                            None \<Rightarrow> None | Some a \<Rightarrow> Some (s, a_name a))
       (filter live_schedule (sd_schedules d))"

definition get_agent_schedule_detail ::
  "schedule_env \<Rightarrow> string \<Rightarrow> schedule_db \<Rightarrow> schedule_error + py_dict" where
  "get_agent_schedule_detail env agent_schedule_id d =
     (case parse_uuid agent_schedule_id of
        Inl _ \<Rightarrow> Inl (InvalidScheduleId agent_schedule_id)
      | Inr i \<Rightarrow>
          (case get_row (\<lambda>(s, _). sc_id s = i) (joined_schedules d) of
             None \<Rightarrow> Inl (ScheduleNotFound agent_schedule_id)
           | Some (s, agent_name) \<Rightarrow> Inr (schedule_to_dict env s agent_name False)))"

definition status_filter :: "string option \<Rightarrow> schedule_error + agent_schedule_status option" where
  "status_filter status =
     (case true_string status of
        None \<Rightarrow> Inr None
      | Some t \<Rightarrow> (case schedule_status_of t of None \<Rightarrow> Inl (InvalidScheduleStatus t) | Some st \<Rightarrow> Inr (Some st)))"

definition type_filter :: "string option \<Rightarrow> schedule_error + agent_schedule_type option" where
  "type_filter schedule_type =
     (case true_string schedule_type of
        None \<Rightarrow> Inr None
      | Some t \<Rightarrow> (case schedule_type_of t of None \<Rightarrow> Inl (InvalidScheduleType t) | Some ty \<Rightarrow> Inr (Some ty)))"

definition asked :: "'a option \<Rightarrow> 'a \<Rightarrow> bool" where
  "asked wanted x \<longleftrightarrow> (case wanted of None \<Rightarrow> True | Some w \<Rightarrow> x = w)"

text \<open>\<open>ORDER BY next_run_at NULLS LAST\<close> with the filters and the limit.\<close>

definition selected_schedules ::
  "string option \<Rightarrow> agent_schedule_status option \<Rightarrow> agent_schedule_type option \<Rightarrow> string option \<Rightarrow> nat \<Rightarrow>
     schedule_db \<Rightarrow> (agent_schedule \<times> string) list" where
  "selected_schedules agent_name status schedule_type created_by limit d =
     take limit
       (sort_key (\<lambda>(s, _). (sc_next_run_at s = None, next_run_or_0 s))
         (filter (\<lambda>(s, name). asked (true_string agent_name) name \<and> asked status (sc_status s) \<and>
                     asked schedule_type (sc_type s) \<and> asked (true_string created_by) (sc_created_by_user s))
            (joined_schedules d)))"

definition list_agent_schedules_by_filters ::
  "schedule_env \<Rightarrow> string option \<Rightarrow> string option \<Rightarrow> string option \<Rightarrow> string option \<Rightarrow> int \<Rightarrow> bool \<Rightarrow>
     schedule_db \<Rightarrow> schedule_error + py_dict list" where
  "list_agent_schedules_by_filters env agent_name status schedule_type created_by_user_id limit truncate_message d =
     sum_bind (status_filter status) (\<lambda>status_enum.
     sum_bind (type_filter schedule_type) (\<lambda>type_enum.
       Inr (map (\<lambda>(s, name). schedule_to_dict env s name truncate_message)
         (selected_schedules agent_name status_enum type_enum created_by_user_id
            (nat (min (max limit 1) 200)) d))))"

section \<open>Cancelling\<close>

definition cancelled_response :: "string \<Rightarrow> py_dict" where
  "cancelled_response agent_schedule_id =
     [(''success'', JBool True), (''agent_schedule_id'', JStr agent_schedule_id), (''status'', JStr ''CANCELLED'')]"

definition cancel_agent_schedule_by_id ::
  "int \<Rightarrow> string \<Rightarrow> string \<Rightarrow> bool \<Rightarrow> schedule_db \<Rightarrow> (schedule_error + py_dict) \<times> schedule_db" where
  "cancel_agent_schedule_by_id now agent_schedule_id caller_user_id allow_any_owner d =
     (case parse_uuid agent_schedule_id of
        Inl _ \<Rightarrow> (Inl (InvalidScheduleId agent_schedule_id), d)
      | Inr i \<Rightarrow>
          (case find_schedule (\<lambda>s. live_schedule s \<and> sc_status s \<in> {SCHED_PENDING, SCHED_PAUSED} \<and>
                    (allow_any_owner \<or> sc_created_by_user s = caller_user_id)) i d of
             Some _ \<Rightarrow> (Inr (cancelled_response agent_schedule_id),
                       write_schedule now i (\<lambda>s. s\<lparr>sc_status := SCHED_CANCELLED\<rparr>) d)
           | None \<Rightarrow>
               (case find_schedule live_schedule i d of
                  None \<Rightarrow> (Inl (ScheduleNotFound agent_schedule_id), d)
                | Some s \<Rightarrow>
                    if \<not> allow_any_owner \<and> sc_created_by_user s \<noteq> caller_user_id
                    then (Inl NotScheduleOwner, d)
                    else (Inl (ScheduleStatusRefuses (sc_status s)), d))))"

section \<open>The manual trigger\<close>

definition triggerable :: "string \<Rightarrow> agent_schedule \<Rightarrow> schedule_error option" where
  "triggerable caller_user_id s =
     (if sc_created_by_user s \<noteq> caller_user_id then Some NotScheduleOwner
      else if sc_type s \<noteq> RECURRING then Some NotRecurring
      else if sc_status s \<noteq> SCHED_PENDING then Some (ScheduleStatusRefuses (sc_status s))
      else None)"

definition triggered_response :: "string \<Rightarrow> string \<Rightarrow> agent_schedule_run \<Rightarrow> py_dict" where
  "triggered_response agent_schedule_id session_id run =
     [(''success'', JBool True), (''agent_schedule_id'', JStr agent_schedule_id),
      (''session_id'', JStr session_id), (''run_number'', JNum (of_int (rn_run_number run)))]"

definition trigger_agent_schedule_now ::
  "schedule_env \<Rightarrow> int \<Rightarrow> int \<Rightarrow> (uuid \<Rightarrow> bool) \<Rightarrow> uuid \<Rightarrow> string \<Rightarrow> string \<Rightarrow> schedule_db \<Rightarrow>
     (schedule_error + py_dict) \<times> schedule_db" where
  "trigger_agent_schedule_now env now now' locked run_id agent_schedule_id caller_user_id d =
     (case parse_uuid agent_schedule_id of
        Inl _ \<Rightarrow> (Inl (InvalidScheduleId agent_schedule_id), d)
      | Inr i \<Rightarrow>
          (case find_schedule live_schedule i d of
             None \<Rightarrow> (Inl (ScheduleNotFound agent_schedule_id), d)
           | Some s0 \<Rightarrow>
               if locked i then (Inl ScheduleLocked, d)
               else
                 (case triggerable caller_user_id s0 of
                    Some e \<Rightarrow> (Inl e, d)
                  | None \<Rightarrow>
                      (let s = s0\<lparr>sc_status := SCHED_IN_PROGRESS, sc_modified_at := now\<rparr>;
                           run = new_run now run_id i d
                       in case run_claimed_schedule env ''manual'' ''manual_trigger'' now' s run
                                 (start_run now run_id i d) of
                            (Inl msg, d') \<Rightarrow> (Inl (ExecutionFailed msg), d')
                          | (Inr sid, d') \<Rightarrow> (Inr (triggered_response agent_schedule_id sid run), d')))))"

section \<open>Editing\<close>

record edit_args =
  ea_message :: "string option"
  ea_cron_expression :: "string option"
  ea_timezone :: "string option"
  ea_name :: "string option"
  ea_description :: "string option"
  ea_context :: "py_dict option"
  ea_max_runs :: "int option"
  ea_execute_at :: "string option"
  ea_agent_name :: "string option"

definition given_or :: "'a option \<Rightarrow> 'a \<Rightarrow> 'a" where
  "given_or new old = (case new of None \<Rightarrow> old | Some x \<Rightarrow> x)"

definition given_opt :: "'a option \<Rightarrow> 'a option \<Rightarrow> 'a option" where
  "given_opt new old = (case new of None \<Rightarrow> old | Some x \<Rightarrow> Some x)"

text \<open>The fields every schedule has.\<close>

definition edit_common :: "edit_args \<Rightarrow> schedule_db \<Rightarrow> agent_schedule \<Rightarrow> schedule_error + agent_schedule" where
  "edit_common ea d s =
     (let s1 = s\<lparr>sc_message := given_or (ea_message ea) (sc_message s),
                 sc_name := given_opt (ea_name ea) (sc_name s),
                 sc_description := given_opt (ea_description ea) (sc_description s),
                 sc_context := given_opt (ea_context ea) (sc_context s)\<rparr>
      in case ea_agent_name ea of
           None \<Rightarrow> Inr s1
         | Some name \<Rightarrow>
             (case live_agent_named name d of
                None \<Rightarrow> Inl (ScheduleAgentNotFound name)
              | Some agent \<Rightarrow> Inr (s1\<lparr>sc_agent_id := a_id agent\<rparr>)))"

text \<open>The fields of a recurring schedule: a new expression or zone also gives a new next time.\<close>

definition edit_recurring ::
  "schedule_env \<Rightarrow> int \<Rightarrow> edit_args \<Rightarrow> agent_schedule \<Rightarrow> schedule_error + agent_schedule" where
  "edit_recurring env now ea s =
     (if ea_execute_at ea \<noteq> None then Inl ExecuteAtOnRecurring
      else
        (let tz = given_or (true_string (ea_timezone ea)) (sc_cron_timezone s);
             cron = given_opt (true_string (ea_cron_expression ea)) (sc_cron_expression s)
         in sum_bind (case ea_timezone ea of None \<Rightarrow> Inr () | Some z \<Rightarrow> validate_timezone env z) (\<lambda>_.
            sum_bind (case ea_cron_expression ea of
                        None \<Rightarrow> Inr () | Some c \<Rightarrow> validate_cron_expression env c tz now) (\<lambda>_.
            sum_bind (require_positive (ea_max_runs ea)) (\<lambda>_.
              (let s1 = s\<lparr>sc_cron_timezone := given_or (ea_timezone ea) (sc_cron_timezone s),
                          sc_cron_expression := given_opt (ea_cron_expression ea) (sc_cron_expression s),
                          sc_max_runs := given_opt (ea_max_runs ea) (sc_max_runs s)\<rparr>
               in if ea_cron_expression ea = None \<and> ea_timezone ea = None then Inr s1
                  else if cron = None then Inl CronMissing
                  else sum_bind (raising_text (compute_next_run_for_cron env cron tz now)) (\<lambda>t.
                         Inr (s1\<lparr>sc_next_run_at := Some t\<rparr>))))))))"

definition edit_one_time ::
  "schedule_env \<Rightarrow> int \<Rightarrow> edit_args \<Rightarrow> agent_schedule \<Rightarrow> schedule_error + agent_schedule" where
  "edit_one_time env now ea s =
     (if ea_cron_expression ea \<noteq> None then Inl CronOnOneTime
      else if ea_max_runs ea \<noteq> None then Inl MaxRunsOnOneTime
      else
        sum_bind (case ea_timezone ea of None \<Rightarrow> Inr () | Some z \<Rightarrow> validate_timezone env z) (\<lambda>_.
          (let s1 = s\<lparr>sc_cron_timezone := given_or (ea_timezone ea) (sc_cron_timezone s)\<rparr>
           in case ea_execute_at ea of
                None \<Rightarrow> Inr s1
              | Some text \<Rightarrow>
                  (let tz0 = given_or (true_string (ea_timezone ea)) (sc_cron_timezone s1);
                       tz = (if tz0 = [] then ''UTC'' else tz0)
                   in sum_bind (parse_execute_at env now text tz) (\<lambda>t.
                        Inr (s1\<lparr>sc_execute_at := Some t, sc_next_run_at := Some t\<rparr>))))))"

definition edit_row ::
  "schedule_env \<Rightarrow> int \<Rightarrow> edit_args \<Rightarrow> schedule_db \<Rightarrow> agent_schedule \<Rightarrow> schedule_error + agent_schedule" where
  "edit_row env now ea d s =
     sum_bind (edit_common ea d s) (\<lambda>s1.
       if sc_type s1 = RECURRING then edit_recurring env now ea s1 else edit_one_time env now ea s1)"

text \<open>Without any field to change no attribute is set, and the row is not written.\<close>

definition nothing_to_edit :: "edit_args \<Rightarrow> bool" where
  "nothing_to_edit ea \<longleftrightarrow>
     ea_message ea = None \<and> ea_cron_expression ea = None \<and> ea_timezone ea = None \<and> ea_name ea = None \<and>
     ea_description ea = None \<and> ea_context ea = None \<and> ea_max_runs ea = None \<and> ea_execute_at ea = None \<and>
     ea_agent_name ea = None"

definition edited_response :: "string \<Rightarrow> py_dict" where
  "edited_response agent_schedule_id =
     [(''success'', JBool True), (''agent_schedule_id'', JStr agent_schedule_id), (''status'', JStr ''updated'')]"

definition edit_agent_schedule_fields ::
  "schedule_env \<Rightarrow> int \<Rightarrow> string \<Rightarrow> string \<Rightarrow> edit_args \<Rightarrow> bool \<Rightarrow> schedule_db \<Rightarrow>
     (schedule_error + py_dict) \<times> schedule_db" where
  "edit_agent_schedule_fields env now agent_schedule_id caller_user_id ea allow_any_owner d =
     transact d
       (case parse_uuid agent_schedule_id of
          Inl _ \<Rightarrow> Inl (InvalidScheduleId agent_schedule_id)
        | Inr i \<Rightarrow>
            (case find_schedule live_schedule i d of
               None \<Rightarrow> Inl (ScheduleNotFound agent_schedule_id)
             | Some s \<Rightarrow>
                 if \<not> allow_any_owner \<and> sc_created_by_user s \<noteq> caller_user_id then Inl NotScheduleOwner
                 else if sc_status s \<notin> {SCHED_PENDING, SCHED_PAUSED}
                 then Inl (ScheduleStatusRefuses (sc_status s))
                 else sum_bind (edit_row env now ea d s) (\<lambda>s'.
                        Inr (edited_response agent_schedule_id,
                             if nothing_to_edit ea then d else write_schedule now i (\<lambda>_. s') d))))"

end
