(* ===== verification/Schedule_Frontends.thy ===== *)
theory Schedule_Frontends
  imports Schedule_Tools
begin

text \<open>
  The four front ends of the schedule operations: the MCP tools
  (\<open>mcp_server/tools/agent_schedules.py\<close>), the REST service (\<open>projects/schedule_service.py\<close>),
  the tools of the harness (\<open>agent_harness_service/tools/scheduling.py\<close>) and the console page
  (\<open>streamlit_server/pages/agent_schedule.py\<close>).
\<close>

section \<open>MCP tools\<close>

text \<open>The request with the lookups of the permissions \<open>USE_MCP\<close> and \<open>MANAGE_AGENT_SCHEDULES\<close>.\<close>

record schedule_ctx =
  sx_request :: tool_ctx
  sx_use_mcp :: "string \<Rightarrow> bool"
  sx_manage_schedules :: "string \<Rightarrow> bool"

definition schedule_caller :: "schedule_ctx \<Rightarrow> schedule_error + string" where
  "schedule_caller sx =
     (case require_caller_user_id (sx_request sx) of Inl _ \<Rightarrow> Inl AuthenticationRequired | Inr u \<Rightarrow> Inr u)"

text \<open>The caller of a tool that needs \<open>USE_MCP\<close>, which the credential holder must have.\<close>

definition permitted_caller :: "schedule_ctx \<Rightarrow> schedule_error + string" where
  "permitted_caller sx =
     sum_bind (schedule_caller sx) (\<lambda>caller_user_id.
       case require_principal_user_id (sx_request sx) of
         Inl _ \<Rightarrow> Inl AuthenticationRequired
       | Inr principal_user_id \<Rightarrow>
           if sx_use_mcp sx principal_user_id then Inr caller_user_id else Inl McpNotPermitted)"

text \<open>The arguments of a creation that all front ends share.\<close>

record creation_args =
  ca_agent_name :: string
  ca_message :: string
  ca_timezone :: string
  ca_name :: "string option"
  ca_description :: "string option"
  ca_created_by_agent :: "string option"

definition one_time_args ::
  "creation_args \<Rightarrow> string \<Rightarrow> py_dict option \<Rightarrow> string \<Rightarrow> int \<Rightarrow> schedule_args" where
  "one_time_args ca cron_timezone context_dict created_by_user execute_at_utc =
     \<lparr>sa_agent_name = ca_agent_name ca, sa_message = ca_message ca, sa_type = SCHEDULED,
      sa_context = context_dict, sa_created_by_user = created_by_user,
      sa_created_by_agent = ca_created_by_agent ca, sa_name = ca_name ca, sa_description = ca_description ca,
      sa_execute_at = Some execute_at_utc, sa_cron_expression = None, sa_cron_timezone = cron_timezone,
      sa_next_run = None, sa_max_runs = None\<rparr>"

definition recurring_args ::
  "creation_args \<Rightarrow> py_dict option \<Rightarrow> string \<Rightarrow> string \<Rightarrow> int \<Rightarrow> int option \<Rightarrow> schedule_args" where
  "recurring_args ca context_dict created_by_user cron_expression next_run max_runs =
     \<lparr>sa_agent_name = ca_agent_name ca, sa_message = ca_message ca, sa_type = RECURRING,
      sa_context = context_dict, sa_created_by_user = created_by_user,
      sa_created_by_agent = ca_created_by_agent ca, sa_name = ca_name ca, sa_description = ca_description ca,
      sa_execute_at = None, sa_cron_expression = Some cron_expression, sa_cron_timezone = ca_timezone ca,
      sa_next_run = Some next_run, sa_max_runs = max_runs\<rparr>"

text \<open>A step that may refuse, then an operation on the database.\<close>

definition checked :: "schedule_error + 'a \<Rightarrow> ('a \<Rightarrow> (schedule_error + 'r) \<times> 'd) \<Rightarrow> 'd \<Rightarrow> (schedule_error + 'r) \<times> 'd" where
  "checked m f d = (case m of Inl e \<Rightarrow> (Inl e, d) | Inr x \<Rightarrow> f x)"

definition mcp_create_agent_schedule ::
  "schedule_env \<Rightarrow> schedule_ctx \<Rightarrow> int \<Rightarrow> uuid \<Rightarrow> creation_args \<Rightarrow> string \<Rightarrow> string option \<Rightarrow> schedule_db \<Rightarrow>
     (schedule_error + py_dict) \<times> schedule_db" where
  "mcp_create_agent_schedule env sx now fresh ca execute_at context d =
     checked (sum_bind (validate_timezone env (ca_timezone ca)) (\<lambda>_.
              sum_bind (parse_execute_at env now execute_at (ca_timezone ca)) (\<lambda>execute_at_utc.
              sum_bind (parse_schedule_context env context) (\<lambda>context_dict.
              sum_bind (schedule_caller sx) (\<lambda>created_by_user.
                Inr (one_time_args ca ''UTC'' context_dict created_by_user execute_at_utc))))))
       (\<lambda>args. create_agent_schedule env now fresh args d) d"

definition mcp_create_recurring_agent_schedule ::
  "schedule_env \<Rightarrow> schedule_ctx \<Rightarrow> int \<Rightarrow> uuid \<Rightarrow> creation_args \<Rightarrow> string \<Rightarrow> int option \<Rightarrow> string option \<Rightarrow>
     schedule_db \<Rightarrow> (schedule_error + py_dict) \<times> schedule_db" where
  "mcp_create_recurring_agent_schedule env sx now fresh ca cron_expression max_runs context d =
     checked (sum_bind (validate_timezone env (ca_timezone ca)) (\<lambda>_.
              sum_bind (validate_cron_expression env cron_expression (ca_timezone ca) now) (\<lambda>_.
              sum_bind (require_positive max_runs) (\<lambda>_.
              sum_bind (parse_schedule_context env context) (\<lambda>context_dict.
              sum_bind (schedule_caller sx) (\<lambda>created_by_user.
              sum_bind (raising_text
                  (compute_next_run_for_cron env (Some cron_expression) (ca_timezone ca) now)) (\<lambda>next_run.
                Inr (recurring_args ca context_dict created_by_user cron_expression next_run max_runs))))))))
       (\<lambda>args. create_agent_schedule env now fresh args d) d"

definition mcp_cancel_agent_schedule ::
  "schedule_ctx \<Rightarrow> int \<Rightarrow> string \<Rightarrow> schedule_db \<Rightarrow> (schedule_error + py_dict) \<times> schedule_db" where
  "mcp_cancel_agent_schedule sx now agent_schedule_id d =
     checked (permitted_caller sx)
       (\<lambda>caller. cancel_agent_schedule_by_id now agent_schedule_id caller (sx_manage_schedules sx caller) d) d"

text \<open>The context argument is parsed only when given; an empty text leaves the context as it is.\<close>

definition mcp_edit_agent_schedule ::
  "schedule_env \<Rightarrow> schedule_ctx \<Rightarrow> int \<Rightarrow> string \<Rightarrow> edit_args \<Rightarrow> string option \<Rightarrow> schedule_db \<Rightarrow>
     (schedule_error + py_dict) \<times> schedule_db" where
  "mcp_edit_agent_schedule env sx now agent_schedule_id ea context d =
     checked (sum_bind (permitted_caller sx) (\<lambda>caller.
              sum_bind (parse_schedule_context env context) (\<lambda>context_dict. Inr (caller, context_dict))))
       (\<lambda>(caller, context_dict).
          edit_agent_schedule_fields env now agent_schedule_id caller (ea\<lparr>ea_context := context_dict\<rparr>)
            (sx_manage_schedules sx caller) d) d"

definition mcp_schedule_row :: "schedule_env \<Rightarrow> agent_schedule \<times> string \<Rightarrow> py_dict" where
  "mcp_schedule_row env = (\<lambda>(s, agent_name).
     filter (\<lambda>(k, _). k \<noteq> ''description'' \<and> k \<noteq> ''context'') (schedule_to_dict env s agent_name True))"

text \<open>
  Whose schedules may be listed: the caller's own, or with \<open>created_by\<close> those of the user
  with this address, if that is the caller or the caller manages schedules.
\<close>

definition listed_creator ::
  "schedule_env \<Rightarrow> schedule_ctx \<Rightarrow> string \<Rightarrow> string option \<Rightarrow> schedule_db \<Rightarrow> schedule_error + string" where
  "listed_creator env sx caller created_by d =
     (case true_string created_by of
        None \<Rightarrow> Inr caller
      | Some email \<Rightarrow>
          (case resolve_user_id_from_email env email d of
             Inl (ToolRaised e) \<Rightarrow> Inl (ToolRaised e)
           | Inl e \<Rightarrow> Inl (CreatedByInvalid e)
           | Inr resolved_id \<Rightarrow>
               if resolved_id \<noteq> caller \<and> \<not> sx_manage_schedules sx caller then Inl ListingNotPermitted
               else Inr resolved_id))"

definition mcp_list_agent_schedules ::
  "schedule_env \<Rightarrow> schedule_ctx \<Rightarrow> string option \<Rightarrow> string option \<Rightarrow> string option \<Rightarrow> string option \<Rightarrow> int \<Rightarrow>
     schedule_db \<Rightarrow> schedule_error + py_dict list" where
  "mcp_list_agent_schedules env sx agent_name status schedule_type created_by limit d =
     (if limit \<le> 0 then Inl LimitOutOfRange
      else
        sum_bind (permitted_caller sx) (\<lambda>caller.
        sum_bind (status_filter status) (\<lambda>status_enum.
        sum_bind (type_filter schedule_type) (\<lambda>type_enum.
        sum_bind (listed_creator env sx caller created_by d) (\<lambda>creator.
          Inr (map (mcp_schedule_row env)
            (selected_schedules agent_name status_enum type_enum (Some creator) (nat (min limit 200)) d)))))))"

section \<open>REST service\<close>

definition create_one_time_schedule ::
  "schedule_env \<Rightarrow> int \<Rightarrow> uuid \<Rightarrow> creation_args \<Rightarrow> string \<Rightarrow> string \<Rightarrow> py_dict option \<Rightarrow> schedule_db \<Rightarrow>
     (schedule_error + py_dict) \<times> schedule_db" where
  "create_one_time_schedule env now fresh ca execute_at created_by_user context d =
     checked (sum_bind (validate_timezone env (ca_timezone ca)) (\<lambda>_.
              sum_bind (parse_execute_at env now execute_at (ca_timezone ca)) (\<lambda>execute_at_utc.
                Inr (one_time_args ca ''UTC'' context created_by_user execute_at_utc))))
       (\<lambda>args. create_agent_schedule env now fresh args d) d"

definition create_recurring_schedule ::
  "schedule_env \<Rightarrow> int \<Rightarrow> uuid \<Rightarrow> creation_args \<Rightarrow> string \<Rightarrow> int option \<Rightarrow> string \<Rightarrow> py_dict option \<Rightarrow>
     schedule_db \<Rightarrow> (schedule_error + py_dict) \<times> schedule_db" where
  "create_recurring_schedule env now fresh ca cron_expression max_runs created_by_user context d =
     checked (sum_bind (validate_timezone env (ca_timezone ca)) (\<lambda>_.
              sum_bind (validate_cron_expression env cron_expression (ca_timezone ca) now) (\<lambda>_.
              sum_bind (require_positive max_runs) (\<lambda>_.
              sum_bind (raising_text
                  (compute_next_run_for_cron env (Some cron_expression) (ca_timezone ca) now)) (\<lambda>next_run.
                Inr (recurring_args ca context created_by_user cron_expression next_run max_runs))))))
       (\<lambda>args. create_agent_schedule env now fresh args d) d"

definition rest_edit_schedule ::
  "schedule_env \<Rightarrow> int \<Rightarrow> string \<Rightarrow> string \<Rightarrow> edit_args \<Rightarrow> schedule_db \<Rightarrow>
     (schedule_error + py_dict) \<times> schedule_db" where
  "rest_edit_schedule env now agent_schedule_id caller_user_id ea d =
     edit_agent_schedule_fields env now agent_schedule_id caller_user_id ea False d"

definition rest_cancel_schedule ::
  "int \<Rightarrow> string \<Rightarrow> string \<Rightarrow> schedule_db \<Rightarrow> (schedule_error + py_dict) \<times> schedule_db" where
  "rest_cancel_schedule now agent_schedule_id caller_user_id d =
     cancel_agent_schedule_by_id now agent_schedule_id caller_user_id False d"

definition run_to_dict :: "schedule_env \<Rightarrow> agent_schedule_run \<Rightarrow> py_dict" where
  "run_to_dict env r =
     [(''agent_schedule_run_id'', JStr (str_uuid (rn_id r))),
      (''run_number'', json_int (Some (rn_run_number r))),
      (''status'', JStr (run_status_value (rn_status r))),
      (''started_at'', json_time env (rn_started_at r)),
      (''completed_at'', json_time env (rn_completed_at r)),
      (''session_id'', json_of_option (\<lambda>u. JStr (str_uuid u)) (rn_session_id r)),
      (''error'', json_of_option JStr (rn_error r))]"

definition list_schedule_runs :: "schedule_env \<Rightarrow> string \<Rightarrow> nat \<Rightarrow> schedule_db \<Rightarrow> py_dict list" where
  "list_schedule_runs env agent_schedule_id limit d =
     (case parse_uuid agent_schedule_id of
        Inl _ \<Rightarrow> []
      | Inr i \<Rightarrow>
          map (run_to_dict env)
            (take limit (sort_key (\<lambda>r. - rn_run_number r) (filter (\<lambda>r. rn_schedule_id r = i) (sd_runs d)))))"

section \<open>Tools of the harness\<close>

record agent_session =
  as_id :: uuid
  as_agent_id :: uuid
  as_context :: "py_dict option"

datatype harness_error = SessionIdInvalid string | SessionMissing string | SessionAgentMissing string

definition get_session_and_agent ::
  "agent_session list \<Rightarrow> string \<Rightarrow> schedule_db \<Rightarrow> harness_error + agent_session \<times> agent" where
  "get_session_and_agent sessions session_id d =
     (case parse_uuid session_id of
        Inl _ \<Rightarrow> Inl (SessionIdInvalid session_id)
      | Inr i \<Rightarrow>
          (case get_row (\<lambda>s. as_id s = i) sessions of
             None \<Rightarrow> Inl (SessionMissing session_id)
           | Some s \<Rightarrow>
               (case schedule_agent (as_agent_id s) d of
                  None \<Rightarrow> Inl (SessionAgentMissing session_id) | Some a \<Rightarrow> Inr (s, a))))"

text \<open>The answer of a harness tool: refused for its session, or the outcome of the rest.\<close>

definition schedule_agent_call ::
  "schedule_env \<Rightarrow> (string \<Rightarrow> string + string option) \<Rightarrow> agent_session list \<Rightarrow> int \<Rightarrow> uuid \<Rightarrow> string \<Rightarrow>
     creation_args \<Rightarrow> string \<Rightarrow> string option \<Rightarrow> schedule_db \<Rightarrow>
     (harness_error + schedule_error + py_dict) \<times> schedule_db" where
  "schedule_agent_call env slack_email sessions now fresh session_id ca execute_at context d =
     (case get_session_and_agent sessions session_id d of
        Inl e \<Rightarrow> (Inl e, d)
      | Inr (caller_session, caller_agent) \<Rightarrow>
          apfst Inr
            (checked (sum_bind (validate_timezone env (ca_timezone ca)) (\<lambda>_.
                      sum_bind (parse_execute_at env now execute_at (ca_timezone ca)) (\<lambda>execute_at_utc.
                      sum_bind (parse_schedule_context env context) (\<lambda>context_dict.
                      sum_bind (resolve_user_id_from_context env slack_email
                                  (or_empty (as_context caller_session)) d) (\<lambda>created_by_user.
                        Inr (one_time_args (ca\<lparr>ca_created_by_agent := Some (a_name caller_agent)\<rparr>)
                               (ca_timezone ca) context_dict created_by_user execute_at_utc))))))
               (\<lambda>args. create_agent_schedule env now fresh args d) d))"

definition schedule_recurring_agent_call ::
  "schedule_env \<Rightarrow> (string \<Rightarrow> string + string option) \<Rightarrow> agent_session list \<Rightarrow> int \<Rightarrow> uuid \<Rightarrow> string \<Rightarrow>
     creation_args \<Rightarrow> string \<Rightarrow> int option \<Rightarrow> string option \<Rightarrow> schedule_db \<Rightarrow>
     (harness_error + schedule_error + py_dict) \<times> schedule_db" where
  "schedule_recurring_agent_call env slack_email sessions now fresh session_id ca cron_expression max_runs context d =
     (case get_session_and_agent sessions session_id d of
        Inl e \<Rightarrow> (Inl e, d)
      | Inr (caller_session, caller_agent) \<Rightarrow>
          apfst Inr
            (checked (sum_bind (validate_timezone env (ca_timezone ca)) (\<lambda>_.
                      sum_bind (validate_cron_expression env cron_expression (ca_timezone ca) now) (\<lambda>_.
                      sum_bind (require_positive max_runs) (\<lambda>_.
                      sum_bind (parse_schedule_context env context) (\<lambda>context_dict.
                      sum_bind (resolve_user_id_from_context env slack_email
                                  (or_empty (as_context caller_session)) d) (\<lambda>created_by_user.
                      sum_bind (raising_text
                          (compute_next_run_for_cron env (Some cron_expression) (ca_timezone ca) now)) (\<lambda>next_run.
                        Inr (recurring_args (ca\<lparr>ca_created_by_agent := Some (a_name caller_agent)\<rparr>)
                               context_dict created_by_user cron_expression next_run max_runs))))))))
               (\<lambda>args. create_agent_schedule env now fresh args d) d))"

section \<open>The console\<close>

text \<open>Cancelling in the console needs the creator, whatever permissions the user has.\<close>

definition console_cancel_schedule ::
  "int \<Rightarrow> uuid \<Rightarrow> string \<Rightarrow> schedule_db \<Rightarrow> (schedule_error + unit) \<times> schedule_db" where
  "console_cancel_schedule now i user_id d =
     (case find_schedule live_schedule i d of
        None \<Rightarrow> (Inl (ScheduleNotFound (str_uuid i)), d)
      | Some s \<Rightarrow>
          if sc_status s \<notin> {SCHED_PENDING, SCHED_PAUSED} then (Inl (ScheduleStatusRefuses (sc_status s)), d)
          else if sc_created_by_user s \<noteq> user_id then (Inl NotScheduleOwner, d)
          else (Inr (), write_schedule now i (\<lambda>s. s\<lparr>sc_status := SCHED_CANCELLED\<rparr>) d))"

definition update_schedule_status ::
  "int \<Rightarrow> uuid \<Rightarrow> string \<Rightarrow> agent_schedule_status \<Rightarrow> schedule_db \<Rightarrow> (schedule_error + unit) \<times> schedule_db" where
  "update_schedule_status now i user_id new_status d =
     (if new_status \<notin> {SCHED_PENDING, SCHED_PAUSED} then (Inl (StatusNotSettable new_status), d)
      else
        (case find_schedule live_schedule i d of
           None \<Rightarrow> (Inl (ScheduleNotFound (str_uuid i)), d)
         | Some s \<Rightarrow>
             if sc_created_by_user s \<noteq> user_id then (Inl NotScheduleOwner, d)
             else if sc_status s \<notin> {SCHED_PENDING, SCHED_PAUSED}
             then (Inl (ScheduleStatusRefuses (sc_status s)), d)
             else if sc_status s = new_status then (Inr (), d)
             else (Inr (), write_schedule now i (\<lambda>s. s\<lparr>sc_status := new_status\<rparr>) d)))"

end
