(* ===== verification/Schedule_System.thy ===== *)
theory Schedule_System
  imports Schedule_Frontends
begin

text \<open>
  The schedules as a system: claims by several schedulers, manual triggers, completions that
  may come late or more than once, recoveries, and the users' operations, in any order. The
  invariant counts the runs of a schedule against its counter and its limit.
\<close>

section \<open>The invariant\<close>

definition runs_of :: "uuid \<Rightarrow> schedule_db \<Rightarrow> agent_schedule_run list" where
  "runs_of i d = filter (\<lambda>r. rn_schedule_id r = i) (sd_runs d)"

definition open_status :: "agent_schedule_status \<Rightarrow> bool" where
  "open_status st \<longleftrightarrow> st \<in> {SCHED_PENDING, SCHED_IN_PROGRESS, SCHED_PAUSED}"

text \<open>
  The runs are numbered from 1 without gaps. A schedule in progress has a run in progress.
  There are at most as many runs as counted, one more while in progress. The limit of a schedule may
  be edited, also to a number below the runs that were made; \<open>b\<close> stands for the number of runs at
  some moment since which the limit was not edited (for -1, it never was). There are never more
  runs than the limit, or than \<open>b + 1\<close>, and an open schedule has not reached its limit or has
  made no run since that moment.
\<close>

definition runs_ok :: "int \<Rightarrow> agent_schedule_run list \<Rightarrow> agent_schedule \<Rightarrow> bool" where
  "runs_ok b rs s \<longleftrightarrow>
     map rn_run_number rs = [1..int (length rs)] \<and>
     0 \<le> sc_run_count s \<and>
     (sc_status s = SCHED_IN_PROGRESS \<longrightarrow> (\<exists>r \<in> set rs. rn_status r = RUN_IN_PROGRESS)) \<and>
     int (length rs) \<le> sc_run_count s + (if sc_status s = SCHED_IN_PROGRESS then 1 else 0) \<and>
     (\<forall>m. sc_max_runs s = Some m \<longrightarrow>
        int (length rs) \<le> max m (b + 1) \<and>
        (open_status (sc_status s) \<longrightarrow>
           sc_run_count s < m \<or> int (length rs) \<le> b + (if sc_status s = SCHED_IN_PROGRESS then 1 else 0)))"

definition schedules_ok :: "(uuid \<Rightarrow> int) \<Rightarrow> schedule_db \<Rightarrow> bool" where
  "schedules_ok base d \<longleftrightarrow>
     distinct (map sc_id (sd_schedules d)) \<and> distinct (map rn_id (sd_runs d)) \<and>
     rn_schedule_id ` set (sd_runs d) \<subseteq> sc_id ` set (sd_schedules d) \<and>
     (\<forall>s \<in> set (sd_schedules d). runs_ok (base (sc_id s)) (runs_of (sc_id s) d) s)"

section \<open>Steps\<close>

definition fresh_run :: "uuid \<Rightarrow> schedule_db \<Rightarrow> bool" where
  "fresh_run i d \<longleftrightarrow> i \<notin> rn_id ` set (sd_runs d)"

definition fresh_schedule :: "uuid \<Rightarrow> schedule_db \<Rightarrow> bool" where
  "fresh_schedule i d \<longleftrightarrow> i \<notin> sc_id ` set (sd_schedules d)"

text \<open>The schedule whose limit an edit may change; it labels the step.\<close>

definition edited_limit :: "string \<Rightarrow> edit_args \<Rightarrow> uuid option" where
  "edited_limit i_text ea =
     (if ea_max_runs ea = None then None else case parse_uuid i_text of Inl _ \<Rightarrow> None | Inr i \<Rightarrow> Some i)"

inductive schedule_step :: "schedule_env \<Rightarrow> uuid option \<Rightarrow> schedule_db \<Rightarrow> schedule_db \<Rightarrow> bool" for env where
  create: "fresh_schedule i d \<Longrightarrow> require_positive (sa_max_runs args) = Inr () \<Longrightarrow>
    schedule_step env None d (snd (create_agent_schedule env now i args d))"
| claim: "fresh_run k d \<Longrightarrow> schedule_step env None d (snd (claim_agent_schedule now locked k i d))"
| trigger: "fresh_run k d \<Longrightarrow> find_schedule live_schedule i d = Some s \<Longrightarrow> triggerable caller s = None \<Longrightarrow>
    schedule_step env None d (start_run now k i d)"
| complete: "r \<in> set (sd_runs d) \<Longrightarrow>
    schedule_step env None d (snd (update_run_completion env now (rn_schedule_id r) (rn_id r) success sid err d))"
| recover: "schedule_step env None d (snd (recover_stale_in_progress_schedules msg now timeout locked d))"
| cancel: "schedule_step env None d (snd (cancel_agent_schedule_by_id now i_text caller any_owner d))"
| console_cancel: "schedule_step env None d (snd (console_cancel_schedule now i caller d))"
| pause: "schedule_step env None d (snd (update_schedule_status now i caller st d))"
| edit: "schedule_step env (edited_limit i_text ea) d
    (snd (edit_agent_schedule_fields env now i_text caller ea any_owner d))"

inductive schedules_reachable :: "schedule_env \<Rightarrow> schedule_db \<Rightarrow> bool" for env where
  initial: "sd_schedules d = [] \<Longrightarrow> sd_runs d = [] \<Longrightarrow> schedules_reachable env d"
| step: "schedules_reachable env d \<Longrightarrow> schedule_step env l d d' \<Longrightarrow> schedules_reachable env d'"

text \<open>Steps that do not edit the limit of a schedule.\<close>

inductive limit_kept :: "schedule_env \<Rightarrow> uuid \<Rightarrow> schedule_db \<Rightarrow> schedule_db \<Rightarrow> bool" for env i where
  unchanged: "limit_kept env i d d"
| step: "limit_kept env i d d' \<Longrightarrow> schedule_step env l d' d'' \<Longrightarrow> l \<noteq> Some i \<Longrightarrow> limit_kept env i d d''"

section \<open>Writing one schedule\<close>

lemma runs_ok_status:
  assumes "runs_ok b rs s" "sc_run_count s' = sc_run_count s" "sc_max_runs s' = sc_max_runs s"
    "sc_status s' = sc_status s \<or> (sc_status s \<noteq> SCHED_IN_PROGRESS \<and> sc_status s' \<noteq> SCHED_IN_PROGRESS \<and>
       (open_status (sc_status s') \<longrightarrow> open_status (sc_status s)))"
  shows "runs_ok b rs s'"
  using assms unfolding runs_ok_def by auto

lemma runs_of_write [simp]: "runs_of j (write_schedule now i f d) = runs_of j d"
  by (simp add: runs_of_def)

text \<open>The invariant of all schedules but one: what holds between two writes of a transaction.\<close>

definition schedules_ok_but :: "(uuid \<Rightarrow> int) \<Rightarrow> uuid \<Rightarrow> schedule_db \<Rightarrow> bool" where
  "schedules_ok_but base i d \<longleftrightarrow>
     distinct (map sc_id (sd_schedules d)) \<and> distinct (map rn_id (sd_runs d)) \<and>
     rn_schedule_id ` set (sd_runs d) \<subseteq> sc_id ` set (sd_schedules d) \<and>
     (\<forall>s \<in> set (sd_schedules d). sc_id s \<noteq> i \<longrightarrow> runs_ok (base (sc_id s)) (runs_of (sc_id s) d) s)"

lemma schedules_ok_but: "schedules_ok base d \<Longrightarrow> schedules_ok_but base i d"
  by (simp add: schedules_ok_def schedules_ok_but_def)

lemma schedules_ok_write:
  assumes "schedules_ok_but base i d" "\<And>s. sc_id s = i \<Longrightarrow> sc_id (f s) = i"
    and "\<And>s. s \<in> set (sd_schedules d) \<Longrightarrow> sc_id s = i \<Longrightarrow> runs_ok (base i) (runs_of i d) (f s)"
  shows "schedules_ok base (write_schedule now i f d)"
proof -
  have ids: "map sc_id (sd_schedules (write_schedule now i f d)) = map sc_id (sd_schedules d)"
    using assms(2) unfolding write_schedule_def by (auto simp: modify_def)
  then have "sc_id ` set (sd_schedules (write_schedule now i f d)) = sc_id ` set (sd_schedules d)"
    by (metis set_map)
  moreover have "runs_ok (base (sc_id s)) (runs_of (sc_id s) d) s"
    if "s \<in> set (sd_schedules (write_schedule now i f d))" for s
  proof -
    from that obtain r where r: "r \<in> set (sd_schedules d)"
      "(sc_id r = i \<and> s = (f r)\<lparr>sc_modified_at := now\<rparr>) \<or> (sc_id r \<noteq> i \<and> s = r)"
      unfolding in_write_schedule by blast
    show ?thesis
    proof (cases "sc_id r = i")
      case True
      have "runs_ok (base i) (runs_of i d) (f r)" using assms(3) r(1) True by blast
      moreover have "sc_id s = i" "sc_run_count s = sc_run_count (f r)" "sc_max_runs s = sc_max_runs (f r)"
        "sc_status s = sc_status (f r)" using r(2) True assms(2) by auto
      ultimately show ?thesis by (auto intro: runs_ok_status)
    next
      case False
      then show ?thesis using r assms(1) by (auto simp: schedules_ok_but_def)
    qed
  qed
  ultimately show ?thesis using assms(1) ids by (simp add: schedules_ok_def schedules_ok_but_def)
qed

text \<open>The row an operation found is the row its statement writes.\<close>

lemma schedule_unique:
  assumes "schedules_ok base d" "find_schedule q i d = Some s" "r \<in> set (sd_schedules d)" "sc_id r = i"
  shows "r = s"
  using assms find_schedule_Some [OF assms(2)]
  by (auto simp: schedules_ok_def intro: distinct_key_unique)

text \<open>A write that leaves counter and limit and does not reopen, reach or leave a run.\<close>

lemma schedules_ok_write_found:
  assumes "schedules_ok base d" "find_schedule q i d = Some s" "\<And>s. sc_id s = i \<Longrightarrow> sc_id (f s) = i"
    and "sc_run_count (f s) = sc_run_count s" "sc_max_runs (f s) = sc_max_runs s"
    and "sc_status (f s) = sc_status s \<or> (sc_status s \<noteq> SCHED_IN_PROGRESS \<and> sc_status (f s) \<noteq> SCHED_IN_PROGRESS \<and>
         (open_status (sc_status (f s)) \<longrightarrow> open_status (sc_status s)))"
  shows "schedules_ok base (write_schedule now i f d)"
proof (rule schedules_ok_write [OF schedules_ok_but [OF assms(1)] assms(3)])
  fix r assume r: "r \<in> set (sd_schedules d)" "sc_id r = i"
  then have "r = s" by (rule schedule_unique [OF assms(1,2)])
  moreover have "runs_ok (base i) (runs_of i d) r" using assms(1) r unfolding schedules_ok_def by blast
  ultimately show "runs_ok (base i) (runs_of i d) (f r)" using assms(4-6) by (intro runs_ok_status [of _ _ s "f r"]) auto
qed

section \<open>What each operation keeps\<close>

lemma console_writes_ok:
  assumes "schedules_ok base d"
  shows "schedules_ok base (snd (console_cancel_schedule now i caller d))"
    "schedules_ok base (snd (update_schedule_status now i caller st d))"
proof -
  have closing: "schedules_ok base (write_schedule now i (\<lambda>s. s\<lparr>sc_status := st'\<rparr>) d)"
    if "find_schedule live_schedule i d = Some s" "sc_status s \<in> {SCHED_PENDING, SCHED_PAUSED}"
      "st' \<noteq> SCHED_IN_PROGRESS" for s st'
    using that by (intro schedules_ok_write_found [OF assms that(1)]) (auto simp: open_status_def)
  show "schedules_ok base (snd (console_cancel_schedule now i caller d))"
    using assms closing unfolding console_cancel_schedule_def by (auto split: option.split)
  show "schedules_ok base (snd (update_schedule_status now i caller st d))"
    using assms closing unfolding update_schedule_status_def by (auto split: option.split)
qed

lemma cancel_ok:
  assumes "schedules_ok base d"
  shows "schedules_ok base (snd (cancel_agent_schedule_by_id now i_text caller any_owner d))"
proof (cases "parse_uuid i_text")
  case (Inr i)
  let ?q = "\<lambda>s. live_schedule s \<and> sc_status s \<in> {SCHED_PENDING, SCHED_PAUSED} \<and>
    (any_owner \<or> sc_created_by_user s = caller)"
  show ?thesis
  proof (cases "find_schedule ?q i d")
    case None
    then show ?thesis using Inr assms unfolding cancel_agent_schedule_by_id_def by (simp split: option.split)
  next
    case (Some s)
    have "schedules_ok base (write_schedule now i (\<lambda>s. s\<lparr>sc_status := SCHED_CANCELLED\<rparr>) d)"
      using find_schedule_Some [OF Some]
      by (intro schedules_ok_write_found [OF assms Some]) (auto simp: open_status_def)
    then show ?thesis using Inr Some unfolding cancel_agent_schedule_by_id_def by simp
  qed
qed (simp add: cancel_agent_schedule_by_id_def assms)

text \<open>Editing leaves the status and the counter, and the limit unless a new one is given.\<close>

lemma edit_row_keeps:
  assumes "edit_row env now ea d s = Inr s'"
  shows "sc_id s' = sc_id s" "sc_status s' = sc_status s" "sc_run_count s' = sc_run_count s"
    "sc_type s' = sc_type s" "sc_created_by_user s' = sc_created_by_user s" "sc_deleted_at s' = sc_deleted_at s"
    "sc_max_runs s' = given_opt (ea_max_runs ea) (sc_max_runs s)"
proof -
  obtain s1 where s1: "edit_common ea d s = Inr s1"
    and e: "(if sc_type s1 = RECURRING then edit_recurring env now ea s1 else edit_one_time env now ea s1) = Inr s'"
    using assms by (auto simp: edit_row_def sum_bind_Inr)
  have c: "sc_id s1 = sc_id s" "sc_status s1 = sc_status s" "sc_run_count s1 = sc_run_count s"
    "sc_type s1 = sc_type s" "sc_created_by_user s1 = sc_created_by_user s" "sc_deleted_at s1 = sc_deleted_at s"
    "sc_max_runs s1 = sc_max_runs s"
    using s1 by (auto simp: edit_common_def Let_def split: option.splits)
  have "sc_id s' = sc_id s1 \<and> sc_status s' = sc_status s1 \<and> sc_run_count s' = sc_run_count s1 \<and>
      sc_type s' = sc_type s1 \<and> sc_created_by_user s' = sc_created_by_user s1 \<and> sc_deleted_at s' = sc_deleted_at s1 \<and>
      sc_max_runs s' = given_opt (ea_max_runs ea) (sc_max_runs s1)"
  proof (cases "sc_type s1 = RECURRING")
    case True
    then show ?thesis using e
      by (auto simp: edit_recurring_def Let_def sum_bind_Inr split: if_splits)
  next
    case False
    then show ?thesis using e
      by (auto simp: edit_one_time_def Let_def sum_bind_Inr given_opt_def split: if_splits option.splits)
  qed
  with c show "sc_id s' = sc_id s" "sc_status s' = sc_status s" "sc_run_count s' = sc_run_count s"
    "sc_type s' = sc_type s" "sc_created_by_user s' = sc_created_by_user s" "sc_deleted_at s' = sc_deleted_at s"
    "sc_max_runs s' = given_opt (ea_max_runs ea) (sc_max_runs s)" by simp_all
qed

text \<open>Editing is all or nothing: an error leaves the tables, a success writes one live row.\<close>

lemma edit_cases:
  obtains (refused) e where "edit_agent_schedule_fields env now i_text caller ea any_owner d = (Inl e, d)"
  | (edited) i s s' where "parse_uuid i_text = Inr i" "find_schedule live_schedule i d = Some s"
      "any_owner \<or> sc_created_by_user s = caller" "sc_status s \<in> {SCHED_PENDING, SCHED_PAUSED}"
      "edit_row env now ea d s = Inr s'"
      "edit_agent_schedule_fields env now i_text caller ea any_owner d =
         (Inr (edited_response i_text), if nothing_to_edit ea then d else write_schedule now i (\<lambda>_. s') d)"
proof (cases "parse_uuid i_text")
  case (Inl e)
  then show thesis using refused by (simp add: edit_agent_schedule_fields_def)
next
  case (Inr i)
  show thesis
  proof (cases "find_schedule live_schedule i d")
    case None
    then show thesis using refused Inr by (simp add: edit_agent_schedule_fields_def)
  next
    case (Some s)
    show thesis
    proof (cases "(any_owner \<or> sc_created_by_user s = caller) \<and> sc_status s \<in> {SCHED_PENDING, SCHED_PAUSED}")
      case True
      show thesis
      proof (cases "edit_row env now ea d s")
        case (Inl e)
        then show thesis using refused \<open>parse_uuid i_text = Inr i\<close> Some True
          by (auto simp: edit_agent_schedule_fields_def)
      next
        case (Inr s')
        then show thesis using edited [of i s s'] \<open>parse_uuid i_text = Inr i\<close> Some True
          by (auto simp: edit_agent_schedule_fields_def)
      qed
    next
      case False
      then have "(\<not> any_owner \<and> sc_created_by_user s \<noteq> caller) \<or> sc_status s \<notin> {SCHED_PENDING, SCHED_PAUSED}"
        by blast
      then have "\<exists>e. edit_agent_schedule_fields env now i_text caller ea any_owner d = (Inl e, d)"
        using Inr Some unfolding edit_agent_schedule_fields_def
        by (cases "\<not> any_owner \<and> sc_created_by_user s \<noteq> caller") simp_all
      then show thesis using refused by blast
    qed
  qed
qed

text \<open>At any moment the count of runs can start afresh; then every limit is all right.\<close>

lemma schedules_ok_rebase:
  "schedules_ok base d \<Longrightarrow> schedules_ok (base(i := int (length (runs_of i d)))) d"
  by (auto simp: schedules_ok_def runs_ok_def)

lemma edit_ok:
  fixes env now i_text caller ea any_owner d
  assumes ok: "schedules_ok base d"
  defines "d' \<equiv> snd (edit_agent_schedule_fields env now i_text caller ea any_owner d)"
  shows "case edited_limit i_text ea of
      None \<Rightarrow> schedules_ok base d' | Some i \<Rightarrow> schedules_ok (base(i := int (length (runs_of i d)))) d'"
proof (cases rule: edit_cases [of env now i_text caller ea any_owner d])
  case (refused e)
  then show ?thesis using ok by (simp add: d'_def schedules_ok_rebase split: option.split)
next
  case (edited i s s')
  have k: "sc_id s' = i" "sc_status s' = sc_status s" "sc_run_count s' = sc_run_count s"
    "sc_max_runs s' = given_opt (ea_max_runs ea) (sc_max_runs s)"
    using edit_row_keeps [OF edited(5)] find_schedule_Some [OF edited(2)] by simp_all
  have d': "d' = (if nothing_to_edit ea then d else write_schedule now i (\<lambda>_. s') d)"
    unfolding d'_def edited(6) by simp
  show ?thesis
  proof (cases "ea_max_runs ea")
    case None
    have "schedules_ok base (write_schedule now i (\<lambda>_. s') d)"
      by (rule schedules_ok_write_found [OF ok edited(2)]) (simp_all add: k None given_opt_def)
    then show ?thesis using ok None by (simp add: d' edited_limit_def)
  next
    case (Some m)
    let ?base = "base(i := int (length (runs_of i d)))"
    have ok': "schedules_ok ?base d" using ok by (rule schedules_ok_rebase)
    have "schedules_ok ?base (write_schedule now i (\<lambda>_. s') d)"
    proof (rule schedules_ok_write [OF schedules_ok_but [OF ok']])
      show "sc_id r = i \<Longrightarrow> sc_id s' = i" for r by (rule k(1))
      fix r assume r: "r \<in> set (sd_schedules d)" "sc_id r = i"
      then have "r = s" by (rule schedule_unique [OF ok edited(2)])
      moreover have "runs_ok (?base i) (runs_of i d) r" using ok' r by (auto simp: schedules_ok_def)
      ultimately show "runs_ok (?base i) (runs_of i d) s'"
        using k edited(4) by (auto simp: runs_ok_def)
    qed
    then show ?thesis using ok' Some edited(1) by (simp add: d' edited_limit_def)
  qed
qed

subsection \<open>Creation\<close>

lemma created_cases:
  obtains (refused) e where "create_agent_schedule env now i args d = (Inl e, d)"
  | (created) agent where "live_agent_named (sa_agent_name args) d = Some agent"
      "create_agent_schedule env now i args d =
         (Inr (created_response env (sa_agent_name args) (new_schedule now i agent args)),
          d\<lparr>sd_schedules := sd_schedules d @ [new_schedule now i agent args]\<rparr>)"
  by (cases "live_agent_named (sa_agent_name args) d") (simp_all add: create_agent_schedule_def Let_def)

lemma no_runs_of_fresh: "schedules_ok base d \<Longrightarrow> fresh_schedule i d \<Longrightarrow> runs_of i d = []"
  by (auto simp: schedules_ok_def fresh_schedule_def runs_of_def filter_empty_conv)

lemma create_ok:
  assumes ok: "schedules_ok base d" and "fresh_schedule i d" "require_positive (sa_max_runs args) = Inr ()"
  shows "schedules_ok base (snd (create_agent_schedule env now i args d))"
proof (cases rule: created_cases [of env now i args d])
  case (refused e)
  then show ?thesis using ok by simp
next
  case (created agent)
  let ?s = "new_schedule now i agent args" and ?d = "snd (create_agent_schedule env now i args d)"
  have runs: "runs_of j ?d = runs_of j d" for j by (simp add: created runs_of_def)
  have "sc_id ?s = i" by (simp add: new_schedule_def)
  moreover have "runs_ok (base i) [] ?s"
    using assms(3) by (auto simp: runs_ok_def new_schedule_def require_positive_def split: option.splits if_splits)
  ultimately have "runs_ok (base (sc_id ?s)) (runs_of (sc_id ?s) ?d) ?s" using no_runs_of_fresh [OF assms(1,2)] by (simp add: runs)
  moreover have "runs_ok (base (sc_id s)) (runs_of (sc_id s) ?d) s" if "s \<in> set (sd_schedules d)" for s
    using ok that by (simp add: runs schedules_ok_def)
  ultimately have "\<forall>s \<in> set (sd_schedules ?d). runs_ok (base (sc_id s)) (runs_of (sc_id s) ?d) s" by (simp add: created)
  then show ?thesis
    using ok assms(2) \<open>sc_id ?s = i\<close> by (auto simp: schedules_ok_def created fresh_schedule_def)
qed

subsection \<open>Claiming\<close>

lemma runs_of_start [simp]:
  "runs_of j (start_run now k i d) = (if j = i then runs_of i d @ [new_run now k i d] else runs_of j d)"
  by (auto simp: start_run_def runs_of_def new_run_def)

lemma max_of_numbers:
  assumes "map rn_run_number (runs_of i d) = [1..int (length (runs_of i d))]"
  shows "max_run_number i d = int (length (runs_of i d))"
proof -
  let ?n = "length (runs_of i d)"
  have numbers: "rn_run_number ` set (runs_of i d) = {1..int ?n}"
    using arg_cong [OF assms, of set] by simp
  from max_run_number_cases [of d i] show ?thesis
  proof
    assume "\<exists>r \<in> set (sd_runs d). rn_schedule_id r = i \<and> rn_run_number r = max_run_number i d"
    then obtain r where r: "r \<in> set (runs_of i d)" "rn_run_number r = max_run_number i d" by (auto simp: runs_of_def)
    then have "max_run_number i d \<in> rn_run_number ` set (runs_of i d)" by (metis imageI)
    then have le: "1 \<le> max_run_number i d" "max_run_number i d \<le> int ?n" using numbers by auto
    then have "int ?n \<in> rn_run_number ` set (runs_of i d)" unfolding numbers by simp
    then have "int ?n \<le> max_run_number i d" by (auto simp: runs_of_def dest: max_run_number_ge)
    with le show ?thesis by simp
  next
    assume "max_run_number i d = 0 \<and> (\<forall>r \<in> set (sd_runs d). rn_schedule_id r \<noteq> i)"
    then have "max_run_number i d = 0" "runs_of i d = []" by (auto simp: runs_of_def filter_empty_conv)
    then show ?thesis by simp
  qed
qed

lemma start_run_ok:
  assumes ok: "schedules_ok base d" and "fresh_run k d" and f: "find_schedule q i d = Some s" "sc_status s = SCHED_PENDING"
  shows "schedules_ok base (start_run now k i d)"
proof -
  let ?r = "new_run now k i d"
  let ?d = "d\<lparr>sd_runs := sd_runs d @ [?r]\<rparr>"
  have s: "s \<in> set (sd_schedules d)" "sc_id s = i" using find_schedule_Some [OF f(1)] by auto
  have r: "runs_ok (base i) (runs_of i d) s" using ok s by (auto simp: schedules_ok_def)
  then have n: "rn_run_number ?r = int (length (runs_of i d)) + 1"
    using max_of_numbers by (simp add: runs_ok_def new_run_def)
  have "runs_ok (base i) (runs_of i d @ [?r]) (s\<lparr>sc_status := SCHED_IN_PROGRESS, sc_modified_at := now\<rparr>)"
    using r f(2) n upto_rec2 [of 1 "int (length (runs_of i d)) + 1"]
    by (auto simp: runs_ok_def open_status_def new_run_def add.commute)
  moreover have "u = (if u = s\<lparr>sc_status := SCHED_IN_PROGRESS, sc_modified_at := now\<rparr> then u else u)" for u by simp
  have rows: "runs_ok (base (sc_id u)) (runs_of (sc_id u) (start_run now k i d)) u"
    if "u \<in> set (sd_schedules (start_run now k i d))" for u
  proof -
    from that obtain t where t: "t \<in> set (sd_schedules d)"
      "(sc_id t = i \<and> u = t\<lparr>sc_status := SCHED_IN_PROGRESS, sc_modified_at := now\<rparr>) \<or> (sc_id t \<noteq> i \<and> u = t)"
      unfolding start_run_def in_write_schedule by auto
    show ?thesis
    proof (cases "sc_id t = i")
      case True
      then have "t = s" using schedule_unique [OF ok f(1)] t(1) by blast
      then show ?thesis using t(2) True calculation by simp
    next
      case False
      then show ?thesis using t ok by (simp add: schedules_ok_def)
    qed
  qed
  have ids: "map sc_id (sd_schedules (start_run now k i d)) = map sc_id (sd_schedules d)"
    by (simp add: start_run_def write_schedule_def modify_def)
  moreover from this have "sc_id ` set (sd_schedules (start_run now k i d)) = sc_id ` set (sd_schedules d)"
    by (metis set_map)
  moreover have "sd_runs (start_run now k i d) = sd_runs d @ [?r]" by (simp add: start_run_def)
  ultimately show ?thesis using ok rows assms(2) s
    by (auto simp: schedules_ok_def fresh_run_def new_run_def)
qed

lemma claim_cases:
  obtains (none) "find_schedule (\<lambda>s. sc_status s = SCHED_PENDING \<and> \<not> locked (sc_id s)) i d = None"
      "claim_agent_schedule now locked k i d = (None, d)"
  | (claimed) s where "find_schedule (\<lambda>s. sc_status s = SCHED_PENDING \<and> \<not> locked (sc_id s)) i d = Some s"
      "claim_agent_schedule now locked k i d =
         (Some (s\<lparr>sc_status := SCHED_IN_PROGRESS, sc_modified_at := now\<rparr>, new_run now k i d), start_run now k i d)"
  by (cases "find_schedule (\<lambda>s. sc_status s = SCHED_PENDING \<and> \<not> locked (sc_id s)) i d")
    (simp_all add: claim_agent_schedule_def)

lemma claim_ok:
  assumes "schedules_ok base d" "fresh_run k d"
  shows "schedules_ok base (snd (claim_agent_schedule now locked k i d))"
proof (cases rule: claim_cases [of locked i d now k])
  case none
  then show ?thesis using assms(1) by simp
next
  case (claimed s)
  then show ?thesis using start_run_ok [OF assms claimed(1)] find_schedule_Some [OF claimed(1)] by simp
qed

subsection \<open>Completion\<close>

lemma after_run_Inr:
  assumes "after_run env now success session error s = Inr s'"
  shows "sc_id s' = sc_id s" "sc_run_count s' = sc_run_count s + 1" "sc_max_runs s' = sc_max_runs s"
    "sc_status s' \<in> {SCHED_PENDING, SCHED_COMPLETED, SCHED_FAILED}"
    "sc_status s' = SCHED_PENDING \<longleftrightarrow>
       sc_type s = RECURRING \<and> \<not> max_runs_reached (sc_max_runs s) (sc_run_count s + 1)"
  using assms
  by (auto simp: after_run_def Let_def agent_schedule_type.exhaust split: if_splits sum.splits)
    (metis agent_schedule_type.exhaust)+

lemma completion_cases:
  assumes "r \<in> set (sd_runs d)" "distinct (map rn_id (sd_runs d))"
    "find_schedule (\<lambda>_. True) (rn_schedule_id r) d = Some s"
  obtains (raised) e where
      "update_run_completion env now (rn_schedule_id r) (rn_id r) success sid err d = (Inl e, d)"
  | (recorded) session s' where "recorded_session env success sid = Inr session"
      "after_run env now success session err s = Inr s'"
      "update_run_completion env now (rn_schedule_id r) (rn_id r) success sid err d =
         (Inr (), write_schedule now (rn_schedule_id r) (\<lambda>_. s')
            (write_run (rn_id r) (finished_run now success session err) d))"
proof -
  have run: "get_row (\<lambda>u. rn_id u = rn_id r) (sd_runs d) = Some r"
    using get_row_key [OF assms(2,1) refl, of "\<lambda>_. True"] by simp
  show thesis
  proof (cases "recorded_session env success sid")
    case (Inl e)
    then show thesis using raised run assms(3) by (simp add: update_run_completion_def Let_def)
  next
    case session: (Inr session)
    show thesis
    proof (cases "after_run env now success session err s")
      case (Inl e)
      then show thesis using raised run assms(3) session by (simp add: update_run_completion_def Let_def)
    next
      case (Inr s')
      then show thesis using recorded run assms(3) session by (simp add: update_run_completion_def Let_def)
    qed
  qed
qed

lemma runs_of_write_run:
  assumes "\<And>r. rn_schedule_id (f r) = rn_schedule_id r"
  shows "runs_of i (write_run k f d) = modify rn_id k f (runs_of i d)"
proof -
  have "filter (\<lambda>r. rn_schedule_id r = i) (modify rn_id k f rs) =
      modify rn_id k f (filter (\<lambda>r. rn_schedule_id r = i) rs)" for rs
    by (induction rs) (auto simp: assms)
  then show ?thesis by (simp add: runs_of_def write_run_def)
qed

lemma modify_numbers:
  "(\<And>r. rn_run_number (f r) = rn_run_number r) \<Longrightarrow> map rn_run_number (modify rn_id k f rs) = map rn_run_number rs"
  by (induction rs) auto

lemma runs_ok_other_run:
  assumes "runs_ok b rs s" "k \<notin> rn_id ` set rs"
  shows "runs_ok b (modify rn_id k f rs) s"
  using assms by (simp add: modify_absent)

text \<open>Changing runs of one schedule only.\<close>

lemma schedules_ok_but_runs:
  assumes "schedules_ok base d" "map rn_id (sd_runs d') = map rn_id (sd_runs d)"
    "map rn_schedule_id (sd_runs d') = map rn_schedule_id (sd_runs d)"
    "sd_schedules d' = sd_schedules d" "\<And>j. j \<noteq> i \<Longrightarrow> runs_of j d' = runs_of j d"
  shows "schedules_ok_but base i d'"
proof -
  have "rn_schedule_id ` set (sd_runs d') = rn_schedule_id ` set (sd_runs d)"
    using assms(3) by (metis set_map)
  then show ?thesis using assms by (simp add: schedules_ok_def schedules_ok_but_def)
qed

lemma completion_ok:
  assumes ok: "schedules_ok base d" and r: "r \<in> set (sd_runs d)"
  shows "schedules_ok base (snd (update_run_completion env now (rn_schedule_id r) (rn_id r) success sid err d))"
proof -
  have ids: "distinct (map rn_id (sd_runs d))" using ok by (simp add: schedules_ok_def)
  obtain t where "t \<in> set (sd_schedules d)" "sc_id t = rn_schedule_id r"
    using ok r by (auto simp: schedules_ok_def)
  then obtain s where f: "find_schedule (\<lambda>_. True) (rn_schedule_id r) d = Some s"
    by (cases "find_schedule (\<lambda>_. True) (rn_schedule_id r) d") (auto simp: find_schedule_None)
  then have s: "s \<in> set (sd_schedules d)" "sc_id s = rn_schedule_id r" using find_schedule_Some by auto
  show ?thesis
  proof (rule completion_cases [OF r ids f, of env now success sid err])
    fix e
    assume "update_run_completion env now (rn_schedule_id r) (rn_id r) success sid err d = (Inl e, d)"
    then show ?thesis using ok by simp
  next
    fix session s'
    assume recorded: "recorded_session env success sid = Inr session" "after_run env now success session err s = Inr s'"
      "update_run_completion env now (rn_schedule_id r) (rn_id r) success sid err d =
         (Inr (), write_schedule now (rn_schedule_id r) (\<lambda>_. s')
            (write_run (rn_id r) (finished_run now success session err) d))"
    let ?f = "finished_run now success session err" and ?i = "rn_schedule_id r"
    let ?d = "write_run (rn_id r) ?f d"
    have keeps: "rn_id (?f u) = rn_id u" "rn_schedule_id (?f u) = rn_schedule_id u"
      "rn_run_number (?f u) = rn_run_number u" for u by (simp_all add: finished_run_def)
    have runs: "runs_of j ?d = modify rn_id (rn_id r) ?f (runs_of j d)" for j
      by (rule runs_of_write_run) (rule keeps)
    have absent: "rn_id r \<notin> rn_id ` set (runs_of j d)" if "j \<noteq> ?i" for j
    proof
      assume "rn_id r \<in> rn_id ` set (runs_of j d)"
      then obtain u where u: "u \<in> set (sd_runs d)" "rn_schedule_id u = j" "rn_id u = rn_id r"
        by (auto simp: runs_of_def)
      then have "u = r" using distinct_key_unique [OF ids u(1) r] by simp
      with u that show False by simp
    qed
    have "schedules_ok_but base ?i ?d"
    proof (rule schedules_ok_but_runs [OF ok])
      show "map rn_id (sd_runs ?d) = map rn_id (sd_runs d)"
        unfolding write_run_def by (simp add: modify_def keeps)
      show "map rn_schedule_id (sd_runs ?d) = map rn_schedule_id (sd_runs d)"
        unfolding write_run_def by (simp add: modify_def keeps)
      show "runs_of j ?d = runs_of j d" if "j \<noteq> ?i" for j
        using absent [OF that] by (simp add: runs modify_absent)
    qed simp
    moreover note k = after_run_Inr [OF recorded(2)]
    moreover have "runs_ok (base ?i) (runs_of ?i d) s" using ok s by (auto simp: schedules_ok_def)
    then have "runs_ok (base ?i) (runs_of ?i ?d) s'"
      using k unfolding runs runs_ok_def
      by (auto simp: modify_numbers keeps modify_length open_status_def max_runs_reached_def split: if_splits)
    ultimately have "schedules_ok base (write_schedule now ?i (\<lambda>_. s') ?d)"
      using s by (intro schedules_ok_write) auto
    then show ?thesis using recorded(3) by simp
  qed
qed

subsection \<open>Recovery\<close>

lemma runs_of_recover:
  "runs_of j (recover_schedule msg now i d) =
     (if j = i then map (\<lambda>r. if rn_status r = RUN_IN_PROGRESS
        then r\<lparr>rn_status := RUN_FAILED, rn_completed_at := Some now, rn_error := Some msg\<rparr> else r) (runs_of i d)
      else runs_of j d)"
proof -
  let ?f = "\<lambda>r. if orphaned_run i r
      then r\<lparr>rn_status := RUN_FAILED, rn_completed_at := Some now, rn_error := Some msg\<rparr> else r"
  have "filter (\<lambda>r. rn_schedule_id r = j) (map ?f rs) = map ?f (filter (\<lambda>r. rn_schedule_id r = j) rs)" for rs
    by (induction rs) auto
  then have "runs_of j (recover_schedule msg now i d) = map ?f (runs_of j d)"
    by (simp add: runs_of_def recover_schedule_def Let_def)
  also have "\<dots> = (if j = i then map (\<lambda>r. if rn_status r = RUN_IN_PROGRESS
        then r\<lparr>rn_status := RUN_FAILED, rn_completed_at := Some now, rn_error := Some msg\<rparr> else r) (runs_of i d)
      else runs_of j d)"
    by (auto simp: runs_of_def orphaned_run_def intro!: map_idI)
  finally show ?thesis .
qed

lemma recover_schedule_ok:
  assumes ok: "schedules_ok base d"
  shows "schedules_ok base (recover_schedule msg now i d)"
proof -
  let ?f = "\<lambda>r. if orphaned_run i r
      then r\<lparr>rn_status := RUN_FAILED, rn_completed_at := Some now, rn_error := Some msg\<rparr> else r"
  let ?n = "count_rows (orphaned_run i) (sd_runs d)"
  let ?d = "d\<lparr>sd_runs := map ?f (sd_runs d)\<rparr>"
  let ?g = "\<lambda>s. let n = sc_run_count s + int ?n
     in s\<lparr>sc_last_error := Some msg, sc_run_count := n,
          sc_status := (if max_runs_reached (sc_max_runs s) n then SCHED_FAILED else SCHED_PENDING)\<rparr>"
  have runs: "runs_of j ?d = runs_of j (recover_schedule msg now i d)" for j
    by (simp add: recover_schedule_def Let_def)
  have "schedules_ok_but base i ?d"
    by (rule schedules_ok_but_runs [OF ok]) (simp_all add: runs runs_of_recover)
  moreover have "runs_ok (base i) (runs_of i ?d) (?g s)" if "s \<in> set (sd_schedules d)" "sc_id s = i" for s
  proof -
    have old: "runs_ok (base i) (runs_of i d) s" using ok that by (auto simp: schedules_ok_def)
    have "sc_status s = SCHED_IN_PROGRESS \<longrightarrow> 0 < ?n"
      using old count_rows_0 [of "orphaned_run i" "sd_runs d"]
      by (auto simp: runs_ok_def runs_of_def orphaned_run_def)
    moreover have "map rn_run_number (runs_of i ?d) = map rn_run_number (runs_of i d)"
      "length (runs_of i ?d) = length (runs_of i d)"
      by (simp_all add: runs runs_of_recover)
    ultimately show ?thesis using old
      by (auto simp: runs_ok_def Let_def open_status_def max_runs_reached_def split: if_splits option.splits)
  qed
  ultimately have "schedules_ok base (write_schedule now i ?g ?d)"
    by (intro schedules_ok_write) (auto simp: Let_def)
  then show ?thesis by (simp only: recover_schedule_def Let_def)
qed

lemma recover_ok:
  "schedules_ok base d \<Longrightarrow> schedules_ok base (snd (recover_stale_in_progress_schedules msg now timeout locked d))"
proof -
  assume "schedules_ok base d"
  moreover from this have "schedules_ok base (fold (\<lambda>s. recover_schedule msg now (sc_id s)) ss d)"
    for ss :: "agent_schedule list"
    by (induction ss arbitrary: d) (simp_all add: recover_schedule_ok)
  ultimately show ?thesis by (auto simp: recover_stale_in_progress_schedules_def Let_def)
qed

lemma schedule_step_ok:
  "schedule_step env l d d' \<Longrightarrow> schedules_ok base d \<Longrightarrow>
   schedules_ok (case l of None \<Rightarrow> base | Some i \<Rightarrow> base(i := int (length (runs_of i d)))) d'"
proof (induction rule: schedule_step.induct)
  case (trigger k d i s caller now)
  then have "sc_status s = SCHED_PENDING" by (auto simp: triggerable_def split: if_splits)
  with trigger show ?case by (auto intro: start_run_ok)
next
  case (edit i_text ea d now caller any_owner)
  then show ?case using edit_ok [where base = base and d = d and env = env and now = now and caller = caller and any_owner = any_owner and i_text = i_text and ea = ea]
    by (cases "edited_limit i_text ea") (simp_all only: option.case)
qed (simp_all add: create_ok claim_ok completion_ok recover_ok cancel_ok console_writes_ok)

lemma schedules_reachable_ok:
  assumes "schedules_reachable env d"
  obtains base where "schedules_ok base d"
proof -
  from assms have "\<exists>base. schedules_ok base d"
  proof (induction rule: schedules_reachable.induct)
    case (initial d)
    then show ?case by (simp add: schedules_ok_def)
  qed (blast dest: schedule_step_ok)
  then show thesis using that by blast
qed

lemma limit_kept_ok:
  assumes "limit_kept env i d d'" "schedules_ok base d"
  shows "\<exists>base'. schedules_ok base' d' \<and> base' i = base i"
  using assms
proof (induction rule: limit_kept.induct)
  case (step d d' l d'')
  then obtain base' where "schedules_ok base' d'" "base' i = base i" by blast
  then show ?case using schedule_step_ok [OF step.hyps(2)] step.hyps(3)
    by (intro exI [of _ "case l of None \<Rightarrow> base' | Some j \<Rightarrow> base'(j := int (length (runs_of j d')))"])
      (auto split: option.split)
qed blast

end
