(* ===== verification/Scheduler_Loop.thy ===== *)
theory Scheduler_Loop
  imports Scheduler
begin

text \<open>
  The rest of \<open>scheduler.py\<close>: which projects the Linear synchronisation takes, with the time
  stamp parser of \<open>backend/utils/parsing_utils.py\<close>, and what each turn of the background loop
  \<open>run_scheduler\<close> does.
\<close>

section \<open>Projects for the Linear synchronisation\<close>

text \<open>
  \<open>rest\<close> is the text after the first dot: with a run of digits at its start (and no line
  break after it) the run is cut or filled to six digits.
\<close>

definition is_digit :: "char \<Rightarrow> bool" where
  "is_digit c \<longleftrightarrow> 48 \<le> char_code c \<and> char_code c \<le> 57"

definition six_digits :: "string \<Rightarrow> string" where
  "six_digits rest =
     (let digits = takeWhile is_digit rest; suffix = dropWhile is_digit rest
      in if digits = [] \<or> char_of (10 :: nat) \<in> set suffix then rest
         else take 6 (digits @ ''000000'') @ suffix)"

definition normalize_timestamp :: "string \<Rightarrow> string" where
  "normalize_timestamp s =
     (let s1 = (if s \<noteq> [] \<and> last s = CHR ''Z'' then butlast s @ ''+00:00'' else s)
      in if CHR ''.'' \<in> set s1
         then takeWhile (\<lambda>c. c \<noteq> CHR ''.'') s1 @ ''.'' @ six_digits (drop 1 (dropWhile (\<lambda>c. c \<noteq> CHR ''.'') s1))
         else s1)"

definition parse_rfc3339_timestamp :: "(string \<Rightarrow> string + stamp) \<Rightarrow> string \<Rightarrow> int option" where
  "parse_rfc3339_timestamp from_iso value =
     (let normalized = py_strip value
      in if normalized = [] then None
         else (case from_iso (normalize_timestamp normalized) of
                 Inl _ \<Rightarrow> None
               | Inr (Aware t) \<Rightarrow> Some t
               | Inr (Naive t) \<Rightarrow> Some t))"

definition extract_linear_ref :: "py_dict option \<Rightarrow> py_dict option" where
  "extract_linear_ref project_data =
     (case dict_get (or_empty project_data) ''linear_ref'' of
        Some (JObj linear_ref) \<Rightarrow> if dict_flag linear_ref ''linear_project_id'' then Some linear_ref else None
      | _ \<Rightarrow> None)"

text \<open>\<open>linear_ref.get("last_synced_at", "")\<close> given to the parser: false values are
  never synchronised, other values that are no strings have no \<open>strip\<close>.\<close>

definition last_synced :: "(string \<Rightarrow> string + stamp) \<Rightarrow> py_dict \<Rightarrow> py_error + int option" where
  "last_synced from_iso linear_ref =
     (case dict_get linear_ref ''last_synced_at'' of
        None \<Rightarrow> Inr None
      | Some v \<Rightarrow>
          if \<not> json_true v then Inr None
          else (case v of JStr s \<Rightarrow> Inr (parse_rfc3339_timestamp from_iso s) | _ \<Rightarrow> Inl AttributeError))"

definition needs_linear_sync :: "(string \<Rightarrow> string + stamp) \<Rightarrow> db \<Rightarrow> agent_project \<Rightarrow> py_error + (string \<times> json) option" where
  "needs_linear_sync from_iso d project =
     (case extract_linear_ref (p_project_data project) of
        None \<Rightarrow> Inr None
      | Some linear_ref \<Rightarrow>
          sum_bind (last_synced from_iso linear_ref) (\<lambda>synced.
            (let changed = (case synced of
                              None \<Rightarrow> True
                            | Some t \<Rightarrow> 0 < count_rows (\<lambda>u. t_project_id u = p_id project \<and> live_task u \<and>
                                               t < t_modified_at u) (db_tasks d))
             in Inr (if changed
                     then (case dict_get linear_ref ''linear_project_id'' of
                             None \<Rightarrow> None | Some v \<Rightarrow> Some (str_uuid (p_id project), v))
                     else None))))"

definition get_projects_needing_linear_sync ::
  "(string \<Rightarrow> string + stamp) \<Rightarrow> db \<Rightarrow> py_error + (string \<times> json) list" where
  "get_projects_needing_linear_sync from_iso d =
     sum_bind (sum_map (needs_linear_sync from_iso d)
                 (filter (\<lambda>p. p_status p \<in> {PROJECT_ACTIVE, PROJECT_PAUSED} \<and> live_project p) (db_projects d)))
       (\<lambda>found. Inr (List.map_filter id found))"

section \<open>The loop\<close>

datatype scheduler_action =
    PollSchedules
  | PollTasks
  | SyncLinear
  | RecoverSchedules
  | RecoverTasks

record scheduler_config =
  sl_task_executor_enabled :: bool
  sl_linear_sync_enabled :: bool
  sl_linear_sync_interval :: int
  sl_poll_interval :: int

record loop_state =
  ls_poll_count :: nat
  ls_linear_counter :: int

definition linear_sync_polls :: "scheduler_config \<Rightarrow> int" where
  "linear_sync_polls cfg = max 1 (sl_linear_sync_interval cfg div sl_poll_interval cfg)"

definition startup_actions :: "scheduler_config \<Rightarrow> scheduler_action list" where
  "startup_actions cfg = RecoverSchedules # (if sl_task_executor_enabled cfg then [RecoverTasks] else [])"

text \<open>
  One turn. An exception of \<open>poll_and_execute_due_schedules\<close> ends the turn; the other
  actions have handlers of their own, so their failures change nothing here.
\<close>

definition scheduler_turn ::
  "scheduler_config \<Rightarrow> bool \<Rightarrow> loop_state \<Rightarrow> scheduler_action list \<times> loop_state" where
  "scheduler_turn cfg poll_raises st =
     (if poll_raises then ([PollSchedules], st)
      else
        (let counter = ls_linear_counter st + 1;
             sync = sl_linear_sync_enabled cfg \<and> linear_sync_polls cfg \<le> counter;
             polls = ls_poll_count st + 1;
             recover = 60 \<le> polls
         in ([PollSchedules]
             @ (if sl_task_executor_enabled cfg then [PollTasks] else [])
             @ (if sync then [SyncLinear] else [])
             @ (if recover
                then RecoverSchedules # (if sl_task_executor_enabled cfg then [RecoverTasks] else [])
                else []),
             \<lparr>ls_poll_count = (if recover then 0 else polls),
              ls_linear_counter = (if sync then 0 else counter)\<rparr>)))"

fun scheduler_turns ::
  "scheduler_config \<Rightarrow> bool list \<Rightarrow> loop_state \<Rightarrow> scheduler_action list \<times> loop_state" where
  "scheduler_turns cfg [] st = ([], st)"
| "scheduler_turns cfg (b # bs) st =
     (let (as1, st1) = scheduler_turn cfg b st; (as2, st2) = scheduler_turns cfg bs st1 in (as1 @ as2, st2))"

definition run_scheduler :: "scheduler_config \<Rightarrow> bool list \<Rightarrow> scheduler_action list" where
  "run_scheduler cfg polls =
     startup_actions cfg @ fst (scheduler_turns cfg polls \<lparr>ls_poll_count = 0, ls_linear_counter = 0\<rparr>)"

subsection \<open>The counters\<close>

definition occurrences :: "scheduler_action \<Rightarrow> scheduler_action list \<Rightarrow> nat" where
  "occurrences a as = length (filter (\<lambda>b. b = a) as)"

lemma occurrences_append [simp]: "occurrences a (xs @ ys) = occurrences a xs + occurrences a ys"
  by (simp add: occurrences_def)

lemma turns_Cons:
  "scheduler_turn cfg b st = (as1, st1) \<Longrightarrow>
     fst (scheduler_turns cfg (b # bs) st) = as1 @ fst (scheduler_turns cfg bs st1)"
  by (simp split: prod.split)

text \<open>
  After \<open>n\<close> turns whose poll did not raise: the number of recoveries and, with the
  synchronisation enabled, of synchronisations.
\<close>

lemma turns_recover:
  assumes "ls_poll_count st < 60"
  shows "occurrences RecoverSchedules (fst (scheduler_turns cfg bs st)) =
    (ls_poll_count st + length (filter Not bs)) div 60"
  using assms
proof (induction bs arbitrary: st)
  case Nil
  then show ?case by (simp add: occurrences_def)
next
  case (Cons b bs)
  obtain as1 st1 where t: "scheduler_turn cfg b st = (as1, st1)" by (cases "scheduler_turn cfg b st")
  let ?p = "Suc (ls_poll_count st)"
  have st1: "ls_poll_count st1 = (if b then ls_poll_count st else if 60 \<le> ?p then 0 else ?p)"
    and as1: "occurrences RecoverSchedules as1 = (if \<not> b \<and> 60 \<le> ?p then 1 else 0)"
    using t by (auto simp: scheduler_turn_def Let_def occurrences_def split: if_splits)
  have "ls_poll_count st1 < 60" using st1 Cons.prems by auto
  from Cons.IH [OF this] show ?case unfolding turns_Cons [OF t] using st1 as1 Cons.prems by auto
qed

lemma turns_sync:
  assumes "sl_linear_sync_enabled cfg" "0 \<le> ls_linear_counter st" "ls_linear_counter st < linear_sync_polls cfg"
  shows "int (occurrences SyncLinear (fst (scheduler_turns cfg bs st))) =
    (ls_linear_counter st + int (length (filter Not bs))) div linear_sync_polls cfg"
  using assms(2,3)
proof (induction bs arbitrary: st)
  case Nil
  then show ?case by (simp add: occurrences_def)
next
  case (Cons b bs)
  obtain as1 st1 where t: "scheduler_turn cfg b st = (as1, st1)" by (cases "scheduler_turn cfg b st")
  let ?c = "ls_linear_counter st + 1" and ?m = "linear_sync_polls cfg" and ?n = "int (length (filter Not bs))"
  have m: "0 < ?m" by (simp add: linear_sync_polls_def)
  have st1: "ls_linear_counter st1 = (if b then ls_linear_counter st else if ?m \<le> ?c then 0 else ?c)"
    and as1: "occurrences SyncLinear as1 = (if \<not> b \<and> ?m \<le> ?c then 1 else 0)"
    using t assms(1) by (auto simp: scheduler_turn_def Let_def occurrences_def split: if_splits)
  have "0 \<le> ls_linear_counter st1" "ls_linear_counter st1 < ?m" using st1 Cons.prems m by auto
  note IH = Cons.IH [OF this]
  show ?case
  proof (cases "\<not> b \<and> ?m \<le> ?c")
    case True
    then have "?c = ?m" using Cons.prems by simp
    then have "ls_linear_counter st + int (length (filter Not (b # bs))) = ?n + ?m" using True by simp
    then have "(ls_linear_counter st + int (length (filter Not (b # bs)))) div ?m = ?n div ?m + 1"
      using m by simp
    then show ?thesis unfolding turns_Cons [OF t] using IH st1 as1 True by simp
  next
    case False
    then show ?thesis unfolding turns_Cons [OF t] using IH st1 as1 by (auto simp: algebra_simps)
  qed
qed

lemma turns_no_sync:
  assumes "\<not> sl_linear_sync_enabled cfg"
  shows "occurrences SyncLinear (fst (scheduler_turns cfg bs st)) = 0"
proof (induction bs arbitrary: st)
  case Nil
  then show ?case by (simp add: occurrences_def)
next
  case (Cons b bs)
  obtain as1 st1 where t: "scheduler_turn cfg b st = (as1, st1)" by (cases "scheduler_turn cfg b st")
  have "occurrences SyncLinear as1 = 0"
    using t assms by (auto simp: scheduler_turn_def Let_def occurrences_def split: if_splits)
  then show ?case unfolding turns_Cons [OF t] using Cons.IH by simp
qed

end
