(* ===== verification/Schedule_Properties.thy ===== *)
theory Schedule_Properties
  imports Examples Schedule_System Scheduler_Loop
begin

text \<open>
  The properties of agent schedules: the bound on runs, what one execution records, late
  completions, who may change a schedule, and the turns of the scheduler's loop.
\<close>

section \<open>Examples\<close>

text \<open>A cron library that fires every 60 units, and a session service that always succeeds.\<close>

definition ex_env :: schedule_env where
  "ex_env = \<lparr>sv_zone = (\<lambda>_. ZoneFound), sv_to_utc = (\<lambda>_ t. t), sv_cron_error = (\<lambda>_ _ _. None),
     sv_cron_next = (\<lambda>_ _ now. Inr (now + 60)), sv_fromisoformat = (\<lambda>_. Inr (Aware 100)),
     sv_json_loads = (\<lambda>_. Inl ''bad''), sv_lower = id, sv_isoformat = (\<lambda>_. ''t''),
     sv_exn_text = (\<lambda>_. ''error''), sv_create_session = (\<lambda>_. Inr (str_uuid 5))\<rparr>"

definition ex_args :: "int option \<Rightarrow> schedule_args" where
  "ex_args max_runs = \<lparr>sa_agent_name = ''default'', sa_message = ''report'', sa_type = RECURRING,
     sa_context = None, sa_created_by_user = ''alice'', sa_created_by_agent = None, sa_name = None,
     sa_description = None, sa_execute_at = None, sa_cron_expression = Some ''cron'',
     sa_cron_timezone = ''UTC'', sa_next_run = Some 10, sa_max_runs = max_runs\<rparr>"

definition ex_schedule :: "int option \<Rightarrow> agent_schedule" where
  "ex_schedule max_runs = new_schedule 0 1 ex_agent (ex_args max_runs)"

definition ex_sdb :: "int option \<Rightarrow> schedule_db" where
  "ex_sdb max_runs = \<lparr>sd_schedules = [ex_schedule max_runs], sd_runs = [], sd_agents = [ex_agent], sd_users = []\<rparr>"

lemma ex_sdb_reachable:
  assumes "max_runs = None \<or> max_runs = Some 2"
  shows "schedules_reachable ex_env (ex_sdb max_runs)"
proof -
  let ?d = "\<lparr>sd_schedules = [], sd_runs = [], sd_agents = [ex_agent], sd_users = []\<rparr> :: schedule_db"
  have "schedules_reachable ex_env ?d" by (rule schedules_reachable.initial) simp_all
  moreover have "schedule_step ex_env None ?d (snd (create_agent_schedule ex_env 0 1 (ex_args max_runs) ?d))"
    by (rule schedule_step.create) (use assms in \<open>auto simp: fresh_schedule_def ex_args_def require_positive_def\<close>)
  moreover have "snd (create_agent_schedule ex_env 0 1 (ex_args max_runs) ?d) = ex_sdb max_runs"
    by (simp add: create_agent_schedule_def live_agent_named_def ex_args_def ex_agent_def ex_sdb_def
        ex_schedule_def Let_def)
  ultimately show ?thesis by (metis schedules_reachable.step)
qed

section \<open>The bound on runs\<close>

text \<open>
  C16: In every reachable state, whatever crashes, recoveries, manual triggers, repeated and late
  completions and edits (of the limits too) happened, the runs of a schedule are numbered 1, 2, 3 and
  so on without a gap. While the limit \<open>m\<close> of a schedule is not edited, from a state with \<open>n\<close> runs
  on, it never has more runs than the larger of \<open>m\<close> and \<open>n + 1\<close>. So a schedule whose limit was
  never edited, or was edited to a number above its runs, keeps it; one whose limit was lowered
  to the number of its runs or less makes at most one more run.
\<close>

theorem schedule_runs_bounded:
  assumes "schedules_reachable env d" "limit_kept env i d d'" "s \<in> set (sd_schedules d')" "sc_id s = i"
  shows "map rn_run_number (runs_of i d') = [1..int (length (runs_of i d'))] \<and>
    (case sc_max_runs s of None \<Rightarrow> True
     | Some m \<Rightarrow> int (length (runs_of i d')) \<le> max m (int (length (runs_of i d)) + 1))"
proof -
  obtain base where "schedules_ok base d" by (rule schedules_reachable_ok [OF assms(1)])
  then have "schedules_ok (base(i := int (length (runs_of i d)))) d" by (rule schedules_ok_rebase)
  then obtain base' where b: "schedules_ok base' d'" "base' i = int (length (runs_of i d))"
    using limit_kept_ok [OF assms(2)] by fastforce
  then have "runs_ok (base' i) (runs_of i d') s" using assms(3,4) by (auto simp: schedules_ok_def)
  then show ?thesis using b(2) by (auto simp: runs_ok_def split: option.split)
qed

theorem schedule_runs_bounded_witness:
  "let d = snd (claim_agent_schedule 20 (\<lambda>_. False) 3 1 (ex_sdb (Some 2)))
   in map rn_run_number (runs_of 1 d) = [1] \<and> int (length (runs_of 1 d)) \<le> max 2 1"
proof -
  let ?d = "snd (claim_agent_schedule 20 (\<lambda>_. False) 3 1 (ex_sdb (Some 2)))"
  let ?s = "(ex_schedule (Some 2))\<lparr>sc_status := SCHED_IN_PROGRESS, sc_modified_at := 20\<rparr>"
  have "fresh_run 3 (ex_sdb (Some 2))" by (simp add: fresh_run_def ex_sdb_def)
  then have "limit_kept ex_env 1 (ex_sdb (Some 2)) ?d"
    by (blast intro: limit_kept.step limit_kept.unchanged schedule_step.claim)
  moreover have "?s \<in> set (sd_schedules ?d)"
    by (simp add: claim_agent_schedule_def find_schedule_def ex_sdb_def ex_schedule_def new_schedule_def
        start_run_def write_schedule_def)
  moreover have "sc_id ?s = 1" "sc_max_runs ?s = Some 2"
    by (simp_all add: ex_schedule_def new_schedule_def ex_args_def)
  moreover have "schedules_reachable ex_env (ex_sdb (Some 2))" by (rule ex_sdb_reachable) simp
  ultimately have "map rn_run_number (runs_of 1 ?d) = [1..int (length (runs_of 1 ?d))] \<and>
    int (length (runs_of 1 ?d)) \<le> max 2 (int (length (runs_of 1 (ex_sdb (Some 2)))) + 1)"
    using schedule_runs_bounded [of ex_env "ex_sdb (Some 2)" 1 ?d ?s] by simp
  moreover have "length (runs_of 1 ?d) = 1" "length (runs_of 1 (ex_sdb (Some 2))) = 0"
    by (simp_all add: claim_agent_schedule_def find_schedule_def ex_sdb_def ex_schedule_def new_schedule_def
        start_run_def new_run_def runs_of_def)
  ultimately show ?thesis by (simp add: Let_def)
qed

text \<open>
  The further run is real: a claim looks at the status of the schedule, not at its limit.
\<close>

theorem claim_beyond_limit:
  assumes "schedules_reachable env d" "s \<in> set (sd_schedules d)" "sc_id s = i" "sc_status s = SCHED_PENDING"
    "sc_max_runs s = Some m" "m \<le> int (length (runs_of i d))"
  shows "m < int (length (runs_of i (snd (claim_agent_schedule now (\<lambda>_. False) k i d))))"
proof -
  let ?q = "\<lambda>s. sc_status s = SCHED_PENDING \<and> \<not> False"
  have "find_schedule ?q i d \<noteq> None" using assms(2-4) by (auto simp: find_schedule_None)
  then show ?thesis using assms(6) by (auto simp: claim_agent_schedule_def)
qed

section \<open>One execution\<close>

lemma run_claimed_outcome:
  assumes ok: "schedules_ok base d" and r: "run \<in> set (sd_runs d)" "rn_schedule_id run = sc_id s"
    and e: "run_claimed_schedule env tr src now s run d = (res, d')"
  shows "(d' = d \<and> (\<exists>msg. res = Inl msg)) \<or>
    (\<exists>sid err. update_run_completion env now (sc_id s) (rn_id run) (\<not> isl res) sid err d = (Inr (), d'))"
proof (cases "dispatch_run env tr src s d")
  case (Inl msg)
  then have "res = Inl msg" "d' = snd (update_run_completion env now (sc_id s) (rn_id run) False None (Some msg) d)"
    using e by (simp_all add: run_claimed_schedule_def update_run_failure_def)
  moreover obtain x where "update_run_completion env now (sc_id s) (rn_id run) False None (Some msg) d = (x, d')"
    using calculation(2) by (metis prod.collapse)
  moreover have "d' = d" if "isl x"
    using that calculation(3) unfolding update_run_completion_def transact_def by (auto split: sum.splits)
  ultimately show ?thesis by (cases x) auto
next
  case sid: (Inr sid)
  show ?thesis
  proof (cases "update_run_completion env now (sc_id s) (rn_id run) True (Some sid) None d")
    case (Pair x d1)
    show ?thesis
    proof (cases x)
      case (Inr u)
      then have "res = Inr sid" "d' = d1" using e sid Pair
        by (simp_all add: run_claimed_schedule_def update_run_success_def)
      then show ?thesis using Pair Inr by auto
    next
      case (Inl msg)
      then have "d1 = d" using Pair unfolding update_run_completion_def transact_def by (auto split: sum.splits)
      with Inl have "res = Inl msg" "d' = snd (update_run_completion env now (sc_id s) (rn_id run) False None (Some msg) d)"
        using e sid Pair by (simp_all add: run_claimed_schedule_def update_run_success_def update_run_failure_def)
      moreover obtain y where "update_run_completion env now (sc_id s) (rn_id run) False None (Some msg) d = (y, d')"
        using calculation(2) by (metis prod.collapse)
      moreover have "d' = d" if "isl y"
        using that calculation(3) unfolding update_run_completion_def transact_def by (auto split: sum.splits)
      ultimately show ?thesis by (cases y) auto
    qed
  qed
qed

lemma find_schedule_write:
  assumes "\<And>s. sc_id s = i \<Longrightarrow> sc_id (f s) = i"
  shows "find_schedule (\<lambda>_. True) i (write_schedule now i f d) =
    map_option (\<lambda>s. (f s)\<lparr>sc_modified_at := now\<rparr>) (find_schedule (\<lambda>_. True) i d)"
  unfolding find_schedule_def write_schedule_def
  using get_row_modify [of sc_id i "\<lambda>s. (f s)\<lparr>sc_modified_at := now\<rparr>" "sd_schedules d"] assms by simp

lemma after_run_status:
  assumes "after_run env now success session err s = Inr s'"
  shows "sc_status s' =
    (if sc_type s = RECURRING \<and> \<not> max_runs_reached (sc_max_runs s) (sc_run_count s + 1) then SCHED_PENDING
     else if success then SCHED_COMPLETED else SCHED_FAILED)"
  using assms by (cases "sc_type s") (auto simp: after_run_def Let_def split: if_splits sum.splits)

text \<open>
  Executing a schedule. Only a pending schedule that nobody holds is taken; its next run
  gets the next number. Then either the session was created and the run is \<open>COMPLETED\<close>, or it is
  \<open>FAILED\<close>; the run is counted, and the schedule waits for its next time, or ends when it is one-time
  or has reached its limit. Only when the outcome cannot be recorded (the next time cannot be
  computed) do run and schedule stay \<open>IN_PROGRESS\<close>, where the recovery finds them.
\<close>

theorem execute_records_outcome:
  assumes reach: "schedules_reachable env d" and fresh: "fresh_run k d"
    and e: "execute_agent_schedule env now now' locked k i d = (Some r, d')"
  shows "\<exists>s s' run. s \<in> set (sd_schedules d) \<and> sc_id s = i \<and> sc_status s = SCHED_PENDING \<and> \<not> locked i \<and>
    find_schedule (\<lambda>_. True) i d' = Some s' \<and> run \<in> set (sd_runs d') \<and> rn_id run = k \<and>
    rn_run_number run = int (length (runs_of i d)) + 1 \<and>
    ((isl r \<and> rn_status run = RUN_IN_PROGRESS \<and> sc_status s' = SCHED_IN_PROGRESS \<and>
      sc_run_count s' = sc_run_count s) \<or>
     (rn_status run = (if isl r then RUN_FAILED else RUN_COMPLETED) \<and> sc_run_count s' = sc_run_count s + 1 \<and>
      sc_status s' = (if sc_type s = RECURRING \<and> \<not> max_runs_reached (sc_max_runs s) (sc_run_count s + 1)
                      then SCHED_PENDING else if isl r then SCHED_FAILED else SCHED_COMPLETED)))"
proof (cases rule: claim_cases [of locked i d now k])
  case none
  then show ?thesis using e by (simp add: execute_agent_schedule_def)
next
  case (claimed s)
  let ?d1 = "start_run now k i d" and ?run = "new_run now k i d"
    and ?s1 = "s\<lparr>sc_status := SCHED_IN_PROGRESS, sc_modified_at := now\<rparr>"
  obtain base where ok: "schedules_ok base d" by (rule schedules_reachable_ok [OF reach])
  have s: "s \<in> set (sd_schedules d)" "sc_id s = i" "sc_status s = SCHED_PENDING" "\<not> locked i"
    using find_schedule_Some [OF claimed(1)] by auto
  have ok1: "schedules_ok base ?d1" by (rule start_run_ok [OF ok fresh claimed(1)]) (rule s)
  have f1: "find_schedule (\<lambda>_. True) i ?d1 = Some ?s1"
  proof -
    have "find_schedule (\<lambda>_. True) i d \<noteq> None" using s by (auto simp: find_schedule_None)
    then obtain t where t: "find_schedule (\<lambda>_. True) i d = Some t" by blast
    then have "t = s" using schedule_unique [OF ok t s(1,2)] by simp
    moreover have "find_schedule (\<lambda>_. True) i (d\<lparr>sd_runs := rs\<rparr>) = find_schedule (\<lambda>_. True) i d" for rs
      by (simp add: find_schedule_def)
    ultimately show ?thesis using t by (simp add: start_run_def find_schedule_write)
  qed
  have run: "?run \<in> set (sd_runs ?d1)" "rn_id ?run = k" "rn_schedule_id ?run = i" "rn_status ?run = RUN_IN_PROGRESS"
    by (simp_all add: start_run_def new_run_def)
  have "runs_ok (base i) (runs_of i d) s" using ok s by (auto simp: schedules_ok_def)
  then have n: "rn_run_number ?run = int (length (runs_of i d)) + 1"
    using max_of_numbers by (simp add: runs_ok_def new_run_def)
  have "run_claimed_schedule env ''cron'' ''scheduler'' now' ?s1 ?run ?d1 = (r, d')"
    using e claimed(2) by (auto simp: execute_agent_schedule_def split: prod.splits)
  then have outcome: "(d' = ?d1 \<and> (\<exists>msg. r = Inl msg)) \<or>
    (\<exists>sid err. update_run_completion env now' i k (\<not> isl r) sid err ?d1 = (Inr (), d'))"
    using run_claimed_outcome [OF ok1 run(1), of ?s1] s(2) run(2,3) by simp
  then show ?thesis
  proof
    assume "d' = ?d1 \<and> (\<exists>msg. r = Inl msg)"
    then show ?thesis using s f1 run n by (intro exI [of _ s] exI [of _ ?s1] exI [of _ ?run]) auto
  next
    assume "\<exists>sid err. update_run_completion env now' i k (\<not> isl r) sid err ?d1 = (Inr (), d')"
    then obtain sid err where u: "update_run_completion env now' i k (\<not> isl r) sid err ?d1 = (Inr (), d')" by blast
    have ids: "distinct (map rn_id (sd_runs ?d1))" using ok1 by (simp add: schedules_ok_def)
    have f1': "find_schedule (\<lambda>_. True) (rn_schedule_id ?run) ?d1 = Some ?s1" using f1 run(3) by simp
    show ?thesis
    proof (rule completion_cases [OF run(1) ids f1', of env now' "\<not> isl r" sid err])
      fix x
      assume "update_run_completion env now' (rn_schedule_id ?run) (rn_id ?run) (\<not> isl r) sid err ?d1 = (Inl x, ?d1)"
      then show ?thesis using u run by simp
    next
      fix session s'
      assume a: "after_run env now' (\<not> isl r) session err ?s1 = Inr s'"
        and c: "update_run_completion env now' (rn_schedule_id ?run) (rn_id ?run) (\<not> isl r) sid err ?d1 =
          (Inr (), write_schedule now' (rn_schedule_id ?run) (\<lambda>_. s')
            (write_run (rn_id ?run) (finished_run now' (\<not> isl r) session err) ?d1))"
      let ?d2 = "write_run k (finished_run now' (\<not> isl r) session err) ?d1"
      let ?run' = "finished_run now' (\<not> isl r) session err ?run"
      have d': "d' = write_schedule now' i (\<lambda>_. s') ?d2" using u c run by simp
      have id': "sc_id s' = i" using after_run_Inr(1) [OF a] s(2) by simp
      have "find_schedule (\<lambda>_. True) i ?d2 = Some ?s1" using f1 by (simp add: find_schedule_def write_run_def)
      then have f2: "find_schedule (\<lambda>_. True) i d' = Some (s'\<lparr>sc_modified_at := now'\<rparr>)"
        using id' by (simp add: d' find_schedule_write)
      have "?run' \<in> set (sd_runs d')"
        using run(1,2) unfolding d' write_schedule_frame write_run_def by (auto simp: in_modify_iff)
      moreover have "rn_id ?run' = k" "rn_run_number ?run' = rn_run_number ?run"
        "rn_status ?run' = (if isl r then RUN_FAILED else RUN_COMPLETED)"
        using run by (simp_all add: finished_run_def)
      ultimately show ?thesis using s n f2 after_run_status [OF a] after_run_Inr(2) [OF a]
        by (intro exI [of _ s] exI [of _ "s'\<lparr>sc_modified_at := now'\<rparr>"] exI [of _ ?run']) simp
    qed
  qed
qed

theorem execute_records_outcome_witness:
  "let (r, d') = execute_agent_schedule ex_env 20 25 (\<lambda>_. False) 3 1 (ex_sdb (Some 2))
   in r = Some (Inr (str_uuid 5)) \<and>
      (\<exists>s' run. find_schedule (\<lambda>_. True) 1 d' = Some s' \<and> run \<in> set (sd_runs d') \<and> rn_id run = 3 \<and>
        rn_run_number run = 1 \<and> rn_status run = RUN_COMPLETED \<and> sc_run_count s' = 1)"
proof -
  let ?e = "execute_agent_schedule ex_env 20 25 (\<lambda>_. False) 3 1 (ex_sdb (Some 2))"
  have fresh: "fresh_run 3 (ex_sdb (Some 2))" by (simp add: fresh_run_def ex_sdb_def)
  have "fst ?e = Some (Inr (str_uuid 5))" by code_simp
  then have e: "?e = (Some (Inr (str_uuid 5)), snd ?e)" by (metis prod.collapse)
  have "runs_of 1 (ex_sdb (Some 2)) = []" by (simp add: runs_of_def ex_sdb_def)
  moreover have "sc_run_count s = 0" if "s \<in> set (sd_schedules (ex_sdb (Some 2)))" for s
    using that by (simp add: ex_sdb_def ex_schedule_def new_schedule_def)
  ultimately show ?thesis using execute_records_outcome [OF ex_sdb_reachable fresh e] e by (auto simp: Let_def)
qed

section \<open>Late completions\<close>

text \<open>
  The completion of a run does not look at the status of its schedule. A run that the recovery has
  already failed may complete later; a recurring schedule that its creator has cancelled in between is
  pending again afterwards, with a next time.
\<close>

theorem late_completion_revives_cancelled:
  assumes "schedules_reachable env d" "r \<in> set (sd_runs d)"
    "find_schedule (\<lambda>_. True) (rn_schedule_id r) d = Some s" "sc_status s = SCHED_CANCELLED"
    "sc_type s = RECURRING" "sc_max_runs s = None"
    "compute_next_run_for_cron env (sc_cron_expression s) (sc_cron_timezone s) now = Inr t"
  shows "\<exists>s' d'. update_run_failure env now (rn_schedule_id r) (rn_id r) msg d = (Inr (), d') \<and>
    find_schedule (\<lambda>_. True) (rn_schedule_id r) d' = Some s' \<and> sc_status s' = SCHED_PENDING \<and>
    sc_next_run_at s' = Some t"
proof -
  obtain base where ok: "schedules_ok base d" by (rule schedules_reachable_ok [OF assms(1)])
  then have ids: "distinct (map rn_id (sd_runs d))" by (simp add: schedules_ok_def)
  let ?i = "rn_schedule_id r"
  obtain s' where s': "after_run env now False None (Some msg) s = Inr s'" "sc_status s' = SCHED_PENDING"
    "sc_next_run_at s' = Some t" "sc_id s' = ?i"
    using assms(5-7) find_schedule_Some [OF assms(3)]
    by (auto simp: after_run_def Let_def max_runs_reached_def)
  have rec: "recorded_session env False None = Inr None" by (simp add: recorded_session_def)
  let ?d' = "write_schedule now ?i (\<lambda>_. s') (write_run (rn_id r) (finished_run now False None (Some msg)) d)"
  have "get_row (\<lambda>u. rn_id u = rn_id r) (sd_runs d) = Some r"
    using get_row_key [OF ids assms(2) refl, of "\<lambda>_. True"] by simp
  then have "update_run_failure env now ?i (rn_id r) msg d = (Inr (), ?d')"
    using assms(3) s'(1) rec by (simp add: update_run_failure_def update_run_completion_def Let_def)
  moreover have "find_schedule (\<lambda>_. True) ?i (write_run (rn_id r) (finished_run now False None (Some msg)) d) = Some s"
    using assms(3) by (simp add: find_schedule_def write_run_def)
  then have "find_schedule (\<lambda>_. True) ?i ?d' = Some (s'\<lparr>sc_modified_at := now\<rparr>)"
    using s'(4) by (simp add: find_schedule_write)
  ultimately show ?thesis using s' by (intro exI [of _ "s'\<lparr>sc_modified_at := now\<rparr>"] exI [of _ ?d']) simp
qed

text \<open>Claimed, recovered as stale, cancelled by its creator; then the run fails late.\<close>

definition ex_cancelled :: schedule_db where
  "ex_cancelled =
     (let d1 = snd (claim_agent_schedule 20 (\<lambda>_. False) 3 1 (ex_sdb None));
          d2 = snd (recover_stale_in_progress_schedules ''stale'' 10000000000 30 (\<lambda>_. False) d1)
      in snd (cancel_agent_schedule_by_id 10000000001 (str_uuid 1) ''alice'' False d2))"

lemma ex_cancelled:
  "schedules_reachable ex_env ex_cancelled"
  "map sc_status (sd_schedules ex_cancelled) = [SCHED_CANCELLED]"
  "map sc_id (sd_schedules ex_cancelled) = [1]" "map sc_type (sd_schedules ex_cancelled) = [RECURRING]"
  "map sc_max_runs (sd_schedules ex_cancelled) = [None]"
  "map (\<lambda>r. (rn_id r, rn_schedule_id r)) (sd_runs ex_cancelled) = [(3, 1)]"
proof -
  have "fresh_run 3 (ex_sdb None)" by (simp add: fresh_run_def ex_sdb_def)
  then show "schedules_reachable ex_env ex_cancelled"
    unfolding ex_cancelled_def Let_def
    by (intro schedules_reachable.step [OF _ schedule_step.cancel] schedules_reachable.step [OF _ schedule_step.recover]
        schedules_reachable.step [OF _ schedule_step.claim] ex_sdb_reachable) simp_all
qed code_simp+

theorem late_completion_revives_cancelled_witness:
  "map sc_status (sd_schedules ex_cancelled) = [SCHED_CANCELLED] \<and>
   (\<exists>s' d'. update_run_failure ex_env 10000000002 1 3 ''late'' ex_cancelled = (Inr (), d') \<and>
      find_schedule (\<lambda>_. True) 1 d' = Some s' \<and> sc_status s' = SCHED_PENDING)"
proof -
  obtain s where s: "sd_schedules ex_cancelled = [s]" "sc_status s = SCHED_CANCELLED" "sc_id s = 1"
    "sc_type s = RECURRING" "sc_max_runs s = None"
    using ex_cancelled(2-5) by (auto simp: map_eq_Cons_conv)
  obtain r where r: "sd_runs ex_cancelled = [r]" "rn_id r = 3" "rn_schedule_id r = 1"
    using ex_cancelled(6) by (auto simp: map_eq_Cons_conv)
  have "find_schedule (\<lambda>_. True) (rn_schedule_id r) ex_cancelled = Some s"
    using s r by (simp add: find_schedule_def)
  moreover have "compute_next_run_for_cron ex_env (sc_cron_expression s) (sc_cron_timezone s) 10000000002 = Inr 10000000062"
    by (simp add: compute_next_run_for_cron_def ex_env_def)
  moreover have "r \<in> set (sd_runs ex_cancelled)" using r(1) by simp
  ultimately show ?thesis
    using late_completion_revives_cancelled [OF ex_cancelled(1), of r s 10000000002 10000000062 "''late''"]
      s r ex_cancelled(2) by auto
qed

section \<open>Who may change a schedule\<close>

text \<open>
  C17: A caller who did not create a live schedule cannot cancel, edit, trigger, pause or resume it without
  the permission for all schedules: every operation leaves the tables as they are, and the shared
  helpers say why.
\<close>

theorem schedule_owner_only:
  assumes "parse_uuid text = Inr i" "find_schedule live_schedule i d = Some s" "sc_created_by_user s \<noteq> caller"
    "distinct (map sc_id (sd_schedules d))"
  shows "cancel_agent_schedule_by_id now text caller False d = (Inl NotScheduleOwner, d) \<and>
    edit_agent_schedule_fields env now text caller ea False d = (Inl NotScheduleOwner, d) \<and>
    trigger_agent_schedule_now env now now' locked k text caller d =
      (Inl (if locked i then ScheduleLocked else NotScheduleOwner), d) \<and>
    snd (console_cancel_schedule now i caller d) = d \<and> snd (update_schedule_status now i caller st d) = d"
proof (intro conjI)
  have s: "s \<in> set (sd_schedules d)" "sc_id s = i" using find_schedule_Some [OF assms(2)] by auto
  have "find_schedule (\<lambda>s. live_schedule s \<and> sc_status s \<in> {SCHED_PENDING, SCHED_PAUSED} \<and>
      (False \<or> sc_created_by_user s = caller)) i d = None"
    unfolding find_schedule_None
  proof (intro ballI impI)
    fix r assume "r \<in> set (sd_schedules d)" "sc_id r = i"
    then have "r = s" using distinct_key_unique [OF assms(4)] s by blast
    then show "\<not> (live_schedule r \<and> sc_status r \<in> {SCHED_PENDING, SCHED_PAUSED} \<and>
        (False \<or> sc_created_by_user r = caller))" using assms(3) by simp
  qed
  then show "cancel_agent_schedule_by_id now text caller False d = (Inl NotScheduleOwner, d)"
    using assms(1-3) unfolding cancel_agent_schedule_by_id_def by simp
  show "edit_agent_schedule_fields env now text caller ea False d = (Inl NotScheduleOwner, d)"
    using assms(1-3) unfolding edit_agent_schedule_fields_def by simp
  show "trigger_agent_schedule_now env now now' locked k text caller d =
      (Inl (if locked i then ScheduleLocked else NotScheduleOwner), d)"
    using assms(1-3) unfolding trigger_agent_schedule_now_def triggerable_def by simp
  show "snd (console_cancel_schedule now i caller d) = d"
    using assms(2,3) unfolding console_cancel_schedule_def by simp
  show "snd (update_schedule_status now i caller st d) = d"
    using assms(2,3) unfolding update_schedule_status_def by simp
qed

theorem schedule_owner_only_witness:
  "cancel_agent_schedule_by_id 20 (str_uuid 1) ''mallory'' False (ex_sdb None) = (Inl NotScheduleOwner, ex_sdb None)"
proof -
  have f: "find_schedule live_schedule 1 (ex_sdb None) = Some (ex_schedule None)"
    by (simp add: find_schedule_def ex_sdb_def ex_schedule_def new_schedule_def)
  have "sc_created_by_user (ex_schedule None) \<noteq> ''mallory''"
    by (simp add: ex_schedule_def new_schedule_def ex_args_def)
  moreover have "distinct (map sc_id (sd_schedules (ex_sdb None)))" by (simp add: ex_sdb_def)
  ultimately show ?thesis using schedule_owner_only [OF parse_str_uuid f] by simp
qed

section \<open>The loop\<close>

text \<open>
  Over any number of turns, the scheduler recovers stale schedules once at start-up and then once
  in every 60 turns whose poll did not raise, and starts a synchronisation with Linear, when enabled, once
  in every \<open>linear_sync_polls\<close> such turns. (A turn whose poll raises counts for neither.)
\<close>

theorem scheduler_loop_counts:
  "let polls = length (filter Not raised); actions = run_scheduler cfg raised
   in occurrences RecoverSchedules actions = 1 + polls div 60 \<and>
      occurrences SyncLinear actions =
        (if sl_linear_sync_enabled cfg then polls div nat (linear_sync_polls cfg) else 0)"
proof -
  let ?st = "\<lparr>ls_poll_count = 0, ls_linear_counter = 0\<rparr>" and ?n = "length (filter Not raised)"
  let ?as = "fst (scheduler_turns cfg raised ?st)"
  have m: "0 < linear_sync_polls cfg" by (simp add: linear_sync_polls_def)
  have start: "occurrences RecoverSchedules (startup_actions cfg) = 1" "occurrences SyncLinear (startup_actions cfg) = 0"
    by (simp_all add: startup_actions_def occurrences_def)
  have "occurrences RecoverSchedules ?as = ?n div 60" using turns_recover [of ?st cfg raised] by simp
  moreover have "occurrences SyncLinear ?as =
      (if sl_linear_sync_enabled cfg then ?n div nat (linear_sync_polls cfg) else 0)"
  proof (cases "sl_linear_sync_enabled cfg")
    case True
    have "int (occurrences SyncLinear ?as) = int ?n div linear_sync_polls cfg"
      using turns_sync [OF True, of ?st raised] m by simp
    also have "\<dots> = int (?n div nat (linear_sync_polls cfg))" using m by (simp add: zdiv_int)
    finally show ?thesis using True by simp
  next
    case False
    then have "occurrences SyncLinear ?as = 0" by (rule turns_no_sync)
    then show ?thesis using False by simp
  qed
  ultimately show ?thesis using start by (simp add: run_scheduler_def Let_def)
qed

end
