(* ===== verification/Slack_Buffer.thy ===== *)
theory Slack_Buffer
  imports Py_Runtime
begin

text \<open>
  The append buffer of the Slack agent gateway (\<open>slack_agent_gateway/buffer.py\<close> with
  \<open>add_reply\<close> and \<open>update_reply\<close> of \<open>callbacks.py\<close>), for one session. A text is the list of
  its code points, since the limits of Slack count UTF-16 code units. Slack's answers are
  arguments; \<open>ss_log\<close> lists what it accepted: the message and its new text.
\<close>

section \<open>Texts\<close>

type_synonym code_text = "nat list"

definition slack_units :: "nat \<Rightarrow> nat" where
  "slack_units c = (if 65535 < c then 2 else 1)"

definition slack_len :: "code_text \<Rightarrow> nat" where
  "slack_len s = sum_list (map slack_units s)"

text \<open>The loop of \<open>_find_slack_truncation_point\<close>, from index \<open>i\<close> with \<open>count\<close> units so far.\<close>

fun truncation_loop :: "nat \<Rightarrow> nat \<Rightarrow> nat \<Rightarrow> code_text \<Rightarrow> nat" where
  "truncation_loop limit i count [] = i"
| "truncation_loop limit i count (c # cs) =
     (if limit < count + slack_units c then i
      else truncation_loop limit (Suc i) (count + slack_units c) cs)"

definition find_slack_truncation_point :: "code_text \<Rightarrow> nat \<Rightarrow> nat" where
  "find_slack_truncation_point s limit = truncation_loop limit 0 0 s"

text \<open>The code points that \<open>str.isspace\<close> accepts, which \<open>lstrip\<close> removes.\<close>

definition space_point :: "nat \<Rightarrow> bool" where
  "space_point c \<longleftrightarrow>
     9 \<le> c \<and> c \<le> 13 \<or> 28 \<le> c \<and> c \<le> 32 \<or> c = 133 \<or> c = 160 \<or> c = 5760 \<or>
     8192 \<le> c \<and> c \<le> 8202 \<or> c = 8232 \<or> c = 8233 \<or> c = 8239 \<or> c = 8287 \<or> c = 12288"

definition lstrip :: "code_text \<Rightarrow> code_text" where
  "lstrip s = dropWhile space_point s"

text \<open>\<open>s.rfind(c, 0, end)\<close>: the last index of \<open>c\<close> before \<open>end\<close>, or -1.\<close>

fun last_index :: "nat \<Rightarrow> int \<Rightarrow> int \<Rightarrow> code_text \<Rightarrow> int" where
  "last_index c i best [] = best"
| "last_index c i best (x # xs) = last_index c (i + 1) (if x = c then i else best) xs"

definition rfind :: "nat \<Rightarrow> nat \<Rightarrow> code_text \<Rightarrow> int" where
  "rfind c stop s = last_index c 0 (- 1) (take stop s)"

text \<open>
  Where a text that is too long is cut: at the last line break, else the last blank, if it lies in the
  second half of what fits, else where it stops to fit. The blanks after the cut are dropped.
\<close>

definition truncate_at :: "nat \<Rightarrow> code_text \<Rightarrow> nat" where
  "truncate_at limit s =
     (let safe_cutoff = find_slack_truncation_point s limit;
          last_newline = rfind 10 safe_cutoff s;
          last_space = rfind 32 safe_cutoff s
      in if int (safe_cutoff div 2) < last_newline then nat last_newline
         else if int (safe_cutoff div 2) < last_space then nat last_space
         else safe_cutoff)"

definition next_chunk :: "nat \<Rightarrow> code_text \<Rightarrow> code_text \<times> code_text" where
  "next_chunk limit s =
     (if slack_len s \<le> limit then (s, [])
      else (take (truncate_at limit s) s, lstrip (drop (truncate_at limit s) s)))"

section \<open>The session\<close>

text \<open>
  \<open>ss_exists\<close>: the session is in Redis; \<open>ss_app_known\<close>: its app has a configuration;
  \<open>ss_flush_at\<close>: its entry in the flush schedule.
\<close>

record slack_state =
  ss_exists :: bool
  ss_app_known :: bool
  ss_placeholder :: "string option"
  ss_last_ts :: "string option"
  ss_last_content :: code_text
  ss_last_type :: "string option"
  ss_buffer :: code_text
  ss_buffer_type :: "string option"
  ss_flush_at :: "rat option"
  ss_log :: "(string \<times> code_text) list"

text \<open>
  How a call of Slack ends: with an answer, with a \<open>SlackApiError\<close>, or with another exception
  (the network, a timeout). Slack's answers to one \<open>add_reply\<close>: to the update of a placeholder and
  to a new message, with the time stamp it reports.
\<close>

datatype call_result = CallOk | CallApiError | CallRaises

record slack_answer =
  an_update :: call_result
  an_post :: call_result
  an_post_ts :: "string option"

datatype reply_outcome = ReplyPosted | ReplyRefused | ReplyRaised

datatype update_answer = UpdateOk | UpdateLimited rat | UpdateFailed

definition text_or_none :: "string option \<Rightarrow> string option" where
  "text_or_none s = (case s of Some [] \<Rightarrow> None | _ \<Rightarrow> s)"

definition record_reply :: "string \<Rightarrow> code_text \<Rightarrow> string option \<Rightarrow> slack_state \<Rightarrow> slack_state" where
  "record_reply ts content reply_type st =
     st\<lparr>ss_last_ts := Some ts, ss_last_content := content, ss_last_type := reply_type\<rparr>"

text \<open>A message accepted by Slack and recorded in the session.\<close>

definition deliver :: "string \<Rightarrow> code_text \<Rightarrow> string option \<Rightarrow> slack_state \<Rightarrow> slack_state" where
  "deliver ts content reply_type st =
     record_reply ts content reply_type (st\<lparr>ss_log := ss_log st @ [(ts, content)]\<rparr>)"

definition post_message ::
  "slack_answer \<Rightarrow> code_text \<Rightarrow> string option \<Rightarrow> slack_state \<Rightarrow> reply_outcome \<times> slack_state" where
  "post_message answer content reply_type st =
     (case an_post answer of
        CallRaises \<Rightarrow> (ReplyRaised, st)
      | CallApiError \<Rightarrow> (ReplyRefused, st)
      | CallOk \<Rightarrow>
          (case text_or_none (an_post_ts answer) of
             None \<Rightarrow> (ReplyRefused, st)
           | Some ts \<Rightarrow> (ReplyPosted, deliver ts content reply_type st)))"

text \<open>The placeholder is cleared in a \<open>finally\<close>; only a \<open>SlackApiError\<close> becomes a refusal.\<close>

definition add_reply ::
  "slack_answer \<Rightarrow> code_text \<Rightarrow> string option \<Rightarrow> slack_state \<Rightarrow> reply_outcome \<times> slack_state" where
  "add_reply answer content reply_type st =
     (if \<not> ss_exists st \<or> \<not> ss_app_known st then (ReplyRefused, st)
      else
        (case text_or_none (ss_placeholder st) of
           None \<Rightarrow> post_message answer content reply_type st
         | Some p \<Rightarrow>
             (let st1 = st\<lparr>ss_placeholder := None\<rparr>
              in case an_update answer of
                   CallOk \<Rightarrow> (ReplyPosted, deliver p content reply_type st1)
                 | CallApiError \<Rightarrow> post_message answer content reply_type st1
                 | CallRaises \<Rightarrow> (ReplyRaised, st1))))"

definition append_to_buffer :: "code_text \<Rightarrow> slack_state \<Rightarrow> slack_state" where
  "append_to_buffer t st = st\<lparr>ss_buffer := ss_buffer st @ t\<rparr>"

definition discard_buffer :: "slack_state \<Rightarrow> code_text \<times> slack_state" where
  "discard_buffer st = (ss_buffer st, st\<lparr>ss_buffer := [], ss_buffer_type := None, ss_flush_at := None\<rparr>)"

section \<open>Flushing\<close>

text \<open>
  The overflow loop: each chunk becomes a message of its own; when one is refused, it and what
  remains are to be buffered again; an exception leaves the loop. The loop would not end if a
  chunk were empty, so its value is optional.
\<close>

datatype overflow_result = AllPosted | ChunkRefused code_text | LoopRaised

partial_function (option) overflow_loop ::
  "nat \<Rightarrow> (nat \<Rightarrow> slack_answer) \<Rightarrow> string option \<Rightarrow> nat \<Rightarrow> code_text \<Rightarrow> slack_state \<Rightarrow>
     (overflow_result \<times> slack_state) option" where
  "overflow_loop limit answers reply_type k remaining st =
     (if remaining = [] then Some (AllPosted, st)
      else
        (let (chunk, rest) = next_chunk limit remaining;
             (outcome, st1) = add_reply (answers k) chunk reply_type st
         in if outcome = ReplyPosted then overflow_loop limit answers reply_type (Suc k) rest st1
            else Some
              (if outcome = ReplyRaised then LoopRaised
               else ChunkRefused (chunk @ (if rest = [] then [] else [10, 10] @ rest)), st1)))"

text \<open>
  What other requests of the session do while one waits: they append (the text, its type and the
  flush it is scheduled for), or they are flushes that find nothing in the buffer and drop its
  entry in the schedule.
\<close>

datatype meanwhile = Arrives code_text "string option" rat | Sweeps

definition drop_schedule :: "slack_state \<Rightarrow> slack_state" where
  "drop_schedule st = st\<lparr>ss_flush_at := None, ss_buffer_type := None\<rparr>"

fun happen :: "meanwhile list \<Rightarrow> slack_state \<Rightarrow> slack_state" where
  "happen [] st = st"
| "happen (Arrives t ty due # es) st =
     happen es ((append_to_buffer t st)\<lparr>ss_buffer_type := ty, ss_flush_at := Some due\<rparr>)"
| "happen (Sweeps # es) st = happen es (if ss_buffer st = [] then drop_schedule st else st)"

text \<open>
  The look at the buffer and the removal of the entry are two calls of Redis; \<open>gap\<close> is what
  happens between them.
\<close>

definition clear_if_empty :: "meanwhile list \<Rightarrow> slack_state \<Rightarrow> slack_state" where
  "clear_if_empty gap st = (if ss_buffer st = [] then drop_schedule (happen gap st) else st)"

text \<open>
  The surroundings of a flush: what happens while it waits for Slack (\<open>fw_meanwhile\<close>) and in the
  gap above, and the answers to the update and to the overflow messages.
\<close>

record flush_world =
  fw_limit :: nat
  fw_now :: rat
  fw_meanwhile :: "meanwhile list"
  fw_gap :: "meanwhile list"
  fw_update :: update_answer
  fw_answers :: "nat \<Rightarrow> slack_answer"

definition flush_buffer :: "flush_world \<Rightarrow> slack_state \<Rightarrow> (bool \<times> slack_state) option" where
  "flush_buffer w st =
     (if \<not> ss_exists st then Some (False, st\<lparr>ss_flush_at := None\<rparr>)
      else
        (case text_or_none (ss_last_ts st) of
           None \<Rightarrow> Some (False, st\<lparr>ss_flush_at := None\<rparr>)
         | Some ts \<Rightarrow>
             if ss_buffer st = [] then Some (True, clear_if_empty (fw_gap w) st)
             else if \<not> ss_app_known st then Some (False, st)
             else
               (let buffer_type = ss_buffer_type st;
                    buffer_content = ss_buffer st;
                    st1 = happen (fw_meanwhile w) (st\<lparr>ss_buffer := []\<rparr>);
                    (new_content, overflow_content) = next_chunk (fw_limit w) (ss_last_content st @ buffer_content)
                in case fw_update w of
                     UpdateLimited retry_after \<Rightarrow>
                       Some (False, (append_to_buffer buffer_content st1)
                                      \<lparr>ss_flush_at := Some (fw_now w + retry_after + 1 / 10)\<rparr>)
                   | UpdateFailed \<Rightarrow> Some (False, append_to_buffer buffer_content st1)
                   | UpdateOk \<Rightarrow>
                       (case overflow_loop (fw_limit w) (fw_answers w) buffer_type 0 overflow_content
                               (deliver ts new_content buffer_type st1) of
                          None \<Rightarrow> None
                        | Some (AllPosted, st2) \<Rightarrow> Some (True, clear_if_empty (fw_gap w) st2)
                        | Some (ChunkRefused failed_content, st2) \<Rightarrow>
                            Some (False, clear_if_empty (fw_gap w) (append_to_buffer failed_content st2))
                        | Some (LoopRaised, st2) \<Rightarrow>
                            Some (False, append_to_buffer buffer_content st2)))))"

section \<open>Appending\<close>

text \<open>The byte length of the buffer, which \<open>STRLEN\<close> and \<open>APPEND\<close> report.\<close>

definition utf8_bytes :: "nat \<Rightarrow> nat" where
  "utf8_bytes c = (if c < 128 then 1 else if c < 2048 then 2 else if c < 65536 then 3 else 4)"

definition buffer_size :: "slack_state \<Rightarrow> nat" where
  "buffer_size st = sum_list (map utf8_bytes (ss_buffer st))"

datatype append_outcome =
    AppendRefused
  | AppendPosted bool
  | AppendBuffered
  | AppendFlushed bool
  | AppendRaised

record append_world =
  aw_max_buffer :: nat
  aw_interval :: rat
  aw_flush :: flush_world
  aw_rescue :: slack_answer
  aw_post :: slack_answer

text \<open>
  A change of type first flushes; if that fails the buffered text is rescued as a message of its own,
  and the new text is posted in any case, unless the rescue raises.
\<close>

definition rescue_buffer ::
  "slack_answer \<Rightarrow> string option \<Rightarrow> slack_state \<Rightarrow> reply_outcome option \<times> slack_state" where
  "rescue_buffer answer current_type st =
     (let (rescued, st1) = discard_buffer st
      in if rescued = [] then (None, st1)
         else (let (outcome, st2) = add_reply answer rescued current_type st1 in (Some outcome, st2)))"

definition post_new_type ::
  "slack_answer \<Rightarrow> code_text \<Rightarrow> string option \<Rightarrow> slack_state \<Rightarrow> append_outcome \<times> slack_state" where
  "post_new_type answer content incoming_type st =
     (let (outcome, st1) = add_reply answer content incoming_type st
      in (if outcome = ReplyRaised then AppendRaised else AppendPosted (outcome = ReplyPosted), st1))"

definition append_to_reply ::
  "append_world \<Rightarrow> code_text \<Rightarrow> string option \<Rightarrow> slack_state \<Rightarrow> (append_outcome \<times> slack_state) option" where
  "append_to_reply w content incoming_type st =
     (if \<not> ss_exists st \<or> text_or_none (ss_last_ts st) = None then Some (AppendRefused, st)
      else
        (let current_type = (if 0 < buffer_size st then ss_buffer_type st else ss_last_type st)
         in if current_type \<noteq> incoming_type
            then (case flush_buffer (aw_flush w) st of
                    None \<Rightarrow> None
                  | Some (flushed, st1) \<Rightarrow>
                      (let (rescue, st2) = (if flushed then (None, st1) else rescue_buffer (aw_rescue w) current_type st1)
                       in if rescue = Some ReplyRaised then Some (AppendRaised, st2)
                          else Some (post_new_type (aw_post w) content incoming_type st2)))
            else
              (let st1 = (append_to_buffer content st)\<lparr>ss_buffer_type := incoming_type,
                            ss_flush_at := Some (fw_now (aw_flush w) + aw_interval w)\<rparr>
               in if aw_max_buffer w \<le> buffer_size st1
                  then map_option (\<lambda>(flushed, st2). (AppendFlushed flushed, st2)) (flush_buffer (aw_flush w) st1)
                  else Some (AppendBuffered, st1))))"

definition update_reply :: "bool \<Rightarrow> code_text \<Rightarrow> slack_state \<Rightarrow> bool \<times> slack_state" where
  "update_reply update_ok content st =
     (if \<not> ss_exists st then (False, st)
      else
        (case text_or_none (ss_last_ts st) of
           None \<Rightarrow> (False, st)
         | Some ts \<Rightarrow>
             if \<not> ss_app_known st then (False, st)
             else
               (let st1 = snd (discard_buffer st)
                in if update_ok then (True, deliver ts content None st1) else (False, st1))))"

section \<open>Cutting\<close>

lemma slack_len_append [simp]: "slack_len (xs @ ys) = slack_len xs + slack_len ys"
  by (simp add: slack_len_def)

lemma slack_len_take: "slack_len (take n s) \<le> slack_len s"
  using slack_len_append [of "take n s" "drop n s"] by simp

lemma slack_units_bounds: "1 \<le> slack_units c" "slack_units c \<le> 2"
  by (simp_all add: slack_units_def)

lemma truncation_loop_shift:
  "count \<le> limit \<Longrightarrow> truncation_loop limit i count s = i + truncation_loop (limit - count) 0 0 s"
proof (induction s arbitrary: i count limit)
  case Nil
  then show ?case by simp
next
  case (Cons c cs)
  show ?case
  proof (cases "limit < count + slack_units c")
    case True
    then have "limit - count < slack_units c" using Cons.prems by simp
    then show ?thesis using True by simp
  next
    case False
    then have "truncation_loop limit (Suc i) (count + slack_units c) cs =
        Suc i + truncation_loop (limit - (count + slack_units c)) 0 0 cs"
      by (intro Cons.IH) simp
    moreover have "truncation_loop (limit - count) (Suc 0) (slack_units c) cs =
        Suc 0 + truncation_loop (limit - count - slack_units c) 0 0 cs"
      using False by (intro Cons.IH) simp
    ultimately show ?thesis using False by simp
  qed
qed

text \<open>The truncation point is the longest prefix that fits.\<close>

lemma truncation_point:
  fixes s limit
  defines "p \<equiv> find_slack_truncation_point s limit"
  shows "slack_len (take p s) \<le> limit" "p \<le> length s" "p < length s \<Longrightarrow> limit < slack_len (take (Suc p) s)"
proof -
  have "slack_len (take (find_slack_truncation_point s limit) s) \<le> limit \<and>
      find_slack_truncation_point s limit \<le> length s \<and>
      (find_slack_truncation_point s limit < length s \<longrightarrow>
        limit < slack_len (take (Suc (find_slack_truncation_point s limit)) s))"
  proof (induction s arbitrary: limit)
    case Nil
    then show ?case by (simp add: find_slack_truncation_point_def slack_len_def)
  next
    case (Cons c cs)
    let ?p = "find_slack_truncation_point (c # cs) limit"
    have p: "?p = (if limit < slack_units c then 0
        else Suc (find_slack_truncation_point cs (limit - slack_units c)))"
      using truncation_loop_shift [of "slack_units c" limit "Suc 0" cs]
      by (simp add: find_slack_truncation_point_def)
    show ?case using Cons.IH [of "limit - slack_units c"] unfolding p by (auto simp: slack_len_def)
  qed
  then show "slack_len (take p s) \<le> limit" "p \<le> length s" "p < length s \<Longrightarrow> limit < slack_len (take (Suc p) s)"
    unfolding p_def by auto
qed

lemma truncation_point_whole: "slack_len s \<le> limit \<longleftrightarrow> find_slack_truncation_point s limit = length s"
proof
  assume "slack_len s \<le> limit"
  then show "find_slack_truncation_point s limit = length s"
    using truncation_point(2,3) [of s limit] slack_len_take [of "Suc (find_slack_truncation_point s limit)" s]
    by fastforce
next
  assume "find_slack_truncation_point s limit = length s"
  then show "slack_len s \<le> limit" using truncation_point(1) [of s limit] by simp
qed

lemma last_index_bound: "best < i + int (length xs) \<Longrightarrow> last_index c i best xs < i + int (length xs)"
  by (induction c i best xs rule: last_index.induct) (auto split: if_splits)

lemma rfind_bound: "rfind c stop s < int stop"
proof -
  have "last_index c 0 (- 1) (take stop s) < 0 + int (length (take stop s))"
    by (rule last_index_bound) simp
  then show ?thesis unfolding rfind_def by simp
qed

text \<open>A cut takes at least one code point and never more than fits.\<close>

lemma truncate_at_bounds:
  assumes "2 \<le> limit" "limit < slack_len s"
  shows "0 < truncate_at limit s" "truncate_at limit s \<le> find_slack_truncation_point s limit"
proof -
  let ?c = "find_slack_truncation_point s limit"
  have "?c < length s" using assms(2) truncation_point(2) [of s limit] truncation_point_whole [of s limit]
    by (metis le_neq_implies_less not_le)
  have "0 < ?c"
  proof (rule ccontr)
    assume "\<not> 0 < ?c"
    then have "limit < slack_len (take 1 s)" using truncation_point(3) \<open>?c < length s\<close> by fastforce
    moreover obtain c cs where "s = c # cs" using \<open>?c < length s\<close> by (cases s) auto
    ultimately show False using assms(1) slack_units_bounds(2) [of c] by (simp add: slack_len_def)
  qed
  then show "0 < truncate_at limit s" "truncate_at limit s \<le> ?c"
    using rfind_bound [of 10 ?c s] rfind_bound [of 32 ?c s] by (auto simp: truncate_at_def Let_def)
qed

definition visible :: "code_text \<Rightarrow> code_text" where
  "visible s = filter (\<lambda>c. \<not> space_point c) s"

lemma visible_append [simp]: "visible (xs @ ys) = visible xs @ visible ys"
  by (simp add: visible_def)

lemma visible_lstrip [simp]: "visible (lstrip s) = visible s"
  unfolding visible_def lstrip_def by (induction s) auto

lemma visible_breaks [simp]: "visible [] = []" "visible (10 # 10 # s) = visible s"
  by (simp_all add: visible_def space_point_def)

text \<open>A chunk fits, is not empty, and the visible characters are split between it and the rest.\<close>

lemma next_chunk_ok:
  assumes "2 \<le> limit" "next_chunk limit s = (chunk, rest)"
  shows "slack_len chunk \<le> limit" "visible chunk @ visible rest = visible s"
    "s \<noteq> [] \<Longrightarrow> chunk \<noteq> [] \<and> length rest < length s"
proof -
  have "slack_len chunk \<le> limit \<and> visible chunk @ visible rest = visible s \<and>
      (s \<noteq> [] \<longrightarrow> chunk \<noteq> [] \<and> length rest < length s)"
  proof (cases "slack_len s \<le> limit")
    case True
    then show ?thesis using assms(2) by (auto simp: next_chunk_def)
  next
    case False
    let ?t = "truncate_at limit s"
    have cr: "chunk = take ?t s" "rest = lstrip (drop ?t s)" using assms(2) False by (auto simp: next_chunk_def)
    note t = truncate_at_bounds [OF assms(1), of s]
    have "take ?t s = take ?t (take (find_slack_truncation_point s limit) s)"
      using t False by (simp add: min_absorb1)
    then have "slack_len chunk \<le> slack_len (take (find_slack_truncation_point s limit) s)"
      unfolding cr by (metis slack_len_take)
    then have fits: "slack_len chunk \<le> limit" using truncation_point(1) [of s limit] by simp
    have parts: "visible chunk @ visible rest = visible s"
      unfolding cr visible_lstrip by (metis append_take_drop_id visible_append)
    have "length (lstrip (drop ?t s)) \<le> length s - ?t"
      unfolding lstrip_def by (metis length_dropWhile_le length_drop)
    moreover have "s \<noteq> []" using False by (cases s) (simp_all add: slack_len_def)
    moreover have "0 < ?t" using t(1) False by simp
    ultimately have "length rest < length s" unfolding cr
      by (meson diff_less length_greater_0_conv le_less_trans)
    moreover have "chunk \<noteq> []" unfolding cr using \<open>s \<noteq> []\<close> \<open>0 < ?t\<close> by simp
    ultimately have "chunk \<noteq> [] \<and> length rest < length s" by blast
    with fits parts show ?thesis by blast
  qed
  then show "slack_len chunk \<le> limit" "visible chunk @ visible rest = visible s"
    "s \<noteq> [] \<Longrightarrow> chunk \<noteq> [] \<and> length rest < length s" by auto
qed

section \<open>The overflow loop\<close>

lemma text_or_none_some [simp]: "text_or_none s = Some t \<Longrightarrow> text_or_none (Some t) = Some t"
  by (auto simp: text_or_none_def split: option.splits list.splits)

lemma post_message_cases:
  obtains (posted) ts where "post_message answer content ty st = (ReplyPosted, deliver ts content ty st)"
      "text_or_none (Some ts) = Some ts"
  | (refused) r where "post_message answer content ty st = (r, st)" "r \<noteq> ReplyPosted"
      "r = ReplyRaised \<Longrightarrow> an_post answer = CallRaises"
  by (cases "an_post answer"; cases "text_or_none (an_post_ts answer)") (auto simp: post_message_def)

text \<open>A reply is delivered, under a time stamp, or nothing but the placeholder is touched.\<close>

definition raises :: "slack_answer \<Rightarrow> bool" where
  "raises answer \<longleftrightarrow> an_update answer = CallRaises \<or> an_post answer = CallRaises"

lemma add_reply_cases:
  obtains (posted) ts p where "add_reply answer content ty st = (ReplyPosted, deliver ts content ty (st\<lparr>ss_placeholder := p\<rparr>))"
      "text_or_none (Some ts) = Some ts"
  | (refused) r p where "add_reply answer content ty st = (r, st\<lparr>ss_placeholder := p\<rparr>)" "r \<noteq> ReplyPosted"
      "r = ReplyRaised \<Longrightarrow> raises answer"
proof (cases "ss_exists st \<and> ss_app_known st")
  case False
  then show thesis using refused [of ReplyRefused "ss_placeholder st"] by (auto simp: add_reply_def)
next
  case True
  show thesis
  proof (cases "text_or_none (ss_placeholder st)")
    case None
    then have "add_reply answer content ty st = post_message answer content ty (st\<lparr>ss_placeholder := ss_placeholder st\<rparr>)"
      using True by (simp add: add_reply_def)
    then show thesis
      by (cases rule: post_message_cases [of answer content ty "st\<lparr>ss_placeholder := ss_placeholder st\<rparr>"])
        (metis posted, metis refused raises_def)
  next
    case (Some t)
    show thesis
    proof (cases "an_update answer")
      case CallOk
      then show thesis using Some True posted [of t None] by (simp add: add_reply_def)
    next
      case CallRaises
      then show thesis using Some True refused [of ReplyRaised None] by (simp add: add_reply_def raises_def)
    next
      case CallApiError
      then have "add_reply answer content ty st = post_message answer content ty (st\<lparr>ss_placeholder := None\<rparr>)"
        using Some True by (simp add: add_reply_def)
      then show thesis
        by (cases rule: post_message_cases [of answer content ty "st\<lparr>ss_placeholder := None\<rparr>"])
          (metis posted, metis refused raises_def)
    qed
  qed
qed

text \<open>
  With a limit of two units or more the loop ends. What it posted fits. Together with what it hands
  back it holds the visible characters of its text, in order; after an exception, of the call
  for the first chunk that was not posted, it holds a beginning of them.
\<close>

fun handed_back :: "overflow_result \<Rightarrow> code_text" where
  "handed_back (ChunkRefused t) = t"
| "handed_back _ = []"

lemma overflow_loop_ok:
  assumes "2 \<le> limit"
  shows "\<exists>r st' chunks. overflow_loop limit answers ty k s st = Some (r, st') \<and>
    map snd (ss_log st') = map snd (ss_log st) @ chunks \<and> ss_buffer st' = ss_buffer st \<and>
    list_all (\<lambda>t. slack_len t \<le> limit) chunks \<and>
    (if r = LoopRaised
     then raises (answers (k + length chunks)) \<and> (\<exists>rest. visible (concat chunks) @ rest = visible s)
     else visible (concat chunks) @ visible (handed_back r) = visible s) \<and>
    r \<noteq> ChunkRefused []"
proof (induction "length s" arbitrary: s k st rule: less_induct)
  case less
  show ?case
  proof (cases "s = []")
    case True
    then show ?thesis by (subst overflow_loop.simps) simp
  next
    case False
    obtain chunk rest where c: "next_chunk limit s = (chunk, rest)" by (cases "next_chunk limit s")
    note n = next_chunk_ok [OF assms c]
    show ?thesis
    proof (cases rule: add_reply_cases [of "answers k" chunk ty st])
      case (refused r p)
      let ?r = "if r = ReplyRaised then LoopRaised else ChunkRefused (chunk @ (if rest = [] then [] else [10, 10] @ rest))"
      have "overflow_loop limit answers ty k s st = Some (?r, st\<lparr>ss_placeholder := p\<rparr>)"
        using False c refused(1,2) by (subst overflow_loop.simps) simp
      then show ?thesis using refused n False
        by (intro exI [of _ ?r] exI [of _ "st\<lparr>ss_placeholder := p\<rparr>"] exI [of _ "[]"]) auto
    next
      case (posted ts p)
      let ?st1 = "deliver ts chunk ty (st\<lparr>ss_placeholder := p\<rparr>)"
      have l: "overflow_loop limit answers ty k s st = overflow_loop limit answers ty (Suc k) rest ?st1"
        using False c posted(1) by (subst overflow_loop.simps) simp
      obtain r st' chunks where o: "overflow_loop limit answers ty (Suc k) rest ?st1 = Some (r, st')"
        "map snd (ss_log st') = map snd (ss_log ?st1) @ chunks" "ss_buffer st' = ss_buffer ?st1"
        "list_all (\<lambda>t. slack_len t \<le> limit) chunks"
        "if r = LoopRaised
         then raises (answers (Suc k + length chunks)) \<and> (\<exists>more. visible (concat chunks) @ more = visible rest)
         else visible (concat chunks) @ visible (handed_back r) = visible rest" "r \<noteq> ChunkRefused []"
        using less [of rest "Suc k" ?st1] n(3) False by blast
      then have v: "if r = LoopRaised
         then raises (answers (k + length (chunk # chunks))) \<and> (\<exists>more. visible (concat (chunk # chunks)) @ more = visible s)
         else visible (concat (chunk # chunks)) @ visible (handed_back r) = visible s"
        using n(2) by (auto split: if_splits simp flip: n(2))
      show ?thesis using l o v n(1)
        by (intro exI [of _ r] exI [of _ st'] exI [of _ "chunk # chunks"])
          (simp add: deliver_def record_reply_def)
    qed
  qed
qed

section \<open>What a delivery leaves alone\<close>

text \<open>Whether flushes find a message to extend, and what add_reply never touches.\<close>

definition has_reply :: "slack_state \<Rightarrow> bool" where
  "has_reply st \<longleftrightarrow> text_or_none (ss_last_ts st) \<noteq> None"

definition buffer_kept :: "slack_state \<Rightarrow> slack_state \<Rightarrow> bool" where
  "buffer_kept st st' \<longleftrightarrow>
     ss_buffer st' = ss_buffer st \<and> ss_flush_at st' = ss_flush_at st \<and> ss_exists st' = ss_exists st \<and>
     (has_reply st \<longrightarrow> has_reply st')"

lemma buffer_kept_refl [intro, simp]: "buffer_kept st st"
  by (simp add: buffer_kept_def)

lemma buffer_kept_trans [trans]: "buffer_kept a b \<Longrightarrow> buffer_kept b c \<Longrightarrow> buffer_kept a c"
  by (simp add: buffer_kept_def)

lemma deliver_keeps: "text_or_none s = Some ts \<Longrightarrow> buffer_kept st (deliver ts content ty st)"
  by (simp add: buffer_kept_def deliver_def record_reply_def has_reply_def)

lemma placeholder_keeps: "buffer_kept st (st\<lparr>ss_placeholder := p\<rparr>)"
  by (simp add: buffer_kept_def has_reply_def)

lemma add_reply_keeps: "buffer_kept st (snd (add_reply answer content ty st))"
  by (cases rule: add_reply_cases [of answer content ty st])
    (auto intro: buffer_kept_trans [OF placeholder_keeps deliver_keeps] placeholder_keeps)

lemma overflow_loop_keeps:
  assumes "overflow_loop limit answers ty k s st = Some r"
  shows "buffer_kept st (snd r)"
proof (rule overflow_loop.raw_induct [where P = "\<lambda>_ _ _ _ _ st r. buffer_kept st (snd r)", OF _ assms])
  fix loop limit answers ty k s st r
  assume "\<And>limit answers ty k s st r. loop limit answers ty k s st = Some r \<Longrightarrow> buffer_kept st (snd r)"
    and "(if s = [] then Some (AllPosted, st)
      else let (chunk, rest) = next_chunk limit s; (outcome, st1) = add_reply (answers k) chunk ty st
        in if outcome = ReplyPosted then loop limit answers ty (Suc k) rest st1
           else Some (if outcome = ReplyRaised then LoopRaised
               else ChunkRefused (chunk @ (if rest = [] then [] else [10, 10] @ rest)), st1)) = Some r"
  then show "buffer_kept st (snd r)"
    using add_reply_keeps [of st "answers k" "fst (next_chunk limit s)" ty]
    by (cases r) (auto split: if_splits prod.splits intro: buffer_kept_trans)
qed

end
