(* ===== verification/Slack_Properties.thy ===== *)
theory Slack_Properties
  imports Slack_Buffer
begin

text \<open>
  The properties of the append buffer of the Slack gateway: what a flush does with the text, and
  when buffered text is certain to be flushed. The steps below are the requests of one session, in
  any order.
\<close>

section \<open>A flush\<close>

fun arrived_text :: "meanwhile list \<Rightarrow> code_text" where
  "arrived_text [] = []"
| "arrived_text (Arrives t _ _ # es) = t @ arrived_text es"
| "arrived_text (Sweeps # es) = arrived_text es"

lemma append_to_buffer_simps [simp]:
  "ss_log (append_to_buffer t st) = ss_log st" "ss_buffer (append_to_buffer t st) = ss_buffer st @ t"
  "ss_exists (append_to_buffer t st) = ss_exists st" "has_reply (append_to_buffer t st) = has_reply st"
  "ss_flush_at (append_to_buffer t st) = ss_flush_at st"
  by (simp_all add: append_to_buffer_def has_reply_def)

lemma drop_schedule_simps [simp]:
  "ss_log (drop_schedule st) = ss_log st" "ss_buffer (drop_schedule st) = ss_buffer st"
  "ss_exists (drop_schedule st) = ss_exists st" "has_reply (drop_schedule st) = has_reply st"
  by (simp_all add: drop_schedule_def has_reply_def)

lemma has_reply_update [simp]: "has_reply (st\<lparr>ss_buffer_type := t, ss_flush_at := d\<rparr>) = has_reply st"
  by (simp add: has_reply_def)

lemma happen_simps [simp]:
  "ss_log (happen es st) = ss_log st" "ss_buffer (happen es st) = ss_buffer st @ arrived_text es"
  "ss_exists (happen es st) = ss_exists st" "has_reply (happen es st) = has_reply st"
  by (induction es st rule: happen.induct) auto

lemma clear_if_empty_simps [simp]:
  "ss_log (clear_if_empty gap st) = ss_log st" "ss_exists (clear_if_empty gap st) = ss_exists st"
  "has_reply (clear_if_empty gap st) = has_reply st"
  by (simp_all add: clear_if_empty_def)

lemma clear_if_empty_buffer:
  "ss_buffer (clear_if_empty gap st) = (if ss_buffer st = [] then arrived_text gap else ss_buffer st)"
  by (simp add: clear_if_empty_def)

lemma deliver_simps [simp]:
  "ss_log (deliver ts t ty st) = ss_log st @ [(ts, t)]" "ss_buffer (deliver ts t ty st) = ss_buffer st"
  by (simp_all add: deliver_def record_reply_def)

text \<open>
  C18: A flush of buffered text ends, for every limit of at least two units and whatever
  Slack answers. If Slack accepts the update, the visible characters of the old message and the
  buffer are, in order, those of the messages delivered, each within the limit, and of what goes
  back to the buffer, behind what arrived meanwhile; nothing goes back exactly if the flush
  succeeds. If Slack refuses the update, the whole text goes back. Only blanks are ever dropped.
  An exception other than a \<open>SlackApiError\<close> from the message of an overflow puts the
  whole buffer back although its beginning was delivered, so nothing is lost but text is repeated.
  What arrives between the last look at the buffer and the end (\<open>late\<close>) stays in it.
\<close>

theorem flush_keeps_the_text:
  assumes "2 \<le> fw_limit w" "ss_exists st" "text_or_none (ss_last_ts st) = Some ts" "ss_app_known st"
    "ss_buffer st \<noteq> []"
  shows "\<exists>ok st' delivered returned late raised. flush_buffer w st = Some (ok, st') \<and>
    map snd (ss_log st') = map snd (ss_log st) @ delivered \<and>
    list_all (\<lambda>t. slack_len t \<le> fw_limit w) delivered \<and>
    ss_buffer st' = arrived_text (fw_meanwhile w) @ returned @ late \<and>
    (late = [] \<or> late = arrived_text (fw_gap w) \<and> ok) \<and>
    (if fw_update w \<noteq> UpdateOk then delivered = [] \<and> returned = ss_buffer st \<and> \<not> ok
     else if raised
     then raises (fw_answers w (length delivered - 1)) \<and> returned = ss_buffer st \<and> \<not> ok \<and>
       (\<exists>rest. visible (concat delivered) @ rest = visible (ss_last_content st @ ss_buffer st))
     else visible (concat delivered) @ visible returned = visible (ss_last_content st @ ss_buffer st) \<and>
       (ok \<longleftrightarrow> returned = []))"
proof (cases "fw_update w = UpdateOk")
  case False
  then show ?thesis using assms
    by (cases "fw_update w"; cases "next_chunk (fw_limit w) (ss_last_content st @ ss_buffer st)")
      (auto simp: flush_buffer_def Let_def)
next
  case True
  obtain new_content overflow
    where c: "next_chunk (fw_limit w) (ss_last_content st @ ss_buffer st) = (new_content, overflow)"
    by (cases "next_chunk (fw_limit w) (ss_last_content st @ ss_buffer st)")
  define st1 where "st1 = deliver ts new_content (ss_buffer_type st) (happen (fw_meanwhile w) (st\<lparr>ss_buffer := []\<rparr>))"
  obtain r st2 chunks where
    o: "overflow_loop (fw_limit w) (fw_answers w) (ss_buffer_type st) 0 overflow st1 = Some (r, st2)"
    "map snd (ss_log st2) = map snd (ss_log st1) @ chunks" "ss_buffer st2 = ss_buffer st1"
    "list_all (\<lambda>t. slack_len t \<le> fw_limit w) chunks" "r \<noteq> ChunkRefused []"
    and v: "if r = LoopRaised
      then raises (fw_answers w (0 + length chunks)) \<and> (\<exists>rest. visible (concat chunks) @ rest = visible overflow)
      else visible (concat chunks) @ visible (handed_back r) = visible overflow"
    using overflow_loop_ok [OF assms(1), of "fw_answers w" "ss_buffer_type st" 0 overflow st1] by auto
  have st1: "map snd (ss_log st1) = map snd (ss_log st) @ [new_content]"
      "ss_buffer st1 = arrived_text (fw_meanwhile w)"
    by (simp_all add: st1_def)
  note n = next_chunk_ok(1,2) [OF assms(1) c]
  note f = flush_buffer_def [of w st]
  show ?thesis
  proof (cases r)
    case AllPosted
    then have "flush_buffer w st = Some (True, clear_if_empty (fw_gap w) st2)"
      using assms(2-) True c o(1) by (simp add: f Let_def st1_def)
    then show ?thesis using True o st1 n v AllPosted
      by (intro exI [of _ True] exI [of _ "clear_if_empty (fw_gap w) st2"] exI [of _ "new_content # chunks"]
          exI [of _ "[]"] exI [of _ "if ss_buffer st2 = [] then arrived_text (fw_gap w) else []"] exI [of _ False])
        (auto simp: clear_if_empty_buffer)
  next
    case (ChunkRefused t)
    then have "flush_buffer w st = Some (False, clear_if_empty (fw_gap w) (append_to_buffer t st2))"
      using assms(2-) True c o(1) by (simp add: f Let_def st1_def)
    then show ?thesis using True o st1 n v ChunkRefused
      by (intro exI [of _ False] exI [of _ "clear_if_empty (fw_gap w) (append_to_buffer t st2)"]
          exI [of _ "new_content # chunks"] exI [of _ t] exI [of _ "[]"] exI [of _ False])
        (auto simp: clear_if_empty_buffer)
  next
    case LoopRaised
    then have "flush_buffer w st = Some (False, append_to_buffer (ss_buffer st) st2)"
      using assms(2-) True c o(1) by (simp add: f Let_def st1_def)
    moreover have "\<exists>rest. visible (concat (new_content # chunks)) @ rest = visible (ss_last_content st @ ss_buffer st)"
      using v LoopRaised n(2) by (metis append.assoc concat.simps(2) visible_append)
    ultimately show ?thesis using True o(2-4) st1 n(1) v LoopRaised
      by (intro exI [of _ False] exI [of _ "append_to_buffer (ss_buffer st) st2"]
          exI [of _ "new_content # chunks"] exI [of _ "ss_buffer st"] exI [of _ "[]"] exI [of _ True])
        (simp del: concat.simps visible_append)
  qed
qed

text \<open>A session whose last message is ``ab c'' and whose buffer holds `` def'' (limit 5).\<close>

definition slack_example :: slack_state where
  "slack_example = \<lparr>ss_exists = True, ss_app_known = True, ss_placeholder = None, ss_last_ts = Some ''1.1'',
     ss_last_content = [97, 98, 32, 99], ss_last_type = None, ss_buffer = [32, 100, 101, 102],
     ss_buffer_type = None, ss_flush_at = Some 7, ss_log = []\<rparr>"

definition example_answer :: slack_answer where
  "example_answer = \<lparr>an_update = CallApiError, an_post = CallOk, an_post_ts = Some ''1.2''\<rparr>"

definition example_flush :: flush_world where
  "example_flush = \<lparr>fw_limit = 5, fw_now = 7, fw_meanwhile = [], fw_gap = [], fw_update = UpdateOk,
     fw_answers = (\<lambda>_. example_answer)\<rparr>"

theorem flush_keeps_the_text_witness:
  "\<exists>ok st' delivered returned.
    flush_buffer example_flush slack_example = Some (ok, st') \<and>
    list_all (\<lambda>t. slack_len t \<le> 5) delivered \<and> map snd (ss_log st') = delivered \<and>
    ss_buffer st' = returned \<and> visible (concat delivered) @ visible returned = [97, 98, 99, 100, 101, 102] \<and>
    (ok \<longleftrightarrow> returned = [])"
proof -
  have e: "fw_limit example_flush = 5" "fw_update example_flush = UpdateOk" "fw_meanwhile example_flush = []"
    "fw_gap example_flush = []" "\<not> raises (fw_answers example_flush k)"
    "visible (ss_last_content slack_example @ ss_buffer slack_example) = [97, 98, 99, 100, 101, 102]"
    "ss_log slack_example = []" for k
    by (simp_all add: slack_example_def example_flush_def example_answer_def raises_def visible_def space_point_def)
  have "2 \<le> fw_limit example_flush" "ss_exists slack_example" "text_or_none (ss_last_ts slack_example) = Some ''1.1''"
    "ss_app_known slack_example" "ss_buffer slack_example \<noteq> []"
    by (simp_all add: slack_example_def example_flush_def text_or_none_def)
  from flush_keeps_the_text [OF this] show ?thesis by (auto simp: e simp del: visible_append split: if_splits)
qed

section \<open>The requests of a session\<close>




text \<open>Buffered text of a live session belongs to a message and has a flush in the schedule.\<close>

definition scheduled :: "slack_state \<Rightarrow> bool" where
  "scheduled st \<longleftrightarrow> (ss_exists st \<and> ss_buffer st \<noteq> [] \<longrightarrow> has_reply st \<and> ss_flush_at st \<noteq> None)"



lemma scheduled_update [simp]:
  "scheduled (st\<lparr>ss_placeholder := p\<rparr>) = scheduled st" "scheduled (st\<lparr>ss_app_known := b\<rparr>) = scheduled st"
  "scheduled (st\<lparr>ss_exists := False\<rparr>)" "scheduled (st\<lparr>ss_buffer := []\<rparr>)"
  "scheduled (st\<lparr>ss_buffer_type := t\<rparr>) = scheduled st"
  by (simp_all add: scheduled_def has_reply_def)















text \<open>
  The races: an append between the last look and the removal leaves its text without an entry,
  and so does a flush whose update is refused while another one has found the buffer empty.
\<close>

theorem late_text_unscheduled:
  assumes "ss_exists st" "has_reply st" "ss_buffer st = []" "fw_gap w = [Arrives t ty due]"
  shows "\<exists>st'. flush_buffer w st = Some (True, st') \<and> ss_buffer st' = t \<and> ss_flush_at st' = None"
  using assms by (auto simp: flush_buffer_def clear_if_empty_def drop_schedule_def has_reply_def)

theorem refused_text_unscheduled:
  assumes "ss_exists st" "has_reply st" "ss_buffer st \<noteq> []" "ss_app_known st"
    "fw_meanwhile w = [Sweeps]" "fw_update w = UpdateFailed"
  shows "\<exists>st'. flush_buffer w st = Some (False, st') \<and> ss_buffer st' = ss_buffer st \<and> ss_flush_at st' = None"
  using assms by (auto simp: flush_buffer_def drop_schedule_def has_reply_def Let_def append_to_buffer_def
      split: prod.split)



end
