(* ===== verification/Stream_Translation.thy ===== *)
theory Stream_Translation
  imports Py_Runtime
begin

text \<open>
  The translation of the runners' events into the events WebSocket clients see
  (\<open>core/streaming.py\<close>, upper half): tool and message items that are started, extended and
  completed, and the end of the turn. The raw events are decoded JSON; whatever the code
  subscripts, iterates or concatenates without a check raises where Python raises, and the
  tracker keeps what it had stored by then.
\<close>

section \<open>JSON values as Python uses them\<close>

text \<open>\<open>str(v)\<close> and \<open>repr(v)\<close>; how a number prints is an argument (the model does not keep
  whether it is an int or a float).\<close>

fun json_repr :: "(rat \<Rightarrow> string) \<Rightarrow> json \<Rightarrow> string" where
  "json_repr num JNull = ''None''"
| "json_repr num (JBool b) = (if b then ''True'' else ''False'')"
| "json_repr num (JNum q) = num q"
| "json_repr num (JStr s) = py_repr s"
| "json_repr num (JList xs) =
     ''['' @ concat (map2 (\<lambda>i x. (if i = 0 then '''' else '', '') @ x) [0..<length xs] (map (json_repr num) xs)) @ '']''"
| "json_repr num (JObj kvs) =
     ''{'' @ concat (map2 (\<lambda>i x. (if i = 0 then '''' else '', '') @ x) [0..<length kvs]
                (map (\<lambda>(k, v). py_repr k @ '': '' @ json_repr num v) kvs)) @ ''}''"

definition json_str :: "(rat \<Rightarrow> string) \<Rightarrow> json \<Rightarrow> string" where
  "json_str num v = (case v of JStr s \<Rightarrow> s | _ \<Rightarrow> json_repr num v)"

text \<open>\<open>v.get(k, other)\<close>\<close>

definition json_get :: "json \<Rightarrow> string \<Rightarrow> json \<Rightarrow> py_error + json" where
  "json_get v k other =
     (case v of
        JObj kvs \<Rightarrow> Inr (case dict_get kvs k of None \<Rightarrow> other | Some x \<Rightarrow> x)
      | _ \<Rightarrow> Inl AttributeError)"

definition raw_get :: "py_dict \<Rightarrow> string \<Rightarrow> json \<Rightarrow> json" where
  "raw_get d k other = (case dict_get d k of None \<Rightarrow> other | Some x \<Rightarrow> x)"

text \<open>\<open>a or b\<close>\<close>

definition json_or :: "json \<Rightarrow> json \<Rightarrow> json" where
  "json_or a b = (if json_true a then a else b)"

text \<open>\<open>for x in v\<close>\<close>

definition json_iter :: "json \<Rightarrow> py_error + json list" where
  "json_iter v =
     (case v of
        JList xs \<Rightarrow> Inr xs
      | JStr s \<Rightarrow> Inr (map (\<lambda>c. JStr [c]) s)
      | JObj kvs \<Rightarrow> Inr (map (JStr \<circ> fst) kvs)
      | _ \<Rightarrow> Inl TypeError)"

text \<open>A value as a dictionary key or set member: lists and dictionaries cannot be hashed, and
  \<open>True\<close> is the key 1.\<close>

definition dict_key :: "json \<Rightarrow> py_error + json" where
  "dict_key v =
     (case v of
        JList _ \<Rightarrow> Inl TypeError
      | JObj _ \<Rightarrow> Inl TypeError
      | JBool b \<Rightarrow> Inr (JNum (if b then 1 else 0))
      | _ \<Rightarrow> Inr v)"

definition json_dict :: "json \<Rightarrow> py_dict" where
  "json_dict v = (case v of JObj kvs \<Rightarrow> kvs | _ \<Rightarrow> [])"

section \<open>Items and events\<close>

datatype item_status = ItemInProgress | ItemDone | ItemFailed

datatype tool_outcome = ToolResult string | ToolError string

datatype item_body =
    AgentMessage json
  | CommandExecution json string "nat option"
  | FileChange json string
  | McpToolCall json py_dict "tool_outcome option"

record codex_item =
  ci_id :: string
  ci_body :: item_body
  ci_status :: item_status

datatype codex_event =
    TurnStarted string
  | ItemStarted codex_item
  | MessageDelta string json
  | ItemCompleted codex_item
  | TurnCompleted string py_dict
  | TurnFailed string json

record stream_event =
  se_type :: string
  se_raw :: py_dict

datatype stop_notice = TurnLimitNotice | ContextOverflowNotice

text \<open>
  \<open>TranslationState\<close>. The ids \<open>next_item_id\<close> draws are a sequence that \<open>ts_drawn\<close> indexes;
  the texts of the notices are arguments like the printing of numbers.
\<close>

record translation_state =
  ts_turn_id :: string
  ts_ids :: "nat \<Rightarrow> string"
  ts_num :: "rat \<Rightarrow> string"
  ts_notice :: "stop_notice \<Rightarrow> string"
  ts_drawn :: nat
  ts_current :: "string option"
  ts_tool_items :: "(json \<times> codex_item) list"
  ts_texts :: "(string \<times> string) list"

definition next_item_id :: "translation_state \<Rightarrow> string \<times> translation_state" where
  "next_item_id st = (ts_ids st (ts_drawn st), st\<lparr>ts_drawn := Suc (ts_drawn st)\<rparr>)"

type_synonym translation = "(py_error + codex_event list) \<times> translation_state"

text \<open>\<open>results.extend(m)\<close>, then the rest: the events are lost when the rest raises, the changes
  of the tracker are not.\<close>

definition followed_by :: "translation \<Rightarrow> (translation_state \<Rightarrow> translation) \<Rightarrow> translation" where
  "followed_by m f =
     (case m of
        (Inl e, st) \<Rightarrow> (Inl e, st)
      | (Inr xs, st) \<Rightarrow>
          (case f st of (Inl e, st') \<Rightarrow> (Inl e, st') | (Inr ys, st') \<Rightarrow> (Inr (xs @ ys), st')))"

definition checked :: "py_error + 'a \<Rightarrow> translation_state \<Rightarrow> ('a \<Rightarrow> translation) \<Rightarrow> translation" where
  "checked m st f = (case m of Inl e \<Rightarrow> (Inl e, st) | Inr x \<Rightarrow> f x)"

section \<open>Items\<close>

definition COMMAND_TOOLS :: "string list" where
  "COMMAND_TOOLS = [''Bash'', ''bash'', ''run_command'', ''Execute'']"

definition FILE_TOOLS :: "string list" where
  "FILE_TOOLS = [''Write'', ''Edit'', ''write_file'', ''edit_file'', ''MultiEdit'']"

datatype item_type = CommandType | FileType | ToolType

definition classify_tool :: "json \<Rightarrow> py_error + item_type" where
  "classify_tool tool_name =
     sum_bind (dict_key tool_name) (\<lambda>k.
       Inr (if k \<in> set (map JStr COMMAND_TOOLS) then CommandType
            else if k \<in> set (map JStr FILE_TOOLS) then FileType
            else ToolType))"

definition close_message_item :: "translation_state \<Rightarrow> codex_event list \<times> translation_state" where
  "close_message_item st =
     (case ts_current st of
        None \<Rightarrow> ([], st)
      | Some i \<Rightarrow>
          (let full_text = (case map_of (ts_texts st) i of None \<Rightarrow> '''' | Some t \<Rightarrow> t)
           in ([ItemCompleted \<lparr>ci_id = i, ci_body = AgentMessage (JStr full_text), ci_status = ItemDone\<rparr>],
               st\<lparr>ts_texts := AList.delete i (ts_texts st), ts_current := None\<rparr>)))"

text \<open>A message item that is started, filled and completed at once.\<close>

definition message_events :: "string \<Rightarrow> json \<Rightarrow> codex_event list" where
  "message_events i text =
     [ItemStarted \<lparr>ci_id = i, ci_body = AgentMessage (JStr ''''), ci_status = ItemInProgress\<rparr>,
      MessageDelta i text,
      ItemCompleted \<lparr>ci_id = i, ci_body = AgentMessage text, ci_status = ItemDone\<rparr>]"

definition build_notice_events :: "stop_notice \<Rightarrow> translation_state \<Rightarrow> codex_event list \<times> translation_state" where
  "build_notice_events n st =
     (let (i, st1) = next_item_id st in (message_events i (JStr (ts_notice st n)), st1))"

definition tool_body :: "(rat \<Rightarrow> string) \<Rightarrow> item_type \<Rightarrow> json \<Rightarrow> json \<Rightarrow> item_body" where
  "tool_body num ty tool_name raw_input =
     (let tool_input = json_dict raw_input;
          tool_input_str = (case raw_input of JObj _ \<Rightarrow> '''' | _ \<Rightarrow> json_str num raw_input)
      in case ty of
           CommandType \<Rightarrow>
             CommandExecution
               (raw_get tool_input ''command''
                  (JStr (if tool_input_str \<noteq> '''' then tool_input_str else json_str num raw_input)))
               '''' None
         | FileType \<Rightarrow>
             FileChange
               (json_or (json_or (raw_get tool_input ''file_path'' (JStr '''')) (raw_get tool_input ''path'' (JStr '''')))
                  (JStr tool_input_str))
               (if tool_name = JStr ''Write'' \<or> tool_name = JStr ''write_file'' then ''add'' else ''update'')
         | ToolType \<Rightarrow> McpToolCall tool_name tool_input None)"

text \<open>An unhashable tool name or tool id raises; the id of the item is drawn between the two.\<close>

definition start_tool_item :: "py_dict \<Rightarrow> translation_state \<Rightarrow> translation" where
  "start_tool_item raw st =
     (let tool_name = json_or (raw_get raw ''name'' (JStr '''')) (raw_get raw ''tool_name'' (JStr ''''));
          raw_input = raw_get raw ''input'' (raw_get raw ''tool_input'' (JObj []));
          tool_use_id = json_or (raw_get raw ''id'' (JStr '''')) (raw_get raw ''tool_use_id'' (JStr ''''))
      in checked (classify_tool tool_name) st (\<lambda>ty.
           let (i, st1) = next_item_id st;
               item = \<lparr>ci_id = i, ci_body = tool_body (ts_num st) ty tool_name raw_input, ci_status = ItemInProgress\<rparr>
           in if json_true tool_use_id
              then checked (dict_key tool_use_id) st1 (\<lambda>k.
                     (Inr [ItemStarted item], st1\<lparr>ts_tool_items := AList.update k item (ts_tool_items st1)\<rparr>))
              else (Inr [ItemStarted item], st1)))"

section \<open>Events\<close>

definition join_texts :: "string list \<Rightarrow> string" where
  "join_texts xs = (case xs of [] \<Rightarrow> '''' | x # rest \<Rightarrow> x @ concat (map (\<lambda>y. '' '' @ y) rest))"

text \<open>The text of a tool result: a list is the join of the texts of its dictionaries.\<close>

definition block_text :: "json \<Rightarrow> py_error + string" where
  "block_text b =
     (case raw_get (json_dict b) ''text'' (JStr '''') of JStr s \<Rightarrow> Inr s | _ \<Rightarrow> Inl TypeError)"

definition result_content :: "(rat \<Rightarrow> string) \<Rightarrow> py_dict \<Rightarrow> py_error + string" where
  "result_content num raw =
     (case raw_get raw ''content'' (raw_get raw ''output'' (JStr '''')) of
        JList bs \<Rightarrow>
          sum_bind (sum_map block_text (filter (\<lambda>b. case b of JObj _ \<Rightarrow> True | _ \<Rightarrow> False) bs)) (\<lambda>ts.
            Inr (join_texts ts))
      | v \<Rightarrow> Inr (json_str num v))"

definition completed_item :: "string \<Rightarrow> bool \<Rightarrow> codex_item \<Rightarrow> codex_item" where
  "completed_item content is_error item =
     item\<lparr>ci_body :=
           (case ci_body item of
              CommandExecution cmd _ _ \<Rightarrow> CommandExecution cmd content (Some (if is_error then 1 else 0))
            | McpToolCall tool args _ \<Rightarrow>
                McpToolCall tool args
                  (Some (if is_error then ToolError (take 2000 content) else ToolResult (take 5000 content)))
            | body \<Rightarrow> body),
          ci_status := (if is_error then ItemFailed else ItemDone)\<rparr>"

text \<open>\<open>pop\<close> of an empty dictionary does not hash its key.\<close>

definition translate_tool_result :: "py_dict \<Rightarrow> translation_state \<Rightarrow> translation" where
  "translate_tool_result raw st =
     (let tool_use_id = json_or (raw_get raw ''tool_use_id'' (JStr '''')) (raw_get raw ''id'' (JStr ''''))
      in if ts_tool_items st = [] then (Inr [], st)
         else checked (dict_key tool_use_id) st (\<lambda>k.
           case map_of (ts_tool_items st) k of
             None \<Rightarrow> (Inr [], st)
           | Some item \<Rightarrow>
               (let st1 = st\<lparr>ts_tool_items := AList.delete k (ts_tool_items st)\<rparr>
                in checked (result_content (ts_num st) raw) st1 (\<lambda>content.
                     (Inr [ItemCompleted (completed_item content (json_true (raw_get raw ''is_error'' (JBool False))) item)],
                      st1)))))"

definition translate_text :: "json \<Rightarrow> translation_state \<Rightarrow> translation" where
  "translate_text text st =
     (if \<not> json_true text then (Inr [], st)
      else
        (let (started, i, st1) =
               (case ts_current st of
                  None \<Rightarrow>
                    (let (i, st') = next_item_id st
                     in ([ItemStarted \<lparr>ci_id = i, ci_body = AgentMessage (JStr ''''), ci_status = ItemInProgress\<rparr>], i,
                         st'\<lparr>ts_current := Some i, ts_texts := AList.update i '''' (ts_texts st')\<rparr>))
                | Some i \<Rightarrow> ([], i, st));
             known = (case map_of (ts_texts st1) i of None \<Rightarrow> '''' | Some t \<Rightarrow> t)
         in case text of
              JStr s \<Rightarrow>
                (Inr (started @ [MessageDelta i text]), st1\<lparr>ts_texts := AList.update i (known @ s) (ts_texts st1)\<rparr>)
            | _ \<Rightarrow> (Inl TypeError, st1)))"

definition translate_block :: "json \<Rightarrow> translation_state \<Rightarrow> translation" where
  "translate_block block st =
     checked (json_get block ''type'' JNull) st (\<lambda>ty.
       if ty = JStr ''text'' then translate_text (raw_get (json_dict block) ''text'' (JStr '''')) st
       else if ty = JStr ''tool_use''
       then (let (closed, st1) = close_message_item st
             in followed_by (Inr closed, st1) (start_tool_item (json_dict block)))
       else (Inr [], st))"

definition translate_result_block :: "json \<Rightarrow> translation_state \<Rightarrow> translation" where
  "translate_result_block block st =
     checked (json_get block ''type'' JNull) st (\<lambda>ty.
       if ty = JStr ''tool_result'' then translate_tool_result (json_dict block) st else (Inr [], st))"

fun for_blocks :: "(json \<Rightarrow> translation_state \<Rightarrow> translation) \<Rightarrow> json list \<Rightarrow> translation_state \<Rightarrow> translation" where
  "for_blocks f [] st = (Inr [], st)"
| "for_blocks f (b # bs) st = followed_by (f b st) (for_blocks f bs)"

definition content_blocks :: "py_dict \<Rightarrow> py_error + json list" where
  "content_blocks raw =
     sum_bind (json_get (raw_get raw ''message'' (JObj [])) ''content'' (JList [])) json_iter"

definition translate_assistant :: "py_dict \<Rightarrow> translation_state \<Rightarrow> translation" where
  "translate_assistant raw st = checked (content_blocks raw) st (\<lambda>bs. for_blocks translate_block bs st)"

definition translate_user :: "py_dict \<Rightarrow> translation_state \<Rightarrow> translation" where
  "translate_user raw st = checked (content_blocks raw) st (\<lambda>bs. for_blocks translate_result_block bs st)"

definition translate_intermediate_text :: "py_dict \<Rightarrow> translation_state \<Rightarrow> translation" where
  "translate_intermediate_text raw st =
     (let text = raw_get raw ''text'' (JStr '''')
      in if \<not> json_true text then (Inr [], st)
         else (let (closed, st1) = close_message_item st;
                   (i, st2) = next_item_id st1
               in (Inr (closed @ message_events i text), st2)))"

definition translate_tool_use :: "py_dict \<Rightarrow> translation_state \<Rightarrow> translation" where
  "translate_tool_use raw st =
     (let (closed, st1) = close_message_item st in followed_by (Inr closed, st1) (start_tool_item raw))"

text \<open>\<open>event.cost_usd\<close>, \<open>event.duration_ms\<close> and \<open>event.num_turns\<close> of a result event.\<close>

definition turn_usage :: "py_dict \<Rightarrow> py_dict" where
  "turn_usage raw =
     (let add = (\<lambda>k v d. if v = JNull then d else dict_set k v d);
          cost = json_or (raw_get raw ''estimated_cost_usd'' JNull) (raw_get raw ''cost_usd'' JNull)
      in add ''num_agent_turns'' (raw_get raw ''num_turns'' JNull)
           (add ''duration_ms'' (raw_get raw ''duration_ms'' JNull)
              (add ''cost_usd'' cost
                 [(''input_tokens'', raw_get raw ''input_tokens'' (JNum 0)),
                  (''output_tokens'', raw_get raw ''output_tokens'' (JNum 0)),
                  (''cached_input_tokens'', raw_get raw ''cached_input_tokens'' (JNum 0))])))"

definition translate_result :: "py_dict \<Rightarrow> translation_state \<Rightarrow> codex_event list \<times> translation_state" where
  "translate_result raw st =
     (let (closed, st1) = close_message_item st;
          subtype = raw_get raw ''subtype'' JNull;
          (notices, st2) =
            (if subtype = JStr ''error_max_turns'' then build_notice_events TurnLimitNotice st1
             else if subtype = JStr ''stopped_context_overflow'' then build_notice_events ContextOverflowNotice st1
             else ([], st1))
      in (closed @ notices @ [TurnCompleted (ts_turn_id st) (turn_usage raw)], st2))"

definition translate_error :: "py_dict \<Rightarrow> translation_state \<Rightarrow> codex_event list \<times> translation_state" where
  "translate_error raw st =
     (let (closed, st1) = close_message_item st
      in (closed @ [TurnFailed (ts_turn_id st) (raw_get raw ''error'' (JStr ''Unknown error''))], st1))"

definition translate_stream_event :: "stream_event \<Rightarrow> translation_state \<Rightarrow> translation" where
  "translate_stream_event ev st =
     (let ty = se_type ev; raw = se_raw ev
      in if ty = ''assistant'' then translate_assistant raw st
         else if ty = ''user'' then translate_user raw st
         else if ty = ''tool_use'' then translate_tool_use raw st
         else if ty = ''intermediate_text'' then translate_intermediate_text raw st
         else if ty = ''tool_result'' then translate_tool_result raw st
         else if ty = ''result'' then apfst Inr (translate_result raw st)
         else if ty = ''error'' then apfst Inr (translate_error raw st)
         else (Inr [], st))"

text \<open>\<open>TranslationState(session_id, turn_number)\<close>\<close>

definition new_translation_state ::
  "string \<Rightarrow> (nat \<Rightarrow> string) \<Rightarrow> (rat \<Rightarrow> string) \<Rightarrow> (stop_notice \<Rightarrow> string) \<Rightarrow> translation_state" where
  "new_translation_state turn_id ids num notice_text =
     \<lparr>ts_turn_id = turn_id, ts_ids = ids, ts_num = num, ts_notice = notice_text, ts_drawn = 0,
      ts_current = None, ts_tool_items = [], ts_texts = []\<rparr>"

text \<open>
  A turn as \<open>_run_agent_task\<close> streams it: its start, the events of the runner, and, when the
  runner or the translation raises or the turn is cancelled, the closing of an open message and
  the failed end.
\<close>

fun stream_events :: "stream_event list \<Rightarrow> translation_state \<Rightarrow> codex_event list \<times> py_error option \<times> translation_state" where
  "stream_events [] st = ([], None, st)"
| "stream_events (ev # evs) st =
     (case translate_stream_event ev st of
        (Inl e, st1) \<Rightarrow> ([], Some e, st1)
      | (Inr xs, st1) \<Rightarrow> (let (ys, e, st2) = stream_events evs st1 in (xs @ ys, e, st2)))"

definition abort_turn :: "string \<Rightarrow> translation_state \<Rightarrow> codex_event list \<times> translation_state" where
  "abort_turn message st =
     (let (closed, st1) = close_message_item st
      in (closed @ [TurnFailed (ts_turn_id st) (JStr message)], st1))"

end
