(* ===== verification/Stream_Client.thy ===== *)
theory Stream_Client
  imports Stream_Translation
begin

text \<open>
  What a WebSocket client may rely on, as a machine that reads the events, and the simulation
  between it and the translator: whatever the runner's events are, the client accepts what
  they are translated to and knows the open items of the translator.
\<close>

section \<open>The client\<close>

text \<open>
  \<open>cl_seen\<close>: the ids used so far; \<open>cl_message\<close>: the open message with its deltas; \<open>cl_tools\<close>: the
  tool items without a result; \<open>cl_ends\<close>: how often the turn ended.
\<close>

record client =
  cl_seen :: "string list"
  cl_message :: "(string \<times> json list) option"
  cl_tools :: "codex_item list"
  cl_ends :: nat

definition json_string :: "json \<Rightarrow> string option" where
  "json_string v = (case v of JStr s \<Rightarrow> Some s | _ \<Rightarrow> None)"

text \<open>The text of a message is its only delta, or what its deltas, strings, concatenate to.\<close>

definition assembled :: "json list \<Rightarrow> json \<Rightarrow> bool" where
  "assembled ds t \<longleftrightarrow>
     ds = [t] \<or>
     list_all (\<lambda>d. json_string d \<noteq> None) ds \<and> t = JStr (concat (map (the \<circ> json_string) ds))"

text \<open>A tool item completes the item that was started.\<close>

fun same_call :: "item_body \<Rightarrow> item_body \<Rightarrow> bool" where
  "same_call (CommandExecution c _ _) (CommandExecution c' _ e) \<longleftrightarrow> c = c' \<and> e \<noteq> None"
| "same_call (FileChange p k) (FileChange p' k') \<longleftrightarrow> p = p' \<and> k = k'"
| "same_call (McpToolCall t a _) (McpToolCall t' a' r) \<longleftrightarrow> t = t' \<and> a = a' \<and> r \<noteq> None"
| "same_call _ _ \<longleftrightarrow> False"

definition is_message :: "codex_item \<Rightarrow> bool" where
  "is_message it \<longleftrightarrow> (case ci_body it of AgentMessage _ \<Rightarrow> True | _ \<Rightarrow> False)"

fun client_step :: "codex_event \<Rightarrow> client \<Rightarrow> client option" where
  "client_step (TurnStarted _) c = Some c"
| "client_step (ItemStarted it) c =
     (if ci_id it \<in> set (cl_seen c) \<or> ci_status it \<noteq> ItemInProgress then None
      else if is_message it
      then (if cl_message c = None then Some (c\<lparr>cl_seen := ci_id it # cl_seen c, cl_message := Some (ci_id it, [])\<rparr>) else None)
      else Some (c\<lparr>cl_seen := ci_id it # cl_seen c, cl_tools := it # cl_tools c\<rparr>))"
| "client_step (MessageDelta i d) c =
     (case cl_message c of
        None \<Rightarrow> None
      | Some (j, ds) \<Rightarrow> if i = j then Some (c\<lparr>cl_message := Some (j, ds @ [d])\<rparr>) else None)"
| "client_step (ItemCompleted it) c =
     (if ci_status it = ItemInProgress then None
      else
        (case ci_body it of
           AgentMessage t \<Rightarrow>
             (case cl_message c of
                None \<Rightarrow> None
              | Some (j, ds) \<Rightarrow> if ci_id it = j \<and> assembled ds t then Some (c\<lparr>cl_message := None\<rparr>) else None)
         | body \<Rightarrow>
             if list_ex (\<lambda>t. ci_id t = ci_id it \<and> same_call (ci_body t) body) (cl_tools c)
             then Some (c\<lparr>cl_tools := filter (\<lambda>t. ci_id t \<noteq> ci_id it) (cl_tools c)\<rparr>)
             else None))"
| "client_step (TurnCompleted _ _) c =
     (if cl_message c = None then Some (c\<lparr>cl_ends := Suc (cl_ends c)\<rparr>) else None)"
| "client_step (TurnFailed _ _) c =
     (if cl_message c = None then Some (c\<lparr>cl_ends := Suc (cl_ends c)\<rparr>) else None)"

fun client_run :: "codex_event list \<Rightarrow> client \<Rightarrow> client option" where
  "client_run [] c = Some c"
| "client_run (e # es) c = (case client_step e c of None \<Rightarrow> None | Some c' \<Rightarrow> client_run es c')"

definition new_client :: client where
  "new_client = \<lparr>cl_seen = [], cl_message = None, cl_tools = [], cl_ends = 0\<rparr>"

lemma client_run_append:
  "client_run (es @ es') c = (case client_run es c of None \<Rightarrow> None | Some c' \<Rightarrow> client_run es' c')"
  by (induction es arbitrary: c) (auto split: option.split)

section \<open>The simulation\<close>

text \<open>The open message and its text, the ids, and the tool items that can still be completed.\<close>

definition message_agrees :: "translation_state \<Rightarrow> client \<Rightarrow> bool" where
  "message_agrees st c \<longleftrightarrow>
     (case ts_current st of
        None \<Rightarrow> cl_message c = None
      | Some i \<Rightarrow>
          (\<exists>ss. cl_message c = Some (i, map JStr ss) \<and> map_of (ts_texts st) i = Some (concat ss)))"

definition tools_agree :: "translation_state \<Rightarrow> client \<Rightarrow> bool" where
  "tools_agree st c \<longleftrightarrow>
     (\<forall>k a. map_of (ts_tool_items st) k = Some a \<longrightarrow> a \<in> set (cl_tools c)) \<and>
     (\<forall>k k' a b. map_of (ts_tool_items st) k = Some a \<and> map_of (ts_tool_items st) k' = Some b \<and> ci_id a = ci_id b \<longrightarrow> k = k') \<and>
     (\<forall>t \<in> set (cl_tools c). ci_id t \<in> set (cl_seen c) \<and> \<not> is_message t)"

definition simulates :: "translation_state \<Rightarrow> client \<Rightarrow> bool" where
  "simulates st c \<longleftrightarrow>
     inj (ts_ids st) \<and> set (cl_seen c) = ts_ids st ` {..<ts_drawn st} \<and>
     message_agrees st c \<and> tools_agree st c"

lemma new_simulates: "inj ids \<Longrightarrow> simulates (new_translation_state turn_id ids num notice_text) new_client"
  by (simp add: simulates_def new_translation_state_def new_client_def message_agrees_def tools_agree_def)

lemma tool_item_seen:
  "simulates st c \<Longrightarrow> map_of (ts_tool_items st) k = Some a \<Longrightarrow> ci_id a \<in> set (cl_seen c)"
  unfolding simulates_def tools_agree_def by blast

text \<open>The next id is new to the client.\<close>

lemma next_item_id_fresh:
  assumes "simulates st c" "next_item_id st = (i, st1)"
  shows "i \<notin> set (cl_seen c)"
    "simulates st1 (c\<lparr>cl_seen := i # cl_seen c\<rparr>)" "ts_current st1 = ts_current st" "ts_tool_items st1 = ts_tool_items st"
    "ts_texts st1 = ts_texts st"
proof -
  have i: "i = ts_ids st (ts_drawn st)" "st1 = st\<lparr>ts_drawn := Suc (ts_drawn st)\<rparr>"
    using assms(2) by (simp_all add: next_item_id_def)
  show "i \<notin> set (cl_seen c)" using assms(1) i(1) by (auto simp: simulates_def dest: injD)
  show "simulates st1 (c\<lparr>cl_seen := i # cl_seen c\<rparr>)"
    using assms(1) unfolding i
    by (auto simp: simulates_def message_agrees_def tools_agree_def lessThan_Suc split: option.splits)
  show "ts_current st1 = ts_current st" "ts_tool_items st1 = ts_tool_items st" "ts_texts st1 = ts_texts st"
    by (simp_all add: i)
qed

text \<open>A translation step is followed when the client accepts its events and stays in step.\<close>

definition follows :: "client \<Rightarrow> codex_event list \<times> translation_state \<Rightarrow> bool" where
  "follows c m \<longleftrightarrow> (\<exists>c'. client_run (fst m) c = Some c' \<and> simulates (snd m) c')"

definition follows_unless :: "client \<Rightarrow> translation \<Rightarrow> bool" where
  "follows_unless c m \<longleftrightarrow> (case m of (Inl _, _) \<Rightarrow> True | (Inr xs, st) \<Rightarrow> follows c (xs, st))"

lemma follows_unless_simps [simp]:
  "follows_unless c (Inl e, st)" "follows_unless c (Inr xs, st) = follows c (xs, st)"
  "follows_unless c (apfst Inr m) = follows c m"
  by (cases m; simp add: follows_unless_def)+

lemma follows_Nil [simp]: "simulates st c \<Longrightarrow> follows c ([], st)"
  by (simp add: follows_def)

lemma follows_append:
  assumes "follows c (xs, st1)" "\<And>c'. simulates st1 c' \<Longrightarrow> follows c' (ys, st2)"
  shows "follows c (xs @ ys, st2)"
  using assms by (fastforce simp: follows_def client_run_append)

lemma followed_by_follows:
  assumes "follows_unless c m" "\<And>c' st. simulates st c' \<Longrightarrow> follows_unless c' (f st)"
  shows "follows_unless c (followed_by m f)"
proof (cases m)
  case (Pair r st)
  show ?thesis
  proof (cases r)
    case (Inl e)
    then show ?thesis using Pair by (simp add: followed_by_def)
  next
    case (Inr xs)
    then have m: "follows c (xs, st)" using assms(1) Pair by simp
    have "fst (f st) = Inr ys \<Longrightarrow> follows c (xs @ ys, snd (f st))" for ys
      using m assms(2) [of st] by (intro follows_append [OF m]) (metis follows_unless_simps(2) prod.collapse)
    then show ?thesis using Pair Inr by (auto simp: followed_by_def split: prod.split sum.split)
  qed
qed

lemma checked_follows: "(\<And>x. m = Inr x \<Longrightarrow> follows_unless c (f x)) \<Longrightarrow> follows_unless c (checked m st f)"
  by (cases m) (auto simp: checked_def)

section \<open>The operations\<close>

lemma close_message_item_follows:
  assumes "simulates st c"
  shows "follows c (close_message_item st)" "ts_current (snd (close_message_item st)) = None"
    "ts_tool_items (snd (close_message_item st)) = ts_tool_items st"
proof -
  show "follows c (close_message_item st)"
  proof (cases "ts_current st")
    case None
    then show ?thesis using assms by (simp add: close_message_item_def)
  next
    case (Some i)
    then obtain ss where ss: "cl_message c = Some (i, map JStr ss)" "map_of (ts_texts st) i = Some (concat ss)"
      using assms by (auto simp: simulates_def message_agrees_def)
    have "assembled (map JStr ss) (JStr (concat ss))"
      by (simp add: assembled_def list_all_iff json_string_def comp_def)
    then show ?thesis using assms Some ss
      by (auto simp: follows_def close_message_item_def simulates_def message_agrees_def tools_agree_def)
  qed
  show "ts_current (snd (close_message_item st)) = None"
    "ts_tool_items (snd (close_message_item st)) = ts_tool_items st"
    by (simp_all add: close_message_item_def Let_def split: option.split)
qed

lemma message_events_follows:
  assumes "simulates st c" "ts_current st = None" "next_item_id st = (i, st1)"
  shows "follows c (message_events i text, st1)"
proof -
  note n = next_item_id_fresh [OF assms(1,3)]
  have "cl_message c = None" using assms by (simp add: simulates_def message_agrees_def)
  moreover have "simulates st1 (c\<lparr>cl_seen := i # cl_seen c, cl_message := None\<rparr>)"
    using n(2,3) assms(2) by (auto simp: simulates_def message_agrees_def tools_agree_def)
  ultimately show ?thesis using n(1)
    by (simp add: follows_def message_events_def is_message_def assembled_def)
qed

lemma tool_body_not_message: "is_message \<lparr>ci_id = i, ci_body = tool_body num ty name input, ci_status = s\<rparr> = False"
  by (simp add: is_message_def tool_body_def Let_def split: item_type.split)

lemma store_tool_item:
  assumes "simulates st c" "item \<in> set (cl_tools c)"
    "\<And>k' a. map_of (ts_tool_items st) k' = Some a \<Longrightarrow> ci_id a \<noteq> ci_id item"
  shows "simulates (st\<lparr>ts_tool_items := AList.update k item (ts_tool_items st)\<rparr>) c"
proof -
  have "tools_agree (st\<lparr>ts_tool_items := AList.update k item (ts_tool_items st)\<rparr>) c"
    using assms unfolding simulates_def tools_agree_def by (auto simp: update_conv') metis+
  then show ?thesis using assms(1) by (simp add: simulates_def message_agrees_def split: option.splits)
qed

lemma start_tool_item_follows:
  assumes "simulates st c"
  shows "follows_unless c (start_tool_item raw st)"
proof -
  define name where "name = json_or (raw_get raw ''name'' (JStr '''')) (raw_get raw ''tool_name'' (JStr ''''))"
  define input where "input = raw_get raw ''input'' (raw_get raw ''tool_input'' (JObj []))"
  define use_id where "use_id = json_or (raw_get raw ''id'' (JStr '''')) (raw_get raw ''tool_use_id'' (JStr ''''))"
  obtain i st1 where n: "next_item_id st = (i, st1)" by (cases "next_item_id st")
  note fresh = next_item_id_fresh [OF assms n]
  have start: "client_step (ItemStarted item) c = Some (c\<lparr>cl_seen := i # cl_seen c, cl_tools := item # cl_tools c\<rparr>) \<and>
      simulates st1 (c\<lparr>cl_seen := i # cl_seen c, cl_tools := item # cl_tools c\<rparr>) \<and>
      simulates (st1\<lparr>ts_tool_items := AList.update k item (ts_tool_items st1)\<rparr>)
        (c\<lparr>cl_seen := i # cl_seen c, cl_tools := item # cl_tools c\<rparr>)"
    if "item = \<lparr>ci_id = i, ci_body = tool_body (ts_num st) ty name input, ci_status = ItemInProgress\<rparr>" for ty item k
  proof (intro conjI)
    have it: "ci_id item = i" "\<not> is_message item" "ci_status item = ItemInProgress"
      using tool_body_not_message unfolding that by simp_all
    show "client_step (ItemStarted item) c = Some (c\<lparr>cl_seen := i # cl_seen c, cl_tools := item # cl_tools c\<rparr>)"
      using fresh(1) it by simp
    show started: "simulates st1 (c\<lparr>cl_seen := i # cl_seen c, cl_tools := item # cl_tools c\<rparr>)"
      using fresh(2) it unfolding simulates_def message_agrees_def tools_agree_def by (auto split: option.splits)
    show "simulates (st1\<lparr>ts_tool_items := AList.update k item (ts_tool_items st1)\<rparr>)
        (c\<lparr>cl_seen := i # cl_seen c, cl_tools := item # cl_tools c\<rparr>)"
      by (rule store_tool_item [OF started]) (use tool_item_seen [OF assms] fresh(1,4) it in \<open>auto, metis\<close>)
  qed
  have "follows_unless c
     (if json_true use_id
      then checked (dict_key use_id) st1 (\<lambda>k. (Inr [ItemStarted item], st1\<lparr>ts_tool_items := AList.update k item (ts_tool_items st1)\<rparr>))
      else (Inr [ItemStarted item], st1))"
    if "item = \<lparr>ci_id = i, ci_body = tool_body (ts_num st) ty name input, ci_status = ItemInProgress\<rparr>" for ty item
    using start [OF that] by (auto intro!: checked_follows simp: follows_def)
  then show ?thesis
    unfolding start_tool_item_def Let_def name_def [symmetric] input_def [symmetric] use_id_def [symmetric] n
    by (auto intro!: checked_follows)
qed

lemma translate_tool_result_follows:
  assumes "simulates st c"
  shows "follows_unless c (translate_tool_result raw st)"
proof -
  have done_item: "follows c ([ItemCompleted (completed_item content b item)],
      st\<lparr>ts_tool_items := AList.delete k (ts_tool_items st)\<rparr>)"
    if m: "map_of (ts_tool_items st) k = Some item" for k item content b
  proof -
    let ?it = "completed_item content b item"
    have t: "item \<in> set (cl_tools c)" "\<not> is_message item"
      using assms m unfolding simulates_def tools_agree_def by blast+
    have "ci_id ?it = ci_id item" "ci_status ?it \<noteq> ItemInProgress" "same_call (ci_body item) (ci_body ?it)"
      "\<And>x. ci_body ?it \<noteq> AgentMessage x"
      using t(2) by (cases "ci_body item"; simp add: completed_item_def is_message_def)+
    then have "client_step (ItemCompleted ?it) c =
        Some (c\<lparr>cl_tools := filter (\<lambda>t. ci_id t \<noteq> ci_id item) (cl_tools c)\<rparr>)"
      using t(1) by (cases "ci_body ?it") (auto simp: list_ex_iff)
    moreover have "simulates (st\<lparr>ts_tool_items := AList.delete k (ts_tool_items st)\<rparr>)
        (c\<lparr>cl_tools := filter (\<lambda>t. ci_id t \<noteq> ci_id item) (cl_tools c)\<rparr>)"
      using assms m unfolding simulates_def message_agrees_def tools_agree_def
      by (auto simp: delete_conv' split: option.splits if_splits)
    ultimately show ?thesis by (simp add: follows_def)
  qed
  show ?thesis using assms
    by (auto simp: translate_tool_result_def Let_def intro!: checked_follows done_item split: option.split)
qed

text \<open>Text opens a message or extends the open one.\<close>

lemma translate_text_follows:
  assumes "simulates st c"
  shows "follows_unless c (translate_text tx st)"
proof (cases tx)
  case (JStr s)
  show ?thesis
  proof (cases "ts_current st")
    case None
    obtain i st1 where n: "next_item_id st = (i, st1)" by (cases "next_item_id st")
    note fresh = next_item_id_fresh [OF assms n]
    have none: "cl_message c = None" using assms None by (simp add: simulates_def message_agrees_def)
    have "simulates (st1\<lparr>ts_current := Some i, ts_texts := AList.update i s (AList.update i '''' (ts_texts st1))\<rparr>)
        (c\<lparr>cl_seen := i # cl_seen c, cl_message := Some (i, map JStr [s])\<rparr>)"
      using fresh(2) unfolding simulates_def message_agrees_def tools_agree_def
      by (auto simp: update_conv' intro!: exI [of _ "[s]"])
    then show ?thesis using assms None n none fresh(1) JStr
      by (auto simp: translate_text_def follows_def is_message_def update_conv' Let_def)
  next
    case (Some i)
    then obtain ss where ss: "cl_message c = Some (i, map JStr ss)" "map_of (ts_texts st) i = Some (concat ss)"
      using assms by (auto simp: simulates_def message_agrees_def)
    have "simulates (st\<lparr>ts_texts := AList.update i (concat ss @ s) (ts_texts st)\<rparr>)
        (c\<lparr>cl_message := Some (i, map JStr (ss @ [s]))\<rparr>)"
      using assms Some unfolding simulates_def message_agrees_def tools_agree_def
      by (auto simp: update_conv' intro!: exI [of _ "ss @ [s]"])
    then show ?thesis using assms Some ss JStr by (auto simp: translate_text_def follows_def Let_def)
  qed
qed (use assms in \<open>auto simp: translate_text_def Let_def split: prod.split\<close>)

lemma tool_use_follows:
  assumes "simulates st c" "close_message_item st = (ended, st1)"
  shows "follows_unless c (followed_by (Inr ended, st1) (start_tool_item raw))"
  using close_message_item_follows(1) [OF assms(1)] assms(2)
  by (intro followed_by_follows) (simp_all add: start_tool_item_follows)

lemma translate_block_follows: "simulates st c \<Longrightarrow> follows_unless c (translate_block block st)"
  by (auto simp: translate_block_def translate_text_follows tool_use_follows intro!: checked_follows split: prod.split)

lemma translate_result_block_follows: "simulates st c \<Longrightarrow> follows_unless c (translate_result_block block st)"
  by (auto simp: translate_result_block_def translate_tool_result_follows intro!: checked_follows)

lemma for_blocks_follows:
  assumes "\<And>b st c. simulates st c \<Longrightarrow> follows_unless c (f b st)"
  shows "simulates st c \<Longrightarrow> follows_unless c (for_blocks f bs st)"
  by (induction bs arbitrary: st c) (auto intro: followed_by_follows assms)

lemma translate_intermediate_text_follows:
  assumes "simulates st c"
  shows "follows_unless c (translate_intermediate_text raw st)"
proof -
  obtain ended st1 where cl: "close_message_item st = (ended, st1)" by (cases "close_message_item st")
  obtain i st2 where n: "next_item_id st1 = (i, st2)" by (cases "next_item_id st1")
  have c: "follows c (ended, st1)" and cur: "ts_current st1 = None"
    using close_message_item_follows [OF assms] cl by simp_all
  have "follows c (ended @ message_events i tx, st2)" for tx
    by (rule follows_append [OF c]) (rule message_events_follows [OF _ cur n])
  then show ?thesis using assms by (simp add: translate_intermediate_text_def cl n Let_def)
qed

text \<open>The end of a turn leaves no message open.\<close>

lemma turn_end_follows:
  assumes "simulates st c" "ts_current st = None" "ev = TurnCompleted t u \<or> ev = TurnFailed t m"
  shows "follows c ([ev], st)"
  using assms by (auto simp: follows_def simulates_def message_agrees_def tools_agree_def)

lemma translate_error_follows:
  assumes "simulates st c"
  shows "follows c (translate_error raw st)" "follows c (abort_turn message st)"
proof -
  obtain ended st1 where cl: "close_message_item st = (ended, st1)" by (cases "close_message_item st")
  have c: "follows c (ended, st1)" "ts_current st1 = None"
    using close_message_item_follows [OF assms] cl by simp_all
  then have "follows c (ended @ [TurnFailed t m], st1)" for t m
    using turn_end_follows by (intro follows_append) auto
  then show "follows c (translate_error raw st)" "follows c (abort_turn message st)"
    by (simp_all add: translate_error_def abort_turn_def cl)
qed

lemma translate_result_follows:
  assumes "simulates st c"
  shows "follows c (translate_result raw st)"
proof -
  obtain ended st1 where cl: "close_message_item st = (ended, st1)" by (cases "close_message_item st")
  have c: "follows c (ended, st1)" "ts_current st1 = None"
    using close_message_item_follows [OF assms] cl by simp_all
  have plain: "follows c (ended @ [TurnCompleted t u], st1)" for t u
    using c turn_end_follows by (intro follows_append) auto
  obtain i st2 where n: "next_item_id st1 = (i, st2)" by (cases "next_item_id st1")
  have cur: "ts_current st2 = None" using n c(2) by (auto simp: next_item_id_def)
  have notice: "follows c' (message_events i tx @ [TurnCompleted t u], st2)" if "simulates st1 c'" for tx t u c'
    using message_events_follows [OF that c(2) n] turn_end_follows cur by (intro follows_append) auto
  have "follows c (ended @ message_events i tx @ [TurnCompleted t u], st2)" for tx t u
    by (rule follows_append [OF c(1)]) (rule notice)
  then show ?thesis using plain n
    by (auto simp: translate_result_def build_notice_events_def cl Let_def)
qed

lemma translate_stream_event_follows:
  assumes "simulates st c"
  shows "follows_unless c (translate_stream_event ev st)"
  using assms
  by (auto simp: translate_stream_event_def Let_def translate_assistant_def translate_user_def translate_tool_use_def
      translate_intermediate_text_follows translate_tool_result_follows translate_result_follows translate_error_follows
      tool_use_follows
      intro!: checked_follows for_blocks_follows translate_block_follows translate_result_block_follows split: prod.split)

end
