(* ===== verification/Stream_Delivery.thy ===== *)
theory Stream_Delivery
  imports Stream_Client "HOL-Library.Sublist"
begin

text \<open>
  The way of the events to the WebSocket clients (\<open>core/streaming.py\<close>, lower half): the
  in-memory publish/subscribe with one bounded queue per connection, and the task that forwards
  a queue to its client under consecutive event ids. The lock is never held across a
  suspension, so every operation is one step of the event loop.
\<close>

datatype ws_event = ThreadStarted string | CodexEvent codex_event

datatype connection_phase = Connected | Forwarding | Ended

text \<open>
  A connection with its queue. \<open>co_subscribed\<close>: the queue is in the subscriber set of its
  channel; \<open>None\<close> in the queue ends the iterator.
\<close>

record connection =
  co_channel :: string
  co_phase :: connection_phase
  co_subscribed :: bool
  co_queue :: "codex_event option list"
  co_counter :: nat
  co_sent :: "(nat \<times> ws_event) list"

type_synonym bus = "connection list"

definition QUEUE_SIZE :: nat where
  "QUEUE_SIZE = 1000"

definition channel_for :: "string \<Rightarrow> string" where
  "channel_for session_id = ''ahs:stream:'' @ session_id"

text \<open>\<open>run_connection\<close> sends \<open>thread/started\<close> before it starts to forward.\<close>

definition run_connection :: "string \<Rightarrow> connection" where
  "run_connection session_id =
     \<lparr>co_channel = channel_for session_id, co_phase = Connected, co_subscribed = False, co_queue = [],
      co_counter = 1, co_sent = [(1, ThreadStarted session_id)]\<rparr>"

text \<open>\<open>queue.put_nowait\<close>; a full queue drops a message, and the end marker too.\<close>

definition put_message :: "codex_event \<Rightarrow> connection \<Rightarrow> connection" where
  "put_message m c =
     (if length (co_queue c) < QUEUE_SIZE then c\<lparr>co_queue := co_queue c @ [Some m]\<rparr> else c)"

definition put_end :: "connection \<Rightarrow> connection" where
  "put_end c = (if length (co_queue c) < QUEUE_SIZE then c\<lparr>co_queue := co_queue c @ [None]\<rparr> else c)"

definition publish :: "string \<Rightarrow> codex_event \<Rightarrow> bus \<Rightarrow> bus" where
  "publish ch m = map (\<lambda>c. if co_subscribed c \<and> co_channel c = ch then put_message m c else c)"

definition subscribe :: "connection \<Rightarrow> connection" where
  "subscribe c =
     (if co_phase c = Connected then c\<lparr>co_phase := Forwarding, co_subscribed := True, co_queue := []\<rparr> else c)"

text \<open>Leaving the \<open>subscribe\<close> block, by the end of the iterator or by cancellation.\<close>

definition unsubscribe :: "connection \<Rightarrow> connection" where
  "unsubscribe c = put_end (c\<lparr>co_phase := Ended, co_subscribed := False\<rparr>)"

definition close_channel :: "string \<Rightarrow> bus \<Rightarrow> bus" where
  "close_channel ch =
     map (\<lambda>c. if co_subscribed c \<and> co_channel c = ch then put_end (c\<lparr>co_subscribed := False\<rparr>) else c)"

definition has_subscribers :: "string \<Rightarrow> bus \<Rightarrow> bool" where
  "has_subscribers ch bus \<longleftrightarrow> list_ex (\<lambda>c. co_subscribed c \<and> co_channel c = ch) bus"

text \<open>One turn of the loop of \<open>_forward_events\<close>; it waits on an empty queue.\<close>

definition forward_event :: "connection \<Rightarrow> connection" where
  "forward_event c =
     (if co_phase c \<noteq> Forwarding then c
      else
        (case co_queue c of
           [] \<Rightarrow> c
         | None # rest \<Rightarrow> unsubscribe (c\<lparr>co_queue := rest\<rparr>)
         | Some m # rest \<Rightarrow>
             c\<lparr>co_queue := rest, co_counter := Suc (co_counter c),
               co_sent := co_sent c @ [(Suc (co_counter c), CodexEvent m)]\<rparr>))"

definition disconnect :: "connection \<Rightarrow> connection" where
  "disconnect c = (if co_phase c = Forwarding then unsubscribe c else c\<lparr>co_phase := Ended\<rparr>)"

datatype bus_action =
    Connect string
  | Subscribe nat
  | Publish string codex_event
  | Forward nat
  | Disconnect nat
  | CloseChannel string

definition on_connection :: "nat \<Rightarrow> (connection \<Rightarrow> connection) \<Rightarrow> bus \<Rightarrow> bus" where
  "on_connection i f bus = (if i < length bus then bus[i := f (bus ! i)] else bus)"

fun bus_step :: "bus_action \<Rightarrow> bus \<Rightarrow> bus" where
  "bus_step (Connect session_id) bus = bus @ [run_connection session_id]"
| "bus_step (Subscribe i) bus = on_connection i subscribe bus"
| "bus_step (Publish ch m) bus = publish ch m bus"
| "bus_step (Forward i) bus = on_connection i forward_event bus"
| "bus_step (Disconnect i) bus = on_connection i disconnect bus"
| "bus_step (CloseChannel ch) bus = close_channel ch bus"

definition run_bus :: "bus_action list \<Rightarrow> bus" where
  "run_bus steps = fold bus_step steps []"

section \<open>What a connection has been sent\<close>

definition queued_of :: "codex_event option list \<Rightarrow> codex_event list" where
  "queued_of q = concat (map (\<lambda>x. case x of None \<Rightarrow> [] | Some m \<Rightarrow> [m]) q)"

definition sent_of :: "(nat \<times> ws_event) list \<Rightarrow> codex_event list" where
  "sent_of l = concat (map (\<lambda>x. case snd x of CodexEvent m \<Rightarrow> [m] | ThreadStarted _ \<Rightarrow> []) l)"

lemma queued_of_simps [simp]:
  "queued_of [] = []" "queued_of (None # q) = queued_of q" "queued_of (Some m # q) = m # queued_of q"
  "queued_of (q @ q') = queued_of q @ queued_of q'"
  by (simp_all add: queued_of_def)

lemma sent_of_simps [simp]:
  "sent_of [] = []" "sent_of ((n, ThreadStarted s) # l) = sent_of l" "sent_of ((n, CodexEvent m) # l) = m # sent_of l"
  "sent_of (l @ l') = sent_of l @ sent_of l'"
  by (simp_all add: sent_of_def)

text \<open>
  The reference: what a subscriber of a channel is owed. It looks at the operations alone and
  counts how many messages wait. Connection \<open>i\<close> on channel \<open>ch\<close>, with \<open>n\<close> messages waiting, keeps the
  messages published on \<open>ch\<close> that find fewer than 1000 waiting, until the channel is
  closed or the client leaves.
\<close>

fun owed :: "nat \<Rightarrow> string \<Rightarrow> nat \<Rightarrow> bus_action list \<Rightarrow> codex_event list" where
  "owed i ch n [] = []"
| "owed i ch n (Publish ch' m # steps) =
     (if ch' = ch \<and> n < 1000 then m # owed i ch (Suc n) steps else owed i ch n steps)"
| "owed i ch n (Forward j # steps) = owed i ch (if j = i then n - 1 else n) steps"
| "owed i ch n (Disconnect j # steps) = (if j = i then [] else owed i ch n steps)"
| "owed i ch n (CloseChannel ch' # steps) = (if ch' = ch then [] else owed i ch n steps)"
| "owed i ch n (Connect s # steps) = owed i ch n steps"
| "owed i ch n (Subscribe j # steps) = owed i ch n steps"

definition published_on :: "string \<Rightarrow> bus_action list \<Rightarrow> codex_event list" where
  "published_on ch steps =
     concat (map (\<lambda>s. case s of Publish ch' m \<Rightarrow> (if ch' = ch then [m] else []) | _ \<Rightarrow> []) steps)"

lemma published_on_simps [simp]:
  "published_on ch [] = []"
  "published_on ch (Publish ch' m # steps) = (if ch' = ch then m # published_on ch steps else published_on ch steps)"
  "published_on ch (Forward j # steps) = published_on ch steps"
  "published_on ch (Disconnect j # steps) = published_on ch steps"
  "published_on ch (CloseChannel ch' # steps) = published_on ch steps"
  "published_on ch (Connect s # steps) = published_on ch steps"
  "published_on ch (Subscribe j # steps) = published_on ch steps"
  by (simp_all add: published_on_def)

lemma owed_subseq: "subseq (owed i ch n steps) (published_on ch steps)"
  by (induction i ch n steps rule: owed.induct) (auto intro: list_emb_Cons)

lemma owed_all:
  "n + length (published_on ch steps) \<le> 1000 \<Longrightarrow> Disconnect i \<notin> set steps \<Longrightarrow> CloseChannel ch \<notin> set steps \<Longrightarrow>
   owed i ch n steps = published_on ch steps"
  by (induction i ch n steps rule: owed.induct) auto

section \<open>The ids\<close>

text \<open>The ids count from 1 and only the first event is \<open>thread/started\<close>.\<close>

definition connection_ok :: "connection \<Rightarrow> bool" where
  "connection_ok c \<longleftrightarrow>
     map fst (co_sent c) = [1..<Suc (co_counter c)] \<and> 0 < co_counter c \<and>
     (\<exists>s. co_channel c = channel_for s \<and>
       map snd (co_sent c) = ThreadStarted s # map CodexEvent (sent_of (co_sent c))) \<and>
     length (co_queue c) \<le> QUEUE_SIZE \<and>
     (co_phase c = Connected \<longrightarrow> sent_of (co_sent c) = [] \<and> \<not> co_subscribed c) \<and>
     (co_phase c = Ended \<longrightarrow> \<not> co_subscribed c)"

lemma run_connection_ok: "connection_ok (run_connection s)"
  by (simp add: connection_ok_def run_connection_def)

lemma put_message_ok: "connection_ok c \<Longrightarrow> connection_ok (put_message m c)"
  by (auto simp: connection_ok_def put_message_def)

lemma put_end_ok: "connection_ok c \<Longrightarrow> connection_ok (put_end c)"
  by (auto simp: connection_ok_def put_end_def)

lemma subscribe_ok: "connection_ok c \<Longrightarrow> connection_ok (subscribe c)"
  by (auto simp: connection_ok_def subscribe_def)

lemma unsubscribe_ok: "connection_ok c \<Longrightarrow> connection_ok (unsubscribe c)"
  unfolding unsubscribe_def by (rule put_end_ok) (auto simp: connection_ok_def)

lemma close_ok: "connection_ok c \<Longrightarrow> connection_ok (put_end (c\<lparr>co_subscribed := False\<rparr>))"
  by (rule put_end_ok) (auto simp: connection_ok_def)

lemma forward_event_cases:
  obtains "co_phase c \<noteq> Forwarding \<or> co_queue c = []" "forward_event c = c"
  | rest where "co_phase c = Forwarding" "co_queue c = None # rest" "forward_event c = unsubscribe (c\<lparr>co_queue := rest\<rparr>)"
  | m rest where "co_phase c = Forwarding" "co_queue c = Some m # rest"
      "forward_event c = c\<lparr>co_queue := rest, co_counter := Suc (co_counter c),
         co_sent := co_sent c @ [(Suc (co_counter c), CodexEvent m)]\<rparr>"
  by (cases "co_phase c = Forwarding"; cases "co_queue c"; cases "hd (co_queue c)") (auto simp: forward_event_def)

lemma forward_event_ok: "connection_ok c \<Longrightarrow> connection_ok (forward_event c)"
proof (cases rule: forward_event_cases [of c])
  case (2 rest)
  assume "connection_ok c"
  then have "connection_ok (c\<lparr>co_queue := rest\<rparr>)" using 2 by (auto simp: connection_ok_def)
  then show ?thesis using 2 by (simp add: unsubscribe_ok)
qed (auto simp: connection_ok_def)

lemma disconnect_ok: "connection_ok c \<Longrightarrow> connection_ok (disconnect c)"
  by (cases "co_phase c") (auto simp: disconnect_def unsubscribe_ok, auto simp: connection_ok_def)

lemma on_connection_ok:
  assumes "list_all connection_ok bus" "\<And>c. connection_ok c \<Longrightarrow> connection_ok (f c)"
  shows "list_all connection_ok (on_connection i f bus)"
  using assms by (auto simp: on_connection_def list_all_length nth_list_update)

lemma bus_step_ok: "list_all connection_ok bus \<Longrightarrow> list_all connection_ok (bus_step s bus)"
proof (cases s)
  case (Publish ch m)
  then show "list_all connection_ok bus \<Longrightarrow> ?thesis" by (auto simp: publish_def list_all_iff put_message_ok)
next
  case (CloseChannel ch)
  then show "list_all connection_ok bus \<Longrightarrow> ?thesis" by (auto simp: close_channel_def list_all_iff close_ok)
qed (simp_all add: run_connection_ok on_connection_ok subscribe_ok forward_event_ok disconnect_ok)

lemma run_bus_ok: "list_all connection_ok (run_bus steps)"
proof -
  have "list_all connection_ok (fold bus_step steps bus)" if "list_all connection_ok bus" for bus
    using that by (induction steps arbitrary: bus) (auto simp: bus_step_ok)
  then show ?thesis by (simp add: run_bus_def)
qed

lemma run_bus_append: "run_bus (as @ bs) = fold bus_step bs (run_bus as)"
  by (simp add: run_bus_def)

section \<open>One connection among the others\<close>

text \<open>What each operation does to the connection at a position.\<close>

fun seen_by :: "nat \<Rightarrow> bus_action \<Rightarrow> connection \<Rightarrow> connection" where
  "seen_by i (Connect _) c = c"
| "seen_by i (Subscribe j) c = (if j = i then subscribe c else c)"
| "seen_by i (Publish ch m) c = (if co_subscribed c \<and> co_channel c = ch then put_message m c else c)"
| "seen_by i (Forward j) c = (if j = i then forward_event c else c)"
| "seen_by i (Disconnect j) c = (if j = i then disconnect c else c)"
| "seen_by i (CloseChannel ch) c =
     (if co_subscribed c \<and> co_channel c = ch then put_end (c\<lparr>co_subscribed := False\<rparr>) else c)"

lemma bus_step_nth: "i < length bus \<Longrightarrow> i < length (bus_step s bus) \<and> bus_step s bus ! i = seen_by i s (bus ! i)"
  by (cases s) (auto simp: on_connection_def publish_def close_channel_def nth_append)

lemma steps_nth:
  "i < length bus \<Longrightarrow> i < length (fold bus_step steps bus) \<and>
     fold bus_step steps bus ! i = fold (seen_by i) steps (bus ! i)"
  by (induction steps arbitrary: bus) (simp_all add: bus_step_nth)

text \<open>What was taken from the queue and what waits in it.\<close>

definition taken :: "connection \<Rightarrow> codex_event list" where
  "taken c = sent_of (co_sent c) @ queued_of (co_queue c)"

lemma put_end_taken [simp]: "taken (put_end c) = taken c"
  by (simp add: taken_def put_end_def)

lemma put_end_subscribed [simp]: "co_subscribed (put_end c) = co_subscribed c" "co_channel (put_end c) = co_channel c"
  "co_phase (put_end c) = co_phase c"
  by (simp_all add: put_end_def)

lemma taken_update [simp]:
  "taken (c\<lparr>co_subscribed := b\<rparr>) = taken c" "taken (c\<lparr>co_phase := p\<rparr>) = taken c"
  by (simp_all add: taken_def)

lemma unsubscribe_simps [simp]:
  "taken (unsubscribe c) = taken c" "\<not> co_subscribed (unsubscribe c)" "co_phase (unsubscribe c) = Ended"
  by (simp_all add: unsubscribe_def)

lemma forward_event_taken [simp]: "taken (forward_event c) = taken c"
  by (cases rule: forward_event_cases [of c]) (simp_all, simp_all add: taken_def)

text \<open>A connection that left or whose channel was closed gets nothing any more.\<close>

lemma seen_by_over:
  assumes "\<not> co_subscribed c" "co_phase c \<noteq> Connected"
  shows "\<not> co_subscribed (seen_by i s c) \<and> co_phase (seen_by i s c) \<noteq> Connected \<and> taken (seen_by i s c) = taken c"
proof (cases s)
  case (Forward j)
  have "\<not> co_subscribed (forward_event c) \<and> co_phase (forward_event c) \<noteq> Connected"
    using assms by (cases rule: forward_event_cases [of c]) auto
  then show ?thesis using assms Forward by simp
qed (use assms in \<open>auto simp: subscribe_def disconnect_def\<close>)

lemma over_stays: "\<not> co_subscribed c \<Longrightarrow> co_phase c \<noteq> Connected \<Longrightarrow> taken (fold (seen_by i) steps c) = taken c"
  by (induction steps arbitrary: c) (simp_all add: seen_by_over)

text \<open>A subscribed connection gets exactly what it is owed.\<close>

lemma subscribed_gets_owed:
  assumes "co_subscribed c" "co_phase c = Forwarding" "co_queue c = map Some q"
  shows "taken (fold (seen_by i) steps c) = taken c @ owed i (co_channel c) (length q) steps"
  using assms
proof (induction steps arbitrary: c q)
  case (Cons s steps)
  show ?case
  proof (cases s)
    case (Publish ch m)
    show ?thesis
    proof (cases "ch = co_channel c \<and> length q < 1000")
      case True
      let ?c = "c\<lparr>co_queue := map Some (q @ [m])\<rparr>"
      have "taken (fold (seen_by i) steps ?c) = taken ?c @ owed i (co_channel ?c) (length (q @ [m])) steps"
        using Cons.prems by (intro Cons.IH) simp_all
      then show ?thesis using True Publish Cons.prems by (simp add: put_message_def QUEUE_SIZE_def taken_def)
    next
      case False
      then have "seen_by i s c = c" using Publish Cons.prems by (auto simp: put_message_def QUEUE_SIZE_def)
      then show ?thesis using Cons.IH [OF Cons.prems] False Publish by auto
    qed
  next
    case (Forward j)
    show ?thesis
    proof (cases "j = i \<and> q \<noteq> []")
      case True
      then obtain m q' where q: "q = m # q'" by (cases q) auto
      let ?c = "c\<lparr>co_queue := map Some q', co_counter := Suc (co_counter c),
         co_sent := co_sent c @ [(Suc (co_counter c), CodexEvent m)]\<rparr>"
      have "seen_by i s c = ?c" using Forward True Cons.prems q by (simp add: forward_event_def)
      moreover have "taken (fold (seen_by i) steps ?c) = taken ?c @ owed i (co_channel ?c) (length q') steps"
        using Cons.prems by (intro Cons.IH) simp_all
      moreover have "taken ?c = taken c" using Cons.prems(3) q by (simp add: taken_def)
      ultimately show ?thesis using True Forward q by simp
    next
      case False
      then have "seen_by i s c = c" using Forward Cons.prems by (auto simp: forward_event_def)
      then show ?thesis using Cons.IH [OF Cons.prems] False Forward by auto
    qed
  next
    case (Subscribe j)
    then have "seen_by i s c = c" using Cons.prems(2) by (simp add: subscribe_def)
    then show ?thesis using Cons.IH [OF Cons.prems] Subscribe by simp
  next
    case (Disconnect j)
    then show ?thesis using Cons.IH [OF Cons.prems] Cons.prems(2) by (auto simp: disconnect_def over_stays)
  next
    case (CloseChannel ch)
    then show ?thesis using Cons.IH [OF Cons.prems] Cons.prems by (auto simp: over_stays)
  next
    case (Connect session_id)
    then show ?thesis using Cons.IH [OF Cons.prems] by simp
  qed
qed simp

lemma subscription_gets_owed:
  assumes "i < length (run_bus before)" "co_phase (run_bus before ! i) = Connected"
  shows "taken (run_bus (before @ Subscribe i # after) ! i) = owed i (co_channel (run_bus before ! i)) 0 after"
proof -
  have i: "i < length (bus_step (Subscribe i) (run_bus before))"
    "bus_step (Subscribe i) (run_bus before) ! i = subscribe (run_bus before ! i)"
    using bus_step_nth [OF assms(1), of "Subscribe i"] by auto
  have "connection_ok (run_bus before ! i)" using run_bus_ok assms(1) by (simp add: list_all_length)
  then have "sent_of (co_sent (run_bus before ! i)) = []" using assms(2) by (simp add: connection_ok_def)
  then have "taken (subscribe (run_bus before ! i)) = []" using assms(2) by (simp add: subscribe_def taken_def)
  then show ?thesis
    using steps_nth [OF i(1), of after] i(2) assms(2)
      subscribed_gets_owed [of "subscribe (run_bus before ! i)" "[]" i after]
    by (simp add: run_bus_append subscribe_def)
qed

text \<open>A connection keeps its channel.\<close>

lemma put_end_channel: "co_channel (unsubscribe c) = co_channel c"
  by (simp add: unsubscribe_def)

lemma seen_by_channel: "co_channel (seen_by i s c) = co_channel c"
proof (cases s)
  case (Forward j)
  have "co_channel (forward_event c) = co_channel c"
    by (cases rule: forward_event_cases [of c]) (simp_all add: put_end_channel)
  then show ?thesis using Forward by simp
qed (auto simp: subscribe_def put_message_def disconnect_def put_end_channel)

lemma connection_stays:
  assumes "i < length bus"
  shows "i < length (fold bus_step steps bus)" "co_channel (fold bus_step steps bus ! i) = co_channel (bus ! i)"
proof -
  have "co_channel (fold (seen_by i) steps c) = co_channel c" for c
    by (induction steps arbitrary: c) (simp_all add: seen_by_channel)
  then show "i < length (fold bus_step steps bus)" "co_channel (fold bus_step steps bus ! i) = co_channel (bus ! i)"
    using steps_nth [OF assms, of steps] by simp_all
qed

end
