(* ===== verification/Stream_Properties.thy ===== *)
theory Stream_Properties
  imports Stream_Delivery
begin

text \<open>
  The properties of event streaming: the translated events of a turn are a protocol a client can
  follow, and they reach each connection in order under consecutive ids.
\<close>

section \<open>Ends of the turn\<close>

definition turn_end :: "codex_event \<Rightarrow> bool" where
  "turn_end e \<longleftrightarrow> (case e of TurnCompleted _ _ \<Rightarrow> True | TurnFailed _ _ \<Rightarrow> True | _ \<Rightarrow> False)"

abbreviation ends :: "codex_event list \<Rightarrow> nat" where
  "ends es \<equiv> length (filter turn_end es)"

lemma client_run_ends: "client_run es c = Some c' \<Longrightarrow> cl_ends c' = cl_ends c + ends es"
proof (induction es arbitrary: c)
  case (Cons e es)
  then obtain c1 where c1: "client_step e c = Some c1" "client_run es c1 = Some c'" by (auto split: option.splits)
  have "cl_ends c1 = cl_ends c + (if turn_end e then 1 else 0)"
    using c1(1) by (cases e; auto simp: turn_end_def split: if_splits option.splits item_body.splits)
  then show ?case using Cons.IH [OF c1(2)] by simp
qed simp

text \<open>Only result and error events end a turn, once each.\<close>

definition ends_with :: "nat \<Rightarrow> translation \<Rightarrow> bool" where
  "ends_with n m \<longleftrightarrow> (case fst m of Inl _ \<Rightarrow> True | Inr xs \<Rightarrow> ends xs = n)"

lemma ends_with_simps [simp]: "ends_with n (Inl e, st)" "ends_with n (Inr xs, st) \<longleftrightarrow> ends xs = n"
  by (simp_all add: ends_with_def)

lemma ends_with_checked: "(\<And>x. m = Inr x \<Longrightarrow> ends_with n (f x)) \<Longrightarrow> ends_with n (checked m st f)"
  by (cases m) (auto simp: checked_def)

lemma ends_with_followed_by: "ends_with 0 m \<Longrightarrow> (\<And>st. ends_with 0 (f st)) \<Longrightarrow> ends_with 0 (followed_by m f)"
proof (cases m; cases "fst m")
  fix r st xs
  assume m: "m = (r, st)" "fst m = Inr xs" and f: "ends_with 0 m" "\<And>st. ends_with 0 (f st)"
  obtain r' st' where "f st = (r', st')" by (cases "f st")
  then show ?thesis using m f(1) f(2) [of st] by (cases r') (auto simp: followed_by_def)
qed (auto simp: followed_by_def)

lemma close_ends: "close_message_item st = (es, st') \<Longrightarrow> ends es = 0"
  by (auto simp: close_message_item_def turn_end_def Let_def split: option.splits)

lemma message_ends [simp]: "filter turn_end (message_events i t) = []"
  by (simp add: message_events_def turn_end_def)

lemma start_tool_ends: "ends_with 0 (start_tool_item raw st)"
  by (auto simp: start_tool_item_def Let_def turn_end_def intro!: ends_with_checked split: prod.split)

lemma tool_result_ends: "ends_with 0 (translate_tool_result raw st)"
  by (auto simp: translate_tool_result_def Let_def turn_end_def intro!: ends_with_checked split: option.split)

lemma text_ends: "ends_with 0 (translate_text t st)"
  by (auto simp: translate_text_def Let_def turn_end_def split: option.splits json.split prod.split)

lemma tool_use_ends: "close_message_item st = (es, st1) \<Longrightarrow> ends_with 0 (followed_by (Inr es, st1) (start_tool_item raw))"
  by (auto intro!: ends_with_followed_by simp: start_tool_ends dest: close_ends)

lemma for_blocks_ends: "(\<And>b st. ends_with 0 (f b st)) \<Longrightarrow> ends_with 0 (for_blocks f bs st)"
  by (induction bs arbitrary: st) (auto intro: ends_with_followed_by)

lemma block_ends: "ends_with 0 (translate_block b st)" "ends_with 0 (translate_result_block b st)"
  by (auto simp: translate_block_def translate_result_block_def text_ends tool_use_ends tool_result_ends
      intro!: ends_with_checked split: prod.split)

definition ends_turn :: "stream_event \<Rightarrow> bool" where
  "ends_turn ev \<longleftrightarrow> se_type ev = ''result'' \<or> se_type ev = ''error''"

lemma translate_ends: "ends_with (if ends_turn ev then 1 else 0) (translate_stream_event ev st)"
proof (cases "ends_turn ev")
  case False
  then show ?thesis
    by (auto simp: translate_stream_event_def Let_def ends_turn_def translate_assistant_def translate_user_def
        translate_tool_use_def translate_intermediate_text_def tool_use_ends tool_result_ends
        intro!: ends_with_checked for_blocks_ends block_ends dest: close_ends split: prod.split)
next
  case True
  obtain es st1 where cl: "close_message_item st = (es, st1)" by (cases "close_message_item st")
  note close_ends [OF cl]
  then show ?thesis using True
    by (auto simp: translate_stream_event_def Let_def ends_turn_def translate_result_def translate_error_def cl
        build_notice_events_def turn_end_def split: prod.split)
qed

section \<open>The stream of a turn\<close>

lemma stream_events_follows:
  assumes "simulates st c" "stream_events raw st = (evs, e, st')"
  shows "\<exists>c'. client_run evs c = Some c' \<and> (e = None \<longrightarrow> simulates st' c' \<and> ends evs = length (filter ends_turn raw))"
  using assms
proof (induction raw arbitrary: st c evs)
  case (Cons ev raw)
  obtain r st1 where t: "translate_stream_event ev st = (r, st1)" by (cases "translate_stream_event ev st")
  show ?case
  proof (cases r)
    case (Inl err)
    then show ?thesis using Cons.prems t by auto
  next
    case (Inr xs)
    obtain ys where ys: "stream_events raw st1 = (ys, e, st')" "evs = xs @ ys"
      using Cons.prems(2) t Inr by (auto simp: Let_def split: prod.splits)
    have x: "ends xs = (if ends_turn ev then 1 else 0)" using translate_ends [of ev st] t Inr by simp
    obtain c1 where c1: "client_run xs c = Some c1" "simulates st1 c1"
      using translate_stream_event_follows [OF Cons.prems(1), of ev] t Inr by (auto simp: follows_def)
    then show ?thesis using Cons.IH [OF c1(2) ys(1)] x ys(2) by (auto simp: client_run_append)
  qed
qed auto

text \<open>
  C20: If the ids drawn in a turn are distinct, then whatever events the runner emits, over all
  attempts of the turn, a client accepts the translated stream: items are started under fresh
  ids, deltas belong to the one open message, a completed message has the text of its deltas, a
  completed tool item was started for the same call, and no message is open when the turn ends.
  Without an exception the client's open items are those of the translator, and it sees one end
  of the turn per result or error event, so an attempt that fails over to another model after an
  error event ends the turn twice; a cancelled turn is accepted, too.
\<close>

theorem stream_refines_client:
  assumes "inj ids"
    and "stream_events raw (new_translation_state turn_id ids num notice_text) = (evs, e, st)"
  shows "\<exists>c. client_run (TurnStarted turn_id # evs) new_client = Some c \<and>
    (e = None \<longrightarrow>
      simulates st c \<and> cl_ends c = length (filter ends_turn raw) \<and>
      client_run (TurnStarted turn_id # evs @ fst (abort_turn message st)) new_client \<noteq> None)"
proof -
  obtain c where c: "client_run evs new_client = Some c"
    "e = None \<longrightarrow> simulates st c \<and> ends evs = length (filter ends_turn raw)"
    using stream_events_follows [OF new_simulates [OF assms(1)] assms(2)] by blast
  have "client_run (fst (abort_turn message st)) c \<noteq> None" if "e = None"
    using translate_error_follows(2) [of st c message] c(2) that by (auto simp: follows_def)
  then show ?thesis using c client_run_ends [OF c(1)]
    by (auto simp: client_run_append new_client_def)
qed

text \<open>A first attempt that streams an error event, and the fallback attempt that succeeds.\<close>

definition failover_events :: "stream_event list" where
  "failover_events =
     [\<lparr>se_type = ''error'', se_raw = [(''error'', JStr ''rate limit'')]\<rparr>,
      \<lparr>se_type = ''assistant'', se_raw = [(''message'', JObj [(''content'', JList
          [JObj [(''type'', JStr ''text''), (''text'', JStr ''ok'')],
           JObj [(''type'', JStr ''tool_use''), (''name'', JStr ''Bash''), (''id'', JStr ''t1'')]])])]\<rparr>,
      \<lparr>se_type = ''tool_result'', se_raw = [(''tool_use_id'', JStr ''t1''), (''content'', JStr ''done'')]\<rparr>,
      \<lparr>se_type = ''result'', se_raw = []\<rparr>]"

definition example_ids :: "nat \<Rightarrow> string" where
  "example_ids n = replicate n CHR ''i''"

lemma inj_example_ids: "inj example_ids"
  unfolding example_ids_def inj_def by (metis length_replicate)

definition failover_start :: translation_state where
  "failover_start = new_translation_state ''s:1'' example_ids (\<lambda>_. ''0'') (\<lambda>_. ''stopped'')"

lemma failover_stream:
  obtains evs st where "stream_events failover_events failover_start = (evs, None, st)" "length evs = 7"
proof -
  have "length (fst (stream_events failover_events failover_start)) = 7 \<and>
      fst (snd (stream_events failover_events failover_start)) = None"
    by code_simp
  then show thesis using that by (cases "stream_events failover_events failover_start") auto
qed

theorem stream_refines_client_witness:
  "\<exists>evs st c. stream_events failover_events failover_start = (evs, None, st) \<and> length evs = 7 \<and>
    client_run (TurnStarted ''s:1'' # evs) new_client = Some c \<and> cl_ends c = 2"
proof -
  obtain evs st where s: "stream_events failover_events failover_start = (evs, None, st)" "length evs = 7"
    by (rule failover_stream)
  have "length (filter ends_turn failover_events) = 2" by code_simp
  then show ?thesis
    using stream_refines_client [OF inj_example_ids s(1) [unfolded failover_start_def]] s by auto
qed

section \<open>Delivery\<close>

text \<open>
  C21: In every interleaving of connections, subscriptions, publications, forwarding, closed
  channels and disconnects, a connection that is not subscribed yet (the state after \<open>before\<close>) and
  then subscribes gets the following, whatever happens to it and the others \<open>after\<close>: it has been sent
  \<open>thread/started\<close> of its session and then events under the ids 1, 2, 3 and so on; what it was sent
  followed by what waits in its queue is exactly what was published on its own channel since it
  subscribed, in order, without what found 1000 messages waiting, and up to the closing of the
  channel or its leaving. If no more than 1000 are published in that time nothing is lost. The ids count what
  is sent, so a client cannot see a loss.
\<close>

theorem events_delivered_in_order:
  assumes "i < length (run_bus before)" "co_phase (run_bus before ! i) = Connected"
    and "c = run_bus (before @ Subscribe i # after) ! i"
  shows "\<exists>session_id.
      map fst (co_sent c) = [1..<Suc (length (co_sent c))] \<and>
      map snd (co_sent c) = ThreadStarted session_id # map CodexEvent (sent_of (co_sent c)) \<and>
      sent_of (co_sent c) @ queued_of (co_queue c) = owed i (channel_for session_id) 0 after \<and>
      subseq (owed i (channel_for session_id) 0 after) (published_on (channel_for session_id) after) \<and>
      (length (published_on (channel_for session_id) after) \<le> 1000 \<longrightarrow> Disconnect i \<notin> set after \<longrightarrow>
        CloseChannel (channel_for session_id) \<notin> set after \<longrightarrow>
        sent_of (co_sent c) @ queued_of (co_queue c) = published_on (channel_for session_id) after)"
proof -
  have "i < length (run_bus (before @ Subscribe i # after))" and n: "co_channel c = co_channel (run_bus before ! i)"
    using connection_stays [OF assms(1), of "Subscribe i # after"] assms(3) by (simp_all add: run_bus_append)
  then have c: "connection_ok c" using run_bus_ok assms(3) by (simp add: list_all_length)
  then obtain s where s: "co_channel c = channel_for s"
    "map snd (co_sent c) = ThreadStarted s # map CodexEvent (sent_of (co_sent c))"
    by (auto simp: connection_ok_def)
  have m: "map fst (co_sent c) = [1..<Suc (co_counter c)]" using c by (simp add: connection_ok_def)
  then have "length (co_sent c) = co_counter c" by (metis length_map length_upt diff_Suc_1)
  moreover have "sent_of (co_sent c) @ queued_of (co_queue c) = owed i (channel_for s) 0 after"
    using subscription_gets_owed [OF assms(1,2), of after] assms(3) n s(1) by (simp add: taken_def)
  ultimately show ?thesis using m s(2) owed_subseq [of i "channel_for s" 0 after]
      owed_all [of 0 "channel_for s" after i] by (intro exI [of _ s]) simp
qed

definition delivery_before :: "bus_action list" where
  "delivery_before = [Connect ''r'', Connect ''s'']"

definition delivery_after :: "bus_action list" where
  "delivery_after = [Publish (channel_for ''s'') (TurnStarted ''s:1''), Forward 1,
     Publish (channel_for ''r'') (TurnStarted ''r:1'')]"

lemma delivery_example:
  "1 < length (run_bus delivery_before)" "co_phase (run_bus delivery_before ! 1) = Connected"
  "run_bus (delivery_before @ Subscribe 1 # delivery_after) ! 1 =
     \<lparr>co_channel = channel_for ''s'', co_phase = Forwarding, co_subscribed = True, co_queue = [], co_counter = 2,
      co_sent = [(1, ThreadStarted ''s''), (2, CodexEvent (TurnStarted ''s:1''))]\<rparr>"
  by (simp_all add: run_bus_def on_connection_def run_connection_def subscribe_def publish_def channel_for_def
      put_message_def forward_event_def QUEUE_SIZE_def delivery_before_def delivery_after_def)

definition delivery_result :: connection where
  "delivery_result =
     \<lparr>co_channel = channel_for ''s'', co_phase = Forwarding, co_subscribed = True, co_queue = [], co_counter = 2,
      co_sent = [(1, ThreadStarted ''s''), (2, CodexEvent (TurnStarted ''s:1''))]\<rparr>"

theorem events_delivered_in_order_witness:
  "run_bus (delivery_before @ Subscribe 1 # delivery_after) ! 1 = delivery_result \<and>
    sent_of (co_sent delivery_result) @ queued_of (co_queue delivery_result) =
      published_on (channel_for ''s'') delivery_after \<and>
    published_on (channel_for ''s'') delivery_after = [TurnStarted ''s:1'']"
proof -
  have r: "delivery_result = run_bus (delivery_before @ Subscribe 1 # delivery_after) ! 1"
    unfolding delivery_result_def by (rule delivery_example(3) [symmetric])
  have p: "published_on (channel_for ''s'') delivery_after = [TurnStarted ''s:1'']"
    "Disconnect 1 \<notin> set delivery_after" "CloseChannel (channel_for ''s'') \<notin> set delivery_after"
    by (simp_all add: delivery_after_def channel_for_def)
  obtain s where s: "map snd (co_sent delivery_result) = ThreadStarted s # map CodexEvent (sent_of (co_sent delivery_result))"
    "length (published_on (channel_for s) delivery_after) \<le> 1000 \<longrightarrow> Disconnect 1 \<notin> set delivery_after \<longrightarrow>
        CloseChannel (channel_for s) \<notin> set delivery_after \<longrightarrow>
        sent_of (co_sent delivery_result) @ queued_of (co_queue delivery_result) =
          published_on (channel_for s) delivery_after"
    using events_delivered_in_order [OF delivery_example(1,2) r] by (elim exE conjE) (rule that)
  then have "s = ''s''" by (simp add: delivery_result_def)
  then have "sent_of (co_sent delivery_result) @ queued_of (co_queue delivery_result) = [TurnStarted ''s:1'']"
    using s(2) p by simp
  then show ?thesis unfolding p r [symmetric] by blast
qed

text \<open>
  A client whose subscription saw nothing but the events of a turn, from its start on
  and no more than its queue holds, has been sent a beginning of the translated stream, which
  it accepts: the translator, the channel and the forwarding task together keep the protocol.
\<close>

lemma connected_client_served:
  assumes "inj ids"
    and "stream_events raw (new_translation_state turn_id ids num notice_text) = (evs, e, st)"
    and "i < length (run_bus before)" "co_phase (run_bus before ! i) = Connected"
    and "c = run_bus (before @ Subscribe i # after) ! i"
    and "length (published_on (co_channel c) after) \<le> 1000" "Disconnect i \<notin> set after"
      "CloseChannel (co_channel c) \<notin> set after"
    and "prefix (published_on (co_channel c) after) (TurnStarted turn_id # evs)"
  shows "prefix (sent_of (co_sent c)) (TurnStarted turn_id # evs) \<and> client_run (sent_of (co_sent c)) new_client \<noteq> None"
proof -
  have "co_channel c = co_channel (run_bus before ! i)"
    using connection_stays [OF assms(3), of "Subscribe i # after"] assms(5) by (simp add: run_bus_append)
  then have "sent_of (co_sent c) @ queued_of (co_queue c) = published_on (co_channel c) after"
    using subscription_gets_owed [OF assms(3,4), of after] owed_all [of 0 "co_channel c" after i] assms(5-8)
    by (simp add: taken_def)
  then have p: "prefix (sent_of (co_sent c)) (TurnStarted turn_id # evs)"
    using assms(9) by (metis prefixI prefix_order.trans)
  then obtain rest where "TurnStarted turn_id # evs = sent_of (co_sent c) @ rest" by (rule prefixE)
  moreover obtain c' where "client_run (TurnStarted turn_id # evs) new_client = Some c'"
    using stream_events_follows [OF new_simulates [OF assms(1)] assms(2)] by auto
  ultimately have "client_run (sent_of (co_sent c)) new_client \<noteq> None"
    by (auto simp: client_run_append split: option.splits)
  then show ?thesis using p by blast
qed

end
