(* ===== verification/Session_Turns.thy ===== *)
theory Session_Turns
  imports Py_Runtime
begin

text \<open>
  The turns of one agent session (\<open>service/session_lifecycle.py\<close>, \<open>service/run_task.py\<close>,
  \<open>service/resolvers.py\<close>, the recovery of \<open>lifespan.py\<close>): messages that start a turn or wait
  for the running one, the background task of a turn from its start to the draining of what
  waited, subagent results, messages of other agents, stops and restarts. A definition is what
  runs between two suspensions: a database transaction or the code between awaits. Redis and
  the database answer; their failures are left out.
\<close>

section \<open>Messages\<close>

datatype session_status = SessionActive | SessionCompleted | SessionStale

datatype message_role = UserRole | AgentRole | SystemRole | FellowAgentRole

datatype completion_status = MsgInProgress | MsgSuccess | MsgFailed | MsgAborted

datatype message_error = NoError | ErrorMaxTurns | ErrorContextOverflow | ErrorExecutor | ErrorInternal

record turn_message =
  tm_id :: nat
  tm_turn :: nat
  tm_role :: message_role
  tm_content :: string
  tm_completion :: completion_status
  tm_error :: message_error

record pending_message =
  pm_message :: string
  pm_slack_user_id :: "string option"
  pm_user_id :: "string option"

definition inbound :: "message_role \<Rightarrow> bool" where
  "inbound r \<longleftrightarrow> r = UserRole \<or> r = FellowAgentRole"

text \<open>\<open>max\<close> over the turn numbers of some messages, \<open>None\<close> if there are none.\<close>

definition max_turn :: "(turn_message \<Rightarrow> bool) \<Rightarrow> turn_message list \<Rightarrow> nat option" where
  "max_turn p ms =
     (case map tm_turn (filter p ms) of [] \<Rightarrow> None | t # ts \<Rightarrow> Some (fold max ts t))"

definition next_turn_number :: "turn_message list \<Rightarrow> nat" where
  "next_turn_number ms = Suc (case max_turn (\<lambda>_. True) ms of None \<Rightarrow> 0 | Some t \<Rightarrow> t)"

text \<open>A completed response: neither a request nor a draft.\<close>

definition completed_response :: "nat \<Rightarrow> turn_message \<Rightarrow> bool" where
  "completed_response t m \<longleftrightarrow> tm_turn m = t \<and> \<not> inbound (tm_role m) \<and> tm_completion m \<noteq> MsgInProgress"

definition has_inflight_turn :: "turn_message list \<Rightarrow> bool" where
  "has_inflight_turn ms =
     (case max_turn (inbound \<circ> tm_role) ms of
        None \<Rightarrow> False
      | Some t \<Rightarrow> count_rows (completed_response t) ms = 0)"

section \<open>The session\<close>

text \<open>
  A task of \<open>_run_agent_task\<close>. \<open>TaskCreated\<close>: not run yet; \<open>TaskRunning\<close>: past the guard;
  \<open>TaskFinally\<close>: in the \<open>finally\<close> block; then it takes the pending messages, sends them, waits until
  the turn they start is registered, reads the inbox and leaves.
\<close>

datatype task_phase =
    TaskCreated
  | TaskRunning
  | TaskFinally
  | TaskDraining
  | TaskHolding "pending_message list"
  | TaskWaiting
  | TaskInbox
  | TaskExiting

record turn_task =
  tt_id :: nat
  tt_turn :: nat
  tt_input :: string
  tt_phase :: task_phase
  tt_draft :: "nat option"
  tt_cancelled :: bool

text \<open>A turn whose request is committed and whose task is not registered yet. \<open>st_resume\<close>: the
  resume flag is read first; \<open>st_origin\<close>: the task in whose \<open>finally\<close> block it starts, and its next
  phase.\<close>

record turn_start =
  st_turn :: nat
  st_input :: string
  st_resume :: bool
  st_origin :: "(nat \<times> task_phase) option"

text \<open>A stop request past its first phase.\<close>

record turn_stop =
  tp_turn :: nat
  tp_task :: "nat option"
  tp_cancelled :: bool

text \<open>
  The database row and its messages, the entries of \<open>_pending_messages\<close> and \<open>_active_tasks\<close>, the
  Redis flags, and the coroutines at work. \<open>sn_injections\<close>: subagent results that found the
  session idle. \<open>sn_slack_user\<close>: the lookup of Slack users; \<open>sn_agent_ok\<close>: the agent has a row.
\<close>

record session_state =
  sn_status :: session_status
  sn_slack :: bool
  sn_interactive :: bool
  sn_creator :: "string option"
  sn_agent_ok :: bool
  sn_agent_name :: string
  sn_slack_user :: "string \<Rightarrow> string option"
  sn_messages :: "turn_message list"
  sn_next_id :: nat
  sn_pending :: "pending_message list"
  sn_active :: "nat option"
  sn_tasks :: "turn_task list"
  sn_next_task :: nat
  sn_starts :: "turn_start list"
  sn_injections :: "string list"
  sn_stops :: "turn_stop list"
  sn_executor_running :: bool
  sn_resume_pending :: bool

definition MAX_PENDING_MESSAGES :: nat where
  "MAX_PENDING_MESSAGES = 50"

definition mark_session_completed :: "session_state \<Rightarrow> session_state" where
  "mark_session_completed st = st\<lparr>sn_status := SessionCompleted\<rparr>"

text \<open>\<open>if status in (COMPLETED, STALE): status = ACTIVE\<close>\<close>

definition reactivate :: "session_state \<Rightarrow> session_state" where
  "reactivate st = st\<lparr>sn_status := SessionActive\<rparr>"

definition add_message ::
  "nat \<Rightarrow> message_role \<Rightarrow> string \<Rightarrow> completion_status \<Rightarrow> message_error \<Rightarrow> session_state \<Rightarrow> nat \<times> session_state" where
  "add_message turn r content completion err st =
     (sn_next_id st,
      st\<lparr>sn_messages := sn_messages st @
            [\<lparr>tm_id = sn_next_id st, tm_turn = turn, tm_role = r, tm_content = content,
              tm_completion = completion, tm_error = err\<rparr>],
         sn_next_id := Suc (sn_next_id st)\<rparr>)"

definition update_message :: "nat \<Rightarrow> (turn_message \<Rightarrow> turn_message) \<Rightarrow> session_state \<Rightarrow> session_state" where
  "update_message i f st = st\<lparr>sn_messages := modify tm_id i f (sn_messages st)\<rparr>"

definition delete_message :: "nat option \<Rightarrow> session_state \<Rightarrow> session_state" where
  "delete_message i st = st\<lparr>sn_messages := filter (\<lambda>m. Some (tm_id m) \<noteq> i) (sn_messages st)\<rparr>"

text \<open>The request row of a new turn, and its start.\<close>

definition open_turn ::
  "message_role \<Rightarrow> string \<Rightarrow> string \<Rightarrow> bool \<Rightarrow> (nat \<times> task_phase) option \<Rightarrow> session_state \<Rightarrow> session_state" where
  "open_turn r content input resume origin st =
     (let turn = next_turn_number (sn_messages st);
          (_, st1) = add_message turn r content MsgSuccess NoError (reactivate st)
      in st1\<lparr>sn_starts := sn_starts st1 @
              [\<lparr>st_turn = turn, st_input = input, st_resume = resume, st_origin = origin\<rparr>]\<rparr>)"

section \<open>send_message\<close>

record send_request =
  rq_message :: string
  rq_slack_user_id :: "string option"
  rq_user_id :: "string option"

datatype send_error =
    UserIdRequired
  | LegacySession
  | SenderMismatch
  | PendingQueueFull
  | AgentNotFound
  | AgentConfigNotFound

datatype send_result = MessageQueued | TurnProcessing nat

definition given :: "string option \<Rightarrow> string option" where
  "given s = (case s of Some [] \<Rightarrow> None | _ \<Rightarrow> s)"

definition message_creator :: "session_state \<Rightarrow> send_request \<Rightarrow> string option" where
  "message_creator st rq =
     (case given (rq_user_id rq) of
        Some u \<Rightarrow> Some u
      | None \<Rightarrow> (case given (rq_slack_user_id rq) of None \<Rightarrow> None | Some s \<Rightarrow> given (sn_slack_user st s)))"

definition send_message ::
  "(nat \<times> task_phase) option \<Rightarrow> send_request \<Rightarrow> bool \<Rightarrow> session_state \<Rightarrow> (send_error + send_result) \<times> session_state" where
  "send_message origin rq config_ok st =
     (case message_creator st rq of
        None \<Rightarrow> (Inl UserIdRequired, st)
      | Some creator \<Rightarrow>
          if \<not> sn_slack st \<and> given (sn_creator st) = None then (Inl LegacySession, st)
          else if \<not> sn_slack st \<and> sn_creator st \<noteq> Some creator then (Inl SenderMismatch, st)
          else if sn_status st \<noteq> SessionStale \<and> has_inflight_turn (sn_messages st)
          then (if MAX_PENDING_MESSAGES \<le> length (sn_pending st) then (Inl PendingQueueFull, st)
                else (Inr MessageQueued,
                      st\<lparr>sn_pending := sn_pending st @
                            [\<lparr>pm_message = rq_message rq, pm_slack_user_id = rq_slack_user_id rq,
                              pm_user_id = rq_user_id rq\<rparr>]\<rparr>))
          else if \<not> sn_agent_ok st then (Inl AgentNotFound, st)
          else if \<not> config_ok then (Inl AgentConfigNotFound, st)
          else (Inr (TurnProcessing (next_turn_number (sn_messages st))),
                open_turn UserRole (rq_message rq) (rq_message rq) True origin st))"

definition update_task_entry :: "nat \<Rightarrow> (turn_task \<Rightarrow> turn_task) \<Rightarrow> session_state \<Rightarrow> session_state" where
  "update_task_entry tid f st = st\<lparr>sn_tasks := modify tt_id tid f (sn_tasks st)\<rparr>"

definition set_phase :: "nat \<Rightarrow> task_phase \<Rightarrow> session_state \<Rightarrow> session_state" where
  "set_phase tid ph st = update_task_entry tid (\<lambda>t. t\<lparr>tt_phase := ph\<rparr>) st"

definition set_draft :: "nat \<Rightarrow> nat option \<Rightarrow> session_state \<Rightarrow> session_state" where
  "set_draft tid i st = update_task_entry tid (\<lambda>t. t\<lparr>tt_draft := i\<rparr>) st"

definition find_turn_task :: "nat \<Rightarrow> session_state \<Rightarrow> turn_task option" where
  "find_turn_task tid st = get_row (\<lambda>t. tt_id t = tid) (sn_tasks st)"

definition without_nth :: "nat \<Rightarrow> 'a list \<Rightarrow> 'a list" where
  "without_nth i xs = take i xs @ drop (Suc i) xs"

text \<open>The end of a start: the resume flag is consumed, the task is created and registered.\<close>

definition resumed_start :: "turn_start \<Rightarrow> session_state \<Rightarrow> bool" where
  "resumed_start s st \<longleftrightarrow> st_resume s \<and> sn_resume_pending st"

definition add_turn_task :: "nat \<Rightarrow> string \<Rightarrow> session_state \<Rightarrow> session_state" where
  "add_turn_task turn input st =
     st\<lparr>sn_next_task := Suc (sn_next_task st),
       sn_tasks := sn_tasks st @
         [\<lparr>tt_id = sn_next_task st, tt_turn = turn, tt_input = input, tt_phase = TaskCreated,
           tt_draft = None, tt_cancelled = False\<rparr>],
       sn_active := Some (sn_next_task st)\<rparr>"

definition register_turn :: "nat \<Rightarrow> string \<Rightarrow> session_state \<Rightarrow> session_state" where
  "register_turn i preamble st =
     (if length (sn_starts st) \<le> i then st
      else
        (let s = sn_starts st ! i;
             input = (if resumed_start s st then preamble @ st_input s else st_input s);
             st1 = add_turn_task (st_turn s) input
                     (st\<lparr>sn_starts := without_nth i (sn_starts st),
                        sn_resume_pending := (sn_resume_pending st \<and> \<not> resumed_start s st)\<rparr>)
         in case st_origin s of None \<Rightarrow> st1 | Some (origin, ph) \<Rightarrow> set_phase origin ph st1))"

section \<open>The task of a turn\<close>

definition system_messages :: "nat \<Rightarrow> turn_message list \<Rightarrow> nat" where
  "system_messages turn ms = count_rows (\<lambda>m. tm_turn m = turn \<and> tm_role m = SystemRole) ms"

text \<open>The executor is marked as running; a turn that was stopped before its task ran ends at once, and so
  does a turn whose agent has no configuration.\<close>

definition start_turn :: "nat \<Rightarrow> bool \<Rightarrow> session_state \<Rightarrow> session_state" where
  "start_turn tid config_ok st =
     (case find_turn_task tid st of
        None \<Rightarrow> st
      | Some t \<Rightarrow>
          if tt_phase t \<noteq> TaskCreated then st
          else
            (let st1 = st\<lparr>sn_executor_running := True\<rparr>
             in if 0 < system_messages (tt_turn t) (sn_messages st) then set_phase tid TaskFinally st1
                else if \<not> config_ok
                then set_phase tid TaskFinally
                       (mark_session_completed
                          (snd (add_message (tt_turn t) SystemRole
                                  (''[ERROR] Agent config not found: '' @ sn_agent_name st)
                                  MsgFailed ErrorInternal st1)))
                else set_phase tid TaskRunning st1))"

text \<open>The draft row: inserted once, then updated.\<close>

definition eager_persist :: "nat \<Rightarrow> string \<Rightarrow> session_state \<Rightarrow> session_state" where
  "eager_persist tid content st =
     (case find_turn_task tid st of
        None \<Rightarrow> st
      | Some t \<Rightarrow>
          if tt_phase t \<noteq> TaskRunning then st
          else
            (case tt_draft t of
               None \<Rightarrow>
                 (let (i, st1) = add_message (tt_turn t) AgentRole content MsgInProgress NoError st
                  in set_draft tid (Some i) st1)
             | Some i \<Rightarrow> update_message i (\<lambda>m. m\<lparr>tm_content := content\<rparr>) st))"

text \<open>A rate-limited attempt without visible output: the draft goes, the next model runs.\<close>

definition fall_back :: "nat \<Rightarrow> session_state \<Rightarrow> session_state" where
  "fall_back tid st =
     (case find_turn_task tid st of
        None \<Rightarrow> st
      | Some t \<Rightarrow>
          if tt_phase t \<noteq> TaskRunning then st
          else (case tt_draft t of
                  None \<Rightarrow> st
                | Some i \<Rightarrow>
                    set_draft tid None (delete_message (Some i) st)))"

datatype turn_outcome =
    TurnCancelled
  | TurnCrashed string
  | TurnErrored string
  | TurnFinished string "string option"

definition persist_system_msg :: "turn_task \<Rightarrow> string \<Rightarrow> session_state \<Rightarrow> session_state" where
  "persist_system_msg t content st =
     (case tt_draft t of
        Some i \<Rightarrow>
          update_message i
            (\<lambda>m. m\<lparr>tm_role := SystemRole, tm_content := content, tm_completion := MsgFailed, tm_error := ErrorExecutor\<rparr>) st
      | None \<Rightarrow> snd (add_message (tt_turn t) SystemRole content MsgFailed ErrorExecutor st))"

definition final_status :: "string option \<Rightarrow> completion_status \<times> message_error" where
  "final_status subtype =
     (if subtype = Some ''error_max_turns'' then (MsgFailed, ErrorMaxTurns)
      else if subtype = Some ''stopped_context_overflow'' then (MsgFailed, ErrorContextOverflow)
      else if subtype = Some ''error'' then (MsgFailed, ErrorExecutor)
      else (MsgSuccess, NoError))"

text \<open>The response; a turn that was interrupted meanwhile drops its draft instead.\<close>

definition persist_response :: "turn_task \<Rightarrow> string \<Rightarrow> string option \<Rightarrow> session_state \<Rightarrow> session_state" where
  "persist_response t final_text subtype st =
     (if 0 < system_messages (tt_turn t) (sn_messages st)
      then mark_session_completed (case tt_draft t of None \<Rightarrow> st | Some i \<Rightarrow> delete_message (Some i) st)
      else
        (let (completion, err) = final_status subtype
         in mark_session_completed
              (case tt_draft t of
                 Some i \<Rightarrow>
                   update_message i (\<lambda>m. m\<lparr>tm_content := final_text, tm_completion := completion, tm_error := err\<rparr>) st
               | None \<Rightarrow> snd (add_message (tt_turn t) AgentRole final_text completion err st))))"

definition end_turn :: "nat \<Rightarrow> turn_outcome \<Rightarrow> session_state \<Rightarrow> session_state" where
  "end_turn tid outcome st =
     (case find_turn_task tid st of
        None \<Rightarrow> st
      | Some t \<Rightarrow>
          if tt_phase t \<noteq> TaskRunning then st
          else
            set_phase tid TaskFinally
              (case outcome of
                 TurnCancelled \<Rightarrow>
                   update_task_entry tid (\<lambda>t. t\<lparr>tt_cancelled := True\<rparr>)
                     (case tt_draft t of None \<Rightarrow> st | Some i \<Rightarrow> delete_message (Some i) st)
               | TurnCrashed e \<Rightarrow> mark_session_completed (persist_system_msg t (''[ERROR] Runner crashed: '' @ e) st)
               | TurnErrored e \<Rightarrow> mark_session_completed (persist_system_msg t (''[ERROR] '' @ e) st)
               | TurnFinished final_text subtype \<Rightarrow> persist_response t final_text subtype st))"

section \<open>The end of the task\<close>

definition leave_turn :: "nat \<Rightarrow> session_state \<Rightarrow> session_state" where
  "leave_turn tid st =
     (case find_turn_task tid st of
        None \<Rightarrow> st
      | Some t \<Rightarrow>
          if tt_phase t \<noteq> TaskFinally then st
          else set_phase tid (if tt_cancelled t then TaskExiting else TaskDraining) (st\<lparr>sn_executor_running := False\<rparr>))"

text \<open>One message is sent as it is, several under a header and numbered.\<close>

fun show_nat :: "nat \<Rightarrow> string" where
  "show_nat n = (if n < 10 then [char_of (48 + n)] else show_nat (n div 10) @ [char_of (48 + n mod 10)])"

declare show_nat.simps [simp del]

definition join_parts :: "string list \<Rightarrow> string" where
  "join_parts xs = (case xs of [] \<Rightarrow> '''' | x # rest \<Rightarrow> x @ concat (map (\<lambda>y. [CHR 0x0A, CHR 0x0A] @ y) rest))"

definition combine_messages :: "string list \<Rightarrow> string" where
  "combine_messages ms =
     (case ms of
        [m] \<Rightarrow> m
      | _ \<Rightarrow>
          join_parts
            ((''['' @ show_nat (length ms) @ '' messages arrived while processing the previous turn]'' @ [CHR 0x0A]) #
             map2 (\<lambda>i m. ''('' @ show_nat i @ '') '' @ m) [1..<Suc (length ms)] ms))"

definition take_pending :: "nat \<Rightarrow> session_state \<Rightarrow> session_state" where
  "take_pending tid st =
     (case find_turn_task tid st of
        None \<Rightarrow> st
      | Some t \<Rightarrow>
          if tt_phase t \<noteq> TaskDraining then st
          else if sn_pending st = [] then set_phase tid TaskInbox st
          else set_phase tid (TaskHolding (sn_pending st)) (st\<lparr>sn_pending := []\<rparr>))"

text \<open>The taken messages as one request with the identity of the last; an error puts them back.\<close>

definition send_pending :: "nat \<Rightarrow> bool \<Rightarrow> session_state \<Rightarrow> session_state" where
  "send_pending tid config_ok st =
     (case find_turn_task tid st of
        None \<Rightarrow> st
      | Some t \<Rightarrow>
          (case tt_phase t of
             TaskHolding pending \<Rightarrow>
               (let rq = \<lparr>rq_message = combine_messages (map pm_message pending),
                          rq_slack_user_id = pm_slack_user_id (last pending),
                          rq_user_id = pm_user_id (last pending)\<rparr>
                in case send_message (Some (tid, TaskInbox)) rq config_ok st of
                     (Inl _, st1) \<Rightarrow> set_phase tid TaskInbox (st1\<lparr>sn_pending := pending @ sn_pending st1\<rparr>)
                   | (Inr MessageQueued, st1) \<Rightarrow> set_phase tid TaskInbox st1
                   | (Inr (TurnProcessing _), st1) \<Rightarrow> set_phase tid TaskWaiting st1)
           | _ \<Rightarrow> st))"

definition wrap_fellow_agent_content :: "string \<Rightarrow> string \<Rightarrow> string" where
  "wrap_fellow_agent_content sender raw_content =
     ''[External message from agent `'' @ sender @ ''`]'' @ [CHR 0x0A, CHR 0x0A] @ raw_content"

text \<open>
  One message of the inbox, claimed: it waits for a running turn of another task or starts a turn,
  after which the task leaves. \<open>None\<close> is an empty inbox.
\<close>

definition take_inbox :: "nat \<Rightarrow> (string \<times> string) option \<Rightarrow> session_state \<Rightarrow> session_state" where
  "take_inbox tid message st =
     (case find_turn_task tid st of
        None \<Rightarrow> st
      | Some t \<Rightarrow>
          if tt_phase t \<noteq> TaskInbox then st
          else
            (case message of
               None \<Rightarrow> set_phase tid TaskExiting st
             | Some (sender, raw_content) \<Rightarrow>
                 (let content = wrap_fellow_agent_content sender raw_content
                  in if \<not> sn_agent_ok st then st
                     else if sn_active st \<noteq> Some tid
                     then st\<lparr>sn_pending := sn_pending st @
                               [\<lparr>pm_message = content, pm_slack_user_id = None, pm_user_id = sn_creator st\<rparr>]\<rparr>
                     else set_phase tid TaskWaiting
                            (open_turn FellowAgentRole content content False (Some (tid, TaskExiting)) st))))"

definition exit_turn :: "nat \<Rightarrow> session_state \<Rightarrow> session_state" where
  "exit_turn tid st =
     (case find_turn_task tid st of
        None \<Rightarrow> st
      | Some t \<Rightarrow>
          if tt_phase t \<noteq> TaskExiting then st
          else st\<lparr>sn_active := (if sn_active st = Some tid then None else sn_active st),
                  sn_tasks := filter (\<lambda>t. tt_id t \<noteq> tid) (sn_tasks st)\<rparr>)"

section \<open>Subagent results\<close>

definition deliver_subagent_result :: "string \<Rightarrow> session_state \<Rightarrow> session_state" where
  "deliver_subagent_result message st =
     (if \<not> sn_interactive st then st
      else if sn_active st \<noteq> None
      then (if length (sn_pending st) < MAX_PENDING_MESSAGES
            then st\<lparr>sn_pending := sn_pending st @
                      [\<lparr>pm_message = message, pm_slack_user_id = None, pm_user_id = sn_creator st\<rparr>]\<rparr>
            else st)
      else st\<lparr>sn_injections := sn_injections st @ [message]\<rparr>)"

definition inject_internal_message :: "nat \<Rightarrow> bool \<Rightarrow> session_state \<Rightarrow> session_state" where
  "inject_internal_message i config_ok st =
     (if length (sn_injections st) \<le> i then st
      else
        (let message = sn_injections st ! i;
             st1 = st\<lparr>sn_injections := without_nth i (sn_injections st)\<rparr>
         in if \<not> sn_agent_ok st \<or> \<not> config_ok then st1
            else open_turn UserRole message message False None st1))"

section \<open>Stop and restart\<close>

definition stop_session :: "session_state \<Rightarrow> session_state" where
  "stop_session st =
     (let st1 = st\<lparr>sn_pending := []\<rparr>
      in if \<not> has_inflight_turn (sn_messages st) then st1
         else st1\<lparr>sn_stops := sn_stops st1 @
                    [\<lparr>tp_turn = (case max_turn (inbound \<circ> tm_role) (sn_messages st) of None \<Rightarrow> 0 | Some t \<Rightarrow> t),
                      tp_task = sn_active st, tp_cancelled = False\<rparr>]\<rparr>)"

text \<open>
  \<open>task.cancel()\<close>: a task that has not run yet never runs; a running one is cancelled in its loop
  (\<open>in_loop\<close>) or, in its other awaits, goes to its \<open>finally\<close> block; in that block the cancellation ends it
  with the rest of the block undone.
\<close>

definition cancel_task :: "nat \<Rightarrow> bool \<Rightarrow> session_state \<Rightarrow> session_state" where
  "cancel_task tid in_loop st =
     (case find_turn_task tid st of
        None \<Rightarrow> st
      | Some t \<Rightarrow>
          if tt_phase t = TaskRunning
          then (if in_loop then end_turn tid TurnCancelled st else set_phase tid TaskFinally st)
          else st\<lparr>sn_tasks := filter (\<lambda>t. tt_id t \<noteq> tid) (sn_tasks st),
                  sn_starts := filter (\<lambda>s. map_option fst (st_origin s) \<noteq> Some tid) (sn_starts st)\<rparr>)"

definition stop_cancels :: "nat \<Rightarrow> bool \<Rightarrow> session_state \<Rightarrow> session_state" where
  "stop_cancels i in_loop st =
     (if length (sn_stops st) \<le> i \<or> tp_cancelled (sn_stops st ! i) then st
      else
        (let st1 = st\<lparr>sn_stops := (sn_stops st)[i := (sn_stops st ! i)\<lparr>tp_cancelled := True\<rparr>]\<rparr>
         in case tp_task (sn_stops st ! i) of None \<Rightarrow> st1 | Some tid \<Rightarrow> cancel_task tid in_loop st1))"

definition finish_stop :: "nat \<Rightarrow> session_state \<Rightarrow> session_state" where
  "finish_stop i st =
     (if length (sn_stops st) \<le> i \<or> \<not> tp_cancelled (sn_stops st ! i) then st
      else
        (let turn = tp_turn (sn_stops st ! i);
             st1 = st\<lparr>sn_stops := without_nth i (sn_stops st)\<rparr>
         in if 0 < count_rows (completed_response turn) (sn_messages st1) then st1
            else mark_session_completed
                   (snd (add_message turn SystemRole ''[INTERRUPTED] Session stopped by user.'' MsgAborted NoError st1))))"

text \<open>The start-up scan: the last message that is not a USER message decides.\<close>

definition latest_response :: "turn_message list \<Rightarrow> turn_message option" where
  "latest_response ms =
     (case max_turn (\<lambda>m. tm_role m \<noteq> UserRole) ms of
        None \<Rightarrow> None
      | Some t \<Rightarrow> get_row (\<lambda>m. tm_role m \<noteq> UserRole \<and> tm_turn m = t) (rev ms))"

definition recover_stale_session :: "session_state \<Rightarrow> session_state" where
  "recover_stale_session st =
     (if sn_status st \<noteq> SessionActive then st
      else
        (let latest = latest_response (sn_messages st);
             unanswered =
               (case max_turn (\<lambda>m. tm_role m = UserRole) (sn_messages st) of
                  None \<Rightarrow> False
                | Some t \<Rightarrow> (case latest of None \<Rightarrow> True | Some m \<Rightarrow> tm_turn m < t))
         in st\<lparr>sn_status :=
               (if unanswered then SessionStale
                else case latest of
                       None \<Rightarrow> SessionStale
                     | Some m \<Rightarrow> if tm_completion m = MsgInProgress then SessionStale else SessionCompleted)\<rparr>))"

text \<open>A restart of the process: what was in memory is gone, the executor flag becomes the resume flag.\<close>

definition promote_executor_running :: "session_state \<Rightarrow> session_state" where
  "promote_executor_running st =
     st\<lparr>sn_resume_pending := (sn_resume_pending st \<or> sn_executor_running st), sn_executor_running := False\<rparr>"

definition restart_process :: "session_state \<Rightarrow> session_state" where
  "restart_process st =
     recover_stale_session
       (promote_executor_running
          (st\<lparr>sn_pending := [], sn_active := None, sn_tasks := [], sn_starts := [], sn_injections := [], sn_stops := []\<rparr>))"

text \<open>The continuation of an interrupted session, if there is something to tell the agent (the dash of
  the text is a longer one in the code).\<close>

definition AUTO_RESUME_USER_CONTENT :: string where
  "AUTO_RESUME_USER_CONTENT = ''[AUTO-RESUME] AHS server restart - auto-continuing.''"

definition dispatch_resume_turn :: "string \<Rightarrow> session_state \<Rightarrow> session_state" where
  "dispatch_resume_turn preamble st =
     (if \<not> sn_agent_ok st \<or> preamble = '''' \<or> \<not> sn_resume_pending st then st
      else open_turn UserRole AUTO_RESUME_USER_CONTENT preamble False None
             (st\<lparr>sn_resume_pending := False\<rparr>))"

section \<open>Actions\<close>

datatype turn_action =
    Send send_request bool
  | RegisterTurn nat string
  | StartTurn nat bool
  | EagerPersist nat string
  | FallBack nat
  | EndTurn nat turn_outcome
  | LeaveTurn nat
  | TakePending nat
  | SendPending nat bool
  | TakeInbox nat "(string \<times> string) option"
  | ExitTurn nat
  | SubagentDone string
  | Inject nat bool
  | Stop
  | StopCancels nat bool
  | FinishStop nat
  | Restart
  | Resume string

fun turn_step :: "turn_action \<Rightarrow> session_state \<Rightarrow> session_state" where
  "turn_step (Send rq ok) st = snd (send_message None rq ok st)"
| "turn_step (RegisterTurn i preamble) st = register_turn i preamble st"
| "turn_step (StartTurn tid ok) st = start_turn tid ok st"
| "turn_step (EagerPersist tid content) st = eager_persist tid content st"
| "turn_step (FallBack tid) st = fall_back tid st"
| "turn_step (EndTurn tid outcome) st = end_turn tid outcome st"
| "turn_step (LeaveTurn tid) st = leave_turn tid st"
| "turn_step (TakePending tid) st = take_pending tid st"
| "turn_step (SendPending tid ok) st = send_pending tid ok st"
| "turn_step (TakeInbox tid m) st = take_inbox tid m st"
| "turn_step (ExitTurn tid) st = exit_turn tid st"
| "turn_step (SubagentDone m) st = deliver_subagent_result m st"
| "turn_step (Inject i ok) st = inject_internal_message i ok st"
| "turn_step Stop st = stop_session st"
| "turn_step (StopCancels i in_loop) st = stop_cancels i in_loop st"
| "turn_step (FinishStop i) st = finish_stop i st"
| "turn_step Restart st = restart_process st"
| "turn_step (Resume preamble) st = dispatch_resume_turn preamble st"

definition run_turns :: "turn_action list \<Rightarrow> session_state \<Rightarrow> session_state" where
  "run_turns acts st = fold turn_step acts st"

text \<open>A session as \<open>create_session\<close> leaves it, before its first message.\<close>

definition new_session :: "string \<Rightarrow> bool \<Rightarrow> bool \<Rightarrow> string option \<Rightarrow> (string \<Rightarrow> string option) \<Rightarrow> session_state" where
  "new_session agent_name slack interactive creator slack_user =
     \<lparr>sn_status = SessionActive, sn_slack = slack, sn_interactive = interactive, sn_creator = creator,
      sn_agent_ok = True, sn_agent_name = agent_name, sn_slack_user = slack_user, sn_messages = [], sn_next_id = 0, sn_pending = [],
      sn_active = None, sn_tasks = [], sn_next_task = 0, sn_starts = [], sn_injections = [], sn_stops = [],
      sn_executor_running = False, sn_resume_pending = False\<rparr>"

end
