(* ===== verification/Session_Invariant.thy ===== *)
theory Session_Invariant
  imports Session_Turns
begin

text \<open>
  What every step of a session keeps: the requests are numbered 1, 2, 3, every response belongs to
  one of them, and an interrupted turn has no completed answer.
\<close>

section \<open>The invariant\<close>

abbreviation requests :: "turn_message list \<Rightarrow> turn_message list" where
  "requests ms \<equiv> filter (inbound \<circ> tm_role) ms"

definition known_turn :: "turn_message list \<Rightarrow> nat \<Rightarrow> bool" where
  "known_turn ms t \<longleftrightarrow> 1 \<le> t \<and> t \<le> length (requests ms)"

definition interruption :: "turn_message \<Rightarrow> bool" where
  "interruption m \<longleftrightarrow> tm_role m = SystemRole \<and> tm_completion m = MsgAborted"

definition answer :: "turn_message \<Rightarrow> bool" where
  "answer m \<longleftrightarrow> tm_role m = AgentRole \<and> tm_completion m \<noteq> MsgInProgress"

definition rows_ok :: "turn_message list \<Rightarrow> nat \<Rightarrow> bool" where
  "rows_ok ms nid \<longleftrightarrow>
     distinct (map tm_id ms) \<and> (\<forall>m \<in> set ms. tm_id m < nid) \<and>
     map tm_turn (requests ms) = [1..<Suc (length (requests ms))] \<and>
     (\<forall>m \<in> set ms. known_turn ms (tm_turn m)) \<and>
     (\<forall>m \<in> set ms. \<forall>m' \<in> set ms. interruption m \<and> answer m' \<longrightarrow> tm_turn m \<noteq> tm_turn m')"

text \<open>A draft, if it still exists, is no request and belongs to the turn of its task.\<close>

definition draft_ok :: "turn_message list \<Rightarrow> turn_task \<Rightarrow> bool" where
  "draft_ok ms t \<longleftrightarrow>
     (\<forall>m \<in> set ms. Some (tm_id m) = tt_draft t \<longrightarrow> tm_turn m = tt_turn t \<and> \<not> inbound (tm_role m))"

definition draft_issued :: "nat \<Rightarrow> turn_task \<Rightarrow> bool" where
  "draft_issued nid t \<longleftrightarrow> (case tt_draft t of None \<Rightarrow> True | Some i \<Rightarrow> i < nid)"

definition session_ok :: "session_state \<Rightarrow> bool" where
  "session_ok st \<longleftrightarrow>
     rows_ok (sn_messages st) (sn_next_id st) \<and>
     (\<forall>t \<in> set (sn_tasks st). known_turn (sn_messages st) (tt_turn t) \<and> draft_ok (sn_messages st) t \<and>
        draft_issued (sn_next_id st) t) \<and>
     (\<forall>s \<in> set (sn_starts st). known_turn (sn_messages st) (st_turn s)) \<and>
     (\<forall>p \<in> set (sn_stops st). known_turn (sn_messages st) (tp_turn p))"

section \<open>Turn numbers\<close>

lemma max_turn_None: "max_turn p ms = None \<longleftrightarrow> (\<forall>m \<in> set ms. \<not> p m)"
  by (cases "filter p ms") (auto simp: max_turn_def filter_empty_conv dest: filter_eq_ConsD)

lemma max_turn_Max:
  "max_turn p ms = (if \<exists>m \<in> set ms. p m then Some (Max (tm_turn ` {m \<in> set ms. p m})) else None)"
proof (cases "filter p ms")
  case Nil
  then show ?thesis using max_turn_None [of p ms] by (auto simp: max_turn_def filter_empty_conv)
next
  case (Cons m rest)
  then have s: "set (m # rest) = {m \<in> set ms. p m}" by (metis set_filter)
  have "max_turn p ms = Some (Max (tm_turn ` set (m # rest)))"
    using Cons by (simp add: max_turn_def Max.set_eq_fold [symmetric])
  moreover have "\<exists>m \<in> set ms. p m" using s by auto
  ultimately show ?thesis unfolding s by simp
qed

lemma max_turn_Some:
  assumes "max_turn p ms = Some t"
  shows "\<exists>m \<in> set ms. p m \<and> tm_turn m = t" "\<And>m. m \<in> set ms \<Longrightarrow> p m \<Longrightarrow> tm_turn m \<le> t"
proof -
  have t: "t = Max (tm_turn ` {m \<in> set ms. p m})" "tm_turn ` {m \<in> set ms. p m} \<noteq> {}"
    using assms by (auto simp: max_turn_Max split: if_splits)
  then have "t \<in> tm_turn ` {m \<in> set ms. p m}" using Max_in by simp
  then show "\<exists>m \<in> set ms. p m \<and> tm_turn m = t" by auto
  show "\<And>m. m \<in> set ms \<Longrightarrow> p m \<Longrightarrow> tm_turn m \<le> t" using t by auto
qed

text \<open>The latest request is the last turn, and the next number is one more.\<close>

lemma max_request:
  assumes "rows_ok ms nid"
  shows "max_turn (inbound \<circ> tm_role) ms = (if requests ms = [] then None else Some (length (requests ms)))"
proof (cases "requests ms")
  case Nil
  then show ?thesis by (simp add: max_turn_def)
next
  case (Cons m rest)
  have "map tm_turn (requests ms) = [1..<Suc (length (requests ms))]"
    using assms by (simp add: rows_ok_def)
  then have "Max (set (map tm_turn (requests ms))) = Max {1..length (requests ms)}"
    by (simp only: set_upt atLeastLessThanSuc_atLeastAtMost)
  moreover have "max_turn (inbound \<circ> tm_role) ms = Some (Max (set (map tm_turn (requests ms))))"
    using Cons by (simp add: max_turn_def Max.set_eq_fold [symmetric])
  moreover have "Max {1..length (requests ms)} = length (requests ms)" using Cons by (intro Max_eqI) auto
  ultimately show ?thesis using Cons by simp
qed

lemma next_turn: 
  assumes "rows_ok ms nid"
  shows "next_turn_number ms = Suc (length (requests ms))"
proof (cases "requests ms")
  case Nil
  then have "ms = []" using assms by (cases ms) (auto simp: rows_ok_def known_turn_def)
  then show ?thesis by (simp add: next_turn_number_def max_turn_def)
next
  case (Cons m rest)
  have all: "\<forall>m \<in> set ms. tm_turn m \<le> length (requests ms)" using assms by (simp add: rows_ok_def known_turn_def)
  obtain r where r: "r \<in> set ms" "tm_turn r = length (requests ms)"
    using max_turn_Some(1) [of "inbound \<circ> tm_role" ms] max_request [OF assms] Cons by auto
  obtain t where t: "max_turn (\<lambda>_. True) ms = Some t" using r(1) max_turn_None [of "\<lambda>_. True" ms] by fastforce
  have "t = length (requests ms)"
    using max_turn_Some [OF t] all r by (metis le_antisym)
  then show ?thesis by (simp add: next_turn_number_def t)
qed

section \<open>Rows\<close>

lemma known_turn_add: "known_turn ms t \<Longrightarrow> known_turn (ms @ ms') t"
  by (simp add: known_turn_def)

lemma rows_add_request:
  assumes "rows_ok ms nid" "inbound r"
  shows "rows_ok (ms @ [\<lparr>tm_id = nid, tm_turn = next_turn_number ms, tm_role = r, tm_content = c,
      tm_completion = MsgSuccess, tm_error = NoError\<rparr>]) (Suc nid)"
    "known_turn (ms @ [\<lparr>tm_id = nid, tm_turn = next_turn_number ms, tm_role = r, tm_content = c,
      tm_completion = MsgSuccess, tm_error = NoError\<rparr>]) (next_turn_number ms)"
proof -
  have r: "r \<noteq> SystemRole" "r \<noteq> AgentRole" using assms(2) by (auto simp: inbound_def)
  show "rows_ok (ms @ [\<lparr>tm_id = nid, tm_turn = next_turn_number ms, tm_role = r, tm_content = c,
      tm_completion = MsgSuccess, tm_error = NoError\<rparr>]) (Suc nid)"
    using assms r next_turn [OF assms(1)]
    by (fastforce simp: rows_ok_def known_turn_def interruption_def answer_def less_Suc_eq)
  show "known_turn (ms @ [\<lparr>tm_id = nid, tm_turn = next_turn_number ms, tm_role = r, tm_content = c,
      tm_completion = MsgSuccess, tm_error = NoError\<rparr>]) (next_turn_number ms)"
    using assms(2) next_turn [OF assms(1)] by (simp add: known_turn_def)
qed

lemma rows_add_response:
  assumes "rows_ok ms nid" "\<not> inbound (tm_role m)" "tm_id m = nid" "known_turn ms (tm_turn m)"
    "interruption m \<Longrightarrow> \<forall>m' \<in> set ms. answer m' \<longrightarrow> tm_turn m' \<noteq> tm_turn m"
    "answer m \<Longrightarrow> \<forall>m' \<in> set ms. interruption m' \<longrightarrow> tm_turn m' \<noteq> tm_turn m"
  shows "rows_ok (ms @ [m]) (Suc nid)"
proof -
  have "\<not> (interruption m \<and> answer m)" by (auto simp: interruption_def answer_def)
  then show ?thesis using assms by (auto simp: rows_ok_def known_turn_def less_Suc_eq)
qed

text \<open>A change or the deletion of rows that are no requests.\<close>

lemma requests_modify:
  assumes "\<And>m. m \<in> set ms \<Longrightarrow> tm_id m = i \<Longrightarrow> \<not> inbound (tm_role m) \<and> \<not> inbound (tm_role (f m))"
  shows "requests (modify tm_id i f ms) = requests ms"
  using assms by (induction ms) (auto simp: modify_def)

lemma requests_delete:
  assumes "\<And>m. m \<in> set ms \<Longrightarrow> Some (tm_id m) = i \<Longrightarrow> \<not> inbound (tm_role m)"
  shows "requests (filter (\<lambda>m. Some (tm_id m) \<noteq> i) ms) = requests ms"
  using assms by (induction ms) auto

lemma rows_modify:
  assumes "rows_ok ms nid"
    and inb: "\<And>m. m \<in> set ms \<Longrightarrow> tm_id m = i \<Longrightarrow> \<not> inbound (tm_role m) \<and> \<not> inbound (tm_role (f m))"
    and keep: "\<And>m. tm_id (f m) = tm_id m" "\<And>m. tm_turn (f m) = tm_turn m"
    and intr: "\<And>m. interruption (f m) \<Longrightarrow> interruption m"
    and ans: "\<And>m m'. m \<in> set ms \<Longrightarrow> m' \<in> set ms \<Longrightarrow> tm_id m = i \<Longrightarrow> answer (f m) \<Longrightarrow> interruption m' \<Longrightarrow> tm_turn m' \<noteq> tm_turn m"
  shows "rows_ok (modify tm_id i f ms) nid"
proof -
  have ids: "map tm_id (modify tm_id i f ms) = map tm_id ms"
    using keep(1) by (auto simp: modify_def)
  have turns: "map tm_turn (modify tm_id i f ms) = map tm_turn ms"
    using keep(2) by (auto simp: modify_def)
  have "tm_turn m \<noteq> tm_turn m'"
    if m: "m \<in> set (modify tm_id i f ms)" and m': "m' \<in> set (modify tm_id i f ms)"
      and am: "interruption m" "answer m'" for m m'
  proof -
    obtain a where a: "a \<in> set ms" "m = (if tm_id a = i then f a else a)"
      using m unfolding modify_def set_map by blast
    obtain b where b: "b \<in> set ms" "m' = (if tm_id b = i then f b else b)"
      using m' unfolding modify_def set_map by blast
    have "interruption a" using am(1) a(2) intr by (auto split: if_splits)
    moreover have "tm_turn m = tm_turn a" "tm_turn m' = tm_turn b" using a(2) b(2) keep(2) by auto
    ultimately show ?thesis
      using assms(1) a(1) b ans am(2) unfolding rows_ok_def by (cases "tm_id b = i") auto
  qed
  moreover have "tm_id m < nid \<and> 1 \<le> tm_turn m \<and> tm_turn m \<le> length (requests ms)"
    if "m \<in> set (modify tm_id i f ms)" for m
  proof -
    have "tm_id m \<in> set (map tm_id ms)" "tm_turn m \<in> set (map tm_turn ms)"
      unfolding ids [symmetric] turns [symmetric] using that by simp_all
    then show ?thesis using assms(1) by (auto simp: rows_ok_def known_turn_def)
  qed
  ultimately show ?thesis using assms(1) requests_modify [OF inb] ids
    unfolding rows_ok_def known_turn_def by simp
qed

lemma rows_delete:
  assumes "rows_ok ms nid" "\<And>m. m \<in> set ms \<Longrightarrow> Some (tm_id m) = i \<Longrightarrow> \<not> inbound (tm_role m)"
  shows "rows_ok (filter (\<lambda>m. Some (tm_id m) \<noteq> i) ms) nid"
proof -
  have r: "requests (filter (\<lambda>m. Some (tm_id m) \<noteq> i) ms) = requests ms" using assms(2) by (rule requests_delete)
  show ?thesis using assms(1) unfolding rows_ok_def known_turn_def r by (auto simp: distinct_map_filter)
qed

section \<open>Steps\<close>

definition task_ok :: "session_state \<Rightarrow> turn_task \<Rightarrow> bool" where
  "task_ok st t \<longleftrightarrow>
     known_turn (sn_messages st) (tt_turn t) \<and> draft_ok (sn_messages st) t \<and> draft_issued (sn_next_id st) t"

lemma session_ok_alt:
  "session_ok st \<longleftrightarrow>
     rows_ok (sn_messages st) (sn_next_id st) \<and> (\<forall>t \<in> set (sn_tasks st). task_ok st t) \<and>
     (\<forall>s \<in> set (sn_starts st). known_turn (sn_messages st) (st_turn s)) \<and>
     (\<forall>p \<in> set (sn_stops st). known_turn (sn_messages st) (tp_turn p))"
  by (auto simp: session_ok_def task_ok_def)

text \<open>Steps that leave the rows alone.\<close>

lemma session_ok_frame:
  assumes "session_ok st" "sn_messages st' = sn_messages st" "sn_next_id st' = sn_next_id st"
    "\<And>t. t \<in> set (sn_tasks st') \<Longrightarrow> \<exists>t' \<in> set (sn_tasks st). tt_turn t = tt_turn t' \<and> (tt_draft t = tt_draft t' \<or> tt_draft t = None)"
    "set (sn_starts st') \<subseteq> set (sn_starts st)" "st_turn ` set (sn_starts st') \<subseteq> st_turn ` set (sn_starts st)"
    "tp_turn ` set (sn_stops st') \<subseteq> tp_turn ` set (sn_stops st)"
  shows "session_ok st'"
  using assms unfolding session_ok_def draft_ok_def draft_issued_def by (fastforce split: option.splits)

lemma find_turn_task_in: "find_turn_task tid st = Some t \<Longrightarrow> t \<in> set (sn_tasks st) \<and> tt_id t = tid"
  unfolding find_turn_task_def by (drule get_row_Some) auto

lemma mark_session_completed_ok [simp]: "session_ok (mark_session_completed st) = session_ok st"
  by (simp add: mark_session_completed_def session_ok_def)

lemma set_phase_ok: "session_ok st \<Longrightarrow> session_ok (set_phase tid ph st)"
  by (erule session_ok_frame) (auto simp: set_phase_def update_task_entry_def in_modify_iff)

lemma open_turn_ok:
  assumes "session_ok st" "inbound r"
  shows "session_ok (open_turn r c input resume origin st)"
proof -
  note rows = rows_add_request [OF _ assms(2), of "sn_messages st" "sn_next_id st" c]
  have "rows_ok (sn_messages st) (sn_next_id st)" using assms(1) by (simp add: session_ok_def)
  note rows = rows [OF this]
  show ?thesis using assms(1) rows
    unfolding session_ok_def open_turn_def reactivate_def add_message_def draft_ok_def draft_issued_def
    by (auto simp: Let_def known_turn_add split: option.splits)
qed

lemma add_response_ok:
  assumes "session_ok st" "\<not> inbound r" "known_turn (sn_messages st) turn"
    "r = SystemRole \<and> completion = MsgAborted \<Longrightarrow> \<forall>m \<in> set (sn_messages st). answer m \<longrightarrow> tm_turn m \<noteq> turn"
    "r = AgentRole \<and> completion \<noteq> MsgInProgress \<Longrightarrow> \<forall>m \<in> set (sn_messages st). interruption m \<longrightarrow> tm_turn m \<noteq> turn"
  shows "session_ok (snd (add_message turn r c completion err st))"
proof -
  let ?m = "\<lparr>tm_id = sn_next_id st, tm_turn = turn, tm_role = r, tm_content = c, tm_completion = completion, tm_error = err\<rparr>"
  have "rows_ok (sn_messages st @ [?m]) (Suc (sn_next_id st))"
    using assms by (intro rows_add_response) (auto simp: session_ok_def interruption_def answer_def)
  then show ?thesis using assms(1)
    unfolding session_ok_def add_message_def draft_ok_def draft_issued_def
    by (auto simp: known_turn_add split: option.splits)
qed

text \<open>A task only touches rows that are its draft.\<close>

lemma update_message_ok:
  assumes "session_ok st" "t \<in> set (sn_tasks st)" "tt_draft t = Some i"
    and "\<And>m. \<not> inbound (tm_role m) \<Longrightarrow> \<not> inbound (tm_role (f m))"
    and "\<And>m. tm_id (f m) = tm_id m" "\<And>m. tm_turn (f m) = tm_turn m"
    and "\<And>m. interruption (f m) \<Longrightarrow> interruption m"
    and "\<And>m. m \<in> set (sn_messages st) \<Longrightarrow> answer (f m) \<Longrightarrow>
      answer m \<or> (\<forall>m' \<in> set (sn_messages st). interruption m' \<longrightarrow> tm_turn m' \<noteq> tt_turn t)"
  shows "session_ok (update_message i f st)"
proof -
  let ?ms = "sn_messages st"
  have d: "tm_turn m = tt_turn t \<and> \<not> inbound (tm_role m)" if "m \<in> set ?ms" "tm_id m = i" for m
    using assms(1-3) that by (auto simp: session_ok_def draft_ok_def)
  have inb: "m \<in> set ?ms \<Longrightarrow> tm_id m = i \<Longrightarrow> \<not> inbound (tm_role m) \<and> \<not> inbound (tm_role (f m))" for m
    using d assms(4) by blast
  have rows: "rows_ok (modify tm_id i f ?ms) (sn_next_id st)"
  proof (rule rows_modify)
    show "rows_ok ?ms (sn_next_id st)" using assms(1) by (simp add: session_ok_def)
    fix m m'
    assume m: "m \<in> set ?ms" "m' \<in> set ?ms" "tm_id m = i" "answer (f m)" "interruption m'"
    then show "tm_turn m' \<noteq> tm_turn m"
      using assms(1,8) [unfolded session_ok_def rows_ok_def] assms(8) [OF m(1,4)] d [OF m(1,3)] by metis
  qed (use inb assms(5-7) in auto)
  have "draft_ok (modify tm_id i f ?ms) t'" if "t' \<in> set (sn_tasks st)" for t'
    using assms(1,4-6) that by (auto simp: session_ok_def draft_ok_def in_modify_iff)
  then show ?thesis using assms(1) rows requests_modify [of ?ms i f, OF inb]
    unfolding session_ok_def update_message_def known_turn_def by simp
qed

lemma delete_message_ok:
  assumes "session_ok st" "t \<in> set (sn_tasks st)" "tt_draft t = Some i"
  shows "session_ok (delete_message (Some i) st)"
proof -
  have d: "\<not> inbound (tm_role m)" if "m \<in> set (sn_messages st)" "Some (tm_id m) = Some i" for m
    using assms that by (auto simp: session_ok_def draft_ok_def)
  have "rows_ok (filter (\<lambda>m. Some (tm_id m) \<noteq> Some i) (sn_messages st)) (sn_next_id st)"
    using assms(1) d by (intro rows_delete) (simp_all add: session_ok_def)
  then show ?thesis using assms(1) requests_delete [of "sn_messages st" "Some i", OF d]
    unfolding session_ok_def delete_message_def known_turn_def draft_ok_def by auto
qed

lemma tasks_frame:
  assumes "session_ok st" "sn_messages st' = sn_messages st" "sn_next_id st' = sn_next_id st"
    "sn_tasks st' = filter p (sn_tasks st)" "set (sn_starts st') \<subseteq> set (sn_starts st)" "sn_stops st' = sn_stops st"
  shows "session_ok st'"
  using assms by (intro session_ok_frame [OF assms(1)]) auto

lemma send_message_ok: "session_ok st \<Longrightarrow> session_ok (snd (send_message origin rq ok st))"
  unfolding send_message_def
  by (simp add: open_turn_ok inbound_def split: option.split)
    (auto simp: session_ok_def)

lemma set_without_nth: "set (without_nth i xs) \<subseteq> set xs"
  unfolding without_nth_def by (auto dest: in_set_takeD in_set_dropD)

lemma add_turn_task_ok: "session_ok st \<Longrightarrow> known_turn (sn_messages st) turn \<Longrightarrow> session_ok (add_turn_task turn input st)"
  by (auto simp: session_ok_def add_turn_task_def draft_ok_def draft_issued_def)

lemma register_turn_ok:
  assumes "session_ok st"
  shows "session_ok (register_turn i preamble st)"
proof (cases "length (sn_starts st) \<le> i")
  case False
  then have k: "known_turn (sn_messages st) (st_turn (sn_starts st ! i))"
    using assms by (simp add: session_ok_def)
  have "session_ok (st\<lparr>sn_starts := without_nth i (sn_starts st), sn_resume_pending := b\<rparr>)" for b
    using assms set_without_nth [of i "sn_starts st"] by (auto simp: session_ok_def)
  then have "session_ok (add_turn_task (st_turn (sn_starts st ! i)) input
      (st\<lparr>sn_starts := without_nth i (sn_starts st), sn_resume_pending := b\<rparr>))" for input b
    using k by (intro add_turn_task_ok) auto
  then show ?thesis using False
    by (auto simp only: register_turn_def Let_def if_False split: option.split intro!: set_phase_ok)
qed (use assms in \<open>simp add: register_turn_def\<close>)

lemma executor_running_ok [simp]: "session_ok (st\<lparr>sn_executor_running := b\<rparr>) = session_ok st"
  by (simp add: session_ok_def)

lemma start_turn_ok:
  assumes "session_ok st"
  shows "session_ok (start_turn tid ok st)"
proof -
  have "session_ok (snd (add_message (tt_turn t) SystemRole c MsgFailed ErrorInternal (st\<lparr>sn_executor_running := True\<rparr>)))"
    if "find_turn_task tid st = Some t" for t c
    using assms find_turn_task_in [OF that] by (intro add_response_ok) (auto simp: session_ok_def inbound_def)
  then show ?thesis using assms
    by (auto simp: start_turn_def Let_def set_phase_ok split: option.split)
qed

text \<open>Task ids are drawn once.\<close>

definition ids_ok :: "session_state \<Rightarrow> bool" where
  "ids_ok st \<longleftrightarrow> distinct (map tt_id (sn_tasks st)) \<and> (\<forall>t \<in> set (sn_tasks st). tt_id t < sn_next_task st)"

lemma same_id:
  "ids_ok st \<Longrightarrow> find_turn_task tid st = Some t \<Longrightarrow> t' \<in> set (sn_tasks st) \<Longrightarrow> tt_id t' = tid \<Longrightarrow> t' = t"
  using find_turn_task_in [of tid st t] by (auto simp: ids_ok_def distinct_map inj_on_def)

lemma update_entry_ok:
  assumes "session_ok st"
    "\<And>t. t \<in> set (sn_tasks st) \<Longrightarrow> tt_id t = tid \<Longrightarrow> task_ok st (f t)"
  shows "session_ok (update_task_entry tid f st)"
  using assms unfolding session_ok_alt update_task_entry_def by (auto simp: in_modify_iff task_ok_def)

lemma update_entry_keeps_ok:
  assumes "session_ok st" "\<And>t. tt_turn (f t) = tt_turn t" "\<And>t. tt_draft (f t) = tt_draft t \<or> tt_draft (f t) = None"
  shows "session_ok (update_task_entry tid f st)"
proof (rule update_entry_ok [OF assms(1)])
  fix t assume "t \<in> set (sn_tasks st)"
  then have "task_ok st t" using assms(1) by (simp add: session_ok_alt)
  then show "task_ok st (f t)"
    using assms(2) [of t] assms(3) [of t] by (auto simp: task_ok_def draft_ok_def draft_issued_def split: option.splits)
qed

lemma eager_persist_ok:
  assumes "session_ok st" "ids_ok st"
  shows "session_ok (eager_persist tid content st)"
proof (cases "find_turn_task tid st")
  case (Some t)
  note t = find_turn_task_in [OF Some]
  show ?thesis
  proof (cases "tt_draft t")
    case None
    have k: "known_turn (sn_messages st) (tt_turn t)" using assms t by (simp add: session_ok_def)
    obtain i st1 where a: "add_message (tt_turn t) AgentRole content MsgInProgress NoError st = (i, st1)"
      by (cases "add_message (tt_turn t) AgentRole content MsgInProgress NoError st")
    have ok: "session_ok st1"
      using add_response_ok [OF assms(1) _ k, of AgentRole MsgInProgress content NoError] a by (simp add: inbound_def)
    have old: "tm_id m \<noteq> sn_next_id st" if "m \<in> set (sn_messages st)" for m
      using assms(1) that unfolding session_ok_def rows_ok_def by (metis less_irrefl)
    have fresh: "\<forall>m \<in> set (sn_messages st1). tm_id m = i \<longrightarrow> tm_turn m = tt_turn t \<and> \<not> inbound (tm_role m)"
      "i < sn_next_id st1" "sn_tasks st1 = sn_tasks st"
      using a old by (auto simp: add_message_def inbound_def)
    have "session_ok (set_draft tid (Some i) st1)"
      unfolding set_draft_def
    proof (rule update_entry_ok [OF ok])
      fix t' assume t': "t' \<in> set (sn_tasks st1)" "tt_id t' = tid"
      then have "t' = t" using same_id [OF assms(2) Some] fresh(3) by simp
      moreover have "known_turn (sn_messages st1) (tt_turn t')" using ok t'(1) by (simp add: session_ok_def)
      ultimately show "task_ok st1 (t'\<lparr>tt_draft := Some i\<rparr>)"
        using fresh by (auto simp: task_ok_def draft_ok_def draft_issued_def)
    qed
    then show ?thesis using Some None a assms(1) by (simp add: eager_persist_def)
  next
    case (Some i)
    have "session_ok (update_message i (\<lambda>m. m\<lparr>tm_content := content\<rparr>) st)"
      using assms(1) t Some by (intro update_message_ok) (auto simp: interruption_def answer_def)
    then show ?thesis using assms(1) Some \<open>find_turn_task tid st = Some t\<close> by (simp add: eager_persist_def)
  qed
qed (use assms in \<open>simp add: eager_persist_def\<close>)

lemma fall_back_ok:
  assumes "session_ok st"
  shows "session_ok (fall_back tid st)"
  using assms delete_message_ok [OF assms] find_turn_task_in [of tid st]
  by (auto simp: fall_back_def set_draft_def intro!: update_entry_keeps_ok split: option.split)

lemma persist_system_msg_ok:
  assumes "session_ok st" "t \<in> set (sn_tasks st)"
  shows "session_ok (persist_system_msg t content st)"
proof (cases "tt_draft t")
  case None
  have "known_turn (sn_messages st) (tt_turn t)" using assms by (simp add: session_ok_def)
  then have "session_ok (snd (add_message (tt_turn t) SystemRole content MsgFailed ErrorExecutor st))"
    using assms(1) by (intro add_response_ok) (auto simp: inbound_def)
  with None show ?thesis by (simp add: persist_system_msg_def)
next
  case (Some i)
  then show ?thesis using assms
    by (auto simp: persist_system_msg_def inbound_def interruption_def answer_def intro!: update_message_ok)
qed

lemma no_system_messages:
  "system_messages turn ms = 0 \<Longrightarrow> m \<in> set ms \<Longrightarrow> interruption m \<Longrightarrow> tm_turn m \<noteq> turn"
  by (auto simp: system_messages_def count_rows_def filter_empty_conv interruption_def)

lemma final_status_ended: "final_status s = (c, e) \<Longrightarrow> c \<noteq> MsgAborted \<and> c \<noteq> MsgInProgress"
  by (auto simp: final_status_def split: if_splits)

lemma persist_response_ok:
  assumes "session_ok st" "t \<in> set (sn_tasks st)"
  shows "session_ok (persist_response t final_text subtype st)"
proof -
  obtain c e where f: "final_status subtype = (c, e)" by (cases "final_status subtype")
  note fs = final_status_ended [OF f]
  show ?thesis
  proof (cases "0 < system_messages (tt_turn t) (sn_messages st)")
    case True
    then show ?thesis using assms delete_message_ok by (auto simp: persist_response_def split: option.split)
  next
    case False
    then have no: "m \<in> set (sn_messages st) \<Longrightarrow> interruption m \<Longrightarrow> tm_turn m \<noteq> tt_turn t" for m
      using no_system_messages by simp
    show ?thesis
    proof (cases "tt_draft t")
      case None
      have "session_ok (snd (add_message (tt_turn t) AgentRole final_text c e st))"
        using assms no by (intro add_response_ok) (auto simp: inbound_def session_ok_def)
      then show ?thesis using None False f by (simp add: persist_response_def)
    next
      case (Some i)
      have "session_ok (update_message i (\<lambda>m. m\<lparr>tm_content := final_text, tm_completion := c, tm_error := e\<rparr>) st)"
        using assms Some no fs by (intro update_message_ok) (auto simp: interruption_def)
      then show ?thesis using Some False f by (simp add: persist_response_def)
    qed
  qed
qed

lemma end_turn_ok:
  assumes "session_ok st"
  shows "session_ok (end_turn tid outcome st)"
proof (cases "find_turn_task tid st")
  case (Some t)
  have t: "t \<in> set (sn_tasks st)" using find_turn_task_in [OF Some] by simp
  have "session_ok (update_task_entry tid (\<lambda>t. t\<lparr>tt_cancelled := True\<rparr>)
      (case tt_draft t of None \<Rightarrow> st | Some i \<Rightarrow> delete_message (Some i) st))"
    using assms delete_message_ok [OF assms t] by (intro update_entry_keeps_ok) (auto split: option.split)
  then show ?thesis using assms t Some
    by (auto simp: end_turn_def persist_system_msg_ok persist_response_ok intro!: set_phase_ok split: turn_outcome.split)
qed (use assms in \<open>simp add: end_turn_def\<close>)

lemma pending_ok [simp]: "session_ok (st\<lparr>sn_pending := p\<rparr>) = session_ok st"
  by (simp add: session_ok_def)

lemma leave_turn_ok: "session_ok st \<Longrightarrow> session_ok (leave_turn tid st)"
  by (auto simp: leave_turn_def intro!: set_phase_ok split: option.split)

lemma take_pending_ok: "session_ok st \<Longrightarrow> session_ok (take_pending tid st)"
  by (auto simp: take_pending_def intro!: set_phase_ok split: option.split)

lemma send_pending_ok:
  assumes "session_ok st"
  shows "session_ok (send_pending tid ok st)"
  using assms send_message_ok [OF assms]
  by (auto simp: send_pending_def Let_def intro!: set_phase_ok split: option.split task_phase.split prod.split
      sum.split send_result.split) (metis snd_conv)+

lemma take_inbox_ok: "session_ok st \<Longrightarrow> session_ok (take_inbox tid m st)"
  by (auto simp: take_inbox_def Let_def inbound_def intro!: set_phase_ok open_turn_ok split: option.split)

lemma exit_turn_ok: "session_ok st \<Longrightarrow> session_ok (exit_turn tid st)"
  by (auto simp: exit_turn_def session_ok_def split: option.split)

lemma deliver_subagent_result_ok: "session_ok st \<Longrightarrow> session_ok (deliver_subagent_result m st)"
  by (auto simp: deliver_subagent_result_def session_ok_def)

lemma inject_internal_message_ok: "session_ok st \<Longrightarrow> session_ok (inject_internal_message i ok st)"
  by (auto simp: inject_internal_message_def Let_def inbound_def intro!: open_turn_ok) (auto simp: session_ok_def)

lemma stop_session_ok:
  assumes "session_ok st"
  shows "session_ok (stop_session st)"
proof -
  have "rows_ok (sn_messages st) (sn_next_id st)" using assms by (simp add: session_ok_def)
  note m = max_request [OF this]
  have "known_turn (sn_messages st) (case max_turn (inbound \<circ> tm_role) (sn_messages st) of None \<Rightarrow> 0 | Some t \<Rightarrow> t)"
    if "has_inflight_turn (sn_messages st)"
    using that m by (auto simp: has_inflight_turn_def known_turn_def Suc_le_eq)
  then show ?thesis using assms by (auto simp: stop_session_def Let_def session_ok_def)
qed

lemma cancel_task_ok: "session_ok st \<Longrightarrow> session_ok (cancel_task tid in_loop st)"
  by (auto simp: cancel_task_def end_turn_ok set_phase_ok split: option.split) (auto simp: session_ok_def)

lemma stop_cancels_ok:
  assumes "session_ok st"
  shows "session_ok (stop_cancels i in_loop st)"
proof (cases "length (sn_stops st) \<le> i")
  case False
  then have "session_ok (st\<lparr>sn_stops := (sn_stops st)[i := (sn_stops st ! i)\<lparr>tp_cancelled := True\<rparr>]\<rparr>)"
    using assms by (auto simp: session_ok_def dest!: set_update_subset_insert [THEN subsetD])
  then show ?thesis using assms by (auto simp: stop_cancels_def Let_def cancel_task_ok split: option.split)
qed (use assms in \<open>simp add: stop_cancels_def\<close>)

lemma finish_stop_ok:
  assumes "session_ok st"
  shows "session_ok (finish_stop i st)"
proof (cases "length (sn_stops st) \<le> i")
  case False
  let ?turn = "tp_turn (sn_stops st ! i)" and ?st = "st\<lparr>sn_stops := without_nth i (sn_stops st)\<rparr>"
  have ok: "session_ok ?st" using assms set_without_nth [of i "sn_stops st"] by (auto simp: session_ok_def)
  have k: "known_turn (sn_messages ?st) ?turn" using assms False by (simp add: session_ok_def)
  have "session_ok (snd (add_message ?turn SystemRole c MsgAborted NoError ?st))"
    if "count_rows (completed_response ?turn) (sn_messages st) = 0" for c
    using ok k that
    by (intro add_response_ok)
      (auto simp: inbound_def count_rows_def filter_empty_conv completed_response_def answer_def)
  then show ?thesis using assms ok by (auto simp: finish_stop_def Let_def)
qed (use assms in \<open>simp add: finish_stop_def\<close>)

lemma restart_process_ok: "session_ok st \<Longrightarrow> session_ok (restart_process st)"
  by (simp add: restart_process_def recover_stale_session_def promote_executor_running_def Let_def session_ok_def)

lemma dispatch_resume_turn_ok: "session_ok st \<Longrightarrow> session_ok (dispatch_resume_turn p st)"
  by (auto simp: dispatch_resume_turn_def inbound_def intro!: open_turn_ok) (auto simp: session_ok_def)

section \<open>Task ids\<close>

definition ids :: "session_state \<Rightarrow> nat list \<times> nat" where
  "ids st = (map tt_id (sn_tasks st), sn_next_task st)"

lemma ids_ok_ids: "ids_ok st \<longleftrightarrow> distinct (fst (ids st)) \<and> (\<forall>i \<in> set (fst (ids st)). i < snd (ids st))"
  by (auto simp: ids_ok_def ids_def)

lemma ids_more [simp]:
  "ids (st\<lparr>sn_pending := p\<rparr>) = ids st"
  "ids (st\<lparr>sn_stops := ps\<rparr>) = ids st"
  "ids (st\<lparr>sn_starts := ss\<rparr>) = ids st"
  "ids (st\<lparr>sn_injections := js\<rparr>) = ids st"
  "ids (st\<lparr>sn_executor_running := b\<rparr>) = ids st"
  "ids (st\<lparr>sn_resume_pending := b\<rparr>) = ids st"
  "ids (st\<lparr>sn_status := u\<rparr>) = ids st"
  by (simp_all add: ids_def)

lemma ids_rows [simp]:
  "ids (snd (add_message turn r c completion err st)) = ids st"
  "ids (update_message i f st) = ids st"
  "ids (delete_message d st) = ids st"
  "ids (mark_session_completed st) = ids st"
  "ids (open_turn r c input resume origin st) = ids st"
  by (simp_all add: ids_def add_message_def update_message_def delete_message_def mark_session_completed_def
      open_turn_def reactivate_def Let_def)

lemma ids_update_entry: "(\<And>t. tt_id (f t) = tt_id t) \<Longrightarrow> ids (update_task_entry tid f st) = ids st"
  by (auto simp: ids_def update_task_entry_def modify_def)

lemma ids_set_phase [simp]: "ids (set_phase tid ph st) = ids st" "ids (set_draft tid d st) = ids st"
  by (simp_all add: set_phase_def set_draft_def ids_update_entry)

lemma ids_send_message [simp]: "ids (snd (send_message origin rq ok st)) = ids st"
  by (simp add: send_message_def split: option.split)

lemma ids_pair:
  "add_message turn r c completion err st = (i, st1) \<Longrightarrow> ids st1 = ids st"
  "send_message origin rq ok st = (res, st1) \<Longrightarrow> ids st1 = ids st"
  by (metis ids_rows(1) snd_conv) (metis ids_send_message snd_conv)

lemma ids_add_turn_task: "ids (add_turn_task turn input st) = (fst (ids st) @ [snd (ids st)], Suc (snd (ids st)))"
  by (simp add: ids_def add_turn_task_def)

lemma ids_ok_filter:
  "ids_ok st \<Longrightarrow> ids_ok (st\<lparr>sn_active := a, sn_tasks := filter p (sn_tasks st)\<rparr>)"
  "ids_ok st \<Longrightarrow> ids_ok (st\<lparr>sn_tasks := filter p (sn_tasks st)\<rparr>)"
  by (auto simp: ids_ok_def distinct_map_filter)

lemma ids_end_turn [simp]: "ids (end_turn tid outcome st) = ids st"
  by (auto simp: end_turn_def persist_system_msg_def persist_response_def ids_update_entry
      split: option.split turn_outcome.split prod.split)

lemma ids_ok_register: "ids_ok st \<Longrightarrow> ids_ok (register_turn i preamble st)"
  by (auto simp: ids_ok_ids register_turn_def Let_def ids_add_turn_task less_Suc_eq split: option.split)

lemma ids_ok_cancel: "ids_ok st \<Longrightarrow> ids_ok (cancel_task tid in_loop st)"
proof -
  assume "ids_ok st"
  then have "ids_ok (st\<lparr>sn_tasks := filter p (sn_tasks st), sn_starts := ss\<rparr>)" for p ss
    by (auto simp: ids_ok_def distinct_map_filter)
  then show ?thesis using \<open>ids_ok st\<close>
    by (simp add: cancel_task_def ids_ok_ids [of "end_turn tid TurnCancelled st"] ids_ok_ids [of "set_phase tid TaskFinally st"]
        split: option.split) (simp add: ids_ok_ids)
qed

lemma turn_step_ok:
  assumes "session_ok st" "ids_ok st"
  shows "session_ok (turn_step a st)" "ids_ok (turn_step a st)"
proof -
  show "session_ok (turn_step a st)"
    using assms
    by (cases a) (simp_all add: send_message_ok register_turn_ok start_turn_ok eager_persist_ok fall_back_ok end_turn_ok
        leave_turn_ok take_pending_ok send_pending_ok take_inbox_ok exit_turn_ok deliver_subagent_result_ok
        inject_internal_message_ok stop_session_ok stop_cancels_ok finish_stop_ok restart_process_ok dispatch_resume_turn_ok)
  have same: "ids_ok (turn_step a st)" if "ids (turn_step a st) = ids st"
    using assms(2) that by (simp add: ids_ok_ids)
  show "ids_ok (turn_step a st)"
  proof (cases a)
    case (RegisterTurn i preamble)
    then show ?thesis using assms(2) by (simp add: ids_ok_register)
  next
    case (ExitTurn tid)
    then show ?thesis using assms(2) by (auto simp: exit_turn_def ids_ok_filter split: option.split)
  next
    case (StopCancels i in_loop)
    then show ?thesis using assms(2)
      by (auto simp: stop_cancels_def Let_def ids_ok_ids intro!: ids_ok_cancel [unfolded ids_ok_ids] split: option.split)
  next
    case Restart
    then show ?thesis by (simp add: restart_process_def recover_stale_session_def promote_executor_running_def Let_def ids_ok_def)
  qed (rule same; auto simp: start_turn_def eager_persist_def fall_back_def leave_turn_def take_pending_def
      send_pending_def take_inbox_def deliver_subagent_result_def inject_internal_message_def stop_session_def
      finish_stop_def dispatch_resume_turn_def Let_def ids_pair
      split: option.split task_phase.split prod.split sum.split send_result.split)+
qed

lemma new_session_ok: "session_ok (new_session a sl i c su)" "ids_ok (new_session a sl i c su)"
  by (simp_all add: new_session_def session_ok_def rows_ok_def ids_ok_def)

lemma run_turns_ok:
  assumes "session_ok st" "ids_ok st"
  shows "session_ok (run_turns acts st) \<and> ids_ok (run_turns acts st)"
  using assms by (induction acts arbitrary: st) (simp_all add: run_turns_def turn_step_ok)

end
