(* ===== verification/Session_Answers.thy ===== *)
theory Session_Answers
  imports Session_Invariant "HOL-Library.Multiset"
begin

text \<open>
  A turn is worked on by one task at most and answered once at most: the turns of the starts and
  the tasks are all different, and the turn of a task that still runs has no answer yet.
\<close>

section \<open>The invariant\<close>

definition at_work :: "turn_task \<Rightarrow> bool" where
  "at_work t \<longleftrightarrow> tt_phase t = TaskCreated \<or> tt_phase t = TaskRunning"

definition live_turns :: "session_state \<Rightarrow> nat list" where
  "live_turns st = map st_turn (sn_starts st) @ map tt_turn (sn_tasks st)"

definition open_turns :: "session_state \<Rightarrow> nat list" where
  "open_turns st = map st_turn (sn_starts st) @ map tt_turn (filter at_work (sn_tasks st))"

definition answered_turns :: "turn_message list \<Rightarrow> nat list" where
  "answered_turns ms = map tm_turn (filter answer ms)"

definition origin_ok :: "(nat \<times> task_phase) option \<Rightarrow> bool" where
  "origin_ok o' \<longleftrightarrow> (case o' of None \<Rightarrow> True | Some (_, ph) \<Rightarrow> ph = TaskInbox \<or> ph = TaskExiting)"

definition answers_ok :: "session_state \<Rightarrow> bool" where
  "answers_ok st \<longleftrightarrow>
     distinct (live_turns st) \<and> distinct (answered_turns (sn_messages st)) \<and>
     set (answered_turns (sn_messages st)) \<inter> set (open_turns st) = {} \<and>
     (\<forall>s \<in> set (sn_starts st). origin_ok (st_origin s))"

lemma distinct_count_le: "distinct xs \<longleftrightarrow> (\<forall>x. count (mset xs) x \<le> 1)"
  by (simp add: distinct_count_atmost_1) (metis One_nat_def count_mset_0_iff le_antisym less_eq_Suc_le not_gr_zero order_refl zero_le)

lemma distinct_mset_mono_list: "mset xs \<subseteq># mset ys \<Longrightarrow> distinct ys \<Longrightarrow> distinct xs"
  unfolding distinct_count_le by (meson mset_subset_eq_count order_trans)

lemma answers_frame:
  assumes "answers_ok st" "mset (answered_turns (sn_messages st')) \<subseteq># mset (answered_turns (sn_messages st))"
    "mset (live_turns st') \<subseteq># mset (live_turns st)" "set (open_turns st') \<subseteq> set (open_turns st)"
    "set (sn_starts st') \<subseteq> set (sn_starts st)"
  shows "answers_ok st'"
  using assms distinct_mset_mono_list [OF assms(2)] distinct_mset_mono_list [OF assms(3)] set_mset_mono [OF assms(2)]
  unfolding answers_ok_def by auto

lemma answers_same:
  assumes "answers_ok st" "sn_messages st' = sn_messages st" "sn_tasks st' = sn_tasks st" "sn_starts st' = sn_starts st"
  shows "answers_ok st'"
  using assms by (simp add: answers_ok_def live_turns_def open_turns_def)

section \<open>Rows\<close>

lemma answered_add_other:
  "\<not> answer \<lparr>tm_id = sn_next_id st, tm_turn = turn, tm_role = r, tm_content = c, tm_completion = completion, tm_error = err\<rparr> \<Longrightarrow>
   answers_ok (snd (add_message turn r c completion err st)) = answers_ok st"
  by (simp add: answers_ok_def add_message_def answered_turns_def live_turns_def open_turns_def)

lemma answered_delete: "answers_ok st \<Longrightarrow> answers_ok (delete_message d st)"
proof (erule answers_frame)
  have "filter_mset (\<lambda>x. Some (tm_id x) \<noteq> d \<and> answer x) M \<subseteq># filter_mset answer M" for M
    by (rule filter_mset_mono_strong) simp_all
  then show "mset (answered_turns (sn_messages (delete_message d st))) \<subseteq># mset (answered_turns (sn_messages st))"
    by (simp add: delete_message_def answered_turns_def image_mset_subseteq_mono)
qed (simp_all add: delete_message_def live_turns_def open_turns_def)

lemma mark_session_completed_answers [simp]: "answers_ok (mark_session_completed st) = answers_ok st"
  by (simp add: mark_session_completed_def answers_ok_def live_turns_def open_turns_def)


section \<open>Tasks\<close>

lemma modify_turns:
  assumes "\<And>t. tt_turn (f t) = tt_turn t"
  shows "map tt_turn (modify tt_id tid f ts) = map tt_turn ts"
  using assms by (auto simp: modify_def)

lemma update_entry_answers:
  assumes "answers_ok st" "\<And>t. tt_turn (f t) = tt_turn t" "\<And>t. t \<in> set (sn_tasks st) \<Longrightarrow> tt_id t = tid \<Longrightarrow> at_work (f t) \<Longrightarrow> at_work t"
  shows "answers_ok (update_task_entry tid f st)"
  using assms(2,3)
  by (intro answers_frame [OF assms(1)])
    (auto simp: update_task_entry_def live_turns_def open_turns_def modify_turns in_modify_iff)

lemma set_phase_answers:
  assumes "answers_ok st" "ph \<noteq> TaskCreated \<and> ph \<noteq> TaskRunning \<or> find_turn_task tid st = Some t \<and> at_work t \<and> ids_ok st"
  shows "answers_ok (set_phase tid ph st)"
  unfolding set_phase_def using assms same_id [of st tid t]
  by (intro update_entry_answers) (auto simp: at_work_def)

lemma set_draft_answers [intro]: "answers_ok st \<Longrightarrow> answers_ok (set_draft tid d st)"
  unfolding set_draft_def by (rule update_entry_answers) (simp_all add: at_work_def)

lemma known_bound: "session_ok st \<Longrightarrow> x \<in> set (live_turns st) \<union> set (answered_turns (sn_messages st)) \<Longrightarrow> x \<le> length (requests (sn_messages st))"
  by (auto simp: session_ok_def rows_ok_def known_turn_def live_turns_def answered_turns_def)

lemma open_turn_answers:
  assumes "answers_ok st" "session_ok st" "inbound r" "origin_ok origin"
  shows "answers_ok (open_turn r c input resume origin st)"
proof -
  have n: "next_turn_number (sn_messages st) = Suc (length (requests (sn_messages st)))"
    using assms(2) next_turn unfolding session_ok_def by blast
  then have "next_turn_number (sn_messages st) \<notin> set (live_turns st) \<union> set (answered_turns (sn_messages st))"
    using known_bound [OF assms(2)] by fastforce
  moreover have "\<not> answer \<lparr>tm_id = i, tm_turn = t, tm_role = r, tm_content = c, tm_completion = MsgSuccess, tm_error = NoError\<rparr>" for i t
    using assms(3) by (auto simp: answer_def inbound_def)
  ultimately show ?thesis using assms(1,4)
    by (auto simp: answers_ok_def open_turn_def reactivate_def add_message_def Let_def live_turns_def open_turns_def answered_turns_def)
qed

lemma send_message_answers:
  "answers_ok st \<Longrightarrow> session_ok st \<Longrightarrow> origin_ok origin \<Longrightarrow> answers_ok (snd (send_message origin rq ok st))"
  unfolding send_message_def
  by (simp add: open_turn_answers inbound_def split: option.split)
    (auto elim!: answers_same)

lemma mset_without_nth: "i < length xs \<Longrightarrow> add_mset (xs ! i) (mset (without_nth i xs)) = mset xs"
proof -
  assume "i < length xs"
  then have "xs = take i xs @ xs ! i # drop (Suc i) xs" by (simp add: id_take_nth_drop)
  then have "mset xs = mset (take i xs @ xs ! i # drop (Suc i) xs)" by (rule arg_cong)
  then show ?thesis by (simp add: without_nth_def)
qed

lemma register_turn_answers:
  assumes "answers_ok st"
  shows "answers_ok (register_turn i preamble st)"
proof (cases "length (sn_starts st) \<le> i")
  case False
  let ?s = "sn_starts st ! i"
  define st1 where "st1 = add_turn_task (st_turn ?s) (if resumed_start ?s st then preamble @ st_input ?s else st_input ?s)
      (st\<lparr>sn_starts := without_nth i (sn_starts st), sn_resume_pending := (sn_resume_pending st \<and> \<not> resumed_start ?s st)\<rparr>)"
  have m: "add_mset ?s (mset (without_nth i (sn_starts st))) = mset (sn_starts st)"
    using False by (simp add: mset_without_nth)
  have live: "mset (live_turns st1) = mset (live_turns st)"
    using arg_cong [OF m, of "image_mset st_turn"] by (simp add: st1_def add_turn_task_def live_turns_def)
  have sub: "set (without_nth i (sn_starts st)) \<subseteq> set (sn_starts st)" "?s \<in> set (sn_starts st)"
    using False set_without_nth [of i "sn_starts st"] by auto
  have "answers_ok st1"
  proof (rule answers_frame [OF assms])
    show "set (open_turns st1) \<subseteq> set (open_turns st)"
      using sub by (auto simp: st1_def add_turn_task_def open_turns_def)
  qed (use live sub in \<open>simp_all add: st1_def add_turn_task_def\<close>)
  moreover have "origin_ok (st_origin ?s)" using assms sub by (simp add: answers_ok_def)
  moreover have "register_turn i preamble st = (case st_origin ?s of None \<Rightarrow> st1 | Some (origin, ph) \<Rightarrow> set_phase origin ph st1)"
    using False by (simp only: register_turn_def Let_def st1_def if_False)
  ultimately show ?thesis by (auto simp: origin_ok_def intro!: set_phase_answers split: option.splits)
qed (use assms in \<open>simp add: register_turn_def\<close>)

text \<open>The end of a turn answers it, and the task is not at work any more.\<close>

lemma turn_answered:
  assumes "answers_ok st" "ids_ok st" "find_turn_task tid st = Some t" "at_work t"
    "sn_tasks st' = sn_tasks st" "sn_starts st' = sn_starts st"
    "mset (answered_turns (sn_messages st')) \<subseteq># add_mset (tt_turn t) (mset (answered_turns (sn_messages st)))"
  shows "answers_ok (set_phase tid TaskFinally st')"
proof -
  have t: "t \<in> set (sn_tasks st)" "tt_id t = tid" using find_turn_task_in [OF assms(3)] by auto
  define st1 where "st1 = set_phase tid TaskFinally st'"
  have live: "live_turns st1 = live_turns st"
    by (simp add: st1_def set_phase_def update_task_entry_def live_turns_def modify_turns assms(5,6))
  have "tt_turn t' \<noteq> tt_turn t" if "t' \<in> set (sn_tasks st1)" "at_work t'" for t'
  proof -
    have "t' \<in> set (modify tt_id tid (\<lambda>t. t\<lparr>tt_phase := TaskFinally\<rparr>) (sn_tasks st))"
      using that(1) by (simp add: st1_def set_phase_def update_task_entry_def assms(5))
    then obtain u where u: "u \<in> set (sn_tasks st)"
        "(tt_id u = tid \<and> t' = u\<lparr>tt_phase := TaskFinally\<rparr>) \<or> (tt_id u \<noteq> tid \<and> t' = u)"
      unfolding in_modify_iff by blast
    then have "t' = u" "tt_id u \<noteq> tid" using that(2) by (auto simp: at_work_def)
    then have "t' \<in> set (sn_tasks st)" "tt_id t' \<noteq> tid" using u(1) by simp_all
    moreover have "inj_on tt_turn (set (sn_tasks st))"
      using assms(1) by (simp add: answers_ok_def live_turns_def distinct_map)
    ultimately show ?thesis using t inj_onD by metis
  qed
  moreover have "tt_turn t \<noteq> st_turn s" if "s \<in> set (sn_starts st)" for s
    using assms(1) t that by (auto simp: answers_ok_def live_turns_def)
  moreover have "sn_starts st1 = sn_starts st" by (simp add: st1_def set_phase_def update_task_entry_def assms(6))
  ultimately have no: "tt_turn t \<notin> set (open_turns st1)"
    by (fastforce simp: open_turns_def)
  have sub: "set (open_turns st1) \<subseteq> set (open_turns st)"
    by (auto simp: open_turns_def st1_def set_phase_def update_task_entry_def in_modify_iff at_work_def assms(5,6))
  have "tt_turn t \<notin> set (answered_turns (sn_messages st))"
    using assms(1,4) t(1) by (auto simp: answers_ok_def open_turns_def)
  then have "distinct (tt_turn t # answered_turns (sn_messages st))" using assms(1) by (simp add: answers_ok_def)
  then have "distinct (answered_turns (sn_messages st'))"
    using distinct_mset_mono_list [of "answered_turns (sn_messages st')" "tt_turn t # answered_turns (sn_messages st)"] assms(7) by simp
  moreover have "set (answered_turns (sn_messages st')) \<subseteq> insert (tt_turn t) (set (answered_turns (sn_messages st)))"
    using set_mset_mono [OF assms(7)] by simp
  moreover have "sn_messages st1 = sn_messages st'" "sn_starts st1 = sn_starts st"
    by (simp_all add: st1_def set_phase_def update_task_entry_def assms(6))
  ultimately show ?thesis using assms(1) no sub live unfolding st1_def [symmetric] answers_ok_def by fastforce
qed

lemma answered_append: "answered_turns (ms @ [m]) = answered_turns ms @ (if answer m then [tm_turn m] else [])"
  by (simp add: answered_turns_def)

lemma answered_modify:
  assumes "distinct (map tm_id ms)" "\<And>m. m \<in> set ms \<Longrightarrow> tm_id m = i \<Longrightarrow> tm_turn (f m) = turn"
  shows "mset (answered_turns (modify tm_id i f ms)) \<subseteq># add_mset turn (mset (answered_turns ms))"
  using assms
proof (induction ms)
  case (Cons m ms)
  show ?case
  proof (cases "tm_id m = i")
    case True
    have "modify tm_id i f ms = ms"
      unfolding modify_def by (rule map_idI) (use Cons.prems(1) True in \<open>auto simp: image_iff\<close>)
    then have "modify tm_id i f (m # ms) = f m # ms" using True by (simp add: modify_def)
    then show ?thesis using Cons.prems(2) [of m] True
      by (auto simp: answered_turns_def add_mset_commute)
  next
    case False
    have "mset (answered_turns (modify tm_id i f ms)) \<subseteq># add_mset turn (mset (answered_turns ms))"
      using Cons by simp
    moreover have "modify tm_id i f (m # ms) = m # modify tm_id i f ms" using False by (simp add: modify_def)
    ultimately show ?thesis
      by (auto simp: answered_turns_def add_mset_commute simp del: mset_map)
  qed
qed (simp add: answered_turns_def modify_def)

lemma persist_system_msg_tasks [simp]:
  "sn_tasks (persist_system_msg t c st) = sn_tasks st" "sn_starts (persist_system_msg t c st) = sn_starts st"
  by (simp_all add: persist_system_msg_def update_message_def add_message_def split: option.split)

lemma persist_response_tasks [simp]:
  "sn_tasks (persist_response t c sub st) = sn_tasks st" "sn_starts (persist_response t c sub st) = sn_starts st"
  by (simp_all add: persist_response_def mark_session_completed_def delete_message_def update_message_def add_message_def
      split: option.split prod.split)

lemma answered_of_draft:
  assumes "session_ok st" "t \<in> set (sn_tasks st)" "tt_draft t = Some i" "\<And>m. tm_turn (f m) = tm_turn m"
  shows "mset (answered_turns (sn_messages (update_message i f st))) \<subseteq># add_mset (tt_turn t) (mset (answered_turns (sn_messages st)))"
proof -
  have "distinct (map tm_id (sn_messages st))" using assms(1) by (simp add: session_ok_def rows_ok_def)
  moreover have "tm_turn (f m) = tt_turn t" if "m \<in> set (sn_messages st)" "tm_id m = i" for m
    using assms that by (auto simp: session_ok_def draft_ok_def)
  ultimately show ?thesis by (simp add: update_message_def answered_modify)
qed

lemma answered_persist:
  assumes "session_ok st" "t \<in> set (sn_tasks st)"
  shows "mset (answered_turns (sn_messages (persist_system_msg t c st))) \<subseteq># add_mset (tt_turn t) (mset (answered_turns (sn_messages st)))"
    "mset (answered_turns (sn_messages (persist_response t c sub st))) \<subseteq># add_mset (tt_turn t) (mset (answered_turns (sn_messages st)))"
proof -
  show "mset (answered_turns (sn_messages (persist_system_msg t c st))) \<subseteq># add_mset (tt_turn t) (mset (answered_turns (sn_messages st)))"
    using answered_of_draft [OF assms]
    by (auto simp: persist_system_msg_def add_message_def answered_append answer_def simp del: mset_map split: option.split)
  have d: "mset (answered_turns (sn_messages (delete_message (Some i) st))) \<subseteq># mset (answered_turns (sn_messages st))" for i
  proof -
    have "filter_mset (\<lambda>x. tm_id x \<noteq> i \<and> answer x) M \<subseteq># filter_mset answer M" for M
      by (rule filter_mset_mono_strong) simp_all
    then show ?thesis by (simp add: delete_message_def answered_turns_def image_mset_subseteq_mono)
  qed
  have up: "M \<subseteq># add_mset x M" for x :: nat and M by simp
  show "mset (answered_turns (sn_messages (persist_response t c sub st))) \<subseteq># add_mset (tt_turn t) (mset (answered_turns (sn_messages st)))"
    using answered_of_draft [OF assms] subset_mset.order_trans [OF d up]
    by (auto simp: persist_response_def mark_session_completed_def add_message_def answered_append simp del: mset_map split: option.split prod.split)
qed

lemma end_turn_answers:
  assumes "answers_ok st" "session_ok st" "ids_ok st"
  shows "answers_ok (end_turn tid outcome st)"
proof (cases "\<exists>t. find_turn_task tid st = Some t \<and> tt_phase t = TaskRunning")
  case False
  then show ?thesis using assms(1) by (auto simp: end_turn_def split: option.split)
next
  case True
  then obtain t where t: "find_turn_task tid st = Some t" "tt_phase t = TaskRunning" by blast
  have i: "t \<in> set (sn_tasks st)" "at_work t" using find_turn_task_in [OF t(1)] t(2) by (simp_all add: at_work_def)
  note done' = turn_answered [OF assms(1,3) t(1) i(2)]
  show ?thesis
  proof (cases outcome)
    case TurnCancelled
    have "answers_ok (case tt_draft t of None \<Rightarrow> st | Some i \<Rightarrow> delete_message (Some i) st)"
      using assms(1) answered_delete by (simp split: option.split)
    then have "answers_ok (update_task_entry tid (\<lambda>t. t\<lparr>tt_cancelled := True\<rparr>)
        (case tt_draft t of None \<Rightarrow> st | Some i \<Rightarrow> delete_message (Some i) st))"
      by (rule update_entry_answers) (simp_all add: at_work_def)
    then show ?thesis using t TurnCancelled by (auto simp: end_turn_def intro: set_phase_answers)
  next
    case (TurnCrashed e)
    then show ?thesis using t answered_persist [OF assms(2) i(1)]
      by (auto simp: end_turn_def mark_session_completed_def intro!: done')
  next
    case (TurnErrored e)
    then show ?thesis using t answered_persist [OF assms(2) i(1)]
      by (auto simp: end_turn_def mark_session_completed_def intro!: done')
  next
    case (TurnFinished c sub)
    then show ?thesis using t answered_persist [OF assms(2) i(1)]
      by (auto simp: end_turn_def intro!: done')
  qed
qed

section \<open>Every step\<close>

lemma set_phase_leaves:
  "answers_ok st \<Longrightarrow> ph \<noteq> TaskCreated \<Longrightarrow> ph \<noteq> TaskRunning \<Longrightarrow> answers_ok (set_phase tid ph st)"
  by (rule set_phase_answers) simp_all

lemma start_turn_answers:
  assumes "answers_ok st" "ids_ok st"
  shows "answers_ok (start_turn tid ok st)"
proof -
  let ?r = "st\<lparr>sn_executor_running := True\<rparr>"
  have r: "answers_ok ?r" using assms(1) by (rule answers_same) simp_all
  have e: "answers_ok (snd (add_message turn SystemRole c MsgFailed ErrorInternal ?r))" for turn c
    using r by (subst answered_add_other) (simp_all add: answer_def)
  have "answers_ok (set_phase tid TaskRunning ?r)" if t: "find_turn_task tid st = Some t" "tt_phase t = TaskCreated" for t
    using r assms(2) t by (intro set_phase_answers [where t = t])
      (auto simp: find_turn_task_def at_work_def ids_ok_def)
  then show ?thesis using assms(1) r e by (auto simp: start_turn_def Let_def intro!: set_phase_leaves split: option.split)
qed

lemma eager_persist_answers:
  assumes "answers_ok st" "session_ok st"
  shows "answers_ok (eager_persist tid content st)"
proof -
  have new: "answers_ok st1" if "add_message turn AgentRole content MsgInProgress NoError st = (i, st1)" for turn i st1
    using assms(1) that answered_add_other [where st = st and turn = turn and r = AgentRole and c = content
        and completion = MsgInProgress and err = NoError]
    by (simp add: answer_def)
  have "answered_turns (modify tm_id i (\<lambda>m. m\<lparr>tm_content := content\<rparr>) ms) = answered_turns ms" for i ms
    by (induction ms) (simp_all add: answered_turns_def modify_def answer_def)
  then have "answers_ok (update_message i (\<lambda>m. m\<lparr>tm_content := content\<rparr>) st)" for i
    using assms(1) by (simp add: update_message_def answers_ok_def live_turns_def open_turns_def)
  then show ?thesis using assms(1) new
    by (auto simp: eager_persist_def intro!: set_draft_answers split: option.split prod.split)
qed

lemma fall_back_answers: "answers_ok st \<Longrightarrow> answers_ok (fall_back tid st)"
  by (auto simp: fall_back_def intro!: set_draft_answers answered_delete split: option.split)

lemma pending_answers [simp]:
  "answers_ok (st\<lparr>sn_pending := p\<rparr>) = answers_ok st"
  "answers_ok (st\<lparr>sn_executor_running := b\<rparr>) = answers_ok st"
  by (simp_all add: answers_ok_def live_turns_def open_turns_def)

lemma leave_turn_answers: "answers_ok st \<Longrightarrow> answers_ok (leave_turn tid st)"
  by (auto simp: leave_turn_def intro!: set_phase_leaves split: option.split)

lemma take_pending_answers: "answers_ok st \<Longrightarrow> answers_ok (take_pending tid st)"
  by (auto simp: take_pending_def intro!: set_phase_leaves split: option.split)

lemma send_pending_answers:
  assumes "answers_ok st" "session_ok st"
  shows "answers_ok (send_pending tid ok st)"
proof -
  have "answers_ok st1" if "send_message (Some (tid, TaskInbox)) rq ok st = (res, st1)" for rq res st1
    using send_message_answers [OF assms, of "Some (tid, TaskInbox)" rq ok] that by (simp add: origin_ok_def)
  then show ?thesis using assms(1)
    by (auto simp: send_pending_def Let_def intro!: set_phase_leaves split: option.split task_phase.split prod.split sum.split send_result.split)
qed

lemma take_inbox_answers:
  assumes "answers_ok st" "session_ok st"
  shows "answers_ok (take_inbox tid m st)"
  using assms by (auto simp: take_inbox_def Let_def inbound_def origin_ok_def intro!: set_phase_leaves open_turn_answers split: option.split)

lemma filter_tasks_answers:
  assumes "answers_ok st" "sn_messages st' = sn_messages st" "sn_tasks st' = filter p (sn_tasks st)"
    "sn_starts st' = filter q (sn_starts st)"
  shows "answers_ok st'"
proof (rule answers_frame [OF assms(1)])
  have f: "filter_mset r M \<subseteq># M" for r :: "'a \<Rightarrow> bool" and M by simp
  show "mset (live_turns st') \<subseteq># mset (live_turns st)"
    by (simp add: live_turns_def assms(3,4) subset_mset.add_mono image_mset_subseteq_mono)
qed (auto simp: open_turns_def assms)

lemma exit_turn_answers: "answers_ok st \<Longrightarrow> answers_ok (exit_turn tid st)"
  by (auto simp: exit_turn_def elim!: filter_tasks_answers [where q = "\<lambda>_. True"] split: option.split)

lemma deliver_subagent_result_answers: "answers_ok st \<Longrightarrow> answers_ok (deliver_subagent_result m st)"
  by (auto simp: deliver_subagent_result_def elim!: answers_same)

lemma inject_internal_message_answers:
  assumes "answers_ok st" "session_ok st"
  shows "answers_ok (inject_internal_message i ok st)"
proof -
  have "answers_ok (st\<lparr>sn_injections := js\<rparr>)" "session_ok (st\<lparr>sn_injections := js\<rparr>)" for js
    using assms(2) by (auto intro: answers_same [OF assms(1)] simp: session_ok_def)
  then show ?thesis using assms(1)
    by (auto simp: inject_internal_message_def Let_def inbound_def origin_ok_def intro!: open_turn_answers)
qed

lemma stop_session_answers: "answers_ok st \<Longrightarrow> answers_ok (stop_session st)"
  by (auto simp: stop_session_def Let_def elim!: answers_same)

lemma stop_cancels_answers:
  assumes "answers_ok st" "session_ok st" "ids_ok st"
  shows "answers_ok (stop_cancels i in_loop st)"
proof (cases "length (sn_stops st) \<le> i")
  case False
  define st1 where "st1 = st\<lparr>sn_stops := (sn_stops st)[i := (sn_stops st ! i)\<lparr>tp_cancelled := True\<rparr>]\<rparr>"
  have "answers_ok st1" by (rule answers_same [OF assms(1)]) (simp_all add: st1_def)
  moreover have "session_ok st1"
    using assms(2) False by (auto simp: st1_def session_ok_def dest!: set_update_subset_insert [THEN subsetD])
  moreover have "ids_ok st1" using assms(3) by (simp add: st1_def ids_ok_def)
  ultimately have "answers_ok (cancel_task tid in_loop st1)" "answers_ok st1" for tid
    by (auto simp: cancel_task_def intro!: end_turn_answers set_phase_leaves
        intro: filter_tasks_answers [of st1] split: option.split)
  then show ?thesis using assms(1) by (auto simp: stop_cancels_def Let_def st1_def split: option.split)
qed (use assms in \<open>simp add: stop_cancels_def\<close>)

lemma finish_stop_answers: 
  assumes "answers_ok st"
  shows "answers_ok (finish_stop i st)"
proof -
  let ?s = "st\<lparr>sn_stops := without_nth i (sn_stops st)\<rparr>"
  have s: "answers_ok ?s" using assms by (rule answers_same) simp_all
  then have "answers_ok (snd (add_message turn SystemRole c MsgAborted NoError ?s))" for turn c
    by (subst answered_add_other) (simp_all add: answer_def)
  then show ?thesis using assms s by (auto simp: finish_stop_def Let_def)
qed

lemma restart_process_answers: "answers_ok st \<Longrightarrow> answers_ok (restart_process st)"
  by (auto simp: restart_process_def recover_stale_session_def promote_executor_running_def Let_def
      answers_ok_def live_turns_def open_turns_def)

lemma dispatch_resume_turn_answers:
  assumes "answers_ok st" "session_ok st"
  shows "answers_ok (dispatch_resume_turn p st)"
proof -
  have "answers_ok (st\<lparr>sn_resume_pending := False\<rparr>)" "session_ok (st\<lparr>sn_resume_pending := False\<rparr>)"
    using assms(2) by (auto intro: answers_same [OF assms(1)] simp: session_ok_def)
  then show ?thesis using assms(1)
    by (auto simp: dispatch_resume_turn_def inbound_def origin_ok_def intro!: open_turn_answers)
qed

definition turns_ok :: "session_state \<Rightarrow> bool" where
  "turns_ok st \<longleftrightarrow> session_ok st \<and> ids_ok st \<and> answers_ok st"

lemma turn_step_answers:
  assumes "turns_ok st"
  shows "turns_ok (turn_step a st)"
proof -
  have ok: "session_ok st" "ids_ok st" "answers_ok st" using assms by (simp_all add: turns_ok_def)
  have "answers_ok (turn_step a st)"
    using ok
    by (cases a) (simp_all add: send_message_answers origin_ok_def register_turn_answers start_turn_answers eager_persist_answers
        fall_back_answers end_turn_answers leave_turn_answers take_pending_answers send_pending_answers take_inbox_answers
        exit_turn_answers deliver_subagent_result_answers inject_internal_message_answers stop_session_answers
        stop_cancels_answers finish_stop_answers restart_process_answers dispatch_resume_turn_answers)
  then show ?thesis using turn_step_ok [OF ok(1,2)] by (simp add: turns_ok_def)
qed

lemma run_turns_turns_ok: "turns_ok st \<Longrightarrow> turns_ok (run_turns acts st)"
  by (induction acts arbitrary: st) (simp_all add: run_turns_def turn_step_answers)

lemma new_session_turns_ok: "turns_ok (new_session a sl i c su)"
  using new_session_ok [of a sl i c su]
  by (simp add: turns_ok_def) (simp add: new_session_def answers_ok_def live_turns_def open_turns_def answered_turns_def)

end
