(* ===== verification/Session_Plain.thy ===== *)
theory Session_Plain
  imports Session_Answers "HOL-Library.Sublist"
begin

text \<open>
  Sessions to which only messages are sent: no stop, no restart, no message of another agent and no
  subagent result. One turn is worked on at a time, a waiting message has a task that
  will take it, and a session at rest has answered everything it accepted.
\<close>

section \<open>Plain actions\<close>

fun plain :: "turn_action \<Rightarrow> bool" where
  "plain (Send rq ok) = ok"
| "plain (RegisterTurn i preamble) = True"
| "plain (StartTurn tid ok) = True"
| "plain (EagerPersist tid content) = True"
| "plain (FallBack tid) = True"
| "plain (EndTurn tid outcome) = (outcome \<noteq> TurnCancelled)"
| "plain (LeaveTurn tid) = True"
| "plain (TakePending tid) = True"
| "plain (SendPending tid ok) = ok"
| "plain (TakeInbox tid m) = (m = None)"
| "plain (ExitTurn tid) = True"
| "plain _ = False"

section \<open>The invariant\<close>

definition completed :: "turn_message list \<Rightarrow> nat \<Rightarrow> bool" where
  "completed ms t \<longleftrightarrow> (\<exists>m \<in> set ms. completed_response t m)"

definition open_ok :: "session_state \<Rightarrow> bool" where
  "open_ok st \<longleftrightarrow>
     length (open_turns st) \<le> 1 \<and> (\<forall>t \<in> set (open_turns st). t = length (requests (sn_messages st))) \<and>
     (\<forall>t. known_turn (sn_messages st) t \<longrightarrow> (completed (sn_messages st) t \<longleftrightarrow> t \<notin> set (open_turns st)))"

text \<open>Someone will take what waits.\<close>

definition drains :: "turn_task \<Rightarrow> bool" where
  "drains t \<longleftrightarrow> tt_phase t = TaskFinally \<or> tt_phase t = TaskDraining"

definition drain_ok :: "session_state \<Rightarrow> bool" where
  "drain_ok st \<longleftrightarrow> sn_pending st = [] \<or> open_turns st \<noteq> [] \<or> (\<exists>t \<in> set (sn_tasks st). drains t)"

text \<open>The running task has its draft, and what the system wrote is final.\<close>

definition draft_there :: "turn_message list \<Rightarrow> turn_task \<Rightarrow> bool" where
  "draft_there ms t \<longleftrightarrow>
     (at_work t \<longrightarrow>
        (case tt_draft t of None \<Rightarrow> True | Some i \<Rightarrow> \<exists>m \<in> set ms. tm_id m = i \<and> tm_role m = AgentRole))"

definition rows_plain :: "session_state \<Rightarrow> bool" where
  "rows_plain st \<longleftrightarrow>
     (\<forall>m \<in> set (sn_messages st). tm_role m = SystemRole \<longrightarrow> tm_completion m \<noteq> MsgInProgress) \<and>
     (\<forall>t \<in> set (sn_tasks st). \<not> tt_cancelled t \<and> draft_there (sn_messages st) t)"

text \<open>A task waits exactly for a start of its own.\<close>

definition wait_ok :: "session_state \<Rightarrow> bool" where
  "wait_ok st \<longleftrightarrow>
     (\<forall>t \<in> set (sn_tasks st). tt_phase t = TaskWaiting \<longleftrightarrow> (\<exists>s \<in> set (sn_starts st). st_origin s = Some (tt_id t, TaskInbox))) \<and>
     (\<forall>s \<in> set (sn_starts st). \<forall>tid ph. st_origin s = Some (tid, ph) \<longrightarrow> ph = TaskInbox \<and> tid \<in> tt_id ` set (sn_tasks st))"

text \<open>Whoever sent a queued message may send it again.\<close>

definition sender_ok :: "session_state \<Rightarrow> pending_message \<Rightarrow> bool" where
  "sender_ok st p \<longleftrightarrow>
     (case message_creator st \<lparr>rq_message = pm_message p, rq_slack_user_id = pm_slack_user_id p, rq_user_id = pm_user_id p\<rparr> of
        None \<Rightarrow> False
      | Some c \<Rightarrow> sn_slack st \<or> (given (sn_creator st) \<noteq> None \<and> sn_creator st = Some c))"

definition held :: "turn_task \<Rightarrow> pending_message list" where
  "held t = (case tt_phase t of TaskHolding ps \<Rightarrow> ps | _ \<Rightarrow> [])"

definition waiting_messages :: "session_state \<Rightarrow> pending_message list" where
  "waiting_messages st = sn_pending st @ concat (map held (sn_tasks st))"

definition senders_ok :: "session_state \<Rightarrow> bool" where
  "senders_ok st \<longleftrightarrow>
     (\<forall>p \<in> set (waiting_messages st). sender_ok st p) \<and>
     (\<forall>t \<in> set (sn_tasks st). tt_phase t \<noteq> TaskHolding []) \<and> sn_agent_ok st \<and> sn_status st \<noteq> SessionStale"

definition plain_ok :: "session_state \<Rightarrow> bool" where
  "plain_ok st \<longleftrightarrow>
     turns_ok st \<and> open_ok st \<and> drain_ok st \<and> rows_plain st \<and> wait_ok st \<and> senders_ok st"

lemma plain_okD:
  assumes "plain_ok st"
  shows "turns_ok st" "session_ok st" "ids_ok st" "open_ok st" "drain_ok st" "rows_plain st" "wait_ok st" "senders_ok st"
  using assms by (simp_all add: plain_ok_def turns_ok_def)

section \<open>Open turns\<close>

lemma completed_count: "completed ms t \<longleftrightarrow> count_rows (completed_response t) ms \<noteq> 0"
  by (auto simp: completed_def count_rows_def filter_empty_conv)

lemma open_known: "session_ok st \<Longrightarrow> t \<in> set (open_turns st) \<Longrightarrow> known_turn (sn_messages st) t"
  by (auto simp: session_ok_def open_turns_def)

lemma inflight_open:
  assumes "session_ok st" "open_ok st"
  shows "has_inflight_turn (sn_messages st) \<longleftrightarrow> open_turns st \<noteq> []"
proof -
  let ?ms = "sn_messages st"
  have "rows_ok ?ms (sn_next_id st)" using assms(1) by (simp add: session_ok_def)
  then have h: "has_inflight_turn ?ms \<longleftrightarrow> requests ?ms \<noteq> [] \<and> \<not> completed ?ms (length (requests ?ms))"
    by (simp add: has_inflight_turn_def max_request completed_count)
  show ?thesis
  proof (cases "open_turns st")
    case Nil
    then show ?thesis using assms(2) h by (auto simp: open_ok_def known_turn_def Suc_le_eq)
  next
    case (Cons t ts)
    then have "t = length (requests ?ms)" "known_turn ?ms t"
      using assms open_known [of st t] by (auto simp: open_ok_def)
    then show ?thesis using assms(2) h Cons by (auto simp: open_ok_def known_turn_def)
  qed
qed

lemma open_ok_frame:
  assumes "open_ok st" "open_turns st' = open_turns st" "length (requests (sn_messages st')) = length (requests (sn_messages st))"
    "\<And>t. completed (sn_messages st') t = completed (sn_messages st) t"
  shows "open_ok st'"
  using assms by (simp add: open_ok_def known_turn_def)

lemma open_turn_fields [simp]:
  "sn_tasks (open_turn r c input resume origin st) = sn_tasks st"
  "sn_pending (open_turn r c input resume origin st) = sn_pending st"
  "sn_starts (open_turn r c input resume origin st) =
     sn_starts st @ [\<lparr>st_turn = next_turn_number (sn_messages st), st_input = input, st_resume = resume, st_origin = origin\<rparr>]"
  by (simp_all add: open_turn_def reactivate_def add_message_def Let_def)

lemma open_turn_open_ok:
  assumes "session_ok st" "open_ok st" "open_turns st = []" "inbound r"
  shows "open_ok (open_turn r c input resume origin st)"
proof -
  let ?ms = "sn_messages st" and ?st = "open_turn r c input resume origin st"
  have rows: "rows_ok ?ms (sn_next_id st)" using assms(1) by (simp add: session_ok_def)
  have n: "next_turn_number ?ms = Suc (length (requests ?ms))" using rows by (rule next_turn)
  obtain m where m: "sn_messages ?st = ?ms @ [m]" "tm_turn m = Suc (length (requests ?ms))" "tm_role m = r"
    by (simp add: open_turn_def reactivate_def add_message_def Let_def n)
  have req: "length (requests (sn_messages ?st)) = Suc (length (requests ?ms))" using m assms(4) by simp
  have "completed (sn_messages ?st) t = completed ?ms t" for t
    using m assms(4) by (auto simp: completed_def completed_response_def)
  moreover have "\<not> completed ?ms (Suc (length (requests ?ms)))"
    using rows by (auto simp: completed_def completed_response_def rows_ok_def known_turn_def)
  moreover have "open_turns ?st = [Suc (length (requests ?ms))]"
    using assms(3) by (simp add: open_turns_def n)
  ultimately show ?thesis using assms(2,3) req by (auto simp: open_ok_def known_turn_def le_Suc_eq)
qed

section \<open>Messages\<close>

abbreviation as_pending :: "send_request \<Rightarrow> pending_message" where
  "as_pending rq \<equiv> \<lparr>pm_message = rq_message rq, pm_slack_user_id = rq_slack_user_id rq, pm_user_id = rq_user_id rq\<rparr>"

lemma send_message_cases:
  assumes "sn_status st \<noteq> SessionStale" "sn_agent_ok st"
  obtains (refused) e where "send_message origin rq True st = (Inl e, st)"
      "sender_ok st (as_pending rq) \<Longrightarrow> has_inflight_turn (sn_messages st)"
    | (queued) "send_message origin rq True st = (Inr MessageQueued, st\<lparr>sn_pending := sn_pending st @ [as_pending rq]\<rparr>)"
      "has_inflight_turn (sn_messages st)" "sender_ok st (as_pending rq)"
    | (opened) n where "send_message origin rq True st =
        (Inr (TurnProcessing n), open_turn UserRole (rq_message rq) (rq_message rq) True origin st)"
      "\<not> has_inflight_turn (sn_messages st)"
proof (cases "sender_ok st (as_pending rq)")
  case True
  then obtain c where c: "message_creator st rq = Some c"
      "sn_slack st \<or> given (sn_creator st) \<noteq> None \<and> sn_creator st = Some c"
    by (cases rq) (auto simp: sender_ok_def split: option.splits)
  show ?thesis
  proof (cases "has_inflight_turn (sn_messages st)")
    case fl: True
    show ?thesis
    proof (cases "MAX_PENDING_MESSAGES \<le> length (sn_pending st)")
      case full: True
      have "send_message origin rq True st = (Inl PendingQueueFull, st)"
        using c fl full assms by (auto simp: send_message_def)
      then show ?thesis using refused fl by blast
    next
      case room: False
      have "send_message origin rq True st = (Inr MessageQueued, st\<lparr>sn_pending := sn_pending st @ [as_pending rq]\<rparr>)"
        using c fl room assms by (auto simp: send_message_def)
      then show ?thesis using queued fl True by blast
    qed
  next
    case fl: False
    have "send_message origin rq True st = (Inr (TurnProcessing (next_turn_number (sn_messages st))),
        open_turn UserRole (rq_message rq) (rq_message rq) True origin st)"
      using c fl assms by (auto simp: send_message_def)
    then show ?thesis using opened fl by blast
  qed
next
  case False
  then have "\<exists>e. send_message origin rq True st = (Inl e, st)"
    by (cases rq) (auto simp: sender_ok_def send_message_def split: option.splits)
  then show ?thesis using refused False by blast
qed

text \<open>The invariant apart from the turns.\<close>

lemma message_creator_frame: "sn_slack_user st' = sn_slack_user st \<Longrightarrow> message_creator st' rq = message_creator st rq"
  by (simp add: message_creator_def split: option.split)

lemma sender_ok_frame:
  assumes "sn_slack st' = sn_slack st" "sn_creator st' = sn_creator st" "sn_slack_user st' = sn_slack_user st"
  shows "sender_ok st' p = sender_ok st p"
  unfolding sender_ok_def message_creator_frame [OF assms(3)] assms(1,2) ..

lemma open_turn_session [simp]:
  "sn_slack (open_turn r c input resume origin st) = sn_slack st"
  "sn_creator (open_turn r c input resume origin st) = sn_creator st"
  "sn_slack_user (open_turn r c input resume origin st) = sn_slack_user st"
  "sn_agent_ok (open_turn r c input resume origin st) = sn_agent_ok st"
  "sn_status (open_turn r c input resume origin st) = SessionActive"
  by (simp_all add: open_turn_def reactivate_def add_message_def Let_def)

lemma open_turn_rows:
  "sn_messages (open_turn r c input resume origin st) = sn_messages st @
     [\<lparr>tm_id = sn_next_id st, tm_turn = next_turn_number (sn_messages st), tm_role = r, tm_content = c,
       tm_completion = MsgSuccess, tm_error = NoError\<rparr>]"
  by (simp add: open_turn_def reactivate_def add_message_def Let_def)

lemma draft_there_more: "draft_there ms t \<Longrightarrow> set ms \<subseteq> set ms' \<Longrightarrow> draft_there ms' t"
  by (cases "tt_draft t") (auto simp: draft_there_def)

lemma rows_plain_open: "rows_plain st \<Longrightarrow> inbound r \<Longrightarrow> rows_plain (open_turn r c input resume origin st)"
  unfolding rows_plain_def open_turn_rows open_turn_fields
  by (intro conjI ballI) (auto simp: inbound_def intro: draft_there_more)

lemma senders_ok_open: "senders_ok st \<Longrightarrow> senders_ok (open_turn r c input resume origin st)"
  using sender_ok_frame [of "open_turn r c input resume origin st" st]
  by (simp add: senders_ok_def waiting_messages_def)

lemma plain_queue:
  assumes "plain_ok st" "open_turns st \<noteq> []" "sender_ok st p"
  shows "plain_ok (st\<lparr>sn_pending := sn_pending st @ [p]\<rparr>)"
proof -
  let ?st = "st\<lparr>sn_pending := sn_pending st @ [p]\<rparr>"
  have o': "open_turns ?st = open_turns st" by (simp add: open_turns_def)
  have "open_ok ?st" using plain_okD(4) [OF assms(1)] by (rule open_ok_frame) (simp_all add: o')
  moreover have "turns_ok ?st" using plain_okD(1) [OF assms(1)] by (simp add: turns_ok_def ids_ok_def)
  moreover have "senders_ok ?st"
    using plain_okD(8) [OF assms(1)] assms(3) sender_ok_frame [of ?st st]
    by (auto simp: senders_ok_def waiting_messages_def)
  ultimately show ?thesis
    using plain_okD [OF assms(1)] assms(2) o' by (simp add: plain_ok_def drain_ok_def rows_plain_def wait_ok_def)
qed

lemma send_plain:
  assumes "plain_ok st"
  shows "plain_ok (snd (send_message None rq True st))"
proof -
  note ok = plain_okD [OF assms]
  have "sn_status st \<noteq> SessionStale" "sn_agent_ok st" using ok(8) by (simp_all add: senders_ok_def)
  then show ?thesis
  proof (cases rule: send_message_cases [where origin = None and rq = rq])
    case (refused e)
    then show ?thesis using assms by simp
  next
    case queued
    then show ?thesis using plain_queue [OF assms] inflight_open [OF ok(2,4)] by simp
  next
    case (opened n)
    then have o': "open_turns st = []" using inflight_open [OF ok(2,4)] by simp
    let ?st = "open_turn UserRole (rq_message rq) (rq_message rq) True None st"
    have "turns_ok ?st" using turn_step_answers [OF ok(1), of "Send rq True"] opened(1) by simp
    moreover have "open_ok ?st" using ok o' by (intro open_turn_open_ok) (simp_all add: inbound_def)
    moreover have "drain_ok ?st" by (simp add: drain_ok_def open_turns_def)
    moreover have "wait_ok ?st" using ok(7) by (auto simp: wait_ok_def)
    ultimately show ?thesis using opened(1) ok by (simp add: plain_ok_def rows_plain_open senders_ok_open inbound_def)
  qed
qed

section \<open>Tasks past their turn\<close>

definition held_in :: "task_phase \<Rightarrow> pending_message list" where
  "held_in ph = (case ph of TaskHolding ps \<Rightarrow> ps | _ \<Rightarrow> [])"

lemma held_alt: "held t = held_in (tt_phase t)"
  by (simp add: held_def held_in_def)

lemma phase_entry:
  assumes "ids_ok st" "find_turn_task tid st = Some t" "sn_tasks st' = sn_tasks st"
  shows "u \<in> set (sn_tasks (set_phase tid ph st')) \<longleftrightarrow> u = t\<lparr>tt_phase := ph\<rparr> \<or> (u \<in> set (sn_tasks st) \<and> tt_id u \<noteq> tid)"
  using find_turn_task_in [OF assms(2)] same_id [OF assms(1,2)] assms(3)
  unfolding set_phase_def update_task_entry_def by (auto simp: in_modify_iff)

lemma modify_filter_map:
  assumes "\<And>t. t \<in> set ts \<Longrightarrow> tt_id t = tid \<Longrightarrow> \<not> P t \<and> \<not> P (f t)"
  shows "filter P (modify tt_id tid f ts) = filter P ts"
  using assms by (induction ts) (auto simp: modify_def)

lemma phase_open_turns:
  assumes "ids_ok st" "find_turn_task tid st = Some t" "sn_tasks st' = sn_tasks st" "sn_starts st' = sn_starts st"
    "\<not> at_work t" "ph \<noteq> TaskCreated" "ph \<noteq> TaskRunning"
  shows "open_turns (set_phase tid ph st') = open_turns st"
proof -
  have "filter at_work (modify tt_id tid (\<lambda>t. t\<lparr>tt_phase := ph\<rparr>) (sn_tasks st)) = filter at_work (sn_tasks st)"
    using assms(5-7) same_id [OF assms(1,2)] by (intro modify_filter_map) (auto simp: at_work_def)
  then show ?thesis using assms(3,4) by (simp add: open_turns_def set_phase_def update_task_entry_def)
qed

lemma set_phase_fields [simp]:
  "sn_messages (set_phase tid ph st) = sn_messages st" "sn_starts (set_phase tid ph st) = sn_starts st"
  "sn_pending (set_phase tid ph st) = sn_pending st" "sn_slack (set_phase tid ph st) = sn_slack st"
  "sn_creator (set_phase tid ph st) = sn_creator st" "sn_slack_user (set_phase tid ph st) = sn_slack_user st"
  "sn_agent_ok (set_phase tid ph st) = sn_agent_ok st" "sn_status (set_phase tid ph st) = sn_status st"
  by (simp_all add: set_phase_def update_task_entry_def)

lemma phase_move:
  assumes "plain_ok st" "find_turn_task tid st = Some t" "\<not> at_work t" "tt_phase t \<noteq> TaskWaiting"
    and ph: "ph \<noteq> TaskCreated" "ph \<noteq> TaskRunning" "ph \<noteq> TaskWaiting" "ph \<noteq> TaskHolding []"
    and drain: "p = [] \<or> open_turns st \<noteq> [] \<or> ph = TaskFinally \<or> ph = TaskDraining \<or> (\<not> drains t \<and> sn_pending st \<noteq> [])"
    and sub: "set p \<union> set (held_in ph) \<subseteq> set (sn_pending st) \<union> set (held t)"
  shows "plain_ok (set_phase tid ph (st\<lparr>sn_pending := p, sn_executor_running := b\<rparr>))"
proof -
  note ok = plain_okD [OF assms(1)]
  let ?s = "st\<lparr>sn_pending := p, sn_executor_running := b\<rparr>"
  let ?st = "set_phase tid ph ?s"
  have entry: "u \<in> set (sn_tasks ?st) \<longleftrightarrow> u = t\<lparr>tt_phase := ph\<rparr> \<or> (u \<in> set (sn_tasks st) \<and> tt_id u \<noteq> tid)" for u
    by (rule phase_entry [OF ok(3) assms(2)]) simp
  have t: "t \<in> set (sn_tasks st)" "tt_id t = tid" using find_turn_task_in [OF assms(2)] by auto
  have tasks: "set (sn_tasks ?st) = insert (t\<lparr>tt_phase := ph\<rparr>) {u \<in> set (sn_tasks st). tt_id u \<noteq> tid}"
    using entry by auto
  have o': "open_turns ?st = open_turns st"
    using ok(3) assms(2,3) ph by (intro phase_open_turns) simp_all
  have "turns_ok ?s" using ok(1) by (simp add: turns_ok_def ids_ok_def)
  then have "turns_ok ?st" using ph
    by (simp add: turns_ok_def set_phase_ok set_phase_leaves ids_ok_ids)
  moreover have "open_ok ?st" using ok(4) by (rule open_ok_frame) (simp_all add: o')
  moreover have "drain_ok ?st"
  proof -
    have "\<exists>u \<in> set (sn_tasks ?st). drains u" if "p \<noteq> []" and none: "open_turns st = []" and "ph \<noteq> TaskFinally" "ph \<noteq> TaskDraining"
    proof -
      have d: "\<not> drains t" "sn_pending st \<noteq> []" using drain that by auto
      then obtain u where "u \<in> set (sn_tasks st)" "drains u" using ok(5) none by (auto simp: drain_ok_def)
      moreover from this have "tt_id u \<noteq> tid" using d(1) same_id [OF ok(3) assms(2)] by auto
      ultimately show ?thesis using entry by blast
    qed
    moreover have "\<exists>u \<in> set (sn_tasks ?st). drains u" if "ph = TaskFinally \<or> ph = TaskDraining"
      using entry [of "t\<lparr>tt_phase := ph\<rparr>"] that by (intro bexI [of _ "t\<lparr>tt_phase := ph\<rparr>"]) (simp_all add: drains_def)
    ultimately show ?thesis using o' by (auto simp: drain_ok_def)
  qed
  moreover have "rows_plain ?st"
    using ok(6) t(1) ph unfolding rows_plain_def tasks by (auto simp: draft_there_def at_work_def)
  moreover have "wait_ok ?st"
  proof -
    have no: "\<not> (\<exists>s \<in> set (sn_starts st). st_origin s = Some (tid, TaskInbox))"
      using ok(7) t assms(4) by (auto simp: wait_ok_def)
    have i: "tt_id ` set (sn_tasks ?st) = tt_id ` set (sn_tasks st)"
      using ids_set_phase(1) [of tid ph ?s] by (simp add: ids_def) (metis list.set_map)
    show ?thesis unfolding wait_ok_def i unfolding tasks using ok(7) no t(2) ph by (auto simp: wait_ok_def)
  qed
  moreover have "senders_ok ?st"
  proof -
    have "set (waiting_messages ?st) \<subseteq> set (waiting_messages st)"
      unfolding waiting_messages_def set_append set_concat set_map tasks
      using sub t(1) by (auto simp: held_alt)
    moreover have "\<forall>u \<in> set (sn_tasks ?st). tt_phase u \<noteq> TaskHolding []"
      unfolding tasks using ok(8) ph by (auto simp: senders_ok_def)
    ultimately show ?thesis using ok(8) sender_ok_frame [of ?st st] unfolding senders_ok_def by auto
  qed
  ultimately show ?thesis by (simp add: plain_ok_def)
qed

lemma leave_turn_plain: "plain_ok st \<Longrightarrow> plain_ok (leave_turn tid st)"
proof (cases "\<exists>t. find_turn_task tid st = Some t \<and> tt_phase t = TaskFinally")
  case True
  assume ok: "plain_ok st"
  from True obtain t where t: "find_turn_task tid st = Some t" "tt_phase t = TaskFinally" by blast
  then have "\<not> tt_cancelled t" using plain_okD(6) [OF ok] find_turn_task_in [OF t(1)] by (auto simp: rows_plain_def)
  then have "leave_turn tid st = set_phase tid TaskDraining (st\<lparr>sn_pending := sn_pending st, sn_executor_running := False\<rparr>)"
    using t by (simp add: leave_turn_def)
  then show ?thesis using ok t by (simp only:) (rule phase_move, auto simp: at_work_def held_in_def)
qed (auto simp: leave_turn_def split: option.split)

lemma take_pending_plain: "plain_ok st \<Longrightarrow> plain_ok (take_pending tid st)"
proof (cases "\<exists>t. find_turn_task tid st = Some t \<and> tt_phase t = TaskDraining")
  case True
  assume ok: "plain_ok st"
  from True obtain t where t: "find_turn_task tid st = Some t" "tt_phase t = TaskDraining" by blast
  let ?ph = "if sn_pending st = [] then TaskInbox else TaskHolding (sn_pending st)"
  have same: "st\<lparr>sn_pending := []\<rparr> = st" if "sn_pending st = []" using that by (cases st) simp
  have "take_pending tid st = set_phase tid ?ph (st\<lparr>sn_pending := [], sn_executor_running := sn_executor_running st\<rparr>)"
    using t by (cases "sn_pending st = []") (simp_all add: take_pending_def same)
  then show ?thesis using ok t by (simp only:) (rule phase_move, auto simp: at_work_def held_in_def)
qed (auto simp: take_pending_def split: option.split)

lemma take_inbox_plain: "plain_ok st \<Longrightarrow> plain_ok (take_inbox tid None st)"
proof (cases "\<exists>t. find_turn_task tid st = Some t \<and> tt_phase t = TaskInbox")
  case True
  assume ok: "plain_ok st"
  from True obtain t where t: "find_turn_task tid st = Some t" "tt_phase t = TaskInbox" by blast
  have "take_inbox tid None st = set_phase tid TaskExiting (st\<lparr>sn_pending := sn_pending st, sn_executor_running := sn_executor_running st\<rparr>)"
    using t by (simp add: take_inbox_def)
  then show ?thesis using ok t by (simp only:) (rule phase_move, auto simp: at_work_def held_in_def drains_def)
qed (auto simp: take_inbox_def split: option.split)

lemma exit_turn_plain: "plain_ok st \<Longrightarrow> plain_ok (exit_turn tid st)"
proof (cases "\<exists>t. find_turn_task tid st = Some t \<and> tt_phase t = TaskExiting")
  case True
  assume ok: "plain_ok st"
  note plain = plain_okD [OF ok]
  from True obtain t where t: "find_turn_task tid st = Some t" "tt_phase t = TaskExiting" by blast
  let ?st = "exit_turn tid st"
  have tasks: "sn_tasks ?st = filter (\<lambda>t. tt_id t \<noteq> tid) (sn_tasks st)" and
    rest: "sn_starts ?st = sn_starts st" "sn_messages ?st = sn_messages st" "sn_pending ?st = sn_pending st"
      "sn_slack ?st = sn_slack st" "sn_creator ?st = sn_creator st" "sn_slack_user ?st = sn_slack_user st"
      "sn_agent_ok ?st = sn_agent_ok st" "sn_status ?st = sn_status st"
    using t by (simp_all add: exit_turn_def)
  have u: "u = t" if "u \<in> set (sn_tasks st)" "tt_id u = tid" for u using same_id [OF plain(3) t(1)] that by blast
  have "filter at_work (filter (\<lambda>t. tt_id t \<noteq> tid) (sn_tasks st)) = filter at_work (sn_tasks st)"
    unfolding filter_filter using u t(2) by (intro filter_cong) (auto simp: at_work_def)
  then have o': "open_turns ?st = open_turns st" by (simp add: open_turns_def tasks rest)
  have "turns_ok ?st" using turn_step_answers [OF plain(1), of "ExitTurn tid"] by simp
  moreover have "open_ok ?st" using plain(4) by (rule open_ok_frame) (simp_all add: o' rest)
  moreover have "drain_ok ?st" using plain(5) u t(2) unfolding drain_ok_def o' rest tasks by (auto simp: drains_def)
  moreover have "rows_plain ?st" using plain(6) unfolding rows_plain_def rest tasks by auto
  moreover have "wait_ok ?st"
  proof -
    have "\<not> (\<exists>s \<in> set (sn_starts st). st_origin s = Some (tid, TaskInbox))"
      using plain(7) t find_turn_task_in [OF t(1)] by (auto simp: wait_ok_def)
    then show ?thesis using plain(7) unfolding wait_ok_def rest tasks by fastforce
  qed
  moreover have "senders_ok ?st"
  proof -
    have "set (waiting_messages ?st) \<subseteq> set (waiting_messages st)"
      unfolding waiting_messages_def tasks rest by auto
    then show ?thesis using plain(8) sender_ok_frame [of ?st st] rest tasks unfolding senders_ok_def by auto
  qed
  ultimately show ?thesis by (simp add: plain_ok_def)
qed (auto simp: exit_turn_def split: option.split)

section \<open>The task at work\<close>

lemma at_work_unique:
  assumes "plain_ok st" "t \<in> set (sn_tasks st)" "at_work t"
  shows "sn_starts st = []" "filter at_work (sn_tasks st) = [t]" "open_turns st = [tt_turn t]"
    "\<not> completed (sn_messages st) (tt_turn t)"
proof -
  have t: "t \<in> set (filter at_work (sn_tasks st))" using assms by simp
  have "length (open_turns st) \<le> 1" using plain_okD(4) [OF assms(1)] by (simp add: open_ok_def)
  then have "length (sn_starts st) + length (filter at_work (sn_tasks st)) \<le> 1" by (simp add: open_turns_def)
  then show s: "sn_starts st = []" and f: "filter at_work (sn_tasks st) = [t]"
    using t by (cases "filter at_work (sn_tasks st)"; auto)+
  show o': "open_turns st = [tt_turn t]" by (simp add: open_turns_def s f)
  have "known_turn (sn_messages st) (tt_turn t)" using plain_okD(2) [OF assms(1)] o' open_known [of st "tt_turn t"] by simp
  then show "\<not> completed (sn_messages st) (tt_turn t)"
    using plain_okD(4) [OF assms(1)] o' by (auto simp: open_ok_def)
qed

definition same_session :: "session_state \<Rightarrow> session_state \<Rightarrow> bool" where
  "same_session st st' \<longleftrightarrow>
     sn_slack st' = sn_slack st \<and> sn_creator st' = sn_creator st \<and> sn_slack_user st' = sn_slack_user st \<and>
     sn_agent_ok st' = sn_agent_ok st \<and> (sn_status st' = sn_status st \<or> sn_status st' = SessionCompleted) \<and>
     sn_starts st' = sn_starts st \<and> sn_pending st' = sn_pending st"

text \<open>The task goes on with its turn, or the turn gets its response and the task leaves it.\<close>

lemma work_step:
  assumes "plain_ok st" "find_turn_task tid st = Some t" "at_work t"
    and st': "turns_ok st'" "same_session st st'" "sn_tasks st' = modify tt_id tid f (sn_tasks st)"
    and f: "tt_id (f t) = tid" "tt_turn (f t) = tt_turn t" "tt_cancelled (f t) = tt_cancelled t"
    and rows: "length (requests (sn_messages st')) = length (requests (sn_messages st))"
      "\<And>m. m \<in> set (sn_messages st') \<Longrightarrow> tm_role m = SystemRole \<Longrightarrow> tm_completion m \<noteq> MsgInProgress"
      "draft_there (sn_messages st') (f t)"
    and goes_on: "(at_work (f t) \<and> (\<forall>k. completed (sn_messages st') k = completed (sn_messages st) k)) \<or>
      (drains (f t) \<and> (\<forall>k. completed (sn_messages st') k = (completed (sn_messages st) k \<or> k = tt_turn t)))"
  shows "plain_ok st'"
proof -
  note plain = plain_okD [OF assms(1)]
  have t: "t \<in> set (sn_tasks st)" "tt_id t = tid" using find_turn_task_in [OF assms(2)] by auto
  note uniq = at_work_unique [OF assms(1) t(1) assms(3)]
  have other: "u \<in> set (sn_tasks st) \<Longrightarrow> tt_id u = tid \<Longrightarrow> u = t" for u using same_id [OF plain(3) assms(2)] by blast
  have only: "u \<in> set (sn_tasks st) \<Longrightarrow> at_work u \<Longrightarrow> u = t" for u
  proof -
    assume "u \<in> set (sn_tasks st)" "at_work u"
    then have "u \<in> set (filter at_work (sn_tasks st))" by simp
    then show "u = t" unfolding uniq(2) by simp
  qed
  have tasks: "set (sn_tasks st') = insert (f t) {u \<in> set (sn_tasks st). tt_id u \<noteq> tid}"
  proof (rule set_eqI)
    fix u
    show "u \<in> set (sn_tasks st') \<longleftrightarrow> u \<in> insert (f t) {u \<in> set (sn_tasks st). tt_id u \<noteq> tid}"
      unfolding st'(3) in_modify_iff insert_iff mem_Collect_eq using other t by metis
  qed
  have same: "sn_starts st' = []" "sn_pending st' = sn_pending st" using st'(2) uniq(1) by (simp_all add: same_session_def)
  have rest: "\<not> at_work u" if "u \<in> set (sn_tasks st)" "tt_id u \<noteq> tid" for u using that only t(2) by metis
  have ph: "tt_phase (f t) \<noteq> TaskWaiting" "held_in (tt_phase (f t)) = []" "tt_phase (f t) \<noteq> TaskHolding []"
    using goes_on by (cases "tt_phase (f t)"; simp add: at_work_def drains_def held_in_def)+
  have fw: "filter at_work (modify tt_id tid f ts) = (if at_work (f t) then map f (filter at_work ts) else [])"
    if "set ts \<subseteq> set (sn_tasks st)" for ts
    using that
  proof (induction ts)
    case (Cons u ts)
    have u: "u \<in> set (sn_tasks st)" using Cons.prems by simp
    have ih: "filter at_work (modify tt_id tid f ts) = (if at_work (f t) then map f (filter at_work ts) else [])"
      using Cons by simp
    show ?case
    proof (cases "tt_id u = tid")
      case True
      then have "u = t" using other [OF u] by simp
      then show ?thesis using ih assms(3) t(2) by (simp add: modify_def)
    next
      case False
      then show ?thesis using ih rest [OF u] by (simp add: modify_def)
    qed
  qed (simp add: modify_def)
  have o': "open_turns st' = (if at_work (f t) then [tt_turn t] else [])"
    by (simp add: open_turns_def same st'(3) fw uniq(2) f(2))
  have n: "tt_turn t = length (requests (sn_messages st))" using plain(4) uniq(3) by (simp add: open_ok_def)
  have "open_ok st'"
    using plain(4) goes_on uniq(3,4) n o' rows(1) by (auto simp: open_ok_def known_turn_def drains_def at_work_def)
  moreover have "drain_ok st'"
    using goes_on o' unfolding drain_ok_def tasks by auto
  moreover have "rows_plain st'"
    using plain(6) rows(2,3) f(3) t(1) rest unfolding rows_plain_def tasks by (auto simp: draft_there_def)
  moreover have "wait_ok st'"
    using plain(7) uniq(1) ph(1) unfolding wait_ok_def tasks same by auto
  moreover have "senders_ok st'"
  proof -
    have "set (waiting_messages st') \<subseteq> set (waiting_messages st)"
      unfolding waiting_messages_def set_append set_concat set_map tasks same using ph(2) by (auto simp: held_alt)
    moreover have "\<forall>u \<in> set (sn_tasks st'). tt_phase u \<noteq> TaskHolding []"
      unfolding tasks using plain(8) ph(3) by (auto simp: senders_ok_def)
    ultimately show ?thesis using plain(8) st'(2) sender_ok_frame [of st' st]
      unfolding senders_ok_def same_session_def by auto
  qed
  ultimately show ?thesis using st'(1) by (simp add: plain_ok_def)
qed

end
