(* ===== verification/Session_Rest.thy ===== *)
theory Session_Rest
  imports Session_Plain
begin

text \<open>
  The steps of a task at work, and what a plain session reaches: every plain action keeps the
  invariant, no accepted message is lost, and a session left alone comes to rest.
\<close>

section \<open>The turn of a task\<close>

lemma at_work_known: "plain_ok st \<Longrightarrow> t \<in> set (sn_tasks st) \<Longrightarrow> known_turn (sn_messages st) (tt_turn t)"
  using plain_okD(2) [of st] by (simp add: session_ok_def)

lemma completed_append: "completed (ms @ ms') k \<longleftrightarrow> completed ms k \<or> completed ms' k"
  by (auto simp: completed_def)

lemma completed_response_row:
  "completed [\<lparr>tm_id = i, tm_turn = turn, tm_role = r, tm_content = c, tm_completion = s, tm_error = e\<rparr>] k \<longleftrightarrow>
   turn = k \<and> \<not> inbound r \<and> s \<noteq> MsgInProgress"
  by (simp add: completed_def completed_response_def)

lemma no_system_rows:
  assumes "plain_ok st" "t \<in> set (sn_tasks st)" "at_work t"
  shows "system_messages (tt_turn t) (sn_messages st) = 0"
proof -
  have "\<not> completed (sn_messages st) (tt_turn t)" using at_work_unique(4) [OF assms] .
  then show ?thesis using plain_okD(6) [OF assms(1)]
    by (auto simp: system_messages_def count_rows_def filter_empty_conv completed_def completed_response_def
        rows_plain_def inbound_def)
qed

lemma draft_there_phase: "draft_there ms t \<Longrightarrow> at_work t \<Longrightarrow> draft_there ms (t\<lparr>tt_phase := ph\<rparr>)"
  by (simp add: draft_there_def)

lemma not_running: "find_turn_task tid st = Some t \<Longrightarrow> tt_phase t \<noteq> TaskRunning \<Longrightarrow> eager_persist tid c st = st \<and> fall_back tid st = st \<and> end_turn tid outcome st = st"
  by (simp add: eager_persist_def fall_back_def end_turn_def)

lemma start_turn_plain:
  assumes "plain_ok st"
  shows "plain_ok (start_turn tid ok st)"
proof (cases "\<exists>t. find_turn_task tid st = Some t \<and> tt_phase t = TaskCreated")
  case True
  then obtain t where t: "find_turn_task tid st = Some t" "tt_phase t = TaskCreated" by blast
  have i: "t \<in> set (sn_tasks st)" "tt_id t = tid" "at_work t" using find_turn_task_in [OF t(1)] t(2) by (auto simp: at_work_def)
  let ?st = "start_turn tid ok st" and ?f = "\<lambda>t. t\<lparr>tt_phase := if ok then TaskRunning else TaskFinally\<rparr>"
  have turns: "turns_ok ?st" using turn_step_answers [OF plain_okD(1) [OF assms], of "StartTurn tid ok"] by simp
  have no: "system_messages (tt_turn t) (sn_messages st) = 0" using no_system_rows [OF assms i(1,3)] .
  have e: "?st = (if ok then set_phase tid TaskRunning (st\<lparr>sn_executor_running := True\<rparr>)
      else set_phase tid TaskFinally (mark_session_completed (snd (add_message (tt_turn t) SystemRole
             (''[ERROR] Agent config not found: '' @ sn_agent_name st) MsgFailed ErrorInternal (st\<lparr>sn_executor_running := True\<rparr>)))))"
    using t no by (simp add: start_turn_def)
  have tasks: "sn_tasks ?st = modify tt_id tid ?f (sn_tasks st)"
    unfolding e by (simp add: set_phase_def update_task_entry_def mark_session_completed_def add_message_def)
  show ?thesis
  proof (rule work_step [OF assms t(1) i(3) turns _ tasks])
    show "same_session st ?st" unfolding e by (simp add: same_session_def mark_session_completed_def add_message_def)
    show "length (requests (sn_messages ?st)) = length (requests (sn_messages st))"
      unfolding e by (simp add: mark_session_completed_def add_message_def inbound_def)
    show "tm_completion m \<noteq> MsgInProgress" if "m \<in> set (sn_messages ?st)" "tm_role m = SystemRole" for m
      using plain_okD(6) [OF assms] that unfolding e
      by (auto simp: rows_plain_def mark_session_completed_def add_message_def split: if_splits)
    show "draft_there (sn_messages ?st) (?f t)"
    proof (rule draft_there_more)
      show "draft_there (sn_messages st) (?f t)"
        using plain_okD(6) [OF assms] i by (auto simp: rows_plain_def intro: draft_there_phase)
      show "set (sn_messages st) \<subseteq> set (sn_messages ?st)"
        unfolding e by (auto simp: mark_session_completed_def add_message_def)
    qed
    show "(at_work (?f t) \<and> (\<forall>k. completed (sn_messages ?st) k = completed (sn_messages st) k)) \<or>
      (drains (?f t) \<and> (\<forall>k. completed (sn_messages ?st) k = (completed (sn_messages st) k \<or> k = tt_turn t)))"
      unfolding e by (auto simp: at_work_def drains_def mark_session_completed_def add_message_def completed_append
          completed_response_row inbound_def)
  qed (use i in simp_all)
qed (use assms in \<open>auto simp: start_turn_def split: option.split\<close>)

text \<open>Writing to the draft, dropping it, answering.\<close>

lemma draft_row:
  assumes "plain_ok st" "t \<in> set (sn_tasks st)" "at_work t" "tt_draft t = Some i"
  obtains m where "m \<in> set (sn_messages st)" "tm_id m = i" "tm_role m = AgentRole" "tm_turn m = tt_turn t"
proof -
  have "draft_there (sn_messages st) t" using plain_okD(6) [OF assms(1)] assms(2) by (simp add: rows_plain_def)
  then obtain m where m: "m \<in> set (sn_messages st)" "tm_id m = i" "tm_role m = AgentRole"
    using assms(3,4) by (auto simp: draft_there_def)
  moreover have "tm_turn m = tt_turn t"
    using plain_okD(2) [OF assms(1)] assms(2,4) m by (auto simp: session_ok_def draft_ok_def)
  ultimately show ?thesis using that by blast
qed

lemma draft_rows:
  assumes "plain_ok st" "t \<in> set (sn_tasks st)" "tt_draft t = Some i" "m \<in> set (sn_messages st)" "tm_id m = i"
  shows "tm_turn m = tt_turn t" "\<not> inbound (tm_role m)"
  using plain_okD(2) [OF assms(1)] assms(2-) by (auto simp: session_ok_def draft_ok_def)

lemma completed_modify:
  assumes "plain_ok st" "t \<in> set (sn_tasks st)" "at_work t" "tt_draft t = Some i"
    "\<And>m. tm_turn (f m) = tm_turn m" "\<And>m. \<not> inbound (tm_role m) \<Longrightarrow> \<not> inbound (tm_role (f m))"
  shows "completed (modify tm_id i f (sn_messages st)) k \<longleftrightarrow>
    completed (sn_messages st) k \<or> (k = tt_turn t \<and> (\<exists>m \<in> set (sn_messages st). tm_id m = i \<and> tm_completion (f m) \<noteq> MsgInProgress))"
proof -
  let ?ms = "sn_messages st"
  have no: "\<not> completed ?ms (tt_turn t)" using at_work_unique(4) [OF assms(1-3)] .
  have row: "tm_turn m = tt_turn t" "\<not> inbound (tm_role m)" if "m \<in> set ?ms" "tm_id m = i" for m
    using draft_rows [OF assms(1,2,4) that] by auto
  have "completed (modify tm_id i f ?ms) k \<longleftrightarrow>
      (\<exists>m \<in> set ?ms. (tm_id m = i \<and> completed_response k (f m)) \<or> (tm_id m \<noteq> i \<and> completed_response k m))"
    unfolding completed_def Bex_def in_modify_iff by blast
  moreover have "completed_response k (f m) \<longleftrightarrow> k = tt_turn t \<and> tm_completion (f m) \<noteq> MsgInProgress"
    if "m \<in> set ?ms" "tm_id m = i" for m
    using row [OF that] assms(5,6) by (auto simp: completed_response_def)
  moreover have "tm_id m \<noteq> i" if "m \<in> set ?ms" "completed_response k m" for m
    using no row(1) that by (auto simp: completed_def completed_response_def)
  ultimately show ?thesis unfolding completed_def by blast
qed

lemma completed_delete:
  assumes "plain_ok st" "t \<in> set (sn_tasks st)" "at_work t" "tt_draft t = Some i"
  shows "completed (filter (\<lambda>m. Some (tm_id m) \<noteq> Some i) (sn_messages st)) k \<longleftrightarrow> completed (sn_messages st) k"
proof -
  have "tm_id m \<noteq> i" if "m \<in> set (sn_messages st)" "completed_response k m" for m
    using at_work_unique(4) [OF assms(1-3)] draft_rows(1) [OF assms(1,2,4)] that
    by (auto simp: completed_def completed_response_def)
  then show ?thesis by (auto simp: completed_def)
qed

lemma requests_draft_modify:
  assumes "plain_ok st" "t \<in> set (sn_tasks st)" "tt_draft t = Some i"
    "\<And>m. \<not> inbound (tm_role m) \<Longrightarrow> \<not> inbound (tm_role (f m))"
  shows "requests (modify tm_id i f (sn_messages st)) = requests (sn_messages st)"
  using draft_rows(2) [OF assms(1-3)] assms(4) by (intro requests_modify) auto

lemma requests_draft_delete:
  assumes "plain_ok st" "t \<in> set (sn_tasks st)" "tt_draft t = Some i"
  shows "requests (filter (\<lambda>m. Some (tm_id m) \<noteq> Some i) (sn_messages st)) = requests (sn_messages st)"
  using draft_rows(2) [OF assms(1-3)] by (intro requests_delete) auto

lemma modify_same: "modify key k (\<lambda>x. x) xs = xs"
  by (simp add: modify_def)

lemma completed_draft: "plain_ok st \<Longrightarrow> t \<in> set (sn_tasks st) \<Longrightarrow> at_work t \<Longrightarrow> tt_draft t = Some i \<Longrightarrow>
    m \<in> set (sn_messages st) \<Longrightarrow> tm_id m = i \<Longrightarrow> tm_completion m = MsgInProgress"
  using at_work_unique(4) [of st t] draft_rows [of st t i m]
  by (auto simp: completed_def completed_response_def)

lemma rows_plainD:
  "plain_ok st \<Longrightarrow> m \<in> set (sn_messages st) \<Longrightarrow> tm_role m = SystemRole \<Longrightarrow> tm_completion m \<noteq> MsgInProgress"
  "plain_ok st \<Longrightarrow> t \<in> set (sn_tasks st) \<Longrightarrow> draft_there (sn_messages st) t"
  "plain_ok st \<Longrightarrow> t \<in> set (sn_tasks st) \<Longrightarrow> \<not> tt_cancelled t"
  using plain_okD(6) [of st] by (auto simp: rows_plain_def)

lemma eager_persist_plain:
  assumes "plain_ok st"
  shows "plain_ok (eager_persist tid content st)"
proof (cases "\<exists>t. find_turn_task tid st = Some t \<and> tt_phase t = TaskRunning")
  case False
  then show ?thesis using assms by (cases "find_turn_task tid st") (auto simp: eager_persist_def)
next
  case True
  then obtain t where t: "find_turn_task tid st = Some t" "tt_phase t = TaskRunning" by blast
  have i: "t \<in> set (sn_tasks st)" "tt_id t = tid" "at_work t" using find_turn_task_in [OF t(1)] t(2) by (auto simp: at_work_def)
  let ?st = "eager_persist tid content st"
  have turns: "turns_ok ?st" using turn_step_answers [OF plain_okD(1) [OF assms], of "EagerPersist tid content"] by simp
  show ?thesis
  proof (cases "tt_draft t")
    case None
    let ?row = "\<lparr>tm_id = sn_next_id st, tm_turn = tt_turn t, tm_role = AgentRole, tm_content = content,
        tm_completion = MsgInProgress, tm_error = NoError\<rparr>"
    have tasks: "sn_tasks ?st = modify tt_id tid (\<lambda>t. t\<lparr>tt_draft := Some (sn_next_id st)\<rparr>) (sn_tasks st)" and
      ms: "sn_messages ?st = sn_messages st @ [?row]" and same: "same_session st ?st"
      using t None by (simp_all add: eager_persist_def set_draft_def update_task_entry_def add_message_def same_session_def)
    show ?thesis
    proof (rule work_step [OF assms t(1) i(3) turns same tasks])
      show "draft_there (sn_messages ?st) (t\<lparr>tt_draft := Some (sn_next_id st)\<rparr>)" by (simp add: ms draft_there_def)
    qed (use i in \<open>auto simp: ms inbound_def completed_append completed_response_row at_work_def dest: rows_plainD(1) [OF assms]\<close>)
  next
    case (Some i')
    let ?f = "\<lambda>m. m\<lparr>tm_content := content\<rparr>"
    have tasks: "sn_tasks ?st = modify tt_id tid (\<lambda>t. t) (sn_tasks st)" and
      ms: "sn_messages ?st = modify tm_id i' ?f (sn_messages st)" and same: "same_session st ?st"
      using t Some by (simp_all add: eager_persist_def update_message_def same_session_def modify_same)
    obtain m where m: "m \<in> set (sn_messages st)" "tm_id m = i'" "tm_role m = AgentRole"
      using draft_row [OF assms i(1,3) Some] by blast
    then have "?f m \<in> set (sn_messages ?st)" unfolding ms in_modify_iff by blast
    then have "draft_there (sn_messages ?st) t"
      using Some m unfolding draft_there_def by (auto intro!: bexI [of _ "?f m"])
    moreover have "completed (sn_messages ?st) k = completed (sn_messages st) k" for k
      unfolding ms using completed_modify [OF assms i(1,3) Some, of ?f k] completed_draft [OF assms i(1,3) Some] by auto
    moreover have "tm_completion m \<noteq> MsgInProgress" if "m \<in> set (sn_messages ?st)" "tm_role m = SystemRole" for m
      using that rows_plainD(1) [OF assms] unfolding ms in_modify_iff by auto
    moreover have "length (requests (sn_messages ?st)) = length (requests (sn_messages st))"
      unfolding ms using requests_draft_modify [OF assms i(1) Some, of ?f] by simp
    ultimately show ?thesis using i
      by (intro work_step [OF assms t(1) i(3) turns same tasks]) blast+
  qed
qed

lemma fall_back_plain:
  assumes "plain_ok st"
  shows "plain_ok (fall_back tid st)"
proof (cases "\<exists>t i. find_turn_task tid st = Some t \<and> tt_phase t = TaskRunning \<and> tt_draft t = Some i")
  case False
  then show ?thesis using assms by (cases "find_turn_task tid st") (auto simp: fall_back_def split: option.split)
next
  case True
  then obtain t i' where t: "find_turn_task tid st = Some t" "tt_phase t = TaskRunning" "tt_draft t = Some i'" by blast
  have i: "t \<in> set (sn_tasks st)" "tt_id t = tid" "at_work t" using find_turn_task_in [OF t(1)] t(2) by (auto simp: at_work_def)
  let ?st = "fall_back tid st"
  have turns: "turns_ok ?st" using turn_step_answers [OF plain_okD(1) [OF assms], of "FallBack tid"] by simp
  have tasks: "sn_tasks ?st = modify tt_id tid (\<lambda>t. t\<lparr>tt_draft := None\<rparr>) (sn_tasks st)" and
    ms: "sn_messages ?st = filter (\<lambda>m. Some (tm_id m) \<noteq> Some i') (sn_messages st)" and same: "same_session st ?st"
    using t by (simp_all add: fall_back_def set_draft_def update_task_entry_def delete_message_def same_session_def)
  have "length (requests (sn_messages ?st)) = length (requests (sn_messages st))"
    unfolding ms using requests_draft_delete [OF assms i(1) t(3)] by simp
  moreover have "completed (sn_messages ?st) k = completed (sn_messages st) k" for k
    unfolding ms using completed_delete [OF assms i(1,3) t(3)] .
  ultimately show ?thesis
    using i by (intro work_step [OF assms t(1) i(3) turns same tasks])
      (auto simp: ms draft_there_def at_work_def dest: rows_plainD(1) [OF assms])
qed

text \<open>However a turn ends, its draft or a new row becomes its response.\<close>

definition responds :: "turn_message list \<Rightarrow> turn_task \<Rightarrow> turn_message list \<Rightarrow> bool" where
  "responds ms t ms' \<longleftrightarrow>
     (case tt_draft t of
        None \<Rightarrow> \<exists>m. ms' = ms @ [m] \<and> tm_turn m = tt_turn t \<and> \<not> inbound (tm_role m) \<and> tm_completion m \<noteq> MsgInProgress
      | Some i \<Rightarrow> \<exists>f. ms' = modify tm_id i f ms \<and>
          (\<forall>m. tm_turn (f m) = tm_turn m \<and> (\<not> inbound (tm_role m) \<longrightarrow> \<not> inbound (tm_role (f m))) \<and>
               tm_completion (f m) \<noteq> MsgInProgress))"

lemma persist_system_msg_responds: "responds (sn_messages st) t (sn_messages (persist_system_msg t c st))"
proof (cases "tt_draft t")
  case (Some i)
  then show ?thesis unfolding responds_def persist_system_msg_def update_message_def
    by (simp, intro exI [of _ "\<lambda>m. m\<lparr>tm_role := SystemRole, tm_content := c, tm_completion := MsgFailed, tm_error := ErrorExecutor\<rparr>"])
      (simp add: inbound_def)
qed (simp add: responds_def persist_system_msg_def add_message_def inbound_def)

lemma persist_response_responds:
  assumes "system_messages (tt_turn t) (sn_messages st) = 0"
  shows "responds (sn_messages st) t (sn_messages (persist_response t c sub st))"
proof -
  obtain s e where f: "final_status sub = (s, e)" by (cases "final_status sub")
  note fs = final_status_ended [OF f]
  show ?thesis
  proof (cases "tt_draft t")
    case (Some i)
    then show ?thesis using fs assms f unfolding responds_def persist_response_def update_message_def mark_session_completed_def
      by (simp, intro exI [of _ "\<lambda>m. m\<lparr>tm_content := c, tm_completion := s, tm_error := e\<rparr>"]) simp
  qed (use fs assms f in \<open>simp add: responds_def persist_response_def add_message_def inbound_def mark_session_completed_def\<close>)
qed

lemma responds_completed:
  assumes "plain_ok st" "t \<in> set (sn_tasks st)" "at_work t" "responds (sn_messages st) t ms'"
  shows "completed ms' k \<longleftrightarrow> completed (sn_messages st) k \<or> k = tt_turn t"
    "requests ms' = requests (sn_messages st)"
    "m \<in> set ms' \<Longrightarrow> tm_role m = SystemRole \<Longrightarrow> tm_completion m \<noteq> MsgInProgress"
proof -
  have "(completed ms' k \<longleftrightarrow> completed (sn_messages st) k \<or> k = tt_turn t) \<and>
      requests ms' = requests (sn_messages st) \<and>
      (m \<in> set ms' \<longrightarrow> tm_role m = SystemRole \<longrightarrow> tm_completion m \<noteq> MsgInProgress)"
  proof (cases "tt_draft t")
    case None
    then obtain r where "ms' = sn_messages st @ [r]" "tm_turn r = tt_turn t" "\<not> inbound (tm_role r)" "tm_completion r \<noteq> MsgInProgress"
      using assms(4) by (auto simp: responds_def)
    then show ?thesis using rows_plainD(1) [OF assms(1)] by (auto simp: completed_def completed_response_def)
  next
    case (Some i)
    then obtain f where f: "ms' = modify tm_id i f (sn_messages st)" "\<And>m. tm_turn (f m) = tm_turn m"
        "\<And>m. \<not> inbound (tm_role m) \<Longrightarrow> \<not> inbound (tm_role (f m))" "\<And>m. tm_completion (f m) \<noteq> MsgInProgress"
      using assms(4) by (auto simp: responds_def)
    obtain d where "d \<in> set (sn_messages st)" "tm_id d = i" using draft_row [OF assms(1-3) Some] by blast
    then have "completed ms' k \<longleftrightarrow> completed (sn_messages st) k \<or> k = tt_turn t"
      using completed_modify [OF assms(1-3) Some f(2,3)] f(1,4) by auto
    moreover have "m \<in> set ms' \<longrightarrow> tm_role m = SystemRole \<longrightarrow> tm_completion m \<noteq> MsgInProgress"
      unfolding f(1) in_modify_iff using f(4) rows_plainD(1) [OF assms(1)] by blast
    ultimately show ?thesis using requests_draft_modify [OF assms(1,2) Some f(3)] f(1) by simp
  qed
  then show "completed ms' k \<longleftrightarrow> completed (sn_messages st) k \<or> k = tt_turn t"
    "requests ms' = requests (sn_messages st)"
    "m \<in> set ms' \<Longrightarrow> tm_role m = SystemRole \<Longrightarrow> tm_completion m \<noteq> MsgInProgress" by blast+
qed

lemma end_turn_frame:
  assumes "find_turn_task tid st = Some t" "tt_phase t = TaskRunning" "outcome \<noteq> TurnCancelled"
  shows "sn_tasks (end_turn tid outcome st) = modify tt_id tid (\<lambda>t. t\<lparr>tt_phase := TaskFinally\<rparr>) (sn_tasks st)"
    "same_session st (end_turn tid outcome st)"
proof -
  show "sn_tasks (end_turn tid outcome st) = modify tt_id tid (\<lambda>t. t\<lparr>tt_phase := TaskFinally\<rparr>) (sn_tasks st)"
    using assms by (cases outcome) (simp_all add: end_turn_def set_phase_def update_task_entry_def mark_session_completed_def)
  show "same_session st (end_turn tid outcome st)"
    using assms
    by (cases outcome) (auto simp: end_turn_def same_session_def mark_session_completed_def persist_response_def persist_system_msg_def
        update_message_def add_message_def delete_message_def split: option.split prod.split)
qed

lemma end_turn_plain:
  assumes "plain_ok st" "outcome \<noteq> TurnCancelled"
  shows "plain_ok (end_turn tid outcome st)"
proof (cases "\<exists>t. find_turn_task tid st = Some t \<and> tt_phase t = TaskRunning")
  case False
  then show ?thesis using assms by (cases "find_turn_task tid st") (auto simp: end_turn_def)
next
  case True
  then obtain t where t: "find_turn_task tid st = Some t" "tt_phase t = TaskRunning" by blast
  have i: "t \<in> set (sn_tasks st)" "tt_id t = tid" "at_work t" using find_turn_task_in [OF t(1)] t(2) by (auto simp: at_work_def)
  let ?st = "end_turn tid outcome st"
  have turns: "turns_ok ?st" using turn_step_answers [OF plain_okD(1) [OF assms(1)], of "EndTurn tid outcome"] by simp
  have r: "responds (sn_messages st) t (sn_messages ?st)"
    using assms(2) t persist_response_responds [OF no_system_rows [OF assms(1) i(1,3)]] persist_system_msg_responds
    by (cases outcome) (simp_all add: end_turn_def mark_session_completed_def)
  note tasks = end_turn_frame(1) [OF t assms(2)] and same = end_turn_frame(2) [OF t assms(2)]
  show ?thesis
    using i responds_completed [OF assms(1) i(1,3) r]
    by (intro work_step [OF assms(1) t(1) i(3) turns same tasks]) (simp_all add: draft_there_def at_work_def drains_def)
qed

section \<open>Starts\<close>

lemma register_turn_plain:
  assumes "plain_ok st"
  shows "plain_ok (register_turn i preamble st)"
proof (cases "length (sn_starts st) \<le> i")
  case False
  note plain = plain_okD [OF assms]
  have "length (open_turns st) \<le> 1" using plain(4) by (simp add: open_ok_def)
  then have "length (sn_starts st) + length (filter at_work (sn_tasks st)) \<le> 1" by (simp add: open_turns_def)
  then obtain s where s: "sn_starts st = [s]" "i = 0" and idle: "filter at_work (sn_tasks st) = []"
    using False by (cases "sn_starts st") auto
  let ?st = "register_turn i preamble st"
  let ?new = "\<lparr>tt_id = sn_next_task st, tt_turn = st_turn s,
      tt_input = (if resumed_start s st then preamble @ st_input s else st_input s),
      tt_phase = TaskCreated, tt_draft = None, tt_cancelled = False\<rparr>"
  define g :: "turn_task \<Rightarrow> turn_task" where "g u = (if st_origin s = Some (tt_id u, TaskInbox) then u\<lparr>tt_phase := TaskInbox\<rparr> else u)" for u
  have fresh: "tt_id u \<noteq> sn_next_task st" if "u \<in> set (sn_tasks st)" for u
    using plain(3) that by (auto simp: ids_ok_def)
  have origin: "o' = None \<or> (\<exists>tid u. o' = Some (tid, TaskInbox) \<and> u \<in> set (sn_tasks st) \<and> tt_id u = tid)" if "o' = st_origin s" for o'
    using plain(7) s(1) that by (cases "st_origin s") (auto simp: wait_ok_def)
  have tasks: "sn_tasks ?st = map g (sn_tasks st) @ [?new]"
  proof (cases "st_origin s")
    case None
    then have "g = (\<lambda>u. u)" by (simp add: g_def fun_eq_iff)
    then show ?thesis using None by (simp add: register_turn_def Let_def s add_turn_task_def without_nth_def)
  next
    case (Some p)
    then obtain tid u where u: "p = (tid, TaskInbox)" "u \<in> set (sn_tasks st)" "tt_id u = tid" using origin [OF refl] by auto
    then have "tid \<noteq> sn_next_task st" using fresh by blast
    then show ?thesis using Some u(1)
      by (auto simp: register_turn_def Let_def s add_turn_task_def set_phase_def update_task_entry_def modify_def g_def without_nth_def)
  qed
  have rest: "sn_starts ?st = []" "sn_messages ?st = sn_messages st" "sn_pending ?st = sn_pending st"
      "sn_slack ?st = sn_slack st" "sn_creator ?st = sn_creator st" "sn_slack_user ?st = sn_slack_user st"
      "sn_agent_ok ?st = sn_agent_ok st" "sn_status ?st = sn_status st"
    by (simp_all add: register_turn_def Let_def s add_turn_task_def without_nth_def split: option.split prod.split)
  have g: "\<not> at_work (g u)" "tt_cancelled (g u) = tt_cancelled u" "tt_id (g u) = tt_id u" "set (held (g u)) \<subseteq> set (held u)"
      "tt_phase (g u) \<noteq> TaskHolding []" "tt_phase (g u) \<noteq> TaskWaiting" if "u \<in> set (sn_tasks st)" for u
  proof -
    have "\<not> at_work u" using idle that by (auto simp: filter_empty_conv)
    then show "\<not> at_work (g u)" "tt_cancelled (g u) = tt_cancelled u" "tt_id (g u) = tt_id u" "set (held (g u)) \<subseteq> set (held u)"
      by (auto simp: g_def at_work_def held_alt held_in_def)
    show "tt_phase (g u) \<noteq> TaskHolding []" using plain(8) that by (auto simp: g_def senders_ok_def)
    have "tt_phase u = TaskWaiting \<longleftrightarrow> st_origin s = Some (tt_id u, TaskInbox)"
      using plain(7) s(1) that by (simp add: wait_ok_def)
    then show "tt_phase (g u) \<noteq> TaskWaiting" by (auto simp: g_def)
  qed
  have o': "open_turns ?st = open_turns st"
  proof -
    have "filter at_work (map g (sn_tasks st)) = []" using g(1) by (auto simp: filter_empty_conv)
    then show ?thesis using idle unfolding open_turns_def rest tasks s(1) by (simp add: at_work_def)
  qed
  have "turns_ok ?st" using turn_step_answers [OF plain(1), of "RegisterTurn i preamble"] by simp
  moreover have "open_ok ?st" using plain(4) by (rule open_ok_frame) (simp_all add: o' rest)
  moreover have "drain_ok ?st" unfolding drain_ok_def o' by (simp add: open_turns_def s)
  moreover have "rows_plain ?st"
    using plain(6) g(1,2) unfolding rows_plain_def rest tasks by (auto simp: draft_there_def)
  moreover have "wait_ok ?st" using g(6) unfolding wait_ok_def rest tasks by auto
  moreover have "senders_ok ?st"
  proof -
    have "set (waiting_messages ?st) \<subseteq> set (waiting_messages st)"
      unfolding waiting_messages_def set_append set_concat set_map tasks rest using g(4) by (auto simp: held_alt held_in_def)
    moreover have "\<forall>u \<in> set (sn_tasks ?st). tt_phase u \<noteq> TaskHolding []" unfolding tasks using g(5) by auto
    ultimately show ?thesis using plain(8) sender_ok_frame [of ?st st] rest unfolding senders_ok_def by auto
  qed
  ultimately show ?thesis by (simp add: plain_ok_def)
qed (use assms in \<open>simp add: register_turn_def\<close>)

section \<open>Waiting messages\<close>

lemma creator_of_last:
  "message_creator st \<lparr>rq_message = a, rq_slack_user_id = s, rq_user_id = u\<rparr> =
   message_creator st \<lparr>rq_message = b, rq_slack_user_id = s, rq_user_id = u\<rparr>"
  by (simp add: message_creator_def split: option.split)

abbreviation combined :: "pending_message list \<Rightarrow> send_request" where
  "combined ps \<equiv> \<lparr>rq_message = combine_messages (map pm_message ps),
     rq_slack_user_id = pm_slack_user_id (last ps), rq_user_id = pm_user_id (last ps)\<rparr>"

lemma send_pending_open:
  assumes "plain_ok st" "find_turn_task tid st = Some t" "tt_phase t = TaskHolding ps" "open_turns st = []"
  shows "plain_ok (set_phase tid TaskWaiting (open_turn UserRole c c True (Some (tid, TaskInbox)) st))"
    (is "plain_ok (set_phase tid TaskWaiting ?st1)")
proof -
  note plain = plain_okD [OF assms(1)]
  let ?st = "set_phase tid TaskWaiting ?st1"
  have t: "t \<in> set (sn_tasks st)" "tt_id t = tid" using find_turn_task_in [OF assms(2)] by auto
  have starts: "sn_starts st = []" using assms(4) by (simp add: open_turns_def)
  have tasks: "set (sn_tasks ?st) = insert (t\<lparr>tt_phase := TaskWaiting\<rparr>) {u \<in> set (sn_tasks st). tt_id u \<noteq> tid}"
    using phase_entry [OF plain(3) assms(2), of ?st1 _ TaskWaiting] by auto
  have ids: "tt_id ` set (sn_tasks ?st) = tt_id ` set (sn_tasks st)" 
    using ids_set_phase(1) [of tid TaskWaiting ?st1] by (simp add: ids_def) (metis list.set_map)
  have no_wait: "tt_phase u \<noteq> TaskWaiting" if "u \<in> set (sn_tasks st)" for u using plain(7) starts that by (simp add: wait_ok_def)
  have o1: "open_ok ?st1" using plain(2,4) assms(4) by (intro open_turn_open_ok) (simp_all add: inbound_def)
  have s1: "turns_ok ?st1"
    using plain(1-3) open_turn_answers [of st UserRole "Some (tid, TaskInbox)" c c True] open_turn_ok [of st UserRole c c True]
    by (simp add: turns_ok_def inbound_def origin_ok_def ids_ok_ids)
  have t1: "find_turn_task tid ?st1 = Some t" using assms(2) by (simp add: find_turn_task_def)
  have "turns_ok ?st" using s1 by (simp add: turns_ok_def set_phase_ok set_phase_leaves ids_ok_ids)
  moreover have o': "open_turns ?st = open_turns ?st1"
    using s1 assms(3) by (intro phase_open_turns [OF _ t1]) (simp_all add: turns_ok_def at_work_def)
  have "open_ok ?st" using o1 by (rule open_ok_frame) (simp_all add: o')
  moreover have "drain_ok ?st" unfolding drain_ok_def o' by (simp add: open_turns_def)
  moreover have "rows_plain ?st"
  proof -
    have "rows_plain ?st1" using plain(6) by (rule rows_plain_open) (simp add: inbound_def)
    then show ?thesis using t(1) unfolding rows_plain_def tasks by (auto simp: draft_there_def at_work_def)
  qed
  moreover have "wait_ok ?st"
    unfolding wait_ok_def ids unfolding tasks using t no_wait starts by auto
  moreover have "senders_ok ?st"
  proof -
    have "set (waiting_messages ?st) \<subseteq> set (waiting_messages st)"
      unfolding waiting_messages_def set_append set_concat set_map tasks by (auto simp: held_alt held_in_def)
    moreover have "\<forall>u \<in> set (sn_tasks ?st). tt_phase u \<noteq> TaskHolding []"
      unfolding tasks using plain(8) by (auto simp: senders_ok_def)
    ultimately show ?thesis using plain(8) sender_ok_frame [of ?st st] unfolding senders_ok_def by auto
  qed
  ultimately show ?thesis by (simp add: plain_ok_def)
qed

text \<open>What becomes of the messages a task holds.\<close>

lemma send_pending_cases:
  assumes "plain_ok st" "find_turn_task tid st = Some t" "tt_phase t = TaskHolding ps"
  obtains (again) "has_inflight_turn (sn_messages st)"
      "send_pending tid True st = set_phase tid TaskInbox (st\<lparr>sn_pending := ps @ sn_pending st\<rparr>)"
    | (queued) "has_inflight_turn (sn_messages st)" "sender_ok st (as_pending (combined ps))"
      "send_pending tid True st = set_phase tid TaskInbox (st\<lparr>sn_pending := sn_pending st @ [as_pending (combined ps)]\<rparr>)"
    | (opened) "\<not> has_inflight_turn (sn_messages st)"
      "send_pending tid True st = set_phase tid TaskWaiting
         (open_turn UserRole (rq_message (combined ps)) (rq_message (combined ps)) True (Some (tid, TaskInbox)) st)"
proof -
  note plain = plain_okD [OF assms(1)]
  have t: "t \<in> set (sn_tasks st)" using find_turn_task_in [OF assms(2)] by simp
  then have "ps \<noteq> []" using plain(8) assms(3) by (auto simp: senders_ok_def)
  then have "last ps \<in> set (waiting_messages st)"
    using t assms(3) by (auto simp: waiting_messages_def held_def intro!: bexI [of _ t])
  then have "sender_ok st (last ps)" using plain(8) by (simp add: senders_ok_def)
  then have ok: "sender_ok st (as_pending (combined ps))"
    using creator_of_last [of st "pm_message (last ps)"] by (simp add: sender_ok_def) metis
  have "sn_status st \<noteq> SessionStale" "sn_agent_ok st" using plain(8) by (simp_all add: senders_ok_def)
  then show ?thesis
  proof (cases rule: send_message_cases [where origin = "Some (tid, TaskInbox)" and rq = "combined ps"])
    case (refused e)
    then show ?thesis using again ok assms(2,3) by (simp add: send_pending_def)
  next
    case queued': queued
    then show ?thesis using queued assms(2,3) by (simp add: send_pending_def)
  next
    case (opened n)
    then show ?thesis using that(3) assms(2,3) by (simp add: send_pending_def)
  qed
qed

lemma send_pending_plain:
  assumes "plain_ok st"
  shows "plain_ok (send_pending tid True st)"
proof (cases "\<exists>t ps. find_turn_task tid st = Some t \<and> tt_phase t = TaskHolding ps")
  case False
  then show ?thesis using assms by (auto simp: send_pending_def split: option.split task_phase.split)
next
  case True
  then obtain t ps where t: "find_turn_task tid st = Some t" "tt_phase t = TaskHolding ps" by blast
  note plain = plain_okD [OF assms]
  note inflight = inflight_open [OF plain(2,4)]
  have held: "held t = ps" using t(2) by (simp add: held_def)
  from assms t show ?thesis
  proof (cases rule: send_pending_cases)
    case again
    have "plain_ok (set_phase tid TaskInbox (st\<lparr>sn_pending := ps @ sn_pending st, sn_executor_running := sn_executor_running st\<rparr>))"
      using assms t inflight again(1) held by (intro phase_move) (auto simp: at_work_def held_in_def)
    then show ?thesis using again(2) by simp
  next
    case queued
    let ?p = "sn_pending st @ [as_pending (combined ps)]"
    let ?st1 = "st\<lparr>sn_pending := ?p\<rparr>"
    have 1: "plain_ok ?st1" using plain_queue [OF assms _ queued(2)] inflight queued(1) by simp
    have "plain_ok (set_phase tid TaskInbox (?st1\<lparr>sn_pending := ?p, sn_executor_running := sn_executor_running st\<rparr>))"
      using 1 t by (intro phase_move [where t = t]) (auto simp: at_work_def held_in_def drains_def find_turn_task_def)
    then show ?thesis using queued(3) by simp
  next
    case opened
    then show ?thesis using send_pending_open [OF assms t] inflight by simp
  qed
qed

lemma plain_step:
  assumes "plain_ok st" "plain a"
  shows "plain_ok (turn_step a st)"
  using assms
  by (cases a) (simp_all add: send_plain register_turn_plain start_turn_plain eager_persist_plain fall_back_plain end_turn_plain
      leave_turn_plain take_pending_plain send_pending_plain take_inbox_plain exit_turn_plain)

lemma new_session_plain: "plain_ok (new_session a sl i c su)"
  using new_session_turns_ok [of a sl i c su]
  by (simp add: plain_ok_def)
    (simp add: new_session_def open_ok_def open_turns_def known_turn_def drain_ok_def rows_plain_def wait_ok_def
      senders_ok_def waiting_messages_def)

lemma run_turns_plain: "plain_ok st \<Longrightarrow> list_all plain acts \<Longrightarrow> plain_ok (run_turns acts st)"
  by (induction acts arbitrary: st) (simp_all add: run_turns_def plain_step)

end
