(* ===== verification/Session_Settle.thy ===== *)
theory Session_Settle
  imports Session_Rest
begin

text \<open>
  No message that a session accepted is lost, and a session that is left alone comes to rest.
\<close>

section \<open>Accepted messages\<close>

fun accepts :: "turn_action \<Rightarrow> session_state \<Rightarrow> string list" where
  "accepts (Send rq ok) st = (case fst (send_message None rq ok st) of Inl _ \<Rightarrow> [] | Inr _ \<Rightarrow> [rq_message rq])"
| "accepts _ st = []"

fun accepted :: "turn_action list \<Rightarrow> session_state \<Rightarrow> string list" where
  "accepted [] st = []"
| "accepted (a # acts) st = accepts a st @ accepted acts (turn_step a st)"

text \<open>Where the text of a message may be: in a request, in the queue, in a task that took it.\<close>

definition pool :: "session_state \<Rightarrow> string list" where
  "pool st = map tm_content (requests (sn_messages st)) @ map pm_message (waiting_messages st)"

definition kept :: "string \<Rightarrow> session_state \<Rightarrow> bool" where
  "kept x st \<longleftrightarrow> (\<exists>c \<in> set (pool st). sublist x c)"

lemma keptI: "c \<in> set (pool st) \<Longrightarrow> sublist x c \<Longrightarrow> kept x st"
  by (auto simp: kept_def)

lemma kept_mono:
  assumes "kept x st" "set (requests (sn_messages st)) \<subseteq> set (requests (sn_messages st'))"
    "set (sn_pending st) \<subseteq> set (waiting_messages st')"
    "\<And>u. u \<in> set (sn_tasks st) \<Longrightarrow> held u \<noteq> [] \<Longrightarrow> set (held u) \<subseteq> set (waiting_messages st')"
  shows "kept x st'"
proof -
  have "set (waiting_messages st) \<subseteq> set (waiting_messages st')"
    unfolding waiting_messages_def [of st] using assms(3,4) by fastforce
  then have "set (pool st) \<subseteq> set (pool st')" using assms(2) by (auto simp: pool_def)
  then show ?thesis using assms(1) by (auto simp: kept_def)
qed

lemma held_waiting: "u \<in> set (sn_tasks st) \<Longrightarrow> set (held u) \<subseteq> set (waiting_messages st)"
  by (auto simp: waiting_messages_def)

lemma sublist_join:
  assumes "y \<in> set ys"
  shows "sublist y (join_parts (h # ys))"
proof -
  have app: "(@) [a, b] = (\<lambda>y. a # b # y)" for a b :: char by (simp add: fun_eq_iff)
  obtain as bs where "ys = as @ y # bs" using split_list [OF assms] by blast
  then have "join_parts (h # ys) = (h @ concat (map (\<lambda>y. [CHR 0x0A, CHR 0x0A] @ y) as) @ [CHR 0x0A, CHR 0x0A]) @ y @
      concat (map (\<lambda>y. [CHR 0x0A, CHR 0x0A] @ y) bs)"
    by (simp add: join_parts_def app)
  then show ?thesis unfolding sublist_def by blast
qed

lemma combine_contains:
  assumes "x \<in> set ms"
  shows "sublist x (combine_messages ms)"
proof (cases "\<exists>m. ms = [m]")
  case True
  then show ?thesis using assms by (auto simp: combine_messages_def)
next
  case False
  let ?head = "(''['' @ show_nat (length ms) @ '' messages arrived while processing the previous turn]'' @ [CHR 0x0A])"
  let ?parts = "map2 (\<lambda>i m. ''('' @ show_nat i @ '') '' @ m) [1..<Suc (length ms)] ms"
  have c: "combine_messages ms = join_parts (?head # ?parts)"
    using False by (cases ms rule: remdups_adj.cases) (auto simp: combine_messages_def)
  obtain i where i: "i < length ms" "ms ! i = x" using assms by (auto simp: in_set_conv_nth)
  then have "?parts ! i = ''('' @ show_nat (Suc i) @ '') '' @ x" "i < length ?parts"
    by (simp_all add: nth_upt del: upt_Suc)
  then have p: "''('' @ show_nat (Suc i) @ '') '' @ x \<in> set ?parts" by (metis nth_mem)
  have "sublist (''('' @ show_nat (Suc i) @ '') '' @ x) (combine_messages ms)" unfolding c using p by (rule sublist_join)
  moreover have "sublist x (''('' @ show_nat (Suc i) @ '') '' @ x)"
    using sublist_appendI [of x "''('' @ show_nat (Suc i) @ '') ''" "[]"] by simp
  ultimately show ?thesis using sublist_order.order_trans by blast
qed

section \<open>Nothing is lost\<close>

text \<open>A step of one task leaves what the others hold.\<close>

lemma kept_task_step:
  assumes "kept x st" "plain_ok st" "find_turn_task tid st = Some t" "held t = []"
    "sn_tasks st' = modify tt_id tid f (sn_tasks st)"
    "requests (sn_messages st') = requests (sn_messages st)" "sn_pending st' = sn_pending st"
  shows "kept x st'"
proof (rule kept_mono [OF assms(1)])
  fix u assume u: "u \<in> set (sn_tasks st)" "held u \<noteq> []"
  then have "tt_id u \<noteq> tid" using same_id [OF plain_okD(3) [OF assms(2)] assms(3)] assms(4) by auto
  then have "u \<in> set (sn_tasks st')" unfolding assms(5) in_modify_iff using u(1) by blast
  then show "set (held u) \<subseteq> set (waiting_messages st')" by (rule held_waiting)
qed (simp_all add: assms(6,7) waiting_messages_def)

lemma held_nil: "tt_phase t \<noteq> TaskHolding ps \<Longrightarrow> (\<And>ps. tt_phase t \<noteq> TaskHolding ps) \<Longrightarrow> held t = []"
  by (simp add: held_def split: task_phase.split)

lemma modify_set_phase: "sn_tasks (set_phase tid ph st) = modify tt_id tid (\<lambda>t. t\<lparr>tt_phase := ph\<rparr>) (sn_tasks st)"
  by (simp add: set_phase_def update_task_entry_def)

lemma kept_open_turn:
  assumes "kept x st" "inbound r"
  shows "kept x (open_turn r c input resume origin st)"
  using assms by (intro kept_mono [OF assms(1)]) (auto simp: open_turn_rows waiting_messages_def)

lemma kept_send:
  assumes "plain_ok st"
  shows "kept x st \<Longrightarrow> kept x (turn_step (Send rq True) st)"
    "x \<in> set (accepts (Send rq True) st) \<Longrightarrow> kept x (turn_step (Send rq True) st)"
proof -
  have "sn_status st \<noteq> SessionStale" "sn_agent_ok st" using plain_okD(8) [OF assms] by (simp_all add: senders_ok_def)
  then have "(kept x st \<longrightarrow> kept x (turn_step (Send rq True) st)) \<and>
      (x \<in> set (accepts (Send rq True) st) \<longrightarrow> kept x (turn_step (Send rq True) st))"
  proof (cases rule: send_message_cases [where origin = None and rq = rq])
    case (refused e)
    then show ?thesis by simp
  next
    case queued
    let ?st = "st\<lparr>sn_pending := sn_pending st @ [as_pending rq]\<rparr>"
    have "kept x st \<longrightarrow> kept x ?st" using kept_mono [of x st ?st] by (auto simp: waiting_messages_def)
    moreover have "kept (rq_message rq) ?st"
      by (rule keptI [where c = "rq_message rq"]) (auto simp: pool_def waiting_messages_def)
    ultimately show ?thesis using queued(1) by auto
  next
    case (opened n)
    let ?st = "open_turn UserRole (rq_message rq) (rq_message rq) True None st"
    have "kept (rq_message rq) ?st"
      by (rule keptI [where c = "rq_message rq"]) (auto simp: pool_def open_turn_rows inbound_def)
    then show ?thesis using opened(1) kept_open_turn by (auto simp: inbound_def)
  qed
  then show "kept x st \<Longrightarrow> kept x (turn_step (Send rq True) st)"
    "x \<in> set (accepts (Send rq True) st) \<Longrightarrow> kept x (turn_step (Send rq True) st)" by blast+
qed

lemma kept_register:
  assumes "kept x st" "plain_ok st"
  shows "kept x (register_turn i preamble st)"
proof (cases "length (sn_starts st) \<le> i")
  case False
  let ?st = "register_turn i preamble st" and ?s = "sn_starts st ! i"
  have rest: "sn_messages ?st = sn_messages st" "sn_pending ?st = sn_pending st"
    using False by (auto simp: register_turn_def Let_def add_turn_task_def split: option.split)
  show ?thesis
  proof (rule kept_mono [OF assms(1)])
    fix u assume u: "u \<in> set (sn_tasks st)" "held u \<noteq> []"
    have no: "tid \<noteq> tt_id u" if "st_origin ?s = Some (tid, ph)" for tid ph
      using plain_okD(7) [OF assms(2)] u False nth_mem [of i "sn_starts st"] that
      by (force simp: wait_ok_def held_def)
    have "u \<in> set (sn_tasks ?st)"
    proof (cases "st_origin ?s")
      case None
      then show ?thesis using u(1) False by (simp add: register_turn_def Let_def add_turn_task_def)
    next
      case (Some p)
      then obtain tid ph where p: "st_origin ?s = Some (tid, ph)" by (cases p) simp
      define st1 where "st1 = add_turn_task (st_turn ?s) (if resumed_start ?s st then preamble @ st_input ?s else st_input ?s)
          (st\<lparr>sn_starts := without_nth i (sn_starts st), sn_resume_pending := (sn_resume_pending st \<and> \<not> resumed_start ?s st)\<rparr>)"
      have "?st = set_phase tid ph st1"
        using False p by (simp only: register_turn_def Let_def st1_def if_False option.case prod.case)
      moreover have "u \<in> set (sn_tasks st1)" using u(1) by (simp add: st1_def add_turn_task_def)
      ultimately show ?thesis using no [OF p] by (simp add: modify_set_phase in_modify_iff) blast
    qed
    then show "set (held u) \<subseteq> set (waiting_messages ?st)" by (rule held_waiting)
  qed (simp_all add: rest waiting_messages_def)
qed (use assms in \<open>simp add: register_turn_def\<close>)

lemma kept_end:
  assumes "kept x st" "plain_ok st" "outcome \<noteq> TurnCancelled"
  shows "kept x (end_turn tid outcome st)"
proof (cases "\<exists>t. find_turn_task tid st = Some t \<and> tt_phase t = TaskRunning")
  case False
  then show ?thesis using assms by (cases "find_turn_task tid st") (auto simp: end_turn_def)
next
  case True
  then obtain t where t: "find_turn_task tid st = Some t" "tt_phase t = TaskRunning" by blast
  have i: "t \<in> set (sn_tasks st)" "at_work t" using find_turn_task_in [OF t(1)] t(2) by (auto simp: at_work_def)
  let ?st = "end_turn tid outcome st"
  have r: "responds (sn_messages st) t (sn_messages ?st)"
    using assms(3) t persist_response_responds [OF no_system_rows [OF assms(2) i]] persist_system_msg_responds
    by (cases outcome) (simp_all add: end_turn_def mark_session_completed_def)
  have pend: "sn_pending ?st = sn_pending st"
    using end_turn_frame(2) [OF t assms(3)] by (simp add: same_session_def)
  show ?thesis
    using t(2) responds_completed(2) [OF assms(2) i r] pend
    by (intro kept_task_step [OF assms(1,2) t(1) _ end_turn_frame(1) [OF t assms(3)]]) (simp_all add: held_def)
qed

text \<open>The other steps of a task.\<close>

lemma kept_phase:
  assumes "kept x st" "plain_ok st" "find_turn_task tid st = Some t" "held t = []" "sn_tasks st1 = sn_tasks st"
    "requests (sn_messages st1) = requests (sn_messages st)" "sn_pending st1 = sn_pending st"
  shows "kept x (set_phase tid ph st1)"
  using assms(5-7)
  by (intro kept_task_step [OF assms(1-4), where f = "\<lambda>t. t\<lparr>tt_phase := ph\<rparr>"]) (simp_all add: modify_set_phase)

lemma kept_start:
  assumes "kept x st" "plain_ok st"
  shows "kept x (start_turn tid ok st)"
proof (cases "\<exists>t. find_turn_task tid st = Some t \<and> tt_phase t = TaskCreated")
  case True
  then obtain t where t: "find_turn_task tid st = Some t" "tt_phase t = TaskCreated" by blast
  show ?thesis using t
    by (auto simp: start_turn_def Let_def held_def mark_session_completed_def add_message_def inbound_def
        intro!: kept_phase [OF assms t(1)])
qed (use assms(1) in \<open>auto simp: start_turn_def split: option.split\<close>)

lemma kept_eager:
  assumes "kept x st" "plain_ok st"
  shows "kept x (eager_persist tid content st)"
proof (cases "\<exists>t. find_turn_task tid st = Some t \<and> tt_phase t = TaskRunning")
  case True
  then obtain t where t: "find_turn_task tid st = Some t" "tt_phase t = TaskRunning" by blast
  have i: "t \<in> set (sn_tasks st)" "held t = []" using find_turn_task_in [OF t(1)] t(2) by (auto simp: held_def)
  show ?thesis
  proof (cases "tt_draft t")
    case None
    then show ?thesis using t
      by (intro kept_task_step [OF assms t(1) i(2), where f = "\<lambda>t. t\<lparr>tt_draft := Some (sn_next_id st)\<rparr>"])
        (simp_all add: eager_persist_def set_draft_def update_task_entry_def add_message_def inbound_def)
  next
    case (Some d)
    then show ?thesis using t requests_draft_modify [OF assms(2) i(1) Some, of "\<lambda>m. m\<lparr>tm_content := content\<rparr>"]
      by (intro kept_task_step [OF assms t(1) i(2), where f = "\<lambda>t. t"])
        (simp_all add: eager_persist_def update_message_def modify_same)
  qed
qed (use assms(1) in \<open>auto simp: eager_persist_def split: option.split\<close>)

lemma kept_fall_back:
  assumes "kept x st" "plain_ok st"
  shows "kept x (fall_back tid st)"
proof (cases "\<exists>t d. find_turn_task tid st = Some t \<and> tt_phase t = TaskRunning \<and> tt_draft t = Some d")
  case True
  then obtain t d where t: "find_turn_task tid st = Some t" "tt_phase t = TaskRunning" "tt_draft t = Some d" by blast
  have i: "t \<in> set (sn_tasks st)" "held t = []" using find_turn_task_in [OF t(1)] t(2) by (auto simp: held_def)
  show ?thesis using t requests_draft_delete [OF assms(2) i(1) t(3)]
    by (intro kept_task_step [OF assms t(1) i(2), where f = "\<lambda>t. t\<lparr>tt_draft := None\<rparr>"])
      (simp_all add: fall_back_def set_draft_def update_task_entry_def delete_message_def)
qed (use assms(1) in \<open>auto simp: fall_back_def split: option.split\<close>)

lemma kept_leave:
  assumes "kept x st" "plain_ok st"
  shows "kept x (leave_turn tid st)"
  using assms(1)
  by (auto simp: leave_turn_def held_def intro!: kept_phase [OF assms] split: option.split)

lemma kept_inbox:
  assumes "kept x st" "plain_ok st"
  shows "kept x (take_inbox tid None st)"
  using assms(1)
  by (auto simp: take_inbox_def held_def intro!: kept_phase [OF assms] split: option.split)

text \<open>Steps that move what a task holds: the other tasks keep theirs.\<close>

lemma kept_moved:
  assumes "kept x st" "plain_ok st" "find_turn_task tid st = Some t" "sn_tasks st1 = sn_tasks st"
    "set (requests (sn_messages st)) \<subseteq> set (requests (sn_messages st1))"
    "set (sn_pending st) \<union> set (held t) \<subseteq> set (sn_pending st1) \<union> set (held_in ph)"
  shows "kept x (set_phase tid ph st1)"
proof (rule kept_mono [OF assms(1)])
  let ?st = "set_phase tid ph st1"
  have entry: "u \<in> set (sn_tasks ?st) \<longleftrightarrow> u = t\<lparr>tt_phase := ph\<rparr> \<or> (u \<in> set (sn_tasks st) \<and> tt_id u \<noteq> tid)" for u
    by (rule phase_entry [OF plain_okD(3) [OF assms(2)] assms(3,4)])
  have "t\<lparr>tt_phase := ph\<rparr> \<in> set (sn_tasks ?st)" using entry by blast
  then have new: "set (sn_pending st1) \<union> set (held_in ph) \<subseteq> set (waiting_messages ?st)"
    using held_waiting [of "t\<lparr>tt_phase := ph\<rparr>" ?st] by (auto simp: waiting_messages_def held_alt)
  then show "set (sn_pending st) \<subseteq> set (waiting_messages ?st)" using assms(6) by blast
  fix u assume u: "u \<in> set (sn_tasks st)" "held u \<noteq> []"
  show "set (held u) \<subseteq> set (waiting_messages ?st)"
  proof (cases "tt_id u = tid")
    case True
    then have "u = t" using same_id [OF plain_okD(3) [OF assms(2)] assms(3) u(1)] by simp
    then show ?thesis using new assms(6) by blast
  next
    case False
    then have "u \<in> set (sn_tasks ?st)" using entry u(1) by blast
    then show ?thesis by (rule held_waiting)
  qed
qed (use assms(5) in simp)

lemma kept_take:
  assumes "kept x st" "plain_ok st"
  shows "kept x (take_pending tid st)"
  using assms(1)
  by (auto simp: take_pending_def held_def held_in_def intro!: kept_moved [OF assms] split: option.split)

lemma kept_exit:
  assumes "kept x st" "plain_ok st"
  shows "kept x (exit_turn tid st)"
proof (cases "\<exists>t. find_turn_task tid st = Some t \<and> tt_phase t = TaskExiting")
  case True
  then obtain t where t: "find_turn_task tid st = Some t" "tt_phase t = TaskExiting" by blast
  show ?thesis
  proof (rule kept_mono [OF assms(1)])
    fix u assume u: "u \<in> set (sn_tasks st)" "held u \<noteq> []"
    then have "tt_id u \<noteq> tid" using same_id [OF plain_okD(3) [OF assms(2)] t(1)] t(2) by (auto simp: held_def)
    then have "u \<in> set (sn_tasks (exit_turn tid st))" using u(1) t by (simp add: exit_turn_def)
    then show "set (held u) \<subseteq> set (waiting_messages (exit_turn tid st))" by (rule held_waiting)
  qed (use t in \<open>simp_all add: exit_turn_def waiting_messages_def\<close>)
qed (use assms(1) in \<open>auto simp: exit_turn_def split: option.split\<close>)

lemma kept_combined:
  assumes "kept x st" "plain_ok st" "find_turn_task tid st = Some t" "tt_phase t = TaskHolding ps" "sn_tasks st1 = sn_tasks st"
    "set (requests (sn_messages st)) \<subseteq> set (requests (sn_messages st1))" "set (sn_pending st) \<subseteq> set (sn_pending st1)"
    "combine_messages (map pm_message ps) \<in> tm_content ` set (requests (sn_messages st1)) \<union> pm_message ` set (sn_pending st1)"
  shows "kept x (set_phase tid ph st1)"
proof -
  let ?st = "set_phase tid ph st1"
  obtain c where c: "c \<in> set (pool st)" "sublist x c" using assms(1) by (auto simp: kept_def)
  have entry: "u \<in> set (sn_tasks ?st)" if "u \<in> set (sn_tasks st)" "tt_id u \<noteq> tid" for u
    using phase_entry [OF plain_okD(3) [OF assms(2)] assms(3,5)] that by blast
  have comb: "combine_messages (map pm_message ps) \<in> set (pool ?st)"
    using assms(8) by (auto simp: pool_def waiting_messages_def)
  consider "c \<in> pm_message ` set ps" | "c \<in> set (map tm_content (requests (sn_messages st)) @ map pm_message (sn_pending st))"
    | u where "u \<in> set (sn_tasks st)" "tt_id u \<noteq> tid" "c \<in> pm_message ` set (held u)"
  proof (cases "c \<in> set (map tm_content (requests (sn_messages st)) @ map pm_message (sn_pending st))")
    case False
    then obtain u where u: "u \<in> set (sn_tasks st)" "c \<in> pm_message ` set (held u)"
      using c(1) by (auto simp: pool_def waiting_messages_def)
    show ?thesis
    proof (cases "tt_id u = tid")
      case True
      then have "u = t" using same_id [OF plain_okD(3) [OF assms(2)] assms(3) u(1)] by simp
      then show ?thesis using that(1) u(2) assms(4) by (simp add: held_def)
    qed (use that(3) u in blast)
  qed (use that(2) in blast)
  then show ?thesis
  proof cases
    case 1
    then have "sublist c (combine_messages (map pm_message ps))" by (intro combine_contains) auto
    then have "sublist x (combine_messages (map pm_message ps))" using c(2) by (rule sublist_order.order_trans [rotated])
    then show ?thesis by (rule keptI [OF comb])
  next
    case 2
    then have "c \<in> set (pool ?st)" using assms(6,7) by (auto simp: pool_def waiting_messages_def)
    then show ?thesis using c(2) by (rule keptI)
  next
    case 3
    then have "c \<in> set (pool ?st)" using held_waiting [OF entry [OF 3(1,2)]] by (auto simp: pool_def)
    then show ?thesis using c(2) by (rule keptI)
  qed
qed

lemma kept_send_pending:
  assumes "kept x st" "plain_ok st"
  shows "kept x (send_pending tid True st)"
proof (cases "\<exists>t ps. find_turn_task tid st = Some t \<and> tt_phase t = TaskHolding ps")
  case False
  then show ?thesis using assms(1) by (auto simp: send_pending_def split: option.split task_phase.split)
next
  case True
  then obtain t ps where t: "find_turn_task tid st = Some t" "tt_phase t = TaskHolding ps" by blast
  from assms(2) t show ?thesis
  proof (cases rule: send_pending_cases)
    case again
    then show ?thesis using t by (auto simp: held_def held_in_def intro!: kept_moved [OF assms t(1)])
  next
    case queued
    then show ?thesis by (simp, intro kept_combined [OF assms t]) auto
  next
    case opened
    then show ?thesis by (simp, intro kept_combined [OF assms t]) (auto simp: open_turn_rows inbound_def)
  qed
qed

lemma kept_step:
  assumes "plain_ok st" "plain a"
  shows "kept x st \<Longrightarrow> kept x (turn_step a st)" "x \<in> set (accepts a st) \<Longrightarrow> kept x (turn_step a st)"
proof -
  show "kept x (turn_step a st)" if "kept x st"
    using assms that kept_send(1) [OF assms(1)]
    by (cases a) (simp_all add: kept_register kept_start kept_eager kept_fall_back kept_end kept_leave kept_take
        kept_send_pending kept_inbox kept_exit)
  show "x \<in> set (accepts a st) \<Longrightarrow> kept x (turn_step a st)"
    using assms kept_send(2) [OF assms(1)] by (cases a) auto
qed

lemma accepted_kept:
  "plain_ok st \<Longrightarrow> list_all plain acts \<Longrightarrow> x \<in> set (accepted acts st) \<or> kept x st \<Longrightarrow> kept x (run_turns acts st)"
proof (induction acts arbitrary: st)
  case (Cons a acts)
  have "x \<in> set (accepted acts (turn_step a st)) \<or> kept x (turn_step a st)"
    using Cons.prems kept_step [of st a x] by auto
  then have "kept x (run_turns acts (turn_step a st))"
    using Cons.IH [of "turn_step a st"] Cons.prems plain_step [of st a] by simp
  then show ?case by (simp add: run_turns_def)
qed (simp add: run_turns_def)

section \<open>Coming to rest\<close>

definition at_rest :: "session_state \<Rightarrow> bool" where
  "at_rest st \<longleftrightarrow> sn_starts st = [] \<and> sn_tasks st = []"

text \<open>The next step of a task, and of the session: a start first, then the task at work.\<close>

definition advance :: "turn_task \<Rightarrow> turn_action" where
  "advance t =
     (case tt_phase t of
        TaskCreated \<Rightarrow> StartTurn (tt_id t) True
      | TaskRunning \<Rightarrow> EndTurn (tt_id t) (TurnFinished '''' None)
      | TaskFinally \<Rightarrow> LeaveTurn (tt_id t)
      | TaskDraining \<Rightarrow> TakePending (tt_id t)
      | TaskHolding _ \<Rightarrow> SendPending (tt_id t) True
      | TaskInbox \<Rightarrow> TakeInbox (tt_id t) None
      | _ \<Rightarrow> ExitTurn (tt_id t))"

definition next_step :: "session_state \<Rightarrow> turn_action" where
  "next_step st =
     (if sn_starts st \<noteq> [] then RegisterTurn 0 '''' else advance (hd (filter at_work (sn_tasks st) @ sn_tasks st)))"

fun settling :: "nat \<Rightarrow> session_state \<Rightarrow> turn_action list" where
  "settling 0 st = []"
| "settling (Suc n) st = (if at_rest st then [] else next_step st # settling n (turn_step (next_step st) st))"

fun phase_weight :: "task_phase \<Rightarrow> nat" where
  "phase_weight TaskCreated = 8"
| "phase_weight TaskRunning = 7"
| "phase_weight TaskFinally = 6"
| "phase_weight TaskDraining = 5"
| "phase_weight (TaskHolding ps) = 24"
| "phase_weight TaskWaiting = 3"
| "phase_weight TaskInbox = 2"
| "phase_weight TaskExiting = 1"

abbreviation task_weight :: "turn_task \<Rightarrow> nat" where
  "task_weight t \<equiv> phase_weight (tt_phase t)"

definition session_weight :: "session_state \<Rightarrow> nat" where
  "session_weight st =
     (if sn_pending st = [] then 0 else 20) + 10 * length (sn_starts st) + sum_list (map task_weight (sn_tasks st))"

lemma weight_modify:
  assumes "distinct (map tt_id ts)" "t \<in> set ts" "tt_id t = tid"
  shows "sum_list (map task_weight (modify tt_id tid f ts)) + task_weight t = sum_list (map task_weight ts) + task_weight (f t)"
  using assms
proof (induction ts)
  case (Cons u ts)
  show ?case
  proof (cases "u = t")
    case True
    then have "modify tt_id tid f ts = ts"
      unfolding modify_def by (intro map_idI) (use Cons.prems in \<open>auto simp: image_iff\<close>)
    then show ?thesis using True Cons.prems by (simp add: modify_def)
  next
    case False
    then have "tt_id u \<noteq> tid" using Cons.prems by (auto simp: image_iff)
    then show ?thesis using Cons False by (simp add: modify_def)
  qed
qed simp

lemma weight_remove:
  assumes "distinct (map tt_id ts)" "t \<in> set ts" "tt_id t = tid"
  shows "sum_list (map task_weight (filter (\<lambda>u. tt_id u \<noteq> tid) ts)) + task_weight t = sum_list (map task_weight ts)"
  using assms
proof (induction ts)
  case (Cons u ts)
  show ?case
  proof (cases "u = t")
    case True
    then have "filter (\<lambda>u. tt_id u \<noteq> tid) ts = ts" using Cons.prems by (auto simp: filter_id_conv image_iff)
    then show ?thesis using True Cons.prems by simp
  next
    case False
    then have "tt_id u \<noteq> tid" using Cons.prems by (auto simp: image_iff)
    then show ?thesis using Cons False by simp
  qed
qed simp

lemma weight_task_step:
  assumes "plain_ok st" "find_turn_task tid st = Some t" "sn_tasks st' = modify tt_id tid f (sn_tasks st)"
    "(if sn_pending st' = [] then 0 else 20) + 10 * length (sn_starts st') + task_weight (f t) <
     (if sn_pending st = [] then 0 else 20) + 10 * length (sn_starts st) + task_weight t"
  shows "session_weight st' < session_weight st"
proof -
  have "distinct (map tt_id (sn_tasks st))" using plain_okD(3) [OF assms(1)] by (simp add: ids_ok_def)
  then show ?thesis
    using weight_modify [of "sn_tasks st" t tid f] find_turn_task_in [OF assms(2)] assms(4)
    by (simp add: session_weight_def assms(3))
qed

lemma weight_register:
  assumes "plain_ok st" "sn_starts st \<noteq> []"
  shows "session_weight (register_turn 0 p st) < session_weight st"
proof -
  let ?s = "sn_starts st ! 0"
  define st1 where "st1 = add_turn_task (st_turn ?s) (if resumed_start ?s st then p @ st_input ?s else st_input ?s)
      (st\<lparr>sn_starts := without_nth 0 (sn_starts st), sn_resume_pending := (sn_resume_pending st \<and> \<not> resumed_start ?s st)\<rparr>)"
  have st1: "session_weight st1 < session_weight st"
    using assms(2) by (cases "sn_starts st") (simp_all add: session_weight_def st1_def add_turn_task_def without_nth_def)
  have reg: "register_turn 0 p st = (case st_origin ?s of None \<Rightarrow> st1 | Some (origin, ph) \<Rightarrow> set_phase origin ph st1)"
  proof -
    have "\<not> length (sn_starts st) \<le> 0" using assms(2) by simp
    then show ?thesis by (simp only: register_turn_def Let_def st1_def if_False)
  qed
  show ?thesis
  proof (cases "st_origin ?s")
    case None
    then show ?thesis using st1 reg by simp
  next
    case (Some q)
    then obtain tid ph where q: "st_origin ?s = Some (tid, ph)" by (cases q) simp
    have s: "?s \<in> set (sn_starts st)" using assms(2) by simp
    then have ph: "ph = TaskInbox" using plain_okD(7) [OF assms(1)] q by (auto simp: wait_ok_def)
    have "task_weight (u\<lparr>tt_phase := ph\<rparr>) \<le> task_weight u" if "u \<in> set (sn_tasks st1)" "tt_id u = tid" for u
    proof (cases "u \<in> set (sn_tasks st)")
      case True
      then have "tt_phase u = TaskWaiting" using plain_okD(7) [OF assms(1)] s q that(2) ph by (auto simp: wait_ok_def)
      then show ?thesis by (simp add: ph)
    next
      case False
      then show ?thesis using that by (simp add: st1_def add_turn_task_def ph)
    qed
    then have "sum_list (map task_weight (modify tt_id tid (\<lambda>t. t\<lparr>tt_phase := ph\<rparr>) ts)) \<le> sum_list (map task_weight ts)"
      if "set ts \<subseteq> set (sn_tasks st1)" for ts
      using that by (induction ts) (auto simp: modify_def add_mono)
    then have "session_weight (set_phase tid ph st1) \<le> session_weight st1"
      by (simp add: session_weight_def modify_set_phase)
    then show ?thesis using st1 reg q by simp
  qed
qed

lemma weight_advance:
  assumes "plain_ok st" "sn_starts st = []" "t \<in> set (sn_tasks st)"
    "at_work t \<or> filter at_work (sn_tasks st) = []"
  shows "session_weight (turn_step (advance t) st) < session_weight st"
proof -
  note plain = plain_okD [OF assms(1)]
  let ?tid = "tt_id t"
  have t: "find_turn_task ?tid st = Some t"
  proof -
    obtain u where u: "find_turn_task ?tid st = Some u"
      using assms(3) by (cases "find_turn_task ?tid st") (auto simp: find_turn_task_def get_row_None)
    then show ?thesis using same_id [OF plain(3) u assms(3)] by simp
  qed
  have wait: "tt_phase t \<noteq> TaskWaiting" using plain(7) assms(2,3) by (simp add: wait_ok_def)
  have cancelled: "\<not> tt_cancelled t" using plain(6) assms(3) by (simp add: rows_plain_def)
  note step = weight_task_step [OF assms(1) t]
  show ?thesis
  proof (cases "tt_phase t")
    case TaskCreated
    then have "system_messages (tt_turn t) (sn_messages st) = 0"
      using no_system_rows [OF assms(1,3)] by (simp add: at_work_def)
    then show ?thesis using TaskCreated t
      by (intro step [of _ "\<lambda>t. t\<lparr>tt_phase := TaskRunning\<rparr>"])
        (simp_all add: advance_def start_turn_def modify_set_phase)
  next
    case TaskRunning
    note frame = end_turn_frame [OF t TaskRunning, of "TurnFinished '''' None"]
    show ?thesis using TaskRunning frame
      by (intro step [of _ "\<lambda>t. t\<lparr>tt_phase := TaskFinally\<rparr>"]) (simp_all add: advance_def same_session_def)
  next
    case TaskFinally
    then show ?thesis using t cancelled
      by (intro step [of _ "\<lambda>t. t\<lparr>tt_phase := TaskDraining\<rparr>"]) (simp_all add: advance_def leave_turn_def modify_set_phase)
  next
    case TaskDraining
    then show ?thesis using t
      by (intro step [of _ "\<lambda>t'. t'\<lparr>tt_phase := if sn_pending st = [] then TaskInbox else TaskHolding (sn_pending st)\<rparr>"])
        (simp_all add: advance_def take_pending_def modify_set_phase)
  next
    case (TaskHolding ps)
    then have "filter at_work (sn_tasks st) = []" using assms(4) by (simp add: at_work_def)
    then have "open_turns st = []" using assms(2) by (simp add: open_turns_def)
    then have idle: "\<not> has_inflight_turn (sn_messages st)" using inflight_open [OF plain(2,4)] by simp
    from assms(1) t TaskHolding show ?thesis
    proof (cases rule: send_pending_cases)
      case opened
      then show ?thesis using TaskHolding assms(2)
        by (intro step [of _ "\<lambda>t. t\<lparr>tt_phase := TaskWaiting\<rparr>"]) (simp_all add: advance_def modify_set_phase)
    qed (use idle in simp_all)
  next
    case TaskWaiting
    then show ?thesis using wait by simp
  next
    case TaskInbox
    then show ?thesis using t
      by (intro step [of _ "\<lambda>t. t\<lparr>tt_phase := TaskExiting\<rparr>"]) (simp_all add: advance_def take_inbox_def modify_set_phase)
  next
    case TaskExiting
    have "distinct (map tt_id (sn_tasks st))" using plain(3) by (simp add: ids_ok_def)
    then have "sum_list (map task_weight (filter (\<lambda>u. tt_id u \<noteq> ?tid) (sn_tasks st))) + task_weight t =
        sum_list (map task_weight (sn_tasks st))"
      using weight_remove assms(3) by blast
    then show ?thesis using TaskExiting t by (simp add: advance_def exit_turn_def session_weight_def)
  qed
qed

lemma next_step_plain: "plain (next_step st)"
  by (auto simp: next_step_def advance_def split: task_phase.split)

lemma next_step_sends_nothing: "accepts (next_step st) st' = []"
  by (auto simp: next_step_def advance_def split: task_phase.split)

lemma next_step_lowers:
  assumes "plain_ok st" "\<not> at_rest st"
  shows "session_weight (turn_step (next_step st) st) < session_weight st"
proof (cases "sn_starts st")
  case Nil
  let ?t = "hd (filter at_work (sn_tasks st) @ sn_tasks st)"
  have "sn_tasks st \<noteq> []" using Nil assms(2) by (simp add: at_rest_def)
  then have "?t \<in> set (sn_tasks st)" "at_work ?t \<or> filter at_work (sn_tasks st) = []"
    using filter_is_subset [of at_work "sn_tasks st"]
    by (cases "filter at_work (sn_tasks st)"; auto simp: filter_eq_Cons_iff hd_append)+
  then show ?thesis using weight_advance [OF assms(1) Nil] Nil by (simp add: next_step_def)
next
  case (Cons s ss)
  then show ?thesis using weight_register [OF assms(1)] by (simp add: next_step_def)
qed

lemma settling_rests:
  "plain_ok st \<Longrightarrow> session_weight st \<le> n \<Longrightarrow>
   at_rest (run_turns (settling n st) st) \<and> list_all plain (settling n st) \<and> accepted (settling n st) st = []"
proof (induction n arbitrary: st)
  case 0
  then have "at_rest st" using next_step_lowers [of st] by fastforce
  then show ?case by (simp add: run_turns_def)
next
  case (Suc n)
  show ?case
  proof (cases "at_rest st")
    case True
    then show ?thesis by (simp add: run_turns_def)
  next
    case False
    have "plain_ok (turn_step (next_step st) st)" using plain_step [OF Suc.prems(1) next_step_plain] .
    moreover have "session_weight (turn_step (next_step st) st) \<le> n"
      using next_step_lowers [OF Suc.prems(1) False] Suc.prems(2) by simp
    ultimately show ?thesis
      using Suc.IH [of "turn_step (next_step st) st"] False
      by (simp add: run_turns_def next_step_plain next_step_sends_nothing)
  qed
qed

text \<open>At rest, whatever was accepted is in a request, and every request has its response.\<close>

lemma rest_answered:
  assumes "plain_ok st" "at_rest st"
  shows "sn_pending st = []" "m \<in> set (requests (sn_messages st)) \<Longrightarrow> completed (sn_messages st) (tm_turn m)"
    "kept x st \<Longrightarrow> \<exists>m \<in> set (requests (sn_messages st)). sublist x (tm_content m)"
proof -
  note plain = plain_okD [OF assms(1)]
  have none: "sn_starts st = []" "sn_tasks st = []" using assms(2) by (simp_all add: at_rest_def)
  then have o': "open_turns st = []" by (simp add: open_turns_def)
  then show p: "sn_pending st = []" using plain(5) none by (simp add: drain_ok_def)
  show "completed (sn_messages st) (tm_turn m)" if "m \<in> set (requests (sn_messages st))"
    using plain(2,4) o' that by (auto simp: open_ok_def session_ok_def rows_ok_def)
  show "kept x st \<Longrightarrow> \<exists>m \<in> set (requests (sn_messages st)). sublist x (tm_content m)"
    using p none by (auto simp: kept_def pool_def waiting_messages_def)
qed

end
