(* ===== verification/Session_Properties.thy ===== *)
theory Session_Properties
  imports Session_Settle
begin

text \<open>What holds of the turns of a session, and what does not.\<close>

abbreviation turn_numbers :: "(turn_message \<Rightarrow> bool) \<Rightarrow> session_state \<Rightarrow> nat list" where
  "turn_numbers p st \<equiv> map tm_turn (filter p (sn_messages st))"

section \<open>All histories\<close>

text \<open>
  C22: Whatever happens to a session, in whatever order, stops and restarts included: its
  requests are the turns 1 to n, each other message belongs to one of them, a turn has at most one
  completed answer, no interrupted turn has one, and no two tasks work on the same turn.
\<close>

theorem turn_records_consistent:
  "let st = run_turns acts (new_session agent_name slack interactive creator slack_user);
       n = length (turn_numbers (inbound \<circ> tm_role) st)
   in turn_numbers (inbound \<circ> tm_role) st = [1..<Suc n] \<and>
      set (turn_numbers (\<lambda>_. True) st) \<subseteq> {1..n} \<and>
      distinct (turn_numbers answer st) \<and>
      set (turn_numbers interruption st) \<inter> set (turn_numbers answer st) = {} \<and>
      distinct (map st_turn (sn_starts st) @ map tt_turn (sn_tasks st))"
proof -
  let ?st = "run_turns acts (new_session agent_name slack interactive creator slack_user)"
  have ok: "turns_ok ?st" by (rule run_turns_turns_ok) (rule new_session_turns_ok)
  then have r: "rows_ok (sn_messages ?st) (sn_next_id ?st)" by (simp add: turns_ok_def session_ok_def)
  then have "map tm_turn (requests (sn_messages ?st)) = [1..<Suc (length (requests (sn_messages ?st)))]"
    "set (turn_numbers (\<lambda>_. True) ?st) \<subseteq> {1..length (requests (sn_messages ?st))}"
    unfolding rows_ok_def known_turn_def by auto
  moreover have "set (turn_numbers interruption ?st) \<inter> set (turn_numbers answer ?st) = {}"
    using r unfolding rows_ok_def by auto
  moreover have "distinct (turn_numbers answer ?st)" "distinct (map st_turn (sn_starts ?st) @ map tt_turn (sn_tasks ?st))"
    using ok by (simp_all add: turns_ok_def answers_ok_def answered_turns_def live_turns_def)
  ultimately show ?thesis unfolding Let_def length_map by blast
qed

section \<open>Plain histories\<close>

text \<open>
  C23: While messages are only sent to a session, at most one turn is being started or worked
  on, it is the latest and has no response, and a waiting message has a task that will take it.
\<close>

theorem one_turn_at_a_time:
  assumes "list_all plain acts"
  shows "let st = run_turns acts (new_session agent_name slack interactive creator slack_user);
             opened = map st_turn (sn_starts st) @ map tt_turn (filter at_work (sn_tasks st))
         in (opened = [] \<or> opened = [length (turn_numbers (inbound \<circ> tm_role) st)]) \<and>
            (has_inflight_turn (sn_messages st) \<longleftrightarrow> opened \<noteq> []) \<and>
            (sn_pending st = [] \<or> opened \<noteq> [] \<or> (\<exists>t \<in> set (sn_tasks st). drains t))"
proof -
  let ?st = "run_turns acts (new_session agent_name slack interactive creator slack_user)"
  have "plain_ok ?st" using run_turns_plain [OF new_session_plain assms] .
  note ok = plain_okD [OF this]
  have "open_turns ?st = [] \<or> open_turns ?st = [length (requests (sn_messages ?st))]"
    using ok(4) by (cases "open_turns ?st") (auto simp: open_ok_def)
  then show ?thesis
    using inflight_open [OF ok(2,4)] ok(5) by (auto simp: Let_def open_turns_def drain_ok_def)
qed

text \<open>
  C24: However messages were sent, the session can finish: carrying on with the step that is due,
  it is at rest after at most \<open>session_weight\<close> steps, with an empty queue, every request has a
  response, and the text of every message that was accepted is in one of the requests.
\<close>

theorem session_comes_to_rest:
  assumes "list_all plain acts" "st0 = new_session agent_name slack interactive creator slack_user"
    "st = run_turns acts st0"
  shows "let final = run_turns (settling (session_weight st) st) st
         in at_rest final \<and> sn_pending final = [] \<and>
            (\<forall>m \<in> set (requests (sn_messages final)). completed (sn_messages final) (tm_turn m)) \<and>
            (\<forall>x \<in> set (accepted acts st0). \<exists>m \<in> set (requests (sn_messages final)). sublist x (tm_content m))"
proof -
  have ok: "plain_ok st" using run_turns_plain [OF new_session_plain assms(1)] by (simp add: assms(2,3))
  let ?acts = "settling (session_weight st) st"
  note rest = settling_rests [OF ok order_refl]
  have ok': "plain_ok (run_turns ?acts st)" using run_turns_plain [OF ok] rest by blast
  have "kept x st" if "x \<in> set (accepted acts st0)" for x
    using accepted_kept [OF new_session_plain assms(1), of x] that by (simp add: assms(2,3))
  then have "kept x (run_turns ?acts st)" if "x \<in> set (accepted acts st0)" for x
    using accepted_kept [OF ok] rest that by blast
  then show ?thesis
    unfolding Let_def using rest rest_answered [OF ok'] by blast
qed

section \<open>Examples\<close>

definition ask :: "string \<Rightarrow> turn_action" where
  "ask m = Send \<lparr>rq_message = m, rq_slack_user_id = None, rq_user_id = Some ''u''\<rparr> True"

definition example_session :: session_state where
  "example_session = new_session ''agent'' False True (Some ''u'') (\<lambda>_. None)"

abbreviation two_messages :: "turn_action list" where
  "two_messages \<equiv> [ask ''one'', RegisterTurn 0 '''', StartTurn 0 True, ask ''two'', ask ''three'']"

lemma two_messages_plain: "list_all plain two_messages" by (simp add: ask_def)

theorem one_turn_at_a_time_witness:
  "let st = run_turns two_messages (new_session ''agent'' False True (Some ''u'') (\<lambda>_. None));
       opened = map st_turn (sn_starts st) @ map tt_turn (filter at_work (sn_tasks st))
   in (opened = [] \<or> opened = [length (turn_numbers (inbound \<circ> tm_role) st)]) \<and>
      (has_inflight_turn (sn_messages st) \<longleftrightarrow> opened \<noteq> []) \<and>
      (sn_pending st = [] \<or> opened \<noteq> [] \<or> (\<exists>t \<in> set (sn_tasks st). drains t))"
  by (rule one_turn_at_a_time [OF two_messages_plain])

theorem session_comes_to_rest_witness:
  "let st = run_turns two_messages example_session;
       final = run_turns (settling (session_weight st) st) st
   in at_rest final \<and> sn_pending final = [] \<and>
      (\<forall>m \<in> set (requests (sn_messages final)). completed (sn_messages final) (tm_turn m)) \<and>
      (\<forall>x \<in> set (accepted two_messages example_session). \<exists>m \<in> set (requests (sn_messages final)). sublist x (tm_content m))"
  unfolding Let_def
  by (rule session_comes_to_rest [OF two_messages_plain example_session_def refl, unfolded Let_def])

section \<open>What stops and subagents break\<close>

text \<open>
  A message accepted while a stop waits for the cancelled task (the queue was cleared
  before) stays in the queue of a session at rest, and so does the result of a subagent that
  arrives between the last look at the queue and the end of the task: nothing is left that would
  take them.
\<close>

theorem messages_can_be_stranded:
  "let st = run_turns [ask ''one'', RegisterTurn 0 '''', StartTurn 0 True, Stop, ask ''two'', StopCancels 0 True,
                       LeaveTurn 0, ExitTurn 0, FinishStop 0] example_session;
       st' = run_turns [ask ''one'', RegisterTurn 0 '''', StartTurn 0 True, EndTurn 0 (TurnFinished ''done'' None),
                        LeaveTurn 0, TakePending 0, SubagentDone ''result'', TakeInbox 0 None, ExitTurn 0] example_session
   in map pm_message (sn_pending st) = [''two''] \<and> at_rest st \<and> \<not> has_inflight_turn (sn_messages st) \<and>
      map pm_message (sn_pending st') = [''result''] \<and> at_rest st' \<and> \<not> has_inflight_turn (sn_messages st')"
  by code_simp

text \<open>
  A subagent result found the session idle and is injected after a message started a
  turn: both turns run at once. A stop between the commit of a request and the registration of
  its task cancels nothing: the session is marked as stopped while the task runs.
\<close>

theorem turns_can_overlap:
  "let st = run_turns [SubagentDone ''result'', ask ''one'', Inject 0 True, RegisterTurn 0 '''', RegisterTurn 0 '''',
                       StartTurn 0 True, StartTurn 1 True] example_session;
       st' = run_turns [ask ''one'', Stop, RegisterTurn 0 '''', StartTurn 0 True, StopCancels 0 True, FinishStop 0]
               example_session
   in map (\<lambda>t. (tt_turn t, tt_phase t)) (sn_tasks st) = [(1, TaskRunning), (2, TaskRunning)] \<and>
      map (\<lambda>t. (tt_turn t, tt_phase t)) (sn_tasks st') = [(1, TaskRunning)] \<and> sn_stops st' = [] \<and>
      turn_numbers interruption st' = [1] \<and> sn_status st' = SessionCompleted"
  by code_simp

text \<open>
  A turn started by a message of another agent that a restart interrupts counts as
  answered in the start-up scan and as running everywhere else: the session is COMPLETED, every
  message is queued, and nothing will take the queue.
\<close>

theorem interrupted_agent_turn_blocks_session:
  "let st = run_turns [ask ''one'', RegisterTurn 0 '''', StartTurn 0 True, EndTurn 0 (TurnFinished ''done'' None),
                       LeaveTurn 0, TakePending 0, TakeInbox 0 (Some (''peer'', ''hello'')), RegisterTurn 0 '''',
                       StartTurn 1 True, Restart, ask ''two'', ask ''three''] example_session
   in sn_status st = SessionCompleted \<and> has_inflight_turn (sn_messages st) \<and>
      map pm_message (sn_pending st) = [''two'', ''three''] \<and> at_rest st"
  by code_simp

end
