(* ===== verification/Agent_Messages.thy ===== *)
theory Agent_Messages
  imports Db_Model Session_Turns
begin

text \<open>
  Messages between agents: sending (\<open>tools/agent_messaging.py\<close>,
  \<open>common/agent_messaging_authz.py\<close>), delivery to a new session
  (\<open>service/agent_message_delivery.py\<close>), delivery at the end of a turn of an existing session
  (\<open>_drain_session_inbox\<close> of \<open>service/session_lifecycle.py\<close>) and the recovery at start-up
  (\<open>service/agent_message_recovery.py\<close>). The database, two kinds of Redis lists, and the coroutines
  that deliver; a definition is one transaction or one Redis command.
\<close>

section \<open>Data\<close>

datatype agent_message_status = MsgQueued | MsgDelivering | MsgDelivered | MsgGivenUp

text \<open>Rows in the order of \<open>created_at\<close>. Times are those of the database clock, in microseconds.\<close>

record agent_message =
  am_id :: uuid
  am_from_agent :: uuid
  am_to_agent :: uuid
  am_from_session :: "uuid option"
  am_to_session :: "uuid option"
  am_content :: string
  am_status :: agent_message_status
  am_delivered_at :: "int option"
  am_claimed_at :: "int option"
  am_attempts :: nat
  am_max_attempts :: nat
  am_resolved_session :: "uuid option"
  am_error :: "string option"

record agent_session_row =
  as_id :: uuid
  as_agent :: uuid
  as_status :: session_status

text \<open>
  A delivery is the task of one popped identifier. \<open>WorkerClaimed\<close>: the row as it was returned
  by the claim, whose \<open>claimed_at\<close> is the token of the claim.
\<close>

datatype worker_phase =
    WorkerPopped string
  | WorkerClaimed agent_message
  | WorkerCreated agent_message uuid
  | WorkerRecorded agent_message
  | WorkerFailed agent_message string
  | WorkerReleased agent_message

record delivery_worker =
  wk_id :: nat
  wk_phase :: worker_phase

text \<open>The drain of a session's inbox, in the \<open>finally\<close> block of a turn of the session.\<close>

datatype drain_phase =
    DrainIdle
  | DrainPopped string
  | DrainClaimed agent_message

record inbox_drain =
  ib_id :: nat
  ib_session :: uuid
  ib_phase :: drain_phase

text \<open>
  \<open>ms_inbox\<close>: the lists \<open>session_inbox:<id>\<close>. \<open>ms_created\<close> and \<open>ms_injected\<close> record which sessions
  were created for a message and into which session a message was put.
\<close>

record messaging =
  ms_agents :: "agent list"
  ms_sessions :: "agent_session_row list"
  ms_messages :: "agent_message list"
  ms_clock :: int
  ms_dispatch :: "string list"
  ms_inbox :: "uuid \<Rightarrow> string list"
  ms_workers :: "delivery_worker list"
  ms_drains :: "inbox_drain list"
  ms_next :: nat
  ms_created :: "(uuid \<times> uuid) list"
  ms_injected :: "(uuid \<times> uuid) list"

section \<open>Authorization\<close>

text \<open>\<open>str.lower()\<close> and the length in UTF-8, for characters below 256.\<close>

definition lower_char :: "char \<Rightarrow> char" where
  "lower_char c =
     (let n = char_code c
      in if (65 \<le> n \<and> n \<le> 90) \<or> (192 \<le> n \<and> n \<le> 222 \<and> n \<noteq> 215) then char_of (n + 32) else c)"

definition lower :: "string \<Rightarrow> string" where
  "lower s = map lower_char s"

definition utf8_length :: "string \<Rightarrow> nat" where
  "utf8_length s = sum_list (map (\<lambda>c. if char_code c < 128 then 1 else 2) s)"

definition MAX_CONTENT_BYTES :: nat where
  "MAX_CONTENT_BYTES = 65536"

text \<open>\<open>check_agent_message_authz\<close>, \<open>True\<close> when it does not raise: the configuration is the name and the
  list \<open>allowed_to_message\<close>.\<close>

definition check_agent_message_authz :: "string \<times> string list \<Rightarrow> string \<Rightarrow> bool" where
  "check_agent_message_authz config to_agent_name \<longleftrightarrow>
     to_agent_name \<noteq> '''' \<and>
     (lower (fst config) = lower to_agent_name \<or>
      lower to_agent_name \<in> set (map lower (snd config)) \<or> ''*'' \<in> set (map lower (snd config)))"

section \<open>send_agent_message\<close>

datatype send_agent_error =
    ContentTooLarge
  | NoSessionContext
  | BadSessionId
  | BadTargetSessionId
  | CallerSessionNotFound
  | CallerAgentNotFound
  | RecipientNotFound
  | MessageDenied
  | TargetSessionNotFound
  | TargetSessionForeign

definition find_agent :: "(agent \<Rightarrow> bool) \<Rightarrow> messaging \<Rightarrow> agent option" where
  "find_agent p st = get_row p (ms_agents st)"

definition find_session :: "uuid \<Rightarrow> messaging \<Rightarrow> agent_session_row option" where
  "find_session i st = get_row (\<lambda>s. as_id s = i) (ms_sessions st)"

text \<open>The calling agent and the recipient.\<close>

definition resolve_sender :: "uuid \<Rightarrow> messaging \<Rightarrow> send_agent_error + agent" where
  "resolve_sender from_session st =
     (case find_session from_session st of
        None \<Rightarrow> Inl CallerSessionNotFound
      | Some s \<Rightarrow> found CallerAgentNotFound (find_agent (\<lambda>a. a_id a = as_agent s) st))"

definition check_target :: "uuid option \<Rightarrow> agent \<Rightarrow> messaging \<Rightarrow> send_agent_error option" where
  "check_target to_session to_agent st =
     (case to_session of
        None \<Rightarrow> None
      | Some i \<Rightarrow>
          (case find_session i st of
             None \<Rightarrow> Some TargetSessionNotFound
           | Some s \<Rightarrow> if as_agent s \<noteq> a_id to_agent then Some TargetSessionForeign else None))"

text \<open>\<open>status in (COMPLETED, STALE)\<close> becomes \<open>ACTIVE\<close>.\<close>

definition reopen_session :: "uuid option \<Rightarrow> messaging \<Rightarrow> messaging" where
  "reopen_session to_session st =
     (case to_session of
        None \<Rightarrow> st
      | Some i \<Rightarrow> st\<lparr>ms_sessions := modify as_id i (\<lambda>s. s\<lparr>as_status := SessionActive\<rparr>) (ms_sessions st)\<rparr>)"

definition push_message :: "uuid option \<Rightarrow> string \<Rightarrow> messaging \<Rightarrow> messaging" where
  "push_message to_session msg_id st =
     (case to_session of
        None \<Rightarrow> st\<lparr>ms_dispatch := ms_dispatch st @ [msg_id]\<rparr>
      | Some i \<Rightarrow> st\<lparr>ms_inbox := (ms_inbox st)(i := ms_inbox st i @ [msg_id])\<rparr>)"

definition new_message :: "uuid \<Rightarrow> agent \<Rightarrow> agent \<Rightarrow> uuid \<Rightarrow> uuid option \<Rightarrow> string \<Rightarrow> agent_message" where
  "new_message i from_agent to_agent from_session to_session content =
     \<lparr>am_id = i, am_from_agent = a_id from_agent, am_to_agent = a_id to_agent, am_from_session = Some from_session,
      am_to_session = to_session, am_content = content, am_status = MsgQueued, am_delivered_at = None,
      am_claimed_at = None, am_attempts = 0, am_max_attempts = 3, am_resolved_session = None, am_error = None\<rparr>"

definition first_id :: "string option \<Rightarrow> string option \<Rightarrow> string option" where
  "first_id header arg = (case given header of Some s \<Rightarrow> Some s | None \<Rightarrow> given arg)"

text \<open>
  The checks up to the transaction's writes. \<open>config\<close>: the configuration of an agent, from its
  directory or its row.
\<close>

definition check_send ::
  "(agent \<Rightarrow> string \<times> string list) \<Rightarrow> string \<Rightarrow> string \<Rightarrow> string option \<Rightarrow> string option \<Rightarrow> string option \<Rightarrow> messaging \<Rightarrow>
   send_agent_error + agent \<times> agent \<times> uuid \<times> uuid option" where
  "check_send config to_agent_name content to_session header session st =
     (if MAX_CONTENT_BYTES < utf8_length content then Inl ContentTooLarge
      else
        (case first_id header session of
           None \<Rightarrow> Inl NoSessionContext
         | Some s \<Rightarrow>
             (case parse_uuid s of
                Inl _ \<Rightarrow> Inl BadSessionId
              | Inr from_session \<Rightarrow>
                  sum_bind (case to_session of
                              None \<Rightarrow> Inr None
                            | Some t \<Rightarrow> (case parse_uuid t of Inl _ \<Rightarrow> Inl BadTargetSessionId | Inr u \<Rightarrow> Inr (Some u)))
                    (\<lambda>target.
                       sum_bind (resolve_sender from_session st) (\<lambda>from_agent.
                         sum_bind (found RecipientNotFound (find_agent (\<lambda>a. a_name a = to_agent_name) st)) (\<lambda>to_agent.
                           if \<not> check_agent_message_authz (config from_agent) to_agent_name then Inl MessageDenied
                           else
                             (case check_target target to_agent st of
                                Some e \<Rightarrow> Inl e
                              | None \<Rightarrow> Inr (from_agent, to_agent, from_session, target))))))))"

text \<open>\<open>msg_id\<close>: the identifier the row gets. \<open>redis_ok\<close>: the push to Redis succeeds.\<close>

definition send_agent_message ::
  "(agent \<Rightarrow> string \<times> string list) \<Rightarrow> uuid \<Rightarrow> bool \<Rightarrow> string \<Rightarrow> string \<Rightarrow> string option \<Rightarrow> string option \<Rightarrow> string option \<Rightarrow>
   messaging \<Rightarrow> (send_agent_error + uuid) \<times> messaging" where
  "send_agent_message config msg_id redis_ok to_agent_name content to_session header session st =
     (case check_send config to_agent_name content to_session header session st of
        Inl e \<Rightarrow> (Inl e, st)
      | Inr (from_agent, to_agent, from_session, target) \<Rightarrow>
          (let st1 = reopen_session target st;
               st2 = st1\<lparr>ms_messages := ms_messages st1 @ [new_message msg_id from_agent to_agent from_session target content],
                         ms_clock := ms_clock st1 + 1\<rparr>
           in (Inr msg_id, if redis_ok then push_message target (str_uuid msg_id) st2 else st2)))"

section \<open>Claims\<close>

text \<open>Every transaction has a time of its own.\<close>

definition tick :: "messaging \<Rightarrow> messaging" where
  "tick st = st\<lparr>ms_clock := ms_clock st + 1\<rparr>"

definition write_message :: "uuid \<Rightarrow> (agent_message \<Rightarrow> agent_message) \<Rightarrow> messaging \<Rightarrow> messaging" where
  "write_message i f st = st\<lparr>ms_messages := modify am_id i f (ms_messages st)\<rparr>"

text \<open>\<open>UPDATE ... RETURNING\<close>: the row as it is after the claim.\<close>

definition claimed_row :: "int \<Rightarrow> agent_message \<Rightarrow> agent_message" where
  "claimed_row now m =
     m\<lparr>am_status := MsgDelivering, am_claimed_at := Some now, am_attempts := Suc (am_attempts m)\<rparr>"

definition claim_message :: "uuid \<Rightarrow> messaging \<Rightarrow> agent_message option \<times> messaging" where
  "claim_message i st =
     (let st1 = tick st
      in case get_row (\<lambda>m. am_id m = i \<and> am_status m = MsgQueued \<and> am_attempts m < am_max_attempts m) (ms_messages st) of
           None \<Rightarrow> (None, st1)
         | Some m \<Rightarrow> (Some (claimed_row (ms_clock st1) m), write_message i (claimed_row (ms_clock st1)) st1))"

text \<open>An update that is guarded by the token of the claim \<open>m\<close>.\<close>

definition owned :: "agent_message \<Rightarrow> agent_message \<Rightarrow> bool" where
  "owned m r \<longleftrightarrow> am_status r = MsgDelivering \<and> am_claimed_at r = am_claimed_at m"

definition write_owned :: "agent_message \<Rightarrow> (agent_message \<Rightarrow> agent_message) \<Rightarrow> messaging \<Rightarrow> messaging" where
  "write_owned m f st = write_message (am_id m) (\<lambda>r. if owned m r then f r else r) (tick st)"

definition released_row :: "string \<Rightarrow> agent_message \<Rightarrow> agent_message" where
  "released_row err r =
     r\<lparr>am_status := (if am_max_attempts r \<le> am_attempts r then MsgGivenUp else MsgQueued),
       am_error := Some err, am_claimed_at := None\<rparr>"

section \<open>Delivery to a new session\<close>

definition worker_phase_of :: "nat \<Rightarrow> messaging \<Rightarrow> worker_phase option" where
  "worker_phase_of w st = map_option wk_phase (get_row (\<lambda>k. wk_id k = w) (ms_workers st))"

definition set_worker :: "nat \<Rightarrow> worker_phase \<Rightarrow> messaging \<Rightarrow> messaging" where
  "set_worker w ph st = st\<lparr>ms_workers := modify wk_id w (\<lambda>k. k\<lparr>wk_phase := ph\<rparr>) (ms_workers st)\<rparr>"

definition end_worker :: "nat \<Rightarrow> messaging \<Rightarrow> messaging" where
  "end_worker w st = st\<lparr>ms_workers := filter (\<lambda>k. wk_id k \<noteq> w) (ms_workers st)\<rparr>"

text \<open>\<open>BLPOP\<close> and \<open>create_task\<close>.\<close>

definition listen_new_session_messages :: "messaging \<Rightarrow> messaging" where
  "listen_new_session_messages st =
     (case ms_dispatch st of
        [] \<Rightarrow> st
      | i # rest \<Rightarrow>
          st\<lparr>ms_dispatch := rest, ms_next := Suc (ms_next st),
             ms_workers := ms_workers st @ [\<lparr>wk_id = ms_next st, wk_phase = WorkerPopped i\<rparr>]\<rparr>)"

definition MAX_CONCURRENT_DELIVERIES :: nat where
  "MAX_CONCURRENT_DELIVERIES = 10"

definition in_semaphore :: "delivery_worker \<Rightarrow> bool" where
  "in_semaphore k \<longleftrightarrow> (case wk_phase k of WorkerPopped _ \<Rightarrow> False | _ \<Rightarrow> True)"

text \<open>The claim waits for a place in the semaphore; when it fails, the popped identifier is lost.\<close>

definition deliver_claim :: "nat \<Rightarrow> bool \<Rightarrow> messaging \<Rightarrow> messaging" where
  "deliver_claim w db_ok st =
     (case worker_phase_of w st of
        Some (WorkerPopped i) \<Rightarrow>
          (case parse_uuid i of
             Inl _ \<Rightarrow> end_worker w st
           | Inr u \<Rightarrow>
               if MAX_CONCURRENT_DELIVERIES \<le> count_rows in_semaphore (ms_workers st) then st
               else if \<not> db_ok then end_worker w st
               else
                 (case claim_message u st of
                    (None, st1) \<Rightarrow> end_worker w st1
                  | (Some m, st1) \<Rightarrow> set_worker w (WorkerClaimed m) st1))
      | _ \<Rightarrow> st)"

text \<open>\<open>create\<close>: what \<open>create_session\<close> answers to the agent's name and the message.\<close>

definition deliver_create :: "nat \<Rightarrow> (string \<Rightarrow> agent_message \<Rightarrow> string + uuid) \<Rightarrow> messaging \<Rightarrow> messaging" where
  "deliver_create w create st =
     (case worker_phase_of w st of
        Some (WorkerClaimed m) \<Rightarrow>
          (case find_agent (\<lambda>a. a_id a = am_to_agent m \<and> a_deleted_at a = None) st of
             None \<Rightarrow> set_worker w (WorkerFailed m ''not found in agents table'') st
           | Some a \<Rightarrow>
               if a_name a = '''' then set_worker w (WorkerFailed m ''has no name'') st
               else
                 (case create (a_name a) m of
                    Inl e \<Rightarrow> set_worker w (WorkerFailed m e) st
                  | Inr sid \<Rightarrow>
                      set_worker w (WorkerCreated m sid)
                        (st\<lparr>ms_created := ms_created st @ [(am_id m, sid)],
                            ms_sessions := ms_sessions st @ [\<lparr>as_id = sid, as_agent = a_id a, as_status = SessionActive\<rparr>]\<rparr>)))
      | _ \<Rightarrow> st)"

text \<open>The two phases of the success path; a failed write leaves the row as it is.\<close>

definition deliver_record :: "nat \<Rightarrow> bool \<Rightarrow> messaging \<Rightarrow> messaging" where
  "deliver_record w db_ok st =
     (case worker_phase_of w st of
        Some (WorkerCreated m sid) \<Rightarrow>
          if db_ok then set_worker w (WorkerRecorded m) (write_owned m (\<lambda>r. r\<lparr>am_resolved_session := Some sid\<rparr>) st)
          else end_worker w st
      | _ \<Rightarrow> st)"

definition deliver_mark :: "nat \<Rightarrow> bool \<Rightarrow> messaging \<Rightarrow> messaging" where
  "deliver_mark w db_ok st =
     (case worker_phase_of w st of
        Some (WorkerRecorded m) \<Rightarrow>
          end_worker w
            (if db_ok
             then write_owned m (\<lambda>r. r\<lparr>am_status := MsgDelivered, am_delivered_at := Some (ms_clock (tick st))\<rparr>) st
             else st)
      | _ \<Rightarrow> st)"

text \<open>The failure path: the claim is released, then the identifier is pushed if attempts remain.\<close>

definition deliver_release :: "nat \<Rightarrow> bool \<Rightarrow> messaging \<Rightarrow> messaging" where
  "deliver_release w db_ok st =
     (case worker_phase_of w st of
        Some (WorkerFailed m err) \<Rightarrow>
          if db_ok
          then (let st1 = write_owned m (released_row err) st
                in if am_attempts m < am_max_attempts m then set_worker w (WorkerReleased m) st1 else end_worker w st1)
          else end_worker w st
      | _ \<Rightarrow> st)"

definition deliver_requeue :: "nat \<Rightarrow> bool \<Rightarrow> messaging \<Rightarrow> messaging" where
  "deliver_requeue w redis_ok st =
     (case worker_phase_of w st of
        Some (WorkerReleased m) \<Rightarrow>
          end_worker w (if redis_ok then push_message None (str_uuid (am_id m)) st else st)
      | _ \<Rightarrow> st)"

section \<open>Delivery at the end of a turn\<close>

definition drain_of :: "nat \<Rightarrow> messaging \<Rightarrow> inbox_drain option" where
  "drain_of b st = get_row (\<lambda>d. ib_id d = b) (ms_drains st)"

definition set_drain :: "nat \<Rightarrow> drain_phase \<Rightarrow> messaging \<Rightarrow> messaging" where
  "set_drain b ph st = st\<lparr>ms_drains := modify ib_id b (\<lambda>d. d\<lparr>ib_phase := ph\<rparr>) (ms_drains st)\<rparr>"

definition end_drain :: "nat \<Rightarrow> messaging \<Rightarrow> messaging" where
  "end_drain b st = st\<lparr>ms_drains := filter (\<lambda>d. ib_id d \<noteq> b) (ms_drains st)\<rparr>"

definition begin_drain :: "uuid \<Rightarrow> messaging \<Rightarrow> messaging" where
  "begin_drain session st =
     st\<lparr>ms_next := Suc (ms_next st),
        ms_drains := ms_drains st @ [\<lparr>ib_id = ms_next st, ib_session = session, ib_phase = DrainIdle\<rparr>]\<rparr>"

text \<open>\<open>LPOP\<close>; an empty list or a failure ends the loop.\<close>

definition drain_pop :: "nat \<Rightarrow> bool \<Rightarrow> messaging \<Rightarrow> messaging" where
  "drain_pop b redis_ok st =
     (case drain_of b st of
        None \<Rightarrow> st
      | Some d \<Rightarrow>
          if ib_phase d \<noteq> DrainIdle then st
          else if \<not> redis_ok then end_drain b st
          else (case ms_inbox st (ib_session d) of
                  [] \<Rightarrow> end_drain b st
                | i # rest \<Rightarrow> set_drain b (DrainPopped i) (st\<lparr>ms_inbox := (ms_inbox st)(ib_session d := rest)\<rparr>)))"

text \<open>
  The claim; an identifier the database cannot read, or a failure, pushes it back (unless
  \<open>redis_ok\<close> is false) and the loop goes on. A message for another session is reset and pushed to
  the inbox it belongs to; a reset can fail, or the push after it.
\<close>

definition misrouted :: "uuid \<Rightarrow> agent_message \<Rightarrow> bool" where
  "misrouted session m \<longleftrightarrow> am_to_session m \<noteq> Some session"

datatype reset_result = ResetDone | ResetNotPushed | ResetFails

definition reset_misrouted :: "reset_result \<Rightarrow> agent_message \<Rightarrow> messaging \<Rightarrow> messaging" where
  "reset_misrouted rr m st =
     (if rr = ResetFails then st
      else
        (let st1 = write_message (am_id m) (\<lambda>r. r\<lparr>am_status := MsgQueued, am_claimed_at := None\<rparr>) (tick st)
         in case am_to_session m of
              None \<Rightarrow> st1
            | Some s \<Rightarrow> if rr = ResetDone then push_message (Some s) (str_uuid (am_id m)) st1 else st1))"

definition readable_id :: "string \<Rightarrow> uuid option" where
  "readable_id i = (case parse_uuid i of Inl _ \<Rightarrow> None | Inr u \<Rightarrow> Some u)"

definition drain_claim :: "nat \<Rightarrow> bool \<Rightarrow> bool \<Rightarrow> reset_result \<Rightarrow> messaging \<Rightarrow> messaging" where
  "drain_claim b db_ok redis_ok rr st =
     (case drain_of b st of
        None \<Rightarrow> st
      | Some d \<Rightarrow>
          (case ib_phase d of
             DrainPopped i \<Rightarrow>
               (case (if db_ok then readable_id i else None) of
                  None \<Rightarrow> set_drain b DrainIdle (if redis_ok then push_message (Some (ib_session d)) i st else st)
                | Some u \<Rightarrow>
                    (case claim_message u st of
                       (None, st1) \<Rightarrow> set_drain b DrainIdle st1
                     | (Some m, st1) \<Rightarrow>
                         if misrouted (ib_session d) m then set_drain b DrainIdle (reset_misrouted rr m st1)
                         else set_drain b (DrainClaimed m) st1))
           | _ \<Rightarrow> st))"

text \<open>
  A claimed message joins the queue of a running turn (\<open>InboxQueued\<close>), starts a turn
  (\<open>InboxTurn\<close>), or an exception comes before the commit: without a trace (\<open>InboxRaises\<close>) or after it
  joined the queue (\<open>InboxQueuedRaises\<close>). A session or agent without a row always raises.
\<close>

datatype inbox_outcome = InboxQueued | InboxTurn | InboxRaises string | InboxQueuedRaises string

definition delivered_row :: "uuid \<Rightarrow> int \<Rightarrow> agent_message \<Rightarrow> agent_message" where
  "delivered_row session now r =
     r\<lparr>am_status := MsgDelivered, am_delivered_at := Some now, am_resolved_session := Some session\<rparr>"

definition inbox_reset :: "reset_result \<Rightarrow> nat \<Rightarrow> uuid \<Rightarrow> agent_message \<Rightarrow> string \<Rightarrow> messaging \<Rightarrow> messaging" where
  "inbox_reset rr b session m err st =
     (if rr = ResetFails then set_drain b DrainIdle st
      else
        (let st1 = write_message (am_id m) (released_row (take 1000 err)) (tick st)
         in set_drain b DrainIdle
              (if am_attempts m < am_max_attempts m \<and> rr = ResetDone
               then push_message (Some session) (str_uuid (am_id m)) st1 else st1)))"

definition session_ready :: "uuid \<Rightarrow> messaging \<Rightarrow> bool" where
  "session_ready session st =
     (case find_session session st of
        None \<Rightarrow> False
      | Some s \<Rightarrow> find_agent (\<lambda>a. a_id a = as_agent s) st \<noteq> None)"

text \<open>The text the session gets.\<close>

definition injected_content :: "messaging \<Rightarrow> agent_message \<Rightarrow> string" where
  "injected_content st m =
     wrap_fellow_agent_content
       (case find_agent (\<lambda>a. a_id a = am_from_agent m) st of Some a \<Rightarrow> a_name a | None \<Rightarrow> ''unknown'') (am_content m)"

definition put_into_session :: "uuid \<Rightarrow> agent_message \<Rightarrow> messaging \<Rightarrow> messaging" where
  "put_into_session session m st = st\<lparr>ms_injected := ms_injected st @ [(am_id m, session)]\<rparr>"

definition mark_injected :: "uuid \<Rightarrow> agent_message \<Rightarrow> messaging \<Rightarrow> messaging" where
  "mark_injected session m st =
     write_message (am_id m) (delivered_row session (ms_clock (tick st))) (tick st)"

definition drain_deliver :: "nat \<Rightarrow> inbox_outcome \<Rightarrow> reset_result \<Rightarrow> messaging \<Rightarrow> messaging" where
  "drain_deliver b outcome rr st =
     (case drain_of b st of
        None \<Rightarrow> st
      | Some d \<Rightarrow>
          (case ib_phase d of
             DrainClaimed m \<Rightarrow>
               (let session = ib_session d
                in if \<not> session_ready session st then inbox_reset rr b session m ''not found'' st
                   else
                     (case outcome of
                        InboxQueued \<Rightarrow> set_drain b DrainIdle (mark_injected session m (put_into_session session m st))
                      | InboxTurn \<Rightarrow>
                          end_drain b (mark_injected session m (put_into_session session m (reopen_session (Some session) st)))
                      | InboxRaises e \<Rightarrow> inbox_reset rr b session m e st
                      | InboxQueuedRaises e \<Rightarrow> inbox_reset rr b session m e (put_into_session session m st)))
           | _ \<Rightarrow> st))"

section \<open>Restart and recovery\<close>

definition STALE_DELIVERING_MICROSECONDS :: int where
  "STALE_DELIVERING_MICROSECONDS = 5 * 60 * 1000000"

definition finalize_resolved :: "int \<Rightarrow> agent_message \<Rightarrow> agent_message" where
  "finalize_resolved now r =
     (if am_status r = MsgDelivering \<and> am_resolved_session r \<noteq> None
      then r\<lparr>am_status := MsgDelivered, am_delivered_at := Some now, am_claimed_at := None\<rparr>
      else r)"

definition stale_claim :: "int \<Rightarrow> agent_message \<Rightarrow> bool" where
  "stale_claim now r \<longleftrightarrow>
     am_status r = MsgDelivering \<and> am_resolved_session r = None \<and>
     (case am_claimed_at r of None \<Rightarrow> False | Some t \<Rightarrow> t < now - STALE_DELIVERING_MICROSECONDS)"

definition reset_stale :: "int \<Rightarrow> agent_message \<Rightarrow> agent_message" where
  "reset_stale now r =
     (if stale_claim now r
      then r\<lparr>am_status := (if am_max_attempts r \<le> am_attempts r then MsgGivenUp else MsgQueued), am_claimed_at := None\<rparr>
      else r)"

definition queued_messages :: "messaging \<Rightarrow> agent_message list" where
  "queued_messages st = filter (\<lambda>r. am_status r = MsgQueued) (ms_messages st)"

text \<open>\<open>pushed\<close>: the lists that are reached (all, unless Redis fails); \<open>None\<close> is the dispatcher's.\<close>

definition requeue_all :: "(uuid option \<Rightarrow> bool) \<Rightarrow> messaging \<Rightarrow> messaging" where
  "requeue_all pushed st =
     (let rows = filter (\<lambda>r. pushed (am_to_session r)) (queued_messages st)
      in st\<lparr>ms_dispatch := ms_dispatch st @ map (str_uuid \<circ> am_id) (filter (\<lambda>r. am_to_session r = None) rows),
            ms_inbox := (\<lambda>s. ms_inbox st s @ map (str_uuid \<circ> am_id) (filter (\<lambda>r. am_to_session r = Some s) rows))\<rparr>)"

text \<open>The first failure ends the recovery: of a transaction, or of a push.\<close>

datatype recovery_result = FinalizeFails | StaleFails | Pushes "uuid option \<Rightarrow> bool"

definition recover_agent_messages :: "recovery_result \<Rightarrow> messaging \<Rightarrow> messaging" where
  "recover_agent_messages res st =
     (let st1 = tick st;
          st2 = tick (st1\<lparr>ms_messages := map (finalize_resolved (ms_clock st1)) (ms_messages st1)\<rparr>);
          st3 = st2\<lparr>ms_messages := map (reset_stale (ms_clock st2)) (ms_messages st2)\<rparr>
      in case res of FinalizeFails \<Rightarrow> st1 | StaleFails \<Rightarrow> st2 | Pushes pushed \<Rightarrow> requeue_all pushed st3)"

text \<open>The process ends, and the next one runs the recovery before it listens.\<close>

definition restart_messaging :: "recovery_result \<Rightarrow> messaging \<Rightarrow> messaging" where
  "restart_messaging res st = recover_agent_messages res (st\<lparr>ms_workers := [], ms_drains := []\<rparr>)"

section \<open>Steps\<close>

datatype messaging_action =
    SendAgentMessage uuid bool string string "string option" "string option" "string option"
  | Listen
  | DeliverClaim nat bool
  | DeliverCreate nat "string \<Rightarrow> agent_message \<Rightarrow> string + uuid"
  | DeliverRecord nat bool
  | DeliverMark nat bool
  | DeliverRelease nat bool
  | DeliverRequeue nat bool
  | BeginDrain uuid
  | DrainPop nat bool
  | DrainClaim nat bool bool reset_result
  | DrainDeliver nat inbox_outcome reset_result
  | TimePasses nat
  | RestartMessaging recovery_result

text \<open>The identifiers of new rows are fresh.\<close>

fun messaging_step :: "(agent \<Rightarrow> string \<times> string list) \<Rightarrow> messaging_action \<Rightarrow> messaging \<Rightarrow> messaging" where
  "messaging_step config (SendAgentMessage i redis_ok name content target header arg) st =
     (if i \<in> am_id ` set (ms_messages st) then st
      else snd (send_agent_message config i redis_ok name content target header arg st))"
| "messaging_step config Listen st = listen_new_session_messages st"
| "messaging_step config (DeliverClaim w ok) st = deliver_claim w ok st"
| "messaging_step config (DeliverCreate w create) st = deliver_create w create st"
| "messaging_step config (DeliverRecord w ok) st = deliver_record w ok st"
| "messaging_step config (DeliverMark w ok) st = deliver_mark w ok st"
| "messaging_step config (DeliverRelease w ok) st = deliver_release w ok st"
| "messaging_step config (DeliverRequeue w ok) st = deliver_requeue w ok st"
| "messaging_step config (BeginDrain s) st = begin_drain s st"
| "messaging_step config (DrainPop b ok) st = drain_pop b ok st"
| "messaging_step config (DrainClaim b ok redis_ok rr) st = drain_claim b ok redis_ok rr st"
| "messaging_step config (DrainDeliver b outcome rr) st = drain_deliver b outcome rr st"
| "messaging_step config (TimePasses n) st = st\<lparr>ms_clock := ms_clock st + int n\<rparr>"
| "messaging_step config (RestartMessaging res) st = restart_messaging res st"

definition run_messaging ::
  "(agent \<Rightarrow> string \<times> string list) \<Rightarrow> messaging_action list \<Rightarrow> messaging \<Rightarrow> messaging" where
  "run_messaging config acts st = fold (messaging_step config) acts st"

definition messaging_start :: "agent list \<Rightarrow> agent_session_row list \<Rightarrow> messaging" where
  "messaging_start agents sessions =
     \<lparr>ms_agents = agents, ms_sessions = sessions, ms_messages = [], ms_clock = 0, ms_dispatch = [],
      ms_inbox = (\<lambda>_. []), ms_workers = [], ms_drains = [], ms_next = 0, ms_created = [], ms_injected = []\<rparr>"

end
