(* ===== verification/Agent_Delivery.thy ===== *)
theory Agent_Delivery
  imports Agent_Messages
begin

text \<open>
  What every step of the delivery of agent messages keeps: a claim is held by one coroutine,
  the attempts are bounded and pay for the sessions that are created, inboxes hold only messages
  of their session.
\<close>

section \<open>The books\<close>

definition created_for :: "uuid \<Rightarrow> (uuid \<times> uuid) list \<Rightarrow> nat" where
  "created_for i cr = count_rows (\<lambda>p. fst p = i) cr"

definition row_ok :: "(uuid \<times> uuid) list \<Rightarrow> (uuid \<times> uuid) list \<Rightarrow> agent_message \<Rightarrow> bool" where
  "row_ok cr ij r \<longleftrightarrow>
     am_attempts r \<le> am_max_attempts r \<and> created_for (am_id r) cr \<le> am_attempts r \<and>
     (am_status r = MsgQueued \<longrightarrow> am_attempts r < am_max_attempts r \<and> am_resolved_session r = None) \<and>
     (am_status r = MsgGivenUp \<longrightarrow> am_resolved_session r = None) \<and>
     (am_status r = MsgDelivering \<longrightarrow> am_claimed_at r \<noteq> None) \<and>
     (am_status r = MsgDelivered \<longrightarrow> am_resolved_session r \<noteq> None) \<and>
     (\<forall>s. am_resolved_session r = Some s \<longrightarrow> (am_id r, s) \<in> set cr \<union> set ij)"

text \<open>The row a claim was taken on: still \<open>DELIVERING\<close> with its token.\<close>

definition claim_row :: "agent_message \<Rightarrow> agent_message \<Rightarrow> bool" where
  "claim_row m r \<longleftrightarrow>
     am_id r = am_id m \<and> owned m r \<and> am_attempts r = am_attempts m \<and> am_max_attempts r = am_max_attempts m \<and>
     am_to_session r = am_to_session m"

definition books_ok ::
  "agent_message list \<Rightarrow> agent_message list \<Rightarrow> (uuid \<times> uuid) list \<Rightarrow> (uuid \<times> uuid) list \<Rightarrow> bool" where
  "books_ok ms cl cr ij \<longleftrightarrow>
     distinct (map am_id ms) \<and> (\<forall>r \<in> set ms. row_ok cr ij r) \<and> fst ` set cr \<subseteq> am_id ` set ms \<and>
     distinct (map am_id cl) \<and> (\<forall>m \<in> set cl. \<exists>r \<in> set ms. claim_row m r)"

lemma claim_row_unique:
  assumes "books_ok ms cl cr ij" "m \<in> set cl" "r \<in> set ms" "am_id r = am_id m"
  shows "claim_row m r"
proof -
  obtain r' where "r' \<in> set ms" "claim_row m r'" using assms(1,2) by (auto simp: books_ok_def)
  moreover have "inj_on am_id (set ms)" using assms(1) by (simp add: books_ok_def distinct_map)
  ultimately have "r' = r" using assms(3,4) inj_onD [of am_id "set ms" r' r] by (simp add: claim_row_def)
  then show ?thesis using \<open>claim_row m r'\<close> by simp
qed

lemma claim_row_kept:
  assumes "r \<in> set ms" "claim_row c r" "am_id c \<noteq> i"
  shows "\<exists>q \<in> set (modify am_id i f ms). claim_row c q"
proof -
  have "am_id r \<noteq> i" using assms(2,3) by (simp add: claim_row_def)
  then have "r \<in> set (modify am_id i f ms)" unfolding in_modify_iff using assms(1) by blast
  then show ?thesis using assms(2) by blast
qed

text \<open>Dropping claims, and writing the row of one.\<close>

lemma books_drop:
  "books_ok ms (as @ cl @ bs) cr ij \<Longrightarrow> books_ok ms (as @ bs) cr ij"
  by (auto simp: books_ok_def)

lemma books_drop_all: "books_ok ms cl cr ij \<Longrightarrow> books_ok ms [] cr ij"
  by (auto simp: books_ok_def)

lemma books_write:
  assumes "books_ok ms (as @ m # bs) cr ij"
    and f: "\<And>r. r \<in> set ms \<Longrightarrow> claim_row m r \<Longrightarrow> row_ok cr ij' (f r)" "\<And>r. am_id (f r) = am_id r"
    and ij: "set ij \<subseteq> set ij'"
  shows "books_ok (modify am_id (am_id m) f ms) (as @ bs) cr ij'"
proof -
  have keys: "map am_id (modify am_id (am_id m) f ms) = map am_id ms" using f(2) by (auto simp: modify_def)
  have ids: "am_id ` set (modify am_id (am_id m) f ms) = am_id ` set ms"
    using keys by (metis list.set_map)
  have "row_ok cr ij' r" if "r \<in> set (modify am_id (am_id m) f ms)" for r
  proof -
    obtain q where q: "q \<in> set ms" "(am_id q = am_id m \<and> r = f q) \<or> (am_id q \<noteq> am_id m \<and> r = q)"
      using \<open>r \<in> _\<close> unfolding in_modify_iff by blast
    have "row_ok cr ij q" using assms(1) q(1) by (simp add: books_ok_def)
    then have "row_ok cr ij' q" using ij by (auto simp: row_ok_def)
    then show ?thesis using q f(1) claim_row_unique [OF assms(1) _ q(1)] by auto
  qed
  moreover have "\<exists>r \<in> set (modify am_id (am_id m) f ms). claim_row c r" if c: "c \<in> set (as @ bs)" for c
  proof -
    have "am_id c \<in> am_id ` (set as \<union> set bs)" using c by auto
    moreover have "am_id m \<notin> am_id ` (set as \<union> set bs)" using assms(1) by (auto simp: books_ok_def)
    ultimately have "am_id c \<noteq> am_id m" by metis
    moreover have "c \<in> set (as @ m # bs)" using c by auto
    moreover from this obtain r where "r \<in> set ms" "claim_row c r" using assms(1) unfolding books_ok_def by blast
    ultimately show ?thesis using claim_row_kept by blast
  qed
  ultimately show ?thesis using assms(1) keys ids by (auto simp: books_ok_def)
qed

text \<open>Writing the row of a claim that stays.\<close>

lemma books_write_keep:
  assumes "books_ok ms (as @ m # bs) cr ij"
    and f: "\<And>r. r \<in> set ms \<Longrightarrow> claim_row m r \<Longrightarrow> row_ok cr ij (f r) \<and> claim_row m (f r)" "\<And>r. am_id (f r) = am_id r"
  shows "books_ok (modify am_id (am_id m) f ms) (as @ m # bs) cr ij"
proof -
  have b: "books_ok (modify am_id (am_id m) f ms) (as @ bs) cr ij"
    using assms by (intro books_write) auto
  obtain r where r: "r \<in> set ms" "claim_row m r" using assms(1) by (auto simp: books_ok_def)
  then have "f r \<in> set (modify am_id (am_id m) f ms)" "claim_row m (f r)"
    using f(1) unfolding in_modify_iff by (auto simp: claim_row_def)
  then show ?thesis using b assms(1) by (auto simp: books_ok_def)
qed

text \<open>A claim.\<close>

lemma books_claim:
  assumes "books_ok ms cl cr ij" "r \<in> set ms" "am_status r = MsgQueued" "am_attempts r < am_max_attempts r" "cl = as @ bs"
  shows "books_ok (modify am_id (am_id r) (claimed_row now) ms) (as @ claimed_row now r # bs) cr ij"
    (is "books_ok ?ms _ cr ij")
proof -
  have keys: "map am_id ?ms = map am_id ms" by (auto simp: modify_def claimed_row_def)
  have ids: "am_id ` set ?ms = am_id ` set ms" using keys by (metis list.set_map)
  have dist: "distinct (map am_id ms)" using assms(1) by (simp add: books_ok_def)
  have own: "q = r" if "q \<in> set ms" "am_id q = am_id r" for q
    using dist assms(2) that by (auto simp: distinct_map inj_on_def)
  have new: "am_id r \<notin> am_id ` set cl"
  proof
    assume "am_id r \<in> am_id ` set cl"
    then obtain c where "c \<in> set cl" "am_id c = am_id r" by auto
    then have "claim_row c r" using claim_row_unique [OF assms(1) _ assms(2)] by simp
    then show False using assms(3) by (simp add: claim_row_def owned_def)
  qed
  have "row_ok cr ij q" if q: "q \<in> set ?ms" for q
  proof -
    obtain p where p: "p \<in> set ms" "(am_id p = am_id r \<and> q = claimed_row now p) \<or> (am_id p \<noteq> am_id r \<and> q = p)"
      using q unfolding in_modify_iff by blast
    have "row_ok cr ij p" using assms(1) p(1) by (simp add: books_ok_def)
    then show ?thesis using p own assms(3,4) by (auto simp: row_ok_def claimed_row_def)
  qed
  moreover have "\<exists>q \<in> set ?ms. claim_row c q" if c: "c \<in> set cl" for c
  proof -
    obtain p where "p \<in> set ms" "claim_row c p" using assms(1) c by (auto simp: books_ok_def)
    moreover have "am_id c \<noteq> am_id r" using new imageI [OF c, of am_id] by metis
    ultimately show ?thesis using claim_row_kept by blast
  qed
  moreover have "\<exists>q \<in> set ?ms. claim_row (claimed_row now r) q"
    using assms(2) unfolding Bex_def in_modify_iff by (intro exI [of _ "claimed_row now r"]) (auto simp: claim_row_def claimed_row_def owned_def)
  moreover have "distinct (map am_id (as @ claimed_row now r # bs))"
    using assms(1,5) new by (auto simp: books_ok_def claimed_row_def)
  ultimately show ?thesis using assms(1,5) keys ids by (auto simp: books_ok_def)
qed

section \<open>Holders of claims\<close>

definition worker_claim :: "delivery_worker \<Rightarrow> agent_message list" where
  "worker_claim k =
     (case wk_phase k of
        WorkerClaimed m \<Rightarrow> [m] | WorkerCreated m _ \<Rightarrow> [m] | WorkerRecorded m \<Rightarrow> [m] | WorkerFailed m _ \<Rightarrow> [m]
      | _ \<Rightarrow> [])"

definition drain_claims :: "inbox_drain \<Rightarrow> agent_message list" where
  "drain_claims d = (case ib_phase d of DrainClaimed m \<Rightarrow> [m] | _ \<Rightarrow> [])"

definition claims :: "messaging \<Rightarrow> agent_message list" where
  "claims st = concat (map worker_claim (ms_workers st)) @ concat (map drain_claims (ms_drains st))"

definition unresolved :: "agent_message list \<Rightarrow> uuid \<Rightarrow> bool" where
  "unresolved ms i \<longleftrightarrow> (\<forall>r \<in> set ms. am_id r = i \<longrightarrow> am_resolved_session r = None)"

definition resolved :: "agent_message list \<Rightarrow> uuid \<Rightarrow> bool" where
  "resolved ms i \<longleftrightarrow> (\<forall>r \<in> set ms. am_id r = i \<longrightarrow> am_resolved_session r \<noteq> None)"

definition worker_ok :: "agent_message list \<Rightarrow> (uuid \<times> uuid) list \<Rightarrow> delivery_worker \<Rightarrow> bool" where
  "worker_ok ms cr k \<longleftrightarrow>
     (case wk_phase k of
        WorkerClaimed m \<Rightarrow> created_for (am_id m) cr < am_attempts m \<and> unresolved ms (am_id m)
      | WorkerCreated m sid \<Rightarrow> (am_id m, sid) \<in> set cr \<and> unresolved ms (am_id m)
      | WorkerFailed m _ \<Rightarrow> unresolved ms (am_id m)
      | WorkerRecorded m \<Rightarrow> resolved ms (am_id m)
      | _ \<Rightarrow> True)"

definition inbox_id :: "agent_message list \<Rightarrow> uuid \<Rightarrow> string \<Rightarrow> bool" where
  "inbox_id ms s i \<longleftrightarrow> (\<exists>r \<in> set ms. i = str_uuid (am_id r) \<and> am_to_session r = Some s)"

definition inbox_drain_ok :: "agent_message list \<Rightarrow> inbox_drain \<Rightarrow> bool" where
  "inbox_drain_ok ms d \<longleftrightarrow>
     (case ib_phase d of
        DrainPopped i \<Rightarrow> inbox_id ms (ib_session d) i
      | DrainClaimed m \<Rightarrow> am_to_session m = Some (ib_session d) \<and> unresolved ms (am_id m)
      | DrainIdle \<Rightarrow> True)"

definition holders_ok :: "messaging \<Rightarrow> bool" where
  "holders_ok st \<longleftrightarrow>
     distinct (map wk_id (ms_workers st)) \<and> distinct (map ib_id (ms_drains st)) \<and>
     (\<forall>k \<in> set (ms_workers st). wk_id k < ms_next st \<and> worker_ok (ms_messages st) (ms_created st) k) \<and>
     (\<forall>d \<in> set (ms_drains st). ib_id d < ms_next st \<and> inbox_drain_ok (ms_messages st) d) \<and>
     (\<forall>s. \<forall>i \<in> set (ms_inbox st s). inbox_id (ms_messages st) s i)"

definition delivery_ok :: "messaging \<Rightarrow> bool" where
  "delivery_ok st \<longleftrightarrow>
     books_ok (ms_messages st) (claims st) (ms_created st) (ms_injected st) \<and> holders_ok st"

text \<open>What a write to a row leaves of the others.\<close>

lemma unresolved_other:
  assumes "j \<noteq> i" "\<And>r. am_id (f r) = am_id r"
  shows "unresolved (modify am_id i f ms) j = unresolved ms j" "resolved (modify am_id i f ms) j = resolved ms j"
  using assms by (auto simp: unresolved_def resolved_def modify_def)

lemma inbox_id_write:
  assumes "inbox_id ms s x" "\<And>r. am_id (f r) = am_id r" "\<And>r. am_to_session (f r) = am_to_session r"
  shows "inbox_id (modify am_id i f ms) s x"
proof -
  obtain r where r: "r \<in> set ms" "x = str_uuid (am_id r)" "am_to_session r = Some s"
    using assms(1) by (auto simp: inbox_id_def)
  let ?r = "if am_id r = i then f r else r"
  have "?r \<in> set (modify am_id i f ms)" unfolding modify_def set_map by (rule imageI) (rule r(1))
  moreover have "x = str_uuid (am_id ?r)" "am_to_session ?r = Some s" using r assms(2,3) by auto
  ultimately show ?thesis unfolding inbox_id_def by blast
qed

lemma worker_ok_other:
  assumes "worker_ok ms cr k" "\<And>m. m \<in> set (worker_claim k) \<Longrightarrow> am_id m \<noteq> i" "\<And>r. am_id (f r) = am_id r"
  shows "worker_ok (modify am_id i f ms) cr k"
  using assms(1,2) unresolved_other [OF _ assms(3)]
  by (auto simp: worker_ok_def worker_claim_def split: worker_phase.splits)

lemma worker_ok_created:
  assumes "worker_ok ms cr k" "\<And>m. m \<in> set (worker_claim k) \<Longrightarrow> am_id m \<noteq> i"
  shows "worker_ok ms (cr @ [(i, sid)]) k"
  using assms
  by (auto simp: worker_ok_def worker_claim_def created_for_def count_rows_def split: worker_phase.splits)

lemma inbox_drain_ok_other:
  assumes "inbox_drain_ok ms d" "\<And>m. m \<in> set (drain_claims d) \<Longrightarrow> am_id m \<noteq> i" "\<And>r. am_id (f r) = am_id r"
    "\<And>r. am_to_session (f r) = am_to_session r"
  shows "inbox_drain_ok (modify am_id i f ms) d"
  using assms(1,2) unresolved_other(1) [OF _ assms(3)] inbox_id_write [OF _ assms(3,4)]
  by (auto simp: inbox_drain_ok_def drain_claims_def split: drain_phase.splits)

section \<open>Steps of a worker\<close>

lemma claims_split:
  "ms_workers st = as @ ks @ bs \<Longrightarrow>
   claims st = concat (map worker_claim as) @ concat (map worker_claim ks) @
     (concat (map worker_claim bs) @ concat (map drain_claims (ms_drains st)))"
  by (simp add: claims_def)

text \<open>The claims of the others are on other messages.\<close>

lemma other_claims:
  assumes "delivery_ok st" "ms_workers st = as @ k # bs" "worker_claim k = [m]"
  shows "\<And>k' m'. k' \<in> set as \<union> set bs \<Longrightarrow> m' \<in> set (worker_claim k') \<Longrightarrow> am_id m' \<noteq> am_id m"
    "\<And>d m'. d \<in> set (ms_drains st) \<Longrightarrow> m' \<in> set (drain_claims d) \<Longrightarrow> am_id m' \<noteq> am_id m"
proof -
  have "distinct (map am_id (claims st))" using assms(1) by (simp add: delivery_ok_def books_ok_def)
  then have d: "am_id m \<notin> am_id ` (set (concat (map worker_claim as)) \<union> set (concat (map worker_claim bs)) \<union>
      set (concat (map drain_claims (ms_drains st))))"
    using assms(2,3) unfolding claims_def by auto
  show "am_id m' \<noteq> am_id m" if "k' \<in> set as \<union> set bs" "m' \<in> set (worker_claim k')" for k' m'
  proof
    assume "am_id m' = am_id m"
    moreover have "m' \<in> set (concat (map worker_claim as)) \<union> set (concat (map worker_claim bs))" using that by auto
    ultimately show False using d by (metis UnI1 imageI)
  qed
  show "am_id m' \<noteq> am_id m" if "e \<in> set (ms_drains st)" "m' \<in> set (drain_claims e)" for e m'
  proof
    assume "am_id m' = am_id m"
    moreover have "m' \<in> set (concat (map drain_claims (ms_drains st)))" using that by auto
    ultimately show False using d by (metis UnI2 imageI)
  qed
qed

text \<open>A worker writes the row of its claim, and keeps the claim or gives it up.\<close>

lemma worker_write:
  assumes ok: "delivery_ok st" and split: "ms_workers st = as @ k # bs" and m: "worker_claim k = [m]"
    and st': "ms_workers st' = as @ ks @ bs" "ms_messages st' = modify am_id (am_id m) f (ms_messages st)"
      "ms_created st' = ms_created st" "ms_injected st' = ms_injected st" "ms_drains st' = ms_drains st"
      "ms_inbox st' = ms_inbox st" "ms_next st' = ms_next st"
    and f: "\<And>r. am_id (f r) = am_id r" "\<And>r. am_to_session (f r) = am_to_session r"
      "\<And>r. r \<in> set (ms_messages st) \<Longrightarrow> claim_row m r \<Longrightarrow> row_ok (ms_created st) (ms_injected st) (f r)"
    and ks: "ks = [] \<or> (\<exists>k'. ks = [k'] \<and> wk_id k' = wk_id k \<and> worker_ok (ms_messages st') (ms_created st) k' \<and>
       (worker_claim k' = [] \<or> (worker_claim k' = [m] \<and> (\<forall>r \<in> set (ms_messages st). claim_row m r \<longrightarrow> claim_row m (f r)))))"
  shows "delivery_ok st'"
proof -
  let ?rest = "concat (map worker_claim bs) @ concat (map drain_claims (ms_drains st))"
  have holders: "holders_ok st" using ok by (simp add: delivery_ok_def)
  have books: "books_ok (ms_messages st) (concat (map worker_claim as) @ m # ?rest) (ms_created st) (ms_injected st)"
    using ok m claims_split [of st as "[k]" bs] split by (simp add: delivery_ok_def)
  have c': "claims st' = concat (map worker_claim as) @ concat (map worker_claim ks) @ ?rest"
    using claims_split [OF st'(1)] st'(5) by simp
  have "books_ok (ms_messages st') (claims st') (ms_created st') (ms_injected st')"
  proof (cases "concat (map worker_claim ks) = []")
    case True
    show ?thesis using books_write [OF books f(3,1)] unfolding c' True st'(2-4) by simp
  next
    case False
    then have "concat (map worker_claim ks) = [m]" "\<forall>r \<in> set (ms_messages st). claim_row m r \<longrightarrow> claim_row m (f r)"
      using ks by auto
    then show ?thesis using books_write_keep [OF books _ f(1)] f(3) unfolding c' st'(2-4) by simp
  qed
  moreover have "holders_ok st'"
  proof -
    have d: "distinct (map wk_id (as @ k # bs))" using holders split by (simp add: holders_ok_def)
    have "map wk_id ks = [] \<or> map wk_id ks = [wk_id k]" using ks by auto
    then have "distinct (map wk_id (as @ ks @ bs))" using d by (elim disjE) simp_all
    moreover have "wk_id k' < ms_next st \<and> worker_ok (ms_messages st') (ms_created st) k'" if "k' \<in> set (as @ ks @ bs)" for k'
    proof (cases "k' \<in> set ks")
      case True
      then show ?thesis using ks holders split by (auto simp: holders_ok_def)
    next
      case False
      then have "k' \<in> set as \<union> set bs" using that by auto
      then show ?thesis using worker_ok_other [OF _ _ f(1)] other_claims(1) [OF ok split m] holders split
        unfolding st'(2) holders_ok_def by auto
    qed
    moreover have "inbox_drain_ok (ms_messages st') d" if "d \<in> set (ms_drains st)" for d
      using inbox_drain_ok_other [OF _ _ f(1,2)] other_claims(2) [OF ok split m] holders that
      unfolding st'(2) holders_ok_def by blast
    moreover have "inbox_id (ms_messages st') s i" if "i \<in> set (ms_inbox st s)" for s i
      using inbox_id_write [OF _ f(1,2)] holders that unfolding st'(2) holders_ok_def by blast
    ultimately show ?thesis using holders unfolding holders_ok_def st'(1,3,5-7) by auto
  qed
  ultimately show ?thesis by (simp add: delivery_ok_def)
qed


lemma worker_split:
  assumes "delivery_ok st" "worker_phase_of w st = Some ph"
  obtains as k bs where "ms_workers st = as @ k # bs" "wk_id k = w" "wk_phase k = ph"
    "\<forall>g. modify wk_id w g (ms_workers st) = as @ g k # bs" "filter (\<lambda>k. wk_id k \<noteq> w) (ms_workers st) = as @ bs"
proof -
  obtain k where k: "get_row (\<lambda>k. wk_id k = w) (ms_workers st) = Some k" "wk_phase k = ph"
    using assms(2) by (auto simp: worker_phase_of_def)
  have "distinct (map wk_id (ms_workers st))" using assms(1) by (simp add: delivery_ok_def holders_ok_def)
  then show ?thesis using split_entry [OF _ k(1)] k(2) that by metis
qed

lemma drain_split:
  assumes "delivery_ok st" "drain_of b st = Some d"
  obtains as bs where "ms_drains st = as @ d # bs" "ib_id d = b"
    "\<forall>g. modify ib_id b g (ms_drains st) = as @ g d # bs" "filter (\<lambda>d. ib_id d \<noteq> b) (ms_drains st) = as @ bs"
proof -
  have "distinct (map ib_id (ms_drains st))" using assms(1) by (simp add: delivery_ok_def holders_ok_def)
  then show ?thesis using split_entry [of ib_id "ms_drains st" b d] assms(2) that unfolding drain_of_def by metis
qed

lemma worker_phase_absent:
  "worker_phase_of w st = None \<Longrightarrow> filter (\<lambda>k. wk_id k \<noteq> w) (ms_workers st) = ms_workers st"
  by (auto simp: worker_phase_of_def get_row_None filter_id_conv)

lemma drain_absent:
  "drain_of b st = None \<Longrightarrow> filter (\<lambda>d. ib_id d \<noteq> b) (ms_drains st) = ms_drains st"
  by (auto simp: drain_of_def get_row_None filter_id_conv)

text \<open>A coroutine that ends gives its claim up.\<close>

lemma end_worker_ok:
  assumes "delivery_ok st"
  shows "delivery_ok (end_worker w st)"
proof (cases "worker_phase_of w st")
  case None
  then show ?thesis using assms worker_phase_absent by (simp add: end_worker_def)
next
  case (Some ph)
  then obtain as k bs where s: "ms_workers st = as @ k # bs" "filter (\<lambda>k. wk_id k \<noteq> w) (ms_workers st) = as @ bs"
    using worker_split [OF assms] by metis
  have "claims (end_worker w st) = concat (map worker_claim as) @
      (concat (map worker_claim bs) @ concat (map drain_claims (ms_drains st)))"
    using s(2) by (simp add: claims_def end_worker_def)
  moreover have "claims st = concat (map worker_claim as) @ worker_claim k @
      (concat (map worker_claim bs) @ concat (map drain_claims (ms_drains st)))"
    using s(1) by (simp add: claims_def)
  ultimately have "books_ok (ms_messages st) (claims (end_worker w st)) (ms_created st) (ms_injected st)"
    using assms books_drop unfolding delivery_ok_def by metis
  then show ?thesis using assms by (auto simp: delivery_ok_def holders_ok_def end_worker_def distinct_map_filter)
qed

lemma end_drain_ok:
  assumes "delivery_ok st"
  shows "delivery_ok (end_drain b st)"
proof (cases "drain_of b st")
  case None
  then show ?thesis using assms drain_absent by (simp add: end_drain_def)
next
  case (Some d)
  then obtain as bs where s: "ms_drains st = as @ d # bs" "filter (\<lambda>d. ib_id d \<noteq> b) (ms_drains st) = as @ bs"
    using drain_split [OF assms] by metis
  let ?w = "concat (map worker_claim (ms_workers st)) @ concat (map drain_claims as)"
  have "claims (end_drain b st) = ?w @ concat (map drain_claims bs)"
    using s(2) by (simp add: claims_def end_drain_def)
  moreover have "claims st = ?w @ drain_claims d @ concat (map drain_claims bs)"
    using s(1) by (simp add: claims_def)
  ultimately have "books_ok (ms_messages st) (claims (end_drain b st)) (ms_created st) (ms_injected st)"
    using assms books_drop unfolding delivery_ok_def by metis
  then show ?thesis using assms by (auto simp: delivery_ok_def holders_ok_def end_drain_def distinct_map_filter)
qed


text \<open>The row a worker holds the claim of.\<close>

lemma worker_row:
  assumes "delivery_ok st" "k \<in> set (ms_workers st)" "worker_claim k = [m]" "r \<in> set (ms_messages st)" "am_id r = am_id m"
  shows "claim_row m r" "row_ok (ms_created st) (ms_injected st) r" "worker_ok (ms_messages st) (ms_created st) k"
proof -
  have "m \<in> set (claims st)" using assms(2,3) by (auto simp: claims_def intro!: bexI [of _ k])
  then show "claim_row m r" using assms(1,4,5) claim_row_unique unfolding delivery_ok_def by metis
  show "row_ok (ms_created st) (ms_injected st) r" using assms(1,4) by (simp add: delivery_ok_def books_ok_def)
  show "worker_ok (ms_messages st) (ms_created st) k" using assms(1,2) by (simp add: delivery_ok_def holders_ok_def)
qed

lemma write_owned_frame [simp]:
  "ms_workers (write_owned m f st) = ms_workers st" "ms_drains (write_owned m f st) = ms_drains st"
  "ms_created (write_owned m f st) = ms_created st" "ms_injected (write_owned m f st) = ms_injected st"
  "ms_inbox (write_owned m f st) = ms_inbox st" "ms_next (write_owned m f st) = ms_next st"
  "ms_messages (write_owned m f st) = modify am_id (am_id m) (\<lambda>r. if owned m r then f r else r) (ms_messages st)"
  by (simp_all add: write_owned_def write_message_def tick_def)

text \<open>A worker writes the row it owns and ends, or goes on in another phase.\<close>

lemma worker_writes:
  assumes ok: "delivery_ok st" and ph: "worker_phase_of w st = Some ph" and m: "worker_claim \<lparr>wk_id = w, wk_phase = ph\<rparr> = [m]"
    and f: "\<And>r. am_id (f r) = am_id r" "\<And>r. am_to_session (f r) = am_to_session r"
      "\<And>r. r \<in> set (ms_messages st) \<Longrightarrow> claim_row m r \<Longrightarrow> row_ok (ms_created st) (ms_injected st) (f r)"
  shows "delivery_ok (end_worker w (write_owned m f st))"
    and "worker_ok (modify am_id (am_id m) (\<lambda>r. if owned m r then f r else r) (ms_messages st)) (ms_created st)
           \<lparr>wk_id = w, wk_phase = ph'\<rparr> \<Longrightarrow>
         worker_claim \<lparr>wk_id = w, wk_phase = ph'\<rparr> = [] \<or>
         (worker_claim \<lparr>wk_id = w, wk_phase = ph'\<rparr> = [m] \<and>
          (\<forall>r \<in> set (ms_messages st). claim_row m r \<longrightarrow> claim_row m (f r))) \<Longrightarrow>
         delivery_ok (set_worker w ph' (write_owned m f st))"
proof -
  let ?f = "\<lambda>r. if owned m r then f r else r"
  obtain as k bs where k: "ms_workers st = as @ k # bs" "wk_id k = w" "wk_phase k = ph"
    "\<forall>g. modify wk_id w g (ms_workers st) = as @ g k # bs" "filter (\<lambda>k. wk_id k \<noteq> w) (ms_workers st) = as @ bs"
    using ok ph by (rule worker_split)
  have c: "worker_claim k = [m]" using m k(3) by (simp add: worker_claim_def)
  have f'1: "am_id (?f r) = am_id r" for r using f(1) by simp
  have f'2: "am_to_session (?f r) = am_to_session r" for r using f(2) by simp
  have f'3: "row_ok (ms_created st) (ms_injected st) (?f r)" if "r \<in> set (ms_messages st)" "claim_row m r" for r
    using f(3) [OF that] that(2) by (simp add: claim_row_def)
  note wr = worker_write [OF ok k(1) c _ _ _ _ _ _ _ f'1 f'2 f'3]
  show "delivery_ok (end_worker w (write_owned m f st))"
    by (rule wr [where ks = "[]"]) (simp_all add: end_worker_def k(5))
  assume w: "worker_ok (modify am_id (am_id m) ?f (ms_messages st)) (ms_created st) \<lparr>wk_id = w, wk_phase = ph'\<rparr>"
    "worker_claim \<lparr>wk_id = w, wk_phase = ph'\<rparr> = [] \<or>
         (worker_claim \<lparr>wk_id = w, wk_phase = ph'\<rparr> = [m] \<and>
          (\<forall>r \<in> set (ms_messages st). claim_row m r \<longrightarrow> claim_row m (f r)))"
  let ?k = "k\<lparr>wk_phase := ph'\<rparr>"
  have "worker_ok (modify am_id (am_id m) ?f (ms_messages st)) (ms_created st) ?k" using w(1) by (simp add: worker_ok_def)
  moreover have "worker_claim ?k = [] \<or> (worker_claim ?k = [m] \<and> (\<forall>r \<in> set (ms_messages st). claim_row m r \<longrightarrow> claim_row m (?f r)))"
    using w(2) by (auto simp: worker_claim_def)
  ultimately show "delivery_ok (set_worker w ph' (write_owned m f st))"
    by (intro wr [where ks = "[?k]"]) (simp_all add: set_worker_def k(4))
qed

lemma resolved_write:
  "(\<And>r. r \<in> set ms \<Longrightarrow> am_id r = i \<Longrightarrow> am_resolved_session (f r) \<noteq> None) \<Longrightarrow> resolved (modify am_id i f ms) i"
  unfolding resolved_def modify_def by (auto split: if_splits)

lemma unresolved_write:
  "(\<And>r. r \<in> set ms \<Longrightarrow> am_id r = i \<Longrightarrow> am_resolved_session (f r) = None) \<Longrightarrow> unresolved (modify am_id i f ms) i"
  unfolding unresolved_def modify_def by (auto split: if_splits)

lemma worker_claim_row:
  assumes "delivery_ok st" "worker_phase_of w st = Some ph" "worker_claim \<lparr>wk_id = w, wk_phase = ph\<rparr> = [m]"
  shows "\<exists>k \<in> set (ms_workers st). wk_phase k = ph \<and> worker_claim k = [m] \<and> worker_ok (ms_messages st) (ms_created st) k"
proof -
  obtain as k bs where k: "ms_workers st = as @ k # bs" "wk_phase k = ph" using worker_split [OF assms(1,2)] by metis
  then have "k \<in> set (ms_workers st)" "worker_claim k = [m]" using assms(3) by (auto simp: worker_claim_def)
  then show ?thesis using k(2) assms(1) by (auto simp: delivery_ok_def holders_ok_def)
qed

lemma deliver_record_ok:
  assumes ok: "delivery_ok st"
  shows "delivery_ok (deliver_record w db_ok st)"
proof (cases "\<exists>m sid. worker_phase_of w st = Some (WorkerCreated m sid)")
  case False
  then show ?thesis using ok by (auto simp: deliver_record_def split: option.splits worker_phase.splits)
next
  case True
  then obtain m sid where ph: "worker_phase_of w st = Some (WorkerCreated m sid)" by blast
  let ?f = "\<lambda>r. r\<lparr>am_resolved_session := Some sid\<rparr>"
  have c: "worker_claim \<lparr>wk_id = w, wk_phase = WorkerCreated m sid\<rparr> = [m]" by (simp add: worker_claim_def)
  obtain k where k: "k \<in> set (ms_workers st)" "worker_claim k = [m]" "wk_phase k = WorkerCreated m sid"
    "worker_ok (ms_messages st) (ms_created st) k" using worker_claim_row [OF ok ph c] by blast
  have sid: "(am_id m, sid) \<in> set (ms_created st)" using k(3,4) by (simp add: worker_ok_def)
  have row: "row_ok (ms_created st) (ms_injected st) (?f r)" if "r \<in> set (ms_messages st)" "claim_row m r" for r
    using that sid worker_row(2) [OF ok k(1,2) that(1)] by (auto simp: row_ok_def claim_row_def owned_def)
  have "resolved (modify am_id (am_id m) (\<lambda>r. if owned m r then ?f r else r) (ms_messages st)) (am_id m)"
    using worker_row(1) [OF ok k(1,2)] by (auto simp: claim_row_def intro!: resolved_write)
  then have "delivery_ok (set_worker w (WorkerRecorded m) (write_owned m ?f st))"
    using worker_writes(2) [OF ok ph c, of ?f "WorkerRecorded m"] row
    by (simp add: worker_ok_def worker_claim_def claim_row_def owned_def)
  then show ?thesis using ph ok end_worker_ok by (simp add: deliver_record_def)
qed

end
