(* ===== verification/Agent_Delivery_Steps.thy ===== *)
theory Agent_Delivery_Steps
  imports Agent_Delivery
begin

text \<open>
  Every step of the delivery of agent messages keeps \<open>delivery_ok\<close>.
\<close>

section \<open>Workers\<close>

lemma deliver_mark_ok:
  assumes ok: "delivery_ok st"
  shows "delivery_ok (deliver_mark w db_ok st)"
proof (cases "\<exists>m. worker_phase_of w st = Some (WorkerRecorded m)")
  case False
  then show ?thesis using ok by (auto simp: deliver_mark_def split: option.splits worker_phase.splits)
next
  case True
  then obtain m where ph: "worker_phase_of w st = Some (WorkerRecorded m)" by blast
  let ?f = "\<lambda>r. r\<lparr>am_status := MsgDelivered, am_delivered_at := Some (ms_clock (tick st))\<rparr>"
  have c: "worker_claim \<lparr>wk_id = w, wk_phase = WorkerRecorded m\<rparr> = [m]" by (simp add: worker_claim_def)
  obtain k where k: "k \<in> set (ms_workers st)" "worker_claim k = [m]" "wk_phase k = WorkerRecorded m"
    "worker_ok (ms_messages st) (ms_created st) k" using worker_claim_row [OF ok ph c] by blast
  have res: "resolved (ms_messages st) (am_id m)" using k(3,4) by (simp add: worker_ok_def)
  have row: "row_ok (ms_created st) (ms_injected st) (?f r)" if "r \<in> set (ms_messages st)" "claim_row m r" for r
    using that res worker_row(2) [OF ok k(1,2) that(1)] by (auto simp: row_ok_def claim_row_def resolved_def)
  have "delivery_ok (end_worker w (write_owned m ?f st))"
    using worker_writes(1) [OF ok ph c, of ?f] row by simp
  then show ?thesis using ph ok end_worker_ok by (simp add: deliver_mark_def)
qed

lemma deliver_release_ok:
  assumes ok: "delivery_ok st"
  shows "delivery_ok (deliver_release w db_ok st)"
proof (cases "\<exists>m e. worker_phase_of w st = Some (WorkerFailed m e)")
  case False
  then show ?thesis using ok by (auto simp: deliver_release_def split: option.splits worker_phase.splits)
next
  case True
  then obtain m e where ph: "worker_phase_of w st = Some (WorkerFailed m e)" by blast
  have c: "worker_claim \<lparr>wk_id = w, wk_phase = WorkerFailed m e\<rparr> = [m]" by (simp add: worker_claim_def)
  obtain k where k: "k \<in> set (ms_workers st)" "worker_claim k = [m]" "wk_phase k = WorkerFailed m e"
    "worker_ok (ms_messages st) (ms_created st) k" using worker_claim_row [OF ok ph c] by blast
  have res: "unresolved (ms_messages st) (am_id m)" using k(3,4) by (simp add: worker_ok_def)
  have row: "row_ok (ms_created st) (ms_injected st) (released_row e r)" if "r \<in> set (ms_messages st)" "claim_row m r" for r
    using that res worker_row(2) [OF ok k(1,2) that(1)]
    by (auto simp: row_ok_def claim_row_def unresolved_def released_row_def)
  have "delivery_ok (end_worker w (write_owned m (released_row e) st))"
    using worker_writes(1) [OF ok ph c, of "released_row e"] row by (simp add: released_row_def)
  moreover have "delivery_ok (set_worker w (WorkerReleased m) (write_owned m (released_row e) st))"
    using worker_writes(2) [OF ok ph c, of "released_row e" "WorkerReleased m"] row
    by (simp add: released_row_def worker_ok_def worker_claim_def)
  ultimately show ?thesis using ph ok end_worker_ok by (simp add: deliver_release_def Let_def)
qed

text \<open>Pushing to the dispatch list, and the fields the invariant does not see.\<close>

lemma delivery_ok_cong:
  assumes "delivery_ok st" "ms_messages st' = ms_messages st" "ms_created st' = ms_created st" "ms_injected st' = ms_injected st"
    "ms_workers st' = ms_workers st" "ms_drains st' = ms_drains st" "ms_inbox st' = ms_inbox st" "ms_next st' = ms_next st"
  shows "delivery_ok st'"
  using assms by (simp add: delivery_ok_def holders_ok_def claims_def)

lemma push_dispatch_ok: "delivery_ok st \<Longrightarrow> delivery_ok (push_message None i st)"
  by (erule delivery_ok_cong) (simp_all add: push_message_def)

lemma deliver_requeue_ok: "delivery_ok st \<Longrightarrow> delivery_ok (deliver_requeue w redis_ok st)"
  using end_worker_ok push_dispatch_ok by (auto simp: deliver_requeue_def split: option.splits worker_phase.splits)

lemma push_inbox_ok:
  assumes "delivery_ok st" "inbox_id (ms_messages st) s i"
  shows "delivery_ok (push_message (Some s) i st)"
  using assms by (auto simp: delivery_ok_def holders_ok_def claims_def push_message_def)

text \<open>A worker that holds the same claim in another phase.\<close>

lemma set_worker_same:
  assumes "delivery_ok st" "worker_phase_of w st = Some ph"
    "worker_claim \<lparr>wk_id = w, wk_phase = ph'\<rparr> = worker_claim \<lparr>wk_id = w, wk_phase = ph\<rparr>"
    "worker_ok (ms_messages st) (ms_created st) \<lparr>wk_id = w, wk_phase = ph'\<rparr>"
  shows "delivery_ok (set_worker w ph' st)"
proof -
  obtain as k bs where k: "ms_workers st = as @ k # bs" "wk_id k = w" "wk_phase k = ph"
    "\<forall>g. modify wk_id w g (ms_workers st) = as @ g k # bs" "filter (\<lambda>k. wk_id k \<noteq> w) (ms_workers st) = as @ bs"
    using assms(1,2) by (rule worker_split)
  have w: "ms_workers (set_worker w ph' st) = as @ k\<lparr>wk_phase := ph'\<rparr> # bs" using k(4) by (simp add: set_worker_def)
  have "worker_claim (k\<lparr>wk_phase := ph'\<rparr>) = worker_claim k" using assms(3) k(3) by (simp add: worker_claim_def)
  then have "claims (set_worker w ph' st) = claims st"
    unfolding claims_def w k(1) by (simp add: set_worker_def)
  moreover have "worker_ok (ms_messages st) (ms_created st) (k\<lparr>wk_phase := ph'\<rparr>)"
    using assms(4) by (simp add: worker_ok_def)
  moreover have "set (ms_workers (set_worker w ph' st)) = insert (k\<lparr>wk_phase := ph'\<rparr>) (set as \<union> set bs)"
    "set (ms_workers st) = insert k (set as \<union> set bs)" "map wk_id (ms_workers (set_worker w ph' st)) = map wk_id (ms_workers st)"
    unfolding w k(1) by auto
  ultimately show ?thesis using assms(1) k(2) unfolding delivery_ok_def holders_ok_def by (auto simp: set_worker_def)
qed


text \<open>A session is created for a message: one more entry in the books, paid by the attempt.\<close>

lemma created_session_ok:
  assumes ok: "delivery_ok st" and ph: "worker_phase_of w st = Some (WorkerClaimed m)"
  shows "delivery_ok (set_worker w (WorkerCreated m sid) (st\<lparr>ms_created := ms_created st @ [(am_id m, sid)], ms_sessions := rows\<rparr>))"
    (is "delivery_ok ?st'")
proof -
  let ?cr = "ms_created st @ [(am_id m, sid)]"
  obtain as k bs where k: "ms_workers st = as @ k # bs" "wk_id k = w" "wk_phase k = WorkerClaimed m"
    "\<forall>g. modify wk_id w g (ms_workers st) = as @ g k # bs" "filter (\<lambda>k. wk_id k \<noteq> w) (ms_workers st) = as @ bs"
    using ok ph by (rule worker_split)
  let ?k = "k\<lparr>wk_phase := WorkerCreated m sid\<rparr>"
  have c: "worker_claim k = [m]" "worker_claim ?k = [m]" using k(3) by (simp_all add: worker_claim_def)
  have mem: "k \<in> set (ms_workers st)" using k(1) by simp
  have w: "ms_workers ?st' = as @ ?k # bs" using k(4) by (simp add: set_worker_def)
  have cl: "claims ?st' = claims st" unfolding claims_def w k(1) using c by (simp add: set_worker_def)
  have kok: "created_for (am_id m) (ms_created st) < am_attempts m" "unresolved (ms_messages st) (am_id m)"
    using ok mem k(3) by (auto simp: delivery_ok_def holders_ok_def worker_ok_def)
  have "row_ok ?cr (ms_injected st) r" if r: "r \<in> set (ms_messages st)" for r
  proof (cases "am_id r = am_id m")
    case True
    then have "claim_row m r" "row_ok (ms_created st) (ms_injected st) r" using worker_row [OF ok mem c(1) r] by auto
    then show ?thesis using kok(1) True
      by (auto simp: row_ok_def claim_row_def created_for_def count_rows_def)
  next
    case False
    have "row_ok (ms_created st) (ms_injected st) r" using ok r by (simp add: delivery_ok_def books_ok_def)
    then show ?thesis using False by (auto simp: row_ok_def created_for_def count_rows_def)
  qed
  moreover have "am_id m \<in> am_id ` set (ms_messages st)"
  proof -
    have "m \<in> set (claims st)" using mem c(1) by (auto simp: claims_def intro!: bexI [of _ k])
    then obtain r where "r \<in> set (ms_messages st)" "claim_row m r" using ok unfolding delivery_ok_def books_ok_def by blast
    then show ?thesis by (metis claim_row_def imageI)
  qed
  ultimately have books: "books_ok (ms_messages st) (claims ?st') ?cr (ms_injected st)"
    using ok unfolding cl delivery_ok_def books_ok_def by simp
  have "worker_ok (ms_messages st) ?cr k'" if "k' \<in> set as \<union> set bs" for k'
    using worker_ok_created [of "ms_messages st" "ms_created st" k' "am_id m" sid] other_claims(1) [OF ok k(1) c(1) that] ok that k(1)
    unfolding delivery_ok_def holders_ok_def by auto
  moreover have "worker_ok (ms_messages st) ?cr ?k" using kok(2) by (simp add: worker_ok_def)
  moreover have "set (ms_workers ?st') = insert ?k (set as \<union> set bs)" "set (ms_workers st) = insert k (set as \<union> set bs)"
    "map wk_id (ms_workers ?st') = map wk_id (ms_workers st)" unfolding w k(1) by auto
  ultimately have "holders_ok ?st'" using ok unfolding delivery_ok_def holders_ok_def by (auto simp: set_worker_def)
  then show ?thesis using books by (simp add: delivery_ok_def set_worker_def)
qed

lemma failed_worker_ok:
  assumes ok: "delivery_ok st" and ph: "worker_phase_of w st = Some (WorkerClaimed m)"
  shows "delivery_ok (set_worker w (WorkerFailed m e) st)"
proof -
  have c: "worker_claim \<lparr>wk_id = w, wk_phase = WorkerClaimed m\<rparr> = [m]" by (simp add: worker_claim_def)
  obtain k where "wk_phase k = WorkerClaimed m" "worker_ok (ms_messages st) (ms_created st) k"
    using worker_claim_row [OF ok ph c] by blast
  then show ?thesis using set_worker_same [OF ok ph] by (simp add: worker_ok_def worker_claim_def)
qed

lemma deliver_create_ok:
  assumes ok: "delivery_ok st"
  shows "delivery_ok (deliver_create w create st)"
proof (cases "\<exists>m. worker_phase_of w st = Some (WorkerClaimed m)")
  case False
  then show ?thesis using ok by (auto simp: deliver_create_def split: option.splits worker_phase.splits)
next
  case True
  then obtain m where ph: "worker_phase_of w st = Some (WorkerClaimed m)" by blast
  then show ?thesis
    using failed_worker_ok [OF ok ph] created_session_ok [OF ok ph]
    by (simp add: deliver_create_def split: option.split sum.split)
qed


section \<open>Claims\<close>

lemma claim_message_frame:
  assumes "claim_message u st = (res, st1)"
  shows "ms_workers st1 = ms_workers st" "ms_drains st1 = ms_drains st" "ms_created st1 = ms_created st"
    "ms_injected st1 = ms_injected st" "ms_inbox st1 = ms_inbox st" "ms_next st1 = ms_next st"
    "res = None \<Longrightarrow> ms_messages st1 = ms_messages st"
  using assms by (auto simp: claim_message_def tick_def write_message_def Let_def split: option.splits)

lemma claim_message_Some:
  assumes "claim_message u st = (Some m, st1)"
  obtains r where "r \<in> set (ms_messages st)" "am_id r = u" "am_status r = MsgQueued" "am_attempts r < am_max_attempts r"
    "m = claimed_row (ms_clock st + 1) r"
    "ms_messages st1 = modify am_id u (claimed_row (ms_clock st + 1)) (ms_messages st)"
  using assms by (auto simp: claim_message_def tick_def write_message_def Let_def split: option.splits dest: get_row_Some)

lemma claimed_row_simps [simp]:
  "am_id (claimed_row now r) = am_id r" "am_to_session (claimed_row now r) = am_to_session r"
  "am_resolved_session (claimed_row now r) = am_resolved_session r"
  "am_attempts (claimed_row now r) = Suc (am_attempts r)" "am_status (claimed_row now r) = MsgDelivering"
  "am_max_attempts (claimed_row now r) = am_max_attempts r"
  by (simp_all add: claimed_row_def)

text \<open>What a claim gives its holder.\<close>

lemma claim_taken:
  assumes ok: "delivery_ok st" and c: "claim_message u st = (Some m, st1)"
  shows "claims st = A @ B \<Longrightarrow> books_ok (ms_messages st1) (A @ m # B) (ms_created st) (ms_injected st)"
    "created_for (am_id m) (ms_created st) < am_attempts m" "unresolved (ms_messages st1) (am_id m)"
    "holders_ok st1" "am_id m = u"
proof -
  obtain r where r: "r \<in> set (ms_messages st)" "am_id r = u" "am_status r = MsgQueued" "am_attempts r < am_max_attempts r"
    "m = claimed_row (ms_clock st + 1) r"
    "ms_messages st1 = modify am_id u (claimed_row (ms_clock st + 1)) (ms_messages st)"
    using c by (rule claim_message_Some)
  have row: "row_ok (ms_created st) (ms_injected st) r" using ok r(1) by (simp add: delivery_ok_def books_ok_def)
  have books: "books_ok (ms_messages st) (claims st) (ms_created st) (ms_injected st)" using ok by (simp add: delivery_ok_def)
  have own: "q = r" if "q \<in> set (ms_messages st)" "am_id q = u" for q
    using books that r(1,2) distinct_key_unique [of am_id "ms_messages st" q r] by (simp add: books_ok_def)
  show "books_ok (ms_messages st1) (A @ m # B) (ms_created st) (ms_injected st)" if "claims st = A @ B"
    using books_claim [OF books r(1,3,4) that] r(2,5,6) by simp
  show "created_for (am_id m) (ms_created st) < am_attempts m" using row r(5) by (auto simp: row_ok_def)
  show m: "am_id m = u" using r(2,5) by simp
  show "unresolved (ms_messages st1) (am_id m)"
    unfolding r(6) m using own row r(3) by (intro unresolved_write) (auto simp: row_ok_def)
  have free: "am_id m' \<noteq> u" if m': "m' \<in> set (claims st)" for m'
  proof
    assume "am_id m' = u"
    then have "claim_row m' r" using claim_row_unique [OF books m' r(1)] r(2) by simp
    then show False using r(3) by (simp add: claim_row_def owned_def)
  qed
  note fr = claim_message_frame [OF c]
  have h: "holders_ok st" using ok by (simp add: delivery_ok_def)
  have "worker_ok (ms_messages st1) (ms_created st) k" if k: "k \<in> set (ms_workers st)" for k
  proof -
    have "am_id m' \<noteq> u" if "m' \<in> set (worker_claim k)" for m' using free that k by (auto simp: claims_def)
    then show ?thesis using h k unfolding r(6) by (intro worker_ok_other) (auto simp: holders_ok_def)
  qed
  moreover have "inbox_drain_ok (ms_messages st1) d" if d: "d \<in> set (ms_drains st)" for d
  proof -
    have "am_id m' \<noteq> u" if "m' \<in> set (drain_claims d)" for m' using free that d by (auto simp: claims_def)
    then show ?thesis using h d unfolding r(6) by (intro inbox_drain_ok_other) (auto simp: holders_ok_def)
  qed
  moreover have "inbox_id (ms_messages st1) s i" if "i \<in> set (ms_inbox st s)" for s i
    using h that unfolding r(6) by (intro inbox_id_write) (auto simp: holders_ok_def)
  ultimately show "holders_ok st1" using h fr by (simp add: holders_ok_def)
qed

lemma claim_lost_ok:
  assumes ok: "delivery_ok st" and c: "claim_message u st = (None, st1)"
  shows "delivery_ok st1"
  using claim_message_frame [OF c] by (intro delivery_ok_cong [OF ok]) auto

lemma set_worker_holders:
  assumes "holders_ok st" "worker_ok (ms_messages st) (ms_created st) \<lparr>wk_id = w, wk_phase = ph\<rparr>"
  shows "holders_ok (set_worker w ph st)"
proof -
  have "map wk_id (ms_workers (set_worker w ph st)) = map wk_id (ms_workers st)"
    by (simp add: set_worker_def modify_keys)
  moreover have "wk_id k < ms_next st \<and> worker_ok (ms_messages st) (ms_created st) k"
    if "k \<in> set (ms_workers (set_worker w ph st))" for k
    using that assms unfolding holders_ok_def set_worker_def by (auto simp: in_modify_iff worker_ok_def)
  ultimately show ?thesis using assms(1) by (simp add: holders_ok_def set_worker_def)
qed

lemma set_drain_holders:
  assumes "holders_ok st" "\<And>d. d \<in> set (ms_drains st) \<Longrightarrow> ib_id d = b \<Longrightarrow> inbox_drain_ok (ms_messages st) (d\<lparr>ib_phase := ph\<rparr>)"
  shows "holders_ok (set_drain b ph st)"
proof -
  have "map ib_id (ms_drains (set_drain b ph st)) = map ib_id (ms_drains st)"
    by (simp add: set_drain_def modify_keys)
  moreover have "ib_id d < ms_next st \<and> inbox_drain_ok (ms_messages st) d"
    if "d \<in> set (ms_drains (set_drain b ph st))" for d
    using that assms unfolding holders_ok_def set_drain_def by (auto simp: in_modify_iff)
  ultimately show ?thesis using assms(1) by (simp add: holders_ok_def set_drain_def)
qed

lemma deliver_claim_ok:
  assumes ok: "delivery_ok st"
  shows "delivery_ok (deliver_claim w db_ok st)"
proof (cases "\<exists>i u. worker_phase_of w st = Some (WorkerPopped i) \<and> parse_uuid i = Inr u")
  case False
  then show ?thesis using ok end_worker_ok by (auto simp: deliver_claim_def split: option.splits worker_phase.splits sum.splits)
next
  case True
  then obtain i u where ph: "worker_phase_of w st = Some (WorkerPopped i)" and i: "parse_uuid i = Inr u" by blast
  obtain res st1 where c: "claim_message u st = (res, st1)" by fastforce
  have lost: "delivery_ok (end_worker w st1)" if "res = None"
    using claim_lost_ok [OF ok] c that end_worker_ok by simp
  have got: "delivery_ok (set_worker w (WorkerClaimed m) st1)" if m: "res = Some m" for m
  proof -
    note t = claim_taken [OF ok c [unfolded m]]
    note fr = claim_message_frame [OF c]
    obtain as k bs where k: "ms_workers st = as @ k # bs" "wk_id k = w" "wk_phase k = WorkerPopped i"
      "\<forall>g. modify wk_id w g (ms_workers st) = as @ g k # bs" "filter (\<lambda>k. wk_id k \<noteq> w) (ms_workers st) = as @ bs"
      using ok ph by (rule worker_split)
    let ?B = "concat (map worker_claim bs) @ concat (map drain_claims (ms_drains st))"
    have "claims st = concat (map worker_claim as) @ ?B" using k(1,3) by (simp add: claims_def worker_claim_def)
    then have "books_ok (ms_messages st1) (concat (map worker_claim as) @ m # ?B) (ms_created st) (ms_injected st)" by (rule t(1))
    moreover have "claims (set_worker w (WorkerClaimed m) st1) = concat (map worker_claim as) @ m # ?B"
      using k(4) by (simp add: claims_def set_worker_def fr(1,2) worker_claim_def)
    moreover have "holders_ok (set_worker w (WorkerClaimed m) st1)"
      using t(2,3,4) by (intro set_worker_holders) (simp_all add: worker_ok_def fr(3))
    ultimately show ?thesis by (simp add: delivery_ok_def set_worker_def fr(3,4))
  qed
  show ?thesis using ph i c lost got ok end_worker_ok [OF ok] by (simp add: deliver_claim_def split: option.split)
qed


section \<open>Drains\<close>

lemma set_drain_same:
  assumes ok: "delivery_ok st" and d: "drain_of b st = Some d"
    and ph: "drain_claims (d\<lparr>ib_phase := ph\<rparr>) = drain_claims d" "inbox_drain_ok (ms_messages st) (d\<lparr>ib_phase := ph\<rparr>)"
  shows "delivery_ok (set_drain b ph st)"
proof -
  obtain as bs where s: "ms_drains st = as @ d # bs" "ib_id d = b" "\<forall>g. modify ib_id b g (ms_drains st) = as @ g d # bs"
    "filter (\<lambda>d. ib_id d \<noteq> b) (ms_drains st) = as @ bs"
    using ok d by (rule drain_split)
  have w: "ms_drains (set_drain b ph st) = as @ d\<lparr>ib_phase := ph\<rparr> # bs" using s(3) by (simp add: set_drain_def)
  have "claims (set_drain b ph st) = claims st" unfolding claims_def w s(1) using ph(1) by (simp add: set_drain_def)
  moreover have "distinct (map ib_id (as @ d # bs))" using ok s(1) by (simp add: delivery_ok_def holders_ok_def)
  then have "e = d" if "e \<in> set (ms_drains st)" "ib_id e = b" for e
    using that s(1,2) distinct_key_unique [of ib_id "as @ d # bs" e d] by simp
  then have "holders_ok (set_drain b ph st)"
    using ok ph(2) by (intro set_drain_holders) (auto simp: delivery_ok_def)
  ultimately show ?thesis using ok by (simp add: delivery_ok_def set_drain_def)
qed

text \<open>A drain writes the row of its claim and goes on.\<close>

lemma other_drain_claims:
  assumes "delivery_ok st" "ms_drains st = as @ d # bs" "drain_claims d = [m]"
  shows "\<And>k m'. k \<in> set (ms_workers st) \<Longrightarrow> m' \<in> set (worker_claim k) \<Longrightarrow> am_id m' \<noteq> am_id m"
    "\<And>e m'. e \<in> set as \<union> set bs \<Longrightarrow> m' \<in> set (drain_claims e) \<Longrightarrow> am_id m' \<noteq> am_id m"
proof -
  have "distinct (map am_id (claims st))" using assms(1) by (simp add: delivery_ok_def books_ok_def)
  then have d: "am_id m \<notin> am_id ` (set (concat (map worker_claim (ms_workers st))) \<union> set (concat (map drain_claims as)) \<union>
      set (concat (map drain_claims bs)))"
    using assms(2,3) unfolding claims_def by auto
  show "am_id m' \<noteq> am_id m" if "k \<in> set (ms_workers st)" "m' \<in> set (worker_claim k)" for k m'
  proof
    assume "am_id m' = am_id m"
    moreover have "m' \<in> set (concat (map worker_claim (ms_workers st)))" using that by auto
    ultimately show False using d by (metis UnI1 imageI)
  qed
  show "am_id m' \<noteq> am_id m" if "e \<in> set as \<union> set bs" "m' \<in> set (drain_claims e)" for e m'
  proof
    assume "am_id m' = am_id m"
    moreover have "m' \<in> set (concat (map drain_claims as)) \<union> set (concat (map drain_claims bs))" using that by auto
    ultimately show False using d by (metis Un_iff imageI)
  qed
qed

lemma drain_write:
  assumes ok: "delivery_ok st" and d: "drain_of b st = Some d" and m: "ib_phase d = DrainClaimed m"
    and st': "ms_messages st' = modify am_id (am_id m) f (ms_messages st)" "ms_created st' = ms_created st"
      "set (ms_injected st) \<subseteq> set (ms_injected st')" "ms_workers st' = ms_workers st" "ms_drains st' = ms_drains st"
      "ms_inbox st' = ms_inbox st" "ms_next st' = ms_next st"
    and f: "\<And>r. am_id (f r) = am_id r" "\<And>r. am_to_session (f r) = am_to_session r"
      "\<And>r. r \<in> set (ms_messages st) \<Longrightarrow> claim_row m r \<Longrightarrow> row_ok (ms_created st) (ms_injected st') (f r)"
  shows "delivery_ok (set_drain b DrainIdle st')"
proof -
  obtain as bs where s: "ms_drains st = as @ d # bs" "ib_id d = b" "\<forall>g. modify ib_id b g (ms_drains st) = as @ g d # bs"
    "filter (\<lambda>d. ib_id d \<noteq> b) (ms_drains st) = as @ bs"
    using ok d by (rule drain_split)
  have c: "drain_claims d = [m]" using m by (simp add: drain_claims_def)
  let ?A = "concat (map worker_claim (ms_workers st)) @ concat (map drain_claims as)"
  let ?B = "concat (map drain_claims bs)"
  let ?d = "d\<lparr>ib_phase := DrainIdle\<rparr>"
  have h: "holders_ok st" using ok by (simp add: delivery_ok_def)
  have w: "ms_drains (set_drain b DrainIdle st') = as @ ?d # bs" using s(3) st'(5) by (simp add: set_drain_def)
  have "claims st = ?A @ m # ?B" using s(1) c by (simp add: claims_def)
  then have books: "books_ok (ms_messages st) (?A @ m # ?B) (ms_created st) (ms_injected st)"
    using ok by (simp add: delivery_ok_def)
  have "books_ok (ms_messages st') (?A @ ?B) (ms_created st) (ms_injected st')"
    unfolding st'(1) using books f(3,1) st'(3) by (rule books_write)
  moreover have "claims (set_drain b DrainIdle st') = ?A @ ?B"
    unfolding claims_def w by (simp add: set_drain_def st'(4) drain_claims_def)
  moreover have "holders_ok (set_drain b DrainIdle st')"
  proof -
    have "wk_id k < ms_next st \<and> worker_ok (ms_messages st') (ms_created st) k" if k: "k \<in> set (ms_workers st)" for k
      using h k worker_ok_other [OF _ other_drain_claims(1) [OF ok s(1) c k] f(1)] unfolding st'(1) holders_ok_def by blast
    moreover have "ib_id e < ms_next st \<and> inbox_drain_ok (ms_messages st') e" if e: "e \<in> set (as @ ?d # bs)" for e
    proof (cases "e = ?d")
      case True
      then show ?thesis using h s(1) by (auto simp: holders_ok_def inbox_drain_ok_def)
    next
      case False
      then have "e \<in> set as \<union> set bs" using e by auto
      then show ?thesis
        using h s(1) inbox_drain_ok_other [OF _ other_drain_claims(2) [OF ok s(1) c] f(1,2)] unfolding st'(1) holders_ok_def by auto
    qed
    moreover have "inbox_id (ms_messages st') t i" if "i \<in> set (ms_inbox st t)" for t i
      using inbox_id_write [OF _ f(1,2)] h that unfolding st'(1) holders_ok_def by blast
    moreover have "map ib_id (as @ ?d # bs) = map ib_id (ms_drains st)" unfolding s(1) by simp
    ultimately show ?thesis using h unfolding holders_ok_def w by (simp add: set_drain_def st')
  qed
  ultimately show ?thesis by (simp add: delivery_ok_def set_drain_def st'(2))
qed


lemma end_after_set [simp]: "end_drain b (set_drain b ph st) = end_drain b st"
  by (simp add: end_drain_def set_drain_def filter_modify)

lemma drain_pop_ok:
  assumes ok: "delivery_ok st"
  shows "delivery_ok (drain_pop b redis_ok st)"
proof (cases "redis_ok \<and> (\<exists>d i rest. drain_of b st = Some d \<and> ib_phase d = DrainIdle \<and> ms_inbox st (ib_session d) = i # rest)")
  case False
  then show ?thesis using ok end_drain_ok by (auto simp: drain_pop_def split: option.split list.split)
next
  case True
  then obtain d i rest where d: "drain_of b st = Some d" "ib_phase d = DrainIdle" "ms_inbox st (ib_session d) = i # rest" and redis_ok by blast
  let ?st = "st\<lparr>ms_inbox := (ms_inbox st)(ib_session d := rest)\<rparr>"
  have "delivery_ok ?st" using ok d(3) by (auto simp: delivery_ok_def holders_ok_def claims_def)
  moreover have "inbox_id (ms_messages st) (ib_session d) i" using ok d(3) by (simp add: delivery_ok_def holders_ok_def)
  moreover have "drain_of b ?st = Some d" using d(1) by (simp add: drain_of_def)
  ultimately have "delivery_ok (set_drain b (DrainPopped i) ?st)"
    using d(2) by (intro set_drain_same) (simp_all add: drain_claims_def inbox_drain_ok_def)
  then show ?thesis using d \<open>redis_ok\<close> by (simp add: drain_pop_def)
qed

lemma drain_of_frame: "ms_drains st' = ms_drains st \<Longrightarrow> drain_of b st' = drain_of b st"
  by (simp add: drain_of_def)

lemma idle_drain_ok:
  assumes "delivery_ok st" "drain_of b st = Some d" "drain_claims d = []"
  shows "delivery_ok (set_drain b DrainIdle st)"
proof -
  have "drain_claims (d\<lparr>ib_phase := DrainIdle\<rparr>) = []" by (simp add: drain_claims_def)
  moreover have "inbox_drain_ok (ms_messages st) (d\<lparr>ib_phase := DrainIdle\<rparr>)" by (simp add: inbox_drain_ok_def)
  ultimately show ?thesis using set_drain_same [OF assms(1,2)] assms(3) by metis
qed

text \<open>A drain that gives its claim up and goes on.\<close>

lemma drop_drain_ok:
  assumes ok: "delivery_ok st" and d: "drain_of b st = Some d"
  shows "delivery_ok (set_drain b DrainIdle st)"
proof -
  obtain as bs where s: "ms_drains st = as @ d # bs" "ib_id d = b" "\<forall>g. modify ib_id b g (ms_drains st) = as @ g d # bs"
    "filter (\<lambda>d. ib_id d \<noteq> b) (ms_drains st) = as @ bs"
    using ok d by (rule drain_split)
  let ?w = "concat (map worker_claim (ms_workers st)) @ concat (map drain_claims as)"
  have "claims (set_drain b DrainIdle st) = ?w @ concat (map drain_claims bs)"
    using s(3) by (simp add: claims_def set_drain_def drain_claims_def)
  moreover have "claims st = ?w @ drain_claims d @ concat (map drain_claims bs)" using s(1) by (simp add: claims_def)
  ultimately have "books_ok (ms_messages st) (claims (set_drain b DrainIdle st)) (ms_created st) (ms_injected st)"
    using ok books_drop unfolding delivery_ok_def by metis
  moreover have "holders_ok (set_drain b DrainIdle st)"
    using ok by (intro set_drain_holders) (simp_all add: delivery_ok_def inbox_drain_ok_def)
  ultimately show ?thesis by (simp add: delivery_ok_def set_drain_def)
qed

text \<open>A message popped from the inbox of a session is addressed to that session.\<close>

lemma popped_not_misrouted:
  assumes ok: "delivery_ok st" and d: "drain_of b st = Some d" "ib_phase d = DrainPopped i"
    and c: "readable_id i = Some u" "claim_message u st = (Some m, st1)"
  shows "am_to_session m = Some (ib_session d)"
proof -
  have "d \<in> set (ms_drains st)" using d(1) by (auto simp: drain_of_def dest: get_row_Some)
  then have "inbox_id (ms_messages st) (ib_session d) i"
    using ok d(2) by (auto simp: delivery_ok_def holders_ok_def inbox_drain_ok_def)
  then obtain q where q: "q \<in> set (ms_messages st)" "i = str_uuid (am_id q)" "am_to_session q = Some (ib_session d)"
    by (auto simp: inbox_id_def)
  then have u: "am_id q = u" using c(1) by (simp add: readable_id_def)
  obtain r where r: "r \<in> set (ms_messages st)" "am_id r = u" "m = claimed_row (ms_clock st + 1) r"
    using c(2) by (rule claim_message_Some) blast
  have "distinct (map am_id (ms_messages st))" using ok by (simp add: delivery_ok_def books_ok_def)
  then have "r = q" using distinct_key_unique [of am_id "ms_messages st" r q] r(1,2) q(1) u by simp
  then show ?thesis using q(3) r(3) by simp
qed

lemma drain_claim_ok:
  assumes ok: "delivery_ok st"
  shows "delivery_ok (drain_claim b db_ok redis_ok rr st)"
proof (cases "\<exists>d i. drain_of b st = Some d \<and> ib_phase d = DrainPopped i")
  case False
  then show ?thesis using ok by (auto simp: drain_claim_def split: option.split drain_phase.split)
next
  case True
  then obtain d i where d: "drain_of b st = Some d" and ph: "ib_phase d = DrainPopped i" by blast
  have bare: "drain_claims d = []" using ph by (simp add: drain_claims_def)
  have mem: "d \<in> set (ms_drains st)" using d by (auto simp: drain_of_def dest: get_row_Some)
  then have i: "inbox_id (ms_messages st) (ib_session d) i"
    using ok ph by (auto simp: delivery_ok_def holders_ok_def inbox_drain_ok_def)
  have again: "delivery_ok (set_drain b DrainIdle (push_message (Some (ib_session d)) i st))" "delivery_ok (set_drain b DrainIdle st)"
    using push_inbox_ok [OF ok i] ok d bare by (intro idle_drain_ok; simp add: drain_of_def push_message_def)+
  show ?thesis
  proof (cases "if db_ok then readable_id i else None")
    case None
    then show ?thesis using again d ph by (simp add: drain_claim_def)
  next
    case (Some u)
    then have u: "readable_id i = Some u" by (simp split: if_splits)
    obtain res st1 where c: "claim_message u st = (res, st1)" by fastforce
    note fr = claim_message_frame [OF c]
    have d1: "drain_of b st1 = Some d" using d fr(2) by (simp add: drain_of_frame [of st1 st])
    have lost: "delivery_ok (set_drain b DrainIdle st1)" if "res = None"
      using claim_lost_ok [OF ok] c that d1 bare by (intro idle_drain_ok) auto
    have got: "delivery_ok (set_drain b (DrainClaimed m) st1) \<and> \<not> misrouted (ib_session d) m" if m: "res = Some m" for m
    proof -
      note t = claim_taken [OF ok c [unfolded m]]
      have to: "am_to_session m = Some (ib_session d)" by (rule popped_not_misrouted [OF ok d ph u c [unfolded m]])
      obtain as bs where s: "ms_drains st = as @ d # bs" "ib_id d = b" "\<forall>g. modify ib_id b g (ms_drains st) = as @ g d # bs"
        "filter (\<lambda>d. ib_id d \<noteq> b) (ms_drains st) = as @ bs"
        using ok d by (rule drain_split)
      let ?A = "concat (map worker_claim (ms_workers st)) @ concat (map drain_claims as)"
      have "claims st = ?A @ concat (map drain_claims bs)" using s(1) bare by (simp add: claims_def)
      then have "books_ok (ms_messages st1) (?A @ m # concat (map drain_claims bs)) (ms_created st) (ms_injected st)" by (rule t(1))
      moreover have "claims (set_drain b (DrainClaimed m) st1) = ?A @ m # concat (map drain_claims bs)"
        using s(3) by (simp add: claims_def set_drain_def fr(1,2) drain_claims_def)
      moreover have "e = d" if "e \<in> set (ms_drains st)" "ib_id e = b" for e
        using that s(2) ok mem distinct_key_unique [of ib_id "ms_drains st" e d] by (simp add: delivery_ok_def holders_ok_def)
      then have "holders_ok (set_drain b (DrainClaimed m) st1)"
        using t(3,4) to by (intro set_drain_holders) (auto simp: inbox_drain_ok_def fr(2))
      ultimately show ?thesis using to by (simp add: delivery_ok_def set_drain_def fr(3,4) misrouted_def)
    qed
    show ?thesis
    proof (cases res)
      case None
      then show ?thesis using Some d ph c lost by (simp add: drain_claim_def)
    next
      case m: (Some m)
      then show ?thesis using Some d ph c got [OF m] by (simp add: drain_claim_def)
    qed
  qed
qed


text \<open>The end of a delivery into a session.\<close>

lemma drain_row:
  assumes ok: "delivery_ok st" and d: "drain_of b st = Some d" "ib_phase d = DrainClaimed m"
    and r: "r \<in> set (ms_messages st)" "claim_row m r"
  shows "row_ok (ms_created st) (ms_injected st) r" "am_resolved_session r = None" "am_to_session m = Some (ib_session d)"
    "am_attempts r = am_attempts m" "am_max_attempts r = am_max_attempts m" "r \<in> set (ms_messages st) \<and> am_id r = am_id m"
proof -
  have "d \<in> set (ms_drains st)" using d(1) by (auto simp: drain_of_def dest: get_row_Some)
  then have "am_to_session m = Some (ib_session d)" "unresolved (ms_messages st) (am_id m)"
    using ok d(2) by (auto simp: delivery_ok_def holders_ok_def inbox_drain_ok_def)
  then show "am_to_session m = Some (ib_session d)" "am_resolved_session r = None"
    using r by (auto simp: unresolved_def claim_row_def)
  show "row_ok (ms_created st) (ms_injected st) r" using ok r(1) by (simp add: delivery_ok_def books_ok_def)
  show "am_attempts r = am_attempts m" "am_max_attempts r = am_max_attempts m" "r \<in> set (ms_messages st) \<and> am_id r = am_id m"
    using r by (auto simp: claim_row_def)
qed

lemma row_ok_injected: "row_ok cr ij r \<Longrightarrow> set ij \<subseteq> set ij' \<Longrightarrow> row_ok cr ij' r"
  by (auto simp: row_ok_def)

lemma inbox_reset_ok:
  assumes ok: "delivery_ok st" and d: "drain_of b st = Some d" "ib_phase d = DrainClaimed m"
    and st': "ms_messages st' = ms_messages st" "ms_created st' = ms_created st"
      "set (ms_injected st) \<subseteq> set (ms_injected st')" "ms_workers st' = ms_workers st" "ms_drains st' = ms_drains st"
      "ms_inbox st' = ms_inbox st" "ms_next st' = ms_next st"
  shows "delivery_ok (inbox_reset rr b (ib_session d) m e st')"
proof -
  let ?st1 = "write_message (am_id m) (released_row (take 1000 e)) (tick st')"
  have row: "row_ok (ms_created st) (ms_injected ?st1) (released_row (take 1000 e) r)"
    if "r \<in> set (ms_messages st)" "claim_row m r" for r
    using drain_row(1,2) [OF ok d that] row_ok_injected [OF _ st'(3)] that(2)
    by (auto simp: row_ok_def released_row_def write_message_def tick_def)
  have base: "delivery_ok (set_drain b DrainIdle ?st1)"
    by (rule drain_write [OF ok d, where f = "released_row (take 1000 e)"])
      (use st' row in \<open>simp_all add: write_message_def tick_def released_row_def\<close>)
  have "m \<in> set (claims st)"
    using d by (auto simp: claims_def drain_claims_def drain_of_def dest!: get_row_Some intro!: bexI [of _ d])
  then obtain r where r: "r \<in> set (ms_messages st)" "claim_row m r"
    using ok unfolding delivery_ok_def books_ok_def by blast
  then have "inbox_id (ms_messages st) (ib_session d) (str_uuid (am_id m))"
    using drain_row(3) [OF ok d r] unfolding inbox_id_def by (intro bexI [of _ r]) (simp_all add: claim_row_def)
  then have "inbox_id (ms_messages ?st1) (ib_session d) (str_uuid (am_id m))"
    by (simp add: write_message_def tick_def st'(1) inbox_id_write released_row_def)
  then have "delivery_ok (push_message (Some (ib_session d)) (str_uuid (am_id m)) (set_drain b DrainIdle ?st1))"
    by (intro push_inbox_ok base) (simp add: set_drain_def)
  moreover have "push_message s x (set_drain b DrainIdle st2) = set_drain b DrainIdle (push_message s x st2)" for s x st2
    by (simp add: push_message_def set_drain_def split: option.split)
  moreover have "delivery_ok (set_drain b DrainIdle st')"
  proof -
    have "delivery_ok st'"
    proof -
      have "claims st' = claims st" by (simp add: claims_def st'(4,5))
      then show ?thesis using ok st' row_ok_injected [OF _ st'(3)] by (simp add: delivery_ok_def holders_ok_def books_ok_def)
    qed
    have d': "drain_of b st' = Some d" using d(1) st'(5) by (simp add: drain_of_def)
    show ?thesis by (rule drop_drain_ok [OF \<open>delivery_ok st'\<close> d'])
  qed
  ultimately show ?thesis using base by (simp add: inbox_reset_def Let_def)
qed

lemma mark_injected_ok:
  assumes ok: "delivery_ok st" and d: "drain_of b st = Some d" "ib_phase d = DrainClaimed m"
    and st': "ms_messages st' = ms_messages st" "ms_created st' = ms_created st"
      "ms_injected st' = ms_injected st @ [(am_id m, ib_session d)]" "ms_workers st' = ms_workers st" "ms_drains st' = ms_drains st"
      "ms_inbox st' = ms_inbox st" "ms_next st' = ms_next st"
  shows "delivery_ok (set_drain b DrainIdle (mark_injected (ib_session d) m st'))"
proof -
  let ?f = "delivered_row (ib_session d) (ms_clock (tick st'))"
  have row: "row_ok (ms_created st) (ms_injected (mark_injected (ib_session d) m st')) (?f r)"
    if "r \<in> set (ms_messages st)" "claim_row m r" for r
    using drain_row(1,6) [OF ok d that] that(2) st'(3)
    by (auto simp: row_ok_def delivered_row_def mark_injected_def write_message_def tick_def)
  show ?thesis
    by (rule drain_write [OF ok d, where f = ?f])
      (use st' row in \<open>simp_all add: mark_injected_def write_message_def tick_def delivered_row_def subset_insertI\<close>)
qed

lemma drain_deliver_ok:
  assumes ok: "delivery_ok st"
  shows "delivery_ok (drain_deliver b outcome rr st)"
proof (cases "\<exists>d m. drain_of b st = Some d \<and> ib_phase d = DrainClaimed m")
  case False
  then show ?thesis using ok by (auto simp: drain_deliver_def split: option.split drain_phase.split)
next
  case True
  then obtain d m where d: "drain_of b st = Some d" "ib_phase d = DrainClaimed m" by blast
  let ?s = "ib_session d"
  have reset: "delivery_ok (inbox_reset rr b ?s m e st)" "delivery_ok (inbox_reset rr b ?s m e (put_into_session ?s m st))" for e
    by (rule inbox_reset_ok [OF ok d]; auto simp: put_into_session_def)+
  have mark: "delivery_ok (set_drain b DrainIdle (mark_injected ?s m (put_into_session ?s m st)))"
    by (rule mark_injected_ok [OF ok d]) (simp_all add: put_into_session_def)
  have "delivery_ok (set_drain b DrainIdle (mark_injected ?s m (put_into_session ?s m (reopen_session (Some ?s) st))))"
    by (rule mark_injected_ok [OF ok d]) (simp_all add: put_into_session_def reopen_session_def)
  from end_drain_ok [OF this, of b]
  have "delivery_ok (end_drain b (mark_injected ?s m (put_into_session ?s m (reopen_session (Some ?s) st))))" by simp
  then show ?thesis using d reset mark by (simp add: drain_deliver_def Let_def split: inbox_outcome.split)
qed


section \<open>Sending, listening, restarting\<close>

lemma listen_ok:
  assumes "delivery_ok st"
  shows "delivery_ok (listen_new_session_messages st)"
proof (cases "ms_dispatch st")
  case Nil
  then show ?thesis using assms by (simp add: listen_new_session_messages_def)
next
  case (Cons i rest)
  have "claims (listen_new_session_messages st) = claims st"
    using Cons by (simp add: listen_new_session_messages_def claims_def worker_claim_def)
  then show ?thesis using assms Cons
    by (auto simp: delivery_ok_def holders_ok_def listen_new_session_messages_def worker_ok_def less_Suc_eq)
qed

lemma begin_drain_ok:
  assumes "delivery_ok st"
  shows "delivery_ok (begin_drain s st)"
proof -
  have "claims (begin_drain s st) = claims st" by (simp add: begin_drain_def claims_def drain_claims_def)
  then show ?thesis using assms
    by (auto simp: delivery_ok_def holders_ok_def begin_drain_def inbox_drain_ok_def less_Suc_eq)
qed

text \<open>A new row.\<close>

lemma new_message_simps [simp]:
  "am_id (new_message i a b s t c) = i" "am_to_session (new_message i a b s t c) = t"
  "am_status (new_message i a b s t c) = MsgQueued" "am_attempts (new_message i a b s t c) = 0"
  "am_max_attempts (new_message i a b s t c) = 3" "am_resolved_session (new_message i a b s t c) = None"
  by (simp_all add: new_message_def)

lemma inbox_id_append: "inbox_id ms s i \<Longrightarrow> inbox_id (ms @ [q]) s i"
  by (auto simp: inbox_id_def)

lemma unresolved_append: "unresolved ms i \<Longrightarrow> am_resolved_session q = None \<Longrightarrow> unresolved (ms @ [q]) i"
  by (auto simp: unresolved_def)

lemma new_row_ok:
  assumes ok: "delivery_ok st" and q: "am_id q \<notin> am_id ` set (ms_messages st)" "am_status q = MsgQueued"
    "am_attempts q < am_max_attempts q" "am_resolved_session q = None"
    and st': "ms_messages st' = ms_messages st @ [q]" "ms_created st' = ms_created st" "ms_injected st' = ms_injected st"
    "ms_workers st' = ms_workers st" "ms_drains st' = ms_drains st" "ms_inbox st' = ms_inbox st" "ms_next st' = ms_next st"
  shows "delivery_ok st'"
proof -
  have cl: "claims st' = claims st" by (simp add: claims_def st'(4,5))
  have b: "books_ok (ms_messages st) (claims st) (ms_created st) (ms_injected st)" and h: "holders_ok st"
    using ok by (auto simp: delivery_ok_def)
  have "p \<notin> set (ms_created st)" if "fst p = am_id q" for p
    using b q(1) that unfolding books_ok_def by (metis image_subset_iff)
  then have "created_for (am_id q) (ms_created st) = 0" unfolding created_for_def count_rows_0 by metis
  then have "row_ok (ms_created st) (ms_injected st) q" using q(2-4) by (simp add: row_ok_def)
  then have "books_ok (ms_messages st') (claims st') (ms_created st') (ms_injected st')"
    using b q(1) unfolding cl st'(1-3) books_ok_def by auto
  moreover have "holders_ok st'"
  proof -
    have held: "am_id m \<noteq> am_id q" if m: "m \<in> set (claims st)" for m
    proof -
      obtain r where "r \<in> set (ms_messages st)" "claim_row m r" using b m unfolding books_ok_def by blast
      then show ?thesis using q(1) by (auto simp: claim_row_def image_iff)
    qed
    have "worker_ok (ms_messages st @ [q]) (ms_created st) k" if k: "k \<in> set (ms_workers st)" for k
    proof -
      have "am_id m \<noteq> am_id q" if "m \<in> set (worker_claim k)" for m using held that k by (auto simp: claims_def)
      moreover have "worker_ok (ms_messages st) (ms_created st) k" using h k by (simp add: holders_ok_def)
      ultimately show ?thesis
        by (auto simp: worker_ok_def worker_claim_def unresolved_def resolved_def split: worker_phase.splits)
    qed
    moreover have "inbox_drain_ok (ms_messages st @ [q]) d" if d: "d \<in> set (ms_drains st)" for d
    proof -
      have "inbox_drain_ok (ms_messages st) d" using h d by (simp add: holders_ok_def)
      then show ?thesis using q(4) inbox_id_append unresolved_append by (auto simp: inbox_drain_ok_def split: drain_phase.splits)
    qed
    ultimately show ?thesis using h inbox_id_append unfolding holders_ok_def st' by blast
  qed
  ultimately show ?thesis by (simp add: delivery_ok_def)
qed

lemma send_agent_message_ok:
  assumes ok: "delivery_ok st" and i: "i \<notin> am_id ` set (ms_messages st)"
  shows "delivery_ok (snd (send_agent_message config i redis_ok name content target header arg st))"
proof (cases "check_send config name content target header arg st")
  case (Inl e)
  then show ?thesis using ok by (simp add: send_agent_message_def)
next
  case (Inr v)
  obtain from_agent to_agent from_session to_session where v: "v = (from_agent, to_agent, from_session, to_session)"
    by (cases v)
  let ?q = "new_message i from_agent to_agent from_session to_session content"
  let ?st1 = "reopen_session to_session st"
  let ?st2 = "?st1\<lparr>ms_messages := ms_messages ?st1 @ [?q], ms_clock := ms_clock ?st1 + 1\<rparr>"
  have fr: "ms_messages ?st1 = ms_messages st" "ms_created ?st1 = ms_created st" "ms_injected ?st1 = ms_injected st"
    "ms_workers ?st1 = ms_workers st" "ms_drains ?st1 = ms_drains st" "ms_inbox ?st1 = ms_inbox st" "ms_next ?st1 = ms_next st"
    by (simp_all add: reopen_session_def split: option.split)
  have new: "delivery_ok ?st2" by (rule new_row_ok [OF ok, of ?q]) (use i fr in simp_all)
  have "delivery_ok (push_message to_session (str_uuid i) ?st2)"
  proof (cases to_session)
    case None
    then show ?thesis using push_dispatch_ok new by simp
  next
    case (Some s)
    then have "inbox_id (ms_messages ?st2) s (str_uuid i)" by (simp add: inbox_id_def)
    then show ?thesis using push_inbox_ok new Some by simp
  qed
  then show ?thesis using Inr v new by (simp add: send_agent_message_def Let_def)
qed

text \<open>Recovery: every row is rewritten, no claim is held.\<close>

lemma rows_rewritten_ok:
  assumes ok: "delivery_ok st" and none: "ms_workers st = []" "ms_drains st = []"
    and f: "\<And>r. am_id (f r) = am_id r" "\<And>r. am_to_session (f r) = am_to_session r"
      "\<And>r. row_ok (ms_created st) (ms_injected st) r \<Longrightarrow> row_ok (ms_created st) (ms_injected st) (f r)"
    and st': "ms_messages st' = map f (ms_messages st)" "ms_created st' = ms_created st" "ms_injected st' = ms_injected st"
      "ms_workers st' = []" "ms_drains st' = []" "ms_inbox st' = ms_inbox st"
  shows "delivery_ok st'"
proof -
  have keys: "map am_id (map f (ms_messages st)) = map am_id (ms_messages st)" using f(1) by simp
  have ids: "am_id ` set (map f (ms_messages st)) = am_id ` set (ms_messages st)" using keys by (metis list.set_map)
  have b: "books_ok (ms_messages st) [] (ms_created st) (ms_injected st)" and h: "holders_ok st"
    using ok none by (auto simp: delivery_ok_def claims_def)
  have "distinct (map am_id (map f (ms_messages st)))" unfolding keys using b by (simp add: books_ok_def)
  moreover have "row_ok (ms_created st) (ms_injected st) r" if "r \<in> set (map f (ms_messages st))" for r
    using that b f(3) by (auto simp: books_ok_def)
  ultimately have "books_ok (map f (ms_messages st)) [] (ms_created st) (ms_injected st)"
    using b ids unfolding books_ok_def by auto
  then have "books_ok (ms_messages st') (claims st') (ms_created st') (ms_injected st')"
    unfolding claims_def st' by simp
  moreover have "inbox_id (map f (ms_messages st)) s i" if m: "inbox_id (ms_messages st) s i" for s i
  proof -
    obtain r where "r \<in> set (ms_messages st)" "i = str_uuid (am_id r)" "am_to_session r = Some s"
      using m unfolding inbox_id_def by blast
    then have "f r \<in> set (map f (ms_messages st))" "i = str_uuid (am_id (f r))" "am_to_session (f r) = Some s" using f(1,2) by auto
    then show ?thesis unfolding inbox_id_def by blast
  qed
  then have "holders_ok st'" using h unfolding holders_ok_def st' by auto
  ultimately show ?thesis by (simp add: delivery_ok_def)
qed


lemma finalize_simps [simp]:
  "am_id (finalize_resolved now r) = am_id r" "am_to_session (finalize_resolved now r) = am_to_session r"
  "am_id (reset_stale now r) = am_id r" "am_to_session (reset_stale now r) = am_to_session r"
  by (simp_all add: finalize_resolved_def reset_stale_def)

lemma finalize_row_ok: "row_ok cr ij r \<Longrightarrow> row_ok cr ij (finalize_resolved now r)"
  by (auto simp: row_ok_def finalize_resolved_def)

lemma reset_row_ok: "row_ok cr ij r \<Longrightarrow> row_ok cr ij (reset_stale now r)"
  by (auto simp: row_ok_def reset_stale_def stale_claim_def)

lemma requeue_all_ok:
  assumes "delivery_ok st"
  shows "delivery_ok (requeue_all pushed st)"
proof -
  have "inbox_id (ms_messages st) s i"
    if "i \<in> set (map (str_uuid \<circ> am_id) (filter (\<lambda>r. am_to_session r = Some s) (filter (\<lambda>r. pushed (am_to_session r)) (queued_messages st))))" for s i
    using that by (auto simp: queued_messages_def inbox_id_def)
  then show ?thesis using assms
    by (auto simp: requeue_all_def Let_def delivery_ok_def holders_ok_def claims_def)
qed

lemma restart_messaging_ok:
  assumes "delivery_ok st"
  shows "delivery_ok (restart_messaging res st)"
proof -
  let ?st0 = "st\<lparr>ms_workers := [], ms_drains := []\<rparr>"
  let ?st1 = "tick ?st0"
  let ?st2 = "tick (?st1\<lparr>ms_messages := map (finalize_resolved (ms_clock ?st1)) (ms_messages ?st1)\<rparr>)"
  let ?st3 = "?st2\<lparr>ms_messages := map (reset_stale (ms_clock ?st2)) (ms_messages ?st2)\<rparr>"
  have st0: "delivery_ok ?st0" using assms books_drop_all by (auto simp: delivery_ok_def holders_ok_def claims_def)
  have st2: "delivery_ok ?st2"
    by (rule rows_rewritten_ok [OF st0, where f = "finalize_resolved (ms_clock ?st1)"])
      (simp_all add: tick_def finalize_row_ok)
  have st3: "delivery_ok ?st3"
    by (rule rows_rewritten_ok [OF st2, where f = "reset_stale (ms_clock ?st2)"])
      (simp_all add: tick_def reset_row_ok)
  have "delivery_ok ?st1" by (rule delivery_ok_cong [OF st0]) (simp_all add: tick_def)
  then show ?thesis using requeue_all_ok [OF st3] st2
    by (simp add: restart_messaging_def recover_agent_messages_def Let_def split: recovery_result.split)
qed

section \<open>The invariant\<close>

lemma messaging_step_ok: "delivery_ok st \<Longrightarrow> delivery_ok (messaging_step config act st)"
proof (cases act)
  case (TimePasses n)
  assume "delivery_ok st"
  then show ?thesis unfolding TimePasses by (rule delivery_ok_cong) simp_all
qed (simp_all add: send_agent_message_ok listen_ok deliver_claim_ok deliver_create_ok deliver_record_ok deliver_mark_ok
      deliver_release_ok deliver_requeue_ok begin_drain_ok drain_pop_ok drain_claim_ok drain_deliver_ok restart_messaging_ok)

lemma messaging_start_ok: "delivery_ok (messaging_start agents sessions)"
  by (simp add: delivery_ok_def books_ok_def holders_ok_def claims_def messaging_start_def)

lemma run_messaging_ok: "delivery_ok st \<Longrightarrow> delivery_ok (run_messaging config acts st)"
  unfolding run_messaging_def by (induction acts arbitrary: st) (simp_all add: messaging_step_ok)

end
