(* ===== verification/Agent_Rows.thy ===== *)
theory Agent_Rows
  imports Agent_Delivery_Steps
begin

text \<open>
  What becomes of the rows of \<open>agent_messages\<close>: no step changes who wrote a message to whom, and
  a row that is not queued changes only by the coroutine that holds its claim, or by a recovery.
\<close>

section \<open>Rows that nobody holds\<close>

definition claim_ids :: "messaging \<Rightarrow> uuid set" where
  "claim_ids st = am_id ` set (claims st)"

definition unheld :: "agent_message \<Rightarrow> messaging \<Rightarrow> bool" where
  "unheld r st \<longleftrightarrow> r \<in> set (ms_messages st) \<and> am_id r \<notin> claim_ids st"

lemma claim_ids_workers:
  "claim_ids st = am_id ` (\<Union>k \<in> set (ms_workers st). set (worker_claim k)) \<union> am_id ` (\<Union>d \<in> set (ms_drains st). set (drain_claims d))"
  by (auto simp: claim_ids_def claims_def)

lemma claim_ids_cong:
  "ms_workers st' = ms_workers st \<Longrightarrow> ms_drains st' = ms_drains st \<Longrightarrow> claim_ids st' = claim_ids st"
  by (simp add: claim_ids_workers)

lemma claim_ids_end [simp]: "i \<notin> claim_ids st \<Longrightarrow> i \<notin> claim_ids (end_worker w st)" "i \<notin> claim_ids st \<Longrightarrow> i \<notin> claim_ids (end_drain b st)"
  by (auto simp: claim_ids_workers end_worker_def end_drain_def)

lemma claim_ids_set:
  "i \<notin> claim_ids st \<Longrightarrow> i \<notin> am_id ` set (worker_claim \<lparr>wk_id = w, wk_phase = ph\<rparr>) \<Longrightarrow> i \<notin> claim_ids (set_worker w ph st)"
  "i \<notin> claim_ids st \<Longrightarrow> i \<notin> am_id ` set (drain_claims \<lparr>ib_id = b, ib_session = s, ib_phase = ph'\<rparr>) \<Longrightarrow> i \<notin> claim_ids (set_drain b ph' st)"
proof -
  assume i: "i \<notin> claim_ids st"
  have "worker_claim (k\<lparr>wk_phase := ph\<rparr>) = worker_claim \<lparr>wk_id = w, wk_phase = ph\<rparr>" for k
    by (simp add: worker_claim_def)
  moreover assume "i \<notin> am_id ` set (worker_claim \<lparr>wk_id = w, wk_phase = ph\<rparr>)"
  ultimately show "i \<notin> claim_ids (set_worker w ph st)" using i
    by (auto simp: claim_ids_workers set_worker_def modify_def)
next
  assume i: "i \<notin> claim_ids st"
  have "drain_claims (d\<lparr>ib_phase := ph'\<rparr>) = drain_claims \<lparr>ib_id = b, ib_session = s, ib_phase = ph'\<rparr>" for d
    by (simp add: drain_claims_def)
  moreover assume "i \<notin> am_id ` set (drain_claims \<lparr>ib_id = b, ib_session = s, ib_phase = ph'\<rparr>)"
  ultimately show "i \<notin> claim_ids (set_drain b ph' st)" using i
    by (auto simp: claim_ids_workers set_drain_def modify_def)
qed

lemma worker_holds:
  assumes "worker_phase_of w st = Some ph" "m \<in> set (worker_claim \<lparr>wk_id = w, wk_phase = ph\<rparr>)"
  shows "am_id m \<in> claim_ids st"
proof -
  obtain k where "k \<in> set (ms_workers st)" "wk_phase k = ph"
    using assms(1) by (auto simp: worker_phase_of_def dest: get_row_Some)
  moreover from this have "m \<in> set (worker_claim k)" using assms(2) by (simp add: worker_claim_def)
  ultimately show ?thesis unfolding claim_ids_workers by blast
qed

lemma drain_holds: "drain_of b st = Some d \<Longrightarrow> ib_phase d = DrainClaimed m \<Longrightarrow> am_id m \<in> claim_ids st"
proof -
  assume "drain_of b st = Some d" and ph: "ib_phase d = DrainClaimed m"
  then have d: "d \<in> set (ms_drains st)" by (auto simp: drain_of_def dest: get_row_Some)
  have "m \<in> set (drain_claims d)" using ph by (simp add: drain_claims_def)
  then show ?thesis using d unfolding claim_ids_workers by blast
qed

text \<open>Writes to other rows.\<close>

lemma unheld_write:
  assumes "unheld r st" "am_id r \<noteq> i" "ms_messages st' = modify am_id i f (ms_messages st)" "am_id r \<notin> claim_ids st'"
  shows "unheld r st'"
proof -
  have "r \<in> set (modify am_id i f (ms_messages st))" using assms(1,2) unfolding unheld_def in_modify_iff by blast
  then show ?thesis using assms(3,4) by (simp add: unheld_def)
qed

lemma unheld_end: "unheld r st \<Longrightarrow> unheld r (end_worker w st)" "unheld r st \<Longrightarrow> unheld r (end_drain b st)"
  by (simp_all add: unheld_def) (simp_all add: end_worker_def end_drain_def)

lemma unheld_set:
  "unheld r st \<Longrightarrow> am_id r \<notin> am_id ` set (worker_claim \<lparr>wk_id = w, wk_phase = ph\<rparr>) \<Longrightarrow> unheld r (set_worker w ph st)"
  "unheld r st \<Longrightarrow> am_id r \<notin> am_id ` set (drain_claims \<lparr>ib_id = b, ib_session = s, ib_phase = ph'\<rparr>) \<Longrightarrow> unheld r (set_drain b ph' st)"
proof -
  have "ms_messages (set_worker w ph st) = ms_messages st" "ms_messages (set_drain b ph' st) = ms_messages st"
    by (simp_all add: set_worker_def set_drain_def)
  then show "unheld r st \<Longrightarrow> am_id r \<notin> am_id ` set (worker_claim \<lparr>wk_id = w, wk_phase = ph\<rparr>) \<Longrightarrow> unheld r (set_worker w ph st)"
    "unheld r st \<Longrightarrow> am_id r \<notin> am_id ` set (drain_claims \<lparr>ib_id = b, ib_session = s, ib_phase = ph'\<rparr>) \<Longrightarrow> unheld r (set_drain b ph' st)"
    unfolding unheld_def using claim_ids_set(1) [of "am_id r" st w ph] claim_ids_set(2) [of "am_id r" st b s ph'] by metis+
qed

lemma unheld_idle: "unheld r st \<Longrightarrow> unheld r (set_drain b DrainIdle st)" "unheld r st \<Longrightarrow> unheld r (set_drain b (DrainPopped i) st)"
  by (erule unheld_set(2) [where s = "am_id r"]; simp add: drain_claims_def)+

lemma unheld_cong:
  "unheld r st \<Longrightarrow> ms_messages st' = ms_messages st \<Longrightarrow> ms_workers st' = ms_workers st \<Longrightarrow> ms_drains st' = ms_drains st \<Longrightarrow> unheld r st'"
  using claim_ids_cong [of st' st] by (simp add: unheld_def)

lemma unheld_write_owned: "unheld r st \<Longrightarrow> am_id m \<in> claim_ids st \<Longrightarrow> unheld r (write_owned m f st)"
  by (rule unheld_write, assumption) (auto simp: unheld_def claim_ids_workers)

lemma unheld_write_message: "unheld r st \<Longrightarrow> am_id r \<noteq> i \<Longrightarrow> unheld r (write_message i f (tick st))"
  by (rule unheld_write, assumption, assumption) (auto simp: unheld_def claim_ids_workers write_message_def tick_def)

lemma unheld_push: "unheld r st \<Longrightarrow> unheld r (push_message s i st)"
  by (erule unheld_cong) (simp_all add: push_message_def split: option.split)


section \<open>Steps that leave them alone\<close>

lemma deliver_owned_unheld:
  assumes r: "unheld r st"
  shows "unheld r (deliver_record w ok st)" "unheld r (deliver_mark w ok st)" "unheld r (deliver_release w ok st)"
    "unheld r (deliver_requeue w ok st)"
proof -
  have keep: "unheld r (set_worker w ph' (write_owned m f st))" "unheld r (end_worker w (write_owned m f st))"
    if ph: "worker_phase_of w st = Some ph" "m \<in> set (worker_claim \<lparr>wk_id = w, wk_phase = ph\<rparr>)"
      "set (worker_claim \<lparr>wk_id = w, wk_phase = ph'\<rparr>) \<subseteq> {m}" for ph ph' m f
  proof -
    have m: "am_id m \<in> claim_ids st" using ph(1,2) by (rule worker_holds)
    then have wr: "unheld r (write_owned m f st)" using r by (rule unheld_write_owned [rotated])
    have "am_id r \<notin> am_id ` set (worker_claim \<lparr>wk_id = w, wk_phase = ph'\<rparr>)" using ph(3) m r by (auto simp: unheld_def)
    then show "unheld r (set_worker w ph' (write_owned m f st))" using wr by (rule unheld_set(1) [rotated])
    show "unheld r (end_worker w (write_owned m f st))" using wr by (rule unheld_end(1))
  qed
  show "unheld r (deliver_record w ok st)"
  proof (cases "\<exists>m sid. worker_phase_of w st = Some (WorkerCreated m sid)")
    case True
    then obtain m sid where ph: "worker_phase_of w st = Some (WorkerCreated m sid)" by blast
    show ?thesis using ph keep(1) [OF ph, of m "WorkerRecorded m"] unheld_end(1) [OF r]
      by (simp add: deliver_record_def worker_claim_def)
  next
    case False
    then show ?thesis using r by (auto simp: deliver_record_def split: option.split worker_phase.split)
  qed
  show "unheld r (deliver_mark w ok st)"
  proof (cases "\<exists>m. worker_phase_of w st = Some (WorkerRecorded m)")
    case True
    then obtain m where ph: "worker_phase_of w st = Some (WorkerRecorded m)" by blast
    show ?thesis using ph keep(2) [OF ph, of m "WorkerPopped ''''"] unheld_end(1) [OF r]
      by (simp add: deliver_mark_def worker_claim_def)
  next
    case False
    then show ?thesis using r by (auto simp: deliver_mark_def split: option.split worker_phase.split)
  qed
  show "unheld r (deliver_release w ok st)"
  proof (cases "\<exists>m e. worker_phase_of w st = Some (WorkerFailed m e)")
    case True
    then obtain m e where ph: "worker_phase_of w st = Some (WorkerFailed m e)" by blast
    show ?thesis using ph keep [OF ph, of m "WorkerReleased m"] unheld_end(1) [OF r]
      by (simp add: deliver_release_def worker_claim_def Let_def)
  next
    case False
    then show ?thesis using r by (auto simp: deliver_release_def split: option.split worker_phase.split)
  qed
  show "unheld r (deliver_requeue w ok st)"
    using r unheld_end(1) unheld_push by (simp add: deliver_requeue_def split: option.split worker_phase.split)
qed

lemma deliver_create_unheld:
  assumes r: "unheld r st"
  shows "unheld r (deliver_create w create st)"
proof (cases "\<exists>m. worker_phase_of w st = Some (WorkerClaimed m)")
  case False
  then show ?thesis using r by (auto simp: deliver_create_def split: option.split worker_phase.split)
next
  case True
  then obtain m where ph: "worker_phase_of w st = Some (WorkerClaimed m)" by blast
  have m: "am_id m \<in> claim_ids st" using ph by (rule worker_holds) (simp add: worker_claim_def)
  have "unheld r (set_worker w ph' st')" if "set (worker_claim \<lparr>wk_id = w, wk_phase = ph'\<rparr>) \<subseteq> {m}" "unheld r st'" for ph' st'
    using that(2) by (rule unheld_set(1)) (use m r that(1) in \<open>auto simp: unheld_def\<close>)
  moreover have "unheld r (st\<lparr>ms_created := x, ms_sessions := y\<rparr>)" for x y by (rule unheld_cong [OF r]) simp_all
  ultimately show ?thesis using ph r
    by (simp add: deliver_create_def worker_claim_def split: option.split sum.split)
qed

text \<open>A claim is taken on a queued message.\<close>

lemma claim_message_unheld:
  assumes ok: "delivery_ok st" and r: "unheld r st" "am_status r \<noteq> MsgQueued" and c: "claim_message u st = (res, st1)"
  shows "unheld r st1" "res = Some m \<Longrightarrow> am_id m \<noteq> am_id r"
proof -
  note fr = claim_message_frame [OF c]
  have other: "am_id r \<noteq> u" if m: "res = Some m" for m
  proof -
    obtain q where q: "q \<in> set (ms_messages st)" "am_id q = u" "am_status q = MsgQueued"
      using c [unfolded m] by (rule claim_message_Some)
    have "distinct (map am_id (ms_messages st))" using ok by (simp add: delivery_ok_def books_ok_def)
    then have "r = q" if "am_id r = u"
      using distinct_key_unique [of am_id "ms_messages st" r q] r(1) q(1,2) that by (simp add: unheld_def)
    then show ?thesis using q(3) r(2) by blast
  qed
  show "unheld r st1"
  proof (cases res)
    case None
    then show ?thesis using unheld_cong [OF r(1)] fr by simp
  next
    case (Some m)
    then obtain f where "ms_messages st1 = modify am_id u f (ms_messages st)"
      using claim_message_Some [OF c [unfolded Some]] by metis
    moreover have "am_id r \<notin> claim_ids st1" using r(1) claim_ids_cong [OF fr(1,2)] by (simp add: unheld_def)
    ultimately show ?thesis using unheld_write [OF r(1) other [OF Some]] by blast
  qed
  show "am_id m \<noteq> am_id r" if m: "res = Some m"
    using other [OF m] claim_taken(5) [OF ok c [unfolded m]] by simp
qed

lemma deliver_claim_unheld:
  assumes "delivery_ok st" "unheld r st" "am_status r \<noteq> MsgQueued"
  shows "unheld r (deliver_claim w ok st)"
proof (cases "\<exists>i u. worker_phase_of w st = Some (WorkerPopped i) \<and> parse_uuid i = Inr u")
  case False
  then show ?thesis using assms(2) unheld_end(1) by (auto simp: deliver_claim_def split: option.split worker_phase.split sum.split)
next
  case True
  then obtain i u where ph: "worker_phase_of w st = Some (WorkerPopped i)" and i: "parse_uuid i = Inr u" by blast
  obtain res st1 where c: "claim_message u st = (res, st1)" by fastforce
  note k = claim_message_unheld [OF assms c]
  have "unheld r (set_worker w (WorkerClaimed m) st1)" if "res = Some m" for m
    using k(1) by (rule unheld_set(1)) (use k(2) [OF that] in \<open>auto simp: worker_claim_def\<close>)
  then show ?thesis using ph i c k(1) assms(2) unheld_end(1) by (simp add: deliver_claim_def split: option.split)
qed


lemma drain_pop_unheld: "unheld r st \<Longrightarrow> unheld r (drain_pop b ok st)"
proof -
  assume r: "unheld r st"
  have "unheld r (st\<lparr>ms_inbox := x\<rparr>)" for x by (rule unheld_cong [OF r]) simp_all
  then show ?thesis using r unheld_end(2) unheld_idle(2) by (simp add: drain_pop_def split: option.split list.split)
qed

lemma drain_claim_unheld:
  assumes ok: "delivery_ok st" and r: "unheld r st" "am_status r \<noteq> MsgQueued"
  shows "unheld r (drain_claim b db_ok redis_ok rr st)"
proof (cases "\<exists>d i u. drain_of b st = Some d \<and> ib_phase d = DrainPopped i \<and> db_ok \<and> readable_id i = Some u")
  case False
  then show ?thesis using r(1) unheld_idle(1) [OF unheld_push [OF r(1)]] unheld_idle(1) [OF r(1)]
    by (auto simp: drain_claim_def split: option.split drain_phase.split)
next
  case True
  then obtain d i u where d: "drain_of b st = Some d" "ib_phase d = DrainPopped i" "db_ok" and u: "readable_id i = Some u" by blast
  obtain res st1 where c: "claim_message u st = (res, st1)" by fastforce
  note k = claim_message_unheld [OF ok r c]
  have "unheld r (set_drain b (DrainClaimed m) st1)" if "res = Some m" for m
    using k(1) by (rule unheld_set(2) [where s = "am_id r"]) (use k(2) [OF that] in \<open>auto simp: drain_claims_def\<close>)
  moreover have "unheld r (reset_misrouted rr m st1)" if "res = Some m" for m
  proof -
    have "unheld r (write_message (am_id m) f (tick st1))" for f
      using unheld_write_message [OF k(1)] k(2) [OF that] by metis
    then show ?thesis using unheld_push k(1) by (simp add: reset_misrouted_def Let_def split: option.split)
  qed
  ultimately show ?thesis using d u c k(1) unheld_idle(1) by (simp add: drain_claim_def split: option.split)
qed

lemma drain_deliver_unheld:
  assumes r: "unheld r st"
  shows "unheld r (drain_deliver b outcome rr st)"
proof (cases "\<exists>d m. drain_of b st = Some d \<and> ib_phase d = DrainClaimed m")
  case False
  then show ?thesis using r by (auto simp: drain_deliver_def split: option.split drain_phase.split)
next
  case True
  then obtain d m where d: "drain_of b st = Some d" "ib_phase d = DrainClaimed m" by blast
  have m: "am_id r \<noteq> am_id m" using drain_holds [OF d] r by (auto simp: unheld_def)
  have reset: "unheld r (inbox_reset rr b s m e st')" if "unheld r st'" for s e st'
    using that unheld_idle(1) unheld_push unheld_write_message [OF that m] by (simp add: inbox_reset_def Let_def)
  have mark: "unheld r (mark_injected s m st')" if "unheld r st'" for s st'
    using unheld_write_message [OF that m] by (simp add: mark_injected_def)
  have fr: "unheld r (put_into_session s m st)" "unheld r (put_into_session s m (reopen_session (Some s) st))" for s
    by (rule unheld_cong [OF r]; simp add: put_into_session_def reopen_session_def)+
  show ?thesis using d reset mark fr r unheld_idle(1) unheld_end(2)
    by (simp add: drain_deliver_def Let_def split: inbox_outcome.split)
qed

lemma send_unheld:
  assumes r: "unheld r st"
  shows "unheld r (snd (send_agent_message config i redis_ok name content target header arg st))"
proof -
  have "unheld r (st'\<lparr>ms_messages := ms_messages st' @ [q], ms_clock := c\<rparr>)" if "unheld r st'" for st' q c
    using that by (simp add: unheld_def claim_ids_workers)
  moreover have "unheld r (reopen_session t st)" for t
    by (rule unheld_cong [OF r]) (simp_all add: reopen_session_def split: option.split)
  ultimately show ?thesis using r unheld_push by (simp add: send_agent_message_def Let_def split: sum.split)
qed

lemma listen_unheld:
  assumes r: "unheld r st"
  shows "unheld r (listen_new_session_messages st)" "unheld r (begin_drain s st)"
proof -
  have "claim_ids (listen_new_session_messages st) = claim_ids st" "claim_ids (begin_drain s st) = claim_ids st"
    by (auto simp: claim_ids_workers listen_new_session_messages_def begin_drain_def worker_claim_def drain_claims_def split: list.split)
  then show "unheld r (listen_new_session_messages st)" "unheld r (begin_drain s st)"
    using r by (simp_all add: unheld_def) (simp_all add: listen_new_session_messages_def begin_drain_def split: list.split)
qed

text \<open>Of the steps only a recovery changes a row that is not queued and that nobody holds.\<close>

fun restarts :: "messaging_action \<Rightarrow> bool" where
  "restarts (RestartMessaging res) \<longleftrightarrow> True"
| "restarts _ \<longleftrightarrow> False"

lemma step_unheld:
  assumes "delivery_ok st" "unheld r st" "am_status r \<noteq> MsgQueued" "\<not> restarts act"
  shows "unheld r (messaging_step config act st)"
proof (cases act)
  case (TimePasses n)
  then show ?thesis using assms(2) by (simp add: unheld_def claim_ids_workers)
next
  case (RestartMessaging res)
  then show ?thesis using assms(4) by simp
qed (simp_all add: assms send_unheld listen_unheld deliver_claim_unheld deliver_create_unheld deliver_owned_unheld
      drain_pop_unheld drain_claim_unheld drain_deliver_unheld)

lemma run_unheld:
  assumes "delivery_ok st" "unheld r st" "am_status r \<noteq> MsgQueued" "list_all (\<lambda>a. \<not> restarts a) acts"
  shows "unheld r (run_messaging config acts st)"
  using assms unfolding run_messaging_def
  by (induction acts arbitrary: st) (simp_all add: messaging_step_ok step_unheld)

text \<open>A delivered or failed message is final.\<close>

definition message_final :: "agent_message_status \<Rightarrow> bool" where
  "message_final s \<longleftrightarrow> s = MsgDelivered \<or> s = MsgGivenUp"

lemma final_unheld:
  assumes "delivery_ok st" "r \<in> set (ms_messages st)" "message_final (am_status r)"
  shows "unheld r st"
proof -
  have "am_id m \<noteq> am_id r" if m: "m \<in> set (claims st)" for m
  proof
    assume "am_id m = am_id r"
    then have "claim_row m r" using claim_row_unique [OF _ m assms(2)] assms(1) unfolding delivery_ok_def by metis
    then show False using assms(3) by (auto simp: claim_row_def owned_def message_final_def)
  qed
  then show ?thesis using assms(2) unfolding unheld_def claim_ids_def by (metis imageE)
qed

lemma restart_rows:
  "ms_messages (restart_messaging res st) =
     map (\<lambda>q. case res of
                  FinalizeFails \<Rightarrow> q
                | StaleFails \<Rightarrow> finalize_resolved (ms_clock st + 1) q
                | Pushes _ \<Rightarrow> reset_stale (ms_clock st + 2) (finalize_resolved (ms_clock st + 1) q)) (ms_messages st)"
  by (cases res) (simp_all add: restart_messaging_def recover_agent_messages_def requeue_all_def Let_def tick_def add.commute)

lemma restart_claims: "claims (restart_messaging res st) = []" "ms_clock (restart_messaging (Pushes p) st) = ms_clock st + 2"
  by (simp_all add: restart_messaging_def recover_agent_messages_def requeue_all_def Let_def tick_def claims_def split: recovery_result.split)

lemma restart_keeps_final:
  assumes "r \<in> set (ms_messages st)" "message_final (am_status r)"
  shows "r \<in> set (ms_messages (restart_messaging res st))"
proof -
  have "finalize_resolved a r = r" "reset_stale b (finalize_resolved a r) = r" for a b
    using assms(2) by (auto simp: finalize_resolved_def reset_stale_def stale_claim_def message_final_def)
  then show ?thesis unfolding restart_rows set_map
    by (intro image_eqI [OF _ assms(1)]) (simp split: recovery_result.split)
qed

lemma step_keeps_final:
  assumes "delivery_ok st" "r \<in> set (ms_messages st)" "message_final (am_status r)"
  shows "r \<in> set (ms_messages (messaging_step config act st))"
proof (cases "restarts act")
  case True
  then show ?thesis using restart_keeps_final [OF assms(2,3)] by (cases act) auto
next
  case False
  then have "unheld r (messaging_step config act st)"
    using step_unheld [OF assms(1) final_unheld [OF assms]] assms(3) by (auto simp: message_final_def)
  then show ?thesis by (simp add: unheld_def)
qed

lemma run_keeps_final:
  assumes "delivery_ok st" "r \<in> set (ms_messages st)" "message_final (am_status r)"
  shows "r \<in> set (ms_messages (run_messaging config acts st))"
  using assms unfolding run_messaging_def
  by (induction acts arbitrary: st) (simp_all add: messaging_step_ok step_keeps_final)


section \<open>What a row says of its message\<close>

definition message_of :: "agent_message \<Rightarrow> uuid \<times> uuid \<times> uuid \<times> uuid option \<times> uuid option \<times> string \<times> nat" where
  "message_of r =
     (am_id r, am_from_agent r, am_to_agent r, am_from_session r, am_to_session r, am_content r, am_max_attempts r)"

definition messages_of :: "messaging \<Rightarrow> (uuid \<times> uuid \<times> uuid \<times> uuid option \<times> uuid option \<times> string \<times> nat) list" where
  "messages_of st = map message_of (ms_messages st)"

lemma messages_of_write:
  "(\<And>r. message_of (f r) = message_of r) \<Longrightarrow> messages_of (write_message i f st) = messages_of st"
  by (auto simp: messages_of_def write_message_def modify_def)

lemma messages_of_frame [simp]:
  "messages_of (tick st) = messages_of st" "messages_of (set_worker w ph st) = messages_of st"
  "messages_of (end_worker w st) = messages_of st" "messages_of (set_drain b ph' st) = messages_of st"
  "messages_of (end_drain b st) = messages_of st" "messages_of (push_message s i st) = messages_of st"
  "messages_of (put_into_session s' m st) = messages_of st" "messages_of (reopen_session s st) = messages_of st"
  "messages_of (st\<lparr>ms_inbox := x\<rparr>) = messages_of st" "messages_of (st\<lparr>ms_created := y, ms_sessions := z\<rparr>) = messages_of st"
  by (simp_all add: messages_of_def tick_def set_worker_def end_worker_def set_drain_def end_drain_def push_message_def
      put_into_session_def reopen_session_def split: option.split)

lemma messages_of_writes [simp]:
  "(\<And>r. message_of (f r) = message_of r) \<Longrightarrow> messages_of (write_owned m f st) = messages_of st"
  "messages_of (mark_injected s m st) = messages_of st" "messages_of (inbox_reset rr b s m e st) = messages_of st"
  "messages_of (reset_misrouted rr m st) = messages_of st"
  by (simp_all add: write_owned_def mark_injected_def inbox_reset_def reset_misrouted_def Let_def messages_of_write
      message_of_def delivered_row_def released_row_def split: option.split)

lemma messages_of_claim: "claim_message u st = (res, st1) \<Longrightarrow> messages_of st1 = messages_of st"
  by (auto simp: claim_message_def Let_def messages_of_write message_of_def claimed_row_def split: option.splits)

lemma messages_of_restart: "messages_of (restart_messaging res st) = messages_of st"
  unfolding messages_of_def restart_rows
  by (cases res) (simp_all add: message_of_def finalize_resolved_def reset_stale_def)

lemma messages_of_send:
  "messages_of (snd (send_agent_message config i redis_ok name content target header arg st)) =
     (case check_send config name content target header arg st of
        Inl _ \<Rightarrow> messages_of st
      | Inr (a, b, s, t) \<Rightarrow> messages_of st @ [message_of (new_message i a b s t content)])"
  by (simp add: send_agent_message_def Let_def messages_of_def reopen_session_def push_message_def split: sum.split option.split)

lemma messages_of_worker:
  "messages_of (deliver_claim w ok st) = messages_of st" "messages_of (deliver_create w create st) = messages_of st"
  "messages_of (deliver_record w ok st) = messages_of st" "messages_of (deliver_mark w ok st) = messages_of st"
  "messages_of (deliver_release w ok st) = messages_of st" "messages_of (deliver_requeue w ok st) = messages_of st"
proof -
  show "messages_of (deliver_claim w ok st) = messages_of st"
    by (auto simp: deliver_claim_def messages_of_claim split: option.split worker_phase.split sum.split prod.split)
qed (simp_all add: deliver_create_def deliver_record_def deliver_mark_def deliver_release_def deliver_requeue_def Let_def
      message_of_def released_row_def split: option.split worker_phase.split sum.split)

lemma messages_of_drain:
  "messages_of (drain_pop b ok st) = messages_of st" "messages_of (drain_claim b ok redis_ok rr st) = messages_of st"
  "messages_of (drain_deliver b outcome rr st) = messages_of st"
proof -
  show "messages_of (drain_claim b ok redis_ok rr st) = messages_of st"
    by (auto simp: drain_claim_def messages_of_claim split: option.split drain_phase.split prod.split)
qed (simp_all add: drain_pop_def drain_deliver_def Let_def split: option.split drain_phase.split list.split inbox_outcome.split)

lemma messages_of_step:
  "messages_of (messaging_step config act st) = messages_of st \<or>
   (\<exists>i ok name content target header arg a b s t.
      act = SendAgentMessage i ok name content target header arg \<and> i \<notin> am_id ` set (ms_messages st) \<and>
      check_send config name content target header arg st = Inr (a, b, s, t) \<and>
      messages_of (messaging_step config act st) = messages_of st @ [message_of (new_message i a b s t content)])"
proof (cases act)
  case (SendAgentMessage i ok name content target header arg)
  then show ?thesis by (auto simp: messages_of_send split: sum.split)
next
  case Listen
  then show ?thesis by (simp add: messages_of_def listen_new_session_messages_def split: list.split)
next
  case (BeginDrain s)
  then show ?thesis by (simp add: messages_of_def begin_drain_def)
next
  case (TimePasses n)
  then show ?thesis by (simp add: messages_of_def)
qed (simp_all add: messages_of_worker messages_of_drain messages_of_restart)

end
