(* ===== verification/Agent_Message_Properties.thy ===== *)
theory Agent_Message_Properties
  imports Agent_Rows
begin

text \<open>
  The properties of agent messages: who may write to whom, how often a message is delivered, what
  a restart finds.
\<close>

section \<open>Who a message is from and for\<close>

definition sessions_of :: "messaging \<Rightarrow> (uuid \<times> uuid) list" where
  "sessions_of st = map (\<lambda>s. (as_id s, as_agent s)) (ms_sessions st)"

definition scene :: "messaging \<Rightarrow> agent list \<times> (uuid \<times> uuid) list \<times> (uuid \<times> uuid) list" where
  "scene st = (ms_agents st, sessions_of st, ms_injected st)"

lemma scene_frame [simp]:
  "scene (tick st) = scene st" "scene (write_message i f st) = scene st" "scene (write_owned m f st) = scene st"
  "scene (set_worker w ph st) = scene st" "scene (end_worker w st) = scene st" "scene (set_drain b ph' st) = scene st"
  "scene (end_drain b st) = scene st" "scene (push_message s x st) = scene st" "scene (reopen_session s st) = scene st"
  "scene (st\<lparr>ms_inbox := y\<rparr>) = scene st"
  by (simp_all add: scene_def sessions_of_def tick_def write_message_def write_owned_def set_worker_def end_worker_def
      set_drain_def end_drain_def push_message_def reopen_session_def modify_def comp_def if_distrib cong: if_cong split: option.split)

lemma scene_writes [simp]:
  "scene (inbox_reset rr b s m e st) = scene st" "scene (reset_misrouted rr m st) = scene st" "scene (mark_injected s m st) = scene st"
  by (simp_all add: inbox_reset_def reset_misrouted_def mark_injected_def Let_def split: option.split)

lemma scene_claim: "claim_message u st = (res, st1) \<Longrightarrow> scene st1 = scene st"
  by (auto simp: claim_message_def Let_def split: option.splits)

lemma scene_create:
  "ms_agents (deliver_create w create st) = ms_agents st" "set (sessions_of st) \<subseteq> set (sessions_of (deliver_create w create st))"
  "ms_injected (deliver_create w create st) = ms_injected st"
  by (auto simp: deliver_create_def set_worker_def sessions_of_def split: option.split worker_phase.split sum.split)

lemma scene_worker:
  "scene (deliver_claim w ok st) = scene st" "scene (deliver_record w ok st) = scene st" "scene (deliver_mark w ok st) = scene st"
  "scene (deliver_release w ok st) = scene st" "scene (deliver_requeue w ok st) = scene st"
proof -
  show "scene (deliver_claim w ok st) = scene st"
    by (auto simp: deliver_claim_def scene_claim split: option.split worker_phase.split sum.split prod.split)
qed (simp_all add: deliver_record_def deliver_mark_def deliver_release_def deliver_requeue_def Let_def
      split: option.split worker_phase.split)

lemma scene_drain: "scene (drain_pop b ok st) = scene st" "scene (drain_claim b ok redis_ok rr st) = scene st"
proof -
  show "scene (drain_claim b ok redis_ok rr st) = scene st"
    by (auto simp: drain_claim_def scene_claim split: option.split drain_phase.split prod.split)
qed (simp add: drain_pop_def split: option.split list.split)

lemma scene_other:
  "scene (listen_new_session_messages st) = scene st" "scene (begin_drain s st) = scene st"
  "scene (restart_messaging res st) = scene st" "scene (st\<lparr>ms_clock := c\<rparr>) = scene st"
  "scene (snd (send_agent_message config i redis_ok name content target header arg st)) = scene st"
proof -
  have "scene (st'\<lparr>ms_messages := x, ms_clock := y\<rparr>) = scene st'" for st' x y by (simp add: scene_def sessions_of_def)
  then show "scene (snd (send_agent_message config i redis_ok name content target header arg st)) = scene st"
    by (simp add: send_agent_message_def Let_def split: sum.split)
qed (simp_all add: scene_def sessions_of_def listen_new_session_messages_def begin_drain_def restart_messaging_def
      recover_agent_messages_def requeue_all_def tick_def Let_def split: list.split recovery_result.split)

text \<open>Only the end of a delivery into a session adds to \<open>ms_injected\<close>.\<close>

lemma scene_deliver:
  "ms_agents (drain_deliver b outcome rr st) = ms_agents st" "sessions_of (drain_deliver b outcome rr st) = sessions_of st"
  "ms_injected (drain_deliver b outcome rr st) = ms_injected st \<or>
   (\<exists>d m. drain_of b st = Some d \<and> ib_phase d = DrainClaimed m \<and>
      ms_injected (drain_deliver b outcome rr st) = ms_injected st @ [(am_id m, ib_session d)])"
proof -
  have agents: "ms_agents st1 = ms_agents st2" if "scene st1 = scene st2" for st1 st2 using that by (simp add: scene_def)
  have sessions: "sessions_of st1 = sessions_of st2" if "scene st1 = scene st2" for st1 st2 using that by (simp add: scene_def)
  have inj: "ms_injected st1 = ms_injected st2" if "scene st1 = scene st2" for st1 st2 using that by (simp add: scene_def)
  have put: "ms_agents (put_into_session s m st) = ms_agents st" "sessions_of (put_into_session s m st) = sessions_of st"
    "ms_injected (put_into_session s m st) = ms_injected st @ [(am_id m, s)]" for s m st
    by (simp_all add: put_into_session_def sessions_of_def)
  show "ms_agents (drain_deliver b outcome rr st) = ms_agents st"
    by (simp add: drain_deliver_def Let_def agents [OF scene_frame(6)] agents [OF scene_frame(7)] agents [OF scene_frame(9)]
        agents [OF scene_writes(1)] agents [OF scene_writes(3)] put split: option.split drain_phase.split inbox_outcome.split)
  show "sessions_of (drain_deliver b outcome rr st) = sessions_of st"
    by (simp add: drain_deliver_def Let_def sessions [OF scene_frame(6)] sessions [OF scene_frame(7)] sessions [OF scene_frame(9)]
        sessions [OF scene_writes(1)] sessions [OF scene_writes(3)] put split: option.split drain_phase.split inbox_outcome.split)
  show "ms_injected (drain_deliver b outcome rr st) = ms_injected st \<or>
     (\<exists>d m. drain_of b st = Some d \<and> ib_phase d = DrainClaimed m \<and>
        ms_injected (drain_deliver b outcome rr st) = ms_injected st @ [(am_id m, ib_session d)])"
    by (simp add: drain_deliver_def Let_def inj [OF scene_frame(6)] inj [OF scene_frame(7)] inj [OF scene_frame(9)]
        inj [OF scene_writes(1)] inj [OF scene_writes(3)] put split: option.split drain_phase.split inbox_outcome.split)
qed

lemma scene_step:
  "ms_agents (messaging_step config act st) = ms_agents st \<and>
   set (sessions_of st) \<subseteq> set (sessions_of (messaging_step config act st)) \<and>
   (ms_injected (messaging_step config act st) = ms_injected st \<or>
    (\<exists>b d m. drain_of b st = Some d \<and> ib_phase d = DrainClaimed m \<and>
       ms_injected (messaging_step config act st) = ms_injected st @ [(am_id m, ib_session d)]))"
proof -
  consider (same) "scene (messaging_step config act st) = scene st"
    | (create) w create where "act = DeliverCreate w create" | (deliver) b outcome rr where "act = DrainDeliver b outcome rr"
    by (cases act) (simp_all add: scene_worker scene_drain scene_other)
  then show ?thesis
  proof cases
    case same
    then show ?thesis by (simp add: scene_def)
  next
    case create
    then show ?thesis by (simp add: scene_create)
  next
    case deliver
    then show ?thesis using scene_deliver(3) [of b outcome rr st] by (simp only: messaging_step.simps scene_deliver(1,2)) blast
  qed
qed

section \<open>Authorization\<close>

definition between ::
  "(agent \<Rightarrow> string \<times> string list) \<Rightarrow> (uuid \<times> uuid) list \<Rightarrow> agent \<Rightarrow> agent \<Rightarrow> agent_message \<Rightarrow> bool" where
  "between config sessions a b r \<longleftrightarrow>
     a_id a = am_from_agent r \<and> a_id b = am_to_agent r \<and> check_agent_message_authz (config a) (a_name b) \<and>
     (\<exists>s. am_from_session r = Some s \<and> (s, a_id a) \<in> set sessions) \<and>
     (\<forall>t. am_to_session r = Some t \<longrightarrow> (t, a_id b) \<in> set sessions)"

definition authorised :: "(agent \<Rightarrow> string \<times> string list) \<Rightarrow> messaging \<Rightarrow> agent_message \<Rightarrow> bool" where
  "authorised config st r \<longleftrightarrow>
     (\<exists>a \<in> set (ms_agents st). \<exists>b \<in> set (ms_agents st). between config (sessions_of st) a b r) \<and>
     utf8_length (am_content r) \<le> MAX_CONTENT_BYTES \<and> am_max_attempts r = 3"

lemma authorised_message_of: "message_of r = message_of q \<Longrightarrow> authorised config st r = authorised config st q"
  by (simp add: message_of_def authorised_def between_def)

lemma between_mono: "set ss \<subseteq> set ss' \<Longrightarrow> between config ss a b r \<Longrightarrow> between config ss' a b r"
  by (auto simp: between_def)

lemma authorised_mono:
  assumes "ms_agents st' = ms_agents st" "set (sessions_of st) \<subseteq> set (sessions_of st')" "authorised config st r"
  shows "authorised config st' r"
proof -
  obtain a b where "a \<in> set (ms_agents st)" "b \<in> set (ms_agents st)" "between config (sessions_of st) a b r"
    using assms(3) unfolding authorised_def by blast
  then show ?thesis using assms between_mono [OF assms(2)] unfolding authorised_def by metis
qed

lemma find_session_Some: "find_session i st = Some s \<Longrightarrow> (i, as_agent s) \<in> set (sessions_of st)"
  by (auto simp: find_session_def sessions_of_def dest!: get_row_Some)

lemma find_agent_Some: "find_agent p st = Some a \<Longrightarrow> a \<in> set (ms_agents st) \<and> p a"
  unfolding find_agent_def by (rule get_row_Some)

lemma check_send_authorised:
  assumes "check_send config name content target header arg st = Inr (a, b, s, t)"
  shows "authorised config st (new_message i a b s t content)"
proof -
  have sender: "resolve_sender s st = Inr a" and b: "find_agent (\<lambda>x. a_name x = name) st = Some b"
    and z: "check_agent_message_authz (config a) name" and t: "check_target t b st = None"
    and size: "utf8_length content \<le> MAX_CONTENT_BYTES"
    using assms
    by (auto simp: check_send_def sum_bind_Inr split: if_splits option.splits sum.splits)
  obtain s' where s': "find_session s st = Some s'" "find_agent (\<lambda>x. a_id x = as_agent s') st = Some a"
    using sender by (auto simp: resolve_sender_def split: option.splits)
  have "(s, a_id a) \<in> set (sessions_of st)" using find_session_Some [OF s'(1)] find_agent_Some [OF s'(2)] by simp
  moreover have "(u, a_id b) \<in> set (sessions_of st)" if "t = Some u" for u
    using t that find_session_Some [of u st] by (auto simp: check_target_def split: option.splits if_splits)
  ultimately have "between config (sessions_of st) a b (new_message i a b s t content)"
    using z find_agent_Some [OF b] by (simp add: between_def new_message_def)
  then show ?thesis using find_agent_Some [OF s'(2)] find_agent_Some [OF b] size unfolding authorised_def
    by (auto simp: new_message_def)
qed

definition posts_ok :: "(agent \<Rightarrow> string \<times> string list) \<Rightarrow> messaging \<Rightarrow> bool" where
  "posts_ok config st \<longleftrightarrow>
     (\<forall>r \<in> set (ms_messages st). authorised config st r) \<and>
     (\<forall>(i, s) \<in> set (ms_injected st). \<exists>r \<in> set (ms_messages st). am_id r = i \<and> am_to_session r = Some s)"

lemma in_messages_of: "r \<in> set (ms_messages st) \<Longrightarrow> message_of r \<in> set (messages_of st)"
  by (simp add: messages_of_def)

lemma step_messages_of: "set (messages_of st) \<subseteq> set (messages_of (messaging_step config act st))"
  using messages_of_step [of config act st] by auto

lemma step_row:
  assumes "r \<in> set (ms_messages st)"
  obtains q where "q \<in> set (ms_messages (messaging_step config act st))" "message_of q = message_of r"
proof -
  have "message_of r \<in> set (messages_of (messaging_step config act st))"
    using in_messages_of [OF assms] step_messages_of by blast
  then show ?thesis using that unfolding messages_of_def by auto
qed


lemma posts_step:
  assumes ok: "delivery_ok st" and p: "posts_ok config st"
  shows "posts_ok config (messaging_step config act st)"
proof -
  let ?st = "messaging_step config act st"
  note sc = scene_step [of config act st]
  have old: "authorised config ?st r" if "authorised config st r" for r
    using sc that by (intro authorised_mono [of ?st st]) auto
  have "authorised config ?st r" if r: "r \<in> set (ms_messages ?st)" for r
  proof (cases "message_of r \<in> set (messages_of st)")
    case True
    then obtain q where "q \<in> set (ms_messages st)" "message_of q = message_of r" by (auto simp: messages_of_def)
    then show ?thesis using p old authorised_message_of [of q r] by (auto simp: posts_ok_def)
  next
    case False
    have "message_of r \<in> set (messages_of ?st)" using in_messages_of [OF r] .
    then obtain i ok name content target header arg a b s t
      where "check_send config name content target header arg st = Inr (a, b, s, t)"
        "message_of r = message_of (new_message i a b s t content)"
      using messages_of_step [of config act st] False by auto
    then show ?thesis using check_send_authorised old authorised_message_of [of r] by blast
  qed
  moreover have "\<exists>r \<in> set (ms_messages ?st). am_id r = i \<and> am_to_session r = Some s"
    if inj: "(i, s) \<in> set (ms_injected ?st)" for i s
  proof -
    have "\<exists>q \<in> set (ms_messages st). am_id q = i \<and> am_to_session q = Some s"
    proof (cases "(i, s) \<in> set (ms_injected st)")
      case True
      then show ?thesis using p by (auto simp: posts_ok_def)
    next
      case False
      then obtain b d m where d: "drain_of b st = Some d" "ib_phase d = DrainClaimed m" "i = am_id m" "s = ib_session d"
        using sc inj by auto
      have "m \<in> set (claims st)"
        using d by (auto simp: claims_def drain_claims_def drain_of_def dest!: get_row_Some intro!: bexI [of _ d])
      then obtain r where r: "r \<in> set (ms_messages st)" "claim_row m r"
        using ok unfolding delivery_ok_def books_ok_def by blast
      then have "am_to_session r = Some s" "am_id r = i"
        using drain_row(3) [OF ok d(1,2) r] d(3,4) by (simp_all add: claim_row_def)
      then show ?thesis using r(1) by blast
    qed
    then obtain q where q: "q \<in> set (ms_messages st)" "am_id q = i" "am_to_session q = Some s" by blast
    obtain q' where "q' \<in> set (ms_messages ?st)" "message_of q' = message_of q" using q(1) by (rule step_row)
    then show ?thesis using q(2,3) by (intro bexI [of _ q']) (simp_all add: message_of_def)
  qed
  ultimately show ?thesis unfolding posts_ok_def by blast
qed

lemma posts_run:
  assumes "delivery_ok st" "posts_ok config st"
  shows "posts_ok config (run_messaging config acts st)"
  using assms unfolding run_messaging_def
  by (induction acts arbitrary: st) (simp_all add: messaging_step_ok posts_step)

lemma posts_start: "posts_ok config (messaging_start agents sessions)"
  by (simp add: posts_ok_def messaging_start_def)

lemma agents_run: "ms_agents (run_messaging config acts st) = ms_agents st"
  unfolding run_messaging_def by (induction acts arbitrary: st) (simp_all add: scene_step)


section \<open>Where the properties start\<close>

definition from_start ::
  "(agent \<Rightarrow> string \<times> string list) \<Rightarrow> messaging_action list \<Rightarrow> agent list \<Rightarrow> agent_session_row list \<Rightarrow> messaging" where
  "from_start config acts agents sessions = run_messaging config acts (messaging_start agents sessions)"

lemma from_start_ok: "delivery_ok (from_start config acts agents sessions)"
  unfolding from_start_def by (intro run_messaging_ok messaging_start_ok)

lemma from_start_posts: "posts_ok config (from_start config acts agents sessions)"
  unfolding from_start_def by (intro posts_run messaging_start_ok posts_start)

lemma from_start_agents: "ms_agents (from_start config acts agents sessions) = agents"
  by (simp add: from_start_def agents_run) (simp add: messaging_start_def)

lemma from_start_row:
  assumes "r \<in> set (ms_messages (from_start config acts agents sessions))"
  shows "row_ok (ms_created (from_start config acts agents sessions)) (ms_injected (from_start config acts agents sessions)) r"
    "authorised config (from_start config acts agents sessions) r"
  using from_start_ok [of config acts agents sessions] from_start_posts [of config acts agents sessions] assms
  by (simp_all add: delivery_ok_def books_ok_def posts_ok_def)

text \<open>A trace: agent 1 may write to agent 2; its message waits for the inbox of session 20 or for the dispatcher.\<close>

definition example_agents :: "agent list" where
  "example_agents = [\<lparr>a_id = 1, a_name = ''ann'', a_deleted_at = None\<rparr>, \<lparr>a_id = 2, a_name = ''bob'', a_deleted_at = None\<rparr>]"

definition example_sessions :: "agent_session_row list" where
  "example_sessions = [\<lparr>as_id = 10, as_agent = 1, as_status = SessionActive\<rparr>, \<lparr>as_id = 20, as_agent = 2, as_status = SessionActive\<rparr>]"

definition example_config :: "agent \<Rightarrow> string \<times> string list" where
  "example_config a = (a_name a, if a_id a = 1 then [''Bob''] else [])"

definition tell_bob :: "uuid \<Rightarrow> string option \<Rightarrow> messaging_action" where
  "tell_bob i session = SendAgentMessage i True ''bob'' ''hello'' session None (Some (str_uuid 10))"

lemma bob_may_be_told: "check_agent_message_authz (''ann'', [''Bob'']) ''bob''" "utf8_length ''hello'' = 5"
  by code_simp+

lemma first_id_str [simp]: "first_id None (Some (str_uuid u)) = Some (str_uuid u)"
proof -
  have "length (str_uuid u) = 36" by (simp add: str_uuid_def Let_def hex_digits_length)
  then show ?thesis by (cases "str_uuid u") (auto simp: first_id_def given_def)
qed

lemmas example_defs = example_agents_def example_sessions_def example_config_def tell_bob_def from_start_def run_messaging_def
  messaging_start_def

definition example_row :: agent_message where
  "example_row = new_message 5 (hd example_agents) (example_agents ! 1) 10 None ''hello''"

lemma tell_bob_start:
  "from_start example_config [tell_bob 5 None] example_agents example_sessions =
     (messaging_start example_agents example_sessions)
       \<lparr>ms_messages := [example_row], ms_clock := 1, ms_dispatch := [str_uuid 5]\<rparr>"
  by (simp add: example_defs send_agent_message_def check_send_def resolve_sender_def find_session_def find_agent_def
      bob_may_be_told MAX_CONTENT_BYTES_def check_target_def reopen_session_def push_message_def example_row_def)

lemma from_start_later: "from_start config (acts @ later) agents sessions = run_messaging config later (from_start config acts agents sessions)"
  by (simp add: from_start_def run_messaging_def)

lemma claimed_start:
  "from_start example_config ([tell_bob 5 None] @ [Listen, DeliverClaim 0 True]) example_agents example_sessions =
     (messaging_start example_agents example_sessions)
       \<lparr>ms_messages := [claimed_row 2 example_row], ms_clock := 2, ms_next := 1,
        ms_workers := [\<lparr>wk_id = 0, wk_phase = WorkerClaimed (claimed_row 2 example_row)\<rparr>]\<rparr>"
  unfolding from_start_later tell_bob_start
  by (simp add: run_messaging_def messaging_start_def listen_new_session_messages_def deliver_claim_def worker_phase_of_def
      in_semaphore_def MAX_CONCURRENT_DELIVERIES_def claim_message_def tick_def write_message_def set_worker_def
      example_row_def)

definition example_delivered :: agent_message where
  "example_delivered = (claimed_row 2 example_row)\<lparr>am_resolved_session := Some 30, am_status := MsgDelivered, am_delivered_at := Some 4\<rparr>"

lemma delivered_start:
  "ms_messages (from_start example_config
     (([tell_bob 5 None] @ [Listen, DeliverClaim 0 True]) @ [DeliverCreate 0 (\<lambda>_ _. Inr 30), DeliverRecord 0 True, DeliverMark 0 True])
     example_agents example_sessions) = [example_delivered]"
  unfolding from_start_later [of _ "[tell_bob 5 None] @ [Listen, DeliverClaim 0 True]"] claimed_start
  by (simp add: run_messaging_def messaging_start_def deliver_create_def deliver_record_def deliver_mark_def worker_phase_of_def
      find_agent_def example_agents_def write_owned_def tick_def write_message_def set_worker_def end_worker_def owned_def
      example_row_def claimed_row_def new_message_def example_delivered_def)

lemma str_uuid_parses [simp]: "readable_id (str_uuid u) = Some u"
  by (simp add: readable_id_def)

lemma requeue_all_lists:
  assumes "r \<in> set (ms_messages st)" "am_status r = MsgQueued"
  shows "case am_to_session r of
           None \<Rightarrow> str_uuid (am_id r) \<in> set (ms_dispatch (requeue_all (\<lambda>_. True) st))
         | Some s \<Rightarrow> str_uuid (am_id r) \<in> set (ms_inbox (requeue_all (\<lambda>_. True) st) s)"
proof (cases "am_to_session r")
  case None
  then have "r \<in> set (filter (\<lambda>r. am_to_session r = None) (queued_messages st))" using assms by (simp add: queued_messages_def)
  then have "str_uuid (am_id r) \<in> set (ms_dispatch (requeue_all (\<lambda>_. True) st))" by (simp add: requeue_all_def Let_def)
  then show ?thesis by (simp add: None)
next
  case (Some s)
  then have "r \<in> set (filter (\<lambda>r. am_to_session r = Some s) (queued_messages st))" using assms by (simp add: queued_messages_def)
  then have "str_uuid (am_id r) \<in> set (ms_inbox (requeue_all (\<lambda>_. True) st) s)" by (simp add: requeue_all_def Let_def)
  then show ?thesis by (simp add: Some)
qed

lemma restart_requeues:
  "restart_messaging (Pushes (\<lambda>_. True)) st = requeue_all (\<lambda>_. True) (restart_messaging (Pushes (\<lambda>_. False)) st)"
  by (simp add: restart_messaging_def recover_agent_messages_def requeue_all_def queued_messages_def Let_def)

lemma requeue_all_messages [simp]: "ms_messages (requeue_all p st) = ms_messages st"
  by (simp add: requeue_all_def Let_def)

section \<open>The properties\<close>

text \<open>
  C25: Whatever is sent, delivered, retried and recovered, every stored message is at most 64 KB
  long and was written from a session of its sender, whose configuration lists the recipient (or
  the sender itself or everybody); a message for a session is for a session of the recipient, and
  is put into no other session.
\<close>

theorem agent_messages_authorised:
  assumes "st = from_start config acts agents sessions" "r \<in> set (ms_messages st)"
  shows "(\<exists>a \<in> set agents. \<exists>b \<in> set agents. \<exists>s.
            a_id a = am_from_agent r \<and> a_id b = am_to_agent r \<and> check_agent_message_authz (config a) (a_name b) \<and>
            am_from_session r = Some s \<and> (s, a_id a) \<in> set (sessions_of st) \<and>
            (\<forall>t. am_to_session r = Some t \<longrightarrow> (t, a_id b) \<in> set (sessions_of st))) \<and>
         utf8_length (am_content r) \<le> 65536 \<and>
         (\<forall>s. (am_id r, s) \<in> set (ms_injected st) \<longrightarrow> am_to_session r = Some s)"
proof -
  have r: "authorised config st r" using assms from_start_row(2) by simp
  obtain a b where ab: "a \<in> set agents" "b \<in> set agents" "between config (sessions_of st) a b r"
    using r from_start_agents [of config acts agents sessions] unfolding authorised_def assms(1) by auto
  have "am_to_session r = Some s" if s: "(am_id r, s) \<in> set (ms_injected st)" for s
  proof -
    obtain q where q: "q \<in> set (ms_messages st)" "am_id q = am_id r" "am_to_session q = Some s"
      using from_start_posts [of config acts agents sessions] s unfolding posts_ok_def assms(1) by blast
    have "distinct (map am_id (ms_messages st))"
      using from_start_ok [of config acts agents sessions] by (simp add: assms(1) delivery_ok_def books_ok_def)
    then have "q = r" using distinct_key_unique q(1,2) assms(2) by metis
    then show ?thesis using q(3) by simp
  qed
  then show ?thesis using r ab unfolding between_def authorised_def MAX_CONTENT_BYTES_def by blast
qed

text \<open>
  C26: A message is claimed at most three times and at most one session is created per claim, so
  at most three sessions are ever created for it; it is queued only while attempts are left, and a
  message that is recorded as delivered names a session that was created for it or that it was put
  into.
\<close>

theorem agent_message_attempts_bounded:
  assumes "st = from_start config acts agents sessions" "r \<in> set (ms_messages st)"
  shows "length (filter (\<lambda>p. fst p = am_id r) (ms_created st)) \<le> am_attempts r \<and> am_attempts r \<le> 3 \<and>
    (am_status r = MsgQueued \<longrightarrow> am_attempts r < 3) \<and>
    (am_status r = MsgDelivered \<longrightarrow>
       (\<exists>s. am_resolved_session r = Some s \<and> (am_id r, s) \<in> set (ms_created st) \<union> set (ms_injected st)))"
proof -
  have "row_ok (ms_created st) (ms_injected st) r" "am_max_attempts r = 3"
    using assms from_start_row by (auto simp: authorised_def)
  then show ?thesis by (auto simp: row_ok_def created_for_def count_rows_def)
qed

text \<open>
  C27: At any moment no two coroutines hold a claim on the same message, and whoever holds one
  holds it on a row that is DELIVERING under its own token.
\<close>

theorem one_claim_per_message:
  "let st = from_start config acts agents sessions
   in distinct (map am_id (claims st)) \<and>
      (\<forall>m \<in> set (claims st). \<exists>r \<in> set (ms_messages st).
         am_id r = am_id m \<and> am_status r = MsgDelivering \<and> am_claimed_at r = am_claimed_at m)"
  using from_start_ok [of config acts agents sessions]
  by (fastforce simp: Let_def delivery_ok_def books_ok_def claim_row_def owned_def)

text \<open>
  C28: A delivered message and a message that was given up are final: no later step, a restart
  included, changes anything of the row.
\<close>

theorem finished_messages_final:
  assumes "r \<in> set (ms_messages (from_start config acts agents sessions))" "am_status r \<in> {MsgDelivered, MsgGivenUp}"
  shows "r \<in> set (ms_messages (from_start config (acts @ later) agents sessions))"
  using run_keeps_final [OF from_start_ok assms(1), of config later] assms(2)
  by (simp add: message_final_def from_start_def run_messaging_def)

text \<open>
  C29: A restart that reaches Redis leaves every queued message in the list from which it is
  delivered (the inbox of its session, or the list of the dispatcher), and leaves DELIVERING only
  messages without a session whose claim is younger than five minutes.
\<close>

theorem recovery_requeues:
  assumes "st = from_start config (acts @ [RestartMessaging (Pushes (\<lambda>_. True))]) agents sessions" "r \<in> set (ms_messages st)"
  shows "(am_status r = MsgQueued \<longrightarrow>
            (case am_to_session r of
               None \<Rightarrow> str_uuid (am_id r) \<in> set (ms_dispatch st)
             | Some s \<Rightarrow> str_uuid (am_id r) \<in> set (ms_inbox st s))) \<and>
         (am_status r = MsgDelivering \<longrightarrow>
            am_resolved_session r = None \<and>
            (\<exists>t. am_claimed_at r = Some t \<and> ms_clock st - STALE_DELIVERING_MICROSECONDS \<le> t))"
proof -
  let ?st = "from_start config acts agents sessions"
  let ?all = "Pushes (\<lambda>_. True)"
  have st: "st = restart_messaging ?all ?st" by (simp add: assms(1) from_start_def run_messaging_def)
  have clock: "ms_clock st = ms_clock ?st + 2" unfolding st by (rule restart_claims(2))
  obtain q where q: "q \<in> set (ms_messages ?st)" "r = reset_stale (ms_clock ?st + 2) (finalize_resolved (ms_clock ?st + 1) q)"
    using assms(2) unfolding st restart_rows by auto
  have "row_ok (ms_created ?st) (ms_injected ?st) q" using q(1) by (rule from_start_row(1))
  then have "am_status r = MsgDelivering \<longrightarrow> am_resolved_session r = None \<and> (\<exists>t. am_claimed_at r = Some t \<and>
      ms_clock st - STALE_DELIVERING_MICROSECONDS \<le> t)"
    unfolding q(2) clock row_ok_def reset_stale_def finalize_resolved_def stale_claim_def by (auto split: if_splits)
  moreover have "case am_to_session r of
               None \<Rightarrow> str_uuid (am_id r) \<in> set (ms_dispatch st)
             | Some s \<Rightarrow> str_uuid (am_id r) \<in> set (ms_inbox st s)" if "am_status r = MsgQueued"
    using requeue_all_lists [of r "restart_messaging (Pushes (\<lambda>_. False)) ?st"] that assms(2) unfolding st restart_requeues by simp
  ultimately show ?thesis by blast
qed


text \<open>
  A claim that was taken less than five minutes before the process ends is not released by
  the recovery, and nothing else releases it: until another restart the message stays DELIVERING,
  and no coroutine works on it, however long one waits and whatever else happens.
\<close>

theorem recent_claim_stranded:
  assumes "st = from_start config acts agents sessions" "r \<in> set (ms_messages st)"
    "am_status r = MsgDelivering" "am_resolved_session r = None" "am_claimed_at r = Some t"
    "ms_clock st + 2 - STALE_DELIVERING_MICROSECONDS \<le> t" "list_all (\<lambda>a. \<not> restarts a) later"
  shows "let final = from_start config (acts @ RestartMessaging res # later) agents sessions
         in r \<in> set (ms_messages final) \<and> am_id r \<notin> am_id ` set (claims final)"
proof -
  let ?st1 = "restart_messaging res st"
  have same: "reset_stale (ms_clock st + 2) r = r" "finalize_resolved (ms_clock st + 1) r = r"
    using assms(3-6) by (auto simp: finalize_resolved_def reset_stale_def stale_claim_def)
  have "r \<in> set (ms_messages ?st1)"
    unfolding restart_rows set_map by (intro image_eqI [OF _ assms(2)]) (simp add: same split: recovery_result.split)
  moreover have "claims ?st1 = []" by (rule restart_claims(1))
  ultimately have "unheld r ?st1" by (simp add: unheld_def claim_ids_def)
  moreover have "delivery_ok ?st1" using from_start_ok assms(1) restart_messaging_ok by simp
  ultimately have "unheld r (run_messaging config later ?st1)" using run_unheld assms(3,7) by simp
  then show ?thesis
    by (simp add: Let_def unheld_def claim_ids_def assms(1) from_start_def run_messaging_def)
qed

text \<open>How a reader takes the marker apart again.\<close>

definition read_marker :: "string \<Rightarrow> (string \<times> string) option" where
  "read_marker s =
     (let start = ''[External message from agent `''; rest = drop (length start) s;
          sender = takeWhile (\<lambda>c. c \<noteq> CHR ''`'') rest
      in if take (length start) s = start \<and> take 4 (drop (length sender) rest) = ''`]'' @ [CHR 0x0A, CHR 0x0A]
         then Some (sender, drop (length sender + 4) rest) else None)"

lemma read_wrapped: "CHR ''`'' \<notin> set name \<Longrightarrow> read_marker (wrap_fellow_agent_content name content) = Some (name, content)"
proof -
  assume "CHR ''`'' \<notin> set name"
  then have "takeWhile (\<lambda>c. c \<noteq> CHR ''`'') (name @ CHR ''`'' # rest) = name" for rest
    by (subst takeWhile_append2) auto
  then show ?thesis by (simp add: read_marker_def wrap_fellow_agent_content_def Let_def)
qed

text \<open>
  C30: The text that a session gets for a stored message starts with a marker from which the
  sender and the unchanged content can be read back, whatever the content is, when no agent has a
  backquote in its name.
\<close>

theorem injected_text_names_sender:
  assumes "st = from_start config acts agents sessions" "r \<in> set (ms_messages st)"
    "\<forall>a \<in> set agents. CHR ''`'' \<notin> set (a_name a)"
  shows "\<exists>a \<in> set agents. a_id a = am_from_agent r \<and>
           read_marker (injected_content st r) = Some (a_name a, am_content r)"
proof -
  have agents: "ms_agents st = agents" using assms(1) from_start_agents by simp
  have "authorised config st r" using assms(1,2) from_start_row(2) by simp
  then obtain b where "b \<in> set agents" "a_id b = am_from_agent r"
    unfolding authorised_def between_def agents by blast
  then have "find_agent (\<lambda>a. a_id a = am_from_agent r) st \<noteq> None"
    unfolding find_agent_def get_row_None agents by blast
  then obtain a where a: "find_agent (\<lambda>a. a_id a = am_from_agent r) st = Some a" by blast
  then have "a \<in> set agents" "a_id a = am_from_agent r" using find_agent_Some [OF a] agents by simp_all
  moreover from this have "read_marker (injected_content st r) = Some (a_name a, am_content r)"
    using read_wrapped assms(3) by (simp add: injected_content_def a)
  ultimately show ?thesis by blast
qed


section \<open>Witnesses\<close>

abbreviation example_delivery :: "messaging_action list" where
  "example_delivery \<equiv>
     ([tell_bob 5 None] @ [Listen, DeliverClaim 0 True]) @ [DeliverCreate 0 (\<lambda>_ _. Inr 30), DeliverRecord 0 True, DeliverMark 0 True]"

theorem agent_messages_authorised_witness:
  "let st = from_start example_config [tell_bob 5 None] example_agents example_sessions
   in (\<exists>a \<in> set example_agents. \<exists>b \<in> set example_agents. \<exists>s.
         a_id a = am_from_agent example_row \<and> a_id b = am_to_agent example_row \<and>
         check_agent_message_authz (example_config a) (a_name b) \<and>
         am_from_session example_row = Some s \<and> (s, a_id a) \<in> set (sessions_of st) \<and>
         (\<forall>t. am_to_session example_row = Some t \<longrightarrow> (t, a_id b) \<in> set (sessions_of st))) \<and>
      utf8_length (am_content example_row) \<le> 65536 \<and>
      (\<forall>s. (am_id example_row, s) \<in> set (ms_injected st) \<longrightarrow> am_to_session example_row = Some s)"
  unfolding Let_def by (rule agent_messages_authorised [OF refl]) (simp add: tell_bob_start)

theorem agent_message_attempts_bounded_witness:
  "let st = from_start example_config example_delivery example_agents example_sessions
   in length (filter (\<lambda>p. fst p = 5) (ms_created st)) \<le> 1 \<and>
      (\<exists>s. Some 30 = Some s \<and> (5, s) \<in> set (ms_created st) \<union> set (ms_injected st))"
  using agent_message_attempts_bounded [OF refl, of example_delivered example_config example_delivery example_agents example_sessions]
  unfolding delivered_start Let_def by (simp add: example_delivered_def example_row_def claimed_row_def new_message_def)

theorem one_claim_per_message_witness:
  "let st = from_start example_config ([tell_bob 5 None] @ [Listen, DeliverClaim 0 True]) example_agents example_sessions
   in distinct (map am_id (claims st)) \<and>
      (\<forall>m \<in> set (claims st). \<exists>r \<in> set (ms_messages st).
         am_id r = am_id m \<and> am_status r = MsgDelivering \<and> am_claimed_at r = am_claimed_at m)"
  by (rule one_claim_per_message)

theorem finished_messages_final_witness:
  "example_delivered \<in> set (ms_messages (from_start example_config
     (example_delivery @ [tell_bob 6 None, RestartMessaging (Pushes (\<lambda>_. True)), Listen, DeliverClaim 0 True]) example_agents example_sessions))"
proof (rule finished_messages_final)
  show "example_delivered \<in> set (ms_messages (from_start example_config example_delivery example_agents example_sessions))"
    unfolding delivered_start by simp
  show "am_status example_delivered \<in> {MsgDelivered, MsgGivenUp}" by (simp add: example_delivered_def)
qed

theorem recovery_requeues_witness:
  "let st = from_start example_config ([tell_bob 5 None] @ [RestartMessaging (Pushes (\<lambda>_. True))]) example_agents example_sessions
   in str_uuid 5 \<in> set (ms_dispatch st)"
proof -
  let ?st = "from_start example_config ([tell_bob 5 None] @ [RestartMessaging (Pushes (\<lambda>_. True))]) example_agents example_sessions"
  have "example_row \<in> set (ms_messages ?st)"
    unfolding from_start_later tell_bob_start
    by (simp add: run_messaging_def restart_messaging_def recover_agent_messages_def Let_def tick_def messaging_start_def
        finalize_resolved_def reset_stale_def stale_claim_def example_row_def)
  then show ?thesis using recovery_requeues [OF refl, of example_row example_config "[tell_bob 5 None]" example_agents example_sessions]
    by (simp add: Let_def example_row_def)
qed

theorem recent_claim_stranded_witness:
  "let final = from_start example_config
         (([tell_bob 5 None] @ [Listen, DeliverClaim 0 True]) @ RestartMessaging (Pushes (\<lambda>_. True)) # [TimePasses 86400000000, Listen])
         example_agents example_sessions
   in claimed_row 2 example_row \<in> set (ms_messages final) \<and> am_id (claimed_row 2 example_row) \<notin> am_id ` set (claims final)"
  by (rule recent_claim_stranded [OF refl, where t = 2])
    (simp_all only: claimed_start, simp_all add: messaging_start_def claimed_row_def example_row_def new_message_def
      STALE_DELIVERING_MICROSECONDS_def)

theorem injected_text_names_sender_witness:
  "\<exists>a \<in> set example_agents. a_id a = 1 \<and>
     read_marker (injected_content (from_start example_config [tell_bob 5 None] example_agents example_sessions) example_row) =
       Some (a_name a, ''hello'')"
proof -
  have "\<forall>a \<in> set example_agents. CHR ''`'' \<notin> set (a_name a)" by (simp add: example_agents_def)
  moreover have "example_row \<in> set (ms_messages (from_start example_config [tell_bob 5 None] example_agents example_sessions))"
    by (simp add: tell_bob_start)
  ultimately show ?thesis using injected_text_names_sender [OF refl, of example_row example_config "[tell_bob 5 None]" example_agents example_sessions]
    by (simp add: example_row_def new_message_def example_agents_def)
qed

end
