(* ===== verification/Subagents.thy ===== *)
theory Subagents
  imports Agent_Messages Subagent_Queue
begin

text \<open>
  Subagents (\<open>orchestration.py\<close>, \<open>tools/subagents.py\<close>, \<open>common/providers.py\<close> and the lookup of the
  parent in \<open>tools/mcp_instance.py\<close>): spawning, the resolution of the agent and its model, the
  coroutine \<open>run_subagent\<close> from its checks over the concurrency limits and the execution to the
  result on the parent's queue, and the cancellation of the subagents of a session.
\<close>

section \<open>Models\<close>

definition PROVIDERS :: "string list" where
  "PROVIDERS =
     [''anthropic'', ''openai'', ''zai'', ''minimax'', ''moonshot'', ''cerebras'', ''deepseek'', ''together'']"

definition DEFAULT_MODEL_ANTHROPIC :: string where
  "DEFAULT_MODEL_ANTHROPIC = ''anthropic/claude-sonnet-4-6''"

definition KNOWN_MODELS :: "string list" where
  "KNOWN_MODELS =
     [''anthropic/claude-opus-4-6'', ''anthropic/claude-sonnet-4-6'', ''anthropic/claude-haiku-4-5'',
      ''openai/gpt-4o'', ''openai/o3'', ''openai/gpt-4o-mini'', ''zai/glm-5'', ''minimax/MiniMax-M2.5'',
      ''minimax/MiniMax-M2.1'', ''moonshot/kimi-k2.5'', ''cerebras/gpt-oss-120b'',
      ''cerebras/qwen-3-235b-a22b-instruct-2507'', ''cerebras/zai-glm-4.7'', ''deepseek/deepseek-v4-flash'',
      ''deepseek/deepseek-v4-pro'', ''together/deepseek-ai/DeepSeek-V4-Flash-0731'', ''together/moonshotai/Kimi-K3'',
      ''together/zai-org/GLM-5.2'', ''together/Qwen/Qwen3.8-2.4T-A95B'', ''together/meta-models/Muse-Glimmer-30B'',
      ''together/thinkingmachines/Inkling'']"

datatype model_error = NoModel | BadModelFormat string | UnknownProvider string

definition parse_model_string :: "string \<Rightarrow> model_error + string \<times> string" where
  "parse_model_string model =
     (if CHR ''/'' \<notin> set model then Inl (BadModelFormat model)
      else
        (let provider = takeWhile (\<lambda>c. c \<noteq> CHR ''/'') model; model_id = tl (dropWhile (\<lambda>c. c \<noteq> CHR ''/'') model)
         in if provider \<in> set PROVIDERS then Inr (provider, model_id) else Inl (UnknownProvider provider)))"

text \<open>The \<open>or\<close> of several texts that may be missing or empty.\<close>

fun first_given :: "string option list \<Rightarrow> string option" where
  "first_given [] = None"
| "first_given (x # xs) = (case given x of Some s \<Rightarrow> Some s | None \<Rightarrow> first_given xs)"

definition resolve_model ::
  "string option \<Rightarrow> string option \<Rightarrow> string option \<Rightarrow> string option \<Rightarrow> model_error + string" where
  "resolve_model param_model agent_model parent_model default_model =
     (case first_given [param_model, agent_model, parent_model, default_model] of
        None \<Rightarrow> Inl NoModel
      | Some model \<Rightarrow> sum_bind (parse_model_string model) (\<lambda>_. Inr model))"

text \<open>
  \<open>route_model_stub\<close>. \<open>shuffled\<close>: the pool as \<open>random.shuffle\<close> leaves it.
\<close>

fun pick_diverse :: "nat \<Rightarrow> string list \<Rightarrow> string list \<Rightarrow> string list \<Rightarrow> string list" where
  "pick_diverse n [] selected providers = selected"
| "pick_diverse n (m # ms) selected providers =
     (if n \<le> length selected then selected
      else (case parse_model_string m of
              Inl _ \<Rightarrow> pick_diverse n ms selected providers
            | Inr (provider, _) \<Rightarrow>
                if provider \<in> set providers then pick_diverse n ms selected providers
                else pick_diverse n ms (selected @ [m]) (provider # providers)))"

fun fill_models :: "nat \<Rightarrow> string list \<Rightarrow> string list \<Rightarrow> string list" where
  "fill_models n [] selected = selected"
| "fill_models n (m # ms) selected =
     (if n \<le> length selected then selected
      else fill_models n ms (if m \<in> set selected then selected else selected @ [m]))"

definition route_model_stub :: "string list \<Rightarrow> int \<Rightarrow> string list option \<Rightarrow> string list" where
  "route_model_stub shuffled count candidates =
     (let pool = (case candidates of None \<Rightarrow> KNOWN_MODELS | Some [] \<Rightarrow> KNOWN_MODELS | Some ms \<Rightarrow> ms)
      in if count \<le> 0 then []
         else if count = 1 then [case pool of [] \<Rightarrow> DEFAULT_MODEL_ANTHROPIC | m # _ \<Rightarrow> m]
         else take (nat count)
                (fill_models (nat count) shuffled (pick_diverse (nat count) shuffled [] [])))"

section \<open>Agents and permissions\<close>

text \<open>\<open>ExecutorConfig\<close>: for a raw executor the model is that of the provider, otherwise it is the name of
  the command line tool.\<close>

record executor_config =
  ec_raw :: bool
  ec_model :: "string option"

definition llm_model :: "executor_config \<Rightarrow> string option" where
  "llm_model ec = (if ec_raw ec then ec_model ec else None)"

text \<open>An \<open>AgentSpec\<close> of the registry or an \<open>AgentConfig\<close> of the file system or the database.\<close>

record agent_source =
  sp_executor :: executor_config
  sp_tools :: "string \<Rightarrow> string option"
  sp_allowed_subagents :: "string list"
  sp_timeout_s :: int

record session_permissions =
  allowed_servers :: "string list"
  allowed_harness_tools :: "string list"

text \<open>\<open>context["permissions"]\<close>: the old form with denials, or the fields that are there.\<close>

datatype stored_permissions =
    DeniedForm "string list" "string list"
  | AllowedForm "string list option" "string list option"

definition RESTRICTED_HARNESS_TOOLS :: "string list" where
  "RESTRICTED_HARNESS_TOOLS =
     [''request_feedback'', ''send_slack_message'', ''new_task'', ''route_model'', ''create_agent'']"

definition BLOCKED_HARNESS_TOOLS :: "string list" where
  "BLOCKED_HARNESS_TOOLS =
     [''request_write_access'', ''list_available_repos'', ''create_pr'', ''list_agents'', ''schedule_agent_call'',
      ''schedule_recurring_agent_call'']"

definition full_access :: "string list \<Rightarrow> session_permissions" where
  "full_access ALL_MCP_SERVERS = \<lparr>allowed_servers = ALL_MCP_SERVERS, allowed_harness_tools = [''*'']\<rparr>"

definition restricted :: session_permissions where
  "restricted = \<lparr>allowed_servers = [''harness''], allowed_harness_tools = RESTRICTED_HARNESS_TOOLS\<rparr>"

definition from_context :: "string list \<Rightarrow> stored_permissions option \<Rightarrow> session_permissions" where
  "from_context ALL_MCP_SERVERS permissions =
     (case permissions of
        None \<Rightarrow> full_access ALL_MCP_SERVERS
      | Some (DeniedForm tools servers) \<Rightarrow>
          if tools \<noteq> [] \<or> servers \<noteq> [] then restricted else full_access ALL_MCP_SERVERS
      | Some (AllowedForm servers tools) \<Rightarrow>
          \<lparr>allowed_servers = (case servers of None \<Rightarrow> ALL_MCP_SERVERS | Some xs \<Rightarrow> xs),
           allowed_harness_tools = (case tools of None \<Rightarrow> [''*''] | Some xs \<Rightarrow> xs)\<rparr>)"

definition has_full_tool_access :: "session_permissions \<Rightarrow> bool" where
  "has_full_tool_access p \<longleftrightarrow> ''*'' \<in> set (allowed_harness_tools p)"

text \<open>The tools of a raw executor: what the session does not allow is denied.\<close>

definition effective_tools :: "session_permissions \<Rightarrow> (string \<Rightarrow> string option) \<Rightarrow> string \<Rightarrow> string option" where
  "effective_tools p tools =
     (if has_full_tool_access p then tools
      else (\<lambda>t. if t \<in> set BLOCKED_HARNESS_TOOLS \<and> t \<notin> set (allowed_harness_tools p) then Some ''deny'' else tools t))"


section \<open>State\<close>

text \<open>
  A row of \<open>agent_sessions\<close>, with the name of its agent (\<open>None\<close> when the agent's row is missing)
  and the two entries of its context that matter here.
\<close>

record sub_session =
  ss_id :: uuid
  ss_parent :: "uuid option"
  ss_agent :: "string option"
  ss_model :: "string option"
  ss_workspace :: "string option"
  ss_creator :: "string option"
  ss_status :: session_status
  ss_depth :: "nat option"
  ss_permissions :: "stored_permissions option"

text \<open>The arguments of a call of \<open>run_subagent\<close>.\<close>

record subagent_call =
  sc_agent_type :: string
  sc_prompt :: string
  sc_description :: string
  sc_model :: "string option"
  sc_parent :: "string option"
  sc_parent_model :: "string option"
  sc_workspace :: "string option"
  sc_permissions :: "stored_permissions option"
  sc_depth :: nat
  sc_pre_session_id :: uuid

datatype cli = ClaudeCode | Codex

text \<open>
  The coroutine \<open>run_subagent\<close>. \<open>RunCreating\<close>: the checks are done, the row is to be inserted;
  \<open>RunWaiting\<close>: it waits for a place of its tool; \<open>RunFailing\<close> and \<open>RunFinishing\<close>: the status of the
  row is to be written before the result is put.
\<close>

datatype run_phase =
    RunStarted
  | RunCreating string bool "cli option" int
  | RunWaiting string cli int
  | RunExecuting string "cli option" int
  | RunFailing string "cli option" string string "int option"
  | RunFinishing string string "int option" "rat option"

record subagent_run =
  rn_id :: nat
  rn_call :: subagent_call
  rn_session :: uuid
  rn_db :: "uuid option"
  rn_cancelled :: bool
  rn_phase :: run_phase

text \<open>
  \<open>oc_tracked\<close>: \<open>_active_subagent_tasks\<close>. \<open>oc_free\<close>: the places left in the semaphore of a tool.
  \<open>oc_drawn\<close> records the identifiers that \<open>uuid4\<close> returned, \<open>oc_memory\<close> those of them that name a
  \<open>SubagentSession\<close> in memory, \<open>oc_put\<close> the run of each result and the
  session whose queue got it, \<open>oc_died\<close> the runs that raised before they could put one, with the
  agent they were spawned for.
\<close>

record orchestration =
  oc_agents :: "string list"
  oc_sessions :: "sub_session list"
  oc_messages :: "(uuid \<times> string \<times> string) list"
  oc_tracked :: "uuid \<Rightarrow> nat option"
  oc_free :: "cli \<Rightarrow> nat"
  oc_runs :: "subagent_run list"
  oc_next :: nat
  oc_queues :: queue_state
  oc_drawn :: "uuid list"
  oc_memory :: "uuid list"
  oc_put :: "(nat \<times> string option \<times> subagent_result) list"
  oc_died :: "(nat \<times> string) list"

text \<open>
  What the program reads elsewhere: the registry of agents, the configurations of the file system
  (reading one may raise, for fields that are refused) and (when neither has the agent) of the
  database, the servers of \<open>ALL_MCP_SERVERS\<close>, and how values are printed in messages.
\<close>

record agent_env =
  en_spec :: "string \<Rightarrow> agent_source option"
  en_config :: "string \<Rightarrow> string + agent_source option"
  en_db_config :: "string \<Rightarrow> agent_source option"
  en_servers :: "string list"
  en_max :: "cli \<Rightarrow> nat"
  en_repr :: "string \<Rightarrow> string"
  en_int :: "int \<Rightarrow> string"
  en_error :: "model_error \<Rightarrow> string"

text \<open>
  \<open>validate_agent_name\<close>: the expression is \<open>^[a-z0-9][a-z0-9-]*$\<close>, whose \<open>$\<close> also matches before a
  line break at the end. \<open>load_agent_config\<close> raises for other names, before it looks for a file.
\<close>

definition agent_name_char :: "char \<Rightarrow> bool" where
  "agent_name_char c \<longleftrightarrow> c \<in> set ''abcdefghijklmnopqrstuvwxyz0123456789''"

definition validate_agent_name :: "string \<Rightarrow> bool" where
  "validate_agent_name name =
     (case (if name \<noteq> [] \<and> last name = CHR 0x0A then butlast name else name) of
        [] \<Rightarrow> False
      | c # cs \<Rightarrow> agent_name_char c \<and> list_all (\<lambda>c. agent_name_char c \<or> c = CHR ''-'') cs)"

definition load_agent_config :: "agent_env \<Rightarrow> string \<Rightarrow> string + agent_source option" where
  "load_agent_config env name =
     (if validate_agent_name name then en_config env name
      else Inl (''Invalid agent name: '' @ en_repr env name @ ''. Must match [a-z0-9-]+.''))"

definition MAX_SUBAGENT_DEPTH :: nat where
  "MAX_SUBAGENT_DEPTH = 2"

definition find_sub :: "uuid \<Rightarrow> orchestration \<Rightarrow> sub_session option" where
  "find_sub i st = get_row (\<lambda>s. ss_id s = i) (oc_sessions st)"

definition find_run :: "nat \<Rightarrow> orchestration \<Rightarrow> subagent_run option" where
  "find_run r st = get_row (\<lambda>x. rn_id x = r) (oc_runs st)"

definition set_run :: "nat \<Rightarrow> run_phase \<Rightarrow> orchestration \<Rightarrow> orchestration" where
  "set_run r ph st = st\<lparr>oc_runs := modify rn_id r (\<lambda>x. x\<lparr>rn_phase := ph\<rparr>) (oc_runs st)\<rparr>"

section \<open>new_task\<close>

datatype spawn_answer =
    BadSession
  | TaskRaises string
  | NotAllowed string string
  | Spawned uuid

text \<open>\<open>_resolve_parent_session\<close>: the agent's name, model, workspace, permissions and depth. The join
  needs the row of the agent.\<close>

definition resolve_parent_session ::
  "uuid \<Rightarrow> orchestration \<Rightarrow>
   string option \<times> string option \<times> string option \<times> stored_permissions option \<times> nat" where
  "resolve_parent_session u st =
     (case find_sub u st of
        None \<Rightarrow> (None, None, None, None, 0)
      | Some s \<Rightarrow>
          (case ss_agent s of
             None \<Rightarrow> (None, None, None, None, 0)
           | Some name \<Rightarrow>
               (Some name, ss_model s, ss_workspace s, ss_permissions s, case ss_depth s of None \<Rightarrow> 0 | Some d \<Rightarrow> d)))"

definition allowed_subagents :: "agent_env \<Rightarrow> string option \<Rightarrow> string + string list option" where
  "allowed_subagents env parent_agent_name =
     (case given parent_agent_name of
        None \<Rightarrow> Inr None
      | Some name \<Rightarrow>
          (case en_spec env name of
             Some spec \<Rightarrow> Inr (Some (sp_allowed_subagents spec))
           | None \<Rightarrow> sum_bind (load_agent_config env name) (\<lambda>c. Inr (map_option sp_allowed_subagents c))))"

definition may_spawn :: "string list option \<Rightarrow> string \<Rightarrow> bool" where
  "may_spawn allowed agent_type \<longleftrightarrow>
     (case allowed of None \<Rightarrow> True | Some names \<Rightarrow> ''*'' \<in> set names \<or> agent_type \<in> set names)"

definition spawn_run :: "subagent_call \<Rightarrow> uuid \<Rightarrow> orchestration \<Rightarrow> orchestration" where
  "spawn_run call session_id st =
     st\<lparr>oc_runs := oc_runs st @
          [\<lparr>rn_id = oc_next st, rn_call = call, rn_session = session_id, rn_db = None, rn_cancelled = False,
            rn_phase = RunStarted\<rparr>],
        oc_next := Suc (oc_next st), oc_drawn := sc_pre_session_id call # session_id # oc_drawn st,
        oc_memory := session_id # oc_memory st\<rparr>"

text \<open>
  \<open>pre_session_id\<close> and \<open>session_id\<close>: the two identifiers that \<open>uuid4\<close> will draw, for the row and for
  the \<open>SubagentSession\<close> in memory.
\<close>

definition new_task_tool ::
  "agent_env \<Rightarrow> uuid \<Rightarrow> uuid \<Rightarrow> string \<Rightarrow> string \<Rightarrow> string \<Rightarrow> string option \<Rightarrow> string option \<Rightarrow> string option \<Rightarrow>
   orchestration \<Rightarrow> spawn_answer \<times> orchestration" where
  "new_task_tool env pre_session_id session_id agent_type prompt description model header arg st =
     (let effective = first_id header arg;
          parent = (case effective of
                      None \<Rightarrow> Inr (None, None, None, None, 0)
                    | Some s \<Rightarrow> (case parse_uuid s of Inl _ \<Rightarrow> Inl BadSession | Inr u \<Rightarrow> Inr (resolve_parent_session u st)))
      in case parent of
           Inl e \<Rightarrow> (e, st)
         | Inr (name, parent_model, workspace, permissions, depth) \<Rightarrow>
             (case allowed_subagents env name of
                Inl e \<Rightarrow> (TaskRaises e, st)
              | Inr allowed \<Rightarrow>
                  if \<not> may_spawn allowed agent_type
                  then (NotAllowed (case name of None \<Rightarrow> '''' | Some n \<Rightarrow> n) agent_type, st)
                  else
                    (Spawned pre_session_id,
                     spawn_run
                       \<lparr>sc_agent_type = agent_type, sc_prompt = prompt, sc_description = description, sc_model = model,
                        sc_parent = effective, sc_parent_model = parent_model, sc_workspace = workspace,
                        sc_permissions = permissions, sc_depth = depth, sc_pre_session_id = pre_session_id\<rparr>
                       session_id st)))"

section \<open>run_subagent\<close>

text \<open>The result on the parent's queue; \<open>oc_put\<close> notes it. The coroutine is over.\<close>

definition result_of ::
  "subagent_call \<Rightarrow> string \<Rightarrow> string \<Rightarrow> string \<Rightarrow> string \<Rightarrow> int option \<Rightarrow> rat option \<Rightarrow> subagent_result" where
  "result_of call db_session_id model status text duration cost =
     \<lparr>sr_db_session_id = db_session_id, sr_agent_type = sc_agent_type call, sr_model = model, sr_status = status,
      sr_text = text, sr_duration_ms = duration, sr_cost_usd = cost, sr_description = sc_description call,
      sr_extra = []\<rparr>"

definition end_run :: "nat \<Rightarrow> subagent_call \<Rightarrow> subagent_result \<Rightarrow> orchestration \<Rightarrow> orchestration" where
  "end_run r call res st =
     st\<lparr>oc_runs := filter (\<lambda>x. rn_id x \<noteq> r) (oc_runs st),
        oc_queues := (case sc_parent call of None \<Rightarrow> oc_queues st | Some p \<Rightarrow> put_result p res (oc_queues st)),
        oc_put := oc_put st @ [(r, sc_parent call, res)]\<rparr>"

definition given_or_empty :: "string option \<Rightarrow> string" where
  "given_or_empty s = (case s of None \<Rightarrow> '''' | Some x \<Rightarrow> x)"

text \<open>
  \<open>load_agent_config\<close> is called outside every \<open>try\<close> of the coroutine: when it raises, the task ends
  with the exception, which is only logged, and nothing is put.
\<close>

definition die_run :: "nat \<Rightarrow> subagent_call \<Rightarrow> orchestration \<Rightarrow> orchestration" where
  "die_run r call st =
     st\<lparr>oc_runs := filter (\<lambda>x. rn_id x \<noteq> r) (oc_runs st), oc_died := oc_died st @ [(r, sc_agent_type call)]\<rparr>"

definition find_source :: "agent_env \<Rightarrow> string \<Rightarrow> string + (bool \<times> agent_source) option" where
  "find_source env agent_type =
     (case en_spec env agent_type of
        Some spec \<Rightarrow> Inr (Some (True, spec))
      | None \<Rightarrow>
          sum_bind (load_agent_config env agent_type) (\<lambda>c.
            Inr (case c of
                   Some c \<Rightarrow> Some (False, c)
                 | None \<Rightarrow> map_option (Pair False) (en_db_config env agent_type))))"

definition quoted :: "string \<Rightarrow> string" where
  "quoted s = CHR 0x27 # s @ [CHR 0x27]"

text \<open>Which semaphore limits the run: none for a raw executor of the registry.\<close>

definition cli_of :: "bool \<Rightarrow> agent_source \<Rightarrow> cli option" where
  "cli_of from_spec s =
     (if from_spec \<and> ec_raw (sp_executor s) then None
      else if ec_model (sp_executor s) \<in> {Some ''codex-cli'', Some ''codex-app-server''} then Some Codex
      else Some ClaudeCode)"

text \<open>From the start of the coroutine to the insertion of the row.\<close>

definition begin_run :: "agent_env \<Rightarrow> nat \<Rightarrow> orchestration \<Rightarrow> orchestration" where
  "begin_run env r st =
     (case find_run r st of
        None \<Rightarrow> st
      | Some x \<Rightarrow>
          if rn_phase x \<noteq> RunStarted then st
          else
            (let call = rn_call x;
                 refuse = (\<lambda>msg. end_run r call (result_of call '''' (given_or_empty (sc_model call)) ''error'' msg None None) st)
             in if MAX_SUBAGENT_DEPTH \<le> sc_depth call
                then refuse (''[ERROR] Subagent depth limit ('' @ en_int env (int MAX_SUBAGENT_DEPTH) @
                       '') reached. Cannot spawn '' @ quoted (sc_agent_type call) @ '' at depth '' @
                       en_int env (int (sc_depth call) + 1) @ ''.'')
                else
                  (case find_source env (sc_agent_type call) of
                     Inl e \<Rightarrow> die_run r call st
                   | Inr None \<Rightarrow>
                       refuse (''[ERROR] Unknown agent type: '' @ en_repr env (sc_agent_type call) @
                         ''. Not found in predefined configs, filesystem, or DB.'')
                   | Inr (Some (from_spec, s)) \<Rightarrow>
                       (case resolve_model (sc_model call) (if from_spec then llm_model (sp_executor s) else None)
                               (sc_parent_model call) (Some DEFAULT_MODEL_ANTHROPIC) of
                          Inl e \<Rightarrow> refuse (''[ERROR] Model resolution failed: '' @ en_error env e)
                        | Inr model \<Rightarrow>
                            set_run r (RunCreating model from_spec (cli_of from_spec s) (sp_timeout_s s)) st))))"

text \<open>
  \<open>_create_db_session\<close>. Without a row for the agent, or when the insertion fails (among others
  because the parent has no row), there is no session in the database.
\<close>

definition create_db_session :: "bool \<Rightarrow> subagent_call \<Rightarrow> string \<Rightarrow> orchestration \<Rightarrow> sub_session option" where
  "create_db_session db_ok call model st =
     (if \<not> db_ok \<or> sc_agent_type call \<notin> set (oc_agents st) then None
      else
        (let row = (\<lambda>parent creator.
               \<lparr>ss_id = sc_pre_session_id call, ss_parent = parent, ss_agent = Some (sc_agent_type call), ss_model = Some model,
                ss_workspace = sc_workspace call, ss_creator = creator, ss_status = SessionActive,
                ss_depth = Some (Suc (sc_depth call)), ss_permissions = sc_permissions call\<rparr>)
         in case sc_parent call of
              None \<Rightarrow> Some (row None None)
            | Some p \<Rightarrow>
                (case parse_uuid p of
                   Inl _ \<Rightarrow> None
                 | Inr u \<Rightarrow>
                     (case find_sub u st of
                        None \<Rightarrow> None
                      | Some parent \<Rightarrow> Some (row (Some u) (ss_creator parent))))))"

definition set_db :: "nat \<Rightarrow> uuid option \<Rightarrow> orchestration \<Rightarrow> orchestration" where
  "set_db r db st = st\<lparr>oc_runs := modify rn_id r (\<lambda>x. x\<lparr>rn_db := db\<rparr>) (oc_runs st)\<rparr>"

text \<open>The task of the execution is started and tracked.\<close>

definition launch :: "nat \<Rightarrow> uuid option \<Rightarrow> string \<Rightarrow> cli option \<Rightarrow> int \<Rightarrow> orchestration \<Rightarrow> orchestration" where
  "launch r db model c timeout st =
     (let st1 = set_run r (RunExecuting model c timeout) st
      in case db of None \<Rightarrow> st1 | Some i \<Rightarrow> st1\<lparr>oc_tracked := (oc_tracked st1)(i \<mapsto> r)\<rparr>)"

definition create_run :: "nat \<Rightarrow> bool \<Rightarrow> orchestration \<Rightarrow> orchestration" where
  "create_run r db_ok st =
     (case find_run r st of
        None \<Rightarrow> st
      | Some x \<Rightarrow>
          (case rn_phase x of
             RunCreating model from_spec c timeout \<Rightarrow>
               (let row = create_db_session db_ok (rn_call x) model st;
                    db = map_option ss_id row;
                    st1 = set_db r db (st\<lparr>oc_sessions := oc_sessions st @ (case row of None \<Rightarrow> [] | Some s \<Rightarrow> [s])\<rparr>)
                in case c of
                     None \<Rightarrow> launch r db model None timeout st1
                   | Some tool \<Rightarrow> set_run r (RunWaiting model tool timeout) st1)
           | _ \<Rightarrow> st))"

text \<open>A run that waits gets a place of its tool.\<close>

definition acquire_run :: "nat \<Rightarrow> orchestration \<Rightarrow> orchestration" where
  "acquire_run r st =
     (case find_run r st of
        None \<Rightarrow> st
      | Some x \<Rightarrow>
          (case rn_phase x of
             RunWaiting model tool timeout \<Rightarrow>
               if oc_free st tool = 0 then st
               else launch r (rn_db x) model (Some tool) timeout
                      (st\<lparr>oc_free := (oc_free st)(tool := oc_free st tool - 1)\<rparr>)
           | _ \<Rightarrow> st))"

text \<open>The \<open>finally\<close> block.\<close>

definition release_run :: "uuid option \<Rightarrow> cli option \<Rightarrow> orchestration \<Rightarrow> orchestration" where
  "release_run db c st =
     (let st1 = (case db of None \<Rightarrow> st | Some i \<Rightarrow> st\<lparr>oc_tracked := (oc_tracked st)(i := None)\<rparr>)
      in case c of None \<Rightarrow> st1 | Some tool \<Rightarrow> st1\<lparr>oc_free := (oc_free st1)(tool := Suc (oc_free st1 tool))\<rparr>)"

text \<open>
  How the task of the execution ends: with a result (whose messages are persisted in its own
  session), an exception, the timeout, or the cancellation by a stop. \<open>duration\<close>: the time that
  was measured.
\<close>

datatype execution_end =
    ExecutionDone string "int option" "rat option"
  | ExecutionRaises string
  | ExecutionTimesOut
  | ExecutionCancelled

definition execution_fails :: "agent_env \<Rightarrow> string \<Rightarrow> int \<Rightarrow> execution_end \<Rightarrow> string \<times> string" where
  "execution_fails env agent_type timeout outcome =
     (case outcome of
        ExecutionTimesOut \<Rightarrow>
          (''timeout'', ''[ERROR] Subagent '' @ quoted agent_type @ '' timed out after '' @ en_int env timeout @ ''s.'')
      | ExecutionCancelled \<Rightarrow> (''cancelled'', ''[INTERRUPTED] Subagent '' @ quoted agent_type @ '' cancelled.'')
      | ExecutionRaises e \<Rightarrow> (''error'', ''[ERROR] Subagent '' @ quoted agent_type @ '' failed: '' @ e)
      | ExecutionDone text _ _ \<Rightarrow> (''completed'', text))"

definition persist_subagent_messages :: "uuid option \<Rightarrow> string \<Rightarrow> string \<Rightarrow> orchestration \<Rightarrow> orchestration" where
  "persist_subagent_messages db prompt text st =
     (case db of None \<Rightarrow> st | Some i \<Rightarrow> st\<lparr>oc_messages := oc_messages st @ [(i, take 10000 prompt, text)]\<rparr>)"

definition execution_ends :: "agent_env \<Rightarrow> nat \<Rightarrow> execution_end \<Rightarrow> int \<Rightarrow> orchestration \<Rightarrow> orchestration" where
  "execution_ends env r outcome duration st =
     (case find_run r st of
        None \<Rightarrow> st
      | Some x \<Rightarrow>
          (case rn_phase x of
             RunExecuting model c timeout \<Rightarrow>
               (case outcome of
                  ExecutionDone text d cost \<Rightarrow>
                    set_run r (RunFinishing model text (Some (case d of None \<Rightarrow> duration | Some n \<Rightarrow> n)) cost)
                      (release_run (rn_db x) c (persist_subagent_messages (rn_db x) (sc_prompt (rn_call x)) text st))
                | _ \<Rightarrow>
                    if outcome = ExecutionCancelled \<and> \<not> rn_cancelled x then st
                    else
                      (let (status, text) = execution_fails env (sc_agent_type (rn_call x)) timeout outcome
                       in set_run r (RunFailing model c status text (Some duration)) st))
           | _ \<Rightarrow> st))"

text \<open>\<open>_update_db_session_status\<close>; a failure is logged.\<close>

definition update_sub_status :: "bool \<Rightarrow> uuid option \<Rightarrow> session_status \<Rightarrow> orchestration \<Rightarrow> orchestration" where
  "update_sub_status db_ok db status st =
     (case db of
        None \<Rightarrow> st
      | Some i \<Rightarrow>
          if db_ok then st\<lparr>oc_sessions := modify ss_id i (\<lambda>s. s\<lparr>ss_status := status\<rparr>) (oc_sessions st)\<rparr> else st)"

definition child_session_id :: "subagent_run \<Rightarrow> string" where
  "child_session_id x = str_uuid (case rn_db x of Some i \<Rightarrow> i | None \<Rightarrow> sc_pre_session_id (rn_call x))"

definition finish_run :: "nat \<Rightarrow> bool \<Rightarrow> orchestration \<Rightarrow> orchestration" where
  "finish_run r db_ok st =
     (case find_run r st of
        None \<Rightarrow> st
      | Some x \<Rightarrow>
          (case rn_phase x of
             RunFailing model c status text duration \<Rightarrow>
               end_run r (rn_call x) (result_of (rn_call x) (child_session_id x) model status text duration None)
                 (release_run (rn_db x) c (update_sub_status db_ok (rn_db x) SessionStale st))
           | RunFinishing model text duration cost \<Rightarrow>
               end_run r (rn_call x) (result_of (rn_call x) (child_session_id x) model ''completed'' text duration cost)
                 (update_sub_status db_ok (rn_db x) SessionCompleted st)
           | _ \<Rightarrow> st))"


section \<open>cancel_subagent_tasks\<close>

text \<open>The loop over the descendants, through rows that are ACTIVE; \<open>pop\<close> takes the last one.\<close>

definition active_children :: "sub_session list \<Rightarrow> uuid \<Rightarrow> uuid list" where
  "active_children rows i = map ss_id (filter (\<lambda>s. ss_parent s = Some i \<and> ss_status s = SessionActive) rows)"

partial_function (option) collect_descendants ::
  "sub_session list \<Rightarrow> uuid list \<Rightarrow> uuid list \<Rightarrow> uuid list option" where
  "collect_descendants rows to_visit descendants =
     (if to_visit = [] then Some descendants
      else
        (let children = active_children rows (last to_visit)
         in collect_descendants rows (butlast to_visit @ children) (descendants @ children)))"

definition executing :: "subagent_run \<Rightarrow> bool" where
  "executing x \<longleftrightarrow> (case rn_phase x of RunExecuting _ _ _ \<Rightarrow> True | _ \<Rightarrow> False)"

definition cancel_subagent :: "uuid \<Rightarrow> nat \<times> orchestration \<Rightarrow> nat \<times> orchestration" where
  "cancel_subagent i = (\<lambda>(cancelled, st).
     case oc_tracked st i of
       None \<Rightarrow> (cancelled, st)
     | Some r \<Rightarrow>
         (let st1 = st\<lparr>oc_tracked := (oc_tracked st)(i := None)\<rparr>
          in case find_run r st of
               None \<Rightarrow> (cancelled, st1)
             | Some x \<Rightarrow>
                 if executing x
                 then (Suc cancelled,
                       st1\<lparr>oc_runs := modify rn_id r (\<lambda>x. x\<lparr>rn_cancelled := True\<rparr>) (oc_runs st1)\<rparr>)
                 else (cancelled, st1)))"

definition cancel_subagent_tasks :: "uuid \<Rightarrow> orchestration \<Rightarrow> (nat \<times> orchestration) option" where
  "cancel_subagent_tasks parent_session_id st =
     map_option (\<lambda>ds. fold cancel_subagent ds (0, st))
       (collect_descendants (oc_sessions st) [parent_session_id] [])"

section \<open>Steps\<close>

text \<open>
  A task is spawned by the agent of a session in the database or by a subagent that is executing;
  the runner gives it its session identifier in the header. Identifiers are drawn by \<open>uuid4\<close>, which
  never draws one twice.
\<close>

datatype spawner = SessionSpawns uuid | RunSpawns nat

datatype orchestration_action =
    NewSession uuid "string option" "string option" "string option" "stored_permissions option"
  | SlackFollowUp uuid bool
  | Spawn spawner uuid uuid string string string "string option" "string option"
  | BeginRun nat
  | CreateRun nat bool
  | AcquireRun nat
  | ExecutionEnds nat execution_end int
  | FinishRun nat bool
  | CancelSubagents uuid
  | RegisterCallback
  | ResumeDrain nat

definition effective_session :: "subagent_run \<Rightarrow> uuid" where
  "effective_session x = (case rn_db x of Some i \<Rightarrow> i | None \<Rightarrow> rn_session x)"

definition spawner_session :: "spawner \<Rightarrow> orchestration \<Rightarrow> uuid option" where
  "spawner_session s st =
     (case s of
        SessionSpawns u \<Rightarrow> if find_sub u st = None then None else Some u
      | RunSpawns r \<Rightarrow>
          (case find_run r st of
             None \<Rightarrow> None
           | Some x \<Rightarrow> if executing x then Some (effective_session x) else None))"

definition new_root_session ::
  "uuid \<Rightarrow> string option \<Rightarrow> string option \<Rightarrow> string option \<Rightarrow> stored_permissions option \<Rightarrow> orchestration \<Rightarrow> orchestration" where
  "new_root_session i agent model creator permissions st =
     st\<lparr>oc_sessions := oc_sessions st @
          [\<lparr>ss_id = i, ss_parent = None, ss_agent = agent, ss_model = model, ss_workspace = None, ss_creator = creator,
            ss_status = SessionActive, ss_depth = None, ss_permissions = permissions\<rparr>],
        oc_drawn := i # oc_drawn st\<rparr>"

text \<open>
  A follow-up in a Slack thread: \<open>send_message\<close> replaces the permissions of the row by those of the
  sender. The rows of subagents (they have a parent) are not of Slack.
\<close>

definition follow_up_permissions :: "agent_env \<Rightarrow> bool \<Rightarrow> stored_permissions" where
  "follow_up_permissions env has_mcp_access =
     (let p = (if has_mcp_access then full_access (en_servers env) else restricted)
      in AllowedForm (Some (allowed_servers p)) (Some (allowed_harness_tools p)))"

definition slack_follow_up :: "agent_env \<Rightarrow> uuid \<Rightarrow> bool \<Rightarrow> orchestration \<Rightarrow> orchestration" where
  "slack_follow_up env i has_mcp_access st =
     (case find_sub i st of
        None \<Rightarrow> st
      | Some s \<Rightarrow>
          if ss_parent s \<noteq> None then st
          else st\<lparr>oc_sessions := modify ss_id i
                    (\<lambda>s. s\<lparr>ss_permissions := Some (follow_up_permissions env has_mcp_access)\<rparr>) (oc_sessions st)\<rparr>)"

fun orchestration_step :: "agent_env \<Rightarrow> orchestration_action \<Rightarrow> orchestration \<Rightarrow> orchestration" where
  "orchestration_step env (NewSession i agent model creator permissions) st =
     (if i \<in> set (oc_drawn st) then st else new_root_session i agent model creator permissions st)"
| "orchestration_step env (SlackFollowUp i has_mcp_access) st = slack_follow_up env i has_mcp_access st"
| "orchestration_step env (Spawn s pre mem agent_type prompt description model arg) st =
     (case spawner_session s st of
        None \<Rightarrow> st
      | Some u \<Rightarrow>
          if pre \<in> set (oc_drawn st) \<or> mem \<in> set (oc_drawn st) \<or> pre = mem then st
          else snd (new_task_tool env pre mem agent_type prompt description model (Some (str_uuid u)) arg st))"
| "orchestration_step env (BeginRun r) st = begin_run env r st"
| "orchestration_step env (CreateRun r ok) st = create_run r ok st"
| "orchestration_step env (AcquireRun r) st = acquire_run r st"
| "orchestration_step env (ExecutionEnds r outcome d) st = execution_ends env r outcome d st"
| "orchestration_step env (FinishRun r ok) st = finish_run r ok st"
| "orchestration_step env (CancelSubagents p) st =
     (case cancel_subagent_tasks p st of None \<Rightarrow> st | Some (_, st') \<Rightarrow> st')"
| "orchestration_step env RegisterCallback st = st\<lparr>oc_queues := register_delivery_callback (oc_queues st)\<rparr>"
| "orchestration_step env (ResumeDrain i) st = st\<lparr>oc_queues := resume_drain i (oc_queues st)\<rparr>"

definition orchestration_start :: "agent_env \<Rightarrow> string list \<Rightarrow> orchestration" where
  "orchestration_start env agents =
     \<lparr>oc_agents = agents, oc_sessions = [], oc_messages = [], oc_tracked = (\<lambda>_. None), oc_free = en_max env,
      oc_runs = [], oc_next = 0, oc_queues = no_queues, oc_drawn = [], oc_memory = [], oc_put = [], oc_died = []\<rparr>"

definition run_orchestration :: "agent_env \<Rightarrow> orchestration_action list \<Rightarrow> orchestration \<Rightarrow> orchestration" where
  "run_orchestration env acts st = fold (orchestration_step env) acts st"

end
