(* ===== verification/Subagent_Runs.thy ===== *)
theory Subagent_Runs
  imports Subagents
begin

text \<open>
  What every step of the subagent orchestration keeps: the accounts of the runs and their results,
  the places of the tools, the tree of the sessions.
\<close>

section \<open>Runs and results\<close>

definition results_for :: "string \<Rightarrow> orchestration \<Rightarrow> subagent_result list" where
  "results_for s st = map (snd \<circ> snd) (filter (\<lambda>e. fst (snd e) = Some s) (oc_put st))"

definition accounts_ok :: "orchestration \<Rightarrow> bool" where
  "accounts_ok st \<longleftrightarrow>
     distinct (map rn_id (oc_runs st) @ map fst (oc_put st) @ map fst (oc_died st)) \<and>
     rn_id ` set (oc_runs st) \<union> fst ` set (oc_put st) \<union> fst ` set (oc_died st) = {..<oc_next st} \<and>
     queues_ok (oc_queues st) \<and> (\<forall>s. history s (oc_queues st) = results_for s st)"

text \<open>What of the state the accounts are about.\<close>

definition ledger ::
  "orchestration \<Rightarrow> nat list \<times> nat \<times> queue_state \<times> (nat \<times> string option \<times> subagent_result) list \<times> (nat \<times> string) list"
  where "ledger st = (map rn_id (oc_runs st), oc_next st, oc_queues st, oc_put st, oc_died st)"

lemma accounts_cong: "accounts_ok st \<Longrightarrow> ledger st' = ledger st \<Longrightarrow> accounts_ok st'"
proof -
  assume ok: "accounts_ok st" and l: "ledger st' = ledger st"
  have e: "map rn_id (oc_runs st') = map rn_id (oc_runs st)" "oc_next st' = oc_next st" "oc_queues st' = oc_queues st"
    "oc_put st' = oc_put st" "oc_died st' = oc_died st" using l by (simp_all add: ledger_def)
  then have "rn_id ` set (oc_runs st') = rn_id ` set (oc_runs st)" by (metis list.set_map)
  then show ?thesis using ok e by (simp add: accounts_ok_def results_for_def)
qed

lemma ledger_frame [simp]:
  "ledger (set_run r ph st) = ledger st" "ledger (set_db r db st) = ledger st" "ledger (launch r db m c t st) = ledger st"
  "ledger (release_run db c st) = ledger st" "ledger (persist_subagent_messages db p x st) = ledger st"
  "ledger (update_sub_status ok db ss st) = ledger st" "ledger (st\<lparr>oc_sessions := rows\<rparr>) = ledger st"
  "ledger (st\<lparr>oc_free := fr\<rparr>) = ledger st" "ledger (st\<lparr>oc_sessions := rows, oc_drawn := ds\<rparr>) = ledger st"
  by (simp_all add: ledger_def set_run_def set_db_def launch_def release_run_def persist_subagent_messages_def
      update_sub_status_def modify_keys Let_def split: option.split)

lemma ledger_cancel: "ledger (snd (cancel_subagent i (n, st))) = ledger st"
  by (simp add: cancel_subagent_def ledger_def modify_keys Let_def split: option.split)

lemma ledger_cancels: "ledger (snd (fold cancel_subagent ds c)) = ledger (snd c)"
proof (induction ds arbitrary: c)
  case (Cons i ds)
  then show ?case using ledger_cancel [of i "fst c" "snd c"] by simp
qed simp

lemma find_run_Some: "find_run r st = Some x \<Longrightarrow> x \<in> set (oc_runs st) \<and> rn_id x = r"
  unfolding find_run_def by (rule get_row_Some)

lemma run_split:
  assumes "accounts_ok st" "find_run r st = Some x"
  obtains as bs where "oc_runs st = as @ x # bs" "rn_id x = r" "\<forall>f. modify rn_id r f (oc_runs st) = as @ f x # bs"
    "filter (\<lambda>x. rn_id x \<noteq> r) (oc_runs st) = as @ bs"
proof -
  have "distinct (map rn_id (oc_runs st))" using assms(1) by (simp add: accounts_ok_def)
  then show ?thesis using split_entry [of rn_id "oc_runs st" r x] assms(2) that unfolding find_run_def by metis
qed

text \<open>A run that ends moves from the runs to the results.\<close>

lemma end_run_accounts:
  assumes ok: "accounts_ok st" and x: "find_run r st = Some x"
  shows "accounts_ok (end_run r call res st)"
proof -
  obtain as bs where s: "oc_runs st = as @ x # bs" "rn_id x = r" "filter (\<lambda>x. rn_id x \<noteq> r) (oc_runs st) = as @ bs"
    using run_split [OF ok x] by metis
  let ?st = "end_run r call res st"
  have runs: "oc_runs ?st = as @ bs" and put: "oc_put ?st = oc_put st @ [(r, sc_parent call, res)]" and n: "oc_next ?st = oc_next st"
    and died: "oc_died ?st = oc_died st" using s(3) by (simp_all add: end_run_def)
  have "distinct (map rn_id (oc_runs ?st) @ map fst (oc_put ?st) @ map fst (oc_died ?st))"
    using ok s(2) unfolding accounts_ok_def s(1) runs put died by auto
  moreover have "rn_id ` set (oc_runs ?st) \<union> fst ` set (oc_put ?st) = rn_id ` set (oc_runs st) \<union> fst ` set (oc_put st)"
    using s(2) unfolding s(1) runs put by auto
  moreover have "queues_ok (oc_queues ?st) \<and> (\<forall>p. history p (oc_queues ?st) = results_for p ?st)"
  proof (cases "sc_parent call")
    case None
    then show ?thesis using ok by (simp add: accounts_ok_def end_run_def results_for_def)
  next
    case (Some p)
    have q: "queues_ok (oc_queues st)" using ok by (simp add: accounts_ok_def)
    show ?thesis using put_result_ok [OF q] ok Some by (simp add: accounts_ok_def end_run_def results_for_def)
  qed
  ultimately show ?thesis using ok n died by (simp add: accounts_ok_def)
qed

text \<open>A run that dies leaves no result.\<close>

lemma die_run_accounts:
  assumes ok: "accounts_ok st" and x: "find_run r st = Some x"
  shows "accounts_ok (die_run r call st)"
proof -
  obtain as bs where s: "oc_runs st = as @ x # bs" "rn_id x = r" "filter (\<lambda>x. rn_id x \<noteq> r) (oc_runs st) = as @ bs"
    using run_split [OF ok x] by metis
  let ?st = "die_run r call st"
  have runs: "oc_runs ?st = as @ bs" and died: "oc_died ?st = oc_died st @ [(r, sc_agent_type call)]"
    and rest: "oc_put ?st = oc_put st" "oc_next ?st = oc_next st" "oc_queues ?st = oc_queues st"
    using s(3) by (simp_all add: die_run_def)
  have "distinct (map rn_id (oc_runs ?st) @ map fst (oc_put ?st) @ map fst (oc_died ?st))"
    using ok s(2) unfolding accounts_ok_def s(1) runs died rest by auto
  moreover have "rn_id ` set (oc_runs ?st) \<union> fst ` set (oc_put ?st) \<union> fst ` set (oc_died ?st) = {..<oc_next ?st}"
    using ok s(2) unfolding accounts_ok_def s(1) runs died rest by auto
  ultimately show ?thesis using ok by (simp add: accounts_ok_def results_for_def rest)
qed

lemma start_run_accounts:
  assumes ok: "accounts_ok st"
  shows "accounts_ok (spawn_run call mem st)"
proof -
  have "oc_next st \<notin> rn_id ` set (oc_runs st) \<union> fst ` set (oc_put st) \<union> fst ` set (oc_died st)" using ok by (simp add: accounts_ok_def)
  then show ?thesis using ok by (auto simp: accounts_ok_def spawn_run_def results_for_def lessThan_Suc)
qed

lemma find_run_ledger: "find_run r st = Some x \<Longrightarrow> ledger st' = ledger st \<Longrightarrow> \<exists>y. find_run r st' = Some y"
proof -
  assume "find_run r st = Some x" "ledger st' = ledger st"
  then have "r \<in> set (map rn_id (oc_runs st'))" using find_run_Some [of r st x] unfolding ledger_def by auto
  then have "find_run r st' \<noteq> None" unfolding find_run_def get_row_None by auto
  then show ?thesis by blast
qed

lemma end_after_accounts:
  assumes "accounts_ok st" "find_run r st = Some x" "ledger st' = ledger st"
  shows "accounts_ok (end_run r call res st')"
  using end_run_accounts [OF accounts_cong [OF assms(1,3)]] find_run_ledger [OF assms(2,3)] by blast

lemma begin_run_accounts:
  assumes ok: "accounts_ok st"
  shows "accounts_ok (begin_run env r st)"
proof (cases "find_run r st")
  case None
  then show ?thesis using ok by (simp add: begin_run_def)
next
  case (Some x)
  have "accounts_ok (set_run r ph st)" for ph by (rule accounts_cong [OF ok]) simp
  then show ?thesis using ok end_run_accounts [OF ok Some] die_run_accounts [OF ok Some] Some
    by (simp add: begin_run_def Let_def split: option.split sum.split prod.split)
qed

lemma run_steps_accounts:
  assumes ok: "accounts_ok st"
  shows "accounts_ok (create_run r db_ok st)" "accounts_ok (acquire_run r st)" "accounts_ok (execution_ends env r outcome d st)"
    "accounts_ok (finish_run r db_ok st)"
proof -
  have l: "ledger (create_run r db_ok st) = ledger st" "ledger (acquire_run r st) = ledger st"
    "ledger (execution_ends env r outcome d st) = ledger st"
    by (simp_all add: create_run_def acquire_run_def execution_ends_def Let_def split: option.split run_phase.split execution_end.split prod.split)
  show "accounts_ok (create_run r db_ok st)" "accounts_ok (acquire_run r st)" "accounts_ok (execution_ends env r outcome d st)"
    by (rule accounts_cong [OF ok]; rule l)+
  show "accounts_ok (finish_run r db_ok st)"
    using ok end_after_accounts [OF ok] by (simp add: finish_run_def split: option.split run_phase.split)
qed

lemma new_task_runs:
  "snd (new_task_tool env pre mem agent_type prompt description model header arg st) = st \<or>
   (\<exists>call. sc_pre_session_id call = pre \<and> snd (new_task_tool env pre mem agent_type prompt description model header arg st) = spawn_run call mem st)"
proof -
  have "\<exists>call. sc_pre_session_id call = pre \<and> spawn_run c mem st = spawn_run call mem st" if "sc_pre_session_id c = pre" for c
    using that by blast
  then show ?thesis by (auto simp: new_task_tool_def Let_def split: option.split sum.split prod.split)
qed

lemma step_accounts:
  assumes ok: "accounts_ok st"
  shows "accounts_ok (orchestration_step env act st)"
proof (cases act)
  case (NewSession i agent model creator permissions)
  then show ?thesis using accounts_cong [OF ok, of "new_root_session i agent model creator permissions st"] ok
    by (simp add: new_root_session_def)
next
  case (SlackFollowUp i has)
  show ?thesis unfolding SlackFollowUp
    by (rule accounts_cong [OF ok]) (simp add: slack_follow_up_def split: option.split)
next
  case (Spawn s pre mem agent_type prompt description model arg)
  then show ?thesis using ok start_run_accounts [OF ok] new_task_runs
    by (simp split: option.split) metis
next
  case (CancelSubagents p)
  have "accounts_ok (snd (fold cancel_subagent ds (0, st)))" for ds
    by (rule accounts_cong [OF ok]) (simp add: ledger_cancels)
  then show ?thesis using CancelSubagents ok
    by (auto simp: cancel_subagent_tasks_def case_prod_beta split: option.split)
next
  case RegisterCallback
  then show ?thesis using ok by (simp add: accounts_ok_def register_ok results_for_def)
next
  case (ResumeDrain i)
  have q: "queues_ok (oc_queues st)" using ok by (simp add: accounts_ok_def)
  show ?thesis
  proof (cases "i < length (sq_tasks (oc_queues st))")
    case True
    then show ?thesis using ResumeDrain ok resume_drain_ok [OF q True] by (simp add: accounts_ok_def results_for_def)
  next
    case False
    then show ?thesis using ResumeDrain ok by (simp add: resume_drain_out)
  qed
qed (simp_all add: begin_run_accounts run_steps_accounts ok)

lemma start_accounts: "accounts_ok (orchestration_start env agents)"
  using run_queues_ok(1) [of "[]"] run_queues_ok(2) [of _ "[]"]
  by (simp add: accounts_ok_def orchestration_start_def results_for_def run_queues_def puts_of_def)


section \<open>Places of the tools\<close>

fun holds_place :: "cli \<Rightarrow> run_phase \<Rightarrow> bool" where
  "holds_place tool (RunExecuting m c t) \<longleftrightarrow> c = Some tool"
| "holds_place tool (RunFailing m c s x d) \<longleftrightarrow> c = Some tool"
| "holds_place tool _ \<longleftrightarrow> False"

definition places_held :: "cli \<Rightarrow> orchestration \<Rightarrow> nat" where
  "places_held tool st = count_rows (\<lambda>x. holds_place tool (rn_phase x)) (oc_runs st)"

definition places_ok :: "agent_env \<Rightarrow> orchestration \<Rightarrow> bool" where
  "places_ok env st \<longleftrightarrow> (\<forall>tool. oc_free st tool + places_held tool st = en_max env tool)"

lemma held_cong: "oc_runs st' = oc_runs st \<Longrightarrow> places_held tool st' = places_held tool st"
  by (simp add: places_held_def)

lemma count_rows_append: "count_rows p (as @ bs) = count_rows p as + count_rows p bs"
  by (simp add: count_rows_def)

lemma held_set_run:
  assumes "accounts_ok st" "find_run r st = Some x"
  shows "places_held tool (set_run r ph st) + of_bool (holds_place tool (rn_phase x)) = places_held tool st + of_bool (holds_place tool ph)"
proof -
  obtain as bs where s: "oc_runs st = as @ x # bs" "\<forall>f. modify rn_id r f (oc_runs st) = as @ f x # bs"
    using run_split [OF assms] by metis
  have "oc_runs (set_run r ph st) = as @ x\<lparr>rn_phase := ph\<rparr> # bs" using s(2) by (simp add: set_run_def)
  then show ?thesis unfolding places_held_def s(1) by (simp add: count_rows_append)
qed

lemma held_end_run:
  assumes "accounts_ok st" "find_run r st = Some x"
  shows "places_held tool (end_run r call res st) + of_bool (holds_place tool (rn_phase x)) = places_held tool st"
proof -
  obtain as bs where s: "oc_runs st = as @ x # bs" "filter (\<lambda>x. rn_id x \<noteq> r) (oc_runs st) = as @ bs"
    using run_split [OF assms] by metis
  have "oc_runs (end_run r call res st) = as @ bs" using s(2) by (simp add: end_run_def)
  then show ?thesis unfolding places_held_def s(1) by (simp add: count_rows_append)
qed

lemma held_die_run:
  assumes "accounts_ok st" "find_run r st = Some x"
  shows "places_held tool (die_run r call st) + of_bool (holds_place tool (rn_phase x)) = places_held tool st"
proof -
  have "places_held tool (die_run r call st) = places_held tool (end_run r call res st)" for res
    by (simp add: places_held_def die_run_def end_run_def)
  then show ?thesis using held_end_run [OF assms] by metis
qed

lemma held_set_db: "places_held tool (set_db r db st) = places_held tool st"
  unfolding places_held_def set_db_def by (simp add: count_rows_modify)

lemma find_set_db: "find_run r (set_db r db st) = map_option (\<lambda>x. x\<lparr>rn_db := db\<rparr>) (find_run r st)"
  unfolding find_run_def set_db_def using get_row_modify [of rn_id r "\<lambda>x. x\<lparr>rn_db := db\<rparr>" "oc_runs st"] by simp

lemma find_run_cong: "oc_runs st' = oc_runs st \<Longrightarrow> find_run r st' = find_run r st"
  by (simp add: find_run_def)

lemma runs_frame [simp]:
  "oc_runs (release_run db c st) = oc_runs st" "oc_runs (persist_subagent_messages db p x st) = oc_runs st"
  "oc_runs (update_sub_status ok db ss st) = oc_runs st"
  by (simp_all add: release_run_def persist_subagent_messages_def update_sub_status_def Let_def split: option.split)

lemma free_frame [simp]:
  "oc_free (set_run r ph st) = oc_free st" "oc_free (set_db r db st) = oc_free st" "oc_free (launch r db m c t st) = oc_free st"
  "oc_free (persist_subagent_messages db p x st) = oc_free st" "oc_free (update_sub_status ok db ss st) = oc_free st"
  "oc_free (end_run r call res st) = oc_free st" "oc_free (die_run r call st) = oc_free st"
  "oc_free (release_run db c st) tool = oc_free st tool + of_bool (c = Some tool)"
  by (simp_all add: set_run_def set_db_def launch_def release_run_def persist_subagent_messages_def
      update_sub_status_def end_run_def die_run_def Let_def split: option.split)

lemma held_launch: "places_held tool (launch r db m c t st) = places_held tool (set_run r (RunExecuting m c t) st)"
  by (simp add: places_held_def launch_def Let_def split: option.split)

lemma places_same:
  assumes "places_ok env st" "\<And>tool. oc_free st' tool + places_held tool st' = oc_free st tool + places_held tool st"
  shows "places_ok env st'"
  using assms by (simp add: places_ok_def)

lemma begin_run_places:
  assumes ok: "accounts_ok st" and p: "places_ok env' st"
  shows "places_ok env' (begin_run env r st)"
proof (cases "find_run r st")
  case None
  then show ?thesis using p by (simp add: begin_run_def)
next
  case (Some x)
  show ?thesis
  proof (cases "rn_phase x = RunStarted")
    case True
    have "places_ok env' (set_run r (RunCreating m b c t) st)" for m b c t
      using held_set_run [OF ok Some, of _ "RunCreating m b c t"] True by (intro places_same [OF p]) simp
    moreover have "places_ok env' (end_run r call res st)" for call res
      using held_end_run [OF ok Some, of _ call res] True by (intro places_same [OF p]) simp
    moreover have "places_ok env' (die_run r call st)" for call
      using held_die_run [OF ok Some, of _ call] True by (intro places_same [OF p]) simp
    ultimately show ?thesis using p Some by (simp add: begin_run_def Let_def split: option.split sum.split prod.split)
  next
    case False
    then show ?thesis using p Some by (simp add: begin_run_def)
  qed
qed

lemma create_run_places:
  assumes ok: "accounts_ok st" and p: "places_ok env st"
  shows "places_ok env (create_run r db_ok st)"
proof (cases "\<exists>x model b c t. find_run r st = Some x \<and> rn_phase x = RunCreating model b c t")
  case False
  then show ?thesis using p by (auto simp: create_run_def split: option.split run_phase.split)
next
  case True
  then obtain x model b c t where x: "find_run r st = Some x" "rn_phase x = RunCreating model b c t" by blast
  have main: "places_ok env (set_run r ph (set_db r db (st\<lparr>oc_sessions := rows\<rparr>)))"
    if ph: "\<And>tool. \<not> holds_place tool ph" for ph db rows
  proof -
    let ?st = "set_db r db (st\<lparr>oc_sessions := rows\<rparr>)"
    have acc: "accounts_ok ?st" by (rule accounts_cong [OF ok]) simp
    have f: "find_run r ?st = Some (x\<lparr>rn_db := db\<rparr>)"
      using x(1) find_run_cong [of "st\<lparr>oc_sessions := rows\<rparr>" st r] by (simp add: find_set_db)
    have "places_held tool ?st = places_held tool st" for tool
      using held_set_db [of tool r db "st\<lparr>oc_sessions := rows\<rparr>"] held_cong [of "st\<lparr>oc_sessions := rows\<rparr>" st tool] by simp
    then show ?thesis using held_set_run [OF acc f, of _ ph] x(2) ph by (intro places_same [OF p]) simp
  qed
  have raw: "places_ok env (launch r db model None t (set_db r db (st\<lparr>oc_sessions := rows\<rparr>)))" for db rows
    using main [of "RunExecuting model None t" db rows] by (simp add: places_ok_def held_launch)
  show ?thesis using x raw main by (simp add: create_run_def Let_def split: option.split)
qed

lemma acquire_run_places:
  assumes ok: "accounts_ok st" and p: "places_ok env st"
  shows "places_ok env (acquire_run r st)"
proof (cases "\<exists>x model tool t. find_run r st = Some x \<and> rn_phase x = RunWaiting model tool t \<and> oc_free st tool \<noteq> 0")
  case False
  then show ?thesis using p by (auto simp: acquire_run_def split: option.split run_phase.split)
next
  case True
  then obtain x model tool t where x: "find_run r st = Some x" "rn_phase x = RunWaiting model tool t" "oc_free st tool \<noteq> 0"
    by blast
  let ?st = "st\<lparr>oc_free := (oc_free st)(tool := oc_free st tool - 1)\<rparr>"
  have acc: "accounts_ok ?st" by (rule accounts_cong [OF ok]) simp
  have f: "find_run r ?st = Some x" using x(1) by (simp add: find_run_def)
  have "places_held tool' ?st = places_held tool' st" for tool' by (simp add: places_held_def)
  then have "places_held tool' (launch r db model (Some tool) t ?st) = places_held tool' st + of_bool (tool = tool')" for db tool'
    using held_set_run [OF acc f, of tool' "RunExecuting model (Some tool) t"] x(2) by (simp add: held_launch)
  then have "places_ok env (launch r db model (Some tool) t ?st)" for db
    using x(3) by (intro places_same [OF p]) simp
  then show ?thesis using x by (simp add: acquire_run_def)
qed

lemma execution_ends_places:
  assumes ok: "accounts_ok st" and p: "places_ok env st"
  shows "places_ok env (execution_ends env' r outcome d st)"
proof (cases "\<exists>x model c t. find_run r st = Some x \<and> rn_phase x = RunExecuting model c t")
  case False
  then show ?thesis using p by (auto simp: execution_ends_def split: option.split run_phase.split)
next
  case True
  then obtain x model c t where x: "find_run r st = Some x" "rn_phase x = RunExecuting model c t" by blast
  have failing: "places_ok env (set_run r (RunFailing model c s msg du) st)" for s msg du
    using held_set_run [OF ok x(1), of _ "RunFailing model c s msg du"] x(2) by (intro places_same [OF p]) simp
  have ends: "places_ok env (set_run r (RunFinishing model msg du co) (release_run db c (persist_subagent_messages db q y st)))"
    for msg du co db q y
  proof -
    let ?st = "release_run db c (persist_subagent_messages db q y st)"
    have acc: "accounts_ok ?st" by (rule accounts_cong [OF ok]) simp
    have f: "find_run r ?st = Some x" using x(1) by (simp add: find_run_def)
    have "places_held tool ?st = places_held tool st" for tool by (simp add: places_held_def)
    then have "places_held tool (set_run r (RunFinishing model msg du co) ?st) + of_bool (c = Some tool) = places_held tool st" for tool
      using held_set_run [OF acc f, of tool "RunFinishing model msg du co"] x(2) by simp
    note h = this
    show ?thesis
    proof (rule places_same [OF p])
      show "oc_free (set_run r (RunFinishing model msg du co) ?st) tool + places_held tool (set_run r (RunFinishing model msg du co) ?st) =
          oc_free st tool + places_held tool st" for tool using h [of tool] by simp
    qed
  qed
  show ?thesis using x failing ends p by (simp add: execution_ends_def split: execution_end.split prod.split)
qed

lemma finish_run_places:
  assumes ok: "accounts_ok st" and p: "places_ok env st"
  shows "places_ok env (finish_run r db_ok st)"
proof (cases "find_run r st")
  case None
  then show ?thesis using p by (simp add: finish_run_def)
next
  case (Some x)
  have over: "places_held tool (end_run r call res st') + of_bool (holds_place tool (rn_phase x)) = places_held tool st"
    if "oc_runs st' = oc_runs st" "ledger st' = ledger st" for tool call res st'
    using held_end_run [OF accounts_cong [OF ok that(2)], of r x tool call res] find_run_cong [OF that(1), of r] Some
      held_cong [OF that(1), of tool] by simp
  show ?thesis
  proof (cases "rn_phase x")
    case (RunFailing model c status msg d)
    have "places_ok env (end_run r call res (release_run db c (update_sub_status db_ok db ss st)))" for call res db ss
    proof (rule places_same [OF p])
      let ?st = "release_run db c (update_sub_status db_ok db ss st)"
      show "oc_free (end_run r call res ?st) tool + places_held tool (end_run r call res ?st) = oc_free st tool + places_held tool st" for tool
        using over [of ?st tool call res] RunFailing by simp
    qed
    then show ?thesis using Some RunFailing by (simp add: finish_run_def)
  next
    case (RunFinishing model msg d cost)
    have "places_ok env (end_run r call res (update_sub_status db_ok db ss st))" for call res db ss
      using over [of "update_sub_status db_ok db ss st" _ call res] RunFinishing by (intro places_same [OF p]) simp
    then show ?thesis using Some RunFinishing by (simp add: finish_run_def)
  qed (use p Some in \<open>simp_all add: finish_run_def\<close>)
qed


lemma cancel_places:
  assumes "places_ok env st"
  shows "places_ok env (snd (fold cancel_subagent ds (n, st)))"
proof -
  have one: "oc_free (snd (cancel_subagent i c)) = oc_free (snd c) \<and> places_held tool (snd (cancel_subagent i c)) = places_held tool (snd c)" for i c tool
    by (cases c) (simp add: cancel_subagent_def places_held_def count_rows_modify Let_def split: option.split)
  have "oc_free (snd (fold cancel_subagent ds c)) = oc_free (snd c) \<and> places_held tool (snd (fold cancel_subagent ds c)) = places_held tool (snd c)"
    for c tool
    by (induction ds arbitrary: c) (simp_all add: one)
  then show ?thesis using assms by (simp add: places_ok_def)
qed

lemma start_run_places: "places_ok env st \<Longrightarrow> places_ok env (spawn_run call mem st)"
  by (simp add: places_ok_def spawn_run_def places_held_def count_rows_append)

lemma step_places:
  assumes ok: "accounts_ok st" and p: "places_ok env st"
  shows "places_ok env (orchestration_step env act st)"
proof (cases act)
  case (NewSession i agent model creator permissions)
  then show ?thesis using p by (simp add: places_ok_def new_root_session_def places_held_def)
next
  case (SlackFollowUp i has)
  then show ?thesis using p by (simp add: places_ok_def slack_follow_up_def places_held_def split: option.split)
next
  case (Spawn s pre mem agent_type prompt description model arg)
  then show ?thesis using p start_run_places [OF p] new_task_runs
    by (simp split: option.split) metis
next
  case (CancelSubagents q)
  then show ?thesis using p cancel_places [OF p]
    by (auto simp: cancel_subagent_tasks_def case_prod_beta split: option.split)
qed (use p in \<open>simp_all add: begin_run_places create_run_places acquire_run_places execution_ends_places finish_run_places ok\<close>,
    simp_all add: places_ok_def places_held_def)

lemma start_places: "places_ok env (orchestration_start env agents)"
  by (simp add: places_ok_def orchestration_start_def places_held_def)

section \<open>Progress\<close>

fun run_phase_weight :: "run_phase \<Rightarrow> nat" where
  "run_phase_weight RunStarted = 5"
| "run_phase_weight (RunCreating m b c t) = 4"
| "run_phase_weight (RunWaiting m c t) = 3"
| "run_phase_weight (RunExecuting m c t) = 2"
| "run_phase_weight (RunFailing m c s x d) = 1"
| "run_phase_weight (RunFinishing m x d c) = 1"

definition runs_weight :: "orchestration \<Rightarrow> nat" where
  "runs_weight st = sum_list (map (run_phase_weight \<circ> rn_phase) (oc_runs st))"

fun run_action :: "orchestration_action \<Rightarrow> bool" where
  "run_action (BeginRun r) \<longleftrightarrow> True"
| "run_action (CreateRun r ok) \<longleftrightarrow> True"
| "run_action (AcquireRun r) \<longleftrightarrow> True"
| "run_action (ExecutionEnds r outcome d) \<longleftrightarrow> True"
| "run_action (FinishRun r ok) \<longleftrightarrow> True"
| "run_action _ \<longleftrightarrow> False"

lemma weight_set_run:
  assumes "accounts_ok st" "find_run r st = Some x"
  shows "runs_weight (set_run r ph st) + run_phase_weight (rn_phase x) = runs_weight st + run_phase_weight ph"
proof -
  obtain as bs where s: "oc_runs st = as @ x # bs" "\<forall>f. modify rn_id r f (oc_runs st) = as @ f x # bs"
    using run_split [OF assms] by metis
  have "oc_runs (set_run r ph st) = as @ x\<lparr>rn_phase := ph\<rparr> # bs" using s(2) by (simp add: set_run_def)
  then show ?thesis unfolding runs_weight_def s(1) by simp
qed

lemma weight_end_run:
  assumes "accounts_ok st" "find_run r st = Some x"
  shows "runs_weight (end_run r call res st) + run_phase_weight (rn_phase x) = runs_weight st"
proof -
  obtain as bs where s: "oc_runs st = as @ x # bs" "filter (\<lambda>x. rn_id x \<noteq> r) (oc_runs st) = as @ bs"
    using run_split [OF assms] by metis
  have "oc_runs (end_run r call res st) = as @ bs" using s(2) by (simp add: end_run_def)
  then show ?thesis unfolding runs_weight_def s(1) by simp
qed

lemma weight_die_run:
  assumes "accounts_ok st" "find_run r st = Some x"
  shows "runs_weight (die_run r call st) + run_phase_weight (rn_phase x) = runs_weight st"
proof -
  have "runs_weight (die_run r call st) = runs_weight (end_run r call res st)" for res
    by (simp add: runs_weight_def die_run_def end_run_def)
  then show ?thesis using weight_end_run [OF assms] by metis
qed

lemma weight_cong: "oc_runs st' = oc_runs st \<Longrightarrow> runs_weight st' = runs_weight st"
  by (simp add: runs_weight_def)

lemma weight_set_db: "runs_weight (set_db r db st) = runs_weight st"
  by (simp add: runs_weight_def set_db_def modify_def comp_def if_distrib cong: if_cong)

lemma weight_launch: "runs_weight (launch r db m c t st) = runs_weight (set_run r (RunExecuting m c t) st)"
  by (simp add: runs_weight_def launch_def Let_def split: option.split)

lemma phase_weight_pos: "0 < run_phase_weight ph"
  by (cases ph) simp_all

text \<open>Every step of a run either changes nothing or lowers the weight.\<close>

lemma begin_weight:
  assumes ok: "accounts_ok st" and x: "find_run r st = Some x" "rn_phase x = RunStarted"
  shows "runs_weight (begin_run env r st) < runs_weight st"
proof -
  have "runs_weight (set_run r (RunCreating m b c t) st) < runs_weight st" for m b c t
    using weight_set_run [OF ok x(1), of "RunCreating m b c t"] x(2) by simp
  moreover have "runs_weight (end_run r call res st) < runs_weight st" for call res
    using weight_end_run [OF ok x(1), of call res] x(2) by simp
  moreover have "runs_weight (die_run r call st) < runs_weight st" for call
    using weight_die_run [OF ok x(1), of call] x(2) by simp
  ultimately show ?thesis using x by (simp add: begin_run_def Let_def split: option.split sum.split prod.split)
qed

lemma create_weight:
  assumes ok: "accounts_ok st" and x: "find_run r st = Some x" "rn_phase x = RunCreating model b c t"
  shows "runs_weight (create_run r db_ok st) < runs_weight st"
proof -
  have main: "runs_weight (set_run r ph (set_db r db (st\<lparr>oc_sessions := rows\<rparr>))) < runs_weight st"
    if ph: "run_phase_weight ph < 4" for ph db rows
  proof -
    let ?st = "set_db r db (st\<lparr>oc_sessions := rows\<rparr>)"
    have acc: "accounts_ok ?st" by (rule accounts_cong [OF ok]) simp
    have f: "find_run r ?st = Some (x\<lparr>rn_db := db\<rparr>)"
      using x(1) find_run_cong [of "st\<lparr>oc_sessions := rows\<rparr>" st r] by (simp add: find_set_db)
    have "runs_weight ?st = runs_weight st"
      using weight_set_db [of r db "st\<lparr>oc_sessions := rows\<rparr>"] weight_cong [of "st\<lparr>oc_sessions := rows\<rparr>" st] by simp
    then show ?thesis using weight_set_run [OF acc f, of ph] x(2) ph by simp
  qed
  show ?thesis using x main by (simp add: create_run_def Let_def weight_launch split: option.split)
qed

lemma acquire_weight:
  assumes ok: "accounts_ok st" and x: "find_run r st = Some x" "rn_phase x = RunWaiting model tool t" "oc_free st tool \<noteq> 0"
  shows "runs_weight (acquire_run r st) < runs_weight st"
proof -
  let ?st = "st\<lparr>oc_free := (oc_free st)(tool := oc_free st tool - 1)\<rparr>"
  have acc: "accounts_ok ?st" by (rule accounts_cong [OF ok]) simp
  have f: "find_run r ?st = Some x" using x(1) by (simp add: find_run_def)
  have "runs_weight ?st = runs_weight st" by (simp add: runs_weight_def)
  then have "runs_weight (launch r (rn_db x) model (Some tool) t ?st) < runs_weight st"
    using weight_set_run [OF acc f, of "RunExecuting model (Some tool) t"] x(2) by (simp add: weight_launch)
  then show ?thesis using x by (simp add: acquire_run_def)
qed

lemma ends_weight:
  assumes ok: "accounts_ok st" and x: "find_run r st = Some x" "rn_phase x = RunExecuting model c t"
    and o: "outcome = ExecutionCancelled \<Longrightarrow> rn_cancelled x"
  shows "runs_weight (execution_ends env r outcome d st) < runs_weight st"
proof -
  have failing: "runs_weight (set_run r (RunFailing model c s msg du) st) < runs_weight st" for s msg du
    using weight_set_run [OF ok x(1), of "RunFailing model c s msg du"] x(2) by simp
  have ends: "runs_weight (set_run r (RunFinishing model msg du co) (release_run db c (persist_subagent_messages db q y st))) < runs_weight st"
    for msg du co db q y
  proof -
    let ?st = "release_run db c (persist_subagent_messages db q y st)"
    have acc: "accounts_ok ?st" by (rule accounts_cong [OF ok]) simp
    have f: "find_run r ?st = Some x" using x(1) by (simp add: find_run_def)
    have "runs_weight ?st = runs_weight st" by (simp add: runs_weight_def)
    then show ?thesis using weight_set_run [OF acc f, of "RunFinishing model msg du co"] x(2) by simp
  qed
  show ?thesis using x failing ends o by (simp add: execution_ends_def split: execution_end.split prod.split)
qed

lemma finish_weight:
  assumes ok: "accounts_ok st" and x: "find_run r st = Some x" "run_phase_weight (rn_phase x) = 1"
  shows "runs_weight (finish_run r db_ok st) < runs_weight st"
proof -
  have over: "runs_weight (end_run r call res st') < runs_weight st"
    if "oc_runs st' = oc_runs st" "ledger st' = ledger st" for call res st'
    using weight_end_run [OF accounts_cong [OF ok that(2)], of r x call res] find_run_cong [OF that(1), of r] x
      weight_cong [OF that(1)] by simp
  show ?thesis using x over by (cases "rn_phase x") (simp_all add: finish_run_def)
qed

lemma run_action_lowers:
  assumes ok: "accounts_ok st" and a: "run_action act"
  shows "orchestration_step env act st = st \<or> runs_weight (orchestration_step env act st) < runs_weight st"
proof (cases act)
  case (BeginRun r)
  then show ?thesis using begin_weight [OF ok] by (auto simp: begin_run_def split: option.split)
next
  case (CreateRun r db_ok)
  then show ?thesis using create_weight [OF ok] by (auto simp: create_run_def split: option.split run_phase.split)
next
  case (AcquireRun r)
  then show ?thesis using acquire_weight [OF ok] by (auto simp: acquire_run_def split: option.split run_phase.split)
next
  case (ExecutionEnds r outcome d)
  show ?thesis
  proof (cases "\<exists>x model c t. find_run r st = Some x \<and> rn_phase x = RunExecuting model c t \<and> (outcome = ExecutionCancelled \<longrightarrow> rn_cancelled x)")
    case True
    then obtain x model c t where "find_run r st = Some x" "rn_phase x = RunExecuting model c t"
      "outcome = ExecutionCancelled \<longrightarrow> rn_cancelled x" by blast
    then have "runs_weight (execution_ends env r outcome d st) < runs_weight st" using ends_weight [OF ok] by blast
    then show ?thesis using ExecutionEnds by simp
  next
    case False
    then show ?thesis using ExecutionEnds
      by (auto simp: execution_ends_def split: option.split run_phase.split execution_end.split)
  qed
next
  case (FinishRun r db_ok)
  show ?thesis
  proof (cases "\<exists>x. find_run r st = Some x \<and> run_phase_weight (rn_phase x) = 1")
    case True
    then have "runs_weight (finish_run r db_ok st) < runs_weight st" using finish_weight [OF ok] by blast
    then show ?thesis using FinishRun by simp
  next
    case False
    then show ?thesis using FinishRun by (auto simp: finish_run_def split: option.split run_phase.split)
  qed
qed (use a in auto)


text \<open>While a run is left, some run can go on: whoever holds a place does not wait.\<close>

lemma find_own_run:
  assumes "accounts_ok st" "x \<in> set (oc_runs st)"
  shows "find_run (rn_id x) st = Some x"
  using get_row_key [of rn_id "oc_runs st" x "rn_id x" "\<lambda>_. True"] assms by (simp add: accounts_ok_def find_run_def)

definition moves :: "(nat \<Rightarrow> execution_end) \<Rightarrow> nat \<Rightarrow> orchestration_action set" where
  "moves how r = {BeginRun r, CreateRun r True, AcquireRun r, ExecutionEnds r (how r) 0, FinishRun r True}"

lemma moves_run_action: "act \<in> moves how r \<Longrightarrow> run_action act"
  by (auto simp: moves_def)

lemma working_run_goes_on:
  assumes ok: "accounts_ok st" and x: "x \<in> set (oc_runs st)" "\<nexists>m c t. rn_phase x = RunWaiting m c t"
    and how: "how (rn_id x) \<noteq> ExecutionCancelled"
  shows "\<exists>act \<in> moves how (rn_id x). runs_weight (orchestration_step env act st) < runs_weight st"
proof -
  note f = find_own_run [OF ok x(1)]
  show ?thesis
  proof (cases "rn_phase x")
    case RunStarted
    then have "runs_weight (orchestration_step env (BeginRun (rn_id x)) st) < runs_weight st"
      using begin_weight [OF ok f] by simp
    then show ?thesis unfolding moves_def by blast
  next
    case (RunCreating m b c t)
    then have "runs_weight (orchestration_step env (CreateRun (rn_id x) True) st) < runs_weight st"
      using create_weight [OF ok f] by simp
    then show ?thesis unfolding moves_def by blast
  next
    case (RunExecuting m c t)
    then have "runs_weight (orchestration_step env (ExecutionEnds (rn_id x) (how (rn_id x)) 0) st) < runs_weight st"
      using ends_weight [OF ok f RunExecuting, of "how (rn_id x)" env 0] how by simp
    then show ?thesis unfolding moves_def by blast
  next
    case (RunFailing m c s y d)
    then have "runs_weight (orchestration_step env (FinishRun (rn_id x) True) st) < runs_weight st"
      using finish_weight [OF ok f, of True] by simp
    then show ?thesis unfolding moves_def by blast
  next
    case (RunFinishing m y d c)
    then have "runs_weight (orchestration_step env (FinishRun (rn_id x) True) st) < runs_weight st"
      using finish_weight [OF ok f, of True] by simp
    then show ?thesis unfolding moves_def by blast
  qed (use x(2) in blast)
qed

lemma some_run_goes_on:
  assumes ok: "accounts_ok st" and p: "places_ok env st" and max: "\<And>tool. 0 < en_max env tool"
    and how: "\<And>r. how r \<noteq> ExecutionCancelled" and runs: "oc_runs st \<noteq> []"
  shows "\<exists>r. \<exists>act \<in> moves how r. runs_weight (orchestration_step env act st) < runs_weight st"
proof -
  obtain x where x: "x \<in> set (oc_runs st)" using runs by (cases "oc_runs st") auto
  show ?thesis
  proof (cases "\<exists>m c t. rn_phase x = RunWaiting m c t")
    case False
    show ?thesis by (rule exI) (rule working_run_goes_on [OF ok x False how])
  next
    case True
    then obtain m tool t where ph: "rn_phase x = RunWaiting m tool t" by blast
    show ?thesis
    proof (cases "oc_free st tool = 0")
      case False
      then have "runs_weight (acquire_run (rn_id x) st) < runs_weight st"
        using acquire_weight [OF ok find_own_run [OF ok x] ph] by blast
      then have "runs_weight (orchestration_step env (AcquireRun (rn_id x)) st) < runs_weight st" by simp
      then show ?thesis unfolding moves_def by blast
    next
      case True
      then have "places_held tool st \<noteq> 0" using p max [of tool] by (metis add_0 less_numeral_extra(3) places_ok_def)
      then obtain y where y: "y \<in> set (oc_runs st)" "holds_place tool (rn_phase y)"
        unfolding places_held_def count_rows_0 by blast
      then have n: "\<nexists>m c t. rn_phase y = RunWaiting m c t" by auto
      show ?thesis by (rule exI) (rule working_run_goes_on [OF ok y(1) n how])
    qed
  qed
qed

text \<open>Going on until no run is left.\<close>

lemma runs_settle:
  fixes how :: "nat \<Rightarrow> execution_end"
  assumes "accounts_ok st" "places_ok env st" "\<And>tool. 0 < en_max env tool" "\<And>r. how r \<noteq> ExecutionCancelled"
  shows "\<exists>acts. list_all (\<lambda>act. \<exists>r. act \<in> moves how r) acts \<and> length acts \<le> runs_weight st \<and> oc_runs (run_orchestration env acts st) = []"
  using assms
proof (induction "runs_weight st" arbitrary: st rule: less_induct)
  case less
  show ?case
  proof (cases "oc_runs st = []")
    case True
    then show ?thesis by (intro exI [of _ "[]"]) (simp add: run_orchestration_def)
  next
    case False
    obtain act where act: "\<exists>r. act \<in> moves how r" "runs_weight (orchestration_step env act st) < runs_weight st"
      using some_run_goes_on [OF less.prems(1-3) _ False, of how] less.prems(4) by blast
    then obtain acts where "list_all (\<lambda>act. \<exists>r. act \<in> moves how r) acts" "length acts \<le> runs_weight (orchestration_step env act st)"
      "oc_runs (run_orchestration env acts (orchestration_step env act st)) = []"
      using less.hyps [OF act(2) step_accounts [OF less.prems(1)] step_places [OF less.prems(1,2)] less.prems(3,4)] by blast
    then show ?thesis using act by (intro exI [of _ "act # acts"]) (simp add: run_orchestration_def)
  qed
qed

lemma weight_bound: "runs_weight st \<le> 5 * length (oc_runs st)"
proof -
  have "run_phase_weight ph \<le> 5" for ph by (cases ph) simp_all
  then have "sum_list (map (run_phase_weight \<circ> rn_phase) xs) \<le> 5 * length xs" for xs
    by (induction xs) (simp_all add: add_mono)
  then show ?thesis by (simp add: runs_weight_def)
qed

lemma run_action_next: "run_action act \<Longrightarrow> oc_next (orchestration_step env act st) = oc_next st"
  by (cases act) (auto simp: begin_run_def create_run_def acquire_run_def execution_ends_def finish_run_def end_run_def die_run_def set_run_def
      set_db_def launch_def release_run_def persist_subagent_messages_def update_sub_status_def Let_def
      split: option.split run_phase.split execution_end.split sum.split prod.split)

lemma run_actions_next: "list_all run_action acts \<Longrightarrow> oc_next (run_orchestration env acts st) = oc_next st"
  unfolding run_orchestration_def by (induction acts arbitrary: st) (simp_all add: run_action_next)

lemma run_accounts: "accounts_ok st \<Longrightarrow> accounts_ok (run_orchestration env acts st)"
  unfolding run_orchestration_def by (induction acts arbitrary: st) (simp_all add: step_accounts)

lemma run_places: "accounts_ok st \<Longrightarrow> places_ok env st \<Longrightarrow> places_ok env (run_orchestration env acts st)"
  unfolding run_orchestration_def by (induction acts arbitrary: st) (simp_all add: step_accounts step_places)

section \<open>Runs that died\<close>

text \<open>A run dies only because the configuration of its agent could not be loaded.\<close>

definition died_ok :: "agent_env \<Rightarrow> orchestration \<Rightarrow> bool" where
  "died_ok env st \<longleftrightarrow>
     (\<forall>e \<in> set (oc_died st). en_spec env (snd e) = None \<and> isl (load_agent_config env (snd e)))"

lemma died_frame [simp]:
  "oc_died (set_run r ph st) = oc_died st" "oc_died (set_db r db st) = oc_died st" "oc_died (launch r db m c t st) = oc_died st"
  "oc_died (release_run db c st) = oc_died st" "oc_died (persist_subagent_messages db p x st) = oc_died st"
  "oc_died (update_sub_status ok db ss st) = oc_died st" "oc_died (end_run r call res st) = oc_died st"
  "oc_died (spawn_run call mem st) = oc_died st" "oc_died (slack_follow_up env i has st) = oc_died st"
  by (simp_all add: set_run_def set_db_def launch_def release_run_def persist_subagent_messages_def
      update_sub_status_def end_run_def spawn_run_def slack_follow_up_def Let_def split: option.split)

lemma cancels_died: "oc_died (snd (fold cancel_subagent ds c)) = oc_died (snd c)"
  using ledger_cancels [of ds c] by (simp add: ledger_def)

lemma begin_run_died:
  assumes ok: "died_ok env st"
  shows "died_ok env (begin_run env r st)"
proof -
  have "died_ok env (die_run r call st)" if "find_source env (sc_agent_type call) = Inl e" for call e
  proof -
    have "en_spec env (sc_agent_type call) = None \<and> isl (load_agent_config env (sc_agent_type call))"
      using that by (cases "load_agent_config env (sc_agent_type call)") (auto simp: find_source_def split: option.splits)
    then show ?thesis using ok by (simp add: died_ok_def die_run_def)
  qed
  then show ?thesis using ok by (auto simp: begin_run_def Let_def died_ok_def split: option.split sum.split)
qed

lemma step_died:
  assumes ok: "died_ok env st"
  shows "died_ok env (orchestration_step env act st)"
proof (cases act)
  case (BeginRun r)
  then show ?thesis using begin_run_died [OF ok] by simp
next
  case (Spawn s pre mem agent_type prompt description model arg)
  have "oc_died (snd (new_task_tool env pre mem agent_type prompt description model h arg st)) = oc_died st" for h
    using new_task_runs [of env pre mem agent_type prompt description model h arg st] by auto
  then show ?thesis using Spawn ok by (simp add: died_ok_def split: option.split)
next
  case (CancelSubagents p)
  then show ?thesis using ok
    by (auto simp: cancel_subagent_tasks_def case_prod_beta died_ok_def cancels_died split: option.split)
qed (use ok in \<open>auto simp: died_ok_def create_run_def acquire_run_def execution_ends_def finish_run_def new_root_session_def Let_def
    split: option.splits run_phase.splits execution_end.splits prod.splits\<close>)

lemma run_died: "died_ok env st \<Longrightarrow> died_ok env (run_orchestration env acts st)"
  unfolding run_orchestration_def by (induction acts arbitrary: st) (simp_all add: step_died)

lemma start_died: "died_ok env (orchestration_start env agents)"
  by (simp add: died_ok_def orchestration_start_def)

end
