(* ===== verification/Subagent_Tree.thy ===== *)
theory Subagent_Tree
  imports Subagent_Runs
begin

text \<open>
  The tree of the sessions that the orchestration creates, and what \<open>cancel_subagent_tasks\<close> reaches
  in it.
\<close>

section \<open>The tree\<close>

definition depth_of :: "sub_session \<Rightarrow> nat" where
  "depth_of s = (case ss_depth s of None \<Rightarrow> 0 | Some d \<Rightarrow> d)"

text \<open>A child is one level below its parent and has its creator. (The permissions are copied when
  the task is spawned; those of a Slack session may change afterwards.)\<close>

definition child_of :: "sub_session \<Rightarrow> sub_session \<Rightarrow> bool" where
  "child_of q s \<longleftrightarrow>
     ss_parent s = Some (ss_id q) \<and> ss_agent s \<noteq> None \<and> ss_depth s = Some (Suc (depth_of q)) \<and> ss_creator s = ss_creator q"

definition session_rows_ok :: "sub_session list \<Rightarrow> bool" where
  "session_rows_ok rows \<longleftrightarrow>
     distinct (map ss_id rows) \<and>
     (\<forall>s \<in> set rows. depth_of s \<le> MAX_SUBAGENT_DEPTH \<and>
        (if ss_parent s = None then ss_depth s = None else \<exists>q \<in> set rows. child_of q s))"

text \<open>The call of a run agrees with the row of its parent, which may be missing when the parent is a
  subagent in memory.\<close>

definition call_ok :: "orchestration \<Rightarrow> subagent_call \<Rightarrow> bool" where
  "call_ok st c \<longleftrightarrow>
     (\<exists>p. sc_parent c = Some (str_uuid p) \<and>
        ((\<exists>q \<in> set (oc_sessions st). ss_id q = p \<and> sc_depth c = depth_of q) \<or>
         p \<in> set (oc_memory st) \<and> sc_depth c = 0 \<and> sc_permissions c = None))"

fun pending :: "run_phase \<Rightarrow> bool" where
  "pending RunStarted \<longleftrightarrow> True"
| "pending (RunCreating m b c t) \<longleftrightarrow> True"
| "pending _ \<longleftrightarrow> False"

definition run_ok :: "orchestration \<Rightarrow> subagent_run \<Rightarrow> bool" where
  "run_ok st x \<longleftrightarrow>
     sc_pre_session_id (rn_call x) \<in> set (oc_drawn st) - set (oc_memory st) \<and>
     rn_session x \<in> set (oc_memory st) \<and>
     (pending (rn_phase x) \<longrightarrow> sc_pre_session_id (rn_call x) \<notin> ss_id ` set (oc_sessions st) \<and> rn_db x = None) \<and>
     (rn_db x \<noteq> None \<longrightarrow>
        rn_db x = Some (sc_pre_session_id (rn_call x)) \<and> sc_pre_session_id (rn_call x) \<in> ss_id ` set (oc_sessions st)) \<and>
     (rn_phase x \<noteq> RunStarted \<longrightarrow> sc_depth (rn_call x) < MAX_SUBAGENT_DEPTH) \<and>
     call_ok st (rn_call x)"

definition tree_ok :: "orchestration \<Rightarrow> bool" where
  "tree_ok st \<longleftrightarrow>
     session_rows_ok (oc_sessions st) \<and>
     ss_id ` set (oc_sessions st) \<subseteq> set (oc_drawn st) - set (oc_memory st) \<and> set (oc_memory st) \<subseteq> set (oc_drawn st) \<and>
     distinct (map (sc_pre_session_id \<circ> rn_call) (oc_runs st)) \<and> (\<forall>x \<in> set (oc_runs st). run_ok st x)"

text \<open>What of a row the tree is about, and what else of the state.\<close>

definition place_of :: "sub_session \<Rightarrow> uuid \<times> uuid option \<times> string option \<times> string option \<times> nat option"
  where "place_of s = (ss_id s, ss_parent s, ss_agent s, ss_creator s, ss_depth s)"

definition grounds :: "orchestration \<Rightarrow>
    (uuid \<times> uuid option \<times> string option \<times> string option \<times> nat option) list \<times> uuid list \<times> uuid list"
  where "grounds st = (map place_of (oc_sessions st), oc_drawn st, oc_memory st)"

lemma child_of_place: "place_of q' = place_of q \<Longrightarrow> place_of s' = place_of s \<Longrightarrow> child_of q' s' = child_of q s"
  by (simp add: child_of_def place_of_def depth_of_def)

lemma places_ids: "map place_of rows' = map place_of rows \<Longrightarrow> map ss_id rows' = map ss_id rows"
proof -
  assume "map place_of rows' = map place_of rows"
  then have "map fst (map place_of rows') = map fst (map place_of rows)" by simp
  then show ?thesis by (simp add: place_of_def comp_def)
qed

lemma places_in:
  assumes "map place_of rows' = map place_of rows" "s' \<in> set rows'"
  obtains s where "s \<in> set rows" "place_of s' = place_of s"
proof -
  have "place_of s' \<in> place_of ` set rows" using assms by (metis image_eqI list.set_map)
  then show ?thesis using that by auto
qed

lemma rows_cong:
  assumes "map place_of rows' = map place_of rows" "session_rows_ok rows"
  shows "session_rows_ok rows'"
proof -
  have "depth_of s' \<le> MAX_SUBAGENT_DEPTH \<and>
      (if ss_parent s' = None then ss_depth s' = None else \<exists>q' \<in> set rows'. child_of q' s')" if s': "s' \<in> set rows'" for s'
  proof -
    obtain s where s: "s \<in> set rows" "place_of s' = place_of s" using places_in [OF assms(1) s'] .
    have f: "ss_parent s' = ss_parent s" "ss_depth s' = ss_depth s" using s(2) by (simp_all add: place_of_def)
    have s_ok: "depth_of s \<le> MAX_SUBAGENT_DEPTH"
      "if ss_parent s = None then ss_depth s = None else \<exists>q \<in> set rows. child_of q s"
      using assms(2) s(1) unfolding session_rows_ok_def by blast+
    have "\<exists>q' \<in> set rows'. child_of q' s'" if "q \<in> set rows" "child_of q s" for q
      using places_in [OF assms(1) [symmetric] that(1)] child_of_place [OF _ s(2)] that(2) by metis
    then show ?thesis using s_ok f by (auto simp: depth_of_def split: if_splits)
  qed
  then show ?thesis using assms places_ids [OF assms(1)] by (simp add: session_rows_ok_def)
qed

lemma call_cong:
  assumes g: "grounds st' = grounds st" and c: "call_ok st c"
  shows "call_ok st' c"
proof -
  have rows: "map place_of (oc_sessions st) = map place_of (oc_sessions st')" and m: "oc_memory st' = oc_memory st"
    using g by (simp_all add: grounds_def)
  have "\<exists>q' \<in> set (oc_sessions st'). ss_id q' = ss_id q \<and> depth_of q' = depth_of q" if q: "q \<in> set (oc_sessions st)" for q
  proof -
    obtain q' where "q' \<in> set (oc_sessions st')" "place_of q = place_of q'" using places_in [OF rows q] .
    then show ?thesis by (auto simp: place_of_def depth_of_def)
  qed
  then show ?thesis using c m unfolding call_ok_def by metis
qed

lemma ids_cong: "grounds st' = grounds st \<Longrightarrow> ss_id ` set (oc_sessions st') = ss_id ` set (oc_sessions st)"
  using places_ids [of "oc_sessions st'" "oc_sessions st"] unfolding grounds_def by (metis list.set_map prod.inject)

lemma run_cong:
  assumes g: "grounds st' = grounds st" and x: "run_ok st x"
  shows "run_ok st' x"
proof -
  have "oc_drawn st' = oc_drawn st" "oc_memory st' = oc_memory st" using g by (simp_all add: grounds_def)
  then show ?thesis using x call_cong [OF g] ids_cong [OF g] by (simp add: run_ok_def)
qed

text \<open>Statements that leave the grounds and keep the runs well formed keep the tree.\<close>

lemma tree_cong:
  assumes ok: "tree_ok st" and g: "grounds st' = grounds st"
    and d: "distinct (map (sc_pre_session_id \<circ> rn_call) (oc_runs st'))" and runs: "\<And>x. x \<in> set (oc_runs st') \<Longrightarrow> run_ok st x"
  shows "tree_ok st'"
proof -
  have "session_rows_ok (oc_sessions st')" using rows_cong ok g unfolding tree_ok_def grounds_def by blast
  moreover have "oc_drawn st' = oc_drawn st" "oc_memory st' = oc_memory st" using g by (simp_all add: grounds_def)
  ultimately show ?thesis using ok d run_cong [OF g runs] ids_cong [OF g] unfolding tree_ok_def by simp
qed

lemma grounds_frame [simp]:
  "grounds (set_run r ph st) = grounds st" "grounds (set_db r db st) = grounds st" "grounds (launch r db m c t st) = grounds st"
  "grounds (release_run db c st) = grounds st" "grounds (persist_subagent_messages db p x st) = grounds st"
  "grounds (end_run r call res st) = grounds st" "grounds (die_run r call st) = grounds st" "grounds (st\<lparr>oc_free := fr\<rparr>) = grounds st"
  "grounds (st\<lparr>oc_queues := qs\<rparr>) = grounds st"
  by (simp_all add: grounds_def set_run_def set_db_def launch_def release_run_def persist_subagent_messages_def end_run_def die_run_def
      Let_def split: option.split)

lemma grounds_follow_up [simp]: "grounds (slack_follow_up env i has st) = grounds st"
proof -
  have "map place_of (modify ss_id i (\<lambda>s. s\<lparr>ss_permissions := ps\<rparr>) rows) = map place_of rows" for ps rows
    by (induction rows) (simp_all add: place_of_def)
  then show ?thesis by (simp add: grounds_def slack_follow_up_def split: option.split)
qed

lemma grounds_status [simp]: "grounds (update_sub_status ok db ss st) = grounds st"
proof -
  have "map place_of (modify ss_id i (\<lambda>s. s\<lparr>ss_status := ss\<rparr>) rows) = map place_of rows" for i rows
    by (induction rows) (simp_all add: place_of_def)
  then show ?thesis by (simp add: grounds_def update_sub_status_def split: option.split)
qed

lemma tree_run:
  assumes acc: "accounts_ok st" and ok: "tree_ok st" and x: "find_run r st = Some x" and g: "grounds st' = grounds st"
    and runs: "oc_runs st' = modify rn_id r f (oc_runs st)" and y: "rn_call (f x) = rn_call x" "run_ok st (f x)"
  shows "tree_ok st'"
proof -
  obtain as bs where s: "oc_runs st = as @ x # bs" "\<forall>f. modify rn_id r f (oc_runs st) = as @ f x # bs"
    using run_split [OF acc x] by metis
  have r: "oc_runs st' = as @ f x # bs" using s(2) runs by simp
  show ?thesis
  proof (rule tree_cong [OF ok g])
    show "distinct (map (sc_pre_session_id \<circ> rn_call) (oc_runs st'))" using ok y(1) unfolding tree_ok_def s(1) r by simp
    show "run_ok st z" if "z \<in> set (oc_runs st')" for z
      using that ok y(2) unfolding tree_ok_def s(1) r by auto
  qed
qed

lemma tree_run_ok: "tree_ok st \<Longrightarrow> find_run r st = Some x \<Longrightarrow> run_ok st x"
  using find_run_Some unfolding tree_ok_def by blast

lemma run_phase_ok:
  "run_ok st x \<Longrightarrow> pending ph \<longrightarrow> pending (rn_phase x) \<Longrightarrow> ph \<noteq> RunStarted \<longrightarrow> sc_depth (rn_call x) < MAX_SUBAGENT_DEPTH \<Longrightarrow>
     run_ok st (x\<lparr>rn_phase := ph\<rparr>)"
  by (simp add: run_ok_def)

lemma tree_phase:
  assumes acc: "accounts_ok st" and ok: "tree_ok st" and x: "find_run r st = Some x" and g: "grounds st' = grounds st"
    and runs: "oc_runs st' = oc_runs (set_run r ph st)"
    and ph: "pending ph \<longrightarrow> pending (rn_phase x)" "ph \<noteq> RunStarted \<longrightarrow> sc_depth (rn_call x) < MAX_SUBAGENT_DEPTH"
  shows "tree_ok st'"
  using tree_run [OF acc ok x g, of "\<lambda>x. x\<lparr>rn_phase := ph\<rparr>"] runs run_phase_ok [OF tree_run_ok [OF ok x] ph]
  by (simp add: set_run_def)

lemma tree_end:
  assumes ok: "tree_ok st" and g: "grounds st' = grounds st" and runs: "oc_runs st' = filter P (oc_runs st)"
  shows "tree_ok st'"
proof (rule tree_cong [OF ok g])
  show "distinct (map (sc_pre_session_id \<circ> rn_call) (oc_runs st'))"
    using ok unfolding runs tree_ok_def by (simp add: distinct_map_filter)
  show "run_ok st z" if "z \<in> set (oc_runs st')" for z using that ok unfolding runs tree_ok_def by simp
qed

lemma begin_run_tree:
  assumes acc: "accounts_ok st" and ok: "tree_ok st"
  shows "tree_ok (begin_run env r st)"
proof (cases "\<exists>x. find_run r st = Some x \<and> rn_phase x = RunStarted")
  case False
  then show ?thesis using ok by (auto simp: begin_run_def split: option.split)
next
  case True
  then obtain x where x: "find_run r st = Some x" "rn_phase x = RunStarted" by blast
  have ends: "tree_ok (end_run r call res st)" for call res
    by (rule tree_end [OF ok, of _ "\<lambda>x. rn_id x \<noteq> r"]) (simp_all, simp add: end_run_def)
  have dies: "tree_ok (die_run r call st)" for call
    by (rule tree_end [OF ok, of _ "\<lambda>x. rn_id x \<noteq> r"]) (simp_all, simp add: die_run_def)
  have goes: "tree_ok (set_run r (RunCreating m b c t) st)" if "sc_depth (rn_call x) < MAX_SUBAGENT_DEPTH" for m b c t
    using tree_phase [OF acc ok x(1), of "set_run r (RunCreating m b c t) st" "RunCreating m b c t"] x(2) that by simp
  show ?thesis using x ends dies goes by (simp add: begin_run_def Let_def split: option.split sum.split prod.split)
qed

lemma later_runs_tree:
  assumes acc: "accounts_ok st" and ok: "tree_ok st"
  shows "tree_ok (acquire_run r st)" "tree_ok (execution_ends env r outcome d st)" "tree_ok (finish_run r db_ok st)"
proof -
  have depth: "sc_depth (rn_call x) < MAX_SUBAGENT_DEPTH" if "find_run r st = Some x" "rn_phase x \<noteq> RunStarted" for x
    using tree_run_ok [OF ok that(1)] that(2) by (simp add: run_ok_def)
  have goes: "tree_ok st'" if "find_run r st = Some x" "rn_phase x \<noteq> RunStarted" "\<not> pending ph" "grounds st' = grounds st"
    "oc_runs st' = oc_runs (set_run r ph st)" for x ph st'
    using tree_phase [OF acc ok that(1,4,5)] that(3) depth [OF that(1,2)] by simp
  have launched: "oc_runs (launch r db m c t (st\<lparr>oc_free := fr\<rparr>)) = oc_runs (set_run r (RunExecuting m c t) st)" for db m c t fr
    by (simp add: launch_def set_run_def Let_def split: option.split)
  have set_run_runs: "oc_runs (set_run r ph st1) = oc_runs (set_run r ph st)" if "oc_runs st1 = oc_runs st" for ph st1
    using that by (simp add: set_run_def)
  have a: "tree_ok (launch r db m (Some c) t (st\<lparr>oc_free := fr\<rparr>))" if "find_run r st = Some x" "rn_phase x = RunWaiting m c t" for x db m c t fr
    by (rule goes [OF that(1), of "RunExecuting m (Some c) t"]) (simp_all add: that(2) launched)
  show "tree_ok (acquire_run r st)"
    using ok a by (simp add: acquire_run_def split: option.split run_phase.split)
  have e: "tree_ok (set_run r ph st')"
    if "find_run r st = Some x" "rn_phase x = RunExecuting m c t" "\<not> pending ph" "grounds st' = grounds st" "oc_runs st' = oc_runs st"
    for x m c t ph st'
  proof (rule goes [OF that(1)])
    show "oc_runs (set_run r ph st') = oc_runs (set_run r ph st)" by (rule set_run_runs) (rule that(5))
  qed (simp_all add: that)
  show "tree_ok (execution_ends env r outcome d st)"
  proof (cases "\<exists>x m c t. find_run r st = Some x \<and> rn_phase x = RunExecuting m c t")
    case True
    then obtain x m c t where x: "find_run r st = Some x" "rn_phase x = RunExecuting m c t" by blast
    show ?thesis using ok x e [OF x] by (cases outcome) (simp_all add: execution_ends_def split: prod.split)
  next
    case False
    then show ?thesis using ok by (auto simp: execution_ends_def split: option.split run_phase.split)
  qed
  have f: "tree_ok (end_run r call res st')" if "grounds st' = grounds st" "oc_runs st' = oc_runs st" for call res st'
    by (rule tree_end [OF ok, of _ "\<lambda>x. rn_id x \<noteq> r"]) (simp_all add: that, simp add: end_run_def that)
  show "tree_ok (finish_run r db_ok st)"
    using ok f by (simp add: finish_run_def split: option.split run_phase.split)
qed

section \<open>Rows that are added\<close>

lemma call_mono:
  "call_ok st c \<Longrightarrow> set (oc_sessions st) \<subseteq> set (oc_sessions st') \<Longrightarrow> set (oc_memory st) \<subseteq> set (oc_memory st') \<Longrightarrow> call_ok st' c"
  unfolding call_ok_def by blast

lemma rows_add:
  assumes "session_rows_ok rows" "ss_id row \<notin> ss_id ` set rows" "depth_of row \<le> MAX_SUBAGENT_DEPTH"
    "if ss_parent row = None then ss_depth row = None else \<exists>q \<in> set rows. child_of q row"
  shows "session_rows_ok (rows @ [row])"
  using assms unfolding session_rows_ok_def by (auto split: if_splits)

text \<open>A run gets its row.\<close>

lemma tree_row:
  assumes acc: "accounts_ok st" and ok: "tree_ok st" and x: "find_run r st = Some x" and p: "pending (rn_phase x)"
    and row: "ss_id row = sc_pre_session_id (rn_call x)" "depth_of row \<le> MAX_SUBAGENT_DEPTH" "\<exists>q \<in> set (oc_sessions st). child_of q row"
    and st': "oc_sessions st' = oc_sessions st @ [row]" "oc_drawn st' = oc_drawn st" "oc_memory st' = oc_memory st"
      "oc_runs st' = modify rn_id r f (oc_runs st)"
    and y: "rn_call (f x) = rn_call x" "rn_session (f x) = rn_session x" "rn_db (f x) = Some (sc_pre_session_id (rn_call x))"
      "\<not> pending (rn_phase (f x))" "sc_depth (rn_call x) < MAX_SUBAGENT_DEPTH"
  shows "tree_ok st'"
proof -
  obtain as bs where s: "oc_runs st = as @ x # bs" "\<forall>f. modify rn_id r f (oc_runs st) = as @ f x # bs"
    using run_split [OF acc x] by metis
  have r: "oc_runs st' = as @ f x # bs" using s(2) st'(4) by simp
  have x_ok: "run_ok st x" by (rule tree_run_ok [OF ok x])
  have new: "ss_id row \<notin> ss_id ` set (oc_sessions st)" using x_ok p row(1) by (simp add: run_ok_def)
  have d: "distinct (map (sc_pre_session_id \<circ> rn_call) (as @ x # bs))" using ok unfolding tree_ok_def s(1) by blast
  have calls: "call_ok st' c" if "call_ok st c" for c
    by (rule call_mono [OF that]) (auto simp: st')
  have "session_rows_ok (oc_sessions st')"
    unfolding st'(1) by (rule rows_add [OF _ new row(2)]) (use ok row(3) in \<open>auto simp: tree_ok_def child_of_def\<close>)
  moreover have "ss_id ` set (oc_sessions st') \<subseteq> set (oc_drawn st') - set (oc_memory st')"
    using ok x_ok row(1) unfolding st' tree_ok_def run_ok_def by auto
  moreover have "distinct (map (sc_pre_session_id \<circ> rn_call) (oc_runs st'))" using d y(1) unfolding r by simp
  moreover have "run_ok st' z" if z: "z \<in> set as \<union> set bs" for z
  proof -
    have "run_ok st z" using z ok unfolding tree_ok_def s(1) by auto
    moreover have "sc_pre_session_id (rn_call z) \<noteq> ss_id row" using z d row(1) by (auto simp: image_iff)
    ultimately show ?thesis using calls unfolding run_ok_def st' by simp
  qed
  moreover have "run_ok st' (f x)" using x_ok y row(1) calls unfolding run_ok_def st' by simp
  ultimately show ?thesis using ok unfolding tree_ok_def r st'(2,3) by auto
qed

lemma create_row:
  assumes "create_db_session db_ok call model st = Some row" "call_ok st call" "tree_ok st"
    "sc_depth call < MAX_SUBAGENT_DEPTH"
  shows "ss_id row = sc_pre_session_id call" "depth_of row \<le> MAX_SUBAGENT_DEPTH" "\<exists>q \<in> set (oc_sessions st). child_of q row"
proof -
  obtain p where p: "sc_parent call = Some (str_uuid p)"
    "(\<exists>q \<in> set (oc_sessions st). ss_id q = p \<and> sc_depth call = depth_of q) \<or>
     p \<in> set (oc_memory st) \<and> sc_depth call = 0 \<and> sc_permissions call = None"
    using assms(2) unfolding call_ok_def by blast
  have "find_sub p st \<noteq> None" using assms(1) p(1) by (auto simp: create_db_session_def split: if_splits option.splits)
  then obtain q where q: "find_sub p st = Some q" by blast
  have "row = \<lparr>ss_id = sc_pre_session_id call, ss_parent = Some p, ss_agent = Some (sc_agent_type call), ss_model = Some model,
      ss_workspace = sc_workspace call, ss_creator = ss_creator q, ss_status = SessionActive,
      ss_depth = Some (Suc (sc_depth call)), ss_permissions = sc_permissions call\<rparr>"
    using assms(1) unfolding create_db_session_def Let_def p(1) option.case parse_str_uuid sum.case q by (simp split: if_splits)
  then have row: "ss_id row = sc_pre_session_id call" "ss_parent row = Some p"
    "ss_agent row \<noteq> None" "ss_creator row = ss_creator q" "ss_depth row = Some (Suc (sc_depth call))"
    by simp_all
  have q': "q \<in> set (oc_sessions st)" "ss_id q = p" using get_row_Some [OF q [unfolded find_sub_def]] by simp_all
  show "ss_id row = sc_pre_session_id call" by (rule row(1))
  show "depth_of row \<le> MAX_SUBAGENT_DEPTH" using row(5) assms(4) by (simp add: depth_of_def)
  have "p \<notin> set (oc_memory st)" using assms(3) q' unfolding tree_ok_def by blast
  then obtain q0 where q0: "q0 \<in> set (oc_sessions st)" "ss_id q0 = p" "sc_depth call = depth_of q0" using p(2) by blast
  have "q0 = q"
    using distinct_key_unique [of ss_id "oc_sessions st" q0 q] assms(3) q0(1,2) q' unfolding tree_ok_def session_rows_ok_def by simp
  then have "child_of q row" using row q'(2) q0(3) by (simp add: child_of_def)
  then show "\<exists>q \<in> set (oc_sessions st). child_of q row" using q'(1) by blast
qed

lemma create_run_tree:
  assumes acc: "accounts_ok st" and ok: "tree_ok st"
  shows "tree_ok (create_run r db_ok st)"
proof (cases "\<exists>x m b c t. find_run r st = Some x \<and> rn_phase x = RunCreating m b c t")
  case False
  then show ?thesis using ok by (auto simp: create_run_def split: option.split run_phase.split)
next
  case True
  then obtain x m b c t where x: "find_run r st = Some x" "rn_phase x = RunCreating m b c t" by blast
  have x_ok: "run_ok st x" by (rule tree_run_ok [OF ok x(1)])
  then have depth: "sc_depth (rn_call x) < MAX_SUBAGENT_DEPTH" and call: "call_ok st (rn_call x)" and none: "rn_db x = None"
    using x(2) by (simp_all add: run_ok_def)
  let ?row = "create_db_session db_ok (rn_call x) m st"
  let ?rows = "case ?row of None \<Rightarrow> [] | Some s \<Rightarrow> [s]"
  let ?ph = "case c of None \<Rightarrow> RunExecuting m None t | Some tool \<Rightarrow> RunWaiting m tool t"
  let ?f = "\<lambda>x. x\<lparr>rn_db := map_option ss_id ?row, rn_phase := ?ph\<rparr>"
  have twice: "modify rn_id r f (modify rn_id r g xs) = modify rn_id r (f \<circ> g) xs" if "\<And>x. rn_id (g x) = rn_id x" for f g xs
    using that by (induction xs) simp_all
  let ?st = "create_run r db_ok st"
  have e: "oc_sessions ?st = oc_sessions st @ ?rows" "oc_drawn ?st = oc_drawn st" "oc_memory ?st = oc_memory st"
    "oc_runs ?st = modify rn_id r ?f (oc_runs st)"
    using x by (auto simp: create_run_def set_db_def set_run_def launch_def Let_def twice comp_def split: option.split)
  show ?thesis
  proof (cases ?row)
    case None
    have g: "grounds ?st = grounds st" using e None by (simp add: grounds_def)
    have "run_ok st (?f x)" using x_ok None none depth unfolding run_ok_def by (auto split: option.split)
    then show ?thesis using tree_run [OF acc ok x(1) g e(4)] by simp
  next
    case (Some row)
    note new = create_row [OF Some call ok depth]
    have id: "rn_db (?f x) = Some (sc_pre_session_id (rn_call x))" using Some new(1) by simp
    have np: "\<not> pending (rn_phase (?f x))" by (simp split: option.split)
    have s: "oc_sessions ?st = oc_sessions st @ [row]" using e(1) Some by simp
    show ?thesis
      by (rule tree_row [OF acc ok x(1) _ new s e(2,3,4) _ _ id np depth]) (simp_all add: x(2))
  qed
qed

lemma new_session_tree:
  assumes ok: "tree_ok st" and i: "i \<notin> set (oc_drawn st)"
  shows "tree_ok (new_root_session i agent model creator permissions st)"
proof -
  let ?st = "new_root_session i agent model creator permissions st"
  have new: "i \<notin> ss_id ` set (oc_sessions st)" "i \<notin> set (oc_memory st)" using ok i unfolding tree_ok_def by auto
  have "session_rows_ok (oc_sessions ?st)"
    using rows_add [of "oc_sessions st" "last (oc_sessions ?st)"] ok new(1)
    by (simp add: new_root_session_def tree_ok_def depth_of_def)
  moreover have "run_ok ?st x" if x: "x \<in> set (oc_runs st)" for x
  proof -
    have x_ok: "run_ok st x" using ok x unfolding tree_ok_def by blast
    then have "call_ok ?st (rn_call x)" using call_mono [of st "rn_call x" ?st] by (auto simp: run_ok_def new_root_session_def)
    moreover have "sc_pre_session_id (rn_call x) \<noteq> i" using x_ok i by (auto simp: run_ok_def)
    ultimately show ?thesis using x_ok by (auto simp: run_ok_def new_root_session_def)
  qed
  ultimately show ?thesis using ok new(2) unfolding tree_ok_def by (auto simp: new_root_session_def)
qed

section \<open>Spawning\<close>

definition inherited :: "uuid \<Rightarrow> orchestration \<Rightarrow> subagent_call \<Rightarrow> bool" where
  "inherited u st c \<longleftrightarrow>
     (case find_sub u st of
        None \<Rightarrow> sc_depth c = 0 \<and> sc_permissions c = None
      | Some q \<Rightarrow>
          sc_depth c = (if ss_agent q = None then 0 else depth_of q))"

lemma str_uuid_given: "given (Some (str_uuid u)) = Some (str_uuid u)"
proof -
  have "str_uuid u \<noteq> []" by (simp add: str_uuid_def Let_def)
  then show ?thesis by (cases "str_uuid u") (simp_all add: given_def)
qed

lemma new_task_call:
  "snd (new_task_tool env pre mem agent_type prompt description model (Some (str_uuid u)) arg st) = st \<or>
   (\<exists>call. sc_pre_session_id call = pre \<and> sc_parent call = Some (str_uuid u) \<and> inherited u st call \<and>
      snd (new_task_tool env pre mem agent_type prompt description model (Some (str_uuid u)) arg st) = spawn_run call mem st)"
proof -
  have f: "first_id (Some (str_uuid u)) arg = Some (str_uuid u)" by (simp add: first_id_def str_uuid_given)
  obtain name m w ps d where r: "resolve_parent_session u st = (name, m, w, ps, d)" by (metis prod_cases5)
  let ?call = "\<lparr>sc_agent_type = agent_type, sc_prompt = prompt, sc_description = description, sc_model = model,
    sc_parent = Some (str_uuid u), sc_parent_model = m, sc_workspace = w, sc_permissions = ps, sc_depth = d, sc_pre_session_id = pre\<rparr>"
  have i: "inherited u st ?call"
    using r by (auto simp: inherited_def resolve_parent_session_def depth_of_def split: option.splits)
  show ?thesis
  proof (cases "\<exists>allowed. allowed_subagents env name = Inr allowed \<and> may_spawn allowed agent_type")
    case True
    then have "snd (new_task_tool env pre mem agent_type prompt description model (Some (str_uuid u)) arg st) = spawn_run ?call mem st"
      by (auto simp: new_task_tool_def f r)
    then show ?thesis using i by (intro disjI2 exI [of _ ?call]) simp
  next
    case False
    then show ?thesis by (auto simp: new_task_tool_def f r split: sum.split)
  qed
qed

text \<open>A root session has depth 0, so it does not matter whether its agent has a row.\<close>

lemma inherited_call_ok:
  assumes ok: "tree_ok st" and u: "u \<in> ss_id ` set (oc_sessions st) \<or> u \<in> set (oc_memory st)"
    and c: "inherited u st call" "sc_parent call = Some (str_uuid u)"
  shows "call_ok st call"
proof (cases "find_sub u st")
  case None
  then have "u \<notin> ss_id ` set (oc_sessions st)" by (auto simp: find_sub_def get_row_None)
  then show ?thesis using u c None by (auto simp: call_ok_def inherited_def)
next
  case (Some q)
  then have q: "q \<in> set (oc_sessions st)" "ss_id q = u" using get_row_Some [OF Some [unfolded find_sub_def]] by simp_all
  have "depth_of q = 0" if "ss_agent q = None"
    using ok that q(1) unfolding tree_ok_def session_rows_ok_def depth_of_def child_of_def by (auto split: if_splits)
  then have "sc_depth call = depth_of q" using c(1) Some by (simp add: inherited_def split: if_splits)
  then show ?thesis using c Some q by (auto simp: call_ok_def inherited_def)
qed

lemma start_run_tree:
  assumes ok: "tree_ok st" and c: "call_ok st call" and new: "sc_pre_session_id call \<notin> set (oc_drawn st)" "mem \<notin> set (oc_drawn st)"
    "sc_pre_session_id call \<noteq> mem"
  shows "tree_ok (spawn_run call mem st)"
proof -
  let ?st = "spawn_run call mem st"
  have s: "oc_sessions ?st = oc_sessions st" "oc_memory ?st = mem # oc_memory st"
    "oc_drawn ?st = sc_pre_session_id call # mem # oc_drawn st" by (simp_all add: spawn_run_def)
  have calls: "call_ok ?st c'" if "call_ok st c'" for c' by (rule call_mono [OF that]) (auto simp: s)
  have old: "run_ok ?st x" if x: "x \<in> set (oc_runs st)" for x
  proof -
    have "run_ok st x" using ok x unfolding tree_ok_def by blast
    then show ?thesis using new(2) calls [of "rn_call x"] unfolding run_ok_def s by auto
  qed
  have fresh: "sc_pre_session_id call \<noteq> sc_pre_session_id (rn_call x)" if x: "x \<in> set (oc_runs st)" for x
    using ok x new(1) unfolding tree_ok_def run_ok_def by auto
  have ids: "sc_pre_session_id call \<notin> ss_id ` set (oc_sessions st)" "mem \<notin> ss_id ` set (oc_sessions st)"
    "sc_pre_session_id call \<notin> set (oc_memory st)"
    using ok new unfolding tree_ok_def by auto
  obtain x where runs: "oc_runs ?st = oc_runs st @ [x]" and x: "rn_call x = call" "rn_session x = mem" "rn_db x = None" "rn_phase x = RunStarted"
    by (simp add: spawn_run_def)
  have "run_ok ?st x" using x calls [OF c] ids new(3) unfolding run_ok_def s by simp
  moreover have "distinct (map (sc_pre_session_id \<circ> rn_call) (oc_runs ?st))"
    using ok fresh x(1) unfolding runs tree_ok_def by (auto simp: image_iff)
  ultimately show ?thesis using ok old ids(2) unfolding tree_ok_def runs s by auto
qed

lemma spawner_known:
  assumes "tree_ok st" "spawner_session s st = Some u"
  shows "u \<in> ss_id ` set (oc_sessions st) \<or> u \<in> set (oc_memory st)"
proof (cases s)
  case (SessionSpawns v)
  then have "find_sub v st \<noteq> None" "u = v" using assms(2) by (auto simp: spawner_session_def split: if_splits)
  then show ?thesis by (auto simp: find_sub_def get_row_None)
next
  case (RunSpawns r)
  then obtain x where x: "find_run r st = Some x" "u = effective_session x"
    using assms(2) by (auto simp: spawner_session_def split: option.splits if_splits)
  have "run_ok st x" by (rule tree_run_ok [OF assms(1) x(1)])
  then show ?thesis using x(2) unfolding run_ok_def effective_session_def by (auto split: option.splits)
qed

lemma spawn_tree:
  assumes ok: "tree_ok st"
  shows "tree_ok (orchestration_step env (Spawn s pre mem agent_type prompt description model arg) st)"
proof (cases "spawner_session s st")
  case None
  then show ?thesis using ok by simp
next
  case (Some u)
  have "tree_ok (spawn_run call mem st)"
    if "pre \<notin> set (oc_drawn st)" "mem \<notin> set (oc_drawn st)" "pre \<noteq> mem" "sc_pre_session_id call = pre" "sc_parent call = Some (str_uuid u)"
      "inherited u st call" for call
    using start_run_tree [OF ok inherited_call_ok [OF ok spawner_known [OF ok Some] that(6,5)]] that(1-4) by simp
  then show ?thesis
    using new_task_call [of env pre mem agent_type prompt description model u arg st] ok Some by auto
qed

lemma cancel_one_tree:
  assumes ok: "tree_ok st"
  shows "tree_ok (snd (cancel_subagent i (n, st)))"
proof -
  have m: "tree_ok (st\<lparr>oc_tracked := tr, oc_runs := modify rn_id r (\<lambda>x. x\<lparr>rn_cancelled := True\<rparr>) (oc_runs st)\<rparr>)" for tr r
  proof (rule tree_cong [OF ok])
    have "map (sc_pre_session_id \<circ> rn_call) (modify rn_id r (\<lambda>x. x\<lparr>rn_cancelled := True\<rparr>) xs) = map (sc_pre_session_id \<circ> rn_call) xs"
      for xs :: "subagent_run list"
      by (induction xs) simp_all
    then show "distinct (map (sc_pre_session_id \<circ> rn_call) (oc_runs (st\<lparr>oc_tracked := tr, oc_runs := modify rn_id r (\<lambda>x. x\<lparr>rn_cancelled := True\<rparr>) (oc_runs st)\<rparr>)))"
      using ok unfolding tree_ok_def by simp
    show "run_ok st x" if "x \<in> set (oc_runs (st\<lparr>oc_tracked := tr, oc_runs := modify rn_id r (\<lambda>x. x\<lparr>rn_cancelled := True\<rparr>) (oc_runs st)\<rparr>))" for x
      using that ok unfolding tree_ok_def by (auto simp: in_modify_iff run_ok_def)
  qed (simp add: grounds_def)
  have "tree_ok (st\<lparr>oc_tracked := tr\<rparr>)" for tr
    by (rule tree_cong [OF ok]) (use ok in \<open>simp_all add: grounds_def tree_ok_def\<close>)
  then show ?thesis using ok m by (simp add: cancel_subagent_def Let_def split: option.split)
qed

lemma step_tree:
  assumes acc: "accounts_ok st" and ok: "tree_ok st"
  shows "tree_ok (orchestration_step env act st)"
proof (cases act)
  case (NewSession i agent model creator permissions)
  then show ?thesis using ok new_session_tree [OF ok] by simp
next
  case (SlackFollowUp i has)
  have "oc_runs (slack_follow_up env i has st) = oc_runs st" by (simp add: slack_follow_up_def split: option.split)
  then show ?thesis unfolding SlackFollowUp
    by (intro tree_cong [OF ok]) (use ok in \<open>simp_all add: tree_ok_def\<close>)
next
  case (Spawn s pre mem agent_type prompt description model arg)
  then show ?thesis using spawn_tree [OF ok] by simp
next
  case (CancelSubagents p)
  have "tree_ok (snd (fold cancel_subagent ds c))" if "tree_ok (snd c)" for ds c
    using that
  proof (induction ds arbitrary: c)
    case (Cons i ds)
    then show ?case using cancel_one_tree [of "snd c" i "fst c"] by simp
  qed simp
  then have "tree_ok (snd (fold cancel_subagent ds (0, st)))" for ds using ok by simp
  then show ?thesis using CancelSubagents ok by (auto simp: cancel_subagent_tasks_def case_prod_beta split: option.split)
next
  case RegisterCallback
  show ?thesis unfolding RegisterCallback by (rule tree_cong [OF ok]) (use ok in \<open>simp_all add: tree_ok_def\<close>)
next
  case (ResumeDrain i)
  show ?thesis unfolding ResumeDrain by (rule tree_cong [OF ok]) (use ok in \<open>simp_all add: tree_ok_def\<close>)
qed (simp_all add: begin_run_tree create_run_tree later_runs_tree acc ok)

lemma start_tree: "tree_ok (orchestration_start env agents)"
  by (simp add: tree_ok_def orchestration_start_def session_rows_ok_def)

lemma run_tree: "accounts_ok st \<Longrightarrow> tree_ok st \<Longrightarrow> tree_ok (run_orchestration env acts st)"
  unfolding run_orchestration_def by (induction acts arbitrary: st) (simp_all add: step_accounts step_tree)

end
