(* ===== verification/Subagent_Cancel.thy ===== *)
theory Subagent_Cancel
  imports Subagent_Tree
begin

text \<open>
  What \<open>cancel_subagent_tasks\<close> reaches: the loop over the descendants ends on every tree and finds
  exactly the sessions below the parent through rows that are ACTIVE; the tasks that are tracked
  are those of the runs that execute.
\<close>

section \<open>The descendants\<close>

definition active_edges :: "sub_session list \<Rightarrow> (uuid \<times> uuid) set" where
  "active_edges rows = {(i, j). \<exists>s \<in> set rows. ss_id s = j \<and> ss_parent s = Some i \<and> ss_status s = SessionActive}"

text \<open>The sessions below \<open>p\<close> on paths of ACTIVE rows.\<close>

definition active_below :: "sub_session list \<Rightarrow> uuid \<Rightarrow> uuid set" where
  "active_below rows p = {j. (p, j) \<in> (active_edges rows)\<^sup>+}"

lemma active_children_distinct: "distinct (map ss_id rows) \<Longrightarrow> distinct (active_children rows i)"
  unfolding active_children_def by (rule distinct_map_filter)

lemma active_children_row:
  "j \<in> set (active_children rows i) \<longleftrightarrow> (\<exists>s \<in> set rows. ss_id s = j \<and> ss_parent s = Some i \<and> ss_status s = SessionActive)"
  by (auto simp: active_children_def)

lemma active_edge_iff: "(i, j) \<in> active_edges rows \<longleftrightarrow> j \<in> set (active_children rows i)"
  by (simp add: active_edges_def active_children_row)

lemma one_parent:
  assumes "session_rows_ok rows" "j \<in> set (active_children rows i)" "j \<in> set (active_children rows k)"
  shows "i = k"
proof -
  obtain s t where s: "s \<in> set rows" "ss_id s = j" "ss_parent s = Some i" and t: "t \<in> set rows" "ss_id t = j" "ss_parent t = Some k"
    using assms(2,3) unfolding active_children_row by blast
  have "s = t" using distinct_key_unique [of ss_id rows s t] assms(1) s t unfolding session_rows_ok_def by simp
  then show ?thesis using s(3) t(3) by simp
qed

definition row_depth :: "sub_session list \<Rightarrow> uuid \<Rightarrow> nat" where
  "row_depth rows i = (case get_row (\<lambda>s. ss_id s = i) rows of None \<Rightarrow> 0 | Some s \<Rightarrow> depth_of s)"

lemma row_depth_row: "distinct (map ss_id rows) \<Longrightarrow> s \<in> set rows \<Longrightarrow> row_depth rows (ss_id s) = depth_of s"
  using get_row_key [of ss_id rows s "ss_id s" "\<lambda>_. True"] by (simp add: row_depth_def)

lemma child_deeper:
  assumes "session_rows_ok rows" "j \<in> set (active_children rows i)"
  shows "row_depth rows j = Suc (row_depth rows i)"
proof -
  have d: "distinct (map ss_id rows)" using assms(1) by (simp add: session_rows_ok_def)
  obtain s where s: "s \<in> set rows" "ss_id s = j" "ss_parent s = Some i"
    using assms(2) unfolding active_children_row by blast
  then obtain q where q: "q \<in> set rows" "child_of q s" using assms(1) unfolding session_rows_ok_def by (metis option.distinct(1))
  then have "depth_of s = Suc (depth_of q)" "ss_id q = i" using s(3) by (simp_all add: child_of_def depth_of_def)
  then show ?thesis using row_depth_row [OF d s(1)] row_depth_row [OF d q(1)] s(2) by simp
qed

lemma below_deeper:
  assumes ok: "session_rows_ok rows" and "(i, j) \<in> (active_edges rows)\<^sup>+"
  shows "row_depth rows i < row_depth rows j"
  using assms(2)
proof (induction rule: trancl_induct)
  case (base j)
  then show ?case using child_deeper [OF ok] by (simp add: active_edge_iff)
next
  case (step j k)
  then show ?case using child_deeper [OF ok, of k j] by (simp add: active_edge_iff)
qed

text \<open>
  The loop. \<open>popped\<close>: the sessions whose children are in the list; each session is pushed at most
  once.
\<close>

definition loop_ok :: "sub_session list \<Rightarrow> uuid \<Rightarrow> uuid list \<Rightarrow> uuid list \<Rightarrow> uuid list \<Rightarrow> bool" where
  "loop_ok rows p popped to_visit ds \<longleftrightarrow>
     distinct (popped @ to_visit) \<and> distinct ds \<and> set popped \<union> set to_visit = insert p (set ds) \<and>
     set ds = (\<Union>i \<in> set popped. set (active_children rows i)) \<and> set ds \<subseteq> active_below rows p"

lemma loop_start: "loop_ok rows p [] [p] []"
  by (simp add: loop_ok_def)

lemma loop_step:
  assumes ok: "session_rows_ok rows" and l: "loop_ok rows p popped (to_visit @ [i]) ds"
  shows "loop_ok rows p (popped @ [i]) (to_visit @ active_children rows i) (ds @ active_children rows i)"
    "set (active_children rows i) \<inter> set ds = {}"
proof -
  let ?cs = "active_children rows i"
  have d: "distinct (map ss_id rows)" using ok by (simp add: session_rows_ok_def)
  have i: "i \<notin> set popped" "i \<in> insert p (set ds)" using l unfolding loop_ok_def by auto
  show disj: "set ?cs \<inter> set ds = {}"
    using l one_parent [OF ok] i(1) unfolding loop_ok_def by blast
  have edge: "(i, j) \<in> active_edges rows" if "j \<in> set ?cs" for j using that by (simp add: active_edge_iff)
  have "i = p \<or> (p, i) \<in> (active_edges rows)\<^sup>+" using i(2) l unfolding loop_ok_def active_below_def by blast
  then have "(p, j) \<in> (active_edges rows)\<^sup>+" if "j \<in> set ?cs" for j
    using edge [OF that] trancl_into_trancl [of p i "active_edges rows" j] by blast
  then have below: "set ?cs \<subseteq> active_below rows p" unfolding active_below_def by blast
  have "(p, p) \<notin> (active_edges rows)\<^sup>+" using below_deeper [OF ok, of p p] by blast
  then have p: "p \<notin> set ?cs" using below unfolding active_below_def by blast
  note parts = l [unfolded loop_ok_def]
  have vs: "set popped \<union> set (to_visit @ [i]) = insert p (set ds)" using parts by blast
  then have new: "set ?cs \<inter> (set popped \<union> set (to_visit @ [i])) = {}" unfolding vs using disj p by blast
  have dist: "distinct (popped @ to_visit @ [i])" "distinct ds" using parts by blast+
  have "distinct ((popped @ [i]) @ to_visit @ ?cs)"
    using dist(1) new active_children_distinct [OF d, of i] by auto
  moreover have "distinct (ds @ ?cs)" using dist(2) disj active_children_distinct [OF d, of i] by auto
  moreover have "set (popped @ [i]) \<union> set (to_visit @ ?cs) = insert p (set (ds @ ?cs))"
  proof -
    have "set (popped @ [i]) \<union> set (to_visit @ ?cs) = (set popped \<union> set (to_visit @ [i])) \<union> set ?cs" by auto
    then show ?thesis unfolding vs by simp
  qed
  moreover have "set (ds @ ?cs) = (\<Union>k \<in> set (popped @ [i]). set (active_children rows k))"
  proof -
    have "set ds = (\<Union>k \<in> set popped. set (active_children rows k))" using parts by blast
    then show ?thesis by simp blast
  qed
  moreover have "set (ds @ ?cs) \<subseteq> active_below rows p" unfolding set_append using parts below by blast
  ultimately show "loop_ok rows p (popped @ [i]) (to_visit @ ?cs) (ds @ ?cs)" unfolding loop_ok_def by blast
qed

lemma loop_end:
  assumes "loop_ok rows p popped [] ds"
  shows "set ds = active_below rows p"
proof -
  have closed: "j \<in> set ds" if "i \<in> insert p (set ds)" "(i, j) \<in> active_edges rows" for i j
  proof -
    have p: "set popped \<union> set [] = insert p (set ds)" and ds: "set ds = (\<Union>k \<in> set popped. set (active_children rows k))"
      using assms unfolding loop_ok_def by blast+
    have "i \<in> set popped" using that(1) p by simp
    moreover have "j \<in> set (active_children rows i)" using that(2) by (simp add: active_edge_iff)
    ultimately show ?thesis unfolding ds by (rule UN_I)
  qed
  have "j \<in> set ds" if "(p, j) \<in> (active_edges rows)\<^sup>+" for j
    using that
  proof (induction rule: trancl_induct)
    case (base j)
    then show ?case by (rule closed [OF insertI1])
  next
    case (step j k)
    show ?case by (rule closed [OF insertI2 [OF step.IH] step.hyps(2)])
  qed
  moreover have "set ds \<subseteq> active_below rows p" using assms unfolding loop_ok_def by blast
  ultimately show ?thesis unfolding active_below_def by blast
qed

lemma loop_bound:
  assumes "loop_ok rows p popped to_visit ds"
  shows "set ds \<subseteq> set (map ss_id rows)"
proof -
  have "set ds = (\<Union>k \<in> set popped. set (active_children rows k))" using assms unfolding loop_ok_def by blast
  then show ?thesis by (auto simp: active_children_def)
qed

text \<open>Each turn either pops a session for good or also finds new ones, which are rows.\<close>

lemma collect_returns:
  assumes ok: "session_rows_ok rows" and l: "loop_ok rows p popped to_visit ds"
  shows "\<exists>ds'. collect_descendants rows to_visit ds = Some ds' \<and> distinct ds' \<and> set ds' = active_below rows p"
  using l
proof (induction "2 * card (set (map ss_id rows) - set ds) + length to_visit" arbitrary: popped to_visit ds rule: less_induct)
  case less
  show ?case
  proof (cases to_visit rule: rev_cases)
    case Nil
    have "set ds = active_below rows p" by (rule loop_end) (use less.prems Nil in simp)
    moreover have "distinct ds" using less.prems unfolding loop_ok_def by blast
    ultimately show ?thesis unfolding Nil by (subst collect_descendants.simps) simp
  next
    case (snoc vs i)
    let ?cs = "active_children rows i" and ?ids = "set (map ss_id rows)"
    note turn = loop_step [OF ok less.prems [unfolded snoc]]
    have d: "distinct ?cs" using active_children_distinct [of rows i] ok by (simp add: session_rows_ok_def)
    have "set (ds @ ?cs) \<subseteq> ?ids" by (rule loop_bound [OF turn(1)])
    then have "card (?ids - set (ds @ ?cs)) + card (set (ds @ ?cs)) = card ?ids"
      by (metis card_Diff_subset card_mono finite_set le_add_diff_inverse2)
    moreover have "card (?ids - set ds) + card (set ds) = card ?ids"
      using loop_bound [OF less.prems] by (metis card_Diff_subset card_mono finite_set le_add_diff_inverse2)
    moreover have "card (set (ds @ ?cs)) = card (set ds) + length ?cs"
      using turn(2) d by (simp add: card_Un_disjoint Int_commute distinct_card)
    ultimately have "2 * card (?ids - set (ds @ ?cs)) + length (vs @ ?cs) < 2 * card (?ids - set ds) + length to_visit"
      using snoc by simp
    then have "\<exists>ds'. collect_descendants rows (vs @ ?cs) (ds @ ?cs) = Some ds' \<and> distinct ds' \<and> set ds' = active_below rows p"
      using less.hyps turn(1) by blast
    then show ?thesis unfolding snoc by (subst collect_descendants.simps) (simp add: Let_def)
  qed
qed

lemma collect_exact:
  "session_rows_ok rows \<Longrightarrow> \<exists>ds. collect_descendants rows [p] [] = Some ds \<and> distinct ds \<and> set ds = active_below rows p"
  by (rule collect_returns [OF _ loop_start])

section \<open>The tasks that are tracked\<close>

definition tracks :: "orchestration \<Rightarrow> subagent_run \<Rightarrow> bool" where
  "tracks st x \<longleftrightarrow> (\<exists>i. rn_db x = Some i \<and> oc_tracked st i = Some (rn_id x))"

definition failing :: "subagent_run \<Rightarrow> bool" where
  "failing x \<longleftrightarrow> (case rn_phase x of RunFailing _ _ _ _ _ \<Rightarrow> True | _ \<Rightarrow> False)"

text \<open>A tracked task belongs to a run that executes or fails and that no stop has marked; an execution with
  a row is tracked until a stop marks it.\<close>

definition works :: "uuid \<Rightarrow> subagent_run \<Rightarrow> bool" where
  "works i x \<longleftrightarrow> rn_db x = Some i \<and> (executing x \<or> failing x) \<and> \<not> rn_cancelled x"

definition to_track :: "subagent_run \<Rightarrow> bool" where
  "to_track x \<longleftrightarrow> executing x \<and> rn_db x \<noteq> None \<and> \<not> rn_cancelled x"

fun early :: "run_phase \<Rightarrow> bool" where
  "early RunStarted \<longleftrightarrow> True"
| "early (RunCreating m b c t) \<longleftrightarrow> True"
| "early (RunWaiting m c t) \<longleftrightarrow> True"
| "early _ \<longleftrightarrow> False"

definition tracked_ok :: "orchestration \<Rightarrow> bool" where
  "tracked_ok st \<longleftrightarrow>
     (\<forall>i r. oc_tracked st i = Some r \<longrightarrow> (\<exists>x \<in> set (oc_runs st). rn_id x = r \<and> works i x)) \<and>
     (\<forall>x \<in> set (oc_runs st). (to_track x \<longrightarrow> tracks st x) \<and> (early (rn_phase x) \<longrightarrow> \<not> rn_cancelled x))"

text \<open>One session of a stop.\<close>

definition stopped :: "uuid set \<Rightarrow> subagent_run \<Rightarrow> bool" where
  "stopped ids x \<longleftrightarrow> executing x \<and> \<not> rn_cancelled x \<and> (\<exists>i \<in> ids. rn_db x = Some i)"

lemma db_unique:
  assumes ok: "tree_ok st" and x: "x \<in> set (oc_runs st)" "y \<in> set (oc_runs st)" "rn_db x = Some i" "rn_db y = Some i"
  shows "x = y"
proof -
  have "i = sc_pre_session_id (rn_call x)" "i = sc_pre_session_id (rn_call y)"
    using ok x unfolding tree_ok_def run_ok_def by auto
  then show ?thesis using distinct_key_unique [of "sc_pre_session_id \<circ> rn_call" "oc_runs st" x y] ok x(1,2)
    unfolding tree_ok_def by simp
qed

lemma tracked_run:
  assumes ok: "tracked_ok st" and runs: "oc_runs st = as @ x # bs" "oc_runs st' = as @ ys @ bs"
    and old: "\<And>i r. oc_tracked st' i = Some r \<Longrightarrow> r \<noteq> rn_id x \<Longrightarrow> oc_tracked st i = Some r"
    and own: "\<And>i. oc_tracked st' i = Some (rn_id x) \<Longrightarrow> \<exists>y \<in> set ys. rn_id y = rn_id x \<and> works i y"
    and keep: "\<And>z. z \<in> set as \<union> set bs \<Longrightarrow> to_track z \<Longrightarrow> tracks st z \<Longrightarrow> tracks st' z"
    and new: "\<And>y. y \<in> set ys \<Longrightarrow> to_track y \<Longrightarrow> tracks st' y" "\<And>y. y \<in> set ys \<Longrightarrow> early (rn_phase y) \<Longrightarrow> \<not> rn_cancelled y"
  shows "tracked_ok st'"
proof -
  have "\<exists>y \<in> set (oc_runs st'). rn_id y = r \<and> works i y" if t: "oc_tracked st' i = Some r" for i r
  proof (cases "r = rn_id x")
    case True
    then show ?thesis using own [of i] t unfolding runs(2) by auto
  next
    case False
    then obtain z where "z \<in> set (oc_runs st)" "rn_id z = r" "works i z" using old [OF t] ok unfolding tracked_ok_def by blast
    then show ?thesis using False unfolding runs by auto
  qed
  moreover have "tracks st' z" if z: "z \<in> set (oc_runs st')" "to_track z" for z
  proof (cases "z \<in> set ys")
    case True
    then show ?thesis using new(1) z(2) by blast
  next
    case False
    then have "z \<in> set as \<union> set bs" using z(1) unfolding runs(2) by auto
    moreover from this have "tracks st z" using ok z(2) unfolding tracked_ok_def runs(1) by auto
    ultimately show ?thesis using keep z(2) by blast
  qed
  moreover have "\<not> rn_cancelled z" if z: "z \<in> set (oc_runs st')" "early (rn_phase z)" for z
  proof (cases "z \<in> set ys")
    case True
    then show ?thesis using new(2) z(2) by blast
  next
    case False
    then have "z \<in> set (oc_runs st)" using z(1) unfolding runs by auto
    then show ?thesis using ok z(2) unfolding tracked_ok_def by blast
  qed
  ultimately show ?thesis unfolding tracked_ok_def by blast
qed

text \<open>The run that has an entry is the one whose row it is.\<close>

lemma entry_own:
  assumes tree: "tree_ok st" and ok: "tracked_ok st" and x: "x \<in> set (oc_runs st)" "rn_db x = Some i" "oc_tracked st i = Some r"
  shows "rn_id x = r" "works i x"
proof -
  obtain z where z: "z \<in> set (oc_runs st)" "rn_id z = r" "works i z" using ok x(3) unfolding tracked_ok_def by blast
  then have "z = x" using db_unique [OF tree z(1) x(1), of i] x(2) by (simp add: works_def)
  then show "rn_id x = r" "works i x" using z by simp_all
qed

text \<open>Without a change of the tracked tasks.\<close>

lemma tracked_same:
  assumes ok: "tracked_ok st" and runs: "oc_runs st = as @ x # bs" "oc_runs st' = as @ ys @ bs" and t: "oc_tracked st' = oc_tracked st"
    and x: "\<not> executing x" "\<not> failing x" and d: "distinct (map rn_id (oc_runs st))" and new: "\<And>y. y \<in> set ys \<Longrightarrow> \<not> executing y" "\<And>y. y \<in> set ys \<Longrightarrow> early (rn_phase y) \<Longrightarrow> \<not> rn_cancelled y"
  shows "tracked_ok st'"
proof (rule tracked_run [OF ok runs])
  fix i
  assume "oc_tracked st' i = Some (rn_id x)"
  then have "oc_tracked st i = Some (rn_id x)" by (simp add: t)
  then obtain z where z: "z \<in> set (oc_runs st)" "rn_id z = rn_id x" "works i z" using ok unfolding tracked_ok_def by blast
  then have "z = x" using distinct_key_unique [OF d z(1)] runs(1) by simp
  then show "\<exists>y \<in> set ys. rn_id y = rn_id x \<and> works i y" using z(3) x by (simp add: works_def)
qed (use t new in \<open>simp_all add: tracks_def to_track_def\<close>)

lemma tracked_frame [simp]:
  "oc_tracked (set_run r ph st) = oc_tracked st" "oc_tracked (set_db r db st) = oc_tracked st"
  "oc_tracked (persist_subagent_messages db p x st) = oc_tracked st" "oc_tracked (end_run r call res st) = oc_tracked st"
  "oc_tracked (die_run r call st) = oc_tracked st" "oc_tracked (slack_follow_up env i has st) = oc_tracked st"
  "oc_tracked (update_sub_status ok db ss st) = oc_tracked st"
  by (simp_all add: set_run_def set_db_def persist_subagent_messages_def end_run_def update_sub_status_def die_run_def slack_follow_up_def
      split: option.split)

lemma follow_up_runs [simp]: "oc_runs (slack_follow_up env i has st) = oc_runs st"
  by (simp add: slack_follow_up_def split: option.split)

lemma tracked_release:
  "oc_tracked (release_run db c st) = (case db of None \<Rightarrow> oc_tracked st | Some i \<Rightarrow> (oc_tracked st)(i := None))"
  by (simp add: release_run_def Let_def split: option.split)

lemma tracked_launch:
  "oc_tracked (launch r db m c t st) = (case db of None \<Rightarrow> oc_tracked st | Some i \<Rightarrow> (oc_tracked st)(i \<mapsto> r))"
  by (simp add: launch_def Let_def split: option.split)

lemma begin_run_tracked:
  assumes acc: "accounts_ok st" and ok: "tracked_ok st"
  shows "tracked_ok (begin_run env r st)"
proof (cases "\<exists>x. find_run r st = Some x \<and> rn_phase x = RunStarted")
  case False
  then show ?thesis using ok by (auto simp: begin_run_def split: option.split)
next
  case True
  then obtain x where x: "find_run r st = Some x" "rn_phase x = RunStarted" by blast
  obtain as bs where s: "oc_runs st = as @ x # bs" "\<forall>f. modify rn_id r f (oc_runs st) = as @ f x # bs"
    "filter (\<lambda>x. rn_id x \<noteq> r) (oc_runs st) = as @ bs"
    using run_split [OF acc x(1)] by metis
  have d: "distinct (map rn_id (oc_runs st))" using acc by (simp add: accounts_ok_def)
  have idle: "\<not> executing x" "\<not> failing x" using x(2) by (simp_all add: executing_def failing_def)
  have "\<not> rn_cancelled x" using ok x(2) unfolding tracked_ok_def s(1) by simp
  note idle = idle this
  have "tracked_ok (end_run r call res st)" for call res
    by (rule tracked_same [OF ok s(1), of _ "[]"]) (use s(3) idle d in \<open>simp_all, simp add: end_run_def\<close>)
  moreover have "tracked_ok (die_run r call st)" for call
    by (rule tracked_same [OF ok s(1), of _ "[]"]) (use s(3) idle d in \<open>simp_all, simp add: die_run_def\<close>)
  moreover have "tracked_ok (set_run r (RunCreating m b c t) st)" for m b c t
    by (rule tracked_same [OF ok s(1), of _ "[x\<lparr>rn_phase := RunCreating m b c t\<rparr>]"])
      (use s(2) idle d in \<open>simp_all add: set_run_def executing_def\<close>)
  ultimately show ?thesis using x by (simp add: begin_run_def Let_def split: option.split sum.split prod.split)
qed

text \<open>A run starts its execution: its row has no entry yet.\<close>

lemma tracked_launched:
  assumes ok: "tracked_ok st" and runs: "oc_runs st = as @ x # bs" "oc_runs st' = as @ y # bs" and d: "distinct (map rn_id (oc_runs st))"
    and x: "\<not> executing x" "\<not> failing x" "\<not> rn_cancelled x" and y: "rn_id y = rn_id x" "executing y" "\<not> rn_cancelled y"
    and t: "oc_tracked st' = (case rn_db y of None \<Rightarrow> oc_tracked st | Some i \<Rightarrow> (oc_tracked st)(i \<mapsto> rn_id x))"
    and free: "\<And>i. rn_db y = Some i \<Longrightarrow> oc_tracked st i = None"
  shows "tracked_ok st'"
proof (rule tracked_run [OF ok runs(1), where ys = "[y]"])
  show "oc_runs st' = as @ [y] @ bs" using runs(2) by simp
  show "oc_tracked st i = Some r" if "oc_tracked st' i = Some r" "r \<noteq> rn_id x" for i r
    using that t by (auto split: option.splits if_splits)
  show "tracks st' z" if z: "z \<in> set as \<union> set bs" "tracks st z" for z
    using z(2) free t by (auto simp: tracks_def split: option.split)
  show "tracks st' z" if "z \<in> set [y]" "to_track z" for z
    using that y(1) t by (auto simp: tracks_def to_track_def)
  show "\<not> rn_cancelled z" if "z \<in> set [y]" for z using that y(3) by simp
  show "\<exists>z \<in> set [y]. rn_id z = rn_id x \<and> works i z" if e: "oc_tracked st' i = Some (rn_id x)" for i
  proof (cases "rn_db y = Some i")
    case True
    then show ?thesis using y by (simp add: works_def)
  next
    case False
    then have "oc_tracked st i = Some (rn_id x)" using e t by (auto split: option.splits if_splits)
    then obtain z where z: "z \<in> set (oc_runs st)" "rn_id z = rn_id x" "works i z" using ok unfolding tracked_ok_def by blast
    then have "z = x" using distinct_key_unique [OF d z(1)] runs(1) by simp
    then show ?thesis using z(3) x by (simp add: works_def)
  qed
qed

lemma run_early: "tracked_ok st \<Longrightarrow> x \<in> set (oc_runs st) \<Longrightarrow> early (rn_phase x) \<Longrightarrow> \<not> rn_cancelled x \<and> \<not> executing x \<and> \<not> failing x"
  unfolding tracked_ok_def by (cases "rn_phase x") (simp_all add: executing_def failing_def)

lemma modify_twice:
  "(\<And>x. key (g x) = key x) \<Longrightarrow> modify key k f (modify key k g xs) = modify key k (f \<circ> g) xs"
  by (induction xs) simp_all

lemma launch_runs: "oc_runs (launch r db m c t st) = modify rn_id r (\<lambda>x. x\<lparr>rn_phase := RunExecuting m c t\<rparr>) (oc_runs st)"
  by (simp add: launch_def set_run_def Let_def split: option.split)

lemma create_run_tracked:
  assumes acc: "accounts_ok st" and tree: "tree_ok st" and ok: "tracked_ok st"
  shows "tracked_ok (create_run r db_ok st)"
proof (cases "\<exists>x m b c t. find_run r st = Some x \<and> rn_phase x = RunCreating m b c t")
  case False
  then show ?thesis using ok by (auto simp: create_run_def split: option.split run_phase.split)
next
  case True
  then obtain x m b c t where x: "find_run r st = Some x" "rn_phase x = RunCreating m b c t" by blast
  obtain as bs where s: "oc_runs st = as @ x # bs" "rn_id x = r" "\<forall>f. modify rn_id r f (oc_runs st) = as @ f x # bs"
    using run_split [OF acc x(1)] by metis
  have d: "distinct (map rn_id (oc_runs st))" using acc by (simp add: accounts_ok_def)
  have idle: "\<not> rn_cancelled x" "\<not> executing x" "\<not> failing x" using run_early [OF ok, of x] x(2) s(1) by simp_all
  have twice: "modify rn_id r f (modify rn_id r g (oc_runs st)) = as @ f (g x) # bs" if "\<And>x. rn_id (g x) = rn_id x" for f g
    using s(3) modify_twice [of rn_id g r f "oc_runs st"] that by simp
  let ?row = "create_db_session db_ok (rn_call x) m st"
  let ?db = "map_option ss_id ?row"
  let ?st = "st\<lparr>oc_sessions := oc_sessions st @ (case ?row of None \<Rightarrow> [] | Some s \<Rightarrow> [s])\<rparr>"
  have free: "oc_tracked st i = None" if "?db = Some i" for i
  proof (rule ccontr)
    assume "oc_tracked st i \<noteq> None"
    then obtain z where z: "z \<in> set (oc_runs st)" "rn_db z = Some i" using ok unfolding tracked_ok_def works_def by blast
    have "i = sc_pre_session_id (rn_call x)" using that by (auto simp: create_db_session_def Let_def split: if_splits option.splits sum.splits)
    moreover have "sc_pre_session_id (rn_call x) \<notin> ss_id ` set (oc_sessions st)"
      using tree_run_ok [OF tree x(1)] x(2) by (simp add: run_ok_def)
    moreover have "run_ok st z" using z(1) tree unfolding tree_ok_def by blast
    then have "i \<in> ss_id ` set (oc_sessions st)" using z(2) by (simp add: run_ok_def)
    ultimately show False by blast
  qed
  show ?thesis
  proof (cases c)
    case None
    let ?y = "x\<lparr>rn_db := ?db, rn_phase := RunExecuting m None t\<rparr>"
    have "tracked_ok (launch r ?db m None t (set_db r ?db ?st))"
    proof (rule tracked_launched [OF ok s(1) _ d idle(2,3,1), where y = ?y])
      show "oc_runs (launch r ?db m None t (set_db r ?db ?st)) = as @ ?y # bs"
        by (simp add: launch_runs set_db_def twice)
    qed (use free idle(1) s(2) in \<open>simp_all add: executing_def tracked_launch split: option.split\<close>)
    then show ?thesis using x None by (simp add: create_run_def Let_def)
  next
    case (Some tool)
    let ?y = "x\<lparr>rn_db := ?db, rn_phase := RunWaiting m tool t\<rparr>"
    have "tracked_ok (set_run r (RunWaiting m tool t) (set_db r ?db ?st))"
    proof (rule tracked_same [OF ok s(1), where ys = "[?y]"])
      show "oc_runs (set_run r (RunWaiting m tool t) (set_db r ?db ?st)) = as @ [?y] @ bs"
        by (simp add: set_run_def set_db_def twice)
    qed (use idle d in \<open>simp_all add: executing_def\<close>)
    then show ?thesis using x Some by (simp add: create_run_def Let_def)
  qed
qed

lemma acquire_run_tracked:
  assumes acc: "accounts_ok st" and tree: "tree_ok st" and ok: "tracked_ok st"
  shows "tracked_ok (acquire_run r st)"
proof (cases "\<exists>x m tool t. find_run r st = Some x \<and> rn_phase x = RunWaiting m tool t")
  case False
  then show ?thesis using ok by (auto simp: acquire_run_def split: option.split run_phase.split)
next
  case True
  then obtain x m tool t where x: "find_run r st = Some x" "rn_phase x = RunWaiting m tool t" by blast
  obtain as bs where s: "oc_runs st = as @ x # bs" "rn_id x = r" "\<forall>f. modify rn_id r f (oc_runs st) = as @ f x # bs"
    using run_split [OF acc x(1)] by metis
  have d: "distinct (map rn_id (oc_runs st))" using acc by (simp add: accounts_ok_def)
  have idle: "\<not> rn_cancelled x" "\<not> executing x" "\<not> failing x" using run_early [OF ok, of x] x(2) s(1) by simp_all
  have free: "oc_tracked st i = None" if "rn_db x = Some i" for i
  proof (rule ccontr)
    assume "oc_tracked st i \<noteq> None"
    then have "works i x" using entry_own [OF tree ok _ that] s(1) by auto
    then show False using idle by (simp add: works_def)
  qed
  let ?y = "x\<lparr>rn_phase := RunExecuting m (Some tool) t\<rparr>"
  have "tracked_ok (launch r (rn_db x) m (Some tool) t (st\<lparr>oc_free := fr\<rparr>))" for fr
  proof (rule tracked_launched [OF ok s(1) _ d idle(2,3,1), where y = ?y])
    show "oc_runs (launch r (rn_db x) m (Some tool) t (st\<lparr>oc_free := fr\<rparr>)) = as @ ?y # bs"
      using s(3) by (simp add: launch_runs)
  qed (use free idle(1) s(2) in \<open>simp_all add: executing_def tracked_launch split: option.split\<close>)
  then show ?thesis using ok x by (simp add: acquire_run_def)
qed

text \<open>A run that gives back its entry.\<close>

lemma tracked_released:
  assumes tree: "tree_ok st" and ok: "tracked_ok st" and runs: "oc_runs st = as @ x # bs" "oc_runs st' = as @ ys @ bs"
    and d: "distinct (map rn_id (oc_runs st))"
    and t: "oc_tracked st' = (case rn_db x of None \<Rightarrow> oc_tracked st | Some i \<Rightarrow> (oc_tracked st)(i := None))"
    and y: "\<And>y. y \<in> set ys \<Longrightarrow> \<not> executing y \<and> \<not> early (rn_phase y)"
  shows "tracked_ok st'"
proof (rule tracked_run [OF ok runs])
  show "oc_tracked st i = Some r" if "oc_tracked st' i = Some r" for i r
    using that t by (auto split: option.splits if_splits)
  show "\<exists>y \<in> set ys. rn_id y = rn_id x \<and> works i y" if e: "oc_tracked st' i = Some (rn_id x)" for i
  proof -
    have "oc_tracked st i = Some (rn_id x)" and n: "rn_db x \<noteq> Some i" using e t by (auto split: option.splits if_splits)
    then obtain z where z: "z \<in> set (oc_runs st)" "rn_id z = rn_id x" "works i z" using ok unfolding tracked_ok_def by blast
    then have "z = x" using distinct_key_unique [OF d z(1)] runs(1) by simp
    then show ?thesis using z(3) n by (simp add: works_def)
  qed
  show "tracks st' z" if z: "z \<in> set as \<union> set bs" "tracks st z" for z
  proof -
    obtain i where i: "rn_db z = Some i" "oc_tracked st i = Some (rn_id z)" using z(2) by (auto simp: tracks_def)
    have "rn_db x \<noteq> Some i"
    proof
      assume "rn_db x = Some i"
      then have "z = x" using db_unique [OF tree, of z x i] i(1) z(1) unfolding runs(1) by auto
      then show False using d z(1) unfolding runs(1) by auto
    qed
    then show ?thesis using i t by (auto simp: tracks_def split: option.split)
  qed
qed (use y in \<open>auto simp: to_track_def\<close>)

lemma later_runs_tracked:
  assumes acc: "accounts_ok st" and tree: "tree_ok st" and ok: "tracked_ok st"
  shows "tracked_ok (execution_ends env r outcome d st)" "tracked_ok (finish_run r db_ok st)"
proof -
  have dist: "distinct (map rn_id (oc_runs st))" using acc by (simp add: accounts_ok_def)
  show "tracked_ok (execution_ends env r outcome d st)"
  proof (cases "\<exists>x m c t. find_run r st = Some x \<and> rn_phase x = RunExecuting m c t")
    case False
    then show ?thesis using ok by (auto simp: execution_ends_def split: option.split run_phase.split)
  next
    case True
    then obtain x m c t where x: "find_run r st = Some x" "rn_phase x = RunExecuting m c t" by blast
    obtain as bs where s: "oc_runs st = as @ x # bs" "rn_id x = r" "\<forall>f. modify rn_id r f (oc_runs st) = as @ f x # bs"
      using run_split [OF acc x(1)] by metis
    have finished: "tracked_ok (set_run r (RunFinishing m y du co) (release_run (rn_db x) c (persist_subagent_messages db q z st)))"
      for y du co db q z
      by (rule tracked_released [OF tree ok s(1) _ dist, where ys = "[x\<lparr>rn_phase := RunFinishing m y du co\<rparr>]"])
        (use s(3) in \<open>auto simp: set_run_def executing_def tracked_release split: option.split\<close>)
    have failed: "tracked_ok (set_run r (RunFailing m c e y du) st)" for e y du
    proof (rule tracked_run [OF ok s(1), where ys = "[x\<lparr>rn_phase := RunFailing m c e y du\<rparr>]"])
      show "\<exists>y' \<in> set [x\<lparr>rn_phase := RunFailing m c e y du\<rparr>]. rn_id y' = rn_id x \<and> works i y'"
        if "oc_tracked (set_run r (RunFailing m c e y du) st) i = Some (rn_id x)" for i
      proof -
        have "oc_tracked st i = Some (rn_id x)" using that by simp
        then obtain z where z: "z \<in> set (oc_runs st)" "rn_id z = rn_id x" "works i z" using ok unfolding tracked_ok_def by blast
        then have "z = x" using distinct_key_unique [OF dist z(1)] s(1) by simp
        then show ?thesis using z(3) by (simp add: works_def failing_def)
      qed
    qed (use s(3) in \<open>simp_all add: set_run_def tracks_def to_track_def executing_def\<close>)
    show ?thesis using ok x finished failed by (cases outcome) (simp_all add: execution_ends_def split: prod.split)
  qed
  show "tracked_ok (finish_run r db_ok st)"
  proof (cases "find_run r st")
    case None
    then show ?thesis using ok by (simp add: finish_run_def)
  next
    case (Some x)
    obtain as bs where s: "oc_runs st = as @ x # bs" "filter (\<lambda>x. rn_id x \<noteq> r) (oc_runs st) = as @ bs"
      using run_split [OF acc Some] by metis
    have failed: "tracked_ok (end_run r call res (release_run (rn_db x) c (update_sub_status db_ok db ss st)))" for call res c db ss
      by (rule tracked_released [OF tree ok s(1) _ dist, where ys = "[]"])
        (use s(2) in \<open>simp_all add: tracked_release split: option.split\<close>, simp add: end_run_def)
    have finished: "tracked_ok (end_run r call res (update_sub_status db_ok db ss st))" if "\<not> executing x" "\<not> failing x" for call res db ss
      by (rule tracked_same [OF ok s(1), where ys = "[]"]) (use s(2) that dist in \<open>simp_all, simp add: end_run_def\<close>)
    show ?thesis using Some failed finished ok
      by (simp add: finish_run_def executing_def failing_def split: run_phase.split)
  qed
qed

section \<open>The effect of a stop\<close>

definition mark :: "uuid set \<Rightarrow> subagent_run \<Rightarrow> subagent_run" where
  "mark ids x = (if stopped ids x then x\<lparr>rn_cancelled := True\<rparr> else x)"

lemma mark_keeps [simp]: "rn_id (mark ids x) = rn_id x" "rn_db (mark ids x) = rn_db x" "rn_phase (mark ids x) = rn_phase x"
  by (simp_all add: mark_def)

lemma mark_cancelled: "rn_cancelled (mark ids x) \<longleftrightarrow> rn_cancelled x \<or> stopped ids x"
  by (simp add: mark_def)

lemma executing_mark [simp]: "executing (mark ids x) = executing x" "failing (mark ids x) = failing x"
  by (simp_all add: executing_def failing_def)

lemma mark_insert: "mark ids (mark {i} x) = mark (insert i ids) x"
  by (simp add: mark_def stopped_def executing_def)

lemma mark_empty: "mark {} x = x"
  by (simp add: mark_def stopped_def)

text \<open>What a stop of the sessions \<open>ids\<close> leaves.\<close>

definition after_stop :: "uuid set \<Rightarrow> orchestration \<Rightarrow> orchestration" where
  "after_stop ids st =
     st\<lparr>oc_tracked := (\<lambda>i. if i \<in> ids then None else oc_tracked st i), oc_runs := map (mark ids) (oc_runs st)\<rparr>"

lemma after_stop_tracked:
  assumes "tracked_ok st"
  shows "tracked_ok (after_stop ids st)"
proof -
  have "\<exists>x \<in> set (oc_runs (after_stop ids st)). rn_id x = r \<and> works i x" if t: "oc_tracked (after_stop ids st) i = Some r" for i r
  proof -
    have "oc_tracked st i = Some r" "i \<notin> ids" using t by (simp_all add: after_stop_def split: if_splits)
    then obtain x where x: "x \<in> set (oc_runs st)" "rn_id x = r" "works i x" using assms unfolding tracked_ok_def by blast
    then have "works i (mark ids x)" using \<open>i \<notin> ids\<close> by (auto simp: works_def mark_cancelled stopped_def)
    then show ?thesis using x by (auto simp: after_stop_def)
  qed
  moreover have "tracks (after_stop ids st) (mark ids x)" if "x \<in> set (oc_runs st)" "to_track (mark ids x)" for x
  proof -
    have x: "executing x" "rn_db x \<noteq> None" "\<not> rn_cancelled x" "\<not> stopped ids x" using that(2) by (auto simp: to_track_def mark_cancelled)
    then have "tracks st x" using assms that(1) unfolding tracked_ok_def to_track_def by blast
    then show ?thesis using x by (auto simp: tracks_def after_stop_def stopped_def)
  qed
  moreover have "\<not> rn_cancelled (mark ids x)" if "x \<in> set (oc_runs st)" "early (rn_phase x)" for x
    using run_early [OF assms that] by (simp add: mark_cancelled stopped_def)
  ultimately show ?thesis unfolding tracked_ok_def by (auto simp: after_stop_def)
qed

lemma cancel_one:
  assumes acc: "accounts_ok st" and tree: "tree_ok st" and ok: "tracked_ok st"
  shows "cancel_subagent i (n, st) = (n + count_rows (stopped {i}) (oc_runs st), after_stop {i} st)"
proof (cases "oc_tracked st i")
  case None
  have "\<not> stopped {i} x" if x: "x \<in> set (oc_runs st)" for x
  proof
    assume s: "stopped {i} x"
    then have "tracks st x" using ok x unfolding tracked_ok_def to_track_def stopped_def by auto
    then show False using s None by (auto simp: tracks_def stopped_def)
  qed
  then have "count_rows (stopped {i}) (oc_runs st) = 0" "map (mark {i}) (oc_runs st) = oc_runs st"
    by (simp_all add: count_rows_0 mark_def map_idI)
  moreover have "(\<lambda>j. if j = i then None else oc_tracked st j) = oc_tracked st" using None by auto
  ultimately show ?thesis using None by (simp add: cancel_subagent_def after_stop_def)
next
  case (Some r)
  then obtain x where x: "x \<in> set (oc_runs st)" "rn_id x = r" "works i x" using ok unfolding tracked_ok_def by blast
  have f: "find_run r st = Some x" using find_own_run [OF acc x(1)] x(2) by simp
  obtain as bs where s: "oc_runs st = as @ x # bs" "\<forall>f. modify rn_id r f (oc_runs st) = as @ f x # bs"
    using run_split [OF acc f] by metis
  have other: "\<not> stopped {i} z" if z: "z \<in> set as \<union> set bs" for z
  proof
    assume "stopped {i} z"
    then have "z = x" using db_unique [OF tree, of z x i] z x unfolding s(1) stopped_def works_def by auto
    then show False using acc z unfolding s(1) accounts_ok_def by auto
  qed
  then have rest: "map (mark {i}) as = as" "map (mark {i}) bs = bs" "count_rows (stopped {i}) as = 0" "count_rows (stopped {i}) bs = 0"
    by (simp_all add: count_rows_0 mark_def map_idI)
  have t: "(\<lambda>j. if j = i then None else oc_tracked st j) = (oc_tracked st)(i := None)" by auto
  have st: "stopped {i} x \<longleftrightarrow> executing x" using x(3) by (auto simp: stopped_def works_def)
  show ?thesis
  proof (cases "executing x")
    case True
    then have "oc_runs (after_stop {i} st) = as @ x\<lparr>rn_cancelled := True\<rparr> # bs" "count_rows (stopped {i}) (oc_runs st) = 1"
      using rest st by (simp_all add: after_stop_def s(1) count_rows_append, simp add: mark_def)
    then show ?thesis using Some f s(2) True t by (simp add: cancel_subagent_def after_stop_def)
  next
    case False
    then have "map (mark {i}) (oc_runs st) = oc_runs st" "count_rows (stopped {i}) (oc_runs st) = 0"
      using rest st by (simp_all add: s(1) count_rows_append, simp add: mark_def)
    then show ?thesis using Some f False t by (simp add: cancel_subagent_def after_stop_def)
  qed
qed

lemma count_stopped_insert:
  "count_rows (stopped {i}) xs + count_rows (stopped ids) (map (mark {i}) xs) = count_rows (stopped (insert i ids)) xs"
proof (induction xs)
  case (Cons x xs)
  have "stopped ids (mark {i} x) \<longleftrightarrow> stopped ids x \<and> \<not> stopped {i} x" by (auto simp: stopped_def mark_def executing_def)
  moreover have "stopped (insert i ids) x \<longleftrightarrow> stopped {i} x \<or> stopped ids x" by (auto simp: stopped_def)
  ultimately show ?case using Cons by auto
qed simp

lemma cancel_all:
  assumes "accounts_ok st" "tree_ok st" "tracked_ok st"
  shows "fold cancel_subagent ds (n, st) = (n + count_rows (stopped (set ds)) (oc_runs st), after_stop (set ds) st)"
  using assms
proof (induction ds arbitrary: n st)
  case Nil
  have "count_rows (stopped {}) xs = 0" for xs by (simp add: count_rows_0 stopped_def)
  moreover have "map (mark {}) (oc_runs st) = oc_runs st" by (simp add: mark_empty map_idI)
  ultimately show ?case by (simp add: after_stop_def)
next
  case (Cons i ds)
  let ?st = "after_stop {i} st"
  have one: "cancel_subagent i (n, st) = (n + count_rows (stopped {i}) (oc_runs st), ?st)"
    by (rule cancel_one [OF Cons.prems])
  have "accounts_ok ?st" using accounts_cong [OF Cons.prems(1), of ?st] ledger_cancel [of i n st] unfolding one by simp
  moreover have "tree_ok ?st" using cancel_one_tree [OF Cons.prems(2), of i n] unfolding one by simp
  moreover have "tracked_ok ?st" by (rule after_stop_tracked [OF Cons.prems(3)])
  moreover have "oc_tracked (after_stop (set ds) ?st) = oc_tracked (after_stop (set (i # ds)) st)"
    "oc_runs (after_stop (set ds) ?st) = oc_runs (after_stop (set (i # ds)) st)"
    by (auto simp: after_stop_def mark_insert)
  then have "after_stop (set ds) ?st = after_stop (set (i # ds)) st" by (simp add: after_stop_def)
  ultimately show ?case
    using Cons.IH one count_stopped_insert [of i "oc_runs st" "set ds"] by (simp add: after_stop_def add.assoc)
qed

lemma cancel_exact:
  assumes "accounts_ok st" "tree_ok st" "tracked_ok st"
  shows "cancel_subagent_tasks p st =
    Some (count_rows (stopped (active_below (oc_sessions st) p)) (oc_runs st), after_stop (active_below (oc_sessions st) p) st)"
proof -
  have "session_rows_ok (oc_sessions st)" using assms(2) by (simp add: tree_ok_def)
  then obtain ds where ds: "collect_descendants (oc_sessions st) [p] [] = Some ds" "set ds = active_below (oc_sessions st) p"
    using collect_exact by blast
  then show ?thesis using cancel_all [OF assms, of ds 0] by (simp add: cancel_subagent_tasks_def)
qed

text \<open>A run that is added does not execute yet.\<close>

lemma tracked_added:
  assumes ok: "tracked_ok st" and runs: "oc_runs st' = oc_runs st @ [y]" and t: "oc_tracked st' = oc_tracked st"
    and y: "\<not> executing y" "\<not> rn_cancelled y"
  shows "tracked_ok st'"
proof -
  have "\<exists>x \<in> set (oc_runs st'). rn_id x = r \<and> works i x" if "oc_tracked st' i = Some r" for i r
    using that ok unfolding tracked_ok_def t runs by (metis Un_iff set_append)
  moreover have "(to_track x \<longrightarrow> tracks st' x) \<and> (early (rn_phase x) \<longrightarrow> \<not> rn_cancelled x)" if "x \<in> set (oc_runs st')" for x
  proof (cases "x = y")
    case True
    then show ?thesis using y by (simp add: to_track_def)
  next
    case False
    then show ?thesis using that ok t unfolding tracked_ok_def tracks_def runs by simp
  qed
  ultimately show ?thesis unfolding tracked_ok_def by blast
qed

lemma tracked_cong: "tracked_ok st \<Longrightarrow> oc_runs st' = oc_runs st \<Longrightarrow> oc_tracked st' = oc_tracked st \<Longrightarrow> tracked_ok st'"
  unfolding tracked_ok_def tracks_def by simp

lemma step_tracked:
  assumes inv: "accounts_ok st" "tree_ok st" "tracked_ok st"
  shows "tracked_ok (orchestration_step env act st)"
proof (cases act)
  case (NewSession i agent model creator permissions)
  then show ?thesis using tracked_cong [OF inv(3), of "new_root_session i agent model creator permissions st"] inv(3)
    by (simp add: new_root_session_def)
next
  case (Spawn s pre mem agent_type prompt description model arg)
  have "tracked_ok (spawn_run call mem st)" for call
    by (rule tracked_added [OF inv(3)]) (simp add: spawn_run_def, simp_all add: spawn_run_def executing_def)
  then show ?thesis using Spawn inv(3) new_task_runs by (simp split: option.split) metis
next
  case (CancelSubagents p)
  then show ?thesis using cancel_exact [OF inv, of p] after_stop_tracked [OF inv(3)] by simp
qed (use inv tracked_cong [OF inv(3)] in
    \<open>simp_all add: begin_run_tracked create_run_tracked acquire_run_tracked later_runs_tracked\<close>)

lemma start_tracked: "tracked_ok (orchestration_start env agents)"
  by (simp add: tracked_ok_def orchestration_start_def)

lemma run_tracked:
  "accounts_ok st \<Longrightarrow> tree_ok st \<Longrightarrow> tracked_ok st \<Longrightarrow> tracked_ok (run_orchestration env acts st)"
  unfolding run_orchestration_def by (induction acts arbitrary: st) (simp_all add: step_accounts step_tree step_tracked)

text \<open>What holds in every state the orchestration reaches.\<close>

lemma reached:
  "accounts_ok (run_orchestration env acts (orchestration_start env agents))"
  "places_ok env (run_orchestration env acts (orchestration_start env agents))"
  "tree_ok (run_orchestration env acts (orchestration_start env agents))"
  "tracked_ok (run_orchestration env acts (orchestration_start env agents))"
  "died_ok env (run_orchestration env acts (orchestration_start env agents))"
  by (simp_all add: run_accounts run_places run_tree run_tracked run_died start_accounts start_places start_tree
      start_tracked start_died)

section \<open>What a stop misses\<close>

text \<open>The last row of a path is ACTIVE, and so is the one before, unless the path starts there.\<close>

lemma below_row:
  assumes "session_rows_ok rows" "j \<in> active_below rows p" "s \<in> set rows" "ss_id s = j" "ss_parent s = Some q"
  shows "q = p \<or> (\<exists>u \<in> set rows. ss_id u = q \<and> ss_status u = SessionActive)"
proof -
  obtain i where i: "i = p \<or> (p, i) \<in> (active_edges rows)\<^sup>+" "(i, j) \<in> active_edges rows"
    using assms(2) unfolding active_below_def by (metis mem_Collect_eq tranclD2 rtrancl_eq_or_trancl)
  then obtain t where t: "t \<in> set rows" "ss_id t = j" "ss_parent t = Some i" unfolding active_edges_def by blast
  have "t = s" using distinct_key_unique [of ss_id rows t s] assms t unfolding session_rows_ok_def by simp
  then have "i = q" using t(3) assms(5) by simp
  moreover have "\<exists>u \<in> set rows. ss_id u = i \<and> ss_status u = SessionActive" if "(p, i) \<in> (active_edges rows)\<^sup>+"
    using tranclD2 [OF that] unfolding active_edges_def by blast
  ultimately show ?thesis using i(1) by blast
qed

lemma waiting_starts_after_stop:
  assumes "accounts_ok st" "tree_ok st" "tracked_ok st" and x: "x \<in> set (oc_runs st)" "rn_phase x = RunWaiting m tool t"
    and "cancel_subagent_tasks p st = Some (n, st')" "0 < oc_free st' tool"
  shows "\<exists>y. find_run (rn_id x) (acquire_run (rn_id x) st') = Some y \<and> executing y \<and> \<not> rn_cancelled y"
proof -
  have st': "st' = after_stop (active_below (oc_sessions st) p) st" using assms(6) cancel_exact [OF assms(1-3), of p] by simp
  have "\<not> rn_cancelled x" using assms(3) x unfolding tracked_ok_def by simp
  moreover have "mark ids x = x" for ids using x(2) by (simp add: mark_def stopped_def executing_def)
  then have "x \<in> set (oc_runs st')" using x(1) by (simp add: st' after_stop_def) (metis image_eqI)
  moreover have "accounts_ok st'"
    using accounts_cong [OF assms(1), of st'] unfolding st' by (simp add: ledger_def after_stop_def mark_def comp_def if_distrib cong: if_cong)
  ultimately have f: "find_run (rn_id x) st' = Some x" by (simp add: find_own_run)
  let ?st = "st'\<lparr>oc_free := (oc_free st')(tool := oc_free st' tool - 1)\<rparr>"
  have "find_run (rn_id x) (launch (rn_id x) db m (Some tool) t ?st) = Some (x\<lparr>rn_phase := RunExecuting m (Some tool) t\<rparr>)" for db
    using f get_row_modify [of rn_id "rn_id x" "\<lambda>x. x\<lparr>rn_phase := RunExecuting m (Some tool) t\<rparr>" "oc_runs st'"]
    by (simp add: launch_def find_run_def set_run_def Let_def split: option.split)
  then show ?thesis using f x(2) assms(7) \<open>\<not> rn_cancelled x\<close>
    by (auto simp: acquire_run_def executing_def)
qed

lemma orphan_kept_by_stop:
  assumes "accounts_ok st" "tree_ok st" "tracked_ok st" and x: "x \<in> set (oc_runs st)" "rn_db x = Some (ss_id s)"
    and s: "s \<in> set (oc_sessions st)" "ss_parent s = Some (ss_id u)"
    and u: "u \<in> set (oc_sessions st)" "ss_id u \<noteq> p" "ss_status u \<noteq> SessionActive"
    and "cancel_subagent_tasks p st = Some (n, st')"
  shows "x \<in> set (oc_runs st')"
proof -
  have rows: "session_rows_ok (oc_sessions st)" using assms(2) by (simp add: tree_ok_def)
  have st': "st' = after_stop (active_below (oc_sessions st) p) st" using assms(11) cancel_exact [OF assms(1-3), of p] by simp
  have "ss_id s \<notin> active_below (oc_sessions st) p"
  proof
    assume "ss_id s \<in> active_below (oc_sessions st) p"
    then obtain v where "v \<in> set (oc_sessions st)" "ss_id v = ss_id u" "ss_status v = SessionActive"
      using below_row [OF rows _ s(1) refl s(2)] u(2) by blast
    moreover from this have "v = u"
      using distinct_key_unique [of ss_id "oc_sessions st" v u] rows u(1) unfolding session_rows_ok_def by simp
    ultimately show False using u(3) by simp
  qed
  then have "mark (active_below (oc_sessions st) p) x = x" using x(2) by (simp add: mark_def stopped_def)
  then show ?thesis using x(1) by (simp add: st' after_stop_def) (metis image_eqI)
qed

section \<open>Runs without a row\<close>

text \<open>The identifier under which a run without a row executes names no row.\<close>

lemma spawn_without_row:
  assumes "tree_ok st" "find_run r st = Some x" "executing x" "rn_db x = None"
    "pre \<notin> set (oc_drawn st)" "mem \<notin> set (oc_drawn st)" "pre \<noteq> mem"
  shows "\<exists>call. orchestration_step env (Spawn (RunSpawns r) pre mem agent_type prompt description model arg) st = spawn_run call mem st \<and>
    sc_agent_type call = agent_type \<and> sc_depth call = 0 \<and> sc_permissions call = None"
proof -
  have "rn_session x \<in> set (oc_memory st)" using tree_run_ok [OF assms(1,2)] by (simp add: run_ok_def)
  then have "rn_session x \<notin> ss_id ` set (oc_sessions st)" using assms(1) unfolding tree_ok_def by blast
  then have n: "find_sub (rn_session x) st = None" unfolding find_sub_def get_row_None by (metis image_eqI)
  have u: "spawner_session (RunSpawns r) st = Some (rn_session x)"
    using assms(2-4) by (simp add: spawner_session_def effective_session_def)
  have p: "resolve_parent_session (rn_session x) st = (None, None, None, None, 0)" using n by (simp add: resolve_parent_session_def)
  have f: "first_id (Some (str_uuid (rn_session x))) arg = Some (str_uuid (rn_session x))"
    by (simp add: first_id_def str_uuid_given)
  have a: "allowed_subagents env None = Inr None" by (simp add: allowed_subagents_def given_def)
  let ?call = "\<lparr>sc_agent_type = agent_type, sc_prompt = prompt, sc_description = description, sc_model = model,
    sc_parent = Some (str_uuid (rn_session x)), sc_parent_model = None, sc_workspace = None, sc_permissions = None,
    sc_depth = 0, sc_pre_session_id = pre\<rparr>"
  show ?thesis using u assms(5-7)
    by (intro exI [of _ ?call]) (simp add: new_task_tool_def f p a may_spawn_def)
qed

end
