(* ===== verification/Model_Routing.thy ===== *)
theory Model_Routing
  imports Subagents
begin

text \<open>What \<open>route_model_stub\<close> returns: as many different providers as the count and the pool allow.\<close>

definition provider_of :: "string \<Rightarrow> string option" where
  "provider_of m = (case parse_model_string m of Inl _ \<Rightarrow> None | Inr (provider, _) \<Rightarrow> Some provider)"

definition providers_of :: "string list \<Rightarrow> string set" where
  "providers_of ms = {p. Some p \<in> provider_of ` set ms}"

lemma pick_diverse_simps:
  "pick_diverse n (m # ms) selected providers =
     (if n \<le> length selected then selected
      else (case provider_of m of
              None \<Rightarrow> pick_diverse n ms selected providers
            | Some p \<Rightarrow>
                if p \<in> set providers then pick_diverse n ms selected providers
                else pick_diverse n ms (selected @ [m]) (p # providers)))"
  by (simp add: provider_of_def split: sum.split prod.split)

definition picked :: "string list \<Rightarrow> string list \<Rightarrow> bool" where
  "picked selected providers \<longleftrightarrow> distinct providers \<and> map provider_of selected = map Some (rev providers)"

lemma picked_simps [simp]: "picked [] []"
  by (simp add: picked_def)

lemma picked_more: "picked selected providers \<Longrightarrow> provider_of m = Some p \<Longrightarrow> p \<notin> set providers \<Longrightarrow> picked (selected @ [m]) (p # providers)"
  by (simp add: picked_def)

lemma picked_length: "picked selected providers \<Longrightarrow> length selected = length providers"
  unfolding picked_def by (metis length_map length_rev)

lemma picked_providers: "picked selected providers \<Longrightarrow> providers_of selected = set providers"
proof -
  assume "picked selected providers"
  then have e: "provider_of ` set selected = Some ` set providers" unfolding picked_def by (metis list.set_map set_rev)
  show ?thesis unfolding providers_of_def e by blast
qed

lemma providers_Cons: "providers_of (m # ms) = (case provider_of m of None \<Rightarrow> providers_of ms | Some p \<Rightarrow> insert p (providers_of ms))"
  by (auto simp: providers_of_def split: option.split)

lemma providers_append [simp]: "providers_of (xs @ ys) = providers_of xs \<union> providers_of ys"
  by (auto simp: providers_of_def)

lemma providers_finite [simp]: "finite (providers_of ms)"
proof -
  have "p \<in> the ` provider_of ` set ms" if "p \<in> providers_of ms" for p
    using that imageI [of "Some p" "provider_of ` set ms" the] by (simp add: providers_of_def)
  then have "providers_of ms \<subseteq> the ` provider_of ` set ms" by blast
  then show ?thesis by (rule finite_subset) simp
qed

text \<open>The first pass takes one model of each provider, until there are enough.\<close>

lemma pick_diverse_picked:
  assumes "picked selected providers" "length selected \<le> n"
  shows "\<exists>ps. picked (pick_diverse n ms selected providers) ps \<and>
    length (pick_diverse n ms selected providers) = min n (card (set providers \<union> providers_of ms)) \<and>
    set (pick_diverse n ms selected providers) \<subseteq> set selected \<union> set ms"
  using assms
proof (induction ms arbitrary: selected providers)
  case Nil
  have "card (set providers) = length selected"
    using Nil(1) picked_length [OF Nil(1)] by (simp add: picked_def distinct_card)
  then show ?case using Nil by (auto simp: providers_of_def min_absorb2)
next
  case (Cons m ms)
  have c: "card (set providers) = length selected"
    using Cons.prems(1) picked_length [OF Cons.prems(1)] by (simp add: picked_def distinct_card)
  show ?case
  proof (cases "n \<le> length selected")
    case True
    have "card (set providers) \<le> card (set providers \<union> providers_of (m # ms))" by (intro card_mono) simp_all
    then show ?thesis using Cons.prems True c by (auto simp: min_absorb1)
  next
    case False
    show ?thesis
    proof (cases "provider_of m")
      case None
      then show ?thesis using Cons.IH [OF Cons.prems] False by (auto simp: pick_diverse_simps providers_Cons simp del: pick_diverse.simps)
    next
      case (Some p)
      show ?thesis
      proof (cases "p \<in> set providers")
        case True
        then have "set providers \<union> providers_of (m # ms) = set providers \<union> providers_of ms"
          using Some by (auto simp: providers_Cons)
        then show ?thesis using Cons.IH [OF Cons.prems] False Some True
          by (auto simp: pick_diverse_simps simp del: pick_diverse.simps)
      next
        case new: False
        have e: "set providers \<union> providers_of (m # ms) = set (p # providers) \<union> providers_of ms"
          using Some by (auto simp: providers_Cons)
        have "length (selected @ [m]) \<le> n" using False by simp
        note IH = Cons.IH [OF picked_more [OF Cons.prems(1) Some new] this]
        have "pick_diverse n (m # ms) selected providers = pick_diverse n ms (selected @ [m]) (p # providers)"
          using False Some new by (simp add: pick_diverse_simps del: pick_diverse.simps)
        then show ?thesis using IH unfolding e by auto
      qed
    qed
  qed
qed

text \<open>The second pass adds further models of the pool.\<close>

lemma fill_models_spec:
  assumes "distinct selected" "length selected \<le> n"
  shows "distinct (fill_models n ms selected) \<and> (\<exists>more_models. fill_models n ms selected = selected @ more_models \<and> set more_models \<subseteq> set ms) \<and>
    length (fill_models n ms selected) = min n (card (set selected \<union> set ms))"
  using assms
proof (induction ms arbitrary: selected)
  case Nil
  then show ?case by (simp add: distinct_card)
next
  case (Cons m ms)
  show ?case
  proof (cases "n \<le> length selected")
    case True
    have "card (set selected) \<le> card (set selected \<union> set (m # ms))" by (intro card_mono) auto
    then show ?thesis using Cons.prems True by (simp add: distinct_card)
  next
    case False
    show ?thesis
    proof (cases "m \<in> set selected")
      case True
      then have "set selected \<union> set (m # ms) = set selected \<union> set ms" by auto
      then show ?thesis using Cons.IH [OF Cons.prems] False True by auto
    next
      case new: False
      have e: "set selected \<union> set (m # ms) = set (selected @ [m]) \<union> set ms" by auto
      have "distinct (selected @ [m])" "length (selected @ [m]) \<le> n" using Cons.prems(1) new False by simp_all
      note IH = Cons.IH [OF this]
      have f: "fill_models n (m # ms) selected = fill_models n ms (selected @ [m])" using False new by simp
      show ?thesis unfolding f e using IH by auto
    qed
  qed
qed

lemma route_result:
  assumes "1 < count" "set shuffled = set (case candidates of None \<Rightarrow> KNOWN_MODELS | Some [] \<Rightarrow> KNOWN_MODELS | Some ms \<Rightarrow> ms)"
  shows "distinct (route_model_stub shuffled count candidates)" "set (route_model_stub shuffled count candidates) \<subseteq> set shuffled"
    "length (route_model_stub shuffled count candidates) = min (nat count) (card (set shuffled))"
    "card (providers_of (route_model_stub shuffled count candidates)) = min (nat count) (card (providers_of shuffled))"
proof -
  let ?n = "nat count"
  let ?sel = "pick_diverse ?n shuffled [] []"
  let ?r = "fill_models ?n shuffled ?sel"
  obtain ps where sel: "picked ?sel ps" "length ?sel = min ?n (card (providers_of shuffled))" "set ?sel \<subseteq> set shuffled"
    using pick_diverse_picked [OF picked_simps, of ?n shuffled] by auto
  have "distinct (map provider_of ?sel)" using sel(1) unfolding picked_def by (simp add: distinct_map)
  then have d: "distinct ?sel" by (simp add: distinct_map)
  obtain add where r: "distinct ?r" "?r = ?sel @ add" "set add \<subseteq> set shuffled" "length ?r = min ?n (card (set ?sel \<union> set shuffled))"
    using fill_models_spec [OF d, of ?n shuffled] sel(2) by auto
  have s: "route_model_stub shuffled count candidates = ?r"
    using assms(1) r(4) by (simp add: route_model_stub_def Let_def)
  have c: "card (providers_of ?sel) = length ?sel"
    using picked_providers [OF sel(1)] picked_length [OF sel(1)] sel(1) by (simp add: picked_def distinct_card)
  have "providers_of ?r \<subseteq> providers_of shuffled" using sel(3) r(2,3) by (auto simp: providers_of_def)
  then have upper: "card (providers_of ?r) \<le> card (providers_of shuffled)" by (rule card_mono [OF providers_finite])
  have lower: "card (providers_of ?sel) \<le> card (providers_of ?r)" unfolding r(2) by (intro card_mono) simp_all
  have "card (providers_of ?r) \<le> ?n"
  proof -
    have "card (providers_of ?r) \<le> card (set ?r)"
    proof -
      have "Some ` providers_of ?r \<subseteq> provider_of ` set ?r" by (force simp: providers_of_def)
      then have "card (Some ` providers_of ?r) \<le> card (provider_of ` set ?r)" by (intro card_mono) simp_all
      also have "\<dots> \<le> card (set ?r)" by (rule card_image_le) simp
      finally show ?thesis by (simp add: card_image)
    qed
    also have "\<dots> \<le> ?n" using r(1,4) by (simp add: distinct_card)
    finally show ?thesis .
  qed
  then have p: "card (providers_of ?r) = min ?n (card (providers_of shuffled))" using upper lower c sel(2) by (simp add: min_def split: if_splits)
  have u: "set ?sel \<union> set shuffled = set shuffled" using sel(3) by auto
  show "distinct (route_model_stub shuffled count candidates)" unfolding s by (rule r(1))
  show "set (route_model_stub shuffled count candidates) \<subseteq> set shuffled" unfolding s r(2) using sel(3) r(3) by simp
  show "length (route_model_stub shuffled count candidates) = min (nat count) (card (set shuffled))"
    unfolding s using r(4) u by simp
  show "card (providers_of (route_model_stub shuffled count candidates)) = min (nat count) (card (providers_of shuffled))"
    unfolding s by (rule p)
qed

end
