(* ===== verification/Subagent_Properties.thy ===== *)
theory Subagent_Properties
  imports Subagent_Cancel Model_Routing
begin

text \<open>
  The properties of the subagent orchestration. Every state here is reached from the start by any
  list of actions of the sessions, the runs and the stops.
\<close>

section \<open>The tree of sessions\<close>

text \<open>
  C31: In every state reached, each row of a session is well formed: it is at most two levels deep; a
  row with a parent is one level below the row of its parent and has the parent's creator; a row
  without parent has no depth. This holds as long as the rows of the agents stay in the database:
  the depth of a parent whose agent has no row counts as 0.
\<close>

theorem subagent_rows_well_formed:
  assumes "st = run_orchestration env acts (orchestration_start env agents)" "s \<in> set (oc_sessions st)"
  shows "depth_of s \<le> 2 \<and>
    (if ss_parent s = None then ss_depth s = None
     else list_ex (\<lambda>q. ss_parent s = Some (ss_id q) \<and> depth_of s = Suc (depth_of q) \<and> ss_creator s = ss_creator q)
       (oc_sessions st))"
proof -
  have "session_rows_ok (oc_sessions st)" using reached(3) [of env acts agents] by (simp add: assms(1) tree_ok_def)
  then have s: "depth_of s \<le> MAX_SUBAGENT_DEPTH"
    "if ss_parent s = None then ss_depth s = None else \<exists>q \<in> set (oc_sessions st). child_of q s"
    using assms(2) unfolding session_rows_ok_def by blast+
  show ?thesis
  proof (cases "ss_parent s = None")
    case True
    then show ?thesis using s by (simp add: MAX_SUBAGENT_DEPTH_def)
  next
    case False
    then obtain q where "q \<in> set (oc_sessions st)" "child_of q s" using s(2) by auto
    then show ?thesis using s(1) False by (auto simp: MAX_SUBAGENT_DEPTH_def list_ex_iff child_of_def depth_of_def)
  qed
qed

definition ex_worker :: agent_source where
  "ex_worker = \<lparr>sp_executor = \<lparr>ec_raw = False, ec_model = Some ''claude-code-cli''\<rparr>, sp_tools = (\<lambda>_. None),
     sp_allowed_subagents = [''*''], sp_timeout_s = 600\<rparr>"

definition ex_agent_env :: "nat \<Rightarrow> agent_env" where
  "ex_agent_env n = \<lparr>en_spec = (\<lambda>a. if a = ''worker'' then Some ex_worker else None), en_config = (\<lambda>_. Inr None), en_db_config = (\<lambda>_. None),
     en_servers = [''harness'', ''web''], en_max = (\<lambda>_. n), en_repr = quoted, en_int = (\<lambda>_. ''n''), en_error = (\<lambda>_. ''error'')\<rparr>"

definition ex_spawn :: "spawner \<Rightarrow> uuid \<Rightarrow> uuid \<Rightarrow> orchestration_action" where
  "ex_spawn s pre mem = Spawn s pre mem ''worker'' ''do it'' ''a part'' None None"

definition ex_root :: "stored_permissions option \<Rightarrow> orchestration_action" where
  "ex_root p = NewSession 1 (Some ''worker'') None (Some ''ada'') p"

lemmas ex_orchestration_defs = ex_worker_def ex_agent_env_def ex_spawn_def ex_root_def

lemma given_simps: "given None = None" "given (Some []) = None" "given (Some (c # s)) = Some (c # s)"
  by (simp_all add: given_def)

text \<open>The operations as a simplification bundle for concrete runs.\<close>

lemmas run_orchestration_defs =
  run_orchestration_def orchestration_start_def new_root_session_def spawner_session_def find_sub_def find_run_def
  new_task_tool_def first_id_def str_uuid_given resolve_parent_session_def allowed_subagents_def may_spawn_def spawn_run_def
  given_simps begin_run_def MAX_SUBAGENT_DEPTH_def find_source_def resolve_model_def llm_model_def parse_model_string_def
  DEFAULT_MODEL_ANTHROPIC_def PROVIDERS_def cli_of_def set_run_def create_run_def create_db_session_def set_db_def launch_def
  acquire_run_def execution_ends_def release_run_def persist_subagent_messages_def execution_fails_def finish_run_def
  end_run_def update_sub_status_def executing_def effective_session_def load_agent_config_def validate_agent_name_def
  agent_name_char_def die_run_def

lemma subagent_rows_well_formed_witness:
  "let st = run_orchestration (ex_agent_env 2) [ex_root None, ex_spawn (SessionSpawns 1) 2 3, BeginRun 0, CreateRun 0 True]
     (orchestration_start (ex_agent_env 2) [''worker''])
   in map ss_depth (oc_sessions st) = [None, Some 1] \<and> depth_of (last (oc_sessions st)) \<le> 2"
proof -
  let ?st = "run_orchestration (ex_agent_env 2) [ex_root None, ex_spawn (SessionSpawns 1) 2 3, BeginRun 0, CreateRun 0 True]
     (orchestration_start (ex_agent_env 2) [''worker''])"
  have c: "map ss_depth (oc_sessions ?st) = [None, Some 1]"
    by (simp add: ex_orchestration_defs run_orchestration_defs Let_def)
  then have "last (oc_sessions ?st) \<in> set (oc_sessions ?st)" by (intro last_in_set) auto
  then show ?thesis using subagent_rows_well_formed [OF refl] c unfolding Let_def by blast
qed

section \<open>Runs, places and results\<close>

text \<open>
  C32: In every state reached, the places left in a tool's semaphore and the runs that hold one add up
  to the tool's limit: never more subagents of a tool run than the limit allows, and no path
  through the coroutine (success, failure, timeout, cancellation) loses a place.
\<close>

theorem subagent_places_balance:
  "let st = run_orchestration env acts (orchestration_start env agents)
   in oc_free st tool + count_rows (\<lambda>x. holds_place tool (rn_phase x)) (oc_runs st) = en_max env tool"
  using reached(2) [of env acts agents] by (simp add: places_ok_def places_held_def Let_def)

text \<open>
  C33: In every state reached, each spawned run is still live, or has put exactly one result, or has
  died without one, and this only for an agent that is not in the registry and whose configuration
  \<open>load_agent_config\<close> raises for (a malformed name, or fields that are refused). What the drains of a session
  have taken, followed by what waits in its queue, is exactly the list of the results that the
  ended runs have put for it, in order.
\<close>

theorem subagent_results_accounted:
  "let st = run_orchestration env acts (orchestration_start env agents)
   in distinct (map rn_id (oc_runs st) @ map fst (oc_put st) @ map fst (oc_died st)) \<and>
      set (map rn_id (oc_runs st) @ map fst (oc_put st) @ map fst (oc_died st)) = {..<oc_next st} \<and>
      list_all (\<lambda>(r, agent_type). en_spec env agent_type = None \<and> isl (load_agent_config env agent_type)) (oc_died st) \<and>
      taken_of s (oc_queues st) @ waiting_of s (oc_queues st) =
        map (snd \<circ> snd) (filter (\<lambda>e. fst (snd e) = Some s) (oc_put st))"
  using reached(1,5) [of env acts agents]
  by (auto simp: accounts_ok_def results_for_def history_def died_ok_def list_all_iff Let_def)

text \<open>
  A name like \<open>Foo Bar\<close> is enough: the caller was told that the task was spawned, and no result follows.
\<close>

theorem malformed_agent_dies:
  assumes "accounts_ok st" "find_run r st = Some x" "rn_phase x = RunStarted" "sc_depth (rn_call x) < 2"
    "en_spec env (sc_agent_type (rn_call x)) = None" "\<not> validate_agent_name (sc_agent_type (rn_call x))"
  shows "begin_run env r st = die_run r (rn_call x) st" "oc_put (begin_run env r st) = oc_put st"
    "find_run r (begin_run env r st) = None"
proof -
  have "find_source env (sc_agent_type (rn_call x)) =
      Inl (''Invalid agent name: '' @ en_repr env (sc_agent_type (rn_call x)) @ ''. Must match [a-z0-9-]+.'')"
    using assms(5,6) by (simp add: find_source_def load_agent_config_def)
  then show b: "begin_run env r st = die_run r (rn_call x) st"
    using assms(2-4) by (simp add: begin_run_def MAX_SUBAGENT_DEPTH_def Let_def)
  show "oc_put (begin_run env r st) = oc_put st" unfolding b by (simp add: die_run_def)
  show "find_run r (begin_run env r st) = None" unfolding b by (simp add: die_run_def find_run_def get_row_None)
qed

lemma malformed_name: "\<not> validate_agent_name ''Foo Bar''"
  by (simp add: validate_agent_name_def agent_name_char_def)

text \<open>How many of the steps change the state.\<close>

primrec changing_steps :: "agent_env \<Rightarrow> orchestration_action list \<Rightarrow> orchestration \<Rightarrow> nat" where
  "changing_steps env [] st = 0"
| "changing_steps env (act # acts) st =
     (let st' = orchestration_step env act st in (if st' = st then 0 else 1) + changing_steps env acts st')"

lemma changing_bounded:
  assumes "accounts_ok st" "list_all run_action acts"
  shows "changing_steps env acts st \<le> runs_weight st"
  using assms
proof (induction acts arbitrary: st)
  case (Cons act acts)
  then have "changing_steps env acts (orchestration_step env act st) \<le> runs_weight (orchestration_step env act st)"
    using step_accounts by simp
  moreover have "orchestration_step env act st = st \<or> runs_weight (orchestration_step env act st) < runs_weight st"
    using run_action_lowers Cons.prems by simp
  ultimately show ?case by (auto simp: Let_def)
qed simp

text \<open>
  C34: The runs come to an end. From any state reached, without further spawns, at most five steps per
  live run can change anything, in any order; and as long as every tool has at least one place, whatever way
  the executions end (\<open>how\<close>), there is such a sequence of steps after which no run is left, all places
  are free again, and every run spawned has put its result, except for those that have died because the
  configuration of their agent could not be loaded; when every agent spawned for has one, none dies.
\<close>

theorem subagent_runs_settle:
  assumes "st = run_orchestration env acts (orchestration_start env agents)"
    "\<And>tool. 0 < en_max env tool" "\<And>r. how r \<noteq> ExecutionCancelled"
  shows "(\<forall>more_acts. list_all run_action more_acts \<longrightarrow> changing_steps env more_acts st \<le> 5 * length (oc_runs st)) \<and>
    (\<exists>more_acts. list_all (\<lambda>act. \<exists>r. act \<in> moves how r) more_acts \<and> length more_acts \<le> 5 * length (oc_runs st) \<and>
       (let st' = run_orchestration env more_acts st
        in oc_runs st' = [] \<and> oc_free st' = en_max env \<and>
           set (map fst (oc_put st')) \<union> set (map fst (oc_died st')) = {..<oc_next st} \<and>
           list_all (\<lambda>(r, agent_type). en_spec env agent_type = None \<and> isl (load_agent_config env agent_type)) (oc_died st')))"
proof
  have ok: "accounts_ok st" "places_ok env st" using reached(1,2) by (simp_all add: assms(1))
  show "\<forall>more_acts. list_all run_action more_acts \<longrightarrow> changing_steps env more_acts st \<le> 5 * length (oc_runs st)"
    using changing_bounded [OF ok(1), of _ env] weight_bound [of st] by (meson le_trans)
  obtain more_acts where acts: "list_all (\<lambda>act. \<exists>r. act \<in> moves how r) more_acts" "length more_acts \<le> runs_weight st"
    "oc_runs (run_orchestration env more_acts st) = []"
    using runs_settle [OF ok assms(2), of how] assms(3) by blast
  have run: "list_all run_action more_acts" using acts(1) moves_run_action by (auto simp: list_all_iff)
  let ?st = "run_orchestration env more_acts st"
  have "places_ok env ?st" "accounts_ok ?st" using run_places run_accounts ok by blast+
  then have "oc_free ?st tool = en_max env tool" for tool using acts(3) by (simp add: places_ok_def places_held_def)
  then have "oc_free ?st = en_max env" by blast
  moreover have "set (map fst (oc_put ?st)) \<union> set (map fst (oc_died ?st)) = {..<oc_next st}"
    using \<open>accounts_ok ?st\<close> acts(3) run_actions_next [OF run, of env st] by (simp add: accounts_ok_def)
  moreover have "died_ok env ?st" using run_died reached(5) by (simp add: assms(1))
  then have "list_all (\<lambda>(r, agent_type). en_spec env agent_type = None \<and> isl (load_agent_config env agent_type)) (oc_died ?st)"
    by (auto simp: died_ok_def list_all_iff)
  ultimately show "\<exists>more_acts. list_all (\<lambda>act. \<exists>r. act \<in> moves how r) more_acts \<and> length more_acts \<le> 5 * length (oc_runs st) \<and>
      (let st' = run_orchestration env more_acts st
       in oc_runs st' = [] \<and> oc_free st' = en_max env \<and>
          set (map fst (oc_put st')) \<union> set (map fst (oc_died st')) = {..<oc_next st} \<and>
          list_all (\<lambda>(r, agent_type). en_spec env agent_type = None \<and> isl (load_agent_config env agent_type)) (oc_died st'))"
    using acts weight_bound [of st] by (intro exI [of _ more_acts]) (simp add: Let_def)
qed

definition ex_two_children :: "nat \<Rightarrow> orchestration_action list" where
  "ex_two_children n =
     [ex_root None, ex_spawn (SessionSpawns 1) 2 3, ex_spawn (SessionSpawns 1) 4 5, BeginRun 0, BeginRun 1,
      CreateRun 0 True, CreateRun 1 True, AcquireRun 0, AcquireRun 1]"

lemma subagent_runs_settle_witness:
  "let st = run_orchestration (ex_agent_env 1) (ex_two_children 1) (orchestration_start (ex_agent_env 1) [''worker''])
   in map rn_id (oc_runs st) = [0, 1] \<and>
      (\<exists>more_acts. oc_runs (run_orchestration (ex_agent_env 1) more_acts st) = [])"
proof -
  let ?st = "run_orchestration (ex_agent_env 1) (ex_two_children 1) (orchestration_start (ex_agent_env 1) [''worker''])"
  have "map rn_id (oc_runs ?st) = [0, 1]" by (simp add: ex_two_children_def ex_orchestration_defs run_orchestration_defs Let_def)
  moreover have "\<exists>more_acts. oc_runs (run_orchestration (ex_agent_env 1) more_acts ?st) = []"
    using subagent_runs_settle [OF refl, of "ex_agent_env 1" "\<lambda>_. ExecutionTimesOut" "ex_two_children 1" "[''worker'']"]
    by (auto simp: ex_agent_env_def Let_def)
  ultimately show ?thesis by (simp add: Let_def)
qed

section \<open>Stops\<close>

text \<open>
  C35: In every state reached the search of a stop through the tree ends, and the stop cancels exactly
  the executions of the sessions that are connected with the stopped session by ACTIVE rows: it marks
  these runs, forgets exactly the tracked tasks of these sessions, returns the number of runs marked and
  leaves everything else as it is.
\<close>

theorem stop_cancels_active_descendants:
  "let st = run_orchestration env acts (orchestration_start env agents);
       below = active_below (oc_sessions st) p;
       hit = (\<lambda>x. executing x \<and> \<not> rn_cancelled x \<and> (\<exists>i \<in> below. rn_db x = Some i))
   in cancel_subagent_tasks p st =
        Some (count_rows hit (oc_runs st),
              st\<lparr>oc_tracked := (\<lambda>i. if i \<in> below then None else oc_tracked st i),
                 oc_runs := map (\<lambda>x. if hit x then x\<lparr>rn_cancelled := True\<rparr> else x) (oc_runs st)\<rparr>)"
proof -
  have "(\<lambda>x. executing x \<and> \<not> rn_cancelled x \<and> (\<exists>i \<in> ids. rn_db x = Some i)) = stopped ids" for ids
    by (simp add: stopped_def fun_eq_iff)
  moreover have "(\<lambda>x. if stopped ids x then x\<lparr>rn_cancelled := True\<rparr> else x) = mark ids" for ids
    by (simp add: mark_def fun_eq_iff)
  ultimately show ?thesis using cancel_exact [OF reached(1,3,4) [of env acts agents], of p] by (simp add: Let_def after_stop_def)
qed

text \<open>
  C36: In every state reached, a stop of any session \<open>p\<close> misses two kinds of subagents. A run that waits
  for a place of its tool is not cancelled: with the next free place it starts its execution after the stop.
  And a run that executes in a row whose parent row is not ACTIVE any more and is not \<open>p\<close> itself goes on
  uncancelled, although it descends from \<open>p\<close>.
\<close>

theorem stop_misses_subagents:
  assumes "st = run_orchestration env acts (orchestration_start env agents)" "x \<in> set (oc_runs st)"
    "cancel_subagent_tasks p st = Some (n, st')"
  shows "(\<forall>m tool t. rn_phase x = RunWaiting m tool t \<and> 0 < oc_free st' tool \<longrightarrow>
      (\<exists>y. find_run (rn_id x) (acquire_run (rn_id x) st') = Some y \<and> executing y \<and> \<not> rn_cancelled y)) \<and>
    (\<forall>s u. rn_db x = Some (ss_id s) \<and> s \<in> set (oc_sessions st) \<and> ss_parent s = Some (ss_id u) \<and>
      u \<in> set (oc_sessions st) \<and> ss_id u \<noteq> p \<and> ss_status u \<noteq> SessionActive \<longrightarrow> x \<in> set (oc_runs st'))"
proof -
  note inv = reached(1,3,4) [of env acts agents, folded assms(1)]
  show ?thesis
    using waiting_starts_after_stop [OF inv assms(2) _ assms(3)] orphan_kept_by_stop [OF inv assms(2) _ _ _ _ _ _ assms(3)]
    by blast
qed

text \<open>A grandchild whose parent has completed, and a stop of the root.\<close>

definition ex_grandchild :: "orchestration_action list" where
  "ex_grandchild =
     [ex_root None, ex_spawn (SessionSpawns 1) 2 3, BeginRun 0, CreateRun 0 True, AcquireRun 0,
      ex_spawn (RunSpawns 0) 4 5, BeginRun 1, CreateRun 1 True, AcquireRun 1,
      ExecutionEnds 0 (ExecutionDone ''ok'' None None) 5, FinishRun 0 True]"

lemma stop_misses_subagents_witness:
  "\<exists>x st'. cancel_subagent_tasks 1 (run_orchestration (ex_agent_env 2) ex_grandchild (orchestration_start (ex_agent_env 2) [''worker''])) =
      Some (0, st') \<and> x \<in> set (oc_runs st') \<and> executing x \<and> \<not> rn_cancelled x"
proof -
  let ?st = "run_orchestration (ex_agent_env 2) ex_grandchild (orchestration_start (ex_agent_env 2) [''worker''])"
  have runs: "map (\<lambda>x. (rn_db x, executing x, rn_cancelled x)) (oc_runs ?st) = [(Some 4, True, False)]"
    "map (\<lambda>s. (ss_id s, ss_parent s, ss_status s)) (oc_sessions ?st) =
       [(1, None, SessionActive), (2, Some 1, SessionCompleted), (4, Some 2, SessionActive)]"
    by (simp_all add: ex_grandchild_def ex_orchestration_defs run_orchestration_defs put_result_def Let_def)
  obtain x where x: "oc_runs ?st = [x]" "rn_db x = Some 4" "executing x" "\<not> rn_cancelled x"
    using runs(1) by (auto simp: map_eq_Cons_conv)
  obtain r u s where rows: "oc_sessions ?st = [r, u, s]" "ss_id u = 2" "ss_status u = SessionCompleted" "ss_id s = 4"
    "ss_parent s = Some 2"
    using runs(2) by (auto simp: map_eq_Cons_conv)
  obtain n st' where c: "cancel_subagent_tasks 1 ?st = Some (n, st')"
    using cancel_exact [OF reached(1,3,4)] by metis
  have "n = 0"
    using c by (simp add: ex_grandchild_def ex_orchestration_defs run_orchestration_defs put_result_def Let_def
        cancel_subagent_tasks_def collect_descendants.simps active_children_def cancel_subagent_def)
  moreover have "x \<in> set (oc_runs st')"
    using stop_misses_subagents [OF refl _ c, of x, THEN conjunct2, rule_format, of s u] x rows by simp
  ultimately show ?thesis using c x by blast
qed

section \<open>Subagents without a row\<close>

text \<open>
  C37: A subagent that executes without a row (its agent is not in the database, or the insertion
  failed) runs under an identifier that names no row. In every state reached, whatever agent it spawns a task
  for is accepted, without a look at the agents it may spawn; the task starts at depth 0, whatever its own depth, and
  without a permissions entry, which is read as full access, whatever the restrictions of its root session.
\<close>

theorem unrecorded_subagents_escape:
  assumes "st = run_orchestration env acts (orchestration_start env agents)" "find_run r st = Some x" "executing x"
    "rn_db x = None" "pre \<notin> set (oc_drawn st)" "mem \<notin> set (oc_drawn st)" "pre \<noteq> mem"
  shows "\<exists>y. oc_runs (orchestration_step env (Spawn (RunSpawns r) pre mem agent_type prompt description model arg) st) = oc_runs st @ [y] \<and>
    sc_agent_type (rn_call y) = agent_type \<and> sc_depth (rn_call y) = 0 \<and>
    from_context servers (sc_permissions (rn_call y)) = full_access servers"
proof -
  have "tree_ok st" using reached(3) by (simp add: assms(1))
  from spawn_without_row [OF this assms(2-7), of env agent_type prompt description model arg]
  obtain call where "orchestration_step env (Spawn (RunSpawns r) pre mem agent_type prompt description model arg) st =
      spawn_run call mem st" "sc_agent_type call = agent_type" "sc_depth call = 0" "sc_permissions call = None" by blast
  then show ?thesis by (simp add: spawn_run_def from_context_def del: orchestration_step.simps)
qed

text \<open>
  A subagent of a restricted root session, whose agent is not in the database.
\<close>

definition ex_unrecorded :: "orchestration_action list" where
  "ex_unrecorded =
     [ex_root (Some (AllowedForm (Some [''harness'']) (Some RESTRICTED_HARNESS_TOOLS))),
      ex_spawn (SessionSpawns 1) 2 3, BeginRun 0, CreateRun 0 True, AcquireRun 0]"

lemma unrecorded_subagents_escape_witness:
  "let st = run_orchestration (ex_agent_env 3) ex_unrecorded (orchestration_start (ex_agent_env 3) [])
   in map (\<lambda>x. from_context [''harness'', ''web''] (sc_permissions (rn_call x))) (oc_runs st) = [restricted] \<and>
      (\<exists>y. oc_runs (orchestration_step (ex_agent_env 3) (ex_spawn (RunSpawns 0) 4 5) st) = oc_runs st @ [y] \<and>
        from_context [''harness'', ''web''] (sc_permissions (rn_call y)) = full_access [''harness'', ''web''])"
proof -
  let ?st = "run_orchestration (ex_agent_env 3) ex_unrecorded (orchestration_start (ex_agent_env 3) [])"
  have runs: "map (\<lambda>x. (rn_id x, rn_db x, executing x)) (oc_runs ?st) = [(0, None, True)]" "oc_drawn ?st = [2, 3, 1]"
    "map (\<lambda>x. from_context [''harness'', ''web''] (sc_permissions (rn_call x))) (oc_runs ?st) = [restricted]"
    by (simp_all add: ex_unrecorded_def ex_orchestration_defs run_orchestration_defs from_context_def restricted_def Let_def)
  obtain x where x: "oc_runs ?st = [x]" "rn_id x = 0" "rn_db x = None" "executing x"
    using runs(1) by (auto simp: map_eq_Cons_conv)
  then have f: "find_run 0 ?st = Some x" by (simp add: find_run_def)
  have new: "4 \<notin> set (oc_drawn ?st)" "5 \<notin> set (oc_drawn ?st)" "(4::uuid) \<noteq> 5" unfolding runs(2) by simp_all
  show ?thesis
    using unrecorded_subagents_escape [OF refl f x(4,3) new] runs(3) unfolding ex_spawn_def Let_def by blast
qed

section \<open>Routing\<close>

text \<open>
  C38: For more than one model, \<open>route_model_stub\<close> answers different models of its pool, as many as asked
  for or as there are, and from as many different providers as the count and the pool allow, however the
  pool is shuffled. (It does not check the models: one whose provider is unknown may be among them.)
\<close>

theorem route_model_diverse:
  assumes "1 < count" "set shuffled = set (case candidates of None \<Rightarrow> KNOWN_MODELS | Some [] \<Rightarrow> KNOWN_MODELS | Some ms \<Rightarrow> ms)"
  shows "let ms = route_model_stub shuffled count candidates;
             providers = (\<lambda>ms. {p. \<exists>m \<in> set ms. \<exists>i. parse_model_string m = Inr (p, i)})
         in distinct ms \<and> set ms \<subseteq> set shuffled \<and> length ms = min (nat count) (card (set shuffled)) \<and>
            card (providers ms) = min (nat count) (card (providers shuffled))"
proof -
  have "Some p \<in> provider_of ` set ms \<longleftrightarrow> (\<exists>m \<in> set ms. \<exists>i. parse_model_string m = Inr (p, i))" for p ms
  proof -
    have "Some p = provider_of m \<longleftrightarrow> (\<exists>i. parse_model_string m = Inr (p, i))" for m
      by (auto simp: provider_of_def split: sum.split)
    then show ?thesis by (simp add: image_iff)
  qed
  then have "{p. \<exists>m \<in> set ms. \<exists>i. parse_model_string m = Inr (p, i)} = providers_of ms" for ms
    by (simp add: providers_of_def)
  then show ?thesis using route_result [OF assms] by (simp add: Let_def)
qed

lemma route_model_diverse_witness:
  "let pool = [''openai/o3'', ''openai/gpt-4o'', ''zai/glm-5'', ''unknown/model''];
       ms = route_model_stub (rev pool) 3 (Some pool)
   in ms = [''zai/glm-5'', ''openai/gpt-4o'', ''unknown/model''] \<and> distinct ms \<and> length ms = min 3 4"
proof -
  let ?pool = "[''openai/o3'', ''openai/gpt-4o'', ''zai/glm-5'', ''unknown/model'']"
  have "route_model_stub (rev ?pool) 3 (Some ?pool) = [''zai/glm-5'', ''openai/gpt-4o'', ''unknown/model'']"
    by code_simp
  moreover have "set (rev ?pool) = set (case Some ?pool of None \<Rightarrow> KNOWN_MODELS | Some [] \<Rightarrow> KNOWN_MODELS | Some ms \<Rightarrow> ms)"
    by (simp only: set_rev option.case list.case)
  then have "distinct (route_model_stub (rev ?pool) 3 (Some ?pool))"
    using route_model_diverse [of 3 "rev ?pool" "Some ?pool"] unfolding Let_def by linarith
  ultimately show ?thesis by (simp add: Let_def)
qed

end
