(* ===== verification/Spec2Isabelle.thy ===== *)
theory Spec2Isabelle
  imports Executor_Properties Poll_Properties Tool_Properties Access_Properties Lifecycle_Properties Work_Properties System_Properties Delivery_Properties Schedule_Properties Slack_Properties Stream_Properties Session_Properties Agent_Message_Properties Subagent_Properties
begin

text \<open>
  A model of the agent harness service (\<open>src/ypl/agent_harness_service\<close>, AHS below), of the task
  and schedule tools of its MCP server (\<open>src/ypl/mcp_server/tools\<close>) and of the parts of the Slack
  gateway (\<open>src/ypl/slack_agent_gateway\<close>) that its correctness rests on, with the theorems that make
  them correct.

  The program. Users and agents plan work as projects of tasks with dependencies; an executor
  polls the database, promotes and claims tasks and starts an agent session for each. A session is
  a sequence of turns: a message starts a turn or waits for the running one, a background task runs
  the agent and persists the answer. A scheduler starts sessions at given times. Agents delegate to
  subagents whose results come back through queues; what an agent does is streamed to WebSocket
  clients and appended to Slack replies. The parts meet in the PostgreSQL database (rows that several
  workers read and update), in Redis, and in dictionaries of the process.

  How the code is modelled. A table is a list of rows (records), a statement is a function on it, and
  a database transaction, or the code between two awaits, is one function from state to state.
  Exceptions and error answers are values of a sum type. Concurrency is the interleaving of such
  steps, as lists of actions or as an inductive step relation; transactions are taken as
  serialised (interleavings inside a transaction under READ COMMITTED are not modelled). Identifiers
  are words of 128 bits, Python integers \<open>int\<close> or \<open>nat\<close>, times \<open>int\<close>, texts character lists.

  Common part. \<open>Prelude\<close>: keyed tables, theorem collections. \<open>Py_Runtime\<close>: \<open>int()\<close>, \<open>uuid.UUID()\<close>,
  \<open>str\<close>, JSON values, as far as the code uses them. \<open>Db_Model\<close>: projects, tasks and their enumerations
  (\<open>db/agent_harness.py\<close>), the \<open>modified_at\<close> listener. \<open>Examples\<close>: small databases for the witnesses.

  Tasks. \<open>Task_Status\<close> (\<open>projects/task_utils.py\<close>): transition table, validation, spending, restart;
  it also states the contract of a database operation as the locales \<open>db_operation\<close> and
  \<open>atomic_operation\<close>, interpreted for restarting, completing and resuming. \<open>Task_Executor\<close>,
  \<open>Task_Execution\<close> and \<open>Task_Poll\<close> (\<open>task_executor.py\<close>): recovery, resolution, selection, claiming;
  execution, completion, resumption, notices; the poll with its back-off and capacities. \<open>Promotion\<close>:
  the loop that three functions share, as a locale over the test a task must pass, with the
  interpretations of the executor and the tools. \<open>Dep_Graph\<close>: the two cycle detections of the tools
  (a work list and a three-colour search), their termination and exactness; the locale \<open>cycle_check\<close>
  is what the tools need of either. \<open>Project_Helpers\<close>, \<open>Project_Lifecycle\<close>, \<open>Project_Create\<close>,
  \<open>Project_Queries\<close> (\<open>mcp_server/tools/project_tasks.py\<close>) and \<open>Project_Service\<close>
  (\<open>projects/project_service.py\<close>): every tool and REST operation. \<open>Task_Graph\<close>: the dependency graph as
  the tools keep it. \<open>Agent_System\<close> and \<open>Plan_Progress\<close>: the whole task system as a step relation, its
  invariant, and why a sound plan can be carried through. Properties: \<open>Executor_\<close>, \<open>Poll_\<close>, \<open>Tool_\<close>,
  \<open>Access_\<close>, \<open>Lifecycle_\<close>, \<open>Work_\<close>, \<open>System_Properties\<close>.

  Schedules. \<open>Schedule_Model\<close>: the tables. \<open>Scheduler\<close> and \<open>Scheduler_Loop\<close> (\<open>scheduler.py\<close>): recovery,
  claiming, completion, the poll, the choice of projects for synchronisation, the turns of the loop.
  \<open>Schedule_Tools\<close> (\<open>mcp_common/scheduled_agent_call_helpers.py\<close>) and \<open>Schedule_Frontends\<close> (MCP, REST,
  harness tools, console). \<open>Schedule_System\<close>: all of it as one system with the invariant that counts
  runs; a step is labelled with the schedule whose limit it edits, and the bound on runs counts from the
  last edit. Properties: \<open>Schedule_Properties\<close>.

  Sessions. \<open>Session_Turns\<close> (\<open>service/session_lifecycle.py\<close>, \<open>service/run_task.py\<close>,
  \<open>service/resolvers.py\<close>, \<open>lifespan.py\<close>): one session with its messages, queue, tasks, stops and restarts.
  \<open>Session_Invariant\<close> and \<open>Session_Answers\<close>: what every step keeps. \<open>Session_Plain\<close>, \<open>Session_Rest\<close>,
  \<open>Session_Settle\<close>: sessions to which only messages are sent; one turn at a time, nothing lost, coming
  to rest (the weight of a session bounds the steps this takes: a step of the due task lowers it).
  Properties: \<open>Session_Properties\<close>, with the histories that break what plain sessions keep.

  Agent messages. \<open>Agent_Messages\<close> (\<open>tools/agent_messaging.py\<close>, \<open>service/agent_message_delivery.py\<close>,
  \<open>service/agent_message_recovery.py\<close>, \<open>_drain_session_inbox\<close>): sending, delivery to new and existing
  sessions as coroutines over claims, recovery, for one process of the service; \<open>create_session\<close> is an
  argument. \<open>Agent_Delivery\<close> and \<open>Agent_Delivery_Steps\<close>: the invariant (claims, attempts, inboxes) and
  that every step keeps it. \<open>Agent_Rows\<close>: which steps change a row. Properties:
  \<open>Agent_Message_Properties\<close>.

  Subagents. \<open>Subagents\<close> (\<open>orchestration.py\<close>, \<open>tools/subagents.py\<close>, \<open>common/providers.py\<close>,
  \<open>SessionPermissions\<close> of \<open>common/types.py\<close>): spawning, the coroutine \<open>run_subagent\<close> in five steps (checks,
  row, place of its tool, execution, status and result), the stop of the descendants, the permissions
  a Slack follow-up rewrites, model resolution and routing; how an execution ends is an input. A run
  whose agent's configuration cannot be loaded dies without a result (\<open>oc_died\<close>). \<open>Subagent_Runs\<close>: accounts of runs and
  results (over the queues of \<open>Subagent_Queue\<close>), places, progress. \<open>Subagent_Tree\<close>: the tree of the
  session rows. \<open>Subagent_Cancel\<close>: the search of a stop and the tasks that are tracked.
  \<open>Model_Routing\<close>: the providers a routing covers. Properties: \<open>Subagent_Properties\<close>.

  Delivery. \<open>Subagent_Queue\<close> (\<open>core/subagent_queue.py\<close>): queues and drain tasks as coroutines that are
  resumed one step at a time. \<open>Stream_Translation\<close> and \<open>Stream_Client\<close> (\<open>core/streaming.py\<close>, upper half):
  the translation of runner events, and the client it is simulated by; \<open>Stream_Delivery\<close> (lower half):
  publishing, subscriptions and forwarding, against a reference (\<open>owed\<close>) that reads off the operations
  alone what a subscriber is to get. \<open>Slack_Buffer\<close> (\<open>slack_agent_gateway/buffer.py\<close>,
  \<open>callbacks.py\<close>): appends, flushes and their failures, with what other requests do while a flush waits; the buffered text is
  certain to be flushed only in \<open>orderly\<close> surroundings. Properties: \<open>Delivery_\<close>, \<open>Stream_\<close>,
  \<open>Slack_Properties\<close>.

  Bounds and fuel. The searches of \<open>Dep_Graph\<close> terminate by measures on the unvisited vertices. The
  overflow loop of the Slack buffer is a \<open>partial_function\<close>, and its termination is part of
  \<open>flush_keeps_the_text\<close>; the search of a stop is one as well, and \<open>stop_cancels_active_descendants\<close> says
  that it ends. \<open>settling\<close> takes the number of steps as an argument, and
  \<open>session_comes_to_rest\<close> gives the number that is enough. Everything else is structural recursion.

  Parameters. The creation of a session (\<open>create_session\<close>), croniter and the zone database, date
  parsing by \<open>fromisoformat\<close>, the answers of Slack, of the rate limiter and of the permission tables,
  drawn identifiers, the clock, the printing of some numbers and the text of notices are arguments
  of the definitions that use them.

  Not modelled. The executors and the streaming loop around them, the workspace, git, chat and
  browser tools, Linear synchronisation, the artifact, memory and search stores, authentication and
  HTTP routes, the console and terminal interfaces are I/O around external services or rendering;
  \<open>create_session\<close> is a parameter. Failures of the database
  and of Redis are left out wherever the code only logs them.
\<close>

end
